(* ===== verification/Js_Prelude.thy ===== *)
theory Js_Prelude
  imports Complex_Main "HOL-Library.AList" "HOL-Library.Multiset"
begin

text \<open>
  The JavaScript values and library functions that the modelled components use, and the
  lemmas about them that the component theories share.

  Finite JavaScript numbers that may be fractional (times, durations) are rationals of
  the type \<open>number\<close>; the rounding of doubles is not modelled. Where the code tests an
  input with \<open>Number.isFinite\<close> or \<open>Number.isSafeInteger\<close>, the input has the type
  \<open>jsnum\<close>, which has the infinities and NaN as well. A string is a list of code units
  below 256 (Latin-1), on which \<open>trim\<close> and \<open>toLowerCase\<close> act as JavaScript's do.
  A plain object is an association list in the order in which \<open>Object.keys\<close> lists its
  keys: array-index keys first and ascending, then the other keys in insertion order.
\<close>

named_theorems js_simps \<open>evaluation of the string and object functions\<close>

section \<open>Results\<close>

text \<open>
  A function that throws returns a sum with the error on the left. An operation on a state
  that may throw returns such a sum and the state it leaves behind, which the steps before
  the throw may have changed.
\<close>

fun bind_res :: "'e + 'a \<Rightarrow> ('a \<Rightarrow> 'e + 'b) \<Rightarrow> 'e + 'b" where
  "bind_res (Inl e) f = Inl e"
| "bind_res (Inr a) f = f a"

definition check_res :: "'e + 'a \<Rightarrow> 's \<Rightarrow> ('a \<Rightarrow> ('e + 'b) \<times> 's) \<Rightarrow> ('e + 'b) \<times> 's" where
  "check_res v s k = (case v of Inl e \<Rightarrow> (Inl e, s) | Inr a \<Rightarrow> k a)"

lemma check_res_simps [simp]:
  "check_res (Inl e) s k = (Inl e, s)" "check_res (Inr a) s k = k a"
  by (simp_all add: check_res_def)

lemma snd_check_res:
  "P s \<Longrightarrow> (\<And>a. v = Inr a \<Longrightarrow> P (snd (k a))) \<Longrightarrow> P (snd (check_res v s k))"
  by (cases v) simp_all

lemma map_sum_Inr_iff:
  "map_sum f g (fst p) = Inr y \<longleftrightarrow> (\<exists>r s. p = (Inr r, s) \<and> g r = y)"
  by (cases p; cases "fst p") auto

section \<open>Numbers\<close>

type_synonym number = rat

datatype jsnum = Fin number | PosInf | NegInf | NaN

definition max_safe :: int where
  "max_safe = 9007199254740991"

fun is_finite :: "jsnum \<Rightarrow> bool" where
  "is_finite (Fin _) = True"
| "is_finite _ = False"

fun is_safe_integer :: "jsnum \<Rightarrow> bool" where
  "is_safe_integer (Fin q) = (of_int \<lfloor>q\<rfloor> = q \<and> \<bar>\<lfloor>q\<rfloor>\<bar> \<le> max_safe)"
| "is_safe_integer _ = False"

text \<open>The positive safe integers are the ones the code uses as slots, capacities and counters.\<close>

definition safe_pos :: "jsnum \<Rightarrow> nat option" where
  "safe_pos x = (case x of
     Fin q \<Rightarrow> if is_safe_integer x \<and> q > 0 then Some (nat \<lfloor>q\<rfloor>) else None
   | _ \<Rightarrow> None)"

lemma safe_pos_pos: "safe_pos x = Some n \<Longrightarrow> 0 < n"
  by (auto simp: safe_pos_def split: jsnum.splits if_splits)

lemma safe_pos_of_nat [simp]:
  "safe_pos (Fin (of_nat n)) = (if 0 < n \<and> int n \<le> max_safe then Some n else None)"
  by (simp add: safe_pos_def)

lemma safe_pos_bound: "safe_pos x = Some n \<Longrightarrow> int n \<le> max_safe"
  by (auto simp: safe_pos_def split: jsnum.splits if_splits)

section \<open>Strings\<close>

definition js_space :: "char \<Rightarrow> bool" where
  "js_space c \<longleftrightarrow> (of_char c :: nat) \<in> {9, 10, 11, 12, 13, 32, 160}"

definition trim_left :: "string \<Rightarrow> string" where
  "trim_left s = dropWhile js_space s"

definition trim_right :: "string \<Rightarrow> string" where
  "trim_right s = rev (dropWhile js_space (rev s))"

definition trim :: "string \<Rightarrow> string" where
  "trim s = trim_right (trim_left s)"

definition lower_char :: "char \<Rightarrow> char" where
  "lower_char c =
     (let n = of_char c :: nat
      in if (65 \<le> n \<and> n \<le> 90) \<or> (192 \<le> n \<and> n \<le> 222 \<and> n \<noteq> 215) then char_of (n + 32) else c)"

definition lower :: "string \<Rightarrow> string" where
  "lower s = map lower_char s"

definition starts_with :: "string \<Rightarrow> string \<Rightarrow> bool" where
  "starts_with p s \<longleftrightarrow> take (length p) s = p"

definition is_digit :: "char \<Rightarrow> bool" where
  "is_digit c \<longleftrightarrow> 48 \<le> (of_char c :: nat) \<and> (of_char c :: nat) \<le> 57"

definition is_lower_letter :: "char \<Rightarrow> bool" where
  "is_lower_letter c \<longleftrightarrow> 97 \<le> (of_char c :: nat) \<and> (of_char c :: nat) \<le> 122"

definition nl :: string where
  "nl = [CHR 0x0A]"

fun join_with :: "string \<Rightarrow> string list \<Rightarrow> string" where
  "join_with sep [] = []"
| "join_with sep [x] = x"
| "join_with sep (x # y # xs) = x @ sep @ join_with sep (y # xs)"

text \<open>\<open>s.split(c)\<close> for a single character.\<close>

fun split_on :: "char \<Rightarrow> string \<Rightarrow> string list" where
  "split_on sep [] = [ [] ]"
| "split_on sep (c # cs) =
     (if c = sep then [] # split_on sep cs
      else case split_on sep cs of w # ws \<Rightarrow> (c # w) # ws | [] \<Rightarrow> [ [c] ])"

text \<open>The part of a string before and after the first place a character stands.\<close>

fun cut_at :: "char \<Rightarrow> string \<Rightarrow> (string \<times> string) option" where
  "cut_at sep [] = None"
| "cut_at sep (c # cs) = (if c = sep then Some ([], cs) else map_option (\<lambda>(a, b). (c # a, b)) (cut_at sep cs))"

text \<open>Changing the first element that satisfies a test: \<open>find\<close>, then assigning to its fields.\<close>

fun update_first :: "('a \<Rightarrow> bool) \<Rightarrow> ('a \<Rightarrow> 'a) \<Rightarrow> 'a list \<Rightarrow> 'a list" where
  "update_first P f [] = []"
| "update_first P f (x # xs) = (if P x then f x # xs else x # update_first P f xs)"

text \<open>\<open>xs.slice(-n)\<close>.\<close>

definition last_n :: "nat \<Rightarrow> 'a list \<Rightarrow> 'a list" where
  "last_n n xs = drop (length xs - n) xs"

text \<open>\<open>s || undefined\<close>: the empty string counts as absent.\<close>

definition truthy :: "string option \<Rightarrow> string option" where
  "truthy v = (case v of Some (c # cs) \<Rightarrow> Some (c # cs) | _ \<Rightarrow> None)"

lemma truthy_simps [simp]:
  "truthy None = None" "truthy (Some []) = None" "s \<noteq> [] \<Longrightarrow> truthy (Some s) = Some s"
  by (auto simp: truthy_def split: list.splits)

lemma truthy_idem [simp]: "truthy (truthy v) = truthy v"
  by (auto simp: truthy_def split: option.splits list.splits)

lemma dropWhile_idem: "dropWhile P (dropWhile P xs) = dropWhile P xs"
  by (induction xs) auto

lemma trim_left_Nil [simp]: "trim_left [] = []"
  by (simp add: trim_left_def)

lemma trim_right_first: "trim_right (c # cs) = (if \<not> js_space c \<or> trim_right cs \<noteq> [] then c # trim_right cs else [])"
proof -
  have "rev (dropWhile js_space (rev cs @ [c])) =
    (if \<not> js_space c \<or> dropWhile js_space (rev cs) \<noteq> [] then c # rev (dropWhile js_space (rev cs)) else [])"
    by (auto simp: dropWhile_append)
  then show ?thesis by (simp add: trim_right_def)
qed

lemma trim_left_trim_right: "trim_left s = s \<Longrightarrow> trim_left (trim_right s) = trim_right s"
proof (cases s)
  case Nil
  then show ?thesis by (simp add: trim_left_def trim_right_def)
next
  case (Cons c cs)
  moreover assume "trim_left s = s"
  ultimately have "\<not> js_space c"
    by (auto simp: trim_left_def split: if_splits dest: dropWhile_eq_Cons_conv [THEN iffD1])
  with Cons show ?thesis by (simp add: trim_right_first trim_left_def)
qed

lemma trim_idem [simp]: "trim (trim s) = trim s"
proof -
  have "trim_left (trim_left s) = trim_left s" by (simp add: trim_left_def dropWhile_idem)
  then have "trim_left (trim s) = trim s" by (simp add: trim_def trim_left_trim_right)
  moreover have "trim_right (trim_right t) = trim_right t" for t
    by (simp add: trim_right_def dropWhile_idem)
  ultimately show ?thesis by (simp add: trim_def)
qed

lemma trim_Nil [simp]: "trim [] = []"
  by (simp add: trim_def trim_left_def trim_right_def)

lemma starts_with_append [simp]: "starts_with p (p @ s)"
  by (simp add: starts_with_def)

lemma starts_with_iff: "starts_with p s \<longleftrightarrow> (\<exists>t. s = p @ t)"
  by (auto simp: starts_with_def) (metis append_take_drop_id)

section \<open>Decimal numerals\<close>

definition digit_char :: "nat \<Rightarrow> char" where
  "digit_char d = char_of (48 + d)"

fun show_nat :: "nat \<Rightarrow> string" where
  "show_nat n = (if n < 10 then [digit_char n] else show_nat (n div 10) @ [digit_char (n mod 10)])"

declare show_nat.simps [simp del]

definition show_int :: "int \<Rightarrow> string" where
  "show_int i = (if i < 0 then ''-'' @ show_nat (nat (- i)) else show_nat (nat i))"

fun frac_digits :: "nat \<Rightarrow> number \<Rightarrow> string" where
  "frac_digits 0 r = []"
| "frac_digits (Suc k) r =
     (if r = 0 then [] else digit_char (nat \<lfloor>10 * r\<rfloor>) # frac_digits k (10 * r - of_int \<lfloor>10 * r\<rfloor>))"

text \<open>\<open>String(x)\<close> of a finite number: at most 17 digits after the point, no exponent form.\<close>

definition show_number :: "number \<Rightarrow> string" where
  "show_number q =
     (if q < 0 then ''-'' else []) @
     (let a = \<bar>q\<bar> in show_nat (nat \<lfloor>a\<rfloor>) @
       (if a = of_int \<lfloor>a\<rfloor> then [] else ''.'' @ frac_digits 17 (a - of_int \<lfloor>a\<rfloor>)))"

definition digits_value :: "string \<Rightarrow> nat" where
  "digits_value s = foldl (\<lambda>v c. 10 * v + (of_char c - 48)) 0 s"

lemma digit_char_value: "d < 10 \<Longrightarrow> (of_char (digit_char d) :: nat) = 48 + d"
  by (simp add: digit_char_def)

lemma digits_value_snoc: "digits_value (s @ [c]) = 10 * digits_value s + (of_char c - 48)"
  by (simp add: digits_value_def)

lemma digits_value_show_nat [simp]: "digits_value (show_nat n) = n"
proof (induction n rule: show_nat.induct)
  case (1 n)
  show ?case
  proof (cases "n < 10")
    case True
    then show ?thesis by (simp add: show_nat.simps [of n] digit_char_value digits_value_def)
  next
    case False
    then have "digits_value (show_nat n) = 10 * digits_value (show_nat (n div 10)) + n mod 10"
      by (subst show_nat.simps) (simp add: digit_char_value digits_value_snoc)
    with False "1.IH" show ?thesis by simp
  qed
qed

lemma show_nat_inject [simp]: "show_nat m = show_nat n \<longleftrightarrow> m = n"
  by (metis digits_value_show_nat)

lemma show_nat_not_Nil [simp]: "show_nat n \<noteq> []"
  by (subst show_nat.simps) simp

lemma is_digit_digit_char: "d < 10 \<Longrightarrow> is_digit (digit_char d)"
  by (simp add: is_digit_def digit_char_value)

lemma show_nat_digits: "list_all is_digit (show_nat n)"
proof (induction n rule: show_nat.induct)
  case (1 n)
  then show ?case
    by (cases "n < 10") (simp_all add: show_nat.simps [of n] is_digit_digit_char)
qed

section \<open>Lower case and plain characters\<close>

lemma js_space_lower [simp]: "js_space (lower_char c) = js_space c"
proof -
  have "(of_char (char_of (n + 32) :: char) :: nat) = n + 32" if "n \<le> 222" for n :: nat using that by simp
  then show ?thesis by (auto simp: js_space_def lower_char_def Let_def)
qed

lemma lower_char_idem [simp]: "lower_char (lower_char c) = lower_char c"
proof -
  have "(of_char (char_of (n + 32) :: char) :: nat) = n + 32" if "n \<le> 222" for n :: nat using that by simp
  then show ?thesis by (auto simp: lower_char_def Let_def)
qed

lemma lower_idem [simp]: "lower (lower s) = lower s"
  by (simp add: lower_def)

lemma lower_trim: "lower (trim s) = trim (lower s)"
  by (simp add: lower_def trim_def trim_left_def trim_right_def dropWhile_map rev_map comp_def)

lemma lower_append [simp]: "lower (s @ t) = lower s @ lower t"
  by (simp add: lower_def)

lemma trim_no_space: "list_all (\<lambda>c. \<not> js_space c) s \<Longrightarrow> trim s = s"
proof -
  have left: "dropWhile js_space s = s" if "list_all (\<lambda>c. \<not> js_space c) s" for s
    using that by (cases s) simp_all
  assume a: "list_all (\<lambda>c. \<not> js_space c) s"
  then have "list_all (\<lambda>c. \<not> js_space c) (rev s)" by (simp add: list_all_rev)
  then show ?thesis using left a by (simp add: trim_def trim_left_def trim_right_def)
qed

lemma lower_fixed: "list_all (\<lambda>c. lower_char c = c) s \<Longrightarrow> lower s = s"
  by (induction s) (simp_all add: lower_def)

text \<open>Characters that canonical keys are made of: they are not spaces and equal their lower case.\<close>

definition key_char :: "char \<Rightarrow> bool" where
  "key_char c \<longleftrightarrow> \<not> js_space c \<and> lower_char c = c"

lemma key_chars_trim: "list_all key_char s \<Longrightarrow> trim s = s"
  by (rule trim_no_space) (auto simp: list_all_iff key_char_def)

lemma key_chars_lower: "list_all key_char s \<Longrightarrow> lower s = s"
  by (rule lower_fixed) (auto simp: list_all_iff key_char_def)

lemma digit_key_char: "is_digit c \<Longrightarrow> key_char c"
  by (auto simp: is_digit_def key_char_def js_space_def lower_char_def Let_def)

lemma digits_key_chars: "list_all is_digit s \<Longrightarrow> list_all key_char s"
  by (auto simp: list_all_iff digit_key_char)

lemma takeWhile_end: "list_all P xs \<Longrightarrow> ys = [] \<or> \<not> P (hd ys) \<Longrightarrow> takeWhile P (xs @ ys) = xs"
  by (induction xs) (cases ys; auto)+

lemma dropWhile_end: "list_all P xs \<Longrightarrow> ys = [] \<or> \<not> P (hd ys) \<Longrightarrow> dropWhile P (xs @ ys) = ys"
  by (induction xs) (cases ys; auto)+

section \<open>Plain objects\<close>

type_synonym 'v jsobj = "(string \<times> 'v) list"

text \<open>An array index: a canonical numeral below \<open>2 ^ 32 - 1\<close>.\<close>

definition is_index :: "string \<Rightarrow> bool" where
  "is_index k \<longleftrightarrow> k \<noteq> [] \<and> list_all is_digit k \<and> int (digits_value k) < 4294967295 \<and> show_nat (digits_value k) = k"

definition canon :: "'v jsobj \<Rightarrow> 'v jsobj" where
  "canon ob = sort_key (\<lambda>p. digits_value (fst p)) (filter (\<lambda>p. is_index (fst p)) ob)
     @ filter (\<lambda>p. \<not> is_index (fst p)) ob"

definition obj_has :: "'v jsobj \<Rightarrow> string \<Rightarrow> bool" where
  "obj_has ob k \<longleftrightarrow> map_of ob k \<noteq> None"

definition obj_set :: "'v jsobj \<Rightarrow> string \<Rightarrow> 'v \<Rightarrow> 'v jsobj" where
  "obj_set ob k v = canon (AList.update k v ob)"

definition obj_delete :: "'v jsobj \<Rightarrow> string \<Rightarrow> 'v jsobj" where
  "obj_delete ob k = AList.delete k ob"

definition obj_keys :: "'v jsobj \<Rightarrow> string list" where
  "obj_keys ob = map fst ob"

definition from_entries :: "(string \<times> 'v) list \<Rightarrow> 'v jsobj" where
  "from_entries ps = foldl (\<lambda>ob (k, v). obj_set ob k v) [] ps"

definition wf_obj :: "'v jsobj \<Rightarrow> bool" where
  "wf_obj ob \<longleftrightarrow> distinct (map fst ob) \<and> canon ob = ob"

lemma mset_canon: "mset (canon ob) = mset ob"
  using multiset_partition [of "mset ob" "\<lambda>p. is_index (fst p)"] by (simp add: canon_def)

lemma set_canon [simp]: "set (canon ob) = set ob"
  by (auto simp: canon_def)

lemma distinct_keys_canon [simp]: "distinct (map fst (canon ob)) = distinct (map fst ob)"
proof -
  have "mset (map fst (canon ob)) = mset (map fst ob)" by (simp add: mset_canon)
  then show ?thesis by (rule mset_eq_imp_distinct_iff)
qed

lemma map_of_canon:
  assumes "distinct (map fst ob)"
  shows "map_of (canon ob) = map_of ob"
  by (rule map_of_inject_set [THEN iffD2]) (use assms in simp_all)

lemma canon_idem [simp]: "canon (canon ob) = canon ob"
proof -
  let ?P = "\<lambda>p. is_index (fst p)" and ?f = "\<lambda>p. digits_value (fst p)"
  have "filter ?P (canon ob) = sort_key ?f (filter ?P ob)"
    by (simp add: canon_def filter_sort)
  moreover have "filter (\<lambda>p. \<not> ?P p) (canon ob) = filter (\<lambda>p. \<not> ?P p) ob"
    by (simp add: canon_def filter_sort)
  moreover have "sort_key ?f (sort_key ?f xs) = sort_key ?f xs" for xs :: "(string \<times> 'a) list"
    by (rule sort_key_id_if_sorted) simp
  ultimately show ?thesis by (simp add: canon_def [of "canon ob"]) (simp add: canon_def)
qed

lemma canon_filter: "canon (filter P ob) = filter P (canon ob)"
  by (simp add: canon_def filter_sort conj_commute)

lemma obj_delete_filter: "obj_delete ob k = filter (\<lambda>p. fst p \<noteq> k) ob"
  by (induction ob) (auto simp: obj_delete_def)

lemma wf_obj_Nil [simp]: "wf_obj []"
  by (simp add: wf_obj_def canon_def)

lemma wf_obj_filter: "wf_obj ob \<Longrightarrow> wf_obj (filter P ob)"
  by (simp add: wf_obj_def canon_filter distinct_map_filter)

lemma wf_obj_delete: "wf_obj ob \<Longrightarrow> wf_obj (obj_delete ob k)"
  by (simp add: obj_delete_filter wf_obj_filter)

lemma wf_obj_set: "wf_obj ob \<Longrightarrow> wf_obj (obj_set ob k v)"
  by (simp add: wf_obj_def obj_set_def distinct_update)

lemma wf_obj_distinct: "wf_obj ob \<Longrightarrow> distinct (map fst ob)"
  by (simp add: wf_obj_def)

lemma map_of_obj_set: "wf_obj ob \<Longrightarrow> map_of (obj_set ob k v) = (map_of ob)(k \<mapsto> v)"
  by (simp add: wf_obj_def obj_set_def map_of_canon distinct_update update_conv')

lemma map_of_obj_delete: "map_of (obj_delete ob k) = (map_of ob)(k := None)"
  by (simp add: obj_delete_def delete_conv')

lemma wf_obj_from_entries: "wf_obj (from_entries ps)"
proof -
  have "wf_obj ob \<Longrightarrow> wf_obj (foldl (\<lambda>ob (k, v). obj_set ob k v) ob ps)" for ob :: "'a jsobj"
    by (induction ps arbitrary: ob) (auto simp: wf_obj_set)
  then show ?thesis by (simp add: from_entries_def)
qed

lemma set_update_assoc: "set (AList.update k v ob) \<subseteq> insert (k, v) (set ob)"
  by (induction ob) auto

lemma update_fresh: "k \<notin> set (map fst ob) \<Longrightarrow> AList.update k v ob = ob @ [(k, v)]"
  by (induction ob) auto

lemma set_obj_set: "set (obj_set ob k v) \<subseteq> insert (k, v) (set ob)"
  using set_update_assoc by (force simp: obj_set_def)

lemma canon_append_fresh:
  assumes "k \<notin> set (map fst ob)"
  shows "canon (canon ob @ [(k, v)]) = canon (ob @ [(k, v)])"
proof -
  let ?f = "\<lambda>p. digits_value (fst p)"
  have "sort_key ?f (sort_key ?f xs @ ys) = sort_key ?f (xs @ ys)" for xs ys :: "(string \<times> 'a) list"
  proof (rule properties_for_sort_key)
    fix p
    show "filter (\<lambda>x. ?f p = ?f x) (sort_key ?f (xs @ ys)) = filter (\<lambda>x. ?f p = ?f x) (sort_key ?f xs @ ys)"
      using sort_key_stable [of ?f "?f p" "xs @ ys"] sort_key_stable [of ?f "?f p" xs]
      by (simp add: eq_commute [of "?f p"])
  qed simp_all
  note s = this
  show ?thesis
    by (simp add: canon_def filter_sort s)
qed

lemma from_entries_canon:
  assumes "distinct (map fst ps)"
  shows "from_entries ps = canon ps"
  using assms
proof (induction ps rule: rev_induct)
  case Nil
  then show ?case by (simp add: from_entries_def canon_def)
next
  case (snoc p ps)
  obtain k v where p: "p = (k, v)" by (cases p)
  have new: "k \<notin> set (map fst ps)" using snoc.prems p by auto
  then have "k \<notin> set (map fst (canon ps))" by simp
  then have "AList.update k v (canon ps) = canon ps @ [(k, v)]"
    by (simp add: update_fresh)
  moreover have "from_entries (ps @ [(k, v)]) = obj_set (from_entries ps) k v"
    by (simp add: from_entries_def)
  ultimately show ?case
    using snoc new p by (simp add: obj_set_def canon_append_fresh)
qed

lemma from_entries_id: "wf_obj ob \<Longrightarrow> from_entries ob = ob"
  by (simp add: wf_obj_def from_entries_canon)

lemma set_from_entries: "set (from_entries ps) \<subseteq> set ps"
proof -
  have "set (foldl (\<lambda>ob (k, v). obj_set ob k v) ob ps) \<subseteq> set ob \<union> set ps" for ob :: "'a jsobj"
  proof (induction ps arbitrary: ob)
    case (Cons p ps)
    then show ?case using set_obj_set [of ob "fst p" "snd p"]
      by (cases p) (fastforce dest: subsetD)
  qed simp
  then show ?thesis by (force simp: from_entries_def)
qed

end
