(* ===== verification/Js_Json.thy ===== *)
theory Js_Json
  imports Js_Prelude
begin

text \<open>
  The values \<open>JSON.parse\<close> returns, the conversions the code applies to them, and the
  dates it prints. A persisted file is modelled as the value its text parses to.
\<close>

datatype json =
    JNull
  | JBool bool
  | JNum jsnum
  | JStr string
  | JArr "json list"
  | JObj "json jsobj"

fun num_string :: "jsnum \<Rightarrow> string" where
  "num_string (Fin q) = show_number q"
| "num_string PosInf = ''Infinity''"
| "num_string NegInf = ''-Infinity''"
| "num_string NaN = ''NaN''"

text \<open>\<open>String(value ?? "")\<close>: inside an array, \<open>null\<close> prints as nothing.\<close>

fun js_string :: "json \<Rightarrow> string" where
  "js_string JNull = []"
| "js_string (JBool b) = (if b then ''true'' else ''false'')"
| "js_string (JNum x) = num_string x"
| "js_string (JStr s) = s"
| "js_string (JArr vs) = join_with '','' (map js_string vs)"
| "js_string (JObj ob) = ''[object Object]''"

fun json_fields :: "json \<Rightarrow> json jsobj" where
  "json_fields (JObj ob) = ob"
| "json_fields _ = []"

text \<open>\<open>raw && typeof raw === "object"\<close>; an array is an object without named fields.\<close>

fun json_is_object :: "json \<Rightarrow> bool" where
  "json_is_object (JObj _) = True"
| "json_is_object (JArr _) = True"
| "json_is_object _ = False"

definition json_get :: "json \<Rightarrow> string \<Rightarrow> json option" where
  "json_get v k = map_of (json_fields v) k"

fun as_string :: "json option \<Rightarrow> string option" where
  "as_string (Some (JStr s)) = Some s"
| "as_string _ = None"

fun as_number :: "json option \<Rightarrow> jsnum option" where
  "as_number (Some (JNum x)) = Some x"
| "as_number _ = None"

fun as_array :: "json option \<Rightarrow> json list option" where
  "as_array (Some (JArr vs)) = Some vs"
| "as_array _ = None"

text \<open>\<open>Object.entries\<close> of a value: an array's entries are its elements by index.\<close>

fun json_entries :: "json \<Rightarrow> (string \<times> json) list" where
  "json_entries (JObj ob) = ob"
| "json_entries (JArr vs) = map (\<lambda>(i, v). (show_nat i, v)) (enumerate 0 vs)"
| "json_entries _ = []"

text \<open>A string field that is present and not blank.\<close>

definition nonblank :: "json option \<Rightarrow> string option" where
  "nonblank v = (case as_string v of None \<Rightarrow> None | Some s \<Rightarrow> if trim s = [] then None else Some s)"

definition finite_positive :: "json option \<Rightarrow> number option" where
  "finite_positive v = (case as_number v of Some (Fin q) \<Rightarrow> if 0 < q then Some q else None | _ \<Rightarrow> None)"

lemma nonblank_JStr [simp]: "nonblank (Some (JStr s)) = (if trim s = [] then None else Some s)"
  by (simp add: nonblank_def)

lemma nonblank_SomeD: "nonblank v = Some s \<Longrightarrow> trim s \<noteq> []"
  by (auto simp: nonblank_def split: option.splits if_splits)

lemma finite_positive_JNum [simp]: "finite_positive (Some (JNum (Fin q))) = (if 0 < q then Some q else None)"
  by (simp add: finite_positive_def)

lemma finite_positive_SomeD: "finite_positive v = Some q \<Longrightarrow> 0 < q"
  by (auto simp: finite_positive_def split: option.splits jsnum.splits if_splits)

section \<open>Dates\<close>

text \<open>
  \<open>new Date(ms).toISOString()\<close> for times the \<open>Date\<close> type can hold: days since the
  epoch are turned into a civil date by counting eras of 400 years from March.
\<close>

definition pad :: "nat \<Rightarrow> nat \<Rightarrow> string" where
  "pad w n = (let s = show_nat n in replicate (w - length s) (CHR ''0'') @ s)"

definition civil_from_days :: "int \<Rightarrow> int \<times> int \<times> int" where
  "civil_from_days days =
     (let z = days + 719468;
          era = z div 146097;
          doe = z mod 146097;
          yoe = (doe - doe div 1460 + doe div 36524 - doe div 146096) div 365;
          doy = doe - (365 * yoe + yoe div 4 - yoe div 100);
          mp = (5 * doy + 2) div 153;
          d = doy - (153 * mp + 2) div 5 + 1;
          m = (if mp < 10 then mp + 3 else mp - 9)
      in (yoe + era * 400 + (if m \<le> 2 then 1 else 0), m, d))"

definition iso_string :: "number \<Rightarrow> string" where
  "iso_string q =
     (let t = (if q < 0 then - \<lfloor>- q\<rfloor> else \<lfloor>q\<rfloor>);
          (y, m, d) = civil_from_days (t div 86400000);
          ms = t mod 86400000;
          year = (if 0 \<le> y \<and> y \<le> 9999 then pad 4 (nat y)
                  else (if y < 0 then ''-'' else ''+'') @ pad 6 (nat \<bar>y\<bar>))
      in year @ ''-'' @ pad 2 (nat m) @ ''-'' @ pad 2 (nat d) @ ''T''
         @ pad 2 (nat (ms div 3600000)) @ '':'' @ pad 2 (nat (ms div 60000 mod 60)) @ '':''
         @ pad 2 (nat (ms div 1000 mod 60)) @ ''.'' @ pad 3 (nat (ms mod 1000)) @ ''Z'')"

end
