(* ===== verification/Lease_Store.thy ===== *)
theory Lease_Store
  imports Js_Json
begin

text \<open>
  The records of the resource lease pools (\<open>web/server/resource-lease-types.ts\<close>) and the
  persistent store that normalises whatever the lease file holds
  (\<open>web/server/resource-lease-store.ts\<close>). The lemmas show that normalising yields files
  in normal form, and that a file in normal form survives being written and read back.
\<close>

section \<open>Records\<close>

definition DEFAULT_RESOURCE_LEASE_TTL_MS :: number where
  "DEFAULT_RESOURCE_LEASE_TTL_MS = 30 * 60000"

record lease =
  lease_resourceKey :: string
  lease_slot :: nat
  lease_ownerSessionId :: string
  lease_questId :: "string option"
  lease_purpose :: string
  lease_metadata :: "string jsobj"
  lease_acquiredAt :: number
  lease_heartbeatAt :: number
  lease_ttlMs :: number
  lease_expiresAt :: number

record waiter =
  waiter_id :: string
  waiter_resourceKey :: string
  waiter_sessionId :: string
  waiter_questId :: "string option"
  waiter_purpose :: string
  waiter_metadata :: "string jsobj"
  waiter_queuedAt :: number
  waiter_ttlMs :: number

record lease_file =
  capacities :: "nat jsobj"
  nextWaiterId :: nat
  leases :: "lease list"
  waiters :: "waiter list jsobj"

definition emptyResourceLeaseFile :: lease_file where
  "emptyResourceLeaseFile = \<lparr>capacities = [], nextWaiterId = 1, leases = [], waiters = []\<rparr>"

section \<open>Reading a file\<close>

definition normalizeMetadata :: "json option \<Rightarrow> string jsobj" where
  "normalizeMetadata raw = (case raw of
     Some (JObj ob) \<Rightarrow>
       from_entries (filter (\<lambda>(k, v). k \<noteq> [] \<and> v \<noteq> []) (map (\<lambda>(k, v). (trim k, trim (js_string v))) ob))
   | _ \<Rightarrow> [])"

definition normalizeLease :: "bool \<Rightarrow> json \<Rightarrow> lease list" where
  "normalizeLease counted raw =
     (if \<not> json_is_object raw then []
      else case (nonblank (json_get raw ''resourceKey''), nonblank (json_get raw ''ownerSessionId''),
                 nonblank (json_get raw ''purpose''), finite_positive (json_get raw ''acquiredAt''),
                 finite_positive (json_get raw ''heartbeatAt''), finite_positive (json_get raw ''ttlMs''),
                 finite_positive (json_get raw ''expiresAt'')) of
        (Some key, Some owner, Some purpose, Some acquired, Some heartbeat, Some ttl, Some expires) \<Rightarrow>
          [\<lparr>lease_resourceKey = key,
            lease_slot = (case as_number (json_get raw ''slot'') of
                Some x \<Rightarrow> (case safe_pos x of Some n \<Rightarrow> if counted then n else 1 | None \<Rightarrow> 1)
              | None \<Rightarrow> 1),
            lease_ownerSessionId = owner,
            lease_questId = truthy (as_string (json_get raw ''questId'')),
            lease_purpose = purpose,
            lease_metadata = normalizeMetadata (json_get raw ''metadata''),
            lease_acquiredAt = acquired,
            lease_heartbeatAt = heartbeat,
            lease_ttlMs = ttl,
            lease_expiresAt = expires\<rparr>]
      | _ \<Rightarrow> [])"

definition normalizeWaiter :: "string \<Rightarrow> json \<Rightarrow> waiter list" where
  "normalizeWaiter key raw =
     (if \<not> json_is_object raw then []
      else case (nonblank (json_get raw ''id''), nonblank (json_get raw ''waiterSessionId''),
                 nonblank (json_get raw ''purpose''), finite_positive (json_get raw ''queuedAt'')) of
        (Some i, Some session, Some purpose, Some queued) \<Rightarrow>
          [\<lparr>waiter_id = i,
            waiter_resourceKey = key,
            waiter_sessionId = session,
            waiter_questId = truthy (as_string (json_get raw ''questId'')),
            waiter_purpose = purpose,
            waiter_metadata = normalizeMetadata (json_get raw ''metadata''),
            waiter_queuedAt = queued,
            waiter_ttlMs = (case finite_positive (json_get raw ''ttlMs'') of
                Some t \<Rightarrow> t | None \<Rightarrow> 30 * 60000)\<rparr>]
      | _ \<Rightarrow> [])"

definition add_entry :: "waiter list jsobj \<Rightarrow> string \<times> json \<Rightarrow> waiter list jsobj" where
  "add_entry acc entry = (case entry of (key, v) \<Rightarrow> (case v of
     JArr vs \<Rightarrow> (let entries = concat (map (normalizeWaiter key) vs)
                in if entries = [] then acc else obj_set acc key entries)
   | _ \<Rightarrow> acc))"

definition normalizeWaiters :: "json option \<Rightarrow> waiter list jsobj" where
  "normalizeWaiters raw = (case raw of Some (JObj ob) \<Rightarrow> foldl add_entry [] ob | _ \<Rightarrow> [])"

definition normalizeCapacities :: "json option \<Rightarrow> nat jsobj" where
  "normalizeCapacities raw = (case raw of
     Some c \<Rightarrow> if json_is_object c
       then from_entries (List.map_filter
         (\<lambda>(k, x). case x of JNum n \<Rightarrow> map_option (Pair k) (safe_pos n) | _ \<Rightarrow> None) (json_entries c))
       else []
   | None \<Rightarrow> [])"

definition normalizeNextWaiterId :: "json option \<Rightarrow> nat" where
  "normalizeNextWaiterId raw = (case as_number raw of
     Some (Fin q) \<Rightarrow> if of_int \<lfloor>q\<rfloor> = q \<and> q > 0 then nat \<lfloor>q\<rfloor> else 1
   | _ \<Rightarrow> 1)"

definition normalizeResourceLeaseFile :: "json \<Rightarrow> lease_file" where
  "normalizeResourceLeaseFile raw =
     (if \<not> json_is_object raw then emptyResourceLeaseFile
      else
        let v2 = (json_get raw ''version'' = Some (JNum (Fin 2)))
        in \<lparr>capacities = (if v2 then normalizeCapacities (json_get raw ''capacities'') else []),
            nextWaiterId = normalizeNextWaiterId (json_get raw ''nextWaiterId''),
            leases = (case as_array (json_get raw ''leases'') of
                Some vs \<Rightarrow> concat (map (normalizeLease v2) vs)
              | None \<Rightarrow> []),
            waiters = normalizeWaiters (json_get raw ''waiters'')\<rparr>)"

section \<open>Writing a file\<close>

definition opt_field :: "string \<Rightarrow> string option \<Rightarrow> json jsobj" where
  "opt_field k v = (case v of None \<Rightarrow> [] | Some s \<Rightarrow> [(k, JStr s)])"

definition nat_json :: "nat \<Rightarrow> json" where
  "nat_json n = JNum (Fin (of_nat n))"

definition metadata_json :: "string jsobj \<Rightarrow> json" where
  "metadata_json m = JObj (map (\<lambda>(k, v). (k, JStr v)) m)"

definition lease_json :: "lease \<Rightarrow> json" where
  "lease_json l = JObj
     ([(''resourceKey'', JStr (lease_resourceKey l)),
       (''slot'', nat_json (lease_slot l)),
       (''ownerSessionId'', JStr (lease_ownerSessionId l))]
      @ opt_field ''questId'' (lease_questId l) @
      [(''purpose'', JStr (lease_purpose l)),
       (''metadata'', metadata_json (lease_metadata l)),
       (''acquiredAt'', JNum (Fin (lease_acquiredAt l))),
       (''heartbeatAt'', JNum (Fin (lease_heartbeatAt l))),
       (''ttlMs'', JNum (Fin (lease_ttlMs l))),
       (''expiresAt'', JNum (Fin (lease_expiresAt l)))])"

definition waiter_json :: "waiter \<Rightarrow> json" where
  "waiter_json w = JObj
     ([(''id'', JStr (waiter_id w)),
       (''resourceKey'', JStr (waiter_resourceKey w)),
       (''waiterSessionId'', JStr (waiter_sessionId w))]
      @ opt_field ''questId'' (waiter_questId w) @
      [(''purpose'', JStr (waiter_purpose w)),
       (''metadata'', metadata_json (waiter_metadata w)),
       (''queuedAt'', JNum (Fin (waiter_queuedAt w))),
       (''ttlMs'', JNum (Fin (waiter_ttlMs w)))])"

definition file_json :: "lease_file \<Rightarrow> json" where
  "file_json d = JObj
     [(''version'', JNum (Fin 2)),
      (''capacities'', JObj (map (\<lambda>(k, n). (k, nat_json n)) (capacities d))),
      (''nextWaiterId'', nat_json (nextWaiterId d)),
      (''leases'', JArr (map lease_json (leases d))),
      (''waiters'', JObj (map (\<lambda>(k, ws). (k, JArr (map waiter_json ws))) (waiters d)))]"

text \<open>
  The file on disk: \<open>None\<close> when there is none, or when its text does not parse. Loading
  then starts from the empty file.
\<close>

type_synonym disk = "json option"

definition store_load :: "disk \<Rightarrow> lease_file" where
  "store_load f = (case f of None \<Rightarrow> emptyResourceLeaseFile | Some j \<Rightarrow> normalizeResourceLeaseFile j)"

definition store_save :: "lease_file \<Rightarrow> disk" where
  "store_save d = Some (file_json (normalizeResourceLeaseFile (file_json d)))"

definition sanitizeNamespace :: "string \<Rightarrow> string" where
  "sanitizeNamespace namespace =
     (let t = map (\<lambda>c. if is_digit c \<or> is_lower_letter (lower_char c) \<and> of_char c < (128::nat)
                        \<or> c \<in> set ''._-'' then c else CHR ''-'') (trim namespace)
      in if t = [] then ''default'' else t)"

section \<open>Files in normal form\<close>

definition metadata_normal :: "string jsobj \<Rightarrow> bool" where
  "metadata_normal m \<longleftrightarrow> wf_obj m \<and> list_all (\<lambda>(k, v). k \<noteq> [] \<and> v \<noteq> [] \<and> trim k = k \<and> trim v = v) m"

definition lease_normal :: "lease \<Rightarrow> bool" where
  "lease_normal l \<longleftrightarrow> trim (lease_resourceKey l) \<noteq> [] \<and> trim (lease_ownerSessionId l) \<noteq> []
     \<and> trim (lease_purpose l) \<noteq> [] \<and> 0 < lease_slot l \<and> int (lease_slot l) \<le> max_safe
     \<and> truthy (lease_questId l) = lease_questId l \<and> metadata_normal (lease_metadata l)
     \<and> 0 < lease_acquiredAt l \<and> 0 < lease_heartbeatAt l \<and> 0 < lease_ttlMs l \<and> 0 < lease_expiresAt l"

definition waiter_normal :: "string \<Rightarrow> waiter \<Rightarrow> bool" where
  "waiter_normal k w \<longleftrightarrow> waiter_resourceKey w = k \<and> trim (waiter_id w) \<noteq> [] \<and> trim (waiter_sessionId w) \<noteq> []
     \<and> trim (waiter_purpose w) \<noteq> [] \<and> truthy (waiter_questId w) = waiter_questId w
     \<and> metadata_normal (waiter_metadata w) \<and> 0 < waiter_queuedAt w \<and> 0 < waiter_ttlMs w"

definition waiters_normal :: "waiter list jsobj \<Rightarrow> bool" where
  "waiters_normal ob \<longleftrightarrow> wf_obj ob \<and> (\<forall>(k, ws) \<in> set ob. ws \<noteq> [] \<and> list_all (waiter_normal k) ws)"

definition capacities_normal :: "nat jsobj \<Rightarrow> bool" where
  "capacities_normal ob \<longleftrightarrow> wf_obj ob \<and> (\<forall>(k, n) \<in> set ob. 0 < n \<and> int n \<le> max_safe)"

definition file_normal :: "lease_file \<Rightarrow> bool" where
  "file_normal d \<longleftrightarrow> capacities_normal (capacities d) \<and> 0 < nextWaiterId d
     \<and> list_all lease_normal (leases d) \<and> waiters_normal (waiters d)"

lemma normalizeMetadata_normal: "metadata_normal (normalizeMetadata raw)"
proof -
  have "metadata_normal (from_entries (filter (\<lambda>(k, v). k \<noteq> [] \<and> v \<noteq> [])
      (map (\<lambda>(k, v). (trim k, trim (js_string v))) ob)))" for ob
    using set_from_entries [of "filter (\<lambda>(k, v). k \<noteq> [] \<and> v \<noteq> []) (map (\<lambda>(k, v). (trim k, trim (js_string v))) ob)"]
    by (force simp: metadata_normal_def wf_obj_from_entries list_all_iff)
  then show ?thesis
    by (auto simp: normalizeMetadata_def metadata_normal_def split: option.splits json.splits)
qed

lemma normalizeMetadata_json: "metadata_normal m \<Longrightarrow> normalizeMetadata (Some (metadata_json m)) = m"
proof -
  assume m: "metadata_normal m"
  have "map (\<lambda>(k, v). (trim k, trim (js_string v))) (map (\<lambda>(k, v). (k, JStr v)) m) = m"
    using m by (auto simp: metadata_normal_def list_all_iff intro!: map_idI)
  moreover have "filter (\<lambda>(k, v). k \<noteq> [] \<and> v \<noteq> []) m = m"
    using m by (auto simp: metadata_normal_def list_all_iff intro: filter_True)
  ultimately show ?thesis
    using m by (simp add: normalizeMetadata_def metadata_json_def metadata_normal_def from_entries_id)
qed

lemma normalizeLease_normal: "l \<in> set (normalizeLease c raw) \<Longrightarrow> lease_normal l"
  by (auto simp: normalizeLease_def lease_normal_def normalizeMetadata_normal
      dest: nonblank_SomeD [OF sym] finite_positive_SomeD finite_positive_SomeD [OF sym] safe_pos_pos safe_pos_bound
      split: if_splits option.splits) (auto simp: max_safe_def)

lemma normalizeWaiter_normal: "w \<in> set (normalizeWaiter k raw) \<Longrightarrow> waiter_normal k w"
  by (auto simp: normalizeWaiter_def waiter_normal_def normalizeMetadata_normal
      dest: nonblank_SomeD [OF sym] finite_positive_SomeD finite_positive_SomeD [OF sym] split: if_splits option.splits)

lemma normalizeLease_json: "lease_normal l \<Longrightarrow> normalizeLease True (lease_json l) = [l]"
  by (cases l, cases "lease_questId l")
    (auto simp: normalizeLease_def lease_json_def lease_normal_def json_get_def opt_field_def nat_json_def
      normalizeMetadata_json)

lemma normalizeWaiter_json: "waiter_normal k w \<Longrightarrow> normalizeWaiter k (waiter_json w) = [w]"
  by (cases w, cases "waiter_questId w")
    (auto simp: normalizeWaiter_def waiter_json_def waiter_normal_def json_get_def opt_field_def normalizeMetadata_json)

lemma concat_singletons: "list_all P xs \<Longrightarrow> (\<And>x. P x \<Longrightarrow> f (g x) = [x]) \<Longrightarrow> concat (map f (map g xs)) = xs"
  by (induction xs) auto

lemma add_entry_normal:
  assumes "waiters_normal acc"
  shows "waiters_normal (add_entry acc p)"
proof -
  obtain key v where p: "p = (key, v)" by (cases p)
  show ?thesis
  proof (cases v)
    case (JArr vs)
    have "list_all (waiter_normal key) (concat (map (normalizeWaiter key) vs))"
      by (auto simp: list_all_iff dest: normalizeWaiter_normal)
    with assms JArr p show ?thesis
      using set_obj_set [of acc key "concat (map (normalizeWaiter key) vs)"]
      by (auto simp: add_entry_def waiters_normal_def Let_def wf_obj_set)
  qed (use assms p in \<open>simp_all add: add_entry_def\<close>)
qed

lemma normalizeWaiters_normal: "waiters_normal (normalizeWaiters raw)"
proof -
  have "waiters_normal acc \<Longrightarrow> waiters_normal (foldl add_entry acc ob)" for acc ob
    by (induction ob arbitrary: acc) (simp_all add: add_entry_normal)
  moreover have "waiters_normal []" by (simp add: waiters_normal_def)
  ultimately show ?thesis
    by (simp add: normalizeWaiters_def split: option.splits json.splits)
qed

lemma normalizeWaiters_json:
  assumes "waiters_normal ob"
  shows "normalizeWaiters (Some (JObj (map (\<lambda>(k, ws). (k, JArr (map waiter_json ws))) ob))) = ob"
proof -
  have "\<forall>(k, ws) \<in> set ob. ws \<noteq> [] \<and> list_all (waiter_normal k) ws"
    using assms by (simp add: waiters_normal_def)
  then have "foldl add_entry acc (map (\<lambda>(k, ws). (k, JArr (map waiter_json ws))) ob)
      = foldl (\<lambda>ob (k, v). obj_set ob k v) acc ob" for acc
  proof (induction ob arbitrary: acc)
    case (Cons p ob)
    obtain k ws where p: "p = (k, ws)" by (cases p)
    with Cons.prems have ws: "ws \<noteq> []" "list_all (waiter_normal k) ws" by auto
    then have "concat (map (normalizeWaiter k) (map waiter_json ws)) = ws"
      by (blast intro: concat_singletons normalizeWaiter_json)
    then have "add_entry acc (k, JArr (map waiter_json ws)) = obj_set acc k ws"
      using ws by (simp add: add_entry_def Let_def del: map_map concat_eq_Nil_conv)
    with Cons p show ?case by (simp del: map_map)
  qed simp
  from this [of "[]"] show ?thesis
    using from_entries_id [of ob] assms by (simp add: normalizeWaiters_def from_entries_def waiters_normal_def)
qed

lemma normalizeCapacities_normal: "capacities_normal (normalizeCapacities raw)"
proof -
  let ?caps = "\<lambda>c. List.map_filter
    (\<lambda>(k, x). case x of JNum n \<Rightarrow> map_option (Pair k) (safe_pos n) | _ \<Rightarrow> None) (json_entries c)"
  have "0 < n \<and> int n \<le> max_safe" if "(k, n) \<in> set (?caps c)" for k n c
    using that by (auto simp: map_filter_def dest: safe_pos_pos safe_pos_bound split: json.splits)
  then have "capacities_normal (from_entries (?caps c))" for c
    using set_from_entries [of "?caps c"] by (auto simp: capacities_normal_def wf_obj_from_entries)
  moreover have "capacities_normal []" by (simp add: capacities_normal_def)
  ultimately show ?thesis
    by (simp add: normalizeCapacities_def split: option.splits)
qed

lemma normalizeCapacities_json:
  assumes "capacities_normal ob"
  shows "normalizeCapacities (Some (JObj (map (\<lambda>(k, n). (k, nat_json n)) ob))) = ob"
proof -
  have "\<forall>(k, n) \<in> set ob. 0 < n \<and> int n \<le> max_safe"
    using assms by (simp add: capacities_normal_def)
  then have "List.map_filter (\<lambda>(k, x). case x of JNum n \<Rightarrow> map_option (Pair k) (safe_pos n) | _ \<Rightarrow> None)
     (map (\<lambda>(k, n). (k, nat_json n)) ob) = ob"
    by (induction ob) (auto simp: map_filter_def nat_json_def)
  then show ?thesis
    using assms by (simp add: normalizeCapacities_def capacities_normal_def from_entries_id)
qed

lemma normalizeNextWaiterId_pos: "0 < normalizeNextWaiterId raw"
  by (auto simp: normalizeNextWaiterId_def split: option.splits jsnum.splits)

lemma normalizeResourceLeaseFile_normal: "file_normal (normalizeResourceLeaseFile raw)"
proof -
  have "list_all lease_normal (concat (map (normalizeLease c) vs))" for c vs
    by (auto simp: list_all_iff dest: normalizeLease_normal)
  then have "list_all lease_normal (case v of Some vs \<Rightarrow> concat (map (normalizeLease c) vs) | None \<Rightarrow> [])" for c v
    by (cases v) simp_all
  moreover have "waiters_normal []" "capacities_normal []"
    by (simp_all add: waiters_normal_def capacities_normal_def)
  ultimately show ?thesis
    using normalizeWaiters_normal normalizeCapacities_normal normalizeNextWaiterId_pos
    by (simp add: file_normal_def normalizeResourceLeaseFile_def emptyResourceLeaseFile_def Let_def)
qed

lemma normalizeResourceLeaseFile_json:
  assumes "file_normal d"
  shows "normalizeResourceLeaseFile (file_json d) = d"
proof -
  have "concat (map (normalizeLease True) (map lease_json (leases d))) = leases d"
    using assms by (intro concat_singletons [where P = lease_normal] normalizeLease_json) (simp_all add: file_normal_def)
  then show ?thesis
    using assms normalizeCapacities_json [of "capacities d"]
    by (cases d) (simp add: normalizeResourceLeaseFile_def file_json_def json_get_def file_normal_def
        normalizeWaiters_json normalizeNextWaiterId_def nat_json_def del: map_map)
qed

lemma store_load_normal: "file_normal (store_load f)"
  by (cases f) (simp_all add: store_load_def normalizeResourceLeaseFile_normal,
    simp add: file_normal_def emptyResourceLeaseFile_def waiters_normal_def capacities_normal_def)

lemma store_load_save: "file_normal d \<Longrightarrow> store_load (store_save d) = d"
  by (simp add: store_load_def store_save_def normalizeResourceLeaseFile_json)

end
