(* ===== verification/Lease_Message.thy ===== *)
theory Lease_Message
  imports Js_Json
begin

text \<open>
  The labelled lines of the message a session receives when it is promoted from a pool's
  queue (\<open>web/shared/resource-lease-message.ts\<close>): the server writes them and the feed
  parses them back.
\<close>

datatype message_field = FSlot | FPurpose | FAcquired | FWaited | FExpires

fun RESOURCE_LEASE_MESSAGE_LABELS :: "message_field \<Rightarrow> string" where
  "RESOURCE_LEASE_MESSAGE_LABELS FSlot = ''Slot''"
| "RESOURCE_LEASE_MESSAGE_LABELS FPurpose = ''Purpose''"
| "RESOURCE_LEASE_MESSAGE_LABELS FAcquired = ''Acquired''"
| "RESOURCE_LEASE_MESSAGE_LABELS FWaited = ''Waited''"
| "RESOURCE_LEASE_MESSAGE_LABELS FExpires = ''Expires''"

definition message_fields :: "message_field list" where
  "message_fields = [FSlot, FPurpose, FAcquired, FWaited, FExpires]"

definition formatLeaseWaitDuration :: "number \<Rightarrow> string" where
  "formatLeaseWaitDuration ms =
     (let totalSeconds = nat \<lfloor>max 0 ms / 1000\<rfloor>;
          totalMinutes = totalSeconds div 60
      in if totalSeconds < 1 then ''<1s''
         else if totalSeconds < 60 then show_nat totalSeconds @ ''s''
         else if totalMinutes < 60 then show_nat totalMinutes @ ''m '' @ show_nat (totalSeconds mod 60) @ ''s''
         else show_nat (totalMinutes div 60) @ ''h '' @ show_nat (totalMinutes mod 60) @ ''m'')"

definition formatResourceLeaseMessageLine :: "message_field \<Rightarrow> string \<Rightarrow> string" where
  "formatResourceLeaseMessageLine f v = RESOURCE_LEASE_MESSAGE_LABELS f @ '': '' @ v"

definition is_eol :: "char \<Rightarrow> bool" where
  "is_eol c \<longleftrightarrow> c = CHR 0x0A \<or> c = CHR 0x0D"

text \<open>
  The multi-line regular expression \<open>^label:\s*(.+)$\<close>: the first line that starts with
  the label; the blanks after the colon may run over line ends. When nothing but blanks
  follows to the end of the text, the trimmed value is empty or there is no match.
\<close>

fun find_field :: "string \<Rightarrow> bool \<Rightarrow> string \<Rightarrow> string option" where
  "find_field label bol [] = None"
| "find_field label bol (c # cs) =
     (if bol \<and> starts_with (label @ '':'') (c # cs) then
        (let t = dropWhile js_space (drop (length label + 1) (c # cs))
         in if t = [] then None else Some (trim (takeWhile (\<lambda>d. \<not> is_eol d) t)))
      else find_field label (is_eol c) cs)"

definition parseResourceLeaseMessageFields :: "string \<Rightarrow> (message_field \<times> string) list" where
  "parseResourceLeaseMessageFields content =
     List.map_filter (\<lambda>f. map_option (Pair f) (truthy (find_field (RESOURCE_LEASE_MESSAGE_LABELS f) True content)))
       message_fields"

text \<open>\<open>content.split("\n")\<close> and the line filter of the feed.\<close>

fun split_lines :: "string \<Rightarrow> string list" where
  "split_lines [] = [ [] ]"
| "split_lines (c # cs) =
     (if c = CHR 0x0A then [] # split_lines cs
      else case split_lines cs of l # ls \<Rightarrow> (c # l) # ls | [] \<Rightarrow> [ [c] ])"

definition is_ascii_letter :: "char \<Rightarrow> bool" where
  "is_ascii_letter c \<longleftrightarrow> (let n = of_char c :: nat in (65 \<le> n \<and> n \<le> 90) \<or> (97 \<le> n \<and> n \<le> 122))"

definition line_label :: "string \<Rightarrow> string" where
  "line_label line =
     (let w = takeWhile is_ascii_letter line
      in if w \<noteq> [] \<and> starts_with '':'' (drop (length w) line) then w else [])"

text \<open>\<open>replace(/\n{3,}/g, "\n\n")\<close>: runs of three or more line feeds shrink to two.\<close>

fun squeeze :: "nat \<Rightarrow> string \<Rightarrow> string" where
  "squeeze n [] = []"
| "squeeze n (c # cs) =
     (if c = CHR 0x0A then (if n < 2 then c # squeeze (Suc n) cs else squeeze n cs)
      else c # squeeze 0 cs)"

definition stripResourceLeaseMessageFields :: "string \<Rightarrow> string" where
  "stripResourceLeaseMessageFields content =
     trim (squeeze 0 (join_with nl
       (filter (\<lambda>line. line_label line \<notin> set (map RESOURCE_LEASE_MESSAGE_LABELS message_fields))
         (split_lines content))))"

section \<open>Reading a labelled line back\<close>

text \<open>Text that stays on one line and that trimming does not change.\<close>

definition one_line :: "string \<Rightarrow> bool" where
  "one_line v \<longleftrightarrow> list_all (\<lambda>c. \<not> is_eol c) v \<and> v \<noteq> [] \<and> \<not> js_space (hd v) \<and> \<not> js_space (last v)"

lemma trim_one_line:
  assumes "one_line v" shows "trim v = v"
proof -
  have "trim_left v = v" using assms by (cases v) (simp_all add: one_line_def trim_left_def)
  moreover have "dropWhile js_space (rev v) = rev v"
    using assms by (simp add: dropWhile_eq_self_iff hd_rev one_line_def)
  ultimately show ?thesis by (simp add: trim_def trim_right_def)
qed

lemma find_field_skip:
  "list_all (\<lambda>c. \<not> is_eol c) line \<Longrightarrow> find_field label False (line @ CHR 0x0A # rest) = find_field label True rest"
  by (induction line) (auto simp: is_eol_def)

lemma find_field_value:
  assumes "one_line v" "label \<noteq> []"
  shows "find_field label True (label @ '': '' @ v @ CHR 0x0A # rest) = Some v"
proof -
  obtain c cs where c: "label = c # cs" using assms(2) by (cases label) auto
  have v: "v \<noteq> []" "\<not> js_space (hd v)" "list_all (\<lambda>c. \<not> is_eol c) v" using assms(1) by (simp_all add: one_line_def)
  have "dropWhile js_space (CHR '' '' # v @ CHR 0x0A # rest) = v @ CHR 0x0A # rest"
    using v by (cases v) (simp_all add: js_space_def)
  moreover have "takeWhile (\<lambda>d. \<not> is_eol d) (v @ CHR 0x0A # rest) = v"
    using v by (simp add: takeWhile_append2 list_all_iff is_eol_def)
  ultimately show ?thesis
    using v trim_one_line [OF assms(1)] by (simp add: c starts_with_def)
qed

lemma find_field_other:
  assumes "list_all (\<lambda>c. \<not> is_eol c) line" "line \<noteq> []" "hd line \<noteq> hd label" "label \<noteq> []"
  shows "find_field label True (line @ CHR 0x0A # rest) = find_field label True rest"
  using assms find_field_skip [of "tl line" label rest]
  by (cases line; cases label) (auto simp: starts_with_def)

lemma find_field_blank:
  "label \<noteq> [] \<Longrightarrow> hd label \<noteq> CHR 0x0A \<Longrightarrow> find_field label True (CHR 0x0A # rest) = find_field label True rest"
  by (cases label) (auto simp: starts_with_def is_eol_def)

lemma digit_one_line: "is_digit c \<Longrightarrow> \<not> is_eol c \<and> \<not> js_space c"
  by (auto simp: is_digit_def is_eol_def js_space_def)

lemma one_line_append: "one_line a \<Longrightarrow> one_line b \<Longrightarrow> one_line (a @ b)"
  by (auto simp: one_line_def)

lemma one_line_Cons: "\<not> is_eol c \<Longrightarrow> \<not> js_space c \<Longrightarrow> one_line b \<Longrightarrow> one_line (c # b)"
  by (auto simp: one_line_def)

lemma one_line_single: "\<not> is_eol c \<Longrightarrow> \<not> js_space c \<Longrightarrow> one_line [c]"
  by (auto simp: one_line_def)

lemma one_line_space: "\<not> is_eol c \<Longrightarrow> \<not> js_space c \<Longrightarrow> one_line b \<Longrightarrow> one_line (c # CHR '' '' # b)"
  by (auto simp: one_line_def is_eol_def)

lemma one_line_digits: "list_all is_digit v \<Longrightarrow> v \<noteq> [] \<Longrightarrow> one_line v"
  using hd_in_set [of v] last_in_set [of v] digit_one_line by (auto simp: one_line_def list_all_iff)

lemma one_line_show_nat [simp]: "one_line (show_nat n)"
  by (intro one_line_digits show_nat_digits show_nat_not_Nil)

lemma one_line_pad [simp]: "one_line (pad w n)"
  using show_nat_digits [of n] by (intro one_line_digits) (auto simp: pad_def Let_def list_all_iff is_digit_def)

lemmas one_line_intros = one_line_append one_line_Cons one_line_single one_line_space

lemma one_line_iso [simp]: "one_line (iso_string q)"
  by (simp add: iso_string_def Let_def split_beta one_line_intros is_eol_def js_space_def)

lemma one_line_duration [simp]: "one_line (formatLeaseWaitDuration ms)"
  by (simp add: formatLeaseWaitDuration_def Let_def one_line_intros is_eol_def js_space_def)

lemma one_line_slot [simp]: "one_line (show_nat n @ '' of '' @ show_nat m)"
  by (auto simp: one_line_def is_eol_def js_space_def) (use one_line_show_nat in \<open>auto simp: one_line_def is_eol_def js_space_def\<close>)

text \<open>A labelled line answers its own label and is passed over by the others.\<close>

lemma find_field_line:
  assumes "one_line v"
  shows "find_field (RESOURCE_LEASE_MESSAGE_LABELS g) True (formatResourceLeaseMessageLine f v @ CHR 0x0A # rest) =
    (if f = g then Some v else find_field (RESOURCE_LEASE_MESSAGE_LABELS g) True rest)"
proof (cases "f = g")
  case True
  then show ?thesis
    using find_field_value [OF assms, of "RESOURCE_LEASE_MESSAGE_LABELS g" rest]
    by (simp add: formatResourceLeaseMessageLine_def del: find_field.simps) (cases g; simp)
next
  case False
  have "list_all (\<lambda>c. \<not> is_eol c) (formatResourceLeaseMessageLine f v)"
    using assms by (cases f) (simp_all add: formatResourceLeaseMessageLine_def one_line_def is_eol_def)
  moreover have "formatResourceLeaseMessageLine f v \<noteq> []" "RESOURCE_LEASE_MESSAGE_LABELS g \<noteq> []"
    "hd (formatResourceLeaseMessageLine f v) \<noteq> hd (RESOURCE_LEASE_MESSAGE_LABELS g)"
    using False by (cases f; cases g; simp add: formatResourceLeaseMessageLine_def)+
  ultimately show ?thesis using find_field_other False by simp
qed

end
