(* ===== verification/Lease_Manager.thy ===== *)
theory Lease_Manager
  imports Lease_Store Lease_Message "HOL-Library.Char_ord" "HOL-Library.List_Lexorder"
begin

text \<open>
  The resource lease manager (\<open>web/server/resource-lease-manager.ts\<close>): counted pools of
  slots with a FIFO queue each. The manager runs its operations one after another
  (\<open>runExclusive\<close>), so every operation is a function from the state before to the result
  and the state after; an operation that throws returns \<open>Inl\<close> and the state it left.
  \<open>Date.now()\<close> is the argument \<open>now\<close>. Messages to sessions, promotions handed to system
  owners and republished sessions are appended to the state's log. Disk writes succeed.
\<close>

section \<open>State\<close>

datatype lease_code = Invalid | Not_found | Forbidden | Conflict

datatype lease_error = ResourceLeaseError lease_code string

datatype lease_effect =
    InjectUserMessage string string string  \<comment> \<open>session, content, sender\<close>
  | OnPromoted string lease                 \<comment> \<open>system owner prefix, lease\<close>
  | InvalidateSessionNavigation string

record lease_state =
  ls_data :: lease_file
  ls_loaded :: bool
  ls_disk :: disk
  ls_systemOwners :: "string list"
  ls_sweeping :: bool
  ls_log :: "lease_effect list"

definition initial_lease_state :: "disk \<Rightarrow> lease_state" where
  "initial_lease_state f = \<lparr>ls_data = emptyResourceLeaseFile, ls_loaded = False, ls_disk = f,
     ls_systemOwners = [], ls_sweeping = False, ls_log = []\<rparr>"

text \<open>A validated request, the argument of \<open>acquireLoaded\<close>.\<close>

record lease_request =
  rq_resourceKey :: string
  rq_callerSessionId :: string
  rq_questId :: "string option"
  rq_purpose :: string
  rq_metadata :: "string jsobj"
  rq_ttlMs :: number
  rq_waitIfUnavailable :: bool

text \<open>A raw request, \<open>ResourceLeaseAcquireInput\<close>.\<close>

record acquire_input =
  ai_resourceKey :: string
  ai_callerSessionId :: string
  ai_questId :: "string option"
  ai_purpose :: string
  ai_metadata :: "string jsobj option"
  ai_ttlMs :: "jsnum option"
  ai_waitIfUnavailable :: "bool option"

record lease_status =
  st_resourceKey :: string
  st_capacity :: nat
  st_leases :: "lease list"
  st_waiters :: "waiter list"
  st_available :: bool

datatype acquire_result =
    Acquired nat lease "waiter list"
  | AlreadyOwned nat lease "waiter list"
  | Queued lease_status waiter nat
  | Unavailable lease_status

section \<open>Validation\<close>

definition MIN_TTL_MS :: number where "MIN_TTL_MS = 5000"

definition MAX_TTL_MS :: number where "MAX_TTL_MS = 24 * 60 * 60000"

definition is_alnum :: "char \<Rightarrow> bool" where
  "is_alnum c \<longleftrightarrow> is_digit c \<or> is_lower_letter c"

text \<open>\<open>/^[a-z0-9][a-z0-9._:/-]*(@[a-z0-9][a-z0-9._-]*)?$/\<close>\<close>

definition resource_key_ok :: "string \<Rightarrow> bool" where
  "resource_key_ok key = (case key of [] \<Rightarrow> False
     | c # cs \<Rightarrow> is_alnum c \<and>
        (case dropWhile (\<lambda>d. is_alnum d \<or> d \<in> set ''._:/-'') cs of
           [] \<Rightarrow> True
         | a # host \<Rightarrow> a = CHR 0x40 \<and>
            (case host of [] \<Rightarrow> False
             | h # hs \<Rightarrow> is_alnum h \<and> list_all (\<lambda>d. is_alnum d \<or> d \<in> set ''._-'') hs)))"

definition normalizeResourceKey :: "string \<Rightarrow> lease_error + string" where
  "normalizeResourceKey resourceKey =
     (let key = lower (trim resourceKey)
      in if key = [] then Inl (ResourceLeaseError Invalid ''resource key is required'')
         else if length key > 120 then
           Inl (ResourceLeaseError Invalid ''resource key must be 120 characters or less'')
         else if \<not> resource_key_ok key then
           Inl (ResourceLeaseError Invalid ''resource key must use letters, numbers, dot, underscore, colon, slash, or hyphen, optionally followed by @<host>'')
         else Inr key)"

definition normalizeSessionId :: "string \<Rightarrow> lease_error + string" where
  "normalizeSessionId sessionId =
     (let n = trim sessionId
      in if n = [] then Inl (ResourceLeaseError Invalid ''session id is required'') else Inr n)"

definition quest_id_ok :: "string \<Rightarrow> bool" where
  "quest_id_ok q \<longleftrightarrow> starts_with ''q-'' q \<and> drop 2 q \<noteq> [] \<and> list_all is_digit (drop 2 q)"

definition normalizeQuestId :: "string option \<Rightarrow> lease_error + string option" where
  "normalizeQuestId questId = (case questId of None \<Rightarrow> Inr None
     | Some raw \<Rightarrow> (let n = lower (trim raw)
         in if n = [] then Inr None
            else if quest_id_ok n then Inr (Some n)
            else Inl (ResourceLeaseError Invalid ''questId must match q-N'')))"

definition normalizeTtlMs :: "jsnum option \<Rightarrow> lease_error + number option" where
  "normalizeTtlMs ttl = (case ttl of None \<Rightarrow> Inr None
     | Some (Fin q) \<Rightarrow> if MIN_TTL_MS \<le> q \<and> q \<le> MAX_TTL_MS then Inr (Some (of_int \<lfloor>q\<rfloor>))
         else Inl (ResourceLeaseError Invalid ''ttlMs must be between 5000 and 86400000 milliseconds'')
     | Some _ \<Rightarrow> Inl (ResourceLeaseError Invalid ''ttlMs must be between 5000 and 86400000 milliseconds''))"

definition normalizeInputMetadata :: "string jsobj option \<Rightarrow> string jsobj" where
  "normalizeInputMetadata metadata = (case metadata of None \<Rightarrow> []
     | Some ob \<Rightarrow> from_entries (take 20 (filter (\<lambda>(k, v). k \<noteq> [] \<and> v \<noteq> []) (map (\<lambda>(k, v). (trim k, trim v)) ob))))"

definition normalizeAcquireInput :: "acquire_input \<Rightarrow> lease_error + lease_request" where
  "normalizeAcquireInput input =
     (let purpose = trim (ai_purpose input)
      in if purpose = [] then Inl (ResourceLeaseError Invalid ''purpose is required'')
         else if length purpose > 300 then
           Inl (ResourceLeaseError Invalid ''purpose must be 300 characters or less'')
         else
           bind_res (normalizeQuestId (ai_questId input)) (\<lambda>questId.
           bind_res (normalizeResourceKey (ai_resourceKey input)) (\<lambda>key.
           bind_res (normalizeSessionId (ai_callerSessionId input)) (\<lambda>caller.
           bind_res (normalizeTtlMs (ai_ttlMs input)) (\<lambda>ttl.
           Inr \<lparr>rq_resourceKey = key, rq_callerSessionId = caller, rq_questId = questId,
                rq_purpose = purpose, rq_metadata = normalizeInputMetadata (ai_metadata input),
                rq_ttlMs = (case ttl of None \<Rightarrow> DEFAULT_RESOURCE_LEASE_TTL_MS | Some t \<Rightarrow> t),
                rq_waitIfUnavailable = (ai_waitIfUnavailable input = Some True)\<rparr>)))))"

section \<open>Reading the loaded data\<close>

definition getCapacity :: "lease_file \<Rightarrow> string \<Rightarrow> nat" where
  "getCapacity d key = (case map_of (capacities d) key of None \<Rightarrow> 1 | Some n \<Rightarrow> n)"

definition getLeases :: "lease_file \<Rightarrow> string \<Rightarrow> lease list" where
  "getLeases d key = sort_key lease_slot (filter (\<lambda>l. lease_resourceKey l = key) (leases d))"

definition getWaiters :: "lease_file \<Rightarrow> string \<Rightarrow> waiter list" where
  "getWaiters d key = (case map_of (waiters d) key of None \<Rightarrow> [] | Some ws \<Rightarrow> ws)"

function first_free :: "nat set \<Rightarrow> nat \<Rightarrow> nat \<Rightarrow> nat option" where
  "first_free occupied slot cap =
     (if slot \<le> cap then if slot \<notin> occupied then Some slot else first_free occupied (Suc slot) cap
      else None)"
  by pat_completeness auto
termination
  by (relation "measure (\<lambda>(occupied, slot, cap). Suc cap - slot)") auto

declare first_free.simps [simp del]

definition lowestFreeSlot :: "lease_file \<Rightarrow> string \<Rightarrow> nat option" where
  "lowestFreeSlot d key = first_free (set (map lease_slot (getLeases d key))) 1 (getCapacity d key)"

definition buildStatus :: "lease_file \<Rightarrow> string \<Rightarrow> lease_status" where
  "buildStatus d key =
     (let cap = getCapacity d key; ls = getLeases d key; ws = getWaiters d key
      in \<lparr>st_resourceKey = key, st_capacity = cap, st_leases = ls, st_waiters = ws,
          st_available = (length ls < cap \<and> ws = [])\<rparr>)"

definition validateSlot :: "lease_file \<Rightarrow> string \<Rightarrow> jsnum option \<Rightarrow> lease_error + nat option" where
  "validateSlot d key slot = (case slot of None \<Rightarrow> Inr None
     | Some x \<Rightarrow> (case safe_pos x of
         Some n \<Rightarrow> if n \<le> getCapacity d key then Inr (Some n)
           else Inl (ResourceLeaseError Invalid (''slot must be between 1 and '' @ show_nat (getCapacity d key)))
       | None \<Rightarrow> Inl (ResourceLeaseError Invalid (''slot must be between 1 and '' @ show_nat (getCapacity d key)))))"

text \<open>
  \<open>selectLease\<close> returns a reference into the lease list, which the caller then updates or
  removes; here it is the position of the record.
\<close>

definition getLeasesAt :: "lease_file \<Rightarrow> string \<Rightarrow> (nat \<times> lease) list" where
  "getLeasesAt d key = sort_key (\<lambda>(i, l). lease_slot l)
     (filter (\<lambda>(i, l). lease_resourceKey l = key) (enumerate 0 (leases d)))"

definition selectLease ::
  "lease_file \<Rightarrow> string \<Rightarrow> string \<Rightarrow> nat option \<Rightarrow> string \<Rightarrow> bool \<Rightarrow> lease_error + nat \<times> lease" where
  "selectLease d key caller slot action force =
     (let ls = getLeasesAt d key;
          found = (case slot of
              None \<Rightarrow> List.find (\<lambda>(i, l). lease_ownerSessionId l = caller) ls
            | Some n \<Rightarrow> List.find (\<lambda>(i, l). lease_slot l = n) ls);
          only = (\<lambda>who. Inl (ResourceLeaseError Forbidden (''Only '' @ who @ '' can '' @ action @ '' '' @ key)))
      in case found of
           None \<Rightarrow>
             if slot \<noteq> None \<or> ls = [] then
               Inl (ResourceLeaseError Not_found (''No active lease for '' @ key
                 @ (case slot of None \<Rightarrow> [] | Some n \<Rightarrow> '' slot '' @ show_nat n)))
             else only (case ls of [ (i, l) ] \<Rightarrow> lease_ownerSessionId l | _ \<Rightarrow> ''the slot owner'')
         | Some (i, l) \<Rightarrow>
             if \<not> force \<and> lease_ownerSessionId l \<noteq> caller then only (lease_ownerSessionId l)
             else Inr (i, l))"

section \<open>Changing the loaded data\<close>

definition add_log :: "lease_effect list \<Rightarrow> lease_state \<Rightarrow> lease_state" where
  "add_log es s = s\<lparr>ls_log := ls_log s @ es\<rparr>"

definition setWaiters :: "string \<Rightarrow> waiter list \<Rightarrow> lease_state \<Rightarrow> lease_state" where
  "setWaiters key ws s =
     (let d = ls_data s;
          previous = getWaiters d key;
          d' = (if ws = [] then d\<lparr>waiters := obj_delete (waiters d) key\<rparr>
                else d\<lparr>waiters := obj_set (waiters d) key ws\<rparr>);
          s' = s\<lparr>ls_data := d'\<rparr>
      in if map waiter_id previous = map waiter_id ws then s'
         else add_log (map InvalidateSessionNavigation
                (rev (remdups (rev (map waiter_sessionId (previous @ ws)))))) s')"

definition createLease :: "lease_request \<Rightarrow> nat \<Rightarrow> number \<Rightarrow> lease" where
  "createLease input slot now =
     \<lparr>lease_resourceKey = rq_resourceKey input, lease_slot = slot,
      lease_ownerSessionId = rq_callerSessionId input, lease_questId = truthy (rq_questId input),
      lease_purpose = rq_purpose input, lease_metadata = rq_metadata input,
      lease_acquiredAt = now, lease_heartbeatAt = now, lease_ttlMs = rq_ttlMs input,
      lease_expiresAt = now + rq_ttlMs input\<rparr>"

definition push_lease :: "lease \<Rightarrow> lease_state \<Rightarrow> lease_state" where
  "push_lease l s = s\<lparr>ls_data := (ls_data s)\<lparr>leases := leases (ls_data s) @ [l]\<rparr>\<rparr>"

definition addWaiter :: "lease_request \<Rightarrow> number \<Rightarrow> lease_state \<Rightarrow> waiter \<times> lease_state" where
  "addWaiter input now s =
     (let d = ls_data s
      in case List.find (\<lambda>w. waiter_sessionId w = rq_callerSessionId input) (getWaiters d (rq_resourceKey input)) of
           Some w \<Rightarrow> (w, s)
         | None \<Rightarrow>
             let w = \<lparr>waiter_id = ''w'' @ show_nat (nextWaiterId d),
                      waiter_resourceKey = rq_resourceKey input,
                      waiter_sessionId = rq_callerSessionId input,
                      waiter_questId = truthy (rq_questId input),
                      waiter_purpose = rq_purpose input, waiter_metadata = rq_metadata input,
                      waiter_queuedAt = now, waiter_ttlMs = rq_ttlMs input\<rparr>;
                 s' = s\<lparr>ls_data := d\<lparr>nextWaiterId := Suc (nextWaiterId d)\<rparr>\<rparr>
             in (w, setWaiters (rq_resourceKey input) (getWaiters d (rq_resourceKey input) @ [w]) s'))"

definition promoted_content :: "lease_file \<Rightarrow> lease \<Rightarrow> number \<Rightarrow> string" where
  "promoted_content d l queuedAt =
     (let key = lease_resourceKey l
      in join_with nl
        [''[Resource lease acquired] You now hold `'' @ key @ ''`.'',
         [],
         formatResourceLeaseMessageLine FSlot (show_nat (lease_slot l) @ '' of '' @ show_nat (getCapacity d key)),
         formatResourceLeaseMessageLine FPurpose (lease_purpose l),
         formatResourceLeaseMessageLine FAcquired (iso_string (lease_acquiredAt l)),
         formatResourceLeaseMessageLine FWaited (formatLeaseWaitDuration (lease_acquiredAt l - queuedAt)),
         formatResourceLeaseMessageLine FExpires (iso_string (lease_expiresAt l)),
         [],
         ''Heartbeat with `takode lease renew '' @ key @ ''`; release with `takode lease release '' @ key @ ''` when done.''])"

definition notifyPromotedWaiter :: "lease \<Rightarrow> number \<Rightarrow> lease_state \<Rightarrow> lease_state" where
  "notifyPromotedWaiter l queuedAt s =
     (case List.find (\<lambda>prefix. starts_with prefix (lease_ownerSessionId l)) (ls_systemOwners s) of
        Some prefix \<Rightarrow> add_log [OnPromoted prefix l] s
      | None \<Rightarrow> add_log [InjectUserMessage (lease_ownerSessionId l) (promoted_content (ls_data s) l queuedAt)
                  (''resource-lease:'' @ lease_resourceKey l)] s)"

definition waiter_request :: "waiter \<Rightarrow> lease_request" where
  "waiter_request w =
     \<lparr>rq_resourceKey = waiter_resourceKey w, rq_callerSessionId = waiter_sessionId w,
      rq_questId = waiter_questId w, rq_purpose = waiter_purpose w, rq_metadata = waiter_metadata w,
      rq_ttlMs = waiter_ttlMs w, rq_waitIfUnavailable = True\<rparr>"

text \<open>The loop of \<open>promoteWaiters\<close>: the remaining waiters, the new leases and the state.\<close>

fun promote_loop ::
  "string \<Rightarrow> number \<Rightarrow> waiter list \<Rightarrow> lease_state \<Rightarrow> waiter list \<times> lease list \<times> lease_state" where
  "promote_loop key now [] s = ([], [], s)"
| "promote_loop key now (w # ws) s =
     (case lowestFreeSlot (ls_data s) key of
        None \<Rightarrow> (w # ws, [], s)
      | Some slot \<Rightarrow>
          let l = createLease (waiter_request w) slot now;
              s1 = notifyPromotedWaiter l (waiter_queuedAt w) (push_lease l s);
              (rest, promoted, s2) = promote_loop key now ws s1
          in (rest, l # promoted, s2))"

definition promoteWaiters :: "string \<Rightarrow> number \<Rightarrow> lease_state \<Rightarrow> lease list \<times> lease_state" where
  "promoteWaiters key now s =
     (let (rest, promoted, s1) = promote_loop key now (getWaiters (ls_data s) key) s
      in (promoted, setWaiters key rest s1))"

fun promote_pools :: "string list \<Rightarrow> number \<Rightarrow> bool \<Rightarrow> lease_state \<Rightarrow> bool \<times> lease_state" where
  "promote_pools [] now changed s = (changed, s)"
| "promote_pools (key # keys) now changed s =
     (let (promoted, s1) = promoteWaiters key now s
      in promote_pools keys now (changed \<or> promoted \<noteq> []) s1)"

definition expireDueLeases :: "number \<Rightarrow> lease_state \<Rightarrow> bool \<times> lease_state" where
  "expireDueLeases now s =
     (let d = ls_data s;
          expired = filter (\<lambda>l. lease_expiresAt l \<le> now) (leases d);
          s1 = s\<lparr>ls_data := d\<lparr>leases := filter (\<lambda>l. lease_expiresAt l > now) (leases d)\<rparr>\<rparr>
      in promote_pools (obj_keys (waiters (ls_data s1))) now (expired \<noteq> []) s1)"

definition ensureLoaded :: "lease_state \<Rightarrow> lease_state" where
  "ensureLoaded s =
     (if ls_loaded s then s
      else
        let d = store_load (ls_disk s)
        in add_log (map (\<lambda>w. InvalidateSessionNavigation (waiter_sessionId w)) (concat (map snd (waiters d))))
             (s\<lparr>ls_data := d, ls_loaded := True\<rparr>))"

definition persistIfNeeded :: "bool \<Rightarrow> lease_state \<Rightarrow> lease_state" where
  "persistIfNeeded changed s = (if changed then s\<lparr>ls_disk := store_save (ls_data s)\<rparr> else s)"

text \<open>The step most operations start with: expire what is due and save when that changed something.\<close>

definition expire_and_persist :: "number \<Rightarrow> lease_state \<Rightarrow> lease_state" where
  "expire_and_persist now s = (let (changed, s1) = expireDueLeases now s in persistIfNeeded changed s1)"

section \<open>Operations\<close>

definition acquireLoaded :: "lease_request \<Rightarrow> number \<Rightarrow> lease_state \<Rightarrow> acquire_result \<times> lease_state" where
  "acquireLoaded input now s =
     (let d = ls_data s; key = rq_resourceKey input; cap = getCapacity d key
      in case List.find (\<lambda>l. lease_ownerSessionId l = rq_callerSessionId input) (getLeases d key) of
           Some l \<Rightarrow> (AlreadyOwned cap l (getWaiters d key), s)
         | None \<Rightarrow> (case lowestFreeSlot d key of
             Some slot \<Rightarrow>
               let l = createLease input slot now; s1 = push_lease l s
               in (Acquired cap l (getWaiters (ls_data s1) key), s1)
           | None \<Rightarrow>
               if \<not> rq_waitIfUnavailable input then (Unavailable (buildStatus d key), s)
               else
                 let (w, s1) = addWaiter input now s;
                     pool = buildStatus (ls_data s1) key
                 in (Queued pool w
                       (length (takeWhile (\<lambda>e. waiter_id e \<noteq> waiter_id w) (st_waiters pool)) + 1), s1)))"

definition acquire :: "acquire_input \<Rightarrow> number \<Rightarrow> lease_state \<Rightarrow> (lease_error + acquire_result) \<times> lease_state" where
  "acquire input now s0 =
     (let s = ensureLoaded s0
      in check_res (normalizeAcquireInput input) s (\<lambda>rq.
           let (changed, s1) = expireDueLeases now s;
               (result, s2) = acquireLoaded rq now s1;
               stored = (case result of Acquired _ _ _ \<Rightarrow> True | Queued _ _ _ \<Rightarrow> True | _ \<Rightarrow> False)
           in (Inr result, persistIfNeeded (changed \<or> stored) s2)))"

definition wait :: "acquire_input \<Rightarrow> number \<Rightarrow> lease_state \<Rightarrow> (lease_error + acquire_result) \<times> lease_state" where
  "wait input now s = acquire (input\<lparr>ai_waitIfUnavailable := Some True\<rparr>) now s"

definition configure :: "string \<Rightarrow> jsnum \<Rightarrow> number \<Rightarrow> lease_state \<Rightarrow> (lease_error + lease_status) \<times> lease_state" where
  "configure keyInput capacity now s0 =
     (let s = ensureLoaded s0
      in check_res (normalizeResourceKey keyInput) s (\<lambda>key.
         case safe_pos capacity of
           None \<Rightarrow> (Inl (ResourceLeaseError Invalid ''capacity must be a positive safe integer''), s)
         | Some cap \<Rightarrow>
             let s1 = expire_and_persist now s;
                 highestHeld = fold max (map lease_slot (getLeases (ls_data s1) key)) 0
             in if cap < highestHeld then
                  (Inl (ResourceLeaseError Conflict (''Capacity cannot drop below held slot '' @ show_nat highestHeld
                     @ ''; lower it after that slot is released'')), s1)
                else
                  let s2 = (if map_of (capacities (ls_data s1)) key \<noteq> Some cap then
                              persistIfNeeded True (snd (promoteWaiters key now
                                (s1\<lparr>ls_data := (ls_data s1)\<lparr>capacities := obj_set (capacities (ls_data s1)) key cap\<rparr>\<rparr>)))
                            else s1)
                  in (Inr (buildStatus (ls_data s2) key), s2)))"

definition renew ::
  "string \<Rightarrow> string \<Rightarrow> jsnum option \<Rightarrow> jsnum option \<Rightarrow> number \<Rightarrow> lease_state \<Rightarrow> (lease_error + lease) \<times> lease_state" where
  "renew keyInput callerInput slotInput ttlInput now s0 =
     (let s = ensureLoaded s0
      in check_res (normalizeResourceKey keyInput) s (\<lambda>key.
         check_res (normalizeSessionId callerInput) s (\<lambda>caller.
         check_res (validateSlot (ls_data s) key slotInput) s (\<lambda>slot.
         check_res (normalizeTtlMs ttlInput) s (\<lambda>ttl.
           let s1 = expire_and_persist now s
           in check_res (selectLease (ls_data s1) key caller slot ''renew'' False) s1 (\<lambda>(i, l).
             let ttlMs = (case ttl of None \<Rightarrow> lease_ttlMs l | Some t \<Rightarrow> t);
                 l' = l\<lparr>lease_heartbeatAt := now, lease_ttlMs := ttlMs, lease_expiresAt := now + ttlMs\<rparr>
             in (Inr l', persistIfNeeded True
                  (s1\<lparr>ls_data := (ls_data s1)\<lparr>leases := (leases (ls_data s1))[i := l']\<rparr>\<rparr>))))))))"

record release_result =
  rr_released :: lease
  rr_promoted :: "lease option"
  rr_waiters :: "waiter list"

definition release ::
  "string \<Rightarrow> string \<Rightarrow> bool \<Rightarrow> jsnum option \<Rightarrow> number \<Rightarrow> lease_state \<Rightarrow> (lease_error + release_result) \<times> lease_state" where
  "release keyInput callerInput force slotInput now s0 =
     (let s = ensureLoaded s0
      in check_res (normalizeResourceKey keyInput) s (\<lambda>key.
         check_res (normalizeSessionId callerInput) s (\<lambda>caller.
         check_res (validateSlot (ls_data s) key slotInput) s (\<lambda>slot.
           if force \<and> slot = None \<and> getCapacity (ls_data s) key > 1 then
             (Inl (ResourceLeaseError Invalid ''Force release requires --slot for a multi-slot pool''), s)
           else
             let s1 = (if force then s else expire_and_persist now s);
                 target = (if force then Some (case slot of None \<Rightarrow> 1 | Some n \<Rightarrow> n) else slot)
             in check_res (selectLease (ls_data s1) key caller target ''release'' force) s1 (\<lambda>(i, l).
               let ls = leases (ls_data s1);
                   s2 = s1\<lparr>ls_data := (ls_data s1)\<lparr>leases := take i ls @ drop (Suc i) ls\<rparr>\<rparr>;
                   (promoted, s3) = promoteWaiters key now s2;
                   s4 = persistIfNeeded True s3
               in (Inr \<lparr>rr_released = l,
                        rr_promoted = (case promoted of [] \<Rightarrow> None | p # _ \<Rightarrow> Some p),
                        rr_waiters = getWaiters (ls_data s4) key\<rparr>, s4))))))"

definition withdraw :: "string \<Rightarrow> string \<Rightarrow> lease_state \<Rightarrow> (lease_error + bool) \<times> lease_state" where
  "withdraw keyInput callerInput s0 =
     (let s = ensureLoaded s0
      in check_res (normalizeResourceKey keyInput) s (\<lambda>key.
         check_res (normalizeSessionId callerInput) s (\<lambda>caller.
           let ws = getWaiters (ls_data s) key;
               remaining = filter (\<lambda>w. waiter_sessionId w \<noteq> caller) ws
           in if length remaining = length ws then (Inr False, s)
              else (Inr True, persistIfNeeded True (setWaiters key remaining s)))))"

definition holdersOf :: "string \<Rightarrow> number \<Rightarrow> lease_state \<Rightarrow> string list" where
  "holdersOf prefix now s =
     map lease_ownerSessionId (filter (\<lambda>l. starts_with (lower (trim prefix)) (lease_resourceKey l)
       \<and> lease_expiresAt l > now) (leases (ls_data s)))"

definition holdsLease :: "string \<Rightarrow> string \<Rightarrow> number \<Rightarrow> lease_state \<Rightarrow> bool" where
  "holdsLease keyInput sessionId now s =
     list_ex (\<lambda>l. lease_resourceKey l = lower (trim keyInput) \<and> lease_ownerSessionId l = sessionId
       \<and> lease_expiresAt l > now) (leases (ls_data s))"

definition getStatus :: "string \<Rightarrow> number \<Rightarrow> lease_state \<Rightarrow> (lease_error + lease_status) \<times> lease_state" where
  "getStatus keyInput now s0 =
     (let s = ensureLoaded s0
      in check_res (normalizeResourceKey keyInput) s (\<lambda>key.
           let s1 = expire_and_persist now s in (Inr (buildStatus (ls_data s1) key), s1)))"

definition listStatuses :: "number \<Rightarrow> lease_state \<Rightarrow> lease_status list \<times> lease_state" where
  "listStatuses now s0 =
     (let s1 = expire_and_persist now (ensureLoaded s0);
          d = ls_data s1;
          keys = obj_keys (capacities d) @ map lease_resourceKey (leases d)
                 @ filter (\<lambda>k. getWaiters d k \<noteq> []) (obj_keys (waiters d))
      in (map (buildStatus d) (sort (remdups keys)), s1))"

definition getWaitingResourceKeys :: "string \<Rightarrow> lease_state \<Rightarrow> string list" where
  "getWaitingResourceKeys sessionId s =
     map waiter_resourceKey (filter (\<lambda>w. waiter_sessionId w = sessionId) (concat (map snd (waiters (ls_data s)))))"

record lease_wait =
  lw_resourceKey :: string
  lw_holderSessionIds :: "string list"
  lw_position :: nat

definition getLeaseWaits :: "string \<Rightarrow> lease_state \<Rightarrow> lease_wait list" where
  "getLeaseWaits sessionId s =
     (let d = ls_data s
      in map (\<lambda>key.
           let ws = getWaiters d key;
               earlier = takeWhile (\<lambda>w. waiter_sessionId w \<noteq> sessionId) ws
           in \<lparr>lw_resourceKey = key,
               lw_holderSessionIds = map lease_ownerSessionId (getLeases d key),
               lw_position = (if length earlier < length ws then length earlier + 1 else 0)\<rparr>)
         (getWaitingResourceKeys sessionId s))"

definition sweepExpiredNow :: "number \<Rightarrow> lease_state \<Rightarrow> lease_state" where
  "sweepExpiredNow now s = expire_and_persist now (ensureLoaded s)"

definition registerSystemOwner :: "string \<Rightarrow> lease_state \<Rightarrow> lease_state" where
  "registerSystemOwner prefix s =
     (if prefix \<in> set (ls_systemOwners s) then s
      else s\<lparr>ls_systemOwners := ls_systemOwners s @ [prefix]\<rparr>)"

definition startAll :: "number \<Rightarrow> lease_state \<Rightarrow> lease_state" where
  "startAll now s = (sweepExpiredNow now (ensureLoaded s))\<lparr>ls_sweeping := True\<rparr>"

definition destroy :: "lease_state \<Rightarrow> lease_state" where
  "destroy s = s\<lparr>ls_sweeping := False\<rparr>"

end
