(* ===== verification/Lease_Invariant.thy ===== *)
theory Lease_Invariant
  imports Lease_Manager
begin

text \<open>
  The invariant of the lease pools and its preservation by every operation of the manager.
\<close>

section \<open>Well-formed pools\<close>

text \<open>
  What holds of the leases and queues, where \<open>q\<close> gives each pool's queue: in a pool the
  slots are distinct and within the capacity, no session holds two slots, waits twice, or
  waits while holding a slot, and every record is in normal form.
\<close>

definition held_slots :: "lease_file \<Rightarrow> string \<Rightarrow> nat set" where
  "held_slots d key = lease_slot ` {l \<in> set (leases d). lease_resourceKey l = key}"

definition holders :: "lease_file \<Rightarrow> string \<Rightarrow> string set" where
  "holders d key = lease_ownerSessionId ` {l \<in> set (leases d). lease_resourceKey l = key}"

definition leases_ok :: "lease_file \<Rightarrow> bool" where
  "leases_ok d \<longleftrightarrow> list_all lease_normal (leases d)
     \<and> distinct (map (\<lambda>l. (lease_resourceKey l, lease_slot l)) (leases d))
     \<and> distinct (map (\<lambda>l. (lease_resourceKey l, lease_ownerSessionId l)) (leases d))
     \<and> (\<forall>l \<in> set (leases d). lease_slot l \<le> getCapacity d (lease_resourceKey l))"

definition queue_ok :: "lease_file \<Rightarrow> string \<Rightarrow> waiter list \<Rightarrow> bool" where
  "queue_ok d key ws \<longleftrightarrow> list_all (waiter_normal key) ws \<and> distinct (map waiter_sessionId ws)
     \<and> waiter_sessionId ` set ws \<inter> holders d key = {} \<and> (ws \<noteq> [] \<longrightarrow> trim key \<noteq> [])"

definition file_ok :: "lease_file \<Rightarrow> bool" where
  "file_ok d \<longleftrightarrow> leases_ok d \<and> (\<forall>key. queue_ok d key (getWaiters d key))
     \<and> capacities_normal (capacities d) \<and> 0 < nextWaiterId d \<and> waiters_normal (waiters d)"

text \<open>No slot stays free while a session waits for it.\<close>

definition work_conserving :: "lease_file \<Rightarrow> bool" where
  "work_conserving d \<longleftrightarrow> (\<forall>key. getWaiters d key \<noteq> [] \<longrightarrow> lowestFreeSlot d key = None)"

section \<open>The free slot\<close>

lemma first_free_Some:
  "first_free occ s cap = Some n \<longleftrightarrow> s \<le> n \<and> n \<le> cap \<and> n \<notin> occ \<and> {s..<n} \<subseteq> occ"
proof (induction occ s cap rule: first_free.induct)
  case (1 occ s cap)
  have split: "{s..<n} = (if s < n then insert s {Suc s..<n} else {})" by auto
  show ?case
  proof (cases "s \<le> cap \<and> s \<in> occ")
    case True
    with 1 have "first_free occ (Suc s) cap = Some n \<longleftrightarrow> Suc s \<le> n \<and> n \<le> cap \<and> n \<notin> occ \<and> {Suc s..<n} \<subseteq> occ"
      by blast
    with True split show ?thesis by (subst first_free.simps) (auto simp: Suc_le_eq order_less_le)
  next
    case False
    show ?thesis
    proof (cases "s \<le> cap")
      case True
      with False have "first_free occ s cap = Some s" and "s \<notin> occ"
        by (simp_all add: first_free.simps [of occ s cap])
      with True show ?thesis by (auto simp: subset_iff order_less_le)
    next
      case False
      then show ?thesis by (subst first_free.simps) auto
    qed
  qed
qed

lemma first_free_None: "first_free occ s cap = None \<longleftrightarrow> {s..cap} \<subseteq> occ"
proof (induction occ s cap rule: first_free.induct)
  case (1 occ s cap)
  have split: "s \<le> cap \<Longrightarrow> {s..cap} = insert s {Suc s..cap}" by auto
  show ?case
    using 1 split by (subst first_free.simps) auto
qed

lemma set_getLeases: "set (getLeases d key) = {l \<in> set (leases d). lease_resourceKey l = key}"
  by (simp add: getLeases_def)

lemma lowestFreeSlot_Some:
  "lowestFreeSlot d key = Some n \<longleftrightarrow>
     1 \<le> n \<and> n \<le> getCapacity d key \<and> n \<notin> held_slots d key \<and> {1..<n} \<subseteq> held_slots d key"
  by (simp add: lowestFreeSlot_def first_free_Some set_getLeases held_slots_def)

lemma lowestFreeSlot_None:
  "lowestFreeSlot d key = None \<longleftrightarrow> {1..getCapacity d key} \<subseteq> held_slots d key"
  by (simp add: lowestFreeSlot_def first_free_None set_getLeases held_slots_def)

lemma lowestFreeSlot_cong:
  "held_slots d key = held_slots d' key \<Longrightarrow> getCapacity d key = getCapacity d' key \<Longrightarrow>
   lowestFreeSlot d key = lowestFreeSlot d' key"
  by (simp add: lowestFreeSlot_def set_getLeases held_slots_def)

section \<open>What the state changes do to the data\<close>

lemma ls_data_add_log [simp]: "ls_data (add_log es s) = ls_data s"
  and ls_disk_add_log [simp]: "ls_disk (add_log es s) = ls_disk s"
  and ls_loaded_add_log [simp]: "ls_loaded (add_log es s) = ls_loaded s"
  by (simp_all add: add_log_def)

lemma notify_data [simp]: "ls_data (notifyPromotedWaiter l t s) = ls_data s"
  and notify_disk [simp]: "ls_disk (notifyPromotedWaiter l t s) = ls_disk s"
  and notify_loaded [simp]: "ls_loaded (notifyPromotedWaiter l t s) = ls_loaded s"
  by (simp_all add: notifyPromotedWaiter_def split: option.splits)

lemma push_lease_data [simp]: "ls_data (push_lease l s) = (ls_data s)\<lparr>leases := leases (ls_data s) @ [l]\<rparr>"
  and push_lease_disk [simp]: "ls_disk (push_lease l s) = ls_disk s"
  and push_lease_loaded [simp]: "ls_loaded (push_lease l s) = ls_loaded s"
  by (simp_all add: push_lease_def)

lemma setWaiters_data:
  "ls_data (setWaiters key ws s) =
     (ls_data s)\<lparr>waiters := (if ws = [] then obj_delete (waiters (ls_data s)) key
                          else obj_set (waiters (ls_data s)) key ws)\<rparr>"
  and setWaiters_disk [simp]: "ls_disk (setWaiters key ws s) = ls_disk s"
  and setWaiters_loaded [simp]: "ls_loaded (setWaiters key ws s) = ls_loaded s"
  by (simp_all add: setWaiters_def Let_def)

lemma data_update_simps [simp]:
  "getCapacity (d\<lparr>leases := ls\<rparr>) key = getCapacity d key"
  "getCapacity (d\<lparr>waiters := ws\<rparr>) key = getCapacity d key"
  "getCapacity (d\<lparr>nextWaiterId := n\<rparr>) key = getCapacity d key"
  "getWaiters (d\<lparr>leases := ls\<rparr>) key = getWaiters d key"
  "getWaiters (d\<lparr>capacities := cs\<rparr>) key = getWaiters d key"
  "getWaiters (d\<lparr>nextWaiterId := n\<rparr>) key = getWaiters d key"
  "held_slots (d\<lparr>waiters := ws\<rparr>) key = held_slots d key"
  "held_slots (d\<lparr>capacities := cs\<rparr>) key = held_slots d key"
  "held_slots (d\<lparr>nextWaiterId := n\<rparr>) key = held_slots d key"
  "holders (d\<lparr>waiters := ws\<rparr>) key = holders d key"
  "holders (d\<lparr>capacities := cs\<rparr>) key = holders d key"
  "holders (d\<lparr>nextWaiterId := n\<rparr>) key = holders d key"
  "getLeases (d\<lparr>waiters := ws\<rparr>) key = getLeases d key"
  "getLeases (d\<lparr>capacities := cs\<rparr>) key = getLeases d key"
  by (simp_all add: getCapacity_def getWaiters_def held_slots_def holders_def getLeases_def)

lemma getWaiters_setWaiters:
  assumes "wf_obj (waiters (ls_data s))"
  shows "getWaiters (ls_data (setWaiters key ws s)) = (getWaiters (ls_data s))(key := ws)"
  by (rule ext) (simp add: setWaiters_data getWaiters_def map_of_obj_set map_of_obj_delete assms)

lemma set_obj_delete: "set (obj_delete ob k) = {p \<in> set ob. fst p \<noteq> k}"
  by (auto simp: obj_delete_filter)

lemma waiters_normal_setWaiters:
  assumes "waiters_normal (waiters (ls_data s))" and "list_all (waiter_normal key) ws"
  shows "waiters_normal (waiters (ls_data (setWaiters key ws s)))"
  using assms set_obj_set [of "waiters (ls_data s)" key ws]
  by (auto simp: setWaiters_data waiters_normal_def wf_obj_delete wf_obj_set set_obj_delete)

lemma setWaiters_same:
  assumes "waiters_normal (waiters (ls_data s))"
  shows "ls_data (setWaiters key (getWaiters (ls_data s) key) s) = ls_data s"
proof (cases "map_of (waiters (ls_data s)) key")
  case None
  then have "obj_delete (waiters (ls_data s)) key = waiters (ls_data s)"
    by (simp add: obj_delete_def delete_id map_of_eq_None_iff)
  with None show ?thesis by (simp add: setWaiters_data getWaiters_def)
next
  case (Some ws)
  with assms have "ws \<noteq> []" by (auto simp: waiters_normal_def dest: map_of_SomeD)
  moreover have "obj_set (waiters (ls_data s)) key ws = waiters (ls_data s)"
    using Some assms by (simp add: obj_set_def update_triv waiters_normal_def wf_obj_def)
  ultimately show ?thesis using Some by (simp add: setWaiters_data getWaiters_def)
qed

lemma held_slots_push: "held_slots (d\<lparr>leases := leases d @ [l]\<rparr>) key =
   (if lease_resourceKey l = key then insert (lease_slot l) (held_slots d key) else held_slots d key)"
  by (auto simp: held_slots_def)

lemma holders_push: "holders (d\<lparr>leases := leases d @ [l]\<rparr>) key =
   (if lease_resourceKey l = key then insert (lease_ownerSessionId l) (holders d key) else holders d key)"
  by (auto simp: holders_def)

section \<open>Filling free slots from a queue\<close>

text \<open>The data part of the promotion loop.\<close>

fun fill :: "string \<Rightarrow> number \<Rightarrow> waiter list \<Rightarrow> lease_file \<Rightarrow> waiter list \<times> lease list" where
  "fill key now [] d = ([], [])"
| "fill key now (w # ws) d =
     (case lowestFreeSlot d key of
        None \<Rightarrow> (w # ws, [])
      | Some slot \<Rightarrow>
          let l = createLease (waiter_request w) slot now;
              (rest, promoted) = fill key now ws (d\<lparr>leases := leases d @ [l]\<rparr>)
          in (rest, l # promoted))"

lemma promote_loop_fill:
  "promote_loop key now ws s = (rest, promoted, s') \<Longrightarrow>
   fill key now ws (ls_data s) = (rest, promoted)
   \<and> ls_data s' = (ls_data s)\<lparr>leases := leases (ls_data s) @ promoted\<rparr>
   \<and> ls_disk s' = ls_disk s \<and> ls_loaded s' = ls_loaded s"
proof (induction ws arbitrary: s rest promoted s')
  case (Cons w ws)
  show ?case
  proof (cases "lowestFreeSlot (ls_data s) key")
    case None
    with Cons.prems show ?thesis by auto
  next
    case (Some slot)
    define l where "l = createLease (waiter_request w) slot now"
    define s1 where "s1 = notifyPromotedWaiter l (waiter_queuedAt w) (push_lease l s)"
    obtain r p s2 where loop: "promote_loop key now ws s1 = (r, p, s2)"
      by (cases "promote_loop key now ws s1") auto
    from Cons.IH [OF loop] loop Some Cons.prems show ?thesis
      by (auto simp: l_def s1_def Let_def)
  qed
qed simp

lemma createLease_simps [simp]:
  "lease_resourceKey (createLease rq slot now) = rq_resourceKey rq"
  "lease_slot (createLease rq slot now) = slot"
  "lease_ownerSessionId (createLease rq slot now) = rq_callerSessionId rq"
  "lease_expiresAt (createLease rq slot now) = now + rq_ttlMs rq"
  by (simp_all add: createLease_def)

lemma waiter_request_simps [simp]:
  "rq_resourceKey (waiter_request w) = waiter_resourceKey w"
  "rq_callerSessionId (waiter_request w) = waiter_sessionId w"
  "rq_ttlMs (waiter_request w) = waiter_ttlMs w"
  by (simp_all add: waiter_request_def)

lemma max_safe_capacity: "capacities_normal (capacities d) \<Longrightarrow> int (getCapacity d key) \<le> max_safe"
  by (auto simp: getCapacity_def capacities_normal_def max_safe_def split: option.splits dest: map_of_SomeD)

lemma getCapacity_pos: "capacities_normal (capacities d) \<Longrightarrow> 0 < getCapacity d key"
  by (auto simp: getCapacity_def capacities_normal_def split: option.splits dest: map_of_SomeD)

text \<open>Adding one lease for a session that holds none, in a free slot.\<close>

lemma leases_ok_push:
  assumes ok: "leases_ok d" and l: "lease_normal l"
    and slot: "lease_slot l \<notin> held_slots d (lease_resourceKey l)" "lease_slot l \<le> getCapacity d (lease_resourceKey l)"
    and owner: "lease_ownerSessionId l \<notin> holders d (lease_resourceKey l)"
  shows "leases_ok (d\<lparr>leases := leases d @ [l]\<rparr>)"
  using assms by (force simp: leases_ok_def held_slots_def holders_def)

lemma lease_normal_createLease:
  assumes "waiter_normal key w" "trim key \<noteq> []" "0 < slot" "int slot \<le> max_safe" "0 < now"
  shows "lease_normal (createLease (waiter_request w) slot now)"
  using assms
  by (auto simp: lease_normal_def waiter_normal_def createLease_def waiter_request_def)

lemma fill_spec:
  assumes "fill key now ws d = (rest, promoted)"
    and "leases_ok d" "queue_ok d key ws" "capacities_normal (capacities d)" "0 < now"
  defines "d' \<equiv> d\<lparr>leases := leases d @ promoted\<rparr>"
  shows "leases_ok d'" "queue_ok d' key rest" "rest = [] \<or> lowestFreeSlot d' key = None"
    and "map lease_ownerSessionId promoted @ map waiter_sessionId rest = map waiter_sessionId ws"
    and "rest = drop (length promoted) ws"
    and "\<forall>l \<in> set promoted. lease_resourceKey l = key \<and> now < lease_expiresAt l"
proof -
  have "leases_ok d' \<and> queue_ok d' key rest \<and> (rest = [] \<or> lowestFreeSlot d' key = None)
    \<and> map lease_ownerSessionId promoted @ map waiter_sessionId rest = map waiter_sessionId ws
    \<and> rest = drop (length promoted) ws
    \<and> (\<forall>l \<in> set promoted. lease_resourceKey l = key \<and> now < lease_expiresAt l)"
    using assms(1-5) unfolding d'_def
  proof (induction ws arbitrary: d rest promoted)
    case Nil
    then show ?case by (simp add: queue_ok_def)
  next
    case (Cons w ws)
    show ?case
    proof (cases "lowestFreeSlot d key")
      case None
      with Cons.prems show ?thesis by auto
    next
      case (Some slot)
      define l where "l = createLease (waiter_request w) slot now"
      define e where "e = d\<lparr>leases := leases d @ [l]\<rparr>"
      obtain p where p: "fill key now ws e = (rest, p)" "promoted = l # p"
        using Cons.prems(1) Some by (auto simp: l_def e_def Let_def split: prod.splits)
      have w: "waiter_normal key w" "waiter_sessionId w \<notin> holders d key"
          "waiter_sessionId w \<notin> waiter_sessionId ` set ws" "queue_ok d key ws" "trim key \<noteq> []"
        using Cons.prems(3) by (auto simp: queue_ok_def)
      have slot: "1 \<le> slot" "slot \<le> getCapacity d key" "slot \<notin> held_slots d key"
        using Some by (simp_all add: lowestFreeSlot_Some)
      moreover have "int slot \<le> max_safe"
        using slot(2) max_safe_capacity [OF Cons.prems(4), of key] by linarith
      ultimately have "lease_normal l"
        using lease_normal_createLease [OF w(1,5)] Cons.prems by (simp add: l_def)
      moreover have lkey: "lease_resourceKey l = key" "lease_ownerSessionId l = waiter_sessionId w" "lease_slot l = slot"
        using w(1) by (simp_all add: l_def waiter_normal_def)
      ultimately have "leases_ok e"
        using leases_ok_push [of d l] Cons.prems(2) slot w(2) by (simp add: e_def)
      moreover have "queue_ok e key ws"
        using w(3,4) lkey by (auto simp: queue_ok_def e_def holders_push)
      moreover have "now < lease_expiresAt l"
        using w(1) by (simp add: l_def waiter_normal_def)
      ultimately show ?thesis
        using Cons.IH [OF p(1)] Cons.prems(4,5) p(2) lkey by (auto simp: e_def)
    qed
  qed
  then show "leases_ok d'" "queue_ok d' key rest" "rest = [] \<or> lowestFreeSlot d' key = None"
    "map lease_ownerSessionId promoted @ map waiter_sessionId rest = map waiter_sessionId ws"
    "rest = drop (length promoted) ws"
    "\<forall>l \<in> set promoted. lease_resourceKey l = key \<and> now < lease_expiresAt l"
    by - (elim conjE, assumption)+
qed


text \<open>What one call of \<open>promoteWaiters\<close> does.\<close>

definition promotes :: "string \<Rightarrow> number \<Rightarrow> lease_file \<Rightarrow> lease list \<Rightarrow> lease_file \<Rightarrow> bool" where
  "promotes key now d promoted d' \<longleftrightarrow>
     file_ok d' \<and> leases d' = leases d @ promoted \<and> capacities d' = capacities d
     \<and> nextWaiterId d' = nextWaiterId d
     \<and> getWaiters d' = (getWaiters d)(key := drop (length promoted) (getWaiters d key))
     \<and> map lease_ownerSessionId promoted = map waiter_sessionId (take (length promoted) (getWaiters d key))
     \<and> (getWaiters d' key = [] \<or> lowestFreeSlot d' key = None)
     \<and> (\<forall>l \<in> set promoted. lease_resourceKey l = key \<and> now < lease_expiresAt l)
     \<and> (promoted = [] \<longrightarrow> d' = d)"

lemma queue_ok_same:
  "queue_ok d key ws \<Longrightarrow> holders d' key = holders d key \<Longrightarrow> queue_ok d' key ws"
  by (simp add: queue_ok_def)

lemma promoteWaiters_promotes:
  assumes ok: "file_ok (ls_data s)" and now: "0 < now" and eq: "promoteWaiters key now s = (promoted, s')"
  shows "promotes key now (ls_data s) promoted (ls_data s')" "ls_disk s' = ls_disk s" "ls_loaded s' = ls_loaded s"
proof -
  let ?d = "ls_data s" and ?ws = "getWaiters (ls_data s) key"
  obtain rest s1 where loop: "promote_loop key now ?ws s = (rest, promoted, s1)"
    and s': "s' = setWaiters key rest s1"
    using eq by (auto simp: promoteWaiters_def Let_def split: prod.splits)
  note f = promote_loop_fill [OF loop]
  let ?d1 = "?d\<lparr>leases := leases ?d @ promoted\<rparr>"
  have base: "leases_ok ?d" "queue_ok ?d key ?ws" "capacities_normal (capacities ?d)"
    and wn: "waiters_normal (waiters ?d)"
    using ok by (auto simp: file_ok_def)
  note spec = fill_spec [OF conjunct1 [OF f] base now]
  have d1: "ls_data s1 = ?d1" using f by simp
  have others: "holders ?d1 k = holders ?d k" if "k \<noteq> key" for k
    using spec(6) that by (auto simp: holders_def)
  have q: "getWaiters (ls_data s') = (getWaiters ?d)(key := rest)"
    using getWaiters_setWaiters [of s1 key rest] wn by (simp add: s' d1 waiters_normal_def fun_eq_iff)
  have d': "ls_data s' = ?d1\<lparr>waiters := waiters (ls_data s')\<rparr>"
    by (simp add: s' setWaiters_data d1)
  have queues: "queue_ok (ls_data s') k (getWaiters (ls_data s') k)" for k
  proof (cases "k = key")
    case True
    have "queue_ok ?d1 key rest" by (rule spec(2))
    then show ?thesis using True q by (subst d') (simp add: queue_ok_def)
  next
    case False
    have "queue_ok ?d k (getWaiters ?d k)" using ok by (simp add: file_ok_def)
    then show ?thesis using False q others by (subst d') (simp add: queue_ok_def)
  qed
  have "waiters_normal (waiters (ls_data s'))"
    using wn spec(2) by (simp add: s' d1 queue_ok_def waiters_normal_setWaiters)
  moreover have "leases_ok (ls_data s')"
    using spec(1) by (subst d') (simp add: leases_ok_def)
  moreover have "capacities (ls_data s') = capacities ?d" "nextWaiterId (ls_data s') = nextWaiterId ?d"
    "leases (ls_data s') = leases ?d @ promoted"
    by (subst d', simp)+
  ultimately have "file_ok (ls_data s')"
    using ok queues by (simp add: file_ok_def)
  moreover have "map lease_ownerSessionId promoted = map waiter_sessionId (take (length promoted) ?ws)"
    using arg_cong [OF spec(4), of "take (length promoted)"] by (simp add: take_map)
  moreover have "rest = [] \<or> lowestFreeSlot (ls_data s') key = None"
  proof -
    have "held_slots (ls_data s') key = held_slots ?d1 key" "getCapacity (ls_data s') key = getCapacity ?d1 key"
      by (subst d', simp)+
    then show ?thesis using spec(3) lowestFreeSlot_cong by metis
  qed
  moreover have "ls_data s' = ?d" if "promoted = []"
    using that setWaiters_same [OF wn, of key] d1 spec(5) by (auto simp: s' setWaiters_data split: if_splits)
  ultimately show "promotes key now ?d promoted (ls_data s')"
    using q spec(5,6) \<open>leases (ls_data s') = leases ?d @ promoted\<close>
      \<open>capacities (ls_data s') = capacities ?d\<close> \<open>nextWaiterId (ls_data s') = nextWaiterId ?d\<close>
    by (simp add: promotes_def)
  show "ls_disk s' = ls_disk s" "ls_loaded s' = ls_loaded s"
    using f by (simp_all add: s')
qed

section \<open>Expiry\<close>

text \<open>Serving the pools one after another: each served pool ends up without a free slot or a queue.\<close>

definition pool_served :: "lease_file \<Rightarrow> string \<Rightarrow> bool" where
  "pool_served d key \<longleftrightarrow> getWaiters d key = [] \<or> lowestFreeSlot d key = None"

lemma work_conserving_served: "work_conserving d \<longleftrightarrow> (\<forall>key. pool_served d key)"
  by (auto simp: work_conserving_def pool_served_def)

lemma promotes_other:
  assumes "promotes key now d promoted d'" and "k \<noteq> key"
  shows "getWaiters d' k = getWaiters d k" "held_slots d' k = held_slots d k" "holders d' k = holders d k"
    "getCapacity d' k = getCapacity d k" "pool_served d' k = pool_served d k"
proof -
  have eqs: "getWaiters d' k = getWaiters d k" "held_slots d' k = held_slots d k" "holders d' k = holders d k"
      "getCapacity d' k = getCapacity d k"
    using assms by (auto simp: promotes_def held_slots_def holders_def getCapacity_def)
  then show "getWaiters d' k = getWaiters d k" "held_slots d' k = held_slots d k" "holders d' k = holders d k"
    "getCapacity d' k = getCapacity d k" by simp_all
  from eqs show "pool_served d' k = pool_served d k"
    using lowestFreeSlot_cong [of d' k d] by (simp add: pool_served_def)
qed

lemma promotes_served: "promotes key now d promoted d' \<Longrightarrow> pool_served d' key"
  by (auto simp: promotes_def pool_served_def)

lemma promote_pools_ok:
  assumes "file_ok (ls_data s)" and "0 < now" and "promote_pools keys now ch s = (ch', s')"
  shows "file_ok (ls_data s')"
    and "ls_disk s' = ls_disk s" and "ls_loaded s' = ls_loaded s"
    and "\<forall>k. pool_served (ls_data s) k \<or> k \<in> set keys \<longrightarrow> pool_served (ls_data s') k"
    and "\<not> ch' \<Longrightarrow> \<not> ch \<and> ls_data s' = ls_data s"
    and "\<exists>ls. leases (ls_data s') = leases (ls_data s) @ ls \<and> (\<forall>l \<in> set ls. now < lease_expiresAt l)"
    and "capacities (ls_data s') = capacities (ls_data s)"
    and "\<forall>k. \<exists>n. getWaiters (ls_data s') k = drop n (getWaiters (ls_data s) k)
        \<and> holders (ls_data s') k = holders (ls_data s) k \<union> waiter_sessionId ` set (take n (getWaiters (ls_data s) k))"
proof -
  have "file_ok (ls_data s') \<and> ls_disk s' = ls_disk s \<and> ls_loaded s' = ls_loaded s
    \<and> (\<forall>k. pool_served (ls_data s) k \<or> k \<in> set keys \<longrightarrow> pool_served (ls_data s') k)
    \<and> (\<not> ch' \<longrightarrow> \<not> ch \<and> ls_data s' = ls_data s)
    \<and> (\<exists>ls. leases (ls_data s') = leases (ls_data s) @ ls \<and> (\<forall>l \<in> set ls. now < lease_expiresAt l))
    \<and> capacities (ls_data s') = capacities (ls_data s)
    \<and> (\<forall>k. \<exists>n. getWaiters (ls_data s') k = drop n (getWaiters (ls_data s) k)
        \<and> holders (ls_data s') k = holders (ls_data s) k \<union> waiter_sessionId ` set (take n (getWaiters (ls_data s) k)))"
    using assms(1,3)
  proof (induction keys arbitrary: ch s)
    case Nil
    then show ?case by (auto intro: exI [of _ "0::nat"])
  next
    case (Cons key keys)
    obtain promoted s1 where p: "promoteWaiters key now s = (promoted, s1)"
      by (cases "promoteWaiters key now s") auto
    note pr = promoteWaiters_promotes [OF Cons.prems(1) assms(2) p]
    then have ok1: "file_ok (ls_data s1)" by (simp add: promotes_def)
    have rest: "promote_pools keys now (ch \<or> promoted \<noteq> []) s1 = (ch', s')"
      using Cons.prems(2) p by simp
    note IH = Cons.IH [OF ok1 rest]
    have served: "pool_served (ls_data s) k \<or> k = key \<longrightarrow> pool_served (ls_data s1) k" for k
      using promotes_other(5) [OF pr(1), of k] promotes_served [OF pr(1)] by auto
    have queue: "\<exists>n. getWaiters (ls_data s1) k = drop n (getWaiters (ls_data s) k)
        \<and> holders (ls_data s1) k = holders (ls_data s) k \<union> waiter_sessionId ` set (take n (getWaiters (ls_data s) k))" for k
    proof (cases "k = key")
      case True
      have "holders (ls_data s1) key = holders (ls_data s) key \<union> lease_ownerSessionId ` set promoted"
        using pr(1) by (auto simp: promotes_def holders_def)
      also have "lease_ownerSessionId ` set promoted = waiter_sessionId ` set (take (length promoted) (getWaiters (ls_data s) key))"
        using pr(1) by (simp add: promotes_def flip: set_map)
      finally show ?thesis using True pr(1) by (auto simp: promotes_def)
    next
      case False
      then show ?thesis using promotes_other [OF pr(1)] by (intro exI [of _ 0]) simp
    qed
    have queue': "\<exists>n. getWaiters (ls_data s') k = drop n (getWaiters (ls_data s) k)
        \<and> holders (ls_data s') k = holders (ls_data s) k \<union> waiter_sessionId ` set (take n (getWaiters (ls_data s) k))" for k
    proof -
      let ?q = "getWaiters (ls_data s) k"
      obtain m where m: "getWaiters (ls_data s1) k = drop m ?q"
        "holders (ls_data s1) k = holders (ls_data s) k \<union> waiter_sessionId ` set (take m ?q)"
        using queue by blast
      obtain n where n: "getWaiters (ls_data s') k = drop n (drop m ?q)"
        "holders (ls_data s') k = holders (ls_data s1) k \<union> waiter_sessionId ` set (take n (drop m ?q))"
        using IH m(1) by metis
      have "take (m + n) ?q = take m ?q @ take n (drop m ?q)" by (rule take_add)
      with m n show ?thesis by (intro exI [of _ "m + n"]) (auto simp: add.commute)
    qed
    show ?case
      using IH served queue' pr by (auto simp: promotes_def)
  qed
  then show "file_ok (ls_data s')" "ls_disk s' = ls_disk s" "ls_loaded s' = ls_loaded s"
    "\<forall>k. pool_served (ls_data s) k \<or> k \<in> set keys \<longrightarrow> pool_served (ls_data s') k"
    "\<not> ch' \<Longrightarrow> \<not> ch \<and> ls_data s' = ls_data s"
    "\<exists>ls. leases (ls_data s') = leases (ls_data s) @ ls \<and> (\<forall>l \<in> set ls. now < lease_expiresAt l)"
    "capacities (ls_data s') = capacities (ls_data s)"
    "\<forall>k. \<exists>n. getWaiters (ls_data s') k = drop n (getWaiters (ls_data s) k)
        \<and> holders (ls_data s') k = holders (ls_data s) k \<union> waiter_sessionId ` set (take n (getWaiters (ls_data s) k))"
    by - (elim conjE, simp)+
qed

lemma leases_ok_filter: "leases_ok d \<Longrightarrow> leases_ok (d\<lparr>leases := filter P (leases d)\<rparr>)"
  by (auto simp: leases_ok_def list_all_iff distinct_map_filter)

lemma holders_filter: "holders (d\<lparr>leases := filter P (leases d)\<rparr>) key \<subseteq> holders d key"
  by (auto simp: holders_def)

lemma file_ok_filter: "file_ok d \<Longrightarrow> file_ok (d\<lparr>leases := filter P (leases d)\<rparr>)"
  using holders_filter by (fastforce simp: file_ok_def queue_ok_def leases_ok_filter)

lemma getWaiters_keys: "getWaiters d key \<noteq> [] \<Longrightarrow> key \<in> set (obj_keys (waiters d))"
  by (auto simp: getWaiters_def obj_keys_def split: option.splits) (force dest: map_of_SomeD)

text \<open>The data left by \<open>expireDueLeases\<close>.\<close>

definition expires :: "number \<Rightarrow> lease_file \<Rightarrow> lease_file \<Rightarrow> bool" where
  "expires now d d' \<longleftrightarrow> file_ok d' \<and> work_conserving d' \<and> capacities d' = capacities d
     \<and> (\<exists>ls. leases d' = filter (\<lambda>l. now < lease_expiresAt l) (leases d) @ ls \<and> (\<forall>l \<in> set ls. now < lease_expiresAt l))
     \<and> (\<forall>k. \<exists>n. getWaiters d' k = drop n (getWaiters d k)
          \<and> holders d' k = holders (d\<lparr>leases := filter (\<lambda>l. now < lease_expiresAt l) (leases d)\<rparr>) k
              \<union> waiter_sessionId ` set (take n (getWaiters d k)))"

lemma expireDueLeases_expires:
  assumes "file_ok (ls_data s)" and "0 < now" and "expireDueLeases now s = (ch, s')"
  shows "expires now (ls_data s) (ls_data s')" "ls_disk s' = ls_disk s" "ls_loaded s' = ls_loaded s"
    and "\<not> ch \<Longrightarrow> ls_data s' = ls_data s"
proof -
  let ?d = "ls_data s"
  define s1 where "s1 = s\<lparr>ls_data := ?d\<lparr>leases := filter (\<lambda>l. lease_expiresAt l > now) (leases ?d)\<rparr>\<rparr>"
  have pools: "promote_pools (obj_keys (waiters (ls_data s1))) now
      (filter (\<lambda>l. lease_expiresAt l \<le> now) (leases ?d) \<noteq> []) s1 = (ch, s')"
    using assms(3) by (simp add: expireDueLeases_def s1_def Let_def)
  have "file_ok (ls_data s1)" using assms(1) by (simp add: s1_def file_ok_filter)
  note pp = promote_pools_ok [OF this assms(2) pools]
  have "pool_served (ls_data s1) k \<or> k \<in> set (obj_keys (waiters (ls_data s1)))" for k
    using getWaiters_keys [of "ls_data s1" k] by (auto simp: pool_served_def)
  then have "work_conserving (ls_data s')"
    using pp(4) by (auto simp: work_conserving_served)
  then show "expires now ?d (ls_data s')"
    using pp(1,6,7,8) by (auto simp: expires_def s1_def)
  show "ls_disk s' = ls_disk s" "ls_loaded s' = ls_loaded s"
    using pp(2,3) by (simp_all add: s1_def)
  show "ls_data s' = ls_data s" if "\<not> ch"
  proof -
    have none: "filter (\<lambda>l. lease_expiresAt l \<le> now) (leases ?d) = []" and "ls_data s' = ls_data s1"
      using pp(5) [OF that] by auto
    moreover have "filter (\<lambda>l. lease_expiresAt l > now) (leases ?d) = leases ?d"
      using none by (auto simp: filter_empty_conv not_le intro: filter_True)
    ultimately show ?thesis by (simp add: s1_def)
  qed
qed

section \<open>The invariant of the manager\<close>

text \<open>
  The file on disk reads back as a well-formed, work-conserving set of pools, and once the
  manager has loaded it, memory and disk agree between operations.
\<close>

definition lease_inv :: "lease_state \<Rightarrow> bool" where
  "lease_inv s \<longleftrightarrow> file_ok (store_load (ls_disk s)) \<and> work_conserving (store_load (ls_disk s))
     \<and> (ls_loaded s \<longrightarrow> ls_data s = store_load (ls_disk s))"

text \<open>The same between \<open>ensureLoaded\<close> and the end of an operation.\<close>

definition loaded_inv :: "lease_state \<Rightarrow> bool" where
  "loaded_inv s \<longleftrightarrow> lease_inv s \<and> ls_loaded s"

lemma file_ok_normal: "file_ok d \<Longrightarrow> file_normal d"
  by (simp add: file_ok_def file_normal_def leases_ok_def)

lemma ensureLoaded_inv: "lease_inv s \<Longrightarrow> loaded_inv (ensureLoaded s)"
  by (simp add: lease_inv_def loaded_inv_def ensureLoaded_def Let_def)

lemma ensureLoaded_data: "ls_data (ensureLoaded s) = (if ls_loaded s then ls_data s else store_load (ls_disk s))"
  by (simp add: ensureLoaded_def Let_def)

lemma loaded_inv_data:
  "loaded_inv s \<Longrightarrow> file_ok (ls_data s) \<and> work_conserving (ls_data s) \<and> ls_loaded s"
  by (simp add: loaded_inv_def lease_inv_def)

lemma loaded_inv_lease_inv: "loaded_inv s \<Longrightarrow> lease_inv s"
  by (simp add: loaded_inv_def)

lemma persist_inv:
  assumes "file_ok (ls_data s)" "work_conserving (ls_data s)" "ls_loaded s"
    and "\<not> ch \<Longrightarrow> ls_data s = store_load (ls_disk s)"
  shows "loaded_inv (persistIfNeeded ch s)"
  using assms by (cases ch) (simp_all add: loaded_inv_def lease_inv_def persistIfNeeded_def
      store_load_save file_ok_normal)

lemma persist_data [simp]: "ls_data (persistIfNeeded ch s) = ls_data s"
  by (simp add: persistIfNeeded_def)

lemma expire_and_persist_inv:
  assumes "loaded_inv s" and "0 < now"
  shows "loaded_inv (expire_and_persist now s)" "expires now (ls_data s) (ls_data (expire_and_persist now s))"
proof -
  obtain ch s1 where e: "expireDueLeases now s = (ch, s1)" by (cases "expireDueLeases now s") auto
  from assms(1) have "file_ok (ls_data s)" by (simp add: loaded_inv_data)
  note x = expireDueLeases_expires [OF this assms(2) e]
  have "file_ok (ls_data s1)" "work_conserving (ls_data s1)" using x(1) by (simp_all add: expires_def)
  moreover have "ls_data s1 = store_load (ls_disk s1)" if "\<not> ch"
    using that x(2,4) assms(1) by (simp add: loaded_inv_def lease_inv_def)
  ultimately show "loaded_inv (expire_and_persist now s)"
    using x(3) assms(1) by (auto simp: expire_and_persist_def e loaded_inv_data intro!: persist_inv)
  show "expires now (ls_data s) (ls_data (expire_and_persist now s))"
    using x(1) by (simp add: expire_and_persist_def e)
qed

section \<open>Requests\<close>

definition request_ok :: "lease_request \<Rightarrow> bool" where
  "request_ok rq \<longleftrightarrow> trim (rq_resourceKey rq) \<noteq> [] \<and> trim (rq_callerSessionId rq) \<noteq> []
     \<and> trim (rq_purpose rq) \<noteq> [] \<and> metadata_normal (rq_metadata rq) \<and> 0 < rq_ttlMs rq"

lemma bind_res_Inr: "bind_res m f = Inr b \<longleftrightarrow> (\<exists>a. m = Inr a \<and> f a = Inr b)"
  by (cases m) auto

lemma trim_Cons_nonspace: "\<not> js_space c \<Longrightarrow> trim (c # cs) \<noteq> []"
  by (simp add: trim_def trim_left_def trim_right_first)

lemma alnum_not_space: "is_alnum c \<Longrightarrow> \<not> js_space c"
  by (auto simp: is_alnum_def is_digit_def is_lower_letter_def js_space_def)

lemma normalizeResourceKey_Inr:
  "normalizeResourceKey k = Inr key \<Longrightarrow> resource_key_ok key \<and> trim key \<noteq> [] \<and> key = lower (trim k)"
  by (auto simp: normalizeResourceKey_def Let_def resource_key_ok_def trim_Cons_nonspace alnum_not_space
      split: if_splits list.splits)

lemma normalizeSessionId_Inr: "normalizeSessionId x = Inr y \<Longrightarrow> trim y \<noteq> [] \<and> y = trim x"
  by (auto simp: normalizeSessionId_def Let_def split: if_splits)

lemma normalizeTtlMs_Inr:
  assumes "normalizeTtlMs x = Inr (Some t)"
  shows "5000 \<le> t" "t \<le> 86400000"
proof -
  obtain q :: number where q: "5000 \<le> q" "q \<le> 86400000" "t = of_int \<lfloor>q\<rfloor>"
    using assms by (auto simp: normalizeTtlMs_def MIN_TTL_MS_def MAX_TTL_MS_def split: option.splits jsnum.splits if_splits)
  then have "5000 \<le> \<lfloor>q\<rfloor>" "\<lfloor>q\<rfloor> \<le> 86400000" by linarith+
  then show "5000 \<le> t" "t \<le> 86400000" using q(3) by linarith+
qed

lemma normalizeInputMetadata_normal: "metadata_normal (normalizeInputMetadata m)"
proof -
  let ?es = "\<lambda>ob :: string jsobj. take 20 (filter (\<lambda>(k, v). k \<noteq> [] \<and> v \<noteq> []) (map (\<lambda>(k, v). (trim k, trim v)) ob))"
  have "metadata_normal (from_entries (?es ob))" for ob
    using set_from_entries [of "?es ob"]
    by (fastforce simp: metadata_normal_def wf_obj_from_entries list_all_iff dest: in_set_takeD)
  moreover have "metadata_normal []" by (simp add: metadata_normal_def)
  ultimately show ?thesis by (simp add: normalizeInputMetadata_def split: option.splits)
qed

lemma normalizeAcquireInput_ok:
  assumes "normalizeAcquireInput input = Inr rq"
  shows "request_ok rq"
proof -
  obtain questId key caller ttl where parts: "trim (ai_purpose input) \<noteq> []"
    "normalizeResourceKey (ai_resourceKey input) = Inr key"
    "normalizeSessionId (ai_callerSessionId input) = Inr caller"
    "normalizeTtlMs (ai_ttlMs input) = Inr ttl"
    and rq: "rq = \<lparr>rq_resourceKey = key, rq_callerSessionId = caller, rq_questId = questId,
      rq_purpose = trim (ai_purpose input), rq_metadata = normalizeInputMetadata (ai_metadata input),
      rq_ttlMs = (case ttl of None \<Rightarrow> DEFAULT_RESOURCE_LEASE_TTL_MS | Some t \<Rightarrow> t),
      rq_waitIfUnavailable = (ai_waitIfUnavailable input = Some True)\<rparr>"
    using assms by (auto simp: normalizeAcquireInput_def Let_def bind_res_Inr split: if_splits)
  have "0 < rq_ttlMs rq"
    using normalizeTtlMs_Inr(1) [of "ai_ttlMs input"] parts(4)
    by (fastforce simp: rq DEFAULT_RESOURCE_LEASE_TTL_MS_def split: option.splits)
  moreover have "trim key \<noteq> []" "trim caller \<noteq> []"
    by (rule normalizeResourceKey_Inr [OF parts(2), THEN conjunct2, THEN conjunct1],
      rule normalizeSessionId_Inr [OF parts(3), THEN conjunct1])
  ultimately show ?thesis
    using parts(1) by (simp add: rq request_ok_def normalizeInputMetadata_normal)
qed

lemma lease_normal_request:
  assumes "request_ok rq" "1 \<le> slot" "int slot \<le> max_safe" "0 < now"
  shows "lease_normal (createLease rq slot now)"
  using assms by (auto simp: request_ok_def lease_normal_def createLease_def)

section \<open>Acquiring\<close>

lemma find_None_iff_set: "List.find P xs = None \<longleftrightarrow> (\<forall>x \<in> set xs. \<not> P x)"
  by (auto simp: find_None_iff)

text \<open>Replacing one pool's queue in a well-formed file.\<close>

lemma setWaiters_ok:
  assumes "file_ok (ls_data s)" and "queue_ok (ls_data s) key ws"
  shows "file_ok (ls_data (setWaiters key ws s))"
    and "work_conserving (ls_data s) \<Longrightarrow> lowestFreeSlot (ls_data s) key = None \<or> ws = [] \<Longrightarrow>
      work_conserving (ls_data (setWaiters key ws s))"
proof -
  let ?d = "ls_data s" and ?d' = "ls_data (setWaiters key ws s)"
  have q: "getWaiters ?d' = (getWaiters ?d)(key := ws)"
    using assms(1) by (simp add: getWaiters_setWaiters file_ok_def waiters_normal_def)
  have same: "holders ?d' k = holders ?d k" "held_slots ?d' k = held_slots ?d k" "getCapacity ?d' k = getCapacity ?d k" for k
    by (simp_all add: setWaiters_data)
  then have low: "lowestFreeSlot ?d' k = lowestFreeSlot ?d k" for k
    by (intro lowestFreeSlot_cong)
  show "file_ok ?d'"
    unfolding file_ok_def
  proof (intro conjI allI)
    show "leases_ok ?d'" using assms(1) by (simp add: setWaiters_data file_ok_def leases_ok_def)
    show "queue_ok ?d' k (getWaiters ?d' k)" for k
      using assms by (cases "k = key") (auto simp: q file_ok_def queue_ok_def same)
    show "waiters_normal (waiters ?d')"
      using assms by (simp add: waiters_normal_setWaiters file_ok_def queue_ok_def)
  qed (use assms(1) in \<open>simp_all add: setWaiters_data file_ok_def\<close>)
  show "work_conserving ?d'" if "work_conserving ?d" "lowestFreeSlot ?d key = None \<or> ws = []"
    using that by (auto simp: work_conserving_served pool_served_def q low)
qed

lemma acquireLoaded_ok:
  assumes ok: "file_ok (ls_data s)" "work_conserving (ls_data s)" and rq: "request_ok rq" and now: "0 < now"
    and eq: "acquireLoaded rq now s = (result, s')"
  shows "file_ok (ls_data s')" "work_conserving (ls_data s')" "ls_loaded s' = ls_loaded s" "ls_disk s' = ls_disk s"
    and "(case result of Acquired _ _ _ \<Rightarrow> True | Queued _ _ _ \<Rightarrow> True | _ \<Rightarrow> False) \<or> ls_data s' = ls_data s"
proof -
  let ?d = "ls_data s" and ?key = "rq_resourceKey rq"
  let ?goal = "file_ok (ls_data s') \<and> work_conserving (ls_data s') \<and> ls_loaded s' = ls_loaded s \<and> ls_disk s' = ls_disk s
    \<and> ((case result of Acquired _ _ _ \<Rightarrow> True | Queued _ _ _ \<Rightarrow> True | _ \<Rightarrow> False) \<or> ls_data s' = ls_data s)"
  have ?goal
  proof (cases "List.find (\<lambda>l. lease_ownerSessionId l = rq_callerSessionId rq) (getLeases ?d ?key)")
    case (Some l)
    with eq ok show ?thesis by (auto simp: acquireLoaded_def Let_def)
  next
    case None
    then have fresh: "rq_callerSessionId rq \<notin> holders ?d ?key"
      by (auto simp: find_None_iff_set set_getLeases holders_def)
    show ?thesis
    proof (cases "lowestFreeSlot ?d ?key")
      case (Some slot)
      let ?l = "createLease rq slot now"
      have s': "s' = push_lease ?l s" "\<exists>c l ws. result = Acquired c l ws"
        using eq None Some by (auto simp: acquireLoaded_def Let_def)
      have slot: "1 \<le> slot" "slot \<le> getCapacity ?d ?key" "slot \<notin> held_slots ?d ?key"
        using Some by (simp_all add: lowestFreeSlot_Some)
      then have "int slot \<le> max_safe"
        using max_safe_capacity [of ?d ?key] ok(1) by (simp add: file_ok_def)
      then have "lease_normal ?l" using lease_normal_request [OF rq slot(1) _ now] by simp
      then have "leases_ok (ls_data s')"
        using ok(1) slot fresh by (simp add: s' leases_ok_push file_ok_def)
      moreover have empty: "getWaiters ?d ?key = []"
        using ok(2) Some by (auto simp: work_conserving_def)
      have "queue_ok (ls_data s') k (getWaiters (ls_data s') k)" for k
      proof (cases "k = ?key")
        case True
        then show ?thesis using empty by (simp add: s' queue_ok_def)
      next
        case False
        then show ?thesis using ok(1) by (simp add: s' file_ok_def queue_ok_def holders_push)
      qed
      moreover have "work_conserving (ls_data s')"
        unfolding work_conserving_def
      proof (intro allI impI)
        fix k assume k: "getWaiters (ls_data s') k \<noteq> []"
        with empty have "k \<noteq> ?key" by (auto simp: s')
        then have "lowestFreeSlot (ls_data s') k = lowestFreeSlot ?d k"
          by (intro lowestFreeSlot_cong) (simp_all add: s' held_slots_push)
        with k ok(2) show "lowestFreeSlot (ls_data s') k = None" by (simp add: s' work_conserving_def)
      qed
      ultimately show ?thesis using ok(1) s' by (auto simp: file_ok_def)
    next
      case free: None
      show ?thesis
      proof (cases "rq_waitIfUnavailable rq")
        case False
        with eq ok None free show ?thesis by (auto simp: acquireLoaded_def Let_def)
      next
        case True
        show ?thesis
        proof (cases "List.find (\<lambda>w. waiter_sessionId w = rq_callerSessionId rq) (getWaiters ?d ?key)")
          case (Some w)
          with eq ok None free True show ?thesis by (auto simp: acquireLoaded_def addWaiter_def Let_def)
        next
          case unqueued: None
          define w where "w = \<lparr>waiter_id = ''w'' @ show_nat (nextWaiterId ?d), waiter_resourceKey = ?key,
            waiter_sessionId = rq_callerSessionId rq, waiter_questId = truthy (rq_questId rq),
            waiter_purpose = rq_purpose rq, waiter_metadata = rq_metadata rq,
            waiter_queuedAt = now, waiter_ttlMs = rq_ttlMs rq\<rparr>"
          define t where "t = s\<lparr>ls_data := ?d\<lparr>nextWaiterId := Suc (nextWaiterId ?d)\<rparr>\<rparr>"
          have s': "s' = setWaiters ?key (getWaiters ?d ?key @ [w]) t"
            "\<exists>p w n. result = Queued p w n"
            using eq None free True unqueued by (auto simp: acquireLoaded_def addWaiter_def Let_def w_def t_def)
          have t: "file_ok (ls_data t)" "work_conserving (ls_data t)"
            using ok by (auto simp: t_def file_ok_def leases_ok_def queue_ok_def work_conserving_def
                lowestFreeSlot_def getLeases_def)
          have "waiter_normal ?key w"
            using rq now by (simp add: w_def waiter_normal_def request_ok_def trim_Cons_nonspace js_space_def)
          moreover have "waiter_sessionId w \<notin> waiter_sessionId ` set (getWaiters ?d ?key)"
            using unqueued by (auto simp: find_None_iff_set w_def)
          moreover have "queue_ok ?d ?key (getWaiters ?d ?key)" using ok(1) by (simp add: file_ok_def)
          ultimately have "queue_ok (ls_data t) ?key (getWaiters ?d ?key @ [w])"
            using fresh rq by (auto simp: queue_ok_def t_def w_def request_ok_def)
          moreover have "lowestFreeSlot (ls_data t) ?key = None"
            using free by (simp add: t_def lowestFreeSlot_def getLeases_def)
          ultimately show ?thesis
            using setWaiters_ok [OF t(1)] t(2) s' by (auto simp: t_def)
        qed
      qed
    qed
  qed
  then show "file_ok (ls_data s')" "work_conserving (ls_data s')" "ls_loaded s' = ls_loaded s" "ls_disk s' = ls_disk s"
    "(case result of Acquired _ _ _ \<Rightarrow> True | Queued _ _ _ \<Rightarrow> True | _ \<Rightarrow> False) \<or> ls_data s' = ls_data s"
    by blast+
qed

end
