(* ===== verification/Lease_Operations.thy ===== *)
theory Lease_Operations
  imports Lease_Invariant
begin

text \<open>
  Every operation of the lease manager keeps the invariant, so every reachable state has it.
\<close>

section \<open>Every operation keeps the invariant\<close>

lemma acquire_inv:
  assumes "lease_inv s0" "0 < now"
  shows "loaded_inv (snd (acquire input now s0))"
proof -
  define s where "s = ensureLoaded s0"
  have s: "loaded_inv s" using assms(1) by (simp add: s_def ensureLoaded_inv)
  show ?thesis
  proof (cases "normalizeAcquireInput input")
    case (Inl e)
    then show ?thesis using s by (simp add: acquire_def s_def)
  next
    case (Inr rq)
    obtain ch s1 where e: "expireDueLeases now s = (ch, s1)" by (cases "expireDueLeases now s") auto
    obtain result s2 where a: "acquireLoaded rq now s1 = (result, s2)" by (cases "acquireLoaded rq now s1") auto
    have fs: "file_ok (ls_data s)" using s by (simp add: loaded_inv_data)
    note x = expireDueLeases_expires [OF fs assms(2) e]
    have "file_ok (ls_data s1)" "work_conserving (ls_data s1)" using x(1) by (simp_all add: expires_def)
    note y = acquireLoaded_ok [OF this normalizeAcquireInput_ok [OF Inr] assms(2) a]
    let ?ch = "ch \<or> (case result of Acquired _ _ _ \<Rightarrow> True | Queued _ _ _ \<Rightarrow> True | _ \<Rightarrow> False)"
    have "ls_data s2 = store_load (ls_disk s2)" if "\<not> ?ch"
      using that x(2,4) y(4,5) s by (auto simp: loaded_inv_def lease_inv_def)
    moreover have "ls_loaded s2" using s x(3) y(3) by (simp add: loaded_inv_def)
    ultimately have "loaded_inv (persistIfNeeded ?ch s2)"
      using y(1,2) by (intro persist_inv)
    then show ?thesis
      by (simp add: acquire_def s_def [symmetric] Inr e a Let_def)
  qed
qed

lemma wait_inv: "lease_inv s \<Longrightarrow> 0 < now \<Longrightarrow> loaded_inv (snd (wait input now s))"
  by (simp add: wait_def acquire_inv)

text \<open>Promotion completes a change that left only one pool unserved.\<close>

lemma promoteWaiters_inv:
  assumes "file_ok (ls_data s)" "0 < now" "ls_loaded s"
    and "\<And>k. k \<noteq> key \<Longrightarrow> pool_served (ls_data s) k"
  shows "loaded_inv (persistIfNeeded True (snd (promoteWaiters key now s)))"
proof -
  obtain promoted s' where p: "promoteWaiters key now s = (promoted, s')"
    by (cases "promoteWaiters key now s") auto
  note pr = promoteWaiters_promotes [OF assms(1,2) p]
  have "pool_served (ls_data s') k" for k
    using promotes_served [OF pr(1)] promotes_other(5) [OF pr(1), of k] assms(4) by (cases "k = key") auto
  then show ?thesis
    using pr assms(3) by (auto simp: p work_conserving_served promotes_def intro!: persist_inv)
qed

lemma fold_max_ge: "x \<in> set xs \<Longrightarrow> x \<le> fold max xs (a :: nat)"
  and fold_max_ge_init: "a \<le> fold max xs (a :: nat)"
proof -
  have init: "a \<le> fold max xs a" for xs and a :: nat
    by (induction xs arbitrary: a) (auto intro: order_trans [OF max.cobounded2])
  show "a \<le> fold max xs a" by (rule init)
  show "x \<in> set xs \<Longrightarrow> x \<le> fold max xs a"
    by (induction xs arbitrary: a) (auto intro: order_trans [OF max.cobounded1 init])
qed

lemma capacities_normal_set:
  "capacities_normal cs \<Longrightarrow> 0 < n \<Longrightarrow> int n \<le> max_safe \<Longrightarrow> capacities_normal (obj_set cs key n)"
  using set_obj_set [of cs key n] by (auto simp: capacities_normal_def wf_obj_set)

lemma configure_inv:
  assumes "lease_inv s0" "0 < now"
  shows "loaded_inv (snd (configure keyInput capacity now s0))"
proof -
  define s where "s = ensureLoaded s0"
  have s: "loaded_inv s" using assms(1) by (simp add: s_def ensureLoaded_inv)
  define s1 where "s1 = expire_and_persist now s"
  have s1: "loaded_inv s1" using expire_and_persist_inv [OF s assms(2)] by (simp add: s1_def)
  note d1 = loaded_inv_data [OF s1]
  have step: "loaded_inv (persistIfNeeded True (snd (promoteWaiters key now
      (s1\<lparr>ls_data := (ls_data s1)\<lparr>capacities := obj_set (capacities (ls_data s1)) key cap\<rparr>\<rparr>))))"
    if cap: "safe_pos capacity = Some cap" "fold max (map lease_slot (getLeases (ls_data s1) key)) 0 \<le> cap" for key cap
  proof (rule promoteWaiters_inv)
    let ?d = "ls_data s1" and ?d2 = "(ls_data s1)\<lparr>capacities := obj_set (capacities (ls_data s1)) key cap\<rparr>"
    have caps: "getCapacity ?d2 k = (if k = key then cap else getCapacity ?d k)" for k
      using d1 by (simp add: getCapacity_def map_of_obj_set file_ok_def capacities_normal_def)
    have "lease_slot l \<le> cap" if "l \<in> set (leases ?d)" "lease_resourceKey l = key" for l
      using fold_max_ge [of "lease_slot l" "map lease_slot (getLeases ?d key)" 0] cap(2) that
      by (simp add: set_getLeases)
    then have "leases_ok ?d2"
      using d1 by (auto simp: file_ok_def leases_ok_def caps)
    moreover have "capacities_normal (capacities ?d2)"
      using d1 safe_pos_pos [OF cap(1)] safe_pos_bound [OF cap(1)]
      by (simp add: capacities_normal_set file_ok_def)
    ultimately show "file_ok (ls_data (s1\<lparr>ls_data := ?d2\<rparr>))"
      using d1 by (simp add: file_ok_def queue_ok_def)
    show "pool_served (ls_data (s1\<lparr>ls_data := ?d2\<rparr>)) k" if "k \<noteq> key" for k
      using d1 lowestFreeSlot_cong [of ?d2 k ?d] that
      by (simp add: work_conserving_served pool_served_def caps)
  qed (use d1 assms(2) in simp_all)
  show ?thesis
  proof (cases "normalizeResourceKey keyInput")
    case (Inl e)
    then show ?thesis using s by (simp add: configure_def s_def)
  next
    case (Inr key)
    then show ?thesis
      using s s1 step
      by (cases "safe_pos capacity")
        (auto simp: configure_def Let_def not_less simp flip: s_def s1_def)
  qed
qed

text \<open>The selected record stands at the returned position.\<close>

lemma set_getLeasesAt: "set (getLeasesAt d key) = {(i, l). i < length (leases d) \<and> l = leases d ! i \<and> lease_resourceKey l = key}"
  by (auto simp: getLeasesAt_def in_set_enumerate_eq)

lemma find_Some_mem: "List.find P xs = Some x \<Longrightarrow> x \<in> set xs \<and> P x"
  by (auto simp: find_Some_iff)

lemma selectLease_Inr:
  assumes "selectLease d key caller slot action force = Inr (i, l)"
  shows "i < length (leases d)" "l = leases d ! i" "lease_resourceKey l = key"
    and "\<not> force \<Longrightarrow> lease_ownerSessionId l = caller"
    and "slot = Some n \<Longrightarrow> lease_slot l = n"
proof -
  have "(i, l) \<in> set (getLeasesAt d key) \<and> (force \<or> lease_ownerSessionId l = caller)
    \<and> (\<forall>n. slot = Some n \<longrightarrow> lease_slot l = n)"
    using assms by (auto simp: selectLease_def Let_def split: option.splits if_splits dest!: find_Some_mem)
  then show "i < length (leases d)" "l = leases d ! i" "lease_resourceKey l = key"
    "\<not> force \<Longrightarrow> lease_ownerSessionId l = caller" "slot = Some n \<Longrightarrow> lease_slot l = n"
    by (auto simp: set_getLeasesAt)
qed

lemma map_list_update_same: "i < length xs \<Longrightarrow> f y = f (xs ! i) \<Longrightarrow> map f (xs[i := y]) = map f xs"
  by (metis list_update_id map_update)

lemma replace_lease_ok:
  assumes ok: "file_ok d" and i: "i < length (leases d)" and n: "lease_normal l'"
    and same: "lease_resourceKey l' = lease_resourceKey (leases d ! i)" "lease_slot l' = lease_slot (leases d ! i)"
      "lease_ownerSessionId l' = lease_ownerSessionId (leases d ! i)"
  defines "d' \<equiv> d\<lparr>leases := (leases d)[i := l']\<rparr>"
  shows "file_ok d'" "held_slots d' k = held_slots d k" "holders d' k = holders d k"
proof -
  have len: "length (leases d') = length (leases d)" by (simp add: d'_def)
  have nth: "lease_resourceKey (leases d' ! j) = lease_resourceKey (leases d ! j)"
    "lease_slot (leases d' ! j) = lease_slot (leases d ! j)"
    "lease_ownerSessionId (leases d' ! j) = lease_ownerSessionId (leases d ! j)" if "j < length (leases d)" for j
    using that same by (cases "i = j"; simp add: d'_def)+
  have held: "b \<in> held_slots e k \<longleftrightarrow> (\<exists>j < length (leases e). lease_resourceKey (leases e ! j) = k \<and> lease_slot (leases e ! j) = b)"
    and hold: "c \<in> holders e k \<longleftrightarrow> (\<exists>j < length (leases e). lease_resourceKey (leases e ! j) = k \<and> lease_ownerSessionId (leases e ! j) = c)" for e k b c
    by (auto simp: held_slots_def holders_def in_set_conv_nth)
  show h: "held_slots d' k = held_slots d k" "holders d' k = holders d k" for k
    by (auto simp: set_eq_iff held hold len nth)
  have "map (\<lambda>l. (lease_resourceKey l, lease_slot l)) (leases d') = map (\<lambda>l. (lease_resourceKey l, lease_slot l)) (leases d)"
    "map (\<lambda>l. (lease_resourceKey l, lease_ownerSessionId l)) (leases d') = map (\<lambda>l. (lease_resourceKey l, lease_ownerSessionId l)) (leases d)"
    using same by (simp_all add: d'_def map_list_update_same [OF i])
  moreover have "list_all lease_normal (leases d')"
    using ok n by (auto simp: d'_def file_ok_def leases_ok_def list_all_iff dest: subsetD [OF set_update_subset_insert])
  moreover have "\<forall>l \<in> set (leases d'). lease_slot l \<le> getCapacity d' (lease_resourceKey l)"
    using ok same i by (auto simp: d'_def file_ok_def leases_ok_def dest!: subsetD [OF set_update_subset_insert])
  ultimately have "leases_ok d'"
    using ok by (simp add: file_ok_def leases_ok_def)
  then show "file_ok d'" using ok h(2) by (simp add: file_ok_def queue_ok_def d'_def)
qed

lemma renew_inv:
  assumes "lease_inv s0" "0 < now"
  shows "loaded_inv (snd (renew keyInput callerInput slotInput ttlInput now s0))"
proof -
  define s where "s = ensureLoaded s0"
  have s: "loaded_inv s" using assms(1) by (simp add: s_def ensureLoaded_inv)
  define s1 where "s1 = expire_and_persist now s"
  have s1: "loaded_inv s1" using expire_and_persist_inv [OF s assms(2)] by (simp add: s1_def)
  note d1 = loaded_inv_data [OF s1]
  have step: "loaded_inv (persistIfNeeded True (s1\<lparr>ls_data := (ls_data s1)\<lparr>leases := (leases (ls_data s1))[i := l']\<rparr>\<rparr>))"
    if sel: "selectLease (ls_data s1) key caller slot ''renew'' False = Inr (i, l)"
      and l': "l' = l\<lparr>lease_heartbeatAt := now, lease_ttlMs := t, lease_expiresAt := now + t\<rparr>"
      and t: "t = (case ttl of None \<Rightarrow> lease_ttlMs l | Some t \<Rightarrow> t)" "normalizeTtlMs ttlInput = Inr ttl"
    for key caller slot i l l' t ttl
  proof -
    note i = selectLease_Inr [OF sel]
    have l: "lease_normal l" using d1 i(1,2) by (simp add: file_ok_def leases_ok_def list_all_length)
    have "0 < t" using l t normalizeTtlMs_Inr(1) [of ttlInput] by (fastforce simp: lease_normal_def split: option.splits)
    then have "lease_normal l'" using l assms(2) by (simp add: l' lease_normal_def)
    note r = replace_lease_ok [OF conjunct1 [OF d1] i(1) this]
    have "lowestFreeSlot ((ls_data s1)\<lparr>leases := (leases (ls_data s1))[i := l']\<rparr>) k = lowestFreeSlot (ls_data s1) k" for k
      using i(2) by (intro lowestFreeSlot_cong r(2)) (simp_all add: l')
    then show ?thesis
      using r(1) i(2) d1 by (intro persist_inv) (simp_all add: l' work_conserving_def)
  qed
  show ?thesis
  proof (cases "normalizeResourceKey keyInput")
    case key: (Inr key)
    show ?thesis
    proof (cases "normalizeSessionId callerInput")
      case caller: (Inr caller)
      show ?thesis
      proof (cases "validateSlot (ls_data s) key slotInput")
        case slot: (Inr slot)
        show ?thesis
        proof (cases "normalizeTtlMs ttlInput")
          case ttl: (Inr ttl)
          show ?thesis
          proof (cases "selectLease (ls_data s1) key caller slot ''renew'' False")
            case sel: (Inr il)
            obtain i l where il: "il = (i, l)" by (cases il) auto
            show ?thesis
              using step [OF sel [unfolded il] refl refl ttl]
              by (simp add: renew_def key caller slot ttl sel il Let_def flip: s_def s1_def)
          qed (simp add: renew_def key caller slot ttl s1 Let_def flip: s_def s1_def)
        qed (simp add: renew_def key caller slot s Let_def flip: s_def)
      qed (simp add: renew_def key caller s Let_def flip: s_def)
    qed (simp add: renew_def key s Let_def flip: s_def)
  qed (simp add: renew_def s Let_def flip: s_def)
qed

text \<open>Removing a record leaves the other pools as they were.\<close>

lemma set_remove_nth: "i < length xs \<Longrightarrow> set xs = insert (xs ! i) (set (take i xs @ drop (Suc i) xs))"
  by (metis id_take_nth_drop list.set(2) set_append Un_insert_right)

lemma set_remove_nth_sub: "set (take i xs @ drop (Suc i) xs) \<subseteq> set xs"
  by (auto dest: in_set_takeD in_set_dropD)

lemma distinct_map_remove_nth: "distinct (map f xs) \<Longrightarrow> distinct (map f (take i xs @ drop (Suc i) xs))"
proof -
  assume "distinct (map f xs)"
  then have "distinct (take i (map f xs) @ drop i (map f xs))" by (simp del: append_take_drop_id add: append_take_drop_id)
  moreover have "set (drop (Suc i) (map f xs)) \<subseteq> set (drop i (map f xs))"
    by (rule set_drop_subset_set_drop) simp
  moreover have "distinct (drop (Suc i) (map f xs))" using \<open>distinct (map f xs)\<close> by (rule distinct_drop)
  ultimately have "distinct (take i (map f xs) @ drop (Suc i) (map f xs))"
    unfolding distinct_append by blast
  then show ?thesis by (simp add: take_map drop_map)
qed

lemma remove_lease_ok:
  assumes ok: "file_ok d" and i: "i < length (leases d)"
  defines "d' \<equiv> d\<lparr>leases := take i (leases d) @ drop (Suc i) (leases d)\<rparr>"
  shows "file_ok d'" "holders d' k \<subseteq> holders d k"
    and "k \<noteq> lease_resourceKey (leases d ! i) \<Longrightarrow> held_slots d' k = held_slots d k"
proof -
  have sub: "set (leases d') \<subseteq> set (leases d)" by (simp add: d'_def set_remove_nth_sub del: set_append)
  show hold: "holders d' k \<subseteq> holders d k" for k using sub by (auto simp: holders_def)
  have "set (leases d) = insert (leases d ! i) (set (leases d'))"
    using set_remove_nth [OF i] by (simp add: d'_def)
  then show "k \<noteq> lease_resourceKey (leases d ! i) \<Longrightarrow> held_slots d' k = held_slots d k"
    by (auto simp: held_slots_def)
  have "leases_ok d'"
    unfolding leases_ok_def
  proof (intro conjI)
    show "list_all lease_normal (leases d')"
      using ok sub by (auto simp: file_ok_def leases_ok_def list_all_iff)
    show "distinct (map (\<lambda>l. (lease_resourceKey l, lease_slot l)) (leases d'))"
      "distinct (map (\<lambda>l. (lease_resourceKey l, lease_ownerSessionId l)) (leases d'))"
      using ok by (auto intro!: distinct_map_remove_nth simp: d'_def file_ok_def leases_ok_def simp del: map_append distinct_append)
    show "\<forall>l \<in> set (leases d'). lease_slot l \<le> getCapacity d' (lease_resourceKey l)"
      using ok sub by (auto simp: file_ok_def leases_ok_def d'_def)
  qed
  moreover have "queue_ok d' k (getWaiters d' k)" for k
    using ok hold [of k] by (fastforce simp: d'_def file_ok_def queue_ok_def)
  ultimately show "file_ok d'" using ok by (simp add: file_ok_def d'_def)
qed

text \<open>A validated request either stops before its last check or reaches the body.\<close>

lemma release_step:
  assumes s1: "loaded_inv s1" and now: "0 < now"
    and sel: "selectLease (ls_data s1) key caller target ''release'' force = Inr (i, l)"
  shows "loaded_inv (persistIfNeeded True (snd (promoteWaiters key now
    (s1\<lparr>ls_data := (ls_data s1)\<lparr>leases := take i (leases (ls_data s1)) @ drop (Suc i) (leases (ls_data s1))\<rparr>\<rparr>))))"
proof (rule promoteWaiters_inv)
  let ?d = "(ls_data s1)\<lparr>leases := take i (leases (ls_data s1)) @ drop (Suc i) (leases (ls_data s1))\<rparr>"
  note d1 = loaded_inv_data [OF s1] and i = selectLease_Inr [OF sel]
  note r = remove_lease_ok [OF conjunct1 [OF d1] i(1)]
  show "file_ok (ls_data (s1\<lparr>ls_data := ?d\<rparr>))" using r(1) by simp
  show "pool_served (ls_data (s1\<lparr>ls_data := ?d\<rparr>)) k" if k: "k \<noteq> key" for k
  proof -
    have "k \<noteq> lease_resourceKey (leases (ls_data s1) ! i)" using i(2,3) k by simp
    then have "lowestFreeSlot ?d k = lowestFreeSlot (ls_data s1) k"
      using r(3) by (intro lowestFreeSlot_cong) simp_all
    then show ?thesis using d1 by (simp add: work_conserving_served pool_served_def)
  qed
qed (use loaded_inv_data [OF s1] now in simp_all)

lemma release_inv:
  assumes "lease_inv s0" "0 < now"
  shows "loaded_inv (snd (release keyInput callerInput force slotInput now s0))"
proof -
  define s where "s = ensureLoaded s0"
  have s: "loaded_inv s" using assms(1) by (simp add: s_def ensureLoaded_inv)
  define s1 where "s1 = (if force then s else expire_and_persist now s)"
  have s1: "loaded_inv s1" using expire_and_persist_inv [OF s assms(2)] s by (simp add: s1_def)
  show ?thesis
  proof (cases "normalizeResourceKey keyInput")
    case key: (Inr key)
    show ?thesis
    proof (cases "normalizeSessionId callerInput")
      case caller: (Inr caller)
      show ?thesis
      proof (cases "validateSlot (ls_data s) key slotInput")
        case slot: (Inr slot)
        let ?target = "if force then Some (case slot of None \<Rightarrow> 1 | Some n \<Rightarrow> n) else slot"
        show ?thesis
        proof (cases "force \<and> slot = None \<and> getCapacity (ls_data s) key > 1")
          case False
          note pre = key caller slot False
          show ?thesis
          proof (cases "selectLease (ls_data s1) key caller ?target ''release'' force")
            case sel: (Inr il)
            obtain i l where il: "il = (i, l)" by (cases il) auto
            show ?thesis
              using release_step [OF s1 assms(2) sel [unfolded il]]
              by (simp only: release_def key caller slot False if_False sel il Let_def check_res_simps
                  prod.case split_beta fst_conv snd_conv flip: s_def s1_def)
          next
            case (Inl e)
            then show ?thesis
              using s1 by (simp only: release_def key caller slot False if_False Let_def check_res_simps snd_conv flip: s_def s1_def)
          qed
        qed (use s in \<open>simp add: release_def key caller slot Let_def flip: s_def\<close>)
      qed (simp add: release_def key caller s Let_def flip: s_def)
    qed (simp add: release_def key s Let_def flip: s_def)
  qed (simp add: release_def s Let_def flip: s_def)
qed


lemma queue_ok_filter: "queue_ok d key ws \<Longrightarrow> queue_ok d key (filter P ws)"
  by (auto simp: queue_ok_def list_all_iff distinct_map_filter)

lemma withdraw_inv:
  assumes "lease_inv s0"
  shows "loaded_inv (snd (withdraw keyInput callerInput s0))"
proof -
  define s where "s = ensureLoaded s0"
  have s: "loaded_inv s" using assms by (simp add: s_def ensureLoaded_inv)
  note d = loaded_inv_data [OF s]
  have step: "loaded_inv (persistIfNeeded True (setWaiters key (filter P (getWaiters (ls_data s) key)) s))" for key P
  proof -
    let ?ws = "filter P (getWaiters (ls_data s) key)"
    have "queue_ok (ls_data s) key ?ws" using d by (intro queue_ok_filter) (simp add: file_ok_def)
    note w = setWaiters_ok [OF conjunct1 [OF d] this]
    have "lowestFreeSlot (ls_data s) key = None \<or> ?ws = []"
      using d by (cases "getWaiters (ls_data s) key = []") (simp_all add: work_conserving_def)
    then show ?thesis using w d by (intro persist_inv) (simp_all add: setWaiters_def Let_def)
  qed
  show ?thesis
  proof (cases "normalizeResourceKey keyInput")
    case key: (Inr key)
    show ?thesis
      by (cases "normalizeSessionId callerInput")
        (use s step in \<open>simp_all add: withdraw_def key Let_def flip: s_def\<close>)
  qed (simp add: withdraw_def s Let_def flip: s_def)
qed

lemma getStatus_inv: "lease_inv s \<Longrightarrow> 0 < now \<Longrightarrow> loaded_inv (snd (getStatus keyInput now s))"
  by (cases "normalizeResourceKey keyInput")
    (simp_all add: getStatus_def Let_def ensureLoaded_inv expire_and_persist_inv)

lemma listStatuses_inv: "lease_inv s \<Longrightarrow> 0 < now \<Longrightarrow> loaded_inv (snd (listStatuses now s))"
  by (simp add: listStatuses_def Let_def ensureLoaded_inv expire_and_persist_inv)

lemma sweepExpiredNow_inv: "lease_inv s \<Longrightarrow> 0 < now \<Longrightarrow> loaded_inv (sweepExpiredNow now s)"
  by (simp add: sweepExpiredNow_def ensureLoaded_inv expire_and_persist_inv)

lemma lease_inv_update [simp]:
  "lease_inv (s\<lparr>ls_sweeping := b\<rparr>) = lease_inv s" "lease_inv (s\<lparr>ls_systemOwners := ps\<rparr>) = lease_inv s"
  by (simp_all add: lease_inv_def)

lemma startAll_inv: "lease_inv s \<Longrightarrow> 0 < now \<Longrightarrow> lease_inv (startAll now s)"
  using sweepExpiredNow_inv [of "ensureLoaded s" now] ensureLoaded_inv [of s]
  by (simp add: startAll_def loaded_inv_def)

lemma destroy_inv: "lease_inv s \<Longrightarrow> lease_inv (destroy s)"
  by (simp add: destroy_def)

lemma registerSystemOwner_inv: "lease_inv s \<Longrightarrow> lease_inv (registerSystemOwner prefix s)"
  by (simp add: registerSystemOwner_def)

text \<open>A server restart forgets everything but the file.\<close>

definition restart :: "lease_state \<Rightarrow> lease_state" where
  "restart s = initial_lease_state (ls_disk s)"

lemma restart_inv: "lease_inv s \<Longrightarrow> lease_inv (restart s)"
  by (simp add: restart_def initial_lease_state_def lease_inv_def)

section \<open>Reachable states\<close>

inductive lease_step :: "lease_state \<Rightarrow> lease_state \<Rightarrow> bool" where
  acquire: "0 < now \<Longrightarrow> lease_step s (snd (acquire input now s))"
| wait: "0 < now \<Longrightarrow> lease_step s (snd (wait input now s))"
| configure: "0 < now \<Longrightarrow> lease_step s (snd (configure key cap now s))"
| renew: "0 < now \<Longrightarrow> lease_step s (snd (renew key caller slot ttl now s))"
| release: "0 < now \<Longrightarrow> lease_step s (snd (release key caller force slot now s))"
| withdraw: "lease_step s (snd (withdraw key caller s))"
| getStatus: "0 < now \<Longrightarrow> lease_step s (snd (getStatus key now s))"
| listStatuses: "0 < now \<Longrightarrow> lease_step s (snd (listStatuses now s))"
| sweep: "0 < now \<Longrightarrow> lease_step s (sweepExpiredNow now s)"
| startAll: "0 < now \<Longrightarrow> lease_step s (startAll now s)"
| destroy: "lease_step s (destroy s)"
| registerSystemOwner: "lease_step s (registerSystemOwner prefix s)"
| restart: "lease_step s (restart s)"

inductive lease_reachable :: "lease_state \<Rightarrow> bool" where
  initial: "lease_reachable (initial_lease_state None)"
| step: "lease_reachable s \<Longrightarrow> lease_step s s' \<Longrightarrow> lease_reachable s'"

lemmas op_inv = acquire_inv wait_inv configure_inv renew_inv release_inv withdraw_inv getStatus_inv
  listStatuses_inv sweepExpiredNow_inv

lemma lease_step_inv: "lease_step s s' \<Longrightarrow> lease_inv s \<Longrightarrow> lease_inv s'"
  by (induction rule: lease_step.induct)
    (blast intro: op_inv loaded_inv_lease_inv startAll_inv destroy_inv registerSystemOwner_inv restart_inv)+

lemma empty_file_ok: "file_ok emptyResourceLeaseFile" "work_conserving emptyResourceLeaseFile"
  by (simp_all add: emptyResourceLeaseFile_def file_ok_def leases_ok_def queue_ok_def work_conserving_def
      getWaiters_def capacities_normal_def waiters_normal_def wf_obj_def canon_def)

lemma lease_reachable_inv: "lease_reachable s \<Longrightarrow> lease_inv s"
proof (induction rule: lease_reachable.induct)
  case initial
  show ?case by (simp add: initial_lease_state_def lease_inv_def store_load_def empty_file_ok)
qed (rule lease_step_inv)

end
