(* ===== verification/Lease_Tickets.thy ===== *)
theory Lease_Tickets
  imports Lease_Operations
begin

text \<open>
  The identifiers of waiters. \<open>acquireLoaded\<close> finds the place of a waiter in its queue by the
  waiter's identifier; here is why that is the place of the session that asked: in every reachable
  state the waiters of a queue have distinct identifiers, all handed out before the next one.
\<close>

definition tickets :: "lease_file \<Rightarrow> bool" where
  "tickets d \<longleftrightarrow> (\<forall>key. distinct (map waiter_id (getWaiters d key))
     \<and> (\<forall>w \<in> set (getWaiters d key). \<exists>n < nextWaiterId d. waiter_id w = ''w'' @ show_nat n))"

lemma ticketsD:
  assumes "tickets d"
  shows "distinct (map waiter_id (getWaiters d key))"
    and "w \<in> set (getWaiters d key) \<Longrightarrow> \<exists>n < nextWaiterId d. waiter_id w = ''w'' @ show_nat n"
  using assms by (auto simp: tickets_def)

text \<open>Queues that only lose waiters.\<close>

definition fewer :: "waiter list \<Rightarrow> waiter list \<Rightarrow> bool" where
  "fewer xs ys \<longleftrightarrow> set xs \<subseteq> set ys \<and> (distinct (map waiter_id ys) \<longrightarrow> distinct (map waiter_id xs))"

lemma fewer_simps [simp]: "fewer xs xs" "fewer (drop n xs) xs" "fewer (filter P xs) xs"
  by (simp_all add: fewer_def set_drop_subset distinct_map_filter drop_map [symmetric])

lemma tickets_fewer:
  assumes t: "tickets d" and n: "nextWaiterId d \<le> nextWaiterId d'"
    and q: "\<And>key. fewer (getWaiters d' key) (getWaiters d key)"
  shows "tickets d'"
  unfolding tickets_def
proof (intro allI conjI ballI)
  fix key
  show "distinct (map waiter_id (getWaiters d' key))" using q ticketsD(1) [OF t] unfolding fewer_def by blast
  fix w assume "w \<in> set (getWaiters d' key)"
  then have "w \<in> set (getWaiters d key)" using q unfolding fewer_def by blast
  then obtain m where "m < nextWaiterId d" "waiter_id w = ''w'' @ show_nat m" using ticketsD(2) [OF t] by blast
  then show "\<exists>n < nextWaiterId d'. waiter_id w = ''w'' @ show_nat n" using n by (intro exI [of _ m]) simp
qed

lemma tickets_same: "tickets d \<Longrightarrow> getWaiters d' = getWaiters d \<Longrightarrow> nextWaiterId d' = nextWaiterId d \<Longrightarrow> tickets d'"
  by (simp add: tickets_def)

text \<open>A new waiter takes the next identifier.\<close>

lemma tickets_new:
  assumes t: "tickets d" and n: "nextWaiterId d' = Suc (nextWaiterId d)" and w: "waiter_id w = ''w'' @ show_nat (nextWaiterId d)"
    and q: "getWaiters d' = (getWaiters d)(key := getWaiters d key @ [w])"
  shows "tickets d'"
  unfolding tickets_def
proof (intro allI conjI ballI)
  fix k
  have new: "waiter_id w \<noteq> waiter_id v" if "v \<in> set (getWaiters d key)" for v
    using ticketsD(2) [OF t that] w by auto
  then show "distinct (map waiter_id (getWaiters d' k))" using ticketsD(1) [OF t] by (auto simp: q)
  fix v assume "v \<in> set (getWaiters d' k)"
  then have "v = w \<or> v \<in> set (getWaiters d k)" by (auto simp: q split: if_splits)
  then show "\<exists>m < nextWaiterId d'. waiter_id v = ''w'' @ show_nat m"
    using w ticketsD(2) [OF t] n less_Suc_eq by metis
qed

section \<open>The operations\<close>

lemma promotes_tickets: "promotes key now d promoted d' \<Longrightarrow> tickets d \<Longrightarrow> tickets d'"
  by (rule tickets_fewer [of d]) (auto simp: promotes_def)

lemma promote_loop_next: "promote_loop key now ws s = (rest, promoted, s') \<Longrightarrow> nextWaiterId (ls_data s') = nextWaiterId (ls_data s)"
  using promote_loop_fill [of key now ws s rest promoted s'] by simp

lemma promoteWaiters_next: "nextWaiterId (ls_data (snd (promoteWaiters key now s))) = nextWaiterId (ls_data s)"
  using promote_loop_next by (simp add: promoteWaiters_def Let_def setWaiters_data split: prod.splits)

lemma promote_pools_next: "nextWaiterId (ls_data (snd (promote_pools keys now ch s))) = nextWaiterId (ls_data s)"
proof (induction keys arbitrary: ch s)
  case (Cons key keys)
  then show ?case using promoteWaiters_next [of key now s] by (cases "promoteWaiters key now s") simp
qed simp

lemma expireDueLeases_tickets:
  assumes "file_ok (ls_data s)" "0 < now" "tickets (ls_data s)" "expireDueLeases now s = (ch, s')"
  shows "tickets (ls_data s')"
proof (rule tickets_fewer [OF assms(3)])
  have "nextWaiterId (ls_data s') = nextWaiterId (ls_data s)"
    using promote_pools_next [of "obj_keys (waiters (ls_data s))" now
        "filter (\<lambda>l. lease_expiresAt l \<le> now) (leases (ls_data s)) \<noteq> []"
        "s\<lparr>ls_data := (ls_data s)\<lparr>leases := filter (\<lambda>l. lease_expiresAt l > now) (leases (ls_data s))\<rparr>\<rparr>"] assms(4)
    by (simp add: expireDueLeases_def Let_def)
  then show "nextWaiterId (ls_data s) \<le> nextWaiterId (ls_data s')" by simp
  show "fewer (getWaiters (ls_data s') key) (getWaiters (ls_data s) key)" for key
    using expireDueLeases_expires(1) [OF assms(1,2,4)] fewer_simps(2) by (metis expires_def)
qed

lemma expire_and_persist_tickets:
  assumes "file_ok (ls_data s)" "0 < now" "tickets (ls_data s)"
  shows "tickets (ls_data (expire_and_persist now s))"
  using expireDueLeases_tickets [OF assms] by (simp add: expire_and_persist_def split: prod.splits)

lemma acquireLoaded_tickets:
  assumes ok: "file_ok (ls_data s)" and t: "tickets (ls_data s)" and eq: "acquireLoaded rq now s = (result, s')"
  shows "tickets (ls_data s')"
proof -
  let ?d = "ls_data s" and ?key = "rq_resourceKey rq"
  have wf: "wf_obj (waiters (ls_data (s\<lparr>ls_data := ?d\<lparr>nextWaiterId := Suc (nextWaiterId ?d)\<rparr>\<rparr>)))"
    using ok by (simp add: file_ok_def waiters_normal_def)
  have "tickets (ls_data (snd (addWaiter rq now s)))"
  proof (cases "List.find (\<lambda>w. waiter_sessionId w = rq_callerSessionId rq) (getWaiters ?d ?key)")
    case None
    define w where "w = \<lparr>waiter_id = ''w'' @ show_nat (nextWaiterId ?d), waiter_resourceKey = ?key,
      waiter_sessionId = rq_callerSessionId rq, waiter_questId = truthy (rq_questId rq),
      waiter_purpose = rq_purpose rq, waiter_metadata = rq_metadata rq, waiter_queuedAt = now, waiter_ttlMs = rq_ttlMs rq\<rparr>"
    let ?t = "s\<lparr>ls_data := ?d\<lparr>nextWaiterId := Suc (nextWaiterId ?d)\<rparr>\<rparr>" and ?ws = "getWaiters ?d ?key @ [w]"
    have s: "snd (addWaiter rq now s) = setWaiters ?key ?ws ?t"
      using None by (simp add: addWaiter_def Let_def w_def)
    have q: "getWaiters (ls_data (setWaiters ?key ?ws ?t)) = (getWaiters ?d)(?key := ?ws)"
      using getWaiters_setWaiters [OF wf, of ?key ?ws] by (simp add: fun_eq_iff)
    have n: "nextWaiterId (ls_data (setWaiters ?key ?ws ?t)) = Suc (nextWaiterId ?d)" by (simp add: setWaiters_data)
    show ?thesis
      unfolding s by (rule tickets_new [OF t n _ q]) (simp add: w_def)
  next
    case (Some w)
    then show ?thesis using t by (simp add: addWaiter_def Let_def)
  qed
  moreover have "tickets (ls_data (push_lease l s))" for l using t by (simp add: tickets_def)
  ultimately show ?thesis
    using eq t by (auto simp: acquireLoaded_def Let_def split: option.splits if_splits prod.splits)
qed

lemma ensureLoaded_ok: "lease_inv s \<Longrightarrow> file_ok (ls_data (ensureLoaded s))"
  using ensureLoaded_inv loaded_inv_data by blast

lemma acquire_tickets:
  assumes "lease_inv s" "0 < now" "tickets (ls_data (ensureLoaded s))"
  shows "tickets (ls_data (snd (acquire input now s)))"
proof (cases "normalizeAcquireInput input")
  case (Inr rq)
  obtain ch s1 where e: "expireDueLeases now (ensureLoaded s) = (ch, s1)" by (cases "expireDueLeases now (ensureLoaded s)") auto
  obtain result s2 where a: "acquireLoaded rq now s1 = (result, s2)" by (cases "acquireLoaded rq now s1") auto
  have "file_ok (ls_data s1)"
    using expireDueLeases_expires(1) [OF ensureLoaded_ok [OF assms(1)] assms(2) e] by (simp add: expires_def)
  from acquireLoaded_tickets [OF this expireDueLeases_tickets [OF ensureLoaded_ok [OF assms(1)] assms(2,3) e] a]
  show ?thesis by (simp add: acquire_def Let_def Inr e a)
qed (use assms in \<open>simp add: acquire_def Let_def\<close>)

lemma fill_drop: "\<exists>n. fst (fill key now ws d) = drop n ws"
proof (induction key now ws d rule: fill.induct)
  case (2 key now w ws d)
  show ?case
  proof (cases "lowestFreeSlot d key")
    case None
    then show ?thesis by (intro exI [of _ 0]) simp
  next
    case (Some slot)
    let ?d = "d\<lparr>leases := leases d @ [createLease (waiter_request w) slot now]\<rparr>"
    obtain n where "fst (fill key now ws ?d) = drop n ws" using 2 [OF Some refl] by blast
    then show ?thesis
      using Some by (intro exI [of _ "Suc n"]) (cases "fill key now ws ?d", simp)
  qed
qed simp

lemma promoteWaiters_tickets:
  assumes wf: "wf_obj (waiters (ls_data s))" and t: "tickets (ls_data s)"
  shows "tickets (ls_data (snd (promoteWaiters key now s)))"
proof (rule tickets_fewer [OF t])
  show "nextWaiterId (ls_data s) \<le> nextWaiterId (ls_data (snd (promoteWaiters key now s)))"
    by (simp add: promoteWaiters_next)
  obtain rest promoted s1 where loop: "promote_loop key now (getWaiters (ls_data s) key) s = (rest, promoted, s1)"
    by (cases "promote_loop key now (getWaiters (ls_data s) key) s")
  note f = promote_loop_fill [OF loop]
  have q: "getWaiters (ls_data (snd (promoteWaiters key now s))) = (getWaiters (ls_data s))(key := rest)"
    using getWaiters_setWaiters [of s1 key rest] wf f by (simp add: promoteWaiters_def loop fun_eq_iff)
  obtain n where "rest = drop n (getWaiters (ls_data s) key)"
    using fill_drop [of key now "getWaiters (ls_data s) key" "ls_data s"] f by auto
  then show "fewer (getWaiters (ls_data (snd (promoteWaiters key now s))) k) (getWaiters (ls_data s) k)" for k
    by (simp add: q)
qed

lemma file_ok_wf: "file_ok d \<Longrightarrow> wf_obj (waiters d)"
  by (simp add: file_ok_def waiters_normal_def)

text \<open>After \<open>ensureLoaded\<close> and the expiry most operations start with.\<close>

lemma expired_tickets:
  assumes "lease_inv s" "0 < now" "tickets (ls_data (ensureLoaded s))"
  shows "tickets (ls_data (expire_and_persist now (ensureLoaded s)))"
    and "wf_obj (waiters (ls_data (expire_and_persist now (ensureLoaded s))))"
  using expire_and_persist_tickets [OF ensureLoaded_ok [OF assms(1)] assms(2,3)]
    loaded_inv_data [OF expire_and_persist_inv(1) [OF ensureLoaded_inv [OF assms(1)] assms(2)]] file_ok_wf by auto

lemma configure_tickets:
  assumes "lease_inv s" "0 < now" "tickets (ls_data (ensureLoaded s))"
  shows "tickets (ls_data (snd (configure keyInput capacity now s)))"
proof -
  note x = expired_tickets [OF assms]
  let ?t = "\<lambda>key cap. (expire_and_persist now (ensureLoaded s))\<lparr>ls_data := (ls_data (expire_and_persist now (ensureLoaded s)))
      \<lparr>capacities := obj_set (capacities (ls_data (expire_and_persist now (ensureLoaded s)))) key cap\<rparr>\<rparr>"
  have "tickets (ls_data (?t key cap))" for key cap using x(1) by (simp add: tickets_def)
  then have "tickets (ls_data (snd (promoteWaiters key now (?t key cap))))" for key cap
    using x(2) by (intro promoteWaiters_tickets) simp_all
  then show ?thesis
    using x(1) assms(3)
    by (cases "normalizeResourceKey keyInput"; cases "safe_pos capacity") (simp_all add: configure_def Let_def)
qed

lemma renew_tickets:
  assumes "lease_inv s" "0 < now" "tickets (ls_data (ensureLoaded s))"
  shows "tickets (ls_data (snd (renew keyInput callerInput slotInput ttlInput now s)))"
proof -
  note x = expired_tickets [OF assms]
  have "tickets ((ls_data (expire_and_persist now (ensureLoaded s)))\<lparr>leases := ls\<rparr>)" for ls using x(1) by (simp add: tickets_def)
  then show ?thesis
    using x(1) assms(3) by (auto simp: renew_def Let_def check_res_def split: sum.splits)
qed

lemma release_tickets:
  assumes "lease_inv s" "0 < now" "tickets (ls_data (ensureLoaded s))"
  shows "tickets (ls_data (snd (release keyInput callerInput force slotInput now s)))"
proof -
  note x = expired_tickets [OF assms]
  note y = assms(3) file_ok_wf [OF ensureLoaded_ok [OF assms(1)]]
  have pro: "tickets (ls_data (snd (promoteWaiters key now (u\<lparr>ls_data := (ls_data u)\<lparr>leases := ls\<rparr>\<rparr>))))"
    if "tickets (ls_data u)" "wf_obj (waiters (ls_data u))" for key ls and u :: lease_state
    using that by (intro promoteWaiters_tickets) (simp_all add: tickets_def)
  show ?thesis
    using y(1) x(1) pro [OF x] pro [OF y]
    by (cases force) (auto simp: release_def Let_def check_res_def split_beta split: sum.splits)
qed

lemma withdraw_tickets:
  assumes "lease_inv s" "tickets (ls_data (ensureLoaded s))"
  shows "tickets (ls_data (snd (withdraw keyInput callerInput s)))"
proof -
  have "tickets (ls_data (setWaiters key (filter P (getWaiters (ls_data (ensureLoaded s)) key)) (ensureLoaded s)))" for key P
    by (rule tickets_fewer [OF assms(2)])
      (simp_all add: getWaiters_setWaiters [OF file_ok_wf [OF ensureLoaded_ok [OF assms(1)]]], simp add: setWaiters_data)
  then show ?thesis
    using assms(2) by (auto simp: withdraw_def Let_def check_res_def split: sum.splits)
qed

section \<open>Reachable states\<close>

lemma tickets_stored: "loaded_inv s \<Longrightarrow> tickets (ls_data s) \<Longrightarrow> tickets (store_load (ls_disk s))"
  by (simp add: loaded_inv_def lease_inv_def)

lemma sweep_tickets:
  "lease_inv s \<Longrightarrow> 0 < now \<Longrightarrow> tickets (store_load (ls_disk s)) \<Longrightarrow> tickets (store_load (ls_disk (sweepExpiredNow now s)))"
  using expired_tickets(1) [of s now] tickets_stored [OF sweepExpiredNow_inv]
  by (auto simp: ensureLoaded_data lease_inv_def sweepExpiredNow_def)

lemma lease_step_tickets:
  assumes "lease_step s s'" "lease_inv s" "tickets (store_load (ls_disk s))"
  shows "tickets (store_load (ls_disk s'))"
proof -
  have t: "tickets (ls_data (ensureLoaded s))" using assms(2,3) by (auto simp: ensureLoaded_data lease_inv_def)
  show ?thesis
    using assms(1)
  proof cases
    case (acquire now input)
    then show ?thesis using tickets_stored acquire_inv acquire_tickets assms(2) t by simp
  next
    case (wait now input)
    then show ?thesis using tickets_stored acquire_inv acquire_tickets assms(2) t by (simp add: wait_def)
  next
    case (configure now key cap)
    then show ?thesis using tickets_stored configure_inv configure_tickets assms(2) t by simp
  next
    case (renew now key caller slot ttl)
    then show ?thesis using tickets_stored renew_inv renew_tickets assms(2) t by simp
  next
    case (release now key caller force slot)
    then show ?thesis using tickets_stored release_inv release_tickets assms(2) t by simp
  next
    case (withdraw key caller)
    then show ?thesis using tickets_stored withdraw_inv withdraw_tickets assms(2) t by simp
  next
    case (getStatus now key)
    have "tickets (ls_data (snd (getStatus key now s)))"
      using expired_tickets(1) [OF assms(2) getStatus(2) t] t
      by (cases "normalizeResourceKey key") (simp_all add: getStatus_def Let_def)
    then show ?thesis using tickets_stored [OF getStatus_inv [OF assms(2)]] getStatus by simp
  next
    case (listStatuses now)
    have "tickets (ls_data (snd (listStatuses now s)))"
      using expired_tickets(1) [OF assms(2) listStatuses(2) t] by (simp add: listStatuses_def Let_def)
    then show ?thesis using tickets_stored [OF listStatuses_inv [OF assms(2)]] listStatuses by simp
  next
    case (sweep now)
    then show ?thesis using sweep_tickets assms(2,3) by simp
  next
    case (startAll now)
    have "ls_disk (ensureLoaded s) = ls_disk s" by (simp add: ensureLoaded_def Let_def)
    moreover have "lease_inv (ensureLoaded s)" using ensureLoaded_inv [OF assms(2)] by (simp add: loaded_inv_def)
    ultimately show ?thesis using startAll sweep_tickets [of "ensureLoaded s" now] assms(3) by (simp add: startAll_def)
  next
    case destroy
    then show ?thesis using assms(3) by (simp add: destroy_def)
  next
    case (registerSystemOwner prefix)
    then show ?thesis using assms(3) by (simp add: registerSystemOwner_def)
  next
    case restart
    then show ?thesis using assms(3) by (simp add: restart_def initial_lease_state_def)
  qed
qed

lemma lease_reachable_tickets: "lease_reachable s \<Longrightarrow> tickets (ls_data (ensureLoaded s))"
proof -
  have "tickets (store_load (ls_disk s))" if "lease_reachable s" using that
  proof (induction rule: lease_reachable.induct)
    case initial
    show ?case by (simp add: initial_lease_state_def store_load_def tickets_def emptyResourceLeaseFile_def getWaiters_def)
  qed (blast intro: lease_step_tickets lease_reachable_inv)
  then show "lease_reachable s \<Longrightarrow> tickets (ls_data (ensureLoaded s))"
    using lease_reachable_inv by (auto simp: ensureLoaded_data lease_inv_def)
qed

end
