(* ===== verification/Lease_Properties.thy ===== *)
theory Lease_Properties
  imports Lease_Tickets
begin

text \<open>
  What the lease manager promises: safety of the reachable states, the answers of its
  operations, and that a restart recovers everything.
\<close>

section \<open>Reachable states are well-formed\<close>

lemma loaded_step:
  "lease_step s s' \<Longrightarrow> lease_inv s \<Longrightarrow> ls_loaded s \<or> ls_data s = emptyResourceLeaseFile \<Longrightarrow>
    ls_loaded s' \<or> ls_data s' = emptyResourceLeaseFile"
proof (induction rule: lease_step.induct)
  case (startAll now s)
  then show ?case
    using sweepExpiredNow_inv [of "ensureLoaded s" now] ensureLoaded_inv [of s]
    by (simp add: startAll_def loaded_inv_def)
next
  case (restart s)
  then show ?case by (simp add: restart_def initial_lease_state_def)
qed (use op_inv in \<open>fastforce simp: loaded_inv_def destroy_def registerSystemOwner_def\<close>)+

lemma reachable_unloaded: "lease_reachable s \<Longrightarrow> ls_loaded s \<or> ls_data s = emptyResourceLeaseFile"
proof (induction rule: lease_reachable.induct)
  case initial
  show ?case by (simp add: initial_lease_state_def)
qed (rule loaded_step [OF _ lease_reachable_inv])

lemma reachable_data:
  assumes "lease_reachable s"
  shows "file_ok (ls_data s)" "work_conserving (ls_data s)"
  using lease_reachable_inv [OF assms] reachable_unloaded [OF assms] empty_file_ok
  by (auto simp: lease_inv_def)

text \<open>
  A short run used by the witnesses: with the system owner \<open>s\<close> registered, \<open>s1\<close> holds the
  pool \<open>dev\<close> and \<open>s2\<close> waits for it.
\<close>

definition demo_input :: "string \<Rightarrow> acquire_input" where
  "demo_input who = \<lparr>ai_resourceKey = ''dev'', ai_callerSessionId = who, ai_questId = None, ai_purpose = ''test'',
     ai_metadata = None, ai_ttlMs = Some (Fin 60000), ai_waitIfUnavailable = Some True\<rparr>"

definition demo_held :: lease_state where
  "demo_held = snd (acquire (demo_input ''s1'') 1000 (registerSystemOwner ''s'' (initial_lease_state None)))"

definition demo_queued :: lease_state where
  "demo_queued = snd (acquire (demo_input ''s2'') 2000 demo_held)"

lemma demo_held_reachable: "lease_reachable demo_held"
  unfolding demo_held_def
  by (intro lease_reachable.step [OF _ lease_step.acquire]
      lease_reachable.step [OF lease_reachable.initial lease_step.registerSystemOwner]) simp

lemma demo_queued_reachable: "lease_reachable demo_queued"
  unfolding demo_queued_def by (rule lease_reachable.step [OF demo_held_reachable lease_step.acquire]) simp

lemma demo_queued_data:
  "map lease_ownerSessionId (leases (ls_data demo_queued)) = [''s1'']"
  "map waiter_sessionId (getWaiters (ls_data demo_queued) ''dev'') = [''s2'']"
  "ls_loaded demo_queued"
  by code_simp+

text \<open>
  C1. In every reachable state of the lease manager a pool never has more leases than its
  capacity, no slot is leased twice and every leased slot is between 1 and the capacity.
\<close>

theorem lease_capacity_safe:
  assumes "lease_reachable s"
  shows "length (getLeases (ls_data s) key) \<le> getCapacity (ls_data s) key
    \<and> distinct (map lease_slot (getLeases (ls_data s) key))
    \<and> list_all (\<lambda>l. 1 \<le> lease_slot l \<and> lease_slot l \<le> getCapacity (ls_data s) key) (getLeases (ls_data s) key)"
proof -
  let ?d = "ls_data s"
  have ok: "leases_ok ?d" using reachable_data [OF assms] by (simp add: file_ok_def)
  then have "inj_on (\<lambda>l. (lease_resourceKey l, lease_slot l)) (set (leases ?d))" and dl: "distinct (leases ?d)"
    by (auto simp: leases_ok_def distinct_map)
  then have "inj_on lease_slot (set (getLeases ?d key))"
    by (auto simp: set_getLeases inj_on_def)
  moreover have "distinct (getLeases ?d key)" using dl by (simp add: getLeases_def)
  ultimately have dist: "distinct (map lease_slot (getLeases ?d key))" by (simp add: distinct_map)
  have bound: "list_all (\<lambda>l. 1 \<le> lease_slot l \<and> lease_slot l \<le> getCapacity ?d key) (getLeases ?d key)"
    using ok by (auto simp: list_all_iff set_getLeases leases_ok_def lease_normal_def Suc_le_eq)
  have "length (getLeases ?d key) = card (lease_slot ` set (getLeases ?d key))"
    using distinct_card [OF dist] by simp
  also have "\<dots> \<le> card {1..getCapacity ?d key}"
    using bound by (intro card_mono) (auto simp: list_all_iff)
  finally show ?thesis using dist bound by simp
qed

theorem lease_capacity_safe_witness:
  "length (getLeases (ls_data demo_queued) ''dev'') \<le> getCapacity (ls_data demo_queued) ''dev''
    \<and> map lease_ownerSessionId (leases (ls_data demo_queued)) = [''s1'']"
  using lease_capacity_safe [OF demo_queued_reachable] demo_queued_data by blast

text \<open>
  C2. In every reachable state a session never holds two slots of one pool, never waits twice
  in its queue, and never waits in the queue of a pool it holds a slot of.
\<close>

theorem lease_one_place_per_session:
  assumes "lease_reachable s"
  shows "distinct (map lease_ownerSessionId (getLeases (ls_data s) key)
    @ map waiter_sessionId (getWaiters (ls_data s) key))"
proof -
  let ?d = "ls_data s"
  have ok: "leases_ok ?d" "queue_ok ?d key (getWaiters ?d key)"
    using reachable_data [OF assms] by (simp_all add: file_ok_def)
  then have "inj_on (\<lambda>l. (lease_resourceKey l, lease_ownerSessionId l)) (set (leases ?d))" and dl: "distinct (leases ?d)"
    by (auto simp: leases_ok_def distinct_map)
  then have "inj_on lease_ownerSessionId (set (getLeases ?d key))"
    by (auto simp: set_getLeases inj_on_def)
  moreover have "distinct (getLeases ?d key)" using dl by (simp add: getLeases_def)
  moreover have "lease_ownerSessionId ` set (getLeases ?d key) = holders ?d key"
    by (auto simp: set_getLeases holders_def)
  ultimately show ?thesis using ok(2) by (auto simp: distinct_map queue_ok_def)
qed

theorem lease_one_place_per_session_witness:
  "distinct (map lease_ownerSessionId (getLeases (ls_data demo_queued) ''dev'')
    @ map waiter_sessionId (getWaiters (ls_data demo_queued) ''dev''))"
  by (rule lease_one_place_per_session [OF demo_queued_reachable])

text \<open>
  C3. No slot is left idle: in every reachable state, while any session waits for a pool every
  slot of the pool from 1 to its capacity is leased.
\<close>

theorem lease_no_idle_slot:
  assumes "lease_reachable s" and "getWaiters (ls_data s) key \<noteq> []"
  shows "set (map lease_slot (getLeases (ls_data s) key)) = {1..getCapacity (ls_data s) key}"
proof -
  have "lowestFreeSlot (ls_data s) key = None"
    using reachable_data [OF assms(1)] assms(2) by (simp add: work_conserving_def)
  moreover have "lease_slot l \<in> {1..getCapacity (ls_data s) key}" if "l \<in> set (getLeases (ls_data s) key)" for l
    using reachable_data(1) [OF assms(1)] that
    by (auto simp: file_ok_def leases_ok_def set_getLeases lease_normal_def list_all_iff Suc_le_eq)
  ultimately show ?thesis
    by (auto simp: lowestFreeSlot_def first_free_None)
qed

theorem lease_no_idle_slot_witness:
  "set (map lease_slot (getLeases (ls_data demo_queued) ''dev'')) = {1..getCapacity (ls_data demo_queued) ''dev''}"
proof (rule lease_no_idle_slot [OF demo_queued_reachable])
  show "getWaiters (ls_data demo_queued) ''dev'' \<noteq> []" using demo_queued_data(2) by auto
qed

text \<open>
  C4. A server restart loses nothing: in every reachable state, the manager that starts from
  the file on disk loads exactly the leases, queues and capacities the old one had in memory.
\<close>

theorem lease_restart_recovers:
  assumes "lease_reachable s"
  shows "ls_data (ensureLoaded (restart s)) = ls_data (ensureLoaded s)"
  using lease_reachable_inv [OF assms]
  by (simp add: ensureLoaded_data restart_def initial_lease_state_def lease_inv_def)

theorem lease_restart_recovers_witness:
  "ls_data (ensureLoaded (restart demo_queued)) = ls_data demo_queued"
  using lease_restart_recovers [OF demo_queued_reachable] demo_queued_data(3)
  by (simp add: ensureLoaded_data)

section \<open>What a request gets\<close>

lemma takeWhile_position:
  "x \<in> set xs \<Longrightarrow> length (takeWhile (\<lambda>y. f y \<noteq> f x) xs) < length xs \<and> f (xs ! length (takeWhile (\<lambda>y. f y \<noteq> f x) xs)) = f x"
  by (induction xs) auto

lemma place_in_queue:
  assumes "distinct (map waiter_id ws)" "w \<in> set ws"
  shows "length (takeWhile (\<lambda>e. waiter_id e \<noteq> waiter_id w) ws) < length ws"
    and "ws ! length (takeWhile (\<lambda>e. waiter_id e \<noteq> waiter_id w) ws) = w"
proof -
  note p = takeWhile_position [OF assms(2), of waiter_id]
  then show "length (takeWhile (\<lambda>e. waiter_id e \<noteq> waiter_id w) ws) < length ws" by blast
  have "ws ! length (takeWhile (\<lambda>e. waiter_id e \<noteq> waiter_id w) ws) \<in> set ws" using p by simp
  then show "ws ! length (takeWhile (\<lambda>e. waiter_id e \<noteq> waiter_id w) ws) = w"
    using p assms by (auto simp: distinct_map inj_on_def)
qed

text \<open>
  The whole answer of one request, in terms of the pool \<open>d\<close> it found and the pool \<open>d'\<close> it left:
  the branch, every field of a new lease or waiter, the capacity and queue reported, the caller's
  place in the queue counted from 1, and everything that changed in the file.
\<close>

definition acquire_answer :: "lease_request \<Rightarrow> number \<Rightarrow> lease_file \<Rightarrow> acquire_result \<Rightarrow> lease_file \<Rightarrow> bool" where
  "acquire_answer rq now d result d' \<longleftrightarrow>
     (let key = rq_resourceKey rq; who = rq_callerSessionId rq
      in case result of
           Acquired cap l ws \<Rightarrow> who \<notin> holders d key \<and> getWaiters d key = [] \<and> ws = [] \<and> cap = getCapacity d key
             \<and> 1 \<le> lease_slot l \<and> lease_slot l \<le> cap \<and> lease_slot l \<notin> held_slots d key
             \<and> {1..<lease_slot l} \<subseteq> held_slots d key
             \<and> lease_resourceKey l = key \<and> lease_ownerSessionId l = who \<and> lease_questId l = truthy (rq_questId rq)
             \<and> lease_purpose l = rq_purpose rq \<and> lease_metadata l = rq_metadata rq
             \<and> lease_acquiredAt l = now \<and> lease_heartbeatAt l = now \<and> lease_ttlMs l = rq_ttlMs rq
             \<and> lease_expiresAt l = now + rq_ttlMs rq
             \<and> d' = d\<lparr>leases := leases d @ [l]\<rparr>
         | AlreadyOwned cap l ws \<Rightarrow> d' = d \<and> cap = getCapacity d key \<and> ws = getWaiters d key
             \<and> l \<in> set (leases d) \<and> lease_resourceKey l = key \<and> lease_ownerSessionId l = who
         | Queued st w n \<Rightarrow> who \<notin> holders d key \<and> held_slots d key = {1..getCapacity d key} \<and> rq_waitIfUnavailable rq
             \<and> st = buildStatus d' key \<and> waiter_sessionId w = who
             \<and> 1 \<le> n \<and> n \<le> length (getWaiters d' key) \<and> getWaiters d' key ! (n - 1) = w
             \<and> (d' = d
                \<or> who \<notin> waiter_sessionId ` set (getWaiters d key) \<and> n = length (getWaiters d key) + 1
                  \<and> w = \<lparr>waiter_id = ''w'' @ show_nat (nextWaiterId d), waiter_resourceKey = key, waiter_sessionId = who,
                         waiter_questId = truthy (rq_questId rq), waiter_purpose = rq_purpose rq,
                         waiter_metadata = rq_metadata rq, waiter_queuedAt = now, waiter_ttlMs = rq_ttlMs rq\<rparr>
                  \<and> getWaiters d' = (getWaiters d)(key := getWaiters d key @ [w])
                  \<and> leases d' = leases d \<and> capacities d' = capacities d \<and> nextWaiterId d' = nextWaiterId d + 1)
         | Unavailable st \<Rightarrow> who \<notin> holders d key \<and> held_slots d key = {1..getCapacity d key} \<and> \<not> rq_waitIfUnavailable rq
             \<and> d' = d \<and> st = buildStatus d key)"

lemma no_free_slot: "leases_ok d \<Longrightarrow> lowestFreeSlot d key = None \<Longrightarrow> held_slots d key = {1..getCapacity d key}"
  by (auto simp: lowestFreeSlot_None held_slots_def leases_ok_def lease_normal_def list_all_iff Suc_le_eq)

lemma free_slot_lowest:
  assumes "lowestFreeSlot d key = Some slot"
  shows "1 \<le> slot" "slot \<le> getCapacity d key" "slot \<notin> held_slots d key" "{1..<slot} \<subseteq> held_slots d key"
  using assms by (auto simp: lowestFreeSlot_Some)

text \<open>The place reported to a waiter is its own because identifiers of waiters are distinct.\<close>

lemma acquireLoaded_answer:
  assumes ok: "file_ok (ls_data s)" "work_conserving (ls_data s)"
    and t: "tickets (ls_data s) \<or> (\<forall>st w n. result \<noteq> Queued st w n)"
    and eq: "acquireLoaded rq now s = (result, s')"
  shows "acquire_answer rq now (ls_data s) result (ls_data s')"
proof -
  let ?d = "ls_data s" and ?key = "rq_resourceKey rq"
  have lok: "leases_ok ?d" using ok(1) by (simp add: file_ok_def)
  show ?thesis
  proof (cases "List.find (\<lambda>l. lease_ownerSessionId l = rq_callerSessionId rq) (getLeases ?d ?key)")
    case (Some l)
    with eq find_Some_mem [OF Some] show ?thesis
      by (auto simp: acquireLoaded_def acquire_answer_def Let_def set_getLeases)
  next
    case None
    then have fresh: "rq_callerSessionId rq \<notin> holders ?d ?key"
      by (auto simp: find_None_iff_set set_getLeases holders_def)
    show ?thesis
    proof (cases "lowestFreeSlot ?d ?key")
      case (Some slot)
      then have "getWaiters ?d ?key = []" using ok(2) by (auto simp: work_conserving_def)
      then show ?thesis
        using eq None Some fresh free_slot_lowest [OF Some]
        by (auto simp: acquireLoaded_def acquire_answer_def createLease_def Let_def)
    next
      case free: None
      note full = no_free_slot [OF lok free]
      show ?thesis
      proof (cases "rq_waitIfUnavailable rq")
        case False
        with eq None free fresh full show ?thesis by (auto simp: acquireLoaded_def acquire_answer_def Let_def)
      next
        case True
        obtain w s1 where add: "addWaiter rq now s = (w, s1)" by (cases "addWaiter rq now s")
        have res: "result = Queued (buildStatus (ls_data s1) ?key) w
            (length (takeWhile (\<lambda>e. waiter_id e \<noteq> waiter_id w) (getWaiters (ls_data s1) ?key)) + 1)" "s' = s1"
          using eq None free True add by (auto simp: acquireLoaded_def buildStatus_def Let_def)
        then have t: "tickets ?d" using t by blast
        show ?thesis
        proof (cases "List.find (\<lambda>w. waiter_sessionId w = rq_callerSessionId rq) (getWaiters ?d ?key)")
          case (Some v)
          then have "w = v" "s1 = s" using add by (simp_all add: addWaiter_def Let_def)
          with find_Some_mem [OF Some] place_in_queue [OF ticketsD(1) [OF t], of v ?key] show ?thesis
            using fresh full True by (auto simp: res acquire_answer_def Let_def)
        next
          case unqueued: None
          then have new: "rq_callerSessionId rq \<notin> waiter_sessionId ` set (getWaiters ?d ?key)"
            by (auto simp: find_None_iff_set)
          let ?t = "s\<lparr>ls_data := ?d\<lparr>nextWaiterId := Suc (nextWaiterId ?d)\<rparr>\<rparr>"
          have w: "w = \<lparr>waiter_id = ''w'' @ show_nat (nextWaiterId ?d), waiter_resourceKey = ?key,
              waiter_sessionId = rq_callerSessionId rq, waiter_questId = truthy (rq_questId rq),
              waiter_purpose = rq_purpose rq, waiter_metadata = rq_metadata rq, waiter_queuedAt = now, waiter_ttlMs = rq_ttlMs rq\<rparr>"
            and s1: "s1 = setWaiters ?key (getWaiters ?d ?key @ [w]) ?t"
            using add unqueued by (auto simp: addWaiter_def Let_def)
          have q: "getWaiters (ls_data s1) = (getWaiters ?d)(?key := getWaiters ?d ?key @ [w])"
            using ok(1) getWaiters_setWaiters [of ?t ?key "getWaiters ?d ?key @ [w]"]
            by (simp add: s1 file_ok_def waiters_normal_def fun_eq_iff)
          have same: "leases (ls_data s1) = leases ?d" "capacities (ls_data s1) = capacities ?d"
            "nextWaiterId (ls_data s1) = nextWaiterId ?d + 1" by (simp_all add: s1 setWaiters_data)
          have id: "waiter_id w = ''w'' @ show_nat (nextWaiterId ?d)" "waiter_sessionId w = rq_callerSessionId rq" by (simp_all add: w)
          have "waiter_id v \<noteq> waiter_id w" if "v \<in> set (getWaiters ?d ?key)" for v
            using ticketsD(2) [OF t that] id by auto
          then have place: "takeWhile (\<lambda>e. waiter_id e \<noteq> waiter_id w) (getWaiters ?d ?key @ [w]) = getWaiters ?d ?key"
            by (simp add: takeWhile_append)
          have len: "length (takeWhile (\<lambda>e. waiter_id e \<noteq> waiter_id w) (getWaiters (ls_data s1) ?key)) = length (getWaiters ?d ?key)"
            by (simp only: q fun_upd_same place)
          show ?thesis
            unfolding acquire_answer_def res Let_def len acquire_result.case
          proof (intro conjI disjI2)
            show "rq_callerSessionId rq \<notin> waiter_sessionId ` set (getWaiters ?d ?key)" by (rule new)
            show "getWaiters (ls_data s1) = (getWaiters ?d)(?key := getWaiters ?d ?key @ [w])" by (rule q)
          qed (use fresh full True same id w in \<open>simp_all add: q\<close>)
        qed
      qed
    qed
  qed
qed


text \<open>
  C8. The full answer of \<open>acquire\<close>. A rejected request changes nothing. Otherwise expired leases are
  dropped and freed slots handed to the queue first (the data \<open>d\<close>); then a session that holds the
  pool already gets its own lease back and nothing changes; a free slot, which there is only when
  nobody waits, is leased to the caller, the lowest one, under a lease with exactly the requested
  fields; with no slot free a request that may wait gets its place in the queue, counted from 1, which
  is the old place of a session that waits already and the one after the last for a new one, whose
  record has exactly the requested fields; and one that may not wait is told so and changes nothing.
  The capacity and the queue reported are those of the pool.
\<close>

theorem acquire_answers:
  assumes "lease_reachable s0" and "0 < now"
  shows "case normalizeAcquireInput input of
      Inl e \<Rightarrow> acquire input now s0 = (Inl e, ensureLoaded s0)
    | Inr rq \<Rightarrow> (\<exists>d result s'. expires now (ls_data (ensureLoaded s0)) d
        \<and> acquire input now s0 = (Inr result, s') \<and> acquire_answer rq now d result (ls_data s'))"
proof (cases "normalizeAcquireInput input")
  case (Inl e)
  then show ?thesis by (simp add: acquire_def Let_def)
next
  case (Inr rq)
  define s where "s = ensureLoaded s0"
  have s: "file_ok (ls_data s)"
    using lease_reachable_inv [OF assms(1)] by (simp add: s_def ensureLoaded_inv loaded_inv_data)
  obtain ch s1 where e: "expireDueLeases now s = (ch, s1)" by (cases "expireDueLeases now s") auto
  obtain result s2 where a: "acquireLoaded rq now s1 = (result, s2)" by (cases "acquireLoaded rq now s1") auto
  note x = expireDueLeases_expires(1) [OF s assms(2) e]
  moreover have "tickets (ls_data s1)"
    using expireDueLeases_tickets [OF s assms(2) _ e] lease_reachable_tickets [OF assms(1)] by (simp add: s_def)
  ultimately have "acquire_answer rq now (ls_data s1) result (ls_data s2)"
    by (intro acquireLoaded_answer [OF _ _ _ a]) (simp_all add: expires_def)
  then show ?thesis
    using x by (auto simp: Inr acquire_def e a Let_def simp flip: s_def)
qed

lemma demo_request:
  "normalizeAcquireInput (demo_input ''s2'') = Inr \<lparr>rq_resourceKey = ''dev'', rq_callerSessionId = ''s2'',
     rq_questId = None, rq_purpose = ''test'', rq_metadata = [], rq_ttlMs = 60000, rq_waitIfUnavailable = True\<rparr>"
  by code_simp

theorem acquire_answers_witness:
  "\<exists>d result s'. expires 2000 (ls_data (ensureLoaded demo_held)) d
    \<and> acquire (demo_input ''s2'') 2000 demo_held = (Inr result, s')
    \<and> acquire_answer \<lparr>rq_resourceKey = ''dev'', rq_callerSessionId = ''s2'', rq_questId = None, rq_purpose = ''test'',
        rq_metadata = [], rq_ttlMs = 60000, rq_waitIfUnavailable = True\<rparr> 2000 d result (ls_data s')"
  using acquire_answers [OF demo_held_reachable, of 2000 "demo_input ''s2''"] by (simp add: demo_request)

section \<open>Giving a slot back\<close>

lemma slots_card:
  assumes "leases_ok d"
  shows "distinct (map lease_slot (filter (\<lambda>l. lease_resourceKey l = key) (leases d)))"
    and "held_slots d key \<subseteq> {1..getCapacity d key}"
proof -
  have "inj_on (\<lambda>l. (lease_resourceKey l, lease_slot l)) (set (leases d))" and dl: "distinct (leases d)"
    using assms by (auto simp: leases_ok_def distinct_map)
  then show "distinct (map lease_slot (filter (\<lambda>l. lease_resourceKey l = key) (leases d)))"
    by (auto simp: distinct_map inj_on_def)
  show "held_slots d key \<subseteq> {1..getCapacity d key}"
    using assms by (auto simp: held_slots_def leases_ok_def lease_normal_def list_all_iff Suc_le_eq)
qed

text \<open>A pool that was full and lost one slot promotes exactly the head of its queue to that slot.\<close>

lemma promotes_one:
  assumes p: "promotes key now d promoted d'"
    and full: "held_slots d key = {1..getCapacity d key} - {n}" "n \<in> {1..getCapacity d key}"
    and q: "getWaiters d key = w # ws"
  shows "\<exists>l. promoted = [l] \<and> lease_slot l = n \<and> lease_ownerSessionId l = waiter_sessionId w \<and> getWaiters d' key = ws"
proof -
  have f: "leases_ok d'" "leases d' = leases d @ promoted" "getCapacity d' key = getCapacity d key"
    "getWaiters d' key = drop (length promoted) (w # ws)"
    "map lease_ownerSessionId promoted = map waiter_sessionId (take (length promoted) (w # ws))"
    "\<forall>l \<in> set promoted. lease_resourceKey l = key"
    "getWaiters d' key = [] \<or> lowestFreeSlot d' key = None" "promoted = [] \<longrightarrow> d' = d"
    using p q by (auto simp: promotes_def file_ok_def getCapacity_def)
  have keyed: "filter (\<lambda>l. lease_resourceKey l = key) promoted = promoted" using f(6) by (simp add: filter_id_conv)
  have dist: "distinct (map lease_slot promoted)" and disj: "held_slots d key \<inter> lease_slot ` set promoted = {}"
    using slots_card(1) [OF f(1), of key] keyed by (auto simp: f(2) held_slots_def)
  have "lease_slot ` set promoted \<subseteq> {1..getCapacity d key}"
    using slots_card(2) [OF f(1), of key] f(3,6) by (auto simp: f(2) held_slots_def)
  with disj full have sub: "lease_slot ` set promoted \<subseteq> {n}" by blast
  have "promoted \<noteq> []"
  proof
    assume "promoted = []"
    then have "lowestFreeSlot d key = None" using f(4,7,8) by auto
    then show False using full by (auto simp: lowestFreeSlot_None)
  qed
  moreover have "length promoted \<le> 1"
    using distinct_card [OF dist] card_mono [OF _ sub] by simp
  ultimately obtain l where "promoted = [l]" by (cases promoted) auto
  then show ?thesis using sub f(4,5) by auto
qed

lemma held_slots_remove:
  assumes "leases_ok d" "i < length (leases d)" "lease_resourceKey (leases d ! i) = key"
  shows "held_slots (d\<lparr>leases := take i (leases d) @ drop (Suc i) (leases d)\<rparr>) key = held_slots d key - {lease_slot (leases d ! i)}"
proof -
  let ?f = "\<lambda>l. (lease_resourceKey l, lease_slot l)" and ?xs = "take i (leases d) @ drop (Suc i) (leases d)"
  have eq: "leases d = take i (leases d) @ leases d ! i # drop (Suc i) (leases d)"
    using assms(2) by (rule id_take_nth_drop)
  have "distinct (map ?f (leases d))" using assms(1) by (simp add: leases_ok_def)
  then have "?f (leases d ! i) \<notin> ?f ` set ?xs" by (subst (asm) eq) auto
  moreover have "set (leases d) = insert (leases d ! i) (set ?xs)" using set_remove_nth [OF assms(2)] .
  ultimately show ?thesis using assms(3) by (auto simp: held_slots_def image_iff) (metis UnI1 UnI2)+
qed

lemma release_success:
  assumes inv: "lease_inv s0" and now: "0 < now"
    and eq: "release keyInput callerInput force slotInput now s0 = (Inr r, s')"
  obtains key d i promoted where
    "normalizeResourceKey keyInput = Inr key"
    "if force then d = ls_data (ensureLoaded s0) else expires now (ls_data (ensureLoaded s0)) d"
    "file_ok d" "work_conserving d"
    "i < length (leases d)" "rr_released r = leases d ! i" "lease_resourceKey (leases d ! i) = key"
    "\<not> force \<Longrightarrow> lease_ownerSessionId (leases d ! i) = trim callerInput"
    "promotes key now (d\<lparr>leases := take i (leases d) @ drop (Suc i) (leases d)\<rparr>) promoted (ls_data s')"
    "rr_promoted r = (case promoted of [] \<Rightarrow> None | p # _ \<Rightarrow> Some p)"
    "rr_waiters r = getWaiters (ls_data s') key"
proof -
  define s where "s = ensureLoaded s0"
  have s: "loaded_inv s" using inv by (simp add: s_def ensureLoaded_inv)
  define s1 where "s1 = (if force then s else expire_and_persist now s)"
  have s1: "loaded_inv s1" using expire_and_persist_inv [OF s now] s by (simp add: s1_def)
  obtain key where key: "normalizeResourceKey keyInput = Inr key"
    using eq by (cases "normalizeResourceKey keyInput") (simp_all add: release_def Let_def)
  obtain caller where caller: "normalizeSessionId callerInput = Inr caller"
    using eq by (cases "normalizeSessionId callerInput") (simp_all add: release_def Let_def key)
  obtain slot where slot: "validateSlot (ls_data s) key slotInput = Inr slot"
    using eq by (cases "validateSlot (ls_data s) key slotInput") (simp_all add: release_def Let_def key caller flip: s_def)
  let ?target = "if force then Some (case slot of None \<Rightarrow> 1 | Some n \<Rightarrow> n) else slot"
  have multi: "\<not> (force \<and> slot = None \<and> getCapacity (ls_data s) key > 1)"
    using eq by (auto simp: release_def Let_def key caller slot simp flip: s_def)
  have body: "release keyInput callerInput force slotInput now s0 =
    check_res (selectLease (ls_data s1) key caller ?target ''release'' force) s1 (\<lambda>(i, l).
               let ls = leases (ls_data s1);
                   s2 = s1\<lparr>ls_data := (ls_data s1)\<lparr>leases := take i ls @ drop (Suc i) ls\<rparr>\<rparr>;
                   (promoted, s3) = promoteWaiters key now s2;
                   s4 = persistIfNeeded True s3
               in (Inr \<lparr>rr_released = l,
                        rr_promoted = (case promoted of [] \<Rightarrow> None | p # _ \<Rightarrow> Some p),
                        rr_waiters = getWaiters (ls_data s4) key\<rparr>, s4))"
    by (simp only: release_def key caller slot multi if_False Let_def check_res_simps flip: s_def s1_def)
  obtain i l where sel: "selectLease (ls_data s1) key caller ?target ''release'' force = Inr (i, l)"
    using eq by (cases "selectLease (ls_data s1) key caller ?target ''release'' force") (auto simp: body)
  note i = selectLease_Inr [OF sel] and d1 = loaded_inv_data [OF s1]
  let ?s2 = "s1\<lparr>ls_data := (ls_data s1)\<lparr>leases := take i (leases (ls_data s1)) @ drop (Suc i) (leases (ls_data s1))\<rparr>\<rparr>"
  obtain promoted s3 where p: "promoteWaiters key now ?s2 = (promoted, s3)" by (cases "promoteWaiters key now ?s2") auto
  have r: "r = \<lparr>rr_released = l, rr_promoted = (case promoted of [] \<Rightarrow> None | p # _ \<Rightarrow> Some p),
      rr_waiters = getWaiters (ls_data s3) key\<rparr>" and s': "s' = persistIfNeeded True s3"
    using eq by (simp_all add: body sel p Let_def)
  have "file_ok (ls_data ?s2)" using remove_lease_ok(1) [OF conjunct1 [OF d1] i(1)] by simp
  note pr = promoteWaiters_promotes(1) [OF this now p]
  show thesis
  proof (rule that [of key "ls_data s1" i promoted])
    show "if force then ls_data s1 = ls_data (ensureLoaded s0) else expires now (ls_data (ensureLoaded s0)) (ls_data s1)"
      using expire_and_persist_inv(2) [OF s now] by (simp add: s1_def s_def)
    show "lease_ownerSessionId (leases (ls_data s1) ! i) = trim callerInput" if "\<not> force"
      using i that normalizeSessionId_Inr [OF caller] by (auto simp: normalizeSessionId_def Let_def split: if_splits)
  qed (use key d1 i r s' pr in simp_all)
qed


text \<open>
  C9. A successful release removes exactly one lease of the named pool, the caller's own unless it
  is forced, and when sessions wait for the pool the freed slot goes to the head of the queue in
  the same operation: its session gets the released slot and the rest of the queue keeps its order.
\<close>

theorem release_hands_slot_to_head:
  assumes "lease_reachable s0" and "0 < now"
    and "release keyInput callerInput force slotInput now s0 = (Inr r, s')"
  shows "\<exists>key d i. normalizeResourceKey keyInput = Inr key \<and> i < length (leases d)
    \<and> (if force then d = ls_data (ensureLoaded s0) else expires now (ls_data (ensureLoaded s0)) d)
    \<and> rr_released r = leases d ! i \<and> lease_resourceKey (rr_released r) = key
    \<and> (force \<or> lease_ownerSessionId (rr_released r) = trim callerInput)
    \<and> (case getWaiters d key of
        [] \<Rightarrow> rr_promoted r = None \<and> getWaiters (ls_data s') key = []
           \<and> leases (ls_data s') = take i (leases d) @ drop (Suc i) (leases d)
      | w # ws \<Rightarrow> getWaiters (ls_data s') key = ws \<and> (\<exists>l. rr_promoted r = Some l
           \<and> leases (ls_data s') = take i (leases d) @ drop (Suc i) (leases d) @ [l]
           \<and> lease_slot l = lease_slot (rr_released r) \<and> lease_ownerSessionId l = waiter_sessionId w))"
proof -
  obtain key d i promoted where key: "normalizeResourceKey keyInput = Inr key"
    and d: "if force then d = ls_data (ensureLoaded s0) else expires now (ls_data (ensureLoaded s0)) d"
      "file_ok d" "work_conserving d"
    and i: "i < length (leases d)" "rr_released r = leases d ! i" "lease_resourceKey (leases d ! i) = key"
      "\<not> force \<Longrightarrow> lease_ownerSessionId (leases d ! i) = trim callerInput"
    and p: "promotes key now (d\<lparr>leases := take i (leases d) @ drop (Suc i) (leases d)\<rparr>) promoted (ls_data s')"
    and r: "rr_promoted r = (case promoted of [] \<Rightarrow> None | p # _ \<Rightarrow> Some p)"
    using release_success [OF lease_reachable_inv [OF assms(1)] assms(2,3)] by metis
  let ?d = "d\<lparr>leases := take i (leases d) @ drop (Suc i) (leases d)\<rparr>"
  have ls: "leases (ls_data s') = leases ?d @ promoted" using p by (simp add: promotes_def)
  have "case getWaiters d key of
        [] \<Rightarrow> rr_promoted r = None \<and> getWaiters (ls_data s') key = []
           \<and> leases (ls_data s') = take i (leases d) @ drop (Suc i) (leases d)
      | w # ws \<Rightarrow> getWaiters (ls_data s') key = ws \<and> (\<exists>l. rr_promoted r = Some l
           \<and> leases (ls_data s') = take i (leases d) @ drop (Suc i) (leases d) @ [l]
           \<and> lease_slot l = lease_slot (rr_released r) \<and> lease_ownerSessionId l = waiter_sessionId w)"
  proof (cases "getWaiters d key")
    case Nil
    then have "map lease_ownerSessionId promoted = []" "getWaiters (ls_data s') key = []"
      using p by (auto simp: promotes_def)
    then show ?thesis using Nil r ls by simp
  next
    case (Cons w ws)
    have ok: "leases_ok d" using d(2) by (simp add: file_ok_def)
    have "lowestFreeSlot d key = None" using d(3) Cons by (simp add: work_conserving_def)
    then have held: "held_slots d key = {1..getCapacity d key}"
      using slots_card(2) [OF ok, of key] by (auto simp: lowestFreeSlot_None)
    have n: "lease_slot (leases d ! i) \<in> {1..getCapacity d key}"
      unfolding held [symmetric] held_slots_def using i(1,3) by auto
    have "held_slots ?d key = {1..getCapacity ?d key} - {lease_slot (leases d ! i)}"
      using held_slots_remove [OF ok i(1,3)] held by simp
    from promotes_one [OF p this] n Cons obtain l where "promoted = [l]" "lease_slot l = lease_slot (leases d ! i)"
      "lease_ownerSessionId l = waiter_sessionId w" "getWaiters (ls_data s') key = ws" by auto
    then show ?thesis using Cons r ls i(2) by simp
  qed
  then show ?thesis using key d(1) i by (intro exI [of _ key] exI [of _ d] exI [of _ i]) simp
qed

lemma demo_release:
  "map_sum (\<lambda>_. ()) (\<lambda>r. map_option lease_ownerSessionId (rr_promoted r))
     (fst (release ''dev'' ''s1'' False None 3000 demo_queued)) = Inr (Some ''s2'')"
  by code_simp

theorem release_hands_slot_to_head_witness:
  "\<exists>r s'. release ''dev'' ''s1'' False None 3000 demo_queued = (Inr r, s') \<and> rr_promoted r \<noteq> None
    \<and> lease_ownerSessionId (rr_released r) = trim ''s1''"
proof -
  obtain r s' where eq: "release ''dev'' ''s1'' False None 3000 demo_queued = (Inr r, s')"
    and "rr_promoted r \<noteq> None"
    using demo_release by (auto simp: map_sum_Inr_iff)
  then show ?thesis
    using release_hands_slot_to_head [OF demo_queued_reachable _ eq] by auto
qed

text \<open>
  C10. Expiry. After a sweep no lease that was due is left, every lease that was not due is kept,
  the queues only lose sessions from the front and those now hold the pool, and a pool that lost
  a lease has given a slot to the head of its queue.
\<close>

theorem sweep_expires_and_promotes:
  assumes "lease_reachable s0" and "0 < now"
  shows "let d = ls_data (ensureLoaded s0); d' = ls_data (sweepExpiredNow now s0)
    in list_all (\<lambda>l. now < lease_expiresAt l) (leases d')
     \<and> (\<exists>ls. leases d' = filter (\<lambda>l. now < lease_expiresAt l) (leases d) @ ls)
     \<and> (\<forall>key. \<exists>n. getWaiters d' key = drop n (getWaiters d key)
          \<and> waiter_sessionId ` set (take n (getWaiters d key)) \<subseteq> holders d' key
          \<and> (getWaiters d key \<noteq> [] \<and> list_ex (\<lambda>l. lease_expiresAt l \<le> now) (getLeases d key) \<longrightarrow> 0 < n))"
proof -
  define s where "s = ensureLoaded s0"
  have s: "loaded_inv s" using lease_reachable_inv [OF assms(1)] by (simp add: s_def ensureLoaded_inv)
  let ?d = "ls_data s" and ?d' = "ls_data (sweepExpiredNow now s0)"
  have e: "expires now ?d ?d'" using expire_and_persist_inv(2) [OF s assms(2)] by (simp add: sweepExpiredNow_def s_def)
  have ok: "leases_ok ?d" "leases_ok ?d'" "work_conserving ?d'"
    using loaded_inv_data [OF s] e by (simp_all add: file_ok_def expires_def)
  have "\<exists>n. getWaiters ?d' key = drop n (getWaiters ?d key)
          \<and> waiter_sessionId ` set (take n (getWaiters ?d key)) \<subseteq> holders ?d' key
          \<and> (getWaiters ?d key \<noteq> [] \<and> list_ex (\<lambda>l. lease_expiresAt l \<le> now) (getLeases ?d key) \<longrightarrow> 0 < n)" for key
  proof -
    obtain n where n: "getWaiters ?d' key = drop n (getWaiters ?d key)"
      "holders ?d' key = holders (?d\<lparr>leases := filter (\<lambda>l. now < lease_expiresAt l) (leases ?d)\<rparr>) key
              \<union> waiter_sessionId ` set (take n (getWaiters ?d key))"
      using e unfolding expires_def by blast
    have "0 < n" if q: "getWaiters ?d key \<noteq> []" and x: "list_ex (\<lambda>l. lease_expiresAt l \<le> now) (getLeases ?d key)"
    proof (rule ccontr)
      assume "\<not> 0 < n"
      with n have same: "getWaiters ?d' key = getWaiters ?d key"
        and hold: "holders ?d' key = holders (?d\<lparr>leases := filter (\<lambda>l. now < lease_expiresAt l) (leases ?d)\<rparr>) key" by auto
      have card: "card (holders f key) = length (getLeases f key)" if "leases_ok f" for f
      proof -
        have "inj_on (\<lambda>l. (lease_resourceKey l, lease_ownerSessionId l)) (set (leases f))" and "distinct (leases f)"
          using that by (auto simp: leases_ok_def distinct_map)
        moreover have "holders f key = lease_ownerSessionId ` set (getLeases f key)"
          by (auto simp: holders_def set_getLeases)
        ultimately show ?thesis
          by (subst distinct_card [symmetric]) (auto simp: getLeases_def card_image inj_on_def)
      qed
      have full: "length (getLeases f key) = getCapacity f key"
        if "leases_ok f" "work_conserving f" "getWaiters f key \<noteq> []" for f
      proof -
        have "held_slots f key = {1..getCapacity f key}"
          using that slots_card(2) [OF that(1), of key] by (auto simp: work_conserving_def lowestFreeSlot_None)
        moreover have "card (held_slots f key) = length (getLeases f key)"
          using distinct_card [OF slots_card(1) [OF that(1), of key]] by (simp add: held_slots_def getLeases_def)
        ultimately show ?thesis by simp
      qed
      let ?k = "?d\<lparr>leases := filter (\<lambda>l. now < lease_expiresAt l) (leases ?d)\<rparr>"
      have "length (getLeases ?d key) = length (getLeases ?d' key)"
        using full [OF ok(1) _ q] full [OF ok(2,3)] same q e loaded_inv_data [OF s] by (simp add: expires_def getCapacity_def)
      also have "\<dots> = length (getLeases ?k key)"
        using card [OF ok(2)] card [OF leases_ok_filter [OF ok(1)]] hold by simp
      also have "getLeases ?k key = sort_key lease_slot (filter (\<lambda>l. now < lease_expiresAt l) (filter (\<lambda>l. lease_resourceKey l = key) (leases ?d)))"
        by (simp add: getLeases_def conj_commute)
      finally have "length (filter (\<lambda>l. lease_resourceKey l = key) (leases ?d)) =
          length (filter (\<lambda>l. now < lease_expiresAt l) (filter (\<lambda>l. lease_resourceKey l = key) (leases ?d)))"
        by (simp add: getLeases_def)
      then have "\<forall>l \<in> set (filter (\<lambda>l. lease_resourceKey l = key) (leases ?d)). now < lease_expiresAt l"
        by (metis length_filter_less less_irrefl)
      with x show False by (auto simp: list_ex_iff set_getLeases)
    qed
    then show ?thesis using n by (intro exI [of _ n]) auto
  qed
  then show ?thesis using e by (auto simp: expires_def list_all_iff Let_def s_def)
qed

theorem sweep_expires_and_promotes_witness:
  "list_all (\<lambda>l. 70000 < lease_expiresAt l) (leases (ls_data (sweepExpiredNow 70000 demo_queued)))"
  using sweep_expires_and_promotes [OF demo_queued_reachable, of 70000] by (simp add: Let_def)

section \<open>Renewing and withdrawing\<close>

text \<open>
  A successful renewal changes exactly one lease, one the caller owns and that was not due:
  it now expires its time to live after \<open>now\<close>, keeps its owner, slot and acquisition time, and
  no queue changes.
\<close>

theorem renew_extends_own_lease:
  assumes "lease_reachable s0" and "0 < now"
    and "renew keyInput callerInput slotInput ttlInput now s0 = (Inr l', s')"
  shows "\<exists>d i l. expires now (ls_data (ensureLoaded s0)) d \<and> i < length (leases d) \<and> leases d ! i = l
    \<and> normalizeResourceKey keyInput = Inr (lease_resourceKey l) \<and> lease_ownerSessionId l = trim callerInput
    \<and> now < lease_expiresAt l
    \<and> l' = l\<lparr>lease_heartbeatAt := now, lease_ttlMs := lease_ttlMs l', lease_expiresAt := now + lease_ttlMs l'\<rparr>
    \<and> ls_data s' = d\<lparr>leases := (leases d)[i := l']\<rparr>"
proof -
  define s where "s = ensureLoaded s0"
  have s: "loaded_inv s" using lease_reachable_inv [OF assms(1)] by (simp add: s_def ensureLoaded_inv)
  define s1 where "s1 = expire_and_persist now s"
  have e: "expires now (ls_data s) (ls_data s1)" using expire_and_persist_inv(2) [OF s assms(2)] by (simp add: s1_def)
  note eq = assms(3)
  obtain key where key: "normalizeResourceKey keyInput = Inr key"
    using eq by (cases "normalizeResourceKey keyInput") (simp_all add: renew_def Let_def)
  obtain caller where caller: "normalizeSessionId callerInput = Inr caller"
    using eq by (cases "normalizeSessionId callerInput") (simp_all add: renew_def Let_def key)
  obtain slot where slot: "validateSlot (ls_data s) key slotInput = Inr slot"
    using eq by (cases "validateSlot (ls_data s) key slotInput") (simp_all add: renew_def Let_def key caller flip: s_def)
  obtain ttl where ttl: "normalizeTtlMs ttlInput = Inr ttl"
    using eq by (cases "normalizeTtlMs ttlInput") (simp_all add: renew_def Let_def key caller slot flip: s_def)
  obtain i l where sel: "selectLease (ls_data s1) key caller slot ''renew'' False = Inr (i, l)"
    using eq by (cases "selectLease (ls_data s1) key caller slot ''renew'' False")
      (auto simp: renew_def Let_def key caller slot ttl simp flip: s_def s1_def)
  note i = selectLease_Inr [OF sel]
  have l': "l' = l\<lparr>lease_heartbeatAt := now, lease_ttlMs := lease_ttlMs l', lease_expiresAt := now + lease_ttlMs l'\<rparr>"
    and s': "ls_data s' = (ls_data s1)\<lparr>leases := (leases (ls_data s1))[i := l']\<rparr>"
    using eq by (auto simp: renew_def Let_def key caller slot ttl sel simp flip: s_def s1_def)
  have "\<forall>x \<in> set (leases (ls_data s1)). now < lease_expiresAt x"
    using e unfolding expires_def by fastforce
  then have "now < lease_expiresAt l" using i(1,2) by simp
  moreover have "caller = trim callerInput" using normalizeSessionId_Inr [OF caller] by simp
  ultimately show ?thesis
    using e i l' s' key by (intro exI [of _ "ls_data s1"] exI [of _ i] exI [of _ l]) (simp add: s_def)
qed

lemma demo_renew:
  "map_sum (\<lambda>_. ()) lease_expiresAt (fst (renew ''dev'' ''s1'' None (Some (Fin 90000)) 3000 demo_queued)) = Inr 93000"
  by code_simp

theorem renew_extends_own_lease_witness:
  "\<exists>l' s'. renew ''dev'' ''s1'' None (Some (Fin 90000)) 3000 demo_queued = (Inr l', s')
    \<and> lease_expiresAt l' = 93000 \<and> lease_ownerSessionId l' = trim ''s1''"
proof -
  obtain l' s' where eq: "renew ''dev'' ''s1'' None (Some (Fin 90000)) 3000 demo_queued = (Inr l', s')"
    and x: "lease_expiresAt l' = 93000"
    using demo_renew by (cases "renew ''dev'' ''s1'' None (Some (Fin 90000)) 3000 demo_queued"; cases "fst (renew ''dev'' ''s1'' None (Some (Fin 90000)) 3000 demo_queued)") auto
  obtain l :: lease where l: "l' = l\<lparr>lease_heartbeatAt := 3000, lease_ttlMs := lease_ttlMs l', lease_expiresAt := 3000 + lease_ttlMs l'\<rparr>"
    and own: "lease_ownerSessionId l = trim ''s1''"
    using renew_extends_own_lease [OF demo_queued_reachable _ eq] by auto
  have "lease_ownerSessionId l' = trim ''s1''" by (subst l) (simp add: own)
  then show ?thesis using eq x by blast
qed

text \<open>
  Withdrawing takes exactly the caller's place out of the named queue, keeping the order of
  the others, the other queues and every lease; it answers whether the caller was waiting.
\<close>

theorem withdraw_leaves_queue:
  assumes "lease_reachable s0" and "normalizeResourceKey keyInput = Inr key" and "normalizeSessionId callerInput = Inr caller"
  shows "let d = ls_data (ensureLoaded s0); (answer, s') = withdraw keyInput callerInput s0; d' = ls_data s'
    in answer = Inr (caller \<in> waiter_sessionId ` set (getWaiters d key))
     \<and> getWaiters d' = (getWaiters d)(key := filter (\<lambda>w. waiter_sessionId w \<noteq> caller) (getWaiters d key))
     \<and> leases d' = leases d \<and> capacities d' = capacities d"
proof -
  define s where "s = ensureLoaded s0"
  let ?ws = "getWaiters (ls_data s) key"
  have "file_ok (ls_data s)"
    using lease_reachable_inv [OF assms(1)] by (simp add: s_def ensureLoaded_inv loaded_inv_data)
  then have w: "getWaiters (ls_data (setWaiters key ws s)) = (getWaiters (ls_data s))(key := ws)" for ws
    by (simp add: getWaiters_setWaiters file_ok_def waiters_normal_def)
  show ?thesis
  proof (cases "caller \<in> waiter_sessionId ` set ?ws")
    case True
    then have "length (filter (\<lambda>w. waiter_sessionId w \<noteq> caller) ?ws) < length ?ws"
      by (auto intro: length_filter_less)
    then show ?thesis
      using True by (simp add: withdraw_def assms(2,3) Let_def w flip: s_def) (simp add: setWaiters_data)
  next
    case False
    then have "filter (\<lambda>w. waiter_sessionId w \<noteq> caller) ?ws = ?ws" by (auto intro: filter_True)
    then show ?thesis
      using False by (simp add: withdraw_def assms(2,3) Let_def flip: s_def)
  qed
qed

lemma demo_names: "normalizeResourceKey ''dev'' = Inr ''dev''" "normalizeSessionId ''s2'' = Inr ''s2''"
  by code_simp+

theorem withdraw_leaves_queue_witness:
  "fst (withdraw ''dev'' ''s2'' demo_queued) = Inr True"
proof -
  have "''s2'' \<in> waiter_sessionId ` set (getWaiters (ls_data (ensureLoaded demo_queued)) ''dev'')"
    using demo_queued_data(2,3) by (auto simp: ensureLoaded_data simp flip: set_map)
  then show ?thesis
    using withdraw_leaves_queue [OF demo_queued_reachable demo_names]
    by (simp add: Let_def split_beta)
qed

section \<open>The file\<close>

text \<open>
  C11. The lease file round-trips: whatever the manager saves is read back unchanged, and reading
  any file at all gives data that saving and reading again does not change.
\<close>

theorem lease_file_roundtrip:
  "normalizeResourceLeaseFile (file_json (normalizeResourceLeaseFile j)) = normalizeResourceLeaseFile j"
  by (rule normalizeResourceLeaseFile_json) (rule normalizeResourceLeaseFile_normal)

section \<open>The promotion message\<close>

text \<open>
  Reading the promotion message back. The purpose is the only field that can hold a line end: the
  validation of a request trims it and bounds its length, no more.
\<close>

definition later_line_starts :: "string \<Rightarrow> string \<Rightarrow> bool" where
  "later_line_starts label v \<longleftrightarrow> (\<exists>a c b. v = a @ c # b \<and> is_eol c \<and> starts_with (label @ '':'') b)"

lemma later_line_Cons: "later_line_starts label (c # cs) \<longleftrightarrow> is_eol c \<and> starts_with (label @ '':'') cs \<or> later_line_starts label cs"
  unfolding later_line_starts_def
proof (intro iffI; elim exE conjE disjE)
  fix a x b assume "c # cs = a @ x # b" "is_eol x" "starts_with (label @ '':'') b"
  then show "is_eol c \<and> starts_with (label @ '':'') cs
      \<or> (\<exists>a c b. cs = a @ c # b \<and> is_eol c \<and> starts_with (label @ '':'') b)"
    by (cases a) auto
next
  assume "is_eol c" "starts_with (label @ '':'') cs"
  then show "\<exists>a x b. c # cs = a @ x # b \<and> is_eol x \<and> starts_with (label @ '':'') b"
    by (intro exI [of _ "[]"] exI [of _ c] exI [of _ cs]) simp
next
  fix a x b assume "cs = a @ x # b" "is_eol x" "starts_with (label @ '':'') b"
  then show "\<exists>a x b. c # cs = a @ x # b \<and> is_eol x \<and> starts_with (label @ '':'') b"
    by (intro exI [of _ "c # a"] exI [of _ x] exI [of _ b]) simp
qed

lemma starts_with_before:
  assumes "starts_with q (v @ x # rest)" "x \<notin> set q"
  shows "starts_with q v"
proof (cases "length q \<le> length v")
  case False
  then have "x \<in> set (take (length q) (v @ x # rest))" by (simp add: take_Cons')
  moreover have "take (length q) (v @ x # rest) = q" using assms(1) by (simp only: starts_with_def)
  ultimately show ?thesis using assms(2) by (simp only:)
qed (use assms in \<open>simp add: starts_with_def\<close>)

lemma find_field_not_here: "\<not> starts_with (label @ '':'') s \<Longrightarrow> find_field label bol s = find_field label False s"
  by (cases s) auto

lemma find_field_past:
  assumes "\<not> later_line_starts label v" "CHR 0x0A \<notin> set label"
  shows "find_field label False (v @ CHR 0x0A # rest) = find_field label True rest"
  using assms(1)
proof (induction v)
  case Nil
  then show ?case by (simp add: is_eol_def)
next
  case (Cons c cs)
  then have later: "find_field label False (cs @ CHR 0x0A # rest) = find_field label True rest" by (simp add: later_line_Cons)
  show ?case
  proof (cases "is_eol c")
    case True
    then have "\<not> starts_with (label @ '':'') cs" using Cons.prems by (simp add: later_line_Cons)
    then have "\<not> starts_with (label @ '':'') (cs @ CHR 0x0A # rest)"
      using starts_with_before [of "label @ '':''" cs "CHR 0x0A" rest] assms(2) by auto
    then have "find_field label True (cs @ CHR 0x0A # rest) = find_field label False (cs @ CHR 0x0A # rest)"
      by (rule find_field_not_here)
    then show ?thesis using True later by simp
  qed (use later in simp)
qed

lemma takeWhile_line: "takeWhile (\<lambda>d. \<not> is_eol d) (v @ CHR 0x0A # rest) = takeWhile (\<lambda>d. \<not> is_eol d) v"
  by (induction v) (simp_all add: is_eol_def)

lemma find_field_first_line:
  assumes "v \<noteq> []" "\<not> js_space (hd v)" "label \<noteq> []"
  shows "find_field label True (label @ '': '' @ v @ CHR 0x0A # rest) = Some (trim (takeWhile (\<lambda>d. \<not> is_eol d) v))"
proof -
  obtain c cs where c: "label = c # cs" using assms(3) by (cases label) auto
  have "dropWhile js_space (CHR '' '' # v @ CHR 0x0A # rest) = v @ CHR 0x0A # rest"
    using assms(1,2) by (cases v) (simp_all add: js_space_def)
  then show ?thesis using assms(1) by (simp add: c starts_with_def takeWhile_line)
qed

lemma parsed_field: "map_of (parseResourceLeaseMessageFields content) f = truthy (find_field (RESOURCE_LEASE_MESSAGE_LABELS f) True content)"
proof -
  have none: "map_of (List.map_filter (\<lambda>f. map_option (Pair f) (h f)) fs) f = None" if "f \<notin> set fs" for fs and h :: "message_field \<Rightarrow> string option"
    using that by (induction fs) (auto simp: map_filter_simps split: option.splits)
  have "map_of (List.map_filter (\<lambda>f. map_option (Pair f) (h f)) fs) f = h f" if "f \<in> set fs" "distinct fs"
    for fs and h :: "message_field \<Rightarrow> string option"
    using that none by (induction fs) (auto simp: map_filter_simps split: option.splits)
  moreover have "f \<in> set message_fields" "distinct message_fields" by (cases f; simp add: message_fields_def)+
  ultimately show ?thesis by (simp add: parseResourceLeaseMessageFields_def)
qed

text \<open>A purpose line is passed over by a label that no line of the purpose starts with.\<close>

lemma find_field_past_purpose:
  assumes "\<not> later_line_starts (RESOURCE_LEASE_MESSAGE_LABELS f) v" "f \<noteq> FPurpose"
  shows "find_field (RESOURCE_LEASE_MESSAGE_LABELS f) True (formatResourceLeaseMessageLine FPurpose v @ CHR 0x0A # rest)
    = find_field (RESOURCE_LEASE_MESSAGE_LABELS f) True rest"
proof -
  let ?l = "RESOURCE_LEASE_MESSAGE_LABELS f"
  have "\<not> later_line_starts ?l (''Purpose: '' @ v)" using assms(1) by (simp add: later_line_Cons is_eol_def)
  moreover have "CHR 0x0A \<notin> set ?l" by (cases f) simp_all
  ultimately have "find_field ?l False ((''Purpose: '' @ v) @ CHR 0x0A # rest) = find_field ?l True rest" by (rule find_field_past)
  moreover have "\<not> starts_with (?l @ '':'') ((''Purpose: '' @ v) @ CHR 0x0A # rest)"
    using assms(2) by (cases f) (simp_all add: starts_with_def)
  ultimately show ?thesis
    using find_field_not_here [of ?l _ True] by (simp add: formatResourceLeaseMessageLine_def)
qed

lemma resource_key_one_line: "resource_key_ok key \<Longrightarrow> list_all (\<lambda>c. \<not> is_eol c) key"
proof -
  assume ok: "resource_key_ok key"
  then obtain c cs where key: "key = c # cs" "is_alnum c" by (auto simp: resource_key_ok_def split: list.splits)
  let ?P = "\<lambda>d. is_alnum d \<or> d \<in> set ''._:/-''"
  have chars: "\<not> is_eol d" if "is_alnum d \<or> d \<in> set ''._:/-'' \<or> d = CHR 0x40" for d
    using that by (auto simp: is_alnum_def is_digit_def is_lower_letter_def is_eol_def)
  have "list_all (\<lambda>c. \<not> is_eol c) (takeWhile ?P cs)"
    unfolding list_all_iff using chars set_takeWhileD [of _ ?P cs] by blast
  moreover have "list_all (\<lambda>c. \<not> is_eol c) (dropWhile ?P cs)"
  proof (cases "dropWhile ?P cs")
    case (Cons a host)
    then have host: "a = CHR 0x40" "case host of [] \<Rightarrow> False | h # hs \<Rightarrow> is_alnum h \<and> list_all (\<lambda>d. is_alnum d \<or> d \<in> set ''._-'') hs"
      using ok unfolding key resource_key_ok_def by simp_all
    then obtain h hs where hs: "host = h # hs" "is_alnum h" "list_all (\<lambda>d. is_alnum d \<or> d \<in> set ''._-'') hs"
      by (cases host) simp_all
    have "list_all (\<lambda>c. \<not> is_eol c) hs" using hs(3) by (rule list.pred_mono_strong) (rule chars, auto)
    then show ?thesis unfolding Cons hs(1) using host(1) hs(2) chars [of h] by (simp add: is_eol_def)
  next
    case Nil
    then show ?thesis by (simp only: list.pred_inject)
  qed
  ultimately have "list_all (\<lambda>c. \<not> is_eol c) (takeWhile ?P cs @ dropWhile ?P cs)" unfolding list_all_append by simp
  then have "list_all (\<lambda>c. \<not> is_eol c) cs" by (simp only: takeWhile_dropWhile_id)
  then show "list_all (\<lambda>c. \<not> is_eol c) key" using chars key by simp
qed

lemma accepted_purpose:
  assumes "normalizeAcquireInput input = Inr rq"
  shows "rq_purpose rq \<noteq> []" "\<not> js_space (hd (rq_purpose rq))" "list_all (\<lambda>c. \<not> is_eol c) (rq_resourceKey rq)"
    and "rq_purpose rq = trim (ai_purpose input)"
proof -
  obtain key where key: "normalizeResourceKey (ai_resourceKey input) = Inr key" "rq_resourceKey rq = key"
    and p: "rq_purpose rq = trim (ai_purpose input)" "trim (ai_purpose input) \<noteq> []"
    using assms by (auto simp: normalizeAcquireInput_def Let_def bind_res_Inr split: if_splits)
  show "rq_purpose rq \<noteq> []" "rq_purpose rq = trim (ai_purpose input)" using p by simp_all
  have "dropWhile js_space (trim (ai_purpose input)) = trim (ai_purpose input)"
    using trim_left_trim_right [of "trim_left (ai_purpose input)"] by (simp add: trim_def trim_left_def)
  then show "\<not> js_space (hd (rq_purpose rq))" using p by (metis hd_dropWhile dropWhile_eq_Nil_conv list.set_sel(1) dropWhile_eq_self_iff)
  show "list_all (\<lambda>c. \<not> is_eol c) (rq_resourceKey rq)"
    using normalizeResourceKey_Inr [OF key(1)] resource_key_one_line [of key] unfolding key(2) by blast
qed

text \<open>
  C12. The feed reads back what the server wrote. From the message a session gets when an accepted
  request is promoted, the parser recovers the slot, the first line of the purpose, and the two times
  and the time waited unless a later line of the purpose starts with their label; for a purpose of
  one line it recovers exactly the five fields. (A request with a purpose of several lines is
  accepted, so the rest of such a purpose is lost and can stand in for another field: a finding.)
\<close>

theorem promoted_message_roundtrip:
  assumes "normalizeAcquireInput input = Inr rq" and "l = createLease rq slot now"
    and "parsed = parseResourceLeaseMessageFields (promoted_content d l queuedAt)"
    and "later = [(FAcquired, iso_string now), (FWaited, formatLeaseWaitDuration (now - queuedAt)), (FExpires, iso_string (now + rq_ttlMs rq))]"
  shows "map_of parsed FSlot = Some (show_nat slot @ '' of '' @ show_nat (getCapacity d (rq_resourceKey rq)))
    \<and> map_of parsed FPurpose = Some (trim (takeWhile (\<lambda>c. \<not> is_eol c) (rq_purpose rq)))
    \<and> (\<forall>f v. (f, v) \<in> set later \<and> \<not> later_line_starts (RESOURCE_LEASE_MESSAGE_LABELS f) (rq_purpose rq) \<longrightarrow> map_of parsed f = Some v)
    \<and> (list_all (\<lambda>c. \<not> is_eol c) (rq_purpose rq) \<longrightarrow>
        parsed = (FSlot, show_nat slot @ '' of '' @ show_nat (getCapacity d (rq_resourceKey rq))) # (FPurpose, rq_purpose rq) # later)"
proof -
  note ok = accepted_purpose [OF assms(1)]
  let ?L = RESOURCE_LEASE_MESSAGE_LABELS and ?p = "rq_purpose rq" and ?head = "''[Resource lease acquired] You now hold `'' @ rq_resourceKey rq @ ''`.''"
  define c where "c = promoted_content d l queuedAt"
  define sl where "sl = show_nat slot @ '' of '' @ show_nat (getCapacity d (rq_resourceKey rq))"
  have one: "one_line sl" by (simp only: sl_def one_line_slot)
  have head: "find_field (?L f) True (?head @ CHR 0x0A # CHR 0x0A # rest) = find_field (?L f) True rest" for f rest
  proof -
    have "list_all (\<lambda>c. \<not> is_eol c) ?head" using ok(3) by (simp add: is_eol_def)
    moreover have "hd ?head \<noteq> hd (?L f)" "?L f \<noteq> []" "hd (?L f) \<noteq> CHR 0x0A" by (cases f; simp)+
    ultimately show ?thesis using find_field_other [of ?head "?L f"] find_field_blank [of "?L f"] by simp
  qed
  define tail where "tail = CHR 0x0A # ''Heartbeat with `takode lease renew '' @ rq_resourceKey rq @ ''`; release with `takode lease release '' @ rq_resourceKey rq @ ''` when done.''"
  have content: "c = ?head @ CHR 0x0A # CHR 0x0A #
      formatResourceLeaseMessageLine FSlot sl @ CHR 0x0A # formatResourceLeaseMessageLine FPurpose ?p @ CHR 0x0A #
      formatResourceLeaseMessageLine FAcquired (iso_string now) @ CHR 0x0A #
      formatResourceLeaseMessageLine FWaited (formatLeaseWaitDuration (now - queuedAt)) @ CHR 0x0A #
      formatResourceLeaseMessageLine FExpires (iso_string (now + rq_ttlMs rq)) @ CHR 0x0A # tail"
    by (simp add: c_def assms(2) createLease_def promoted_content_def Let_def tail_def sl_def nl_def del: find_field.simps)
  note lines = find_field_line [OF one] find_field_line [OF one_line_iso] find_field_line [OF one_line_duration]
  have slot: "find_field (?L FSlot) True c = Some sl" unfolding content head lines(1) by simp
  have purpose: "find_field (?L FPurpose) True c = Some (trim (takeWhile (\<lambda>c. \<not> is_eol c) ?p))"
    unfolding content head lines(1) using find_field_first_line [OF ok(1,2), of "?L FPurpose"]
    by (simp add: formatResourceLeaseMessageLine_def del: find_field.simps)
  have rest: "find_field (?L f) True c = Some v" if "(f, v) \<in> set later" "\<not> later_line_starts (?L f) ?p" for f v
  proof -
    have f: "f \<noteq> FSlot" "f \<noteq> FPurpose" using that(1) by (auto simp: assms(4))
    have "find_field (?L f) True c = find_field (?L f) True (formatResourceLeaseMessageLine FAcquired (iso_string now) @ CHR 0x0A #
      formatResourceLeaseMessageLine FWaited (formatLeaseWaitDuration (now - queuedAt)) @ CHR 0x0A #
      formatResourceLeaseMessageLine FExpires (iso_string (now + rq_ttlMs rq)) @ CHR 0x0A # tail)"
      unfolding content head lines(1) find_field_past_purpose [OF that(2) f(2)] using f by simp
    also have "\<dots> = Some v" unfolding lines(2,3) using that(1) by (auto simp: assms(4))
    finally show ?thesis .
  qed
  have nonempty: "truthy (Some v) = Some v" if "one_line v" for v
    using that by (cases v) (simp_all add: truthy_def one_line_def)
  have first: "truthy (Some (trim (takeWhile (\<lambda>c. \<not> is_eol c) ?p))) = Some (trim (takeWhile (\<lambda>c. \<not> is_eol c) ?p))"
  proof -
    obtain x xs where x: "?p = x # xs" using ok(1) by (cases ?p) auto
    moreover have "\<not> is_eol x" using ok(2) x by (auto simp: is_eol_def js_space_def)
    ultimately have "trim (takeWhile (\<lambda>c. \<not> is_eol c) ?p) \<noteq> []" using ok(2) trim_Cons_nonspace by simp
    then show ?thesis by (auto simp: truthy_def split: list.splits)
  qed
  have rest_value: "truthy (find_field (?L f) True c) = Some v"
    if "(f, v) \<in> set later \<and> \<not> later_line_starts (?L f) ?p" for f v
  proof -
    have "one_line v" using that by (auto simp: assms(4))
    then show ?thesis using rest [of f v] that nonempty [of v] by simp
  qed
  have all: "parsed = (FSlot, sl) # (FPurpose, ?p) # later" if single: "list_all (\<lambda>c. \<not> is_eol c) ?p"
  proof -
    have whole: "trim (takeWhile (\<lambda>c. \<not> is_eol c) ?p) = ?p"
      using single ok(4) by (simp add: takeWhile_eq_all_conv [THEN iffD2] list_all_iff)
    have none: "\<not> later_line_starts (?L f) ?p" for f
      using single by (auto simp: later_line_starts_def)
    have vals: "truthy (find_field (?L FSlot) True c) = Some sl" "truthy (find_field (?L FPurpose) True c) = Some ?p"
      "truthy (find_field (?L FAcquired) True c) = Some (iso_string now)"
      "truthy (find_field (?L FWaited) True c) = Some (formatLeaseWaitDuration (now - queuedAt))"
      "truthy (find_field (?L FExpires) True c) = Some (iso_string (now + rq_ttlMs rq))"
      using slot purpose first whole nonempty [OF one] rest [OF _ none, of FAcquired "iso_string now"]
        rest [OF _ none, of FWaited "formatLeaseWaitDuration (now - queuedAt)"] rest [OF _ none, of FExpires "iso_string (now + rq_ttlMs rq)"]
        nonempty [OF one_line_iso] nonempty [OF one_line_duration]
      by (simp_all add: assms(4))
    show ?thesis
      by (simp only: assms(3,4) c_def [symmetric] parseResourceLeaseMessageFields_def message_fields_def map_filter_simps vals
          option.map option.case)
  qed
  show ?thesis
    unfolding assms(3) c_def [symmetric] parsed_field sl_def [symmetric]
    using slot purpose first nonempty [OF one] rest_value all [unfolded assms(3) c_def [symmetric]]
    by (intro conjI allI impI) simp_all
qed

lemma demo_purpose: "normalizeAcquireInput ((demo_input ''s1'')\<lparr>ai_purpose := '' run tests ''\<rparr>)
    = Inr \<lparr>rq_resourceKey = ''dev'', rq_callerSessionId = ''s1'', rq_questId = None,
         rq_purpose = ''run tests'', rq_metadata = [], rq_ttlMs = 60000, rq_waitIfUnavailable = True\<rparr>"
  by code_simp

theorem promoted_message_roundtrip_witness:
  "parseResourceLeaseMessageFields (promoted_content emptyResourceLeaseFile
      (createLease \<lparr>rq_resourceKey = ''dev'', rq_callerSessionId = ''s1'', rq_questId = None,
         rq_purpose = ''run tests'', rq_metadata = [], rq_ttlMs = 60000, rq_waitIfUnavailable = True\<rparr> 1 9000) 5000) =
    [(FSlot, ''1 of 1''), (FPurpose, ''run tests''), (FAcquired, ''1970-01-01T00:00:09.000Z''),
     (FWaited, ''4s''), (FExpires, ''1970-01-01T00:01:09.000Z'')]"
proof -
  note r = promoted_message_roundtrip [OF demo_purpose refl refl refl, where slot = 1 and now = 9000 and d = emptyResourceLeaseFile and queuedAt = 5000]
  have "show_nat 1 @ '' of '' @ show_nat (getCapacity emptyResourceLeaseFile ''dev'') = ''1 of 1''"
    "iso_string 9000 = ''1970-01-01T00:00:09.000Z''" "formatLeaseWaitDuration (9000 - 5000) = ''4s''"
    "iso_string (9000 + 60000) = ''1970-01-01T00:01:09.000Z''" "list_all (\<lambda>c. \<not> is_eol c) ''run tests''"
    by code_simp+
  with r show ?thesis by (simp only: lease_request.select_convs simp_thms)
qed

text \<open>
  A purpose of two lines is accepted, and its second line is shown as the time the lease was
  acquired.
\<close>

lemma two_line_purpose_misread:
  "map_sum (\<lambda>_. ()) rq_purpose (normalizeAcquireInput ((demo_input ''s1'')\<lparr>ai_purpose := ''run'' @ [CHR 0x0A] @ ''Acquired: long ago''\<rparr>))
      = Inr (''run'' @ [CHR 0x0A] @ ''Acquired: long ago'')"
  "take 3 (parseResourceLeaseMessageFields (promoted_content emptyResourceLeaseFile
      (createLease \<lparr>rq_resourceKey = ''dev'', rq_callerSessionId = ''s1'', rq_questId = None,
         rq_purpose = ''run'' @ [CHR 0x0A] @ ''Acquired: long ago'', rq_metadata = [], rq_ttlMs = 60000, rq_waitIfUnavailable = True\<rparr> 1 9000) 5000)) =
    [(FSlot, ''1 of 1''), (FPurpose, ''run''), (FAcquired, ''long ago'')]"
  by code_simp+

end
