(* ===== verification/Landing_Types.thy ===== *)
theory Landing_Types
  imports Js_Json
begin

text \<open>
  The shared vocabulary of the landing queue (\<open>web/shared/landing-queue.ts\<close>): targets and their
  keys, entries, runs, runner launches and reports, and the validation of a saved gate.
  Optional fields are options; a list of optional test names is the empty list when absent.
\<close>

section \<open>Constants\<close>

definition LANDING_BATCH_LIMIT :: nat where "LANDING_BATCH_LIMIT = 8"

definition LANDING_RUN_STALE_MS :: number where "LANDING_RUN_STALE_MS = 5 * 60000"

definition LANDING_RUN_RECLAIM_MS :: number where "LANDING_RUN_RECLAIM_MS = 3 * 60000"

definition LANDING_RUNNER_SESSION_PREFIX :: string where
  "LANDING_RUNNER_SESSION_PREFIX = ''landing-runner:''"

definition LANDING_QUEUE_OWNER_PREFIX :: string where
  "LANDING_QUEUE_OWNER_PREFIX = ''landing-queue:''"

definition LANDING_QUEUE_MESSAGE_TAG :: string where
  "LANDING_QUEUE_MESSAGE_TAG = ''[Landing queue]''"

section \<open>Targets\<close>

record landing_target =
  lt_repo :: string
  lt_branch :: string

definition landingQueueKey :: "landing_target \<Rightarrow> string" where
  "landingQueueKey target = lower (lt_repo target @ '':'' @ lt_branch target)"

text \<open>
  \<open>key.slice(0, key.indexOf(":"))\<close> and \<open>key.slice(at + 1)\<close>; without a colon \<open>indexOf\<close> is -1,
  so the repository loses its last character and the branch is the whole key.
\<close>

definition landingTargetFromKey :: "string \<Rightarrow> landing_target" where
  "landingTargetFromKey key = (case cut_at (CHR '':'') key of
       Some (repo, branch) \<Rightarrow> \<lparr>lt_repo = repo, lt_branch = branch\<rparr>
     | None \<Rightarrow> \<lparr>lt_repo = butlast key, lt_branch = key\<rparr>)"

definition landingLeaseKey :: "landing_target \<Rightarrow> string" where
  "landingLeaseKey target = ''port:'' @ landingQueueKey target"

definition landingQueueOwnerId :: "landing_target \<Rightarrow> string" where
  "landingQueueOwnerId target = LANDING_QUEUE_OWNER_PREFIX @ landingQueueKey target"

section \<open>Entries, runs and launches\<close>

record commit_mapping =
  cm_source :: string
  cm_target :: string
  cm_subject :: string
  cm_integrated :: bool

datatype pre_submit_test =
    TestPassed string string string number                  \<comment> \<open>patch id, tree, summary, time\<close>
  | TestFocused string string "string list" string number   \<comment> \<open>patch id, tree, tests, summary, time\<close>
  | TestSkipped string                                      \<comment> \<open>reason\<close>

datatype entry_state = Pending | Running | Landed | Bounced | Withdrawn

record landing_entry =
  le_id :: string
  le_key :: string
  le_target :: landing_target
  le_sessionId :: string
  le_sessionNum :: "nat option"
  le_hostId :: "string option"
  le_baseCheckout :: "string option"
  le_questId :: "string option"
  le_preparationId :: "string option"
  le_bundleId :: string
  le_base :: string
  le_tip :: string
  le_commits :: "(string \<times> string) list"
  le_preSubmitTest :: pre_submit_test
  le_submittedAt :: number
  le_state :: entry_state
  le_runId :: "string option"
  le_resolvedAt :: "number option"
  le_mapping :: "commit_mapping list option"
  le_pushedTip :: "string option"
  le_reason :: "string option"
  le_details :: "string option"

record push_plan =
  pp_base :: string
  pp_tip :: string
  pp_mapping :: "commit_mapping list jsobj"
  pp_reconciled :: bool

datatype run_state = RunRunning | RunFinished | RunAbandoned

record landing_run =
  lr_id :: string
  lr_key :: string
  lr_target :: landing_target
  lr_ownerSessionId :: string
  lr_launchId :: "string option"
  lr_hostId :: "string option"
  lr_startedAt :: number
  lr_heartbeatAt :: number
  lr_phase :: string
  lr_entryIds :: "string list"
  lr_state :: run_state
  lr_plan :: "push_plan option"
  lr_finishedAt :: "number option"
  lr_summary :: "string option"
  lr_logPath :: "string option"

datatype entry_outcome =
    OLanded string "commit_mapping list"
  | OBounced string string "string option"   \<comment> \<open>entry, reason, details\<close>
  | ORequeue string string                   \<comment> \<open>entry, reason\<close>

fun outcome_entry :: "entry_outcome \<Rightarrow> string" where
  "outcome_entry (OLanded e _) = e"
| "outcome_entry (OBounced e _ _) = e"
| "outcome_entry (ORequeue e _) = e"

fun is_requeue :: "entry_outcome \<Rightarrow> bool" where
  "is_requeue (ORequeue _ _) = True"
| "is_requeue _ = False"

record run_report =
  rp_outcomes :: "entry_outcome list"
  rp_pushedTip :: "string option"
  rp_summary :: string
  rp_flaky :: "string list"
  rp_preexisting :: "string list"
  rp_logPath :: "string option"

record landing_launch =
  ll_id :: string
  ll_key :: string
  ll_target :: landing_target
  ll_hostId :: "string option"
  ll_baseCheckout :: string
  ll_launchedAt :: number
  ll_tokenHash :: string
  ll_startedBySessionId :: "string option"
  ll_runId :: "string option"
  ll_endedAt :: "number option"

section \<open>Gates\<close>

record gate_step =
  gs_name :: string
  gs_cwd :: "string option"
  gs_run :: "string list"
  gs_kind :: "string option"

record gate_install =
  gi_cwd :: "string option"
  gi_run :: "string list"

record gate_config =
  gc_install :: "gate_install option"
  gc_steps :: "gate_step list"

text \<open>\<open>isCommand\<close>: the parts of a non-empty array of non-empty strings.\<close>

definition command_part :: "json \<Rightarrow> string option" where
  "command_part v = truthy (as_string (Some v))"

fun all_some :: "'a option list \<Rightarrow> 'a list option" where
  "all_some [] = Some []"
| "all_some (None # _) = None"
| "all_some (Some x # xs) = map_option (Cons x) (all_some xs)"

definition isCommand :: "json option \<Rightarrow> string list option" where
  "isCommand run = (case as_array run of
       Some (v # vs) \<Rightarrow> all_some (map command_part (v # vs))
     | _ \<Rightarrow> None)"

definition checkCwd :: "json option \<Rightarrow> string \<Rightarrow> string + string option" where
  "checkCwd cwd place = (case cwd of None \<Rightarrow> Inr None
     | Some v \<Rightarrow> (case as_string cwd of
         Some s \<Rightarrow> if starts_with ''/'' s \<or> ''..'' \<in> set (split_on (CHR ''/'') s)
           then Inl (place @ '': cwd must be a directory inside the checkout, relative to its root.'')
           else Inr (Some s)
       | None \<Rightarrow> Inl (place @ '': cwd must be a directory inside the checkout, relative to its root.'')))"

definition gate_kind :: "json option \<Rightarrow> string \<Rightarrow> string + string option" where
  "gate_kind kind place = (case kind of None \<Rightarrow> Inr None
     | Some v \<Rightarrow> if as_string kind \<in> {Some ''command'', Some ''vitest''} then Inr (as_string kind)
         else Inl (place @ '': step kind must be command or vitest.''))"

definition parse_step :: "nat \<Rightarrow> json \<Rightarrow> string + gate_step" where
  "parse_step index step =
     (let place = ''step '' @ show_nat (index + 1)
      in case (nonblank (json_get step ''name''), isCommand (json_get step ''run'')) of
           (Some name, Some run) \<Rightarrow>
             bind_res (gate_kind (json_get step ''kind'') place) (\<lambda>kind.
             bind_res (checkCwd (json_get step ''cwd'') place) (\<lambda>cwd.
             Inr \<lparr>gs_name = name, gs_cwd = cwd, gs_run = run, gs_kind = kind\<rparr>))
         | _ \<Rightarrow> Inl (place @ '': every step needs a name and a run command array.''))"

fun parse_steps :: "nat \<Rightarrow> json list \<Rightarrow> string + gate_step list" where
  "parse_steps index [] = Inr []"
| "parse_steps index (v # vs) =
     bind_res (parse_step index v) (\<lambda>s. bind_res (parse_steps (Suc index) vs) (\<lambda>ss. Inr (s # ss)))"

definition parse_install :: "json option \<Rightarrow> string + gate_install option" where
  "parse_install install = (case install of None \<Rightarrow> Inr None
     | Some v \<Rightarrow> (case isCommand (json_get v ''run'') of
         None \<Rightarrow> Inl ''install needs a run command array.''
       | Some run \<Rightarrow> bind_res (checkCwd (json_get v ''cwd'') ''install'') (\<lambda>cwd.
           Inr (Some \<lparr>gi_cwd = cwd, gi_run = run\<rparr>))))"

definition parseLandingGateConfig :: "json \<Rightarrow> string + gate_config" where
  "parseLandingGateConfig doc =
     (case (as_number (json_get doc ''version''), as_array (json_get doc ''steps'')) of
        (Some (Fin q), Some (v # vs)) \<Rightarrow>
          if q \<noteq> 1 then Inl ''A landing gate needs version 1 and at least one step.''
          else bind_res (parse_steps 0 (v # vs)) (\<lambda>steps.
            if \<not> distinct (map gs_name steps) then Inl ''Step names must be unique.''
            else bind_res (parse_install (json_get doc ''install'')) (\<lambda>install.
              Inr \<lparr>gc_install = install, gc_steps = steps\<rparr>))
      | _ \<Rightarrow> Inl ''A landing gate needs version 1 and at least one step.'')"

text \<open>The document a parsed config stands for, as it is stored.\<close>

definition opt_str :: "string \<Rightarrow> string option \<Rightarrow> json jsobj" where
  "opt_str k v = (case v of None \<Rightarrow> [] | Some s \<Rightarrow> [(k, JStr s)])"

definition step_json :: "gate_step \<Rightarrow> json" where
  "step_json s = JObj ([(''name'', JStr (gs_name s))] @ opt_str ''cwd'' (gs_cwd s)
     @ [(''run'', JArr (map JStr (gs_run s)))] @ opt_str ''kind'' (gs_kind s))"

definition gate_json :: "gate_config \<Rightarrow> json" where
  "gate_json c = JObj ([(''version'', JNum (Fin 1))]
     @ (case gc_install c of None \<Rightarrow> []
        | Some i \<Rightarrow> [(''install'', JObj (opt_str ''cwd'' (gi_cwd i) @ [(''run'', JArr (map JStr (gi_run i)))]))])
     @ [(''steps'', JArr (map step_json (gc_steps c)))])"

end
