(* ===== verification/Landing_Manager.thy ===== *)
theory Landing_Manager
  imports Landing_Types Lease_Manager
begin

text \<open>
  The landing queue manager (\<open>web/server/landing-queue-manager.ts\<close>) and its file
  (\<open>web/server/landing-queue-store.ts\<close>). Operations run one after another (\<open>exclusive\<close>), so each is
  a function on the state; work the code defers (\<open>later\<close>, \<open>track\<close>) is a list of tasks that later
  steps run. The lease manager is injected (\<open>deps.leases\<close>): its operations are the record
  \<open>lease_api\<close> over an abstract lease state. The other dependencies and the clock are the record
  \<open>landing_env\<close>; random identifiers and tokens are arguments. An object the code holds on to is
  named by its identifier. Disk writes succeed.
\<close>

section \<open>Dependencies and state\<close>

record 'l lease_api =
  la_acquire :: "acquire_input \<Rightarrow> number \<Rightarrow> 'l \<Rightarrow> (lease_error + acquire_result) \<times> 'l"
  la_renew :: "string \<Rightarrow> string \<Rightarrow> jsnum option \<Rightarrow> number \<Rightarrow> 'l \<Rightarrow> (lease_error + lease) \<times> 'l"
  la_release :: "string \<Rightarrow> string \<Rightarrow> number \<Rightarrow> 'l \<Rightarrow> (lease_error + release_result) \<times> 'l"
  la_withdraw :: "string \<Rightarrow> string \<Rightarrow> 'l \<Rightarrow> (lease_error + bool) \<times> 'l"
  la_holds :: "string \<Rightarrow> string \<Rightarrow> number \<Rightarrow> 'l \<Rightarrow> bool"
  la_register :: "string \<Rightarrow> 'l \<Rightarrow> 'l"

record landing_env =
  ev_now :: number
  ev_sessionNum :: "string \<Rightarrow> nat option"
  ev_machineName :: "string option \<Rightarrow> string option"
  ev_sha256 :: "string \<Rightarrow> string"
  ev_hasGate :: "landing_target \<Rightarrow> bool"
  ev_canLaunch :: bool
  ev_onResolved :: "(landing_entry \<Rightarrow> bool) option"

datatype landing_error =
    LandingQueueError nat string
  | LeaseFailure lease_error

datatype landing_effect =
    Notify string string
  | EntryResolved landing_entry
  | AlertLeaders "landing_entry list" string
  | InvalidateSession string

record runner_request =
  rn_launchId :: string
  rn_target :: landing_target
  rn_hostId :: "string option"
  rn_baseCheckout :: string
  rn_sessionId :: string
  rn_token :: string

record runner_caller =
  rc_launchId :: string
  rc_ownerId :: string
  rc_target :: landing_target
  rc_hostId :: "string option"

record submit_input =
  si_callerSessionId :: string
  si_hostId :: "string option"
  si_target :: landing_target
  si_baseCheckout :: string
  si_questId :: "string option"
  si_preparationId :: "string option"
  si_bundleId :: string
  si_base :: string
  si_tip :: string
  si_commits :: "(string \<times> string) list"
  si_preSubmitTest :: pre_submit_test

record claim_result =
  cl_run :: "landing_run option"
  cl_entries :: "landing_entry list"
  cl_unreconciled :: "landing_run list"

record queue_trouble =
  qt_failures :: nat
  qt_message :: string
  qt_at :: number
  qt_retryAt :: number
  qt_alerted :: bool

datatype landing_task =
    Pump "string list"
  | Announce "landing_entry list" landing_run run_report

record landing_file =
  lf_entries :: "landing_entry list"
  lf_runs :: "landing_run list"
  lf_launches :: "landing_launch list"

definition emptyLandingQueueFile :: landing_file where
  "emptyLandingQueueFile = \<lparr>lf_entries = [], lf_runs = [], lf_launches = []\<rparr>"

record 'l landing_state =
  lq_entries :: "landing_entry list"
  lq_runs :: "landing_run list"
  lq_launches :: "landing_launch list"
  lq_loaded :: bool
  lq_disk :: "landing_file option"
  lq_trouble :: "string \<Rightarrow> queue_trouble option"
  lq_launching :: "(string \<times> runner_request) list"
  lq_background :: "landing_task list"
  lq_leases :: 'l
  lq_log :: "landing_effect list"

definition initial_landing_state :: "landing_file option \<Rightarrow> 'l \<Rightarrow> 'l landing_state" where
  "initial_landing_state file l = \<lparr>lq_entries = [], lq_runs = [], lq_launches = [], lq_loaded = False,
     lq_disk = file, lq_trouble = (\<lambda>_. None), lq_launching = [], lq_background = [], lq_leases = l, lq_log = []\<rparr>"

section \<open>The file\<close>

definition load_file :: "landing_file option \<Rightarrow> landing_file" where
  "load_file f = (case f of None \<Rightarrow> emptyLandingQueueFile | Some d \<Rightarrow> d)"

definition load_queue :: "'l landing_state \<Rightarrow> 'l landing_state" where
  "load_queue s =
     (if lq_loaded s then s
      else let d = load_file (lq_disk s)
        in s\<lparr>lq_entries := lf_entries d, lq_runs := lf_runs d, lq_launches := lf_launches d, lq_loaded := True\<rparr>)"

definition save_queue :: "'l landing_state \<Rightarrow> 'l landing_state" where
  "save_queue s = s\<lparr>lq_disk := Some \<lparr>lf_entries = lq_entries s, lf_runs = lq_runs s, lf_launches = lq_launches s\<rparr>\<rparr>"

section \<open>Reading the queue\<close>

definition HISTORY_RETENTION_MS :: number where "HISTORY_RETENTION_MS = 14 * 24 * 60 * 60000"

definition LANDING_QUEUE_LEASE_TTL_MS :: number where "LANDING_QUEUE_LEASE_TTL_MS = 15 * 60000"

definition LAUNCH_CLAIM_TIMEOUT_MS :: number where "LAUNCH_CLAIM_TIMEOUT_MS = 2 * 60000"

definition RETRY_DELAYS_MS :: "number list" where
  "RETRY_DELAYS_MS = [0, 60000, 5 * 60000, 15 * 60000]"

definition ALERT_AFTER_FAILURES :: nat where "ALERT_AFTER_FAILURES = 2"

definition unresolved :: "landing_entry \<Rightarrow> bool" where
  "unresolved e \<longleftrightarrow> le_state e = Pending \<or> le_state e = Running"

definition isUnreconciled :: "landing_run \<Rightarrow> bool" where
  "isUnreconciled run \<longleftrightarrow> lr_state run = RunAbandoned
     \<and> (case lr_plan run of None \<Rightarrow> False | Some p \<Rightarrow> \<not> pp_reconciled p)"

definition launch_ended :: "landing_launch \<Rightarrow> bool" where
  "launch_ended l = (case ll_endedAt l of None \<Rightarrow> False | Some t \<Rightarrow> t \<noteq> 0)"

definition pending_of :: "string \<Rightarrow> 'l landing_state \<Rightarrow> landing_entry list" where
  "pending_of key s = filter (\<lambda>e. le_key e = key \<and> le_state e = Pending) (lq_entries s)"

definition active_run :: "string \<Rightarrow> 'l landing_state \<Rightarrow> landing_run option" where
  "active_run key s = List.find (\<lambda>r. lr_key r = key \<and> lr_state r = RunRunning) (lq_runs s)"

definition unreconciled_of :: "string \<Rightarrow> 'l landing_state \<Rightarrow> landing_run list" where
  "unreconciled_of key s = filter (\<lambda>r. lr_key r = key \<and> isUnreconciled r) (lq_runs s)"

definition find_run :: "string \<Rightarrow> 'l landing_state \<Rightarrow> landing_run option" where
  "find_run rid s = List.find (\<lambda>r. lr_id r = rid) (lq_runs s)"

definition find_entry :: "string \<Rightarrow> 'l landing_state \<Rightarrow> landing_entry option" where
  "find_entry eid s = List.find (\<lambda>e. le_id e = eid) (lq_entries s)"

definition find_launch :: "string \<Rightarrow> 'l landing_state \<Rightarrow> landing_launch option" where
  "find_launch lid s = List.find (\<lambda>l. ll_id l = lid) (lq_launches s)"

definition runEntries :: "landing_run \<Rightarrow> 'l landing_state \<Rightarrow> landing_entry list" where
  "runEntries run s = concat (map (\<lambda>i. filter (\<lambda>e. le_id e = i) (lq_entries s)) (lr_entryIds run))"

definition machine :: "landing_env \<Rightarrow> string option \<Rightarrow> string" where
  "machine env host = (case ev_machineName env host of Some n \<Rightarrow> n
     | None \<Rightarrow> if truthy host \<noteq> None then ''a remote host'' else ''the coordinator's machine'')"

definition ownedRunningRun :: "string \<Rightarrow> runner_caller \<Rightarrow> 'l landing_state \<Rightarrow> landing_error + landing_run" where
  "ownedRunningRun rid runner s = (case find_run rid s of
       None \<Rightarrow> Inl (LandingQueueError 404 (''No landing run '' @ rid @ ''.''))
     | Some run \<Rightarrow>
         if lr_launchId run \<noteq> Some (rc_launchId runner) then
           Inl (LandingQueueError 403 ''Only the run's runner can update it.'')
         else (case lr_state run of
             RunRunning \<Rightarrow> Inr run
           | RunFinished \<Rightarrow> Inl (LandingQueueError 409 (''Landing run '' @ rid @ '' is finished.''))
           | RunAbandoned \<Rightarrow> Inl (LandingQueueError 409 (''Landing run '' @ rid @ '' is abandoned.''))))"

definition currentLaunch :: "runner_caller \<Rightarrow> string \<Rightarrow> 'l landing_state \<Rightarrow> landing_error + landing_launch" where
  "currentLaunch runner key s = (case find_launch (rc_launchId runner) s of
       Some l \<Rightarrow> if ll_key l \<noteq> key \<or> launch_ended l
         then Inl (LandingQueueError 409 ''This runner is not the queue's current runner any more.'')
         else Inr l
     | None \<Rightarrow> Inl (LandingQueueError 409 ''This runner is not the queue's current runner any more.''))"

section \<open>Changing the queue\<close>

definition set_entry :: "string \<Rightarrow> (landing_entry \<Rightarrow> landing_entry) \<Rightarrow> 'l landing_state \<Rightarrow> 'l landing_state" where
  "set_entry eid f s = s\<lparr>lq_entries := update_first (\<lambda>e. le_id e = eid) f (lq_entries s)\<rparr>"

definition set_run :: "string \<Rightarrow> (landing_run \<Rightarrow> landing_run) \<Rightarrow> 'l landing_state \<Rightarrow> 'l landing_state" where
  "set_run rid f s = s\<lparr>lq_runs := update_first (\<lambda>r. lr_id r = rid) f (lq_runs s)\<rparr>"

definition set_launch :: "string \<Rightarrow> (landing_launch \<Rightarrow> landing_launch) \<Rightarrow> 'l landing_state \<Rightarrow> 'l landing_state" where
  "set_launch lid f s = s\<lparr>lq_launches := update_first (\<lambda>l. ll_id l = lid) f (lq_launches s)\<rparr>"

definition set_trouble :: "string \<Rightarrow> queue_trouble option \<Rightarrow> 'l landing_state \<Rightarrow> 'l landing_state" where
  "set_trouble key t s = s\<lparr>lq_trouble := (lq_trouble s)(key := t)\<rparr>"

definition queue_log :: "landing_effect list \<Rightarrow> 'l landing_state \<Rightarrow> 'l landing_state" where
  "queue_log es s = s\<lparr>lq_log := lq_log s @ es\<rparr>"

definition later :: "landing_task \<Rightarrow> 'l landing_state \<Rightarrow> 'l landing_state" where
  "later t s = s\<lparr>lq_background := lq_background s @ [t]\<rparr>"

definition pumpSoon :: "string \<Rightarrow> 'l landing_state \<Rightarrow> 'l landing_state" where
  "pumpSoon key s = later (Pump [key]) s"

definition republishRun :: "landing_run \<Rightarrow> 'l landing_state \<Rightarrow> 'l landing_state" where
  "republishRun run s =
     queue_log (map InvalidateSession (rev (remdups (rev (map le_sessionId (runEntries run s)))))) s"

definition releaseLease :: "landing_env \<Rightarrow> 'l lease_api \<Rightarrow> landing_target \<Rightarrow> 'l landing_state \<Rightarrow> 'l landing_state" where
  "releaseLease env api target s =
     (let key = landingLeaseKey target; owner = landingQueueOwnerId target;
          l1 = snd (la_release api key owner (ev_now env) (lq_leases s))
      in s\<lparr>lq_leases := snd (la_withdraw api key owner l1)\<rparr>)"

definition end_launch :: "landing_env \<Rightarrow> string \<Rightarrow> 'l landing_state \<Rightarrow> 'l landing_state" where
  "end_launch env lid s = set_launch lid (\<lambda>l. l\<lparr>ll_endedAt := Some (ev_now env)\<rparr>) s"

definition endLaunchOf :: "landing_env \<Rightarrow> landing_run \<Rightarrow> 'l landing_state \<Rightarrow> 'l landing_state" where
  "endLaunchOf env run s = (case lr_launchId run of None \<Rightarrow> s
     | Some lid \<Rightarrow> set_launch lid (\<lambda>l. if launch_ended l then l else l\<lparr>ll_endedAt := Some (ev_now env)\<rparr>) s)"

text \<open>\<open>abandon\<close>: without a push plan the run's changes wait again; with one they stay until reconciled.\<close>

definition back_to_pending :: "string list \<Rightarrow> 'l landing_state \<Rightarrow> 'l landing_state" where
  "back_to_pending ids s = s\<lparr>lq_entries := map (\<lambda>e. if le_id e \<in> set ids
     then e\<lparr>le_state := Pending, le_runId := None\<rparr> else e) (lq_entries s)\<rparr>"

definition abandoned_run :: "landing_env \<Rightarrow> string \<Rightarrow> landing_run \<Rightarrow> landing_run" where
  "abandoned_run env why r = r\<lparr>lr_state := RunAbandoned, lr_finishedAt := Some (ev_now env),
     lr_summary := Some (''Abandoned: '' @ why @ ''.'' @ (if lr_plan r = None then []
       else '' It recorded a push plan; the next landing run checks the remote.''))\<rparr>"

definition abandon :: "landing_env \<Rightarrow> landing_run \<Rightarrow> string \<Rightarrow> 'l landing_state \<Rightarrow> 'l landing_state" where
  "abandon env run why s =
     (let s1 = set_run (lr_id run) (abandoned_run env why) s;
          s2 = endLaunchOf env run s1;
          s3 = (if lr_plan run = None then back_to_pending (lr_entryIds run) s2 else s2)
      in republishRun run (save_queue s3))"

definition alert_text :: "string \<Rightarrow> nat \<Rightarrow> string \<Rightarrow> string" where
  "alert_text key failures message = join_with nl
     [''[Landing queue] '' @ key @ '' failed '' @ show_nat failures @ '' times in a row and nothing landed. Latest: '' @ message,
      [],
      ''It keeps retrying with growing delays. `takode land status` shows the queue; `takode land run --branch ''
        @ lt_branch (landingTargetFromKey key)
        @ ''` (in a checkout of the repository) starts a runner on your machine by hand.'']"

definition retry_delay :: "nat \<Rightarrow> number" where
  "retry_delay failures = RETRY_DELAYS_MS ! (min failures (length RETRY_DELAYS_MS) - 1)"

definition recordFailureFor ::
  "landing_env \<Rightarrow> string \<Rightarrow> landing_entry list \<Rightarrow> string \<Rightarrow> 'l landing_state \<Rightarrow> 'l landing_state" where
  "recordFailureFor env key entries message s =
     (let previous = lq_trouble s key;
          failures = (case previous of None \<Rightarrow> 0 | Some p \<Rightarrow> qt_failures p) + 1;
          alerted = (case previous of None \<Rightarrow> False | Some p \<Rightarrow> qt_alerted p);
          alert = (failures \<ge> ALERT_AFTER_FAILURES \<and> \<not> alerted \<and> entries \<noteq> []);
          t = \<lparr>qt_failures = failures, qt_message = message, qt_at = ev_now env,
               qt_retryAt = ev_now env + retry_delay failures, qt_alerted = (alerted \<or> alert)\<rparr>;
          s1 = set_trouble key (Some t) s
      in if alert then queue_log [AlertLeaders entries (alert_text key failures message)] s1 else s1)"

definition recordFailure :: "landing_env \<Rightarrow> landing_run \<Rightarrow> string \<Rightarrow> 'l landing_state \<Rightarrow> 'l landing_state" where
  "recordFailure env run message s = recordFailureFor env (lr_key run) (runEntries run s) message s"

definition launchFailed ::
  "landing_env \<Rightarrow> 'l lease_api \<Rightarrow> landing_launch \<Rightarrow> string \<Rightarrow> 'l landing_state \<Rightarrow> 'l landing_state" where
  "launchFailed env api launch message s =
     (let s1 = end_launch env (ll_id launch) s;
          s2 = recordFailureFor env (ll_key launch) (pending_of (ll_key launch) s1) message s1
      in releaseLease env api (ll_target launch) (save_queue s2))"

text \<open>One outcome of a report, and all of them.\<close>

definition MAX_DETAILS :: nat where "MAX_DETAILS = 6000"

fun apply_outcome :: "number \<Rightarrow> string option \<Rightarrow> entry_outcome \<Rightarrow> landing_entry \<Rightarrow> landing_entry" where
  "apply_outcome now pushedTip (ORequeue _ reason) e =
     e\<lparr>le_state := Pending, le_runId := None, le_reason := Some reason\<rparr>"
| "apply_outcome now pushedTip (OLanded _ mapping) e =
     e\<lparr>le_resolvedAt := Some now, le_reason := None, le_details := None, le_state := Landed,
       le_mapping := Some mapping,
       le_pushedTip := (case truthy pushedTip of None \<Rightarrow> le_pushedTip e | Some t \<Rightarrow> Some t)\<rparr>"
| "apply_outcome now pushedTip (OBounced _ reason details) e =
     e\<lparr>le_resolvedAt := Some now, le_reason := Some reason, le_state := Bounced,
       le_details := map_option (last_n MAX_DETAILS) (truthy details)\<rparr>"

definition outcomes_state ::
  "number \<Rightarrow> string option \<Rightarrow> entry_outcome list \<Rightarrow> 'l landing_state \<Rightarrow> 'l landing_state" where
  "outcomes_state now pushedTip outcomes s =
     fold (\<lambda>oc. set_entry (outcome_entry oc) (apply_outcome now pushedTip oc)) outcomes s"

definition resolved_entries :: "entry_outcome list \<Rightarrow> 'l landing_state \<Rightarrow> landing_entry list" where
  "resolved_entries outcomes s =
     List.map_filter (\<lambda>oc. if is_requeue oc then None else find_entry (outcome_entry oc) s) outcomes"

definition applyOutcomes :: "landing_env \<Rightarrow> landing_run \<Rightarrow> run_report \<Rightarrow> 'l landing_state \<Rightarrow> 'l landing_state" where
  "applyOutcomes env run report s =
     (let s1 = outcomes_state (ev_now env) (rp_pushedTip report) (rp_outcomes report) s
      in later (Announce (resolved_entries (rp_outcomes report) s1) run report)
           (republishRun run (save_queue s1)))"

definition newLaunch ::
  "landing_env \<Rightarrow> string \<Rightarrow> string \<Rightarrow> landing_target \<Rightarrow> string option \<Rightarrow> string \<Rightarrow> string option \<Rightarrow>
    'l landing_state \<Rightarrow> runner_request \<times> 'l landing_state" where
  "newLaunch env fresh token target hostId baseCheckout startedBy s =
     (let lid = ''ll-'' @ fresh;
          launch = \<lparr>ll_id = lid, ll_key = landingQueueKey target, ll_target = target, ll_hostId = truthy hostId,
            ll_baseCheckout = baseCheckout, ll_launchedAt = ev_now env, ll_tokenHash = ev_sha256 env token,
            ll_startedBySessionId = truthy startedBy, ll_runId = None, ll_endedAt = None\<rparr>
      in (\<lparr>rn_launchId = lid, rn_target = target, rn_hostId = truthy hostId, rn_baseCheckout = baseCheckout,
            rn_sessionId = LANDING_RUNNER_SESSION_PREFIX @ lid, rn_token = token\<rparr>,
          s\<lparr>lq_launches := lq_launches s @ [launch]\<rparr>))"

text \<open>
  The machines a runner can start on: of the waiting changes, of the changes of unreconciled
  runs, and where those runs' runners were started; an empty checkout is no place.
\<close>

definition machine_sources :: "landing_entry list \<Rightarrow> landing_run list \<Rightarrow> 'l landing_state \<Rightarrow> (string option \<times> string) list" where
  "machine_sources pending unreconciled s =
     List.map_filter (\<lambda>(h, c). map_option (Pair h) (truthy c))
       (map (\<lambda>e. (le_hostId e, le_baseCheckout e)) (pending @ concat (map (\<lambda>r. runEntries r s) unreconciled))
        @ map (\<lambda>l. (ll_hostId l, Some (ll_baseCheckout l)))
            (filter (\<lambda>l. list_ex (\<lambda>r. lr_launchId r = Some (ll_id l)) unreconciled) (lq_launches s)))"

definition pickMachine ::
  "landing_entry list \<Rightarrow> landing_run list \<Rightarrow> nat \<Rightarrow> 'l landing_state \<Rightarrow> (string option \<times> string) option" where
  "pickMachine pending unreconciled failures s =
     (let candidates = rev (remdups (rev (machine_sources pending unreconciled s)))
      in if candidates = [] then None else Some (candidates ! (failures mod length candidates)))"

definition prune :: "landing_env \<Rightarrow> 'l landing_state \<Rightarrow> 'l landing_state" where
  "prune env s =
     (let cutoff = ev_now env - HISTORY_RETENTION_MS;
          kept = (\<lambda>r. lr_state r = RunRunning \<or> isUnreconciled r);
          done_runs = filter (\<lambda>r. \<not> kept r \<and> (case lr_finishedAt r of None \<Rightarrow> 0 | Some t \<Rightarrow> t) > cutoff) (lq_runs s);
          ended = filter (\<lambda>l. launch_ended l \<and> the (ll_endedAt l) > cutoff) (lq_launches s)
      in s\<lparr>lq_entries := filter (\<lambda>e. unresolved e
             \<or> (case le_resolvedAt e of None \<Rightarrow> True | Some t \<Rightarrow> t > cutoff)) (lq_entries s),
           lq_runs := sort_key lr_startedAt (last_n 100 done_runs @ filter kept (lq_runs s)),
           lq_launches := sort_key ll_launchedAt (last_n 100 ended @ filter (\<lambda>l. \<not> launch_ended l) (lq_launches s))\<rparr>)"

section \<open>Operations\<close>

definition absolute_path :: "string \<Rightarrow> bool" where
  "absolute_path p = starts_with ''/'' p"

definition state_name :: "entry_state \<Rightarrow> string" where
  "state_name st = (case st of Pending \<Rightarrow> ''pending'' | Running \<Rightarrow> ''running'' | Landed \<Rightarrow> ''landed''
     | Bounced \<Rightarrow> ''bounced'' | Withdrawn \<Rightarrow> ''withdrawn'')"

text \<open>The operations answer the sum of an error and a result, and leave a state.\<close>

type_synonym ('a, 'l) landing_op = "'l landing_state \<Rightarrow> (landing_error + 'a) \<times> 'l landing_state"

record submit_result =
  sr_entry :: landing_entry
  sr_ahead :: nat
  sr_activeRunId :: "string option"

definition submit :: "landing_env \<Rightarrow> string \<Rightarrow> submit_input \<Rightarrow> (submit_result, 'l) landing_op" where
  "submit env fresh input s0 =
     (let s = load_queue s0; target = si_target input; key = landingQueueKey target; caller = si_callerSessionId input
      in if si_commits input = [] then (Inl (LandingQueueError 400 ''An entry needs at least one commit.''), s)
         else if \<not> absolute_path (si_baseCheckout input) then
           (Inl (LandingQueueError 400 ''baseCheckout must be the absolute path of the base checkout.''), s)
         else if \<not> ev_hasGate env target then
           (Inl (LandingQueueError 409 (''No landing gate is saved for '' @ key
              @ '', so it does not land through the landing queue. Use the classic port flow in /port-changes, or save a gate with `takode land gate save`.'')), s)
         else (case List.find (\<lambda>e. le_sessionId e = caller \<and> unresolved e) (lq_entries s) of
             Some e \<Rightarrow> (Inl (LandingQueueError 409 (''Entry '' @ le_id e @ '' from this session is still ''
                @ state_name (le_state e) @ ''. Withdraw it before submitting another.'')), s)
           | None \<Rightarrow>
               let waiting = filter (\<lambda>e. le_key e = key \<and> unresolved e) (lq_entries s);
                   entry = \<lparr>le_id = ''le-'' @ fresh, le_key = key,
                     le_target = \<lparr>lt_repo = lower (lt_repo target), lt_branch = lt_branch target\<rparr>,
                     le_sessionId = caller, le_sessionNum = ev_sessionNum env caller,
                     le_hostId = truthy (si_hostId input), le_baseCheckout = Some (si_baseCheckout input),
                     le_questId = truthy (si_questId input), le_preparationId = truthy (si_preparationId input),
                     le_bundleId = si_bundleId input, le_base = si_base input, le_tip = si_tip input,
                     le_commits = si_commits input, le_preSubmitTest = si_preSubmitTest input,
                     le_submittedAt = ev_now env, le_state = Pending, le_runId = None, le_resolvedAt = None,
                     le_mapping = None, le_pushedTip = None, le_reason = None, le_details = None\<rparr>;
                   s1 = save_queue (s\<lparr>lq_entries := lq_entries s @ [entry]\<rparr>)
               in (Inr \<lparr>sr_entry = entry, sr_ahead = length waiting,
                     sr_activeRunId = map_option lr_id (active_run key s1)\<rparr>, pumpSoon key s1)))"

definition getEntry :: "string \<Rightarrow> (landing_entry option, 'l) landing_op" where
  "getEntry eid s0 = (let s = load_queue s0 in (Inr (find_entry eid s), s))"

datatype queue_lease = LeaseHeld | LeaseWaiting | LeaseNone

record queue_snapshot =
  sn_key :: string
  sn_leaseKey :: string
  sn_entries :: "landing_entry list"
  sn_activeRun :: "landing_run option"
  sn_unreconciled :: "landing_run list"
  sn_recentRuns :: "landing_run list"
  sn_queueLease :: queue_lease
  sn_launch :: "landing_launch option"
  sn_launchProblem :: "(string \<times> number \<times> number) option"

text \<open>A launch as clients see it: without the hash of its token.\<close>

definition publicLaunch :: "landing_launch \<Rightarrow> landing_launch" where
  "publicLaunch l = l\<lparr>ll_tokenHash := []\<rparr>"

definition last_opt :: "'a list \<Rightarrow> 'a option" where
  "last_opt xs = (if xs = [] then None else Some (last xs))"

definition snapshot :: "landing_env \<Rightarrow> 'l lease_api \<Rightarrow> landing_target \<Rightarrow> (queue_snapshot, 'l) landing_op" where
  "snapshot env api target s0 =
     (let s = load_queue s0; key = landingQueueKey target;
          runs = filter (\<lambda>r. lr_key r = key) (lq_runs s)
      in (Inr \<lparr>sn_key = key, sn_leaseKey = landingLeaseKey target,
            sn_entries = last_n 40 (sort_key le_submittedAt (filter (\<lambda>e. le_key e = key) (lq_entries s))),
            sn_activeRun = List.find (\<lambda>r. lr_state r = RunRunning) runs,
            sn_unreconciled = filter isUnreconciled runs,
            sn_recentRuns = last_n 10 (filter (\<lambda>r. lr_state r \<noteq> RunRunning) runs),
            sn_queueLease = (if la_holds api (landingLeaseKey target) (landingQueueOwnerId target) (ev_now env) (lq_leases s)
               then LeaseHeld else if pending_of key s \<noteq> [] then LeaseWaiting else LeaseNone),
            sn_launch = map_option publicLaunch (last_opt (filter (\<lambda>l. ll_key l = key) (lq_launches s))),
            sn_launchProblem = map_option (\<lambda>t. (qt_message t, qt_at t, qt_retryAt t)) (lq_trouble s key)\<rparr>, s))"

definition queue_acquire_input :: "landing_target \<Rightarrow> bool option \<Rightarrow> acquire_input" where
  "queue_acquire_input target waiting =
     \<lparr>ai_resourceKey = landingLeaseKey target, ai_callerSessionId = landingQueueOwnerId target, ai_questId = None,
      ai_purpose = ''Land the waiting changes on '' @ lt_branch target @ '' (landing queue)'', ai_metadata = None,
      ai_ttlMs = Some (Fin LANDING_QUEUE_LEASE_TTL_MS), ai_waitIfUnavailable = waiting\<rparr>"

definition end_open_launches :: "landing_env \<Rightarrow> string \<Rightarrow> 'l landing_state \<Rightarrow> 'l landing_state" where
  "end_open_launches env key s = s\<lparr>lq_launches := map (\<lambda>l. if ll_key l = key \<and> \<not> launch_ended l
     then l\<lparr>ll_endedAt := Some (ev_now env)\<rparr> else l) (lq_launches s)\<rparr>"

text \<open>The end of \<open>startRunnerByHand\<close>, once the queue holds the port lease.\<close>

definition hand_over ::
  "landing_env \<Rightarrow> string \<Rightarrow> string \<Rightarrow> string \<Rightarrow> landing_target \<Rightarrow> string option \<Rightarrow> string \<Rightarrow> landing_run option \<Rightarrow>
    (runner_request, 'l) landing_op" where
  "hand_over env fresh token caller target hostId baseCheckout active s =
     (let key = landingQueueKey target;
          s1 = (case active of Some run \<Rightarrow> abandon env run ''a runner was started by hand after it stopped reporting'' s
                | None \<Rightarrow> s);
          s2 = set_trouble key None (end_open_launches env key s1);
          (request, s3) = newLaunch env fresh token target hostId baseCheckout (Some caller) s2
      in (Inr request, save_queue s3))"

definition startRunnerByHand ::
  "landing_env \<Rightarrow> 'l lease_api \<Rightarrow> string \<Rightarrow> string \<Rightarrow> string \<Rightarrow> landing_target \<Rightarrow> string option \<Rightarrow> string \<Rightarrow>
    (runner_request, 'l) landing_op" where
  "startRunnerByHand env api fresh token caller target hostId baseCheckout s0 =
     (let s = load_queue s0; key = landingQueueKey target; active = active_run key s;
          leaseKey = landingLeaseKey target; owner = landingQueueOwnerId target;
          proceed = hand_over env fresh token caller target hostId baseCheckout active
      in if \<not> absolute_path baseCheckout then
           (Inl (LandingQueueError 400 ''baseCheckout must be the absolute path of the base checkout.''), s)
         else if (case active of Some run \<Rightarrow> ev_now env - lr_heartbeatAt run < LANDING_RUN_RECLAIM_MS | None \<Rightarrow> False) then
           (Inl (LandingQueueError 409 (case active of Some run \<Rightarrow> ''Landing run '' @ lr_id run
              @ '' is under way (phase: '' @ lr_phase run @ ''); it takes every waiting change.'' | None \<Rightarrow> [])), s)
         else if pending_of key s = [] \<and> active = None \<and> unreconciled_of key s = [] then
           (Inl (LandingQueueError 409 (''Nothing is waiting to land on '' @ key @ ''.'')), s)
         else if key \<in> fst ` set (lq_launching s) then
           (Inl (LandingQueueError 409 ''The server is starting a runner right now.''), s)
         else if la_holds api leaseKey owner (ev_now env) (lq_leases s) then proceed s
         else
           let (result, l1) = la_acquire api (queue_acquire_input target None) (ev_now env) (lq_leases s);
               s1 = s\<lparr>lq_leases := l1\<rparr>
           in case result of
                Inl e \<Rightarrow> (Inl (LeaseFailure e), s1)
              | Inr (Unavailable st) \<Rightarrow> (Inl (LandingQueueError 409 (leaseKey @ '' is held by ''
                  @ join_with '', '' (map lease_ownerSessionId (st_leases st))
                  @ '' (a classic port or another landing). The queue starts its run as soon as it is free.'')), s1)
              | Inr _ \<Rightarrow> proceed s1)"

definition verifyRunner :: "landing_env \<Rightarrow> string option \<Rightarrow> string option \<Rightarrow> 'l landing_state \<Rightarrow> runner_caller option" where
  "verifyRunner env sessionId token s = (case (sessionId, truthy token) of
       (Some sid, Some tok) \<Rightarrow>
         if \<not> starts_with LANDING_RUNNER_SESSION_PREFIX sid then None
         else (case find_launch (drop (length LANDING_RUNNER_SESSION_PREFIX) sid) s of
             Some l \<Rightarrow> if launch_ended l \<or> ll_tokenHash l \<noteq> ev_sha256 env tok then None
               else Some \<lparr>rc_launchId = ll_id l, rc_ownerId = landingQueueOwnerId (ll_target l),
                          rc_target = ll_target l, rc_hostId = truthy (ll_hostId l)\<rparr>
           | None \<Rightarrow> None)
     | _ \<Rightarrow> None)"

text \<open>A claim takes the oldest waiting entries; an older run of the queue is abandoned first.\<close>

definition take_over :: "landing_env \<Rightarrow> string \<Rightarrow> 'l landing_state \<Rightarrow> 'l landing_state" where
  "take_over env key s = (case active_run key s of
       Some run \<Rightarrow> abandon env run ''a newer runner took over the queue'' s
     | None \<Rightarrow> s)"

definition claim_batch :: "string \<Rightarrow> 'l landing_state \<Rightarrow> landing_entry list" where
  "claim_batch key s = take LANDING_BATCH_LIMIT (sort_key le_submittedAt (pending_of key s))"

definition claimed_entry :: "string \<Rightarrow> landing_entry \<Rightarrow> landing_entry" where
  "claimed_entry rid e = e\<lparr>le_state := Running, le_runId := Some rid\<rparr>"

definition claimed_run ::
  "landing_env \<Rightarrow> runner_caller \<Rightarrow> landing_launch \<Rightarrow> string \<Rightarrow> string \<Rightarrow> landing_entry list \<Rightarrow> landing_run" where
  "claimed_run env runner launch rid key batch =
     \<lparr>lr_id = rid, lr_key = key, lr_target = le_target (hd batch), lr_ownerSessionId = rc_ownerId runner,
      lr_launchId = Some (ll_id launch), lr_hostId = truthy (ll_hostId launch), lr_startedAt = ev_now env,
      lr_heartbeatAt = ev_now env, lr_phase = ''starting'', lr_entryIds = map le_id batch, lr_state = RunRunning,
      lr_plan = None, lr_finishedAt = None, lr_summary = None, lr_logPath = None\<rparr>"

definition begin_run :: "landing_run \<Rightarrow> landing_launch \<Rightarrow> 'l landing_state \<Rightarrow> 'l landing_state" where
  "begin_run run launch s =
     (let s1 = s\<lparr>lq_entries := map (\<lambda>e. if le_id e \<in> set (lr_entryIds run) then claimed_entry (lr_id run) e else e) (lq_entries s)\<rparr>;
          s2 = set_launch (ll_id launch) (\<lambda>l. l\<lparr>ll_runId := Some (lr_id run)\<rparr>) s1
      in republishRun run (save_queue (s2\<lparr>lq_runs := lq_runs s2 @ [run]\<rparr>)))"

definition claim ::
  "landing_env \<Rightarrow> 'l lease_api \<Rightarrow> string \<Rightarrow> runner_caller \<Rightarrow> landing_target \<Rightarrow> (claim_result, 'l) landing_op" where
  "claim env api fresh runner target s0 =
     (let s = load_queue s0; key = landingQueueKey target; leaseKey = landingLeaseKey target
      in check_res (currentLaunch runner key s) s (\<lambda>launch.
         case ll_runId launch of
           Some r \<Rightarrow> (Inl (LandingQueueError 409 (''Runner '' @ ll_id launch @ '' already claimed run '' @ r @ ''.'')), s)
         | None \<Rightarrow>
           if \<not> la_holds api leaseKey (rc_ownerId runner) (ev_now env) (lq_leases s) then
             (Inl (LandingQueueError 409 (''The landing queue no longer holds '' @ leaseKey @ ''.'')), s)
           else
             let s1 = take_over env key s; batch = claim_batch key s1; rid = ''lr-'' @ fresh;
                 run = claimed_run env runner launch rid key batch
             in if unreconciled_of key s1 \<noteq> [] then
                  (Inr \<lparr>cl_run = None, cl_entries = [], cl_unreconciled = unreconciled_of key s1\<rparr>, s1)
                else if batch = [] then
                  (Inr \<lparr>cl_run = None, cl_entries = [], cl_unreconciled = []\<rparr>,
                   releaseLease env api target (save_queue (end_launch env (ll_id launch) s1)))
                else
                  (Inr \<lparr>cl_run = Some run, cl_entries = map (claimed_entry rid) batch, cl_unreconciled = []\<rparr>,
                   begin_run run launch s1)))"

definition runCarriesBundle :: "string \<Rightarrow> runner_caller \<Rightarrow> string \<Rightarrow> (bool, 'l) landing_op" where
  "runCarriesBundle rid runner bundleId s0 =
     (let s = load_queue s0
      in (Inr (case find_run rid s of None \<Rightarrow> False
            | Some run \<Rightarrow> lr_launchId run = Some (rc_launchId runner)
                \<and> list_ex (\<lambda>e. le_bundleId e = bundleId) (runEntries run s)), s))"

definition heartbeat ::
  "landing_env \<Rightarrow> 'l lease_api \<Rightarrow> string \<Rightarrow> runner_caller \<Rightarrow> string option \<Rightarrow> string option \<Rightarrow> (landing_run option, 'l) landing_op" where
  "heartbeat env api rid runner phase logPath s0 =
     (let s = load_queue s0
      in check_res (ownedRunningRun rid runner s) s (\<lambda>run.
         let leaseKey = landingLeaseKey (lr_target run)
         in if \<not> la_holds api leaseKey (rc_ownerId runner) (ev_now env) (lq_leases s) then
              (Inl (LandingQueueError 409 ''The landing run no longer holds the port lease.''), s)
            else
              let (renewed, l1) = la_renew api leaseKey (rc_ownerId runner) (Some (Fin LANDING_QUEUE_LEASE_TTL_MS))
                                    (ev_now env) (lq_leases s);
                  s1 = s\<lparr>lq_leases := l1\<rparr>
              in case renewed of
                   Inl e \<Rightarrow> (Inl (LeaseFailure e), s1)
                 | Inr _ \<Rightarrow>
                     let s2 = set_run rid (\<lambda>r. r\<lparr>lr_heartbeatAt := ev_now env,
                                lr_phase := (case truthy phase of None \<Rightarrow> lr_phase r | Some p \<Rightarrow> take 200 p),
                                lr_logPath := (case truthy logPath of None \<Rightarrow> lr_logPath r | Some p \<Rightarrow> Some p)\<rparr>) s1
                     in (Inr (find_run rid s2), save_queue s2)))"

definition recordPlan ::
  "landing_env \<Rightarrow> 'l lease_api \<Rightarrow> string \<Rightarrow> runner_caller \<Rightarrow> push_plan \<Rightarrow> (landing_run option, 'l) landing_op" where
  "recordPlan env api rid runner plan s0 =
     (let s = load_queue s0
      in check_res (ownedRunningRun rid runner s) s (\<lambda>run.
         if \<not> la_holds api (landingLeaseKey (lr_target run)) (rc_ownerId runner) (ev_now env) (lq_leases s) then
           (Inl (LandingQueueError 409 ''The landing run no longer holds the port lease; do not push.''), s)
         else (case List.find (\<lambda>i. i \<notin> set (lr_entryIds run)) (obj_keys (pp_mapping plan)) of
             Some i \<Rightarrow> (Inl (LandingQueueError 400 (''Entry '' @ i @ '' is not in this run.'')), s)
           | None \<Rightarrow>
               let s1 = set_run rid (\<lambda>r. r\<lparr>lr_plan := Some plan, lr_heartbeatAt := ev_now env, lr_phase := ''pushing''\<rparr>) s
               in (Inr (find_run rid s1), save_queue s1))))"

definition firstRequeueReason :: "run_report \<Rightarrow> string" where
  "firstRequeueReason report = (case List.find is_requeue (rp_outcomes report) of
       Some (ORequeue _ reason) \<Rightarrow> reason | _ \<Rightarrow> rp_summary report)"

definition finished_run :: "landing_env \<Rightarrow> run_report \<Rightarrow> landing_run \<Rightarrow> landing_run" where
  "finished_run env report run = run\<lparr>lr_state := RunFinished, lr_finishedAt := Some (ev_now env),
     lr_summary := Some (take 2000 (rp_summary report)),
     lr_logPath := (case truthy (rp_logPath report) of None \<Rightarrow> lr_logPath run | Some p \<Rightarrow> Some p)\<rparr>"

text \<open>A run that settled anything clears the queue's trouble; one that landed nothing adds to it.\<close>

definition note_progress :: "landing_env \<Rightarrow> run_report \<Rightarrow> landing_run \<Rightarrow> 'l landing_state \<Rightarrow> 'l landing_state" where
  "note_progress env report run s =
     (if list_ex (\<lambda>oc. \<not> is_requeue oc) (rp_outcomes report) then set_trouble (lr_key run) None s
      else recordFailure env run (''The landing run on '' @ machine env (lr_hostId run)
             @ '' landed nothing: '' @ firstRequeueReason report) s)"

definition finish ::
  "landing_env \<Rightarrow> 'l lease_api \<Rightarrow> string \<Rightarrow> runner_caller \<Rightarrow> run_report \<Rightarrow> (landing_run, 'l) landing_op" where
  "finish env api rid runner report s0 =
     (let s = load_queue s0
      in check_res (ownedRunningRun rid runner s) s (\<lambda>run.
         case List.find (\<lambda>i. i \<notin> set (map outcome_entry (rp_outcomes report))) (lr_entryIds run) of
           Some i \<Rightarrow> (Inl (LandingQueueError 400 (''No outcome reported for entry '' @ i @ ''.'')), s)
         | None \<Rightarrow>
             let run1 = finished_run env report run;
                 s1 = endLaunchOf env run1 (set_run rid (finished_run env report) s);
                 s2 = note_progress env report run1 s1;
                 s3 = applyOutcomes env run1 report s2;
                 s4 = releaseLease env api (lr_target run1) s3
             in (Inr run1, pumpSoon (lr_key run1) s4)))"

definition reconcile_outcome :: "bool \<Rightarrow> push_plan \<Rightarrow> string \<Rightarrow> entry_outcome" where
  "reconcile_outcome pushed plan eid =
     (if pushed then (case map_of (pp_mapping plan) eid of
          Some mapping \<Rightarrow> OLanded eid mapping
        | None \<Rightarrow> OBounced eid ''It was dropped from the interrupted run's push.'' None)
      else ORequeue eid ''The interrupted run did not push.'')"

definition reconcile_summary :: "runner_caller \<Rightarrow> bool \<Rightarrow> landing_run \<Rightarrow> string" where
  "reconcile_summary runner pushed run =
     (case lr_summary run of None \<Rightarrow> ''Interrupted run'' | Some t \<Rightarrow> t)
     @ ''; reconciled by runner '' @ rc_launchId runner @ '': ''
     @ (if pushed then ''its push reached the remote'' else ''nothing was pushed'') @ ''.''"

definition reconciled_run :: "runner_caller \<Rightarrow> bool \<Rightarrow> landing_run \<Rightarrow> landing_run" where
  "reconciled_run runner pushed run = run\<lparr>lr_summary := Some (reconcile_summary runner pushed run),
     lr_plan := map_option (\<lambda>p. p\<lparr>pp_reconciled := True\<rparr>) (lr_plan run)\<rparr>"

definition reconcile_report :: "runner_caller \<Rightarrow> bool \<Rightarrow> push_plan \<Rightarrow> landing_run \<Rightarrow> run_report" where
  "reconcile_report runner pushed plan run =
     \<lparr>rp_outcomes = map (reconcile_outcome pushed plan) (lr_entryIds run),
      rp_pushedTip = (if pushed then Some (pp_tip plan) else None), rp_summary = reconcile_summary runner pushed run,
      rp_flaky = [], rp_preexisting = [], rp_logPath = None\<rparr>"

definition reconcile ::
  "landing_env \<Rightarrow> 'l lease_api \<Rightarrow> string \<Rightarrow> runner_caller \<Rightarrow> bool \<Rightarrow> (landing_run, 'l) landing_op" where
  "reconcile env api rid runner pushed s0 =
     (let s = load_queue s0;
          missing = (Inl (LandingQueueError 404 (''No unreconciled run '' @ rid @ ''.'')), s)
      in case find_run rid s of None \<Rightarrow> missing
         | Some run \<Rightarrow> (case lr_plan run of None \<Rightarrow> missing
           | Some plan \<Rightarrow> if \<not> isUnreconciled run then missing
             else check_res (currentLaunch runner (lr_key run) s) s (\<lambda>_.
               if \<not> la_holds api (landingLeaseKey (lr_target run)) (rc_ownerId runner) (ev_now env) (lq_leases s) then
                 (Inl (LandingQueueError 409 (''The landing queue no longer holds '' @ landingLeaseKey (lr_target run) @ ''.'')), s)
               else
                 (Inr (reconciled_run runner pushed run),
                  applyOutcomes env (reconciled_run runner pushed run) (reconcile_report runner pushed plan run)
                    (set_run rid (reconciled_run runner pushed) s)))))"

definition withdraw_entry ::
  "landing_env \<Rightarrow> string \<Rightarrow> string \<Rightarrow> (string \<Rightarrow> bool) \<Rightarrow> (landing_entry, 'l) landing_op" where
  "withdraw_entry env eid caller callerIsLeaderOf s0 =
     (let s = load_queue s0
      in case find_entry eid s of
           None \<Rightarrow> (Inl (LandingQueueError 404 (''No landing entry '' @ eid @ ''.'')), s)
         | Some e \<Rightarrow>
             if le_sessionId e \<noteq> caller \<and> \<not> callerIsLeaderOf (le_sessionId e) then
               (Inl (LandingQueueError 403 ''Only the entry's owner or its leader can withdraw it.''), s)
             else if le_state e \<noteq> Pending then
               (Inl (LandingQueueError 409 (''Entry '' @ eid @ '' is '' @ state_name (le_state e)
                  @ ''; only waiting entries can be withdrawn.'')), s)
             else
               let e1 = e\<lparr>le_state := Withdrawn, le_resolvedAt := Some (ev_now env),
                     le_reason := Some (if caller = le_sessionId e then ''Withdrawn by its owner.''
                       else ''Withdrawn by its leader.'')\<rparr>;
                   s1 = save_queue (set_entry eid (\<lambda>_. e1) s);
                   s2 = (if ev_onResolved env = None then s1 else queue_log [EntryResolved e1] s1)
               in (Inr e1, pumpSoon (le_key e) s2))"

definition attestsLanding :: "string \<Rightarrow> string \<Rightarrow> string \<Rightarrow> string \<Rightarrow> string \<Rightarrow> (bool, 'l) landing_op" where
  "attestsLanding eid caller preparationId source target s0 =
     (let s = load_queue s0
      in (Inr (case find_entry eid s of None \<Rightarrow> False
            | Some e \<Rightarrow> le_sessionId e = caller \<and> le_state e = Landed \<and> le_preparationId e = Some preparationId
                \<and> (case le_mapping e of None \<Rightarrow> False
                   | Some m \<Rightarrow> list_ex (\<lambda>c. cm_source c = source \<and> cm_target c = target) m)), s))"

definition attestsUnlanded :: "string \<Rightarrow> string \<Rightarrow> (bool, 'l) landing_op" where
  "attestsUnlanded preparationId caller s0 =
     (let s = load_queue s0;
          es = filter (\<lambda>e. le_preparationId e = Some preparationId \<and> le_sessionId e = caller) (lq_entries s)
      in (Inr (es \<noteq> [] \<and> list_all (\<lambda>e. le_state e = Bounced \<or> le_state e = Withdrawn) es), s))"

definition run_progressing :: "number \<Rightarrow> landing_run \<Rightarrow> bool" where
  "run_progressing now r \<longleftrightarrow> lr_state r = RunRunning \<and> now - lr_heartbeatAt r < LANDING_RUN_STALE_MS"

definition isLandingActive :: "landing_env \<Rightarrow> string \<Rightarrow> 'l landing_state \<Rightarrow> bool" where
  "isLandingActive env sessionId s =
     (if starts_with LANDING_QUEUE_OWNER_PREFIX sessionId then
        let key = drop (length LANDING_QUEUE_OWNER_PREFIX) sessionId
        in list_ex (\<lambda>r. lr_key r = key \<and> run_progressing (ev_now env) r) (lq_runs s)
           \<or> list_ex (\<lambda>l. ll_key l = key \<and> \<not> launch_ended l \<and> ll_runId l = None
               \<and> ev_now env - ll_launchedAt l < LAUNCH_CLAIM_TIMEOUT_MS) (lq_launches s)
      else list_ex (\<lambda>r. run_progressing (ev_now env) r
        \<and> list_ex (\<lambda>i. map_option le_sessionId (find_entry i s) = Some sessionId) (lr_entryIds r)) (lq_runs s))"

definition isRunActiveOn :: "landing_env \<Rightarrow> string \<Rightarrow> 'l landing_state \<Rightarrow> bool" where
  "isRunActiveOn env hostId s =
     list_ex (\<lambda>r. run_progressing (ev_now env) r \<and> lr_hostId r = Some hostId) (lq_runs s)"

definition runnerExited ::
  "landing_env \<Rightarrow> 'l lease_api \<Rightarrow> string \<Rightarrow> string \<Rightarrow> 'l landing_state \<Rightarrow> 'l landing_state" where
  "runnerExited env api lid detail s0 =
     (let s = load_queue s0
      in case find_launch lid s of None \<Rightarrow> s
         | Some launch \<Rightarrow>
             let run = (case ll_runId launch of None \<Rightarrow> None | Some r \<Rightarrow> find_run r s);
                 s1 = (case run of
                     Some r \<Rightarrow> if lr_state r = RunRunning then
                         releaseLease env api (ll_target launch)
                           (recordFailure env r (''The landing run on '' @ machine env (lr_hostId r)
                               @ '' stopped before reporting ('' @ detail @ '').'')
                             (abandon env r (''its runner exited ('' @ detail @ '')'') s))
                       else save_queue (set_launch lid (\<lambda>l. if ll_endedAt l = None
                              then l\<lparr>ll_endedAt := Some (ev_now env)\<rparr> else l) s)
                   | None \<Rightarrow> if ll_runId launch = None \<and> \<not> launch_ended launch then
                         launchFailed env api launch (''The landing runner on '' @ machine env (ll_hostId launch)
                           @ '' exited ('' @ detail @ '').'') s
                       else save_queue (set_launch lid (\<lambda>l. if ll_endedAt l = None
                              then l\<lparr>ll_endedAt := Some (ev_now env)\<rparr> else l) s))
             in pumpSoon (ll_key launch) s1)"

section \<open>The sweep\<close>

definition sweep_run :: "landing_env \<Rightarrow> 'l lease_api \<Rightarrow> landing_run \<Rightarrow> 'l landing_state \<Rightarrow> 'l landing_state" where
  "sweep_run env api run s =
     (if \<not> la_holds api (landingLeaseKey (lr_target run)) (lr_ownerSessionId run) (ev_now env) (lq_leases s) then
        abandon env run ''it lost the port lease'' s
      else if ev_now env - lr_heartbeatAt run > LANDING_RUN_RECLAIM_MS then
        releaseLease env api (lr_target run)
          (recordFailure env run (''The landing run on '' @ machine env (lr_hostId run) @ '' stopped reporting.'')
            (abandon env run ''it stopped reporting'' s))
      else s)"

definition sweep_launch :: "landing_env \<Rightarrow> 'l lease_api \<Rightarrow> landing_launch \<Rightarrow> 'l landing_state \<Rightarrow> 'l landing_state" where
  "sweep_launch env api launch s =
     (if ll_key launch \<in> fst ` set (lq_launching s) then s
      else if \<not> la_holds api (landingLeaseKey (ll_target launch)) (landingQueueOwnerId (ll_target launch)) (ev_now env) (lq_leases s) then
        save_queue (end_launch env (ll_id launch) s)
      else if ev_now env - ll_launchedAt launch > LAUNCH_CLAIM_TIMEOUT_MS then
        launchFailed env api launch (''The landing runner on '' @ machine env (ll_hostId launch) @ '' did not start its run.'') s
      else s)"

definition waiting_keys :: "'l landing_state \<Rightarrow> string list" where
  "waiting_keys s = rev (remdups (rev
     (map le_key (filter (\<lambda>e. le_state e = Pending) (lq_entries s))
      @ map lr_key (filter (\<lambda>r. isUnreconciled r \<or> lr_state r = RunRunning) (lq_runs s))
      @ map ll_key (filter (\<lambda>l. \<not> launch_ended l) (lq_launches s)))))"

definition sweep_locked :: "landing_env \<Rightarrow> 'l lease_api \<Rightarrow> 'l landing_state \<Rightarrow> 'l landing_state" where
  "sweep_locked env api s =
     (let s1 = fold (sweep_run env api) (filter (\<lambda>r. lr_state r = RunRunning) (lq_runs s)) s;
          s2 = fold (sweep_launch env api) (filter (\<lambda>l. \<not> launch_ended l \<and> ll_runId l = None) (lq_launches s1)) s1
      in prune env s2)"

text \<open>The sweep pumps the queues one after another: one task that stops at the first error.\<close>

definition sweep :: "landing_env \<Rightarrow> 'l lease_api \<Rightarrow> 'l landing_state \<Rightarrow> 'l landing_state" where
  "sweep env api s0 = (let s = sweep_locked env api (load_queue s0) in later (Pump (waiting_keys s)) s)"

section \<open>Starting runners\<close>

text \<open>The end of \<open>planLaunch\<close>, once the queue holds the port lease.\<close>

definition launch_at ::
  "landing_env \<Rightarrow> 'l lease_api \<Rightarrow> string \<Rightarrow> string \<Rightarrow> string \<Rightarrow> landing_target \<Rightarrow> landing_entry list \<Rightarrow> landing_run list \<Rightarrow>
    (runner_request option, 'l) landing_op" where
  "launch_at env api fresh token key target pending unreconciled s =
     (case pickMachine pending unreconciled (case lq_trouble s key of Some tr \<Rightarrow> qt_failures tr | None \<Rightarrow> 0) s of
        None \<Rightarrow> (Inr None, releaseLease env api target
          (recordFailureFor env key pending ''No waiting change says where its repository is checked out.'' s))
      | Some (hostId, baseCheckout) \<Rightarrow>
          let (request, s1) = newLaunch env fresh token target hostId baseCheckout None s;
              s2 = save_queue s1
          in (Inr (Some request), s2\<lparr>lq_launching := (key, request) # lq_launching s2\<rparr>))"

definition acquire_and_launch ::
  "landing_env \<Rightarrow> 'l lease_api \<Rightarrow> string \<Rightarrow> string \<Rightarrow> string \<Rightarrow> landing_target \<Rightarrow> landing_entry list \<Rightarrow> landing_run list \<Rightarrow>
    (runner_request option, 'l) landing_op" where
  "acquire_and_launch env api fresh token key target pending unreconciled s =
     (if la_holds api (landingLeaseKey target) (landingQueueOwnerId target) (ev_now env) (lq_leases s)
      then launch_at env api fresh token key target pending unreconciled s
      else let (result, l1) = la_acquire api (queue_acquire_input target (Some True)) (ev_now env) (lq_leases s);
               s1 = s\<lparr>lq_leases := l1\<rparr>
           in case result of
                Inl e \<Rightarrow> (Inl (LeaseFailure e), s1)
              | Inr (Queued _ _ _) \<Rightarrow> (Inr None, s1)
              | Inr _ \<Rightarrow> launch_at env api fresh token key target pending unreconciled s1)"

definition planLaunch ::
  "landing_env \<Rightarrow> 'l lease_api \<Rightarrow> string \<Rightarrow> string \<Rightarrow> string \<Rightarrow> (runner_request option, 'l) landing_op" where
  "planLaunch env api fresh token key s0 =
     (let s = load_queue s0;
          pending = sort_key le_submittedAt (pending_of key s);
          unreconciled = unreconciled_of key s;
          target = (case pending of e # _ \<Rightarrow> Some (le_target e)
                    | [] \<Rightarrow> (case unreconciled of r # _ \<Rightarrow> Some (lr_target r) | [] \<Rightarrow> None))
      in if \<not> ev_canLaunch env \<or> key \<in> fst ` set (lq_launching s) then (Inr None, s)
         else if active_run key s \<noteq> None then (Inr None, s)
         else case target of
           None \<Rightarrow> (Inr None, set_trouble key None (releaseLease env api (landingTargetFromKey key) s))
         | Some t \<Rightarrow>
             if list_ex (\<lambda>l. ll_key l = key \<and> \<not> launch_ended l \<and> ll_runId l = None) (lq_launches s) then (Inr None, s)
             else if (case lq_trouble s key of Some tr \<Rightarrow> ev_now env < qt_retryAt tr | None \<Rightarrow> False) then (Inr None, s)
             else
               acquire_and_launch env api fresh token key t pending unreconciled s)"

text \<open>
  The end of \<open>pump\<close>: the promise of \<open>launchRunner\<close> settles. A rejection ends the launch and
  counts as a failure; either way the queue is no longer starting a runner.
\<close>

definition launch_settled ::
  "landing_env \<Rightarrow> 'l lease_api \<Rightarrow> string \<Rightarrow> string option \<Rightarrow> 'l landing_state \<Rightarrow> 'l landing_state" where
  "launch_settled env api key failure s =
     (case map_of (lq_launching s) key of None \<Rightarrow> s
      | Some request \<Rightarrow>
          let s1 = (case failure of None \<Rightarrow> s
                | Some err \<Rightarrow> (case find_launch (rn_launchId request) s of
                      Some l \<Rightarrow> if launch_ended l then s
                        else launchFailed env api l (''The landing runner could not start on ''
                               @ machine env (rn_hostId request) @ '': '' @ err) s
                    | None \<Rightarrow> s))
          in s1\<lparr>lq_launching := filter (\<lambda>p. fst p \<noteq> key) (lq_launching s1)\<rparr>)"

definition onLeasePromoted :: "lease \<Rightarrow> 'l landing_state \<Rightarrow> 'l landing_state" where
  "onLeasePromoted l s = pumpSoon (drop (length LANDING_QUEUE_OWNER_PREFIX) (lease_ownerSessionId l)) s"

definition withdrawSessionWaiters :: "'l lease_api \<Rightarrow> 'l landing_state \<Rightarrow> 'l landing_state" where
  "withdrawSessionWaiters api s =
     s\<lparr>lq_leases := fold (\<lambda>e l. snd (la_withdraw api (landingLeaseKey (le_target e)) (le_sessionId e) l))
        (filter unresolved (lq_entries s)) (lq_leases s)\<rparr>"

definition start :: "landing_env \<Rightarrow> 'l lease_api \<Rightarrow> 'l landing_state \<Rightarrow> 'l landing_state" where
  "start env api s0 =
     (let s = load_queue s0
      in sweep env api (withdrawSessionWaiters api (s\<lparr>lq_leases := la_register api LANDING_QUEUE_OWNER_PREFIX (lq_leases s)\<rparr>)))"

section \<open>Messages\<close>

definition report_extras :: "run_report \<Rightarrow> string list" where
  "report_extras report =
     (if rp_flaky report = [] then []
      else [''Flaky (failed, then passed on rerun): '' @ join_with '', '' (take 10 (rp_flaky report))])
     @ (if rp_preexisting report = [] then []
        else [''Already failing on the target, not blamed on this batch: '' @ join_with '', '' (take 10 (rp_preexisting report))])"

definition resultMessage :: "landing_env \<Rightarrow> landing_entry \<Rightarrow> landing_run \<Rightarrow> run_report \<Rightarrow> string" where
  "resultMessage env e run report =
     (let quest = (case truthy (le_questId e) of None \<Rightarrow> [] | Some q \<Rightarrow> '' for '' @ q);
          branch = lt_branch (le_target e);
          place = branch @ '' (run '' @ lr_id run @ '' on '' @ machine env (lr_hostId run)
            @ (case truthy (lr_logPath run) of None \<Rightarrow> [] | Some p \<Rightarrow> '', log '' @ p) @ '')''
      in join_with nl
        (if le_state e = Landed then
           [LANDING_QUEUE_MESSAGE_TAG @ '' Your change'' @ quest @ '' landed on '' @ place @ ''.'', [],
            ''Target SHAs in order: '' @ join_with '','' (map cm_target (case le_mapping e of None \<Rightarrow> [] | Some m \<Rightarrow> m))]
           @ report_extras report
           @ [[], ''Before more work in this worktree, reset it to origin/'' @ branch @ ''.'']
         else
           [LANDING_QUEUE_MESSAGE_TAG @ '' Your change'' @ quest @ '' bounced from '' @ place @ '' and did not land.'', [],
            ''Reason: '' @ (case le_reason e of None \<Rightarrow> ''undefined'' | Some r \<Rightarrow> r)]
           @ (case truthy (le_details e) of None \<Rightarrow> [] | Some d \<Rightarrow> [[], ''```'', last_n 3000 d, ''```''])
           @ report_extras report
           @ [[], ''Fix it (or rebase onto origin/'' @ branch @ ''), rerun `takode land test`, re-prepare and seal if you use port tracking, then `takode land submit` again. `takode land resume ''
              @ le_id e @ ''` restores the change in a worktree that no longer has it.'']))"

definition announce_effects :: "landing_env \<Rightarrow> landing_run \<Rightarrow> run_report \<Rightarrow> landing_entry \<Rightarrow> landing_effect list" where
  "announce_effects env run report e = (case ev_onResolved env of
       None \<Rightarrow> [Notify (le_sessionId e) (resultMessage env e run report)]
     | Some handled \<Rightarrow> EntryResolved e # (if handled e then []
         else [Notify (le_sessionId e) (resultMessage env e run report)]))"

text \<open>Running the deferred task at a position of the list.\<close>

definition run_task ::
  "landing_env \<Rightarrow> 'l lease_api \<Rightarrow> string \<Rightarrow> string \<Rightarrow> nat \<Rightarrow> 'l landing_state \<Rightarrow> 'l landing_state" where
  "run_task env api fresh token i s =
     (if i < length (lq_background s) then
        let rest = s\<lparr>lq_background := take i (lq_background s) @ drop (Suc i) (lq_background s)\<rparr>
        in case lq_background s ! i of
             Pump [] \<Rightarrow> rest
           | Pump (key # keys) \<Rightarrow> (case planLaunch env api fresh token key rest of
                 (Inl e, s1) \<Rightarrow> s1
               | (Inr _, s1) \<Rightarrow> if keys = [] then s1 else later (Pump keys) s1)
           | Announce es run report \<Rightarrow> queue_log (concat (map (announce_effects env run report) es)) rest
      else s)"

end
