(* ===== verification/Landing_Invariant.thy ===== *)
theory Landing_Invariant
  imports Landing_Manager
begin

text \<open>
  The invariant of the landing queue, the effect of its elementary updates on it, and its
  preservation by every operation of the manager.
\<close>

section \<open>Updating by identifier\<close>

lemma update_first_map:
  "distinct (map h xs) \<Longrightarrow> update_first (\<lambda>x. h x = i) f xs = map (\<lambda>x. if h x = i then f x else x) xs"
proof (induction xs)
  case (Cons a xs)
  then have "map (\<lambda>x. if h x = h a then f x else x) xs = xs"
    by (intro map_idI) (auto simp: image_iff)
  with Cons show ?case by (cases "h a = i") auto
qed simp

lemma map_update_first: "(\<And>x. h (f x) = h x) \<Longrightarrow> map h (update_first P f xs) = map h xs"
  by (induction xs) auto

lemma find_by_id:
  "distinct (map h xs) \<Longrightarrow> List.find (\<lambda>x. h x = i) xs = Some x \<longleftrightarrow> x \<in> set xs \<and> h x = i"
proof (induction xs)
  case (Cons a xs)
  then show ?case by (auto simp: image_iff)
qed simp

lemma distinct_by: "distinct (map h xs) \<Longrightarrow> x \<in> set xs \<Longrightarrow> y \<in> set xs \<Longrightarrow> h x = h y \<Longrightarrow> x = y"
  by (auto simp: distinct_map inj_on_def)

section \<open>Well-formed queues\<close>

text \<open>A run is open while it runs, and after it was abandoned with a plan nobody checked yet.\<close>

definition open_run :: "landing_run \<Rightarrow> bool" where
  "open_run r \<longleftrightarrow> lr_state r = RunRunning \<or> isUnreconciled r"

text \<open>
  Identifiers are unique; at most one run of a queue is running; a session has at most one
  unresolved entry; an open run has at most eight distinct entries, which are exactly the entries
  marked as running in it; keys agree with targets.
\<close>

definition runs_ok :: "landing_run list \<Rightarrow> bool" where
  "runs_ok rs \<longleftrightarrow> distinct (map lr_id rs)
     \<and> (\<forall>r \<in> set rs. \<forall>r' \<in> set rs. lr_state r = RunRunning \<and> lr_state r' = RunRunning \<and> lr_key r = lr_key r' \<longrightarrow> r = r')
     \<and> (\<forall>r \<in> set rs. open_run r \<longrightarrow> distinct (lr_entryIds r) \<and> length (lr_entryIds r) \<le> LANDING_BATCH_LIMIT)
     \<and> (\<forall>r \<in> set rs. lr_state r = RunRunning \<longrightarrow> (case lr_plan r of None \<Rightarrow> True | Some p \<Rightarrow> \<not> pp_reconciled p))"

definition entries_ok :: "landing_entry list \<Rightarrow> bool" where
  "entries_ok es \<longleftrightarrow> distinct (map le_id es)
     \<and> (\<forall>e \<in> set es. \<forall>e' \<in> set es. unresolved e \<and> unresolved e' \<and> le_sessionId e = le_sessionId e' \<longrightarrow> e = e')
     \<and> (\<forall>e \<in> set es. le_key e = landingQueueKey (le_target e))"

definition runs_entries_ok :: "landing_entry list \<Rightarrow> landing_run list \<Rightarrow> bool" where
  "runs_entries_ok es rs \<longleftrightarrow>
     (\<forall>r \<in> set rs. open_run r \<longrightarrow> (\<forall>i \<in> set (lr_entryIds r).
        \<exists>e \<in> set es. le_id e = i \<and> le_state e = Running \<and> le_runId e = Some (lr_id r) \<and> le_key e = lr_key r))
     \<and> (\<forall>e \<in> set es. le_state e = Running \<longrightarrow>
        (\<exists>r \<in> set rs. open_run r \<and> le_runId e = Some (lr_id r) \<and> le_id e \<in> set (lr_entryIds r)))"

definition launches_ok :: "landing_launch list \<Rightarrow> bool" where
  "launches_ok ls \<longleftrightarrow> distinct (map ll_id ls)"

definition queue_inv :: "landing_entry list \<Rightarrow> landing_run list \<Rightarrow> landing_launch list \<Rightarrow> bool" where
  "queue_inv es rs ls \<longleftrightarrow> entries_ok es \<and> runs_ok rs \<and> runs_entries_ok es rs \<and> launches_ok ls"

abbreviation queue_ok_state :: "'l landing_state \<Rightarrow> bool" where
  "queue_ok_state s \<equiv> queue_inv (lq_entries s) (lq_runs s) (lq_launches s)"

text \<open>What an update that keeps identity, owner and target of every entry may do to entries.\<close>

definition same_identity :: "(landing_entry \<Rightarrow> landing_entry) \<Rightarrow> bool" where
  "same_identity g \<longleftrightarrow> (\<forall>e. le_id (g e) = le_id e \<and> le_sessionId (g e) = le_sessionId e \<and> le_key (g e) = le_key e
     \<and> le_target (g e) = le_target e)"

lemma entries_ok_map:
  assumes "entries_ok es" and g: "same_identity g" and "\<forall>e \<in> set es. unresolved (g e) \<longrightarrow> unresolved e"
  shows "entries_ok (map g es)"
proof -
  have "map le_id (map g es) = map le_id es" using g by (simp add: same_identity_def)
  then show ?thesis
    using assms unfolding entries_ok_def same_identity_def by (simp only: set_map ball_simps) metis
qed

lemma open_run_lists:
  "queue_inv es rs ls \<Longrightarrow> r \<in> set rs \<Longrightarrow> open_run r \<Longrightarrow> i \<in> set (lr_entryIds r) \<Longrightarrow>
    \<exists>e \<in> set es. le_id e = i \<and> le_state e = Running \<and> le_runId e = Some (lr_id r) \<and> le_key e = lr_key r"
  unfolding queue_inv_def runs_entries_ok_def by blast

lemma running_entry_listed:
  "queue_inv es rs ls \<Longrightarrow> e \<in> set es \<Longrightarrow> le_state e = Running \<Longrightarrow>
    \<exists>r \<in> set rs. open_run r \<and> le_runId e = Some (lr_id r) \<and> le_id e \<in> set (lr_entryIds r)"
  unfolding queue_inv_def runs_entries_ok_def by blast

text \<open>The run of a running entry is the only open run that lists it.\<close>

lemma open_run_of_entry:
  assumes "queue_inv es rs ls" "r \<in> set rs" "open_run r" "e \<in> set es" "le_id e \<in> set (lr_entryIds r)"
  shows "le_state e = Running" "le_runId e = Some (lr_id r)"
proof -
  obtain e' where "e' \<in> set es" "le_id e' = le_id e" "le_state e' = Running" "le_runId e' = Some (lr_id r)"
    using open_run_lists [OF assms(1-3,5)] by blast
  moreover from this have "e' = e"
    using assms(1,4) distinct_by [of le_id es e' e] by (simp add: queue_inv_def entries_ok_def)
  ultimately show "le_state e = Running" "le_runId e = Some (lr_id r)" by simp_all
qed

text \<open>Closing an open run: its entries stop running, everything else stays.\<close>

lemma close_run_inv:
  assumes inv: "queue_inv es rs ls" and r: "r \<in> set rs" "open_run r"
    and r': "lr_id r' = lr_id r" "\<not> open_run r'"
    and g: "same_identity g" "\<forall>e \<in> set es. le_id e \<notin> set (lr_entryIds r) \<longrightarrow> g e = e"
      "\<forall>e \<in> set es. le_id e \<in> set (lr_entryIds r) \<longrightarrow> le_state (g e) \<noteq> Running"
  shows "queue_inv (map g es) (map (\<lambda>x. if lr_id x = lr_id r then r' else x) rs) ls"
proof -
  let ?rs = "map (\<lambda>x. if lr_id x = lr_id r then r' else x) rs"
  have d: "distinct (map lr_id rs)" using inv by (simp add: queue_inv_def runs_ok_def)
  have only: "x = r" if "x \<in> set rs" "lr_id x = lr_id r" for x using distinct_by [OF d that(1) r(1) that(2)] .
  have notrun: "lr_state r' \<noteq> RunRunning" using r'(2) by (simp add: open_run_def)
  have keep: "x \<in> set rs \<and> lr_id x \<noteq> lr_id r" if "x \<in> set ?rs" "open_run x" for x
    using that r'(2) by (auto split: if_splits)
  have ids: "map lr_id ?rs = map lr_id rs" using r'(1) by simp
  have runs: "runs_ok ?rs"
    unfolding runs_ok_def ids
  proof (intro conjI ballI impI)
    show "distinct (map lr_id rs)" by (rule d)
    show "x = y" if "x \<in> set ?rs" "y \<in> set ?rs" "lr_state x = RunRunning \<and> lr_state y = RunRunning \<and> lr_key x = lr_key y" for x y
      using keep [OF that(1)] keep [OF that(2)] that(3) inv by (auto simp: queue_inv_def runs_ok_def open_run_def)
    show "distinct (lr_entryIds x)" "length (lr_entryIds x) \<le> LANDING_BATCH_LIMIT" if "x \<in> set ?rs" "open_run x" for x
      using keep [OF that] that(2) inv by (auto simp: queue_inv_def runs_ok_def)
    show "case lr_plan x of None \<Rightarrow> True | Some p \<Rightarrow> \<not> pp_reconciled p" if "x \<in> set ?rs" "lr_state x = RunRunning" for x
      using keep [OF that(1)] that(2) inv by (auto simp: queue_inv_def runs_ok_def open_run_def)
  qed
  have un: "\<forall>e \<in> set es. unresolved (g e) \<longrightarrow> unresolved e"
  proof (intro ballI impI)
    fix e assume e: "e \<in> set es" "unresolved (g e)"
    show "unresolved e"
      using open_run_of_entry [OF inv r e(1)] g(2) e by (cases "le_id e \<in> set (lr_entryIds r)") (auto simp: unresolved_def)
  qed
  have ents: "entries_ok (map g es)" using inv g(1) un by (intro entries_ok_map) (simp_all add: queue_inv_def)
  have link: "runs_entries_ok (map g es) ?rs"
    unfolding runs_entries_ok_def
  proof (intro conjI ballI impI)
    fix x i assume x: "x \<in> set ?rs" "open_run x" and i: "i \<in> set (lr_entryIds x)"
    note k = keep [OF x]
    obtain e where e: "e \<in> set es" "le_id e = i" "le_state e = Running" "le_runId e = Some (lr_id x)" "le_key e = lr_key x"
      using open_run_lists [OF inv _ x(2) i] k by blast
    have "le_id e \<notin> set (lr_entryIds r)" using open_run_of_entry(2) [OF inv r e(1)] e(4) k by auto
    then have "g e = e" using g(2) e(1) by blast
    then show "\<exists>e \<in> set (map g es). le_id e = i \<and> le_state e = Running \<and> le_runId e = Some (lr_id x) \<and> le_key e = lr_key x"
      using e by (intro bexI [of _ e]) (auto intro: rev_image_eqI)
  next
    fix e' assume "e' \<in> set (map g es)" and run: "le_state e' = Running"
    then obtain e where e: "e \<in> set es" "e' = g e" by auto
    then have out: "le_id e \<notin> set (lr_entryIds r)" using g(3) run by auto
    then have "e' = e" using g(2) e by auto
    with run obtain x where x: "x \<in> set rs" "open_run x" "le_runId e = Some (lr_id x)" "le_id e \<in> set (lr_entryIds x)"
      using running_entry_listed [OF inv e(1)] by auto
    then have "lr_id x \<noteq> lr_id r" using only [of x] out by auto
    then show "\<exists>x \<in> set ?rs. open_run x \<and> le_runId e' = Some (lr_id x) \<and> le_id e' \<in> set (lr_entryIds x)"
      using x \<open>e' = e\<close> by (intro bexI [of _ x]) (auto intro: rev_image_eqI)
  qed
  show ?thesis using runs ents link inv by (simp add: queue_inv_def)
qed


text \<open>Changing an open run that stays open.\<close>

lemma keep_open_inv:
  assumes inv: "queue_inv es rs ls" and r: "r \<in> set rs" "open_run r"
    and r': "lr_id r' = lr_id r" "lr_key r' = lr_key r" "lr_entryIds r' = lr_entryIds r" "open_run r'"
      "lr_state r' = RunRunning \<Longrightarrow> lr_state r = RunRunning \<and> (case lr_plan r' of None \<Rightarrow> True | Some p \<Rightarrow> \<not> pp_reconciled p)"
  shows "queue_inv es (map (\<lambda>x. if lr_id x = lr_id r then r' else x) rs) ls"
proof -
  define F where "F = (\<lambda>x. if lr_id x = lr_id r then r' else x)"
  have d: "distinct (map lr_id rs)" using inv by (simp add: queue_inv_def runs_ok_def)
  have only: "x = r" if "x \<in> set rs" "lr_id x = lr_id r" for x using distinct_by [OF d that(1) r(1) that(2)] .
  have f: "lr_id (F x) = lr_id x" "lr_key (F x) = lr_key x" "lr_entryIds (F x) = lr_entryIds x"
    "open_run (F x) = open_run x" "lr_state (F x) = RunRunning \<Longrightarrow> lr_state x = RunRunning"
    "lr_state (F x) = RunRunning \<Longrightarrow> (case lr_plan (F x) of None \<Rightarrow> True | Some p \<Rightarrow> \<not> pp_reconciled p)"
    if "x \<in> set rs" for x
    using only [OF that] r r' inv that by (auto simp: F_def queue_inv_def runs_ok_def split: if_splits)
  have ids: "map lr_id (map F rs) = map lr_id rs" using f(1) by simp
  have R: "runs_ok rs" and link: "runs_entries_ok es rs" using inv by (simp_all add: queue_inv_def)
  have "runs_ok (map F rs)"
    unfolding runs_ok_def ids
  proof (intro conjI ballI impI)
    show "distinct (map lr_id rs)" by (rule d)
    show "x = y" if xy: "x \<in> set (map F rs)" "y \<in> set (map F rs)"
      "lr_state x = RunRunning \<and> lr_state y = RunRunning \<and> lr_key x = lr_key y" for x y
    proof -
      obtain a b where ab: "a \<in> set rs" "x = F a" "b \<in> set rs" "y = F b" using xy(1,2) unfolding set_map by blast
      then have "lr_state a = RunRunning" "lr_state b = RunRunning" "lr_key a = lr_key b"
        using xy(3) f(2) [OF ab(1)] f(2) [OF ab(3)] f(5) [OF ab(1)] f(5) [OF ab(3)] ab(2,4) by simp_all
      then have "a = b" using R ab(1,3) by (auto simp: runs_ok_def)
      then show "x = y" using ab by simp
    qed
    show "distinct (lr_entryIds x)" "length (lr_entryIds x) \<le> LANDING_BATCH_LIMIT" if x: "x \<in> set (map F rs)" "open_run x" for x
    proof -
      obtain a where a: "a \<in> set rs" "x = F a" using x(1) unfolding set_map by blast
      then have "open_run a" using x(2) f(4) by metis
      then show "distinct (lr_entryIds x)" "length (lr_entryIds x) \<le> LANDING_BATCH_LIMIT"
        using R a f(3) [OF a(1)] unfolding runs_ok_def by metis+
    qed
    show "case lr_plan x of None \<Rightarrow> True | Some p \<Rightarrow> \<not> pp_reconciled p" if "x \<in> set (map F rs)" "lr_state x = RunRunning" for x
      using that f(6) unfolding set_map by blast
  qed
  moreover have "runs_entries_ok es (map F rs)"
    unfolding runs_entries_ok_def
  proof (intro conjI ballI impI)
    fix x i assume x: "x \<in> set (map F rs)" "open_run x" "i \<in> set (lr_entryIds x)"
    obtain a where a: "a \<in> set rs" "x = F a" using x(1) unfolding set_map by blast
    then have "open_run a" "i \<in> set (lr_entryIds a)" "lr_id x = lr_id a" "lr_key x = lr_key a"
      using x(2,3) f(1-4) by metis+
    then show "\<exists>e \<in> set es. le_id e = i \<and> le_state e = Running \<and> le_runId e = Some (lr_id x) \<and> le_key e = lr_key x"
      using open_run_lists [OF inv a(1)] by simp
  next
    fix e assume "e \<in> set es" "le_state e = Running"
    then obtain x where x: "x \<in> set rs" "open_run x" "le_runId e = Some (lr_id x)" "le_id e \<in> set (lr_entryIds x)"
      using running_entry_listed [OF inv] by blast
    then have "open_run (F x)" "le_runId e = Some (lr_id (F x))" "le_id e \<in> set (lr_entryIds (F x))"
      using f(1,3,4) by metis+
    then show "\<exists>x \<in> set (map F rs). open_run x \<and> le_runId e = Some (lr_id x) \<and> le_id e \<in> set (lr_entryIds x)"
      using x(1) unfolding set_map by blast
  qed
  ultimately show ?thesis using inv by (simp add: queue_inv_def F_def)
qed

text \<open>A new entry, a withdrawn entry, a new run.\<close>

lemma submit_inv:
  assumes inv: "queue_inv es rs ls" and e: "le_id e \<notin> le_id ` set es" "le_state e = Pending"
      "le_key e = landingQueueKey (le_target e)" "\<forall>x \<in> set es. le_sessionId x = le_sessionId e \<longrightarrow> \<not> unresolved x"
  shows "queue_inv (es @ [e]) rs ls"
proof -
  have "entries_ok (es @ [e])"
    using inv e unfolding queue_inv_def entries_ok_def by auto
  moreover have "runs_entries_ok (es @ [e]) rs"
    using inv e(2) unfolding queue_inv_def runs_entries_ok_def by fastforce
  ultimately show ?thesis using inv by (simp add: queue_inv_def)
qed

lemma resolve_pending_inv:
  assumes inv: "queue_inv es rs ls" and g: "same_identity g"
    and p: "\<forall>e \<in> set es. g e = e \<or> le_state e = Pending \<and> le_state (g e) \<noteq> Running"
  shows "queue_inv (map g es) rs ls"
proof -
  have "entries_ok (map g es)"
    using inv g p by (intro entries_ok_map) (auto simp: queue_inv_def unresolved_def)
  moreover have "runs_entries_ok (map g es) rs"
    unfolding runs_entries_ok_def
  proof (intro conjI ballI impI)
    fix r i assume r: "r \<in> set rs" "open_run r" "i \<in> set (lr_entryIds r)"
    obtain e where e: "e \<in> set es" "le_id e = i" "le_state e = Running" "le_runId e = Some (lr_id r)" "le_key e = lr_key r"
      using open_run_lists [OF inv r] by blast
    moreover from this have "g e = e" using p by auto
    ultimately show "\<exists>e \<in> set (map g es). le_id e = i \<and> le_state e = Running \<and> le_runId e = Some (lr_id r) \<and> le_key e = lr_key r"
      by (intro bexI [of _ e]) (auto intro: rev_image_eqI)
  next
    fix e' assume "e' \<in> set (map g es)" "le_state e' = Running"
    then obtain e where "e \<in> set es" "e' = e" "le_state e = Running" using p by auto
    then show "\<exists>r \<in> set rs. open_run r \<and> le_runId e' = Some (lr_id r) \<and> le_id e' \<in> set (lr_entryIds r)"
      using running_entry_listed [OF inv] by blast
  qed
  ultimately show ?thesis using inv by (simp add: queue_inv_def)
qed

lemma new_run_inv:
  assumes inv: "queue_inv es rs ls" and r: "lr_id r \<notin> lr_id ` set rs" "lr_state r = RunRunning" "lr_plan r = None"
      "\<forall>x \<in> set rs. lr_state x = RunRunning \<longrightarrow> lr_key x \<noteq> lr_key r"
      "distinct (lr_entryIds r)" "length (lr_entryIds r) \<le> LANDING_BATCH_LIMIT"
    and ids: "\<forall>i \<in> set (lr_entryIds r). \<exists>e \<in> set es. le_id e = i \<and> le_state e = Pending \<and> le_key e = lr_key r"
  shows "queue_inv (map (\<lambda>x. if le_id x \<in> set (lr_entryIds r) then x\<lparr>le_state := Running, le_runId := Some (lr_id r)\<rparr> else x) es)
    (rs @ [r]) ls"
proof -
  let ?g = "\<lambda>x. if le_id x \<in> set (lr_entryIds r) then x\<lparr>le_state := Running, le_runId := Some (lr_id r)\<rparr> else x"
  have d: "distinct (map le_id es)" using inv by (simp add: queue_inv_def entries_ok_def)
  have pend: "le_state e = Pending" "le_key e = lr_key r" if "e \<in> set es" "le_id e \<in> set (lr_entryIds r)" for e
    using ids that distinct_by [OF d] by metis+
  have "entries_ok (map ?g es)"
    using inv pend(1) by (intro entries_ok_map) (auto simp: queue_inv_def same_identity_def unresolved_def)
  moreover have "runs_ok (rs @ [r])"
    using inv r unfolding queue_inv_def runs_ok_def by auto
  moreover have "runs_entries_ok (map ?g es) (rs @ [r])"
    unfolding runs_entries_ok_def
  proof (intro conjI ballI impI)
    fix x i assume x: "x \<in> set (rs @ [r])" "open_run x" "i \<in> set (lr_entryIds x)"
    show "\<exists>e \<in> set (map ?g es). le_id e = i \<and> le_state e = Running \<and> le_runId e = Some (lr_id x) \<and> le_key e = lr_key x"
    proof (cases "x = r")
      case True
      then obtain e where "e \<in> set es" "le_id e = i" using ids x(3) by blast
      then show ?thesis using True x(3) pend(2) [of e] by (intro bexI [of _ "?g e"]) auto
    next
      case False
      then have "x \<in> set rs" using x(1) by simp
      from open_run_lists [OF inv this x(2,3)]
      obtain e where e: "e \<in> set es" "le_id e = i" "le_state e = Running" "le_runId e = Some (lr_id x)" "le_key e = lr_key x"
        by blast
      then have "?g e = e" using pend(1) [of e] by auto
      then have "e \<in> set (map ?g es)" using imageI [OF e(1), of ?g] by (simp only: set_map)
      then show ?thesis using e(2-5) by blast
    qed
  next
    fix e' assume e': "e' \<in> set (map ?g es)" "le_state e' = Running"
    then obtain e where e: "e \<in> set es" "e' = ?g e" unfolding set_map by blast
    show "\<exists>x \<in> set (rs @ [r]). open_run x \<and> le_runId e' = Some (lr_id x) \<and> le_id e' \<in> set (lr_entryIds x)"
    proof (cases "le_id e \<in> set (lr_entryIds r)")
      case True
      then show ?thesis using e r(2) by (intro bexI [of _ r]) (auto simp: open_run_def)
    next
      case False
      then have "e' = e" using e(2) by simp
      then show ?thesis using running_entry_listed [OF inv e(1)] e'(2) by auto
    qed
  qed
  ultimately show ?thesis using inv by (simp add: queue_inv_def)
qed

text \<open>Dropping history: open runs and unresolved entries stay.\<close>

lemma prune_queue_inv:
  assumes inv: "queue_inv es rs ls" and es': "es' = filter P es" "\<forall>e \<in> set es. unresolved e \<longrightarrow> P e"
    and rs': "distinct (map lr_id rs')" "set rs' \<subseteq> set rs" "\<forall>r \<in> set rs. open_run r \<longrightarrow> r \<in> set rs'"
    and ls': "distinct (map ll_id ls')"
  shows "queue_inv es' rs' ls'"
proof -
  have "entries_ok es'" using inv unfolding es' queue_inv_def entries_ok_def by (auto simp: distinct_map_filter)
  moreover have "runs_ok rs'" using inv rs'(1,2) unfolding queue_inv_def runs_ok_def by (meson subsetD)
  moreover have "runs_entries_ok es' rs'"
    unfolding runs_entries_ok_def
  proof (intro conjI ballI impI)
    fix r i assume r: "r \<in> set rs'" "open_run r" "i \<in> set (lr_entryIds r)"
    then have "r \<in> set rs" using rs'(2) by blast
    from open_run_lists [OF inv this r(2,3)] es'(2)
    show "\<exists>e \<in> set es'. le_id e = i \<and> le_state e = Running \<and> le_runId e = Some (lr_id r) \<and> le_key e = lr_key r"
      unfolding es'(1) by (auto simp: unresolved_def)
  next
    fix e assume "e \<in> set es'" "le_state e = Running"
    then show "\<exists>r \<in> set rs'. open_run r \<and> le_runId e = Some (lr_id r) \<and> le_id e \<in> set (lr_entryIds r)"
      using running_entry_listed [OF inv, of e] rs'(3) unfolding es'(1) by auto
  qed
  ultimately show ?thesis using ls' by (simp add: queue_inv_def launches_ok_def)
qed

section \<open>States between operations\<close>

definition file_inv :: "landing_file option \<Rightarrow> bool" where
  "file_inv f \<longleftrightarrow> queue_inv (lf_entries (load_file f)) (lf_runs (load_file f)) (lf_launches (load_file f))"

definition landing_inv :: "'l landing_state \<Rightarrow> bool" where
  "landing_inv s \<longleftrightarrow> file_inv (lq_disk s) \<and> (lq_loaded s \<longrightarrow> queue_ok_state s)"

text \<open>A loaded state that satisfies the invariant.\<close>

definition ready :: "'l landing_state \<Rightarrow> bool" where
  "ready s \<longleftrightarrow> landing_inv s \<and> lq_loaded s"

lemma ready_landing_inv: "ready s \<Longrightarrow> landing_inv s"
  by (simp add: ready_def)

lemma ready_ok: "ready s \<Longrightarrow> queue_ok_state s"
  by (simp add: ready_def landing_inv_def)

lemma load_queue_ready: "landing_inv s \<Longrightarrow> ready (load_queue s)"
  by (simp add: ready_def landing_inv_def load_queue_def file_inv_def Let_def)

lemma ready_loaded: "ready s \<Longrightarrow> load_queue s = s"
  by (simp add: ready_def load_queue_def)

text \<open>Steps that touch neither the queue nor the file.\<close>

definition same_queue :: "'l landing_state \<Rightarrow> 'l landing_state \<Rightarrow> bool" where
  "same_queue s s' \<longleftrightarrow> lq_entries s' = lq_entries s \<and> lq_runs s' = lq_runs s \<and> lq_launches s' = lq_launches s
     \<and> lq_disk s' = lq_disk s \<and> lq_loaded s' = lq_loaded s"

lemma same_queue_ready: "same_queue s s' \<Longrightarrow> ready s' \<longleftrightarrow> ready s"
  by (simp add: same_queue_def ready_def landing_inv_def)

lemma same_queue_simps [simp]:
  "same_queue s (releaseLease env api t s)" "same_queue s (queue_log es s)" "same_queue s (later task s)"
  "same_queue s (pumpSoon key s)" "same_queue s (set_trouble key tr s)" "same_queue s (republishRun run s)"
  "same_queue s (recordFailureFor env key entries m s)" "same_queue s (recordFailure env run m s)"
  "same_queue s (s\<lparr>lq_leases := l\<rparr>)" "same_queue s (s\<lparr>lq_launching := ps\<rparr>)" "same_queue s (s\<lparr>lq_background := ts\<rparr>)"
  by (simp_all add: same_queue_def releaseLease_def queue_log_def later_def pumpSoon_def set_trouble_def republishRun_def
      recordFailureFor_def recordFailure_def Let_def)

lemma ready_same [simp]:
  "ready (releaseLease env api t s) = ready s" "ready (queue_log es s) = ready s" "ready (later task s) = ready s"
  "ready (pumpSoon key s) = ready s" "ready (set_trouble key tr s) = ready s" "ready (republishRun run s) = ready s"
  "ready (recordFailureFor env key entries m s) = ready s" "ready (recordFailure env run m s) = ready s"
  "ready (s\<lparr>lq_leases := l\<rparr>) = ready s" "ready (s\<lparr>lq_launching := ps\<rparr>) = ready s" "ready (s\<lparr>lq_background := ts\<rparr>) = ready s"
  by (rule same_queue_ready, simp)+

lemma queue_fields [simp]:
  "lq_entries (releaseLease env api t s) = lq_entries s" "lq_runs (releaseLease env api t s) = lq_runs s"
  "lq_launches (releaseLease env api t s) = lq_launches s"
  "lq_entries (recordFailureFor env key entries m s) = lq_entries s" "lq_runs (recordFailureFor env key entries m s) = lq_runs s"
  "lq_launches (recordFailureFor env key entries m s) = lq_launches s"
  "lq_entries (recordFailure env run m s) = lq_entries s" "lq_runs (recordFailure env run m s) = lq_runs s"
  "lq_launches (recordFailure env run m s) = lq_launches s"
  "lq_entries (set_trouble key tr s) = lq_entries s" "lq_runs (set_trouble key tr s) = lq_runs s"
  "lq_launches (set_trouble key tr s) = lq_launches s"
  "lq_entries (republishRun run s) = lq_entries s" "lq_runs (republishRun run s) = lq_runs s"
  "lq_launches (republishRun run s) = lq_launches s"
  "lq_entries (save_queue s) = lq_entries s" "lq_runs (save_queue s) = lq_runs s" "lq_launches (save_queue s) = lq_launches s"
  "lq_entries (pumpSoon key s) = lq_entries s" "lq_runs (pumpSoon key s) = lq_runs s"
  "lq_entries (later task s) = lq_entries s" "lq_runs (later task s) = lq_runs s"
  "lq_entries (queue_log es s) = lq_entries s" "lq_runs (queue_log es s) = lq_runs s"
  "lq_loaded (recordFailureFor env key entries m s) = lq_loaded s" "lq_loaded (recordFailure env run m s) = lq_loaded s"
  "lq_loaded (set_trouble key tr s) = lq_loaded s"
  by (simp_all add: releaseLease_def queue_log_def later_def pumpSoon_def set_trouble_def republishRun_def
      recordFailureFor_def recordFailure_def save_queue_def Let_def)

lemma ready_save: "lq_loaded s \<Longrightarrow> queue_ok_state s \<Longrightarrow> ready (save_queue s)"
  by (simp add: ready_def landing_inv_def file_inv_def save_queue_def load_file_def)

lemma ready_save_ready: "ready s \<Longrightarrow> ready (save_queue s)"
  by (rule ready_save) (simp_all add: ready_def landing_inv_def)

text \<open>Launches matter only by their identifiers.\<close>

lemma queue_inv_launches: "map ll_id ls' = map ll_id ls \<Longrightarrow> queue_inv es rs ls' = queue_inv es rs ls"
  by (simp add: queue_inv_def launches_ok_def)

lemma launch_ids [simp]:
  "map ll_id (lq_launches (end_launch env lid s)) = map ll_id (lq_launches s)"
  "map ll_id (lq_launches (endLaunchOf env run s)) = map ll_id (lq_launches s)"
  "map ll_id (lq_launches (end_open_launches env key s)) = map ll_id (lq_launches s)"
  "(\<And>l. ll_id (f l) = ll_id l) \<Longrightarrow> map ll_id (lq_launches (set_launch lid f s)) = map ll_id (lq_launches s)"
  by (auto simp: end_launch_def set_launch_def endLaunchOf_def end_open_launches_def map_update_first split: option.splits)

lemma launch_fields [simp]:
  "lq_entries (end_launch env lid s) = lq_entries s" "lq_runs (end_launch env lid s) = lq_runs s"
  "lq_disk (end_launch env lid s) = lq_disk s" "lq_loaded (end_launch env lid s) = lq_loaded s"
  "lq_entries (endLaunchOf env run s) = lq_entries s" "lq_runs (endLaunchOf env run s) = lq_runs s"
  "lq_disk (endLaunchOf env run s) = lq_disk s" "lq_loaded (endLaunchOf env run s) = lq_loaded s"
  "lq_entries (end_open_launches env key s) = lq_entries s" "lq_runs (end_open_launches env key s) = lq_runs s"
  "lq_disk (end_open_launches env key s) = lq_disk s" "lq_loaded (end_open_launches env key s) = lq_loaded s"
  "lq_entries (set_launch lid f s) = lq_entries s" "lq_runs (set_launch lid f s) = lq_runs s"
  "lq_disk (set_launch lid f s) = lq_disk s" "lq_loaded (set_launch lid f s) = lq_loaded s"
  by (auto simp: end_launch_def set_launch_def endLaunchOf_def end_open_launches_def split: option.splits)

lemma ready_launches:
  assumes "lq_entries s' = lq_entries s" "lq_runs s' = lq_runs s" "map ll_id (lq_launches s') = map ll_id (lq_launches s)"
    "lq_disk s' = lq_disk s" "lq_loaded s' = lq_loaded s"
  shows "ready s' = ready s"
  using queue_inv_launches [OF assms(3)] assms by (simp add: ready_def landing_inv_def)

lemma ready_launch_updates [simp]:
  "ready (end_launch env lid s) = ready s" "ready (endLaunchOf env run s) = ready s"
  "ready (end_open_launches env key s) = ready s"
  "(\<And>l. ll_id (f l) = ll_id l) \<Longrightarrow> ready (set_launch lid f s) = ready s"
  by (rule ready_launches; simp)+

lemma launchFailed_ready: "ready s \<Longrightarrow> ready (launchFailed env api l m s)"
  by (simp add: launchFailed_def Let_def ready_save_ready)

lemma newLaunch_ready:
  assumes "ready s" "''ll-'' @ fresh \<notin> ll_id ` set (lq_launches s)" "newLaunch env fresh token t h c who s = (rq, s')"
  shows "ready s'" "lq_entries s' = lq_entries s" "lq_runs s' = lq_runs s"
  using assms by (auto simp: newLaunch_def ready_def landing_inv_def queue_inv_def launches_ok_def Let_def)

section \<open>Runs that end\<close>

lemma set_run_map:
  assumes "ready s"
  shows "lq_runs (set_run rid f s) = map (\<lambda>r. if lr_id r = rid then f r else r) (lq_runs s)"
  using ready_ok [OF assms] by (simp add: set_run_def update_first_map queue_inv_def runs_ok_def)

lemma set_run_fields [simp]:
  "lq_entries (set_run rid f s) = lq_entries s" "lq_launches (set_run rid f s) = lq_launches s"
  "lq_disk (set_run rid f s) = lq_disk s" "lq_loaded (set_run rid f s) = lq_loaded s" "lq_leases (set_run rid f s) = lq_leases s"
  by (simp_all add: set_run_def)

lemma map_one:
  "distinct (map h xs) \<Longrightarrow> r \<in> set xs \<Longrightarrow>
    map (\<lambda>x. if h x = h r then f x else x) xs = map (\<lambda>x. if h x = h r then f r else x) xs"
  by (rule map_cong) (auto dest: distinct_by)

lemma abandon_data:
  assumes "ready s" "run \<in> set (lq_runs s)"
  shows "lq_runs (abandon env run why s) = map (\<lambda>x. if lr_id x = lr_id run then abandoned_run env why run else x) (lq_runs s)"
    "lq_entries (abandon env run why s) = (if lr_plan run = None
       then map (\<lambda>e. if le_id e \<in> set (lr_entryIds run) then e\<lparr>le_state := Pending, le_runId := None\<rparr> else e) (lq_entries s)
       else lq_entries s)"
    "map ll_id (lq_launches (abandon env run why s)) = map ll_id (lq_launches s)"
    "lq_loaded (abandon env run why s)"
proof -
  have d: "distinct (map lr_id (lq_runs s))" using ready_ok [OF assms(1)] by (simp add: queue_inv_def runs_ok_def)
  show "lq_runs (abandon env run why s) = map (\<lambda>x. if lr_id x = lr_id run then abandoned_run env why run else x) (lq_runs s)"
    using map_one [OF d assms(2)] by (simp add: abandon_def Let_def set_run_map [OF assms(1)] back_to_pending_def)
  show "lq_entries (abandon env run why s) = (if lr_plan run = None
       then map (\<lambda>e. if le_id e \<in> set (lr_entryIds run) then e\<lparr>le_state := Pending, le_runId := None\<rparr> else e) (lq_entries s)
       else lq_entries s)"
    "map ll_id (lq_launches (abandon env run why s)) = map ll_id (lq_launches s)"
    by (simp_all add: abandon_def Let_def back_to_pending_def)
  show "lq_loaded (abandon env run why s)"
    using assms(1) by (simp add: abandon_def Let_def back_to_pending_def republishRun_def queue_log_def save_queue_def ready_def)
qed

lemma abandon_ready:
  assumes s: "ready s" and r: "run \<in> set (lq_runs s)" "lr_state run = RunRunning"
  shows "ready (abandon env run why s)"
proof -
  note a = abandon_data [OF s r(1), of env why]
  have inv: "queue_ok_state s" using s by (rule ready_ok)
  have o: "open_run run" using r(2) by (simp add: open_run_def)
  have ok: "queue_ok_state (abandon env run why s)"
  proof (cases "lr_plan run")
    case None
    then show ?thesis
      unfolding a(1,2) queue_inv_launches [OF a(3)]
      by simp (intro close_run_inv [OF inv r(1) o],
        simp_all add: open_run_def isUnreconciled_def same_identity_def abandoned_run_def)
  next
    case (Some p)
    then have "\<not> pp_reconciled p"
      using inv r by (fastforce simp: queue_inv_def runs_ok_def)
    with Some show ?thesis
      unfolding a(1,2) queue_inv_launches [OF a(3)]
      by simp (intro keep_open_inv [OF inv r(1) o], simp_all add: open_run_def isUnreconciled_def abandoned_run_def)
  qed
  have "\<exists>t. abandon env run why s = republishRun run (save_queue t)" by (auto simp: abandon_def Let_def)
  then obtain t where t: "abandon env run why s = republishRun run (save_queue t)" ..
  have "queue_ok_state t" "lq_loaded t"
    using ok a(4) unfolding t by (simp_all add: republishRun_def queue_log_def save_queue_def)
  then show ?thesis unfolding t by (simp add: ready_save)
qed

section \<open>Outcomes\<close>

text \<open>What all outcomes of a report make of one entry.\<close>

definition outcome_step :: "number \<Rightarrow> string option \<Rightarrow> entry_outcome \<Rightarrow> landing_entry \<Rightarrow> landing_entry" where
  "outcome_step now tip oc e = (if le_id e = outcome_entry oc then apply_outcome now tip oc e else e)"

definition outcomes_of :: "number \<Rightarrow> string option \<Rightarrow> entry_outcome list \<Rightarrow> landing_entry \<Rightarrow> landing_entry" where
  "outcomes_of now tip ocs = fold (outcome_step now tip) ocs"

lemma apply_outcome_same [simp]:
  "le_id (apply_outcome now tip oc e) = le_id e" "le_sessionId (apply_outcome now tip oc e) = le_sessionId e"
  "le_key (apply_outcome now tip oc e) = le_key e" "le_target (apply_outcome now tip oc e) = le_target e"
  "le_state (apply_outcome now tip oc e) \<noteq> Running"
  by (cases oc; simp)+

lemma outcomes_of_same [simp]:
  "le_id (outcomes_of now tip ocs e) = le_id e" "le_sessionId (outcomes_of now tip ocs e) = le_sessionId e"
  "le_key (outcomes_of now tip ocs e) = le_key e" "le_target (outcomes_of now tip ocs e) = le_target e"
  by (induction ocs arbitrary: e) (simp_all add: outcomes_of_def outcome_step_def)

lemma outcomes_of_other: "le_id e \<notin> set (map outcome_entry ocs) \<Longrightarrow> outcomes_of now tip ocs e = e"
  by (induction ocs) (simp_all add: outcomes_of_def outcome_step_def)

lemma outcomes_of_not_running:
  "le_id e \<in> set (map outcome_entry ocs) \<or> le_state e \<noteq> Running \<Longrightarrow> le_state (outcomes_of now tip ocs e) \<noteq> Running"
  by (induction ocs arbitrary: e) (auto simp: outcomes_of_def outcome_step_def)

lemma outcomes_of_once:
  assumes "distinct (map outcome_entry ocs)" "oc \<in> set ocs" "outcome_entry oc = le_id e"
  shows "outcomes_of now tip ocs e = apply_outcome now tip oc e"
  using assms
proof (induction ocs arbitrary: e)
  case (Cons a ocs)
  show ?case
  proof (cases "a = oc")
    case True
    then have "le_id (apply_outcome now tip oc e) \<notin> set (map outcome_entry ocs)" using Cons.prems by auto
    from outcomes_of_other [OF this] show ?thesis
      using True Cons.prems by (simp add: outcomes_of_def outcome_step_def)
  next
    case False
    then have "outcome_entry a \<noteq> le_id e" using Cons.prems by (auto simp: image_iff)
    then show ?thesis using Cons False by (simp add: outcomes_of_def outcome_step_def)
  qed
qed simp

lemma outcomes_state_fields:
  "distinct (map le_id (lq_entries s)) \<Longrightarrow>
    lq_entries (outcomes_state now tip ocs s) = map (outcomes_of now tip ocs) (lq_entries s)
    \<and> lq_runs (outcomes_state now tip ocs s) = lq_runs s \<and> lq_launches (outcomes_state now tip ocs s) = lq_launches s
    \<and> lq_loaded (outcomes_state now tip ocs s) = lq_loaded s \<and> lq_leases (outcomes_state now tip ocs s) = lq_leases s"
proof (induction ocs arbitrary: s)
  case Nil
  then show ?case by (simp add: outcomes_state_def outcomes_of_def)
next
  case (Cons oc ocs)
  let ?t = "set_entry (outcome_entry oc) (apply_outcome now tip oc) s"
  have t: "lq_entries ?t = map (outcome_step now tip oc) (lq_entries s)"
    using Cons.prems by (simp add: set_entry_def update_first_map outcome_step_def)
  have "le_id \<circ> outcome_step now tip oc = le_id" by (auto simp: outcome_step_def)
  then have "distinct (map le_id (lq_entries ?t))" using Cons.prems by (simp add: t)
  note ih = Cons.IH [OF this]
  moreover have "outcomes_state now tip (oc # ocs) s = outcomes_state now tip ocs ?t" by (simp add: outcomes_state_def)
  ultimately show ?case by (simp add: t) (simp add: set_entry_def outcomes_of_def comp_def)
qed

lemmas outcomes_state_data = outcomes_state_fields [THEN conjunct1]
  outcomes_state_fields [THEN conjunct2, THEN conjunct1]
  outcomes_state_fields [THEN conjunct2, THEN conjunct2, THEN conjunct1]
  outcomes_state_fields [THEN conjunct2, THEN conjunct2, THEN conjunct2, THEN conjunct1]
  outcomes_state_fields [THEN conjunct2, THEN conjunct2, THEN conjunct2, THEN conjunct2]

text \<open>What a report makes of the entries, whichever entries it names.\<close>

lemma applyOutcomes_data:
  assumes s: "ready s" and t: "lq_entries t = lq_entries s"
  shows "lq_entries (applyOutcomes env x report t) = map (outcomes_of (ev_now env) (rp_pushedTip report) (rp_outcomes report)) (lq_entries s)"
    and "lq_runs (applyOutcomes env x report t) = lq_runs t" and "lq_loaded (applyOutcomes env x report t) = lq_loaded t"
proof -
  have "distinct (map le_id (lq_entries t))" using ready_ok [OF s] by (simp add: t queue_inv_def entries_ok_def)
  note os = outcomes_state_data [OF this, of "ev_now env" "rp_pushedTip report" "rp_outcomes report"]
  show "lq_entries (applyOutcomes env x report t) = map (outcomes_of (ev_now env) (rp_pushedTip report) (rp_outcomes report)) (lq_entries s)"
    and "lq_runs (applyOutcomes env x report t) = lq_runs t" and "lq_loaded (applyOutcomes env x report t) = lq_loaded t"
    by (simp_all add: applyOutcomes_def Let_def os t) (simp add: later_def republishRun_def queue_log_def save_queue_def os)
qed

text \<open>Settling an open run with a report about exactly its own entries.\<close>

lemma settle_ready:
  assumes s: "ready s" and r: "run \<in> set (lq_runs s)" "open_run run" and r': "lr_id r' = lr_id run" "\<not> open_run r'"
    and ocs: "set (map outcome_entry (rp_outcomes report)) = set (lr_entryIds run)"
    and t: "lq_entries t = lq_entries s" "lq_runs t = map (\<lambda>x. if lr_id x = lr_id run then r' else x) (lq_runs s)"
      "map ll_id (lq_launches t) = map ll_id (lq_launches s)" "lq_loaded t"
  shows "ready (applyOutcomes env x report t)"
    and "lq_entries (applyOutcomes env x report t) = map (outcomes_of (ev_now env) (rp_pushedTip report) (rp_outcomes report)) (lq_entries s)"
    and "lq_runs (applyOutcomes env x report t) = lq_runs t"
proof -
  let ?g = "outcomes_of (ev_now env) (rp_pushedTip report) (rp_outcomes report)"
  have inv: "queue_ok_state s" using s by (rule ready_ok)
  then have d: "distinct (map le_id (lq_entries t))" by (simp add: t queue_inv_def entries_ok_def)
  note os = outcomes_state_data [OF d, of "ev_now env" "rp_pushedTip report" "rp_outcomes report"]
  show "lq_entries (applyOutcomes env x report t) = map ?g (lq_entries s)"
    and "lq_runs (applyOutcomes env x report t) = lq_runs t"
    by (rule applyOutcomes_data [OF s t(1)])+
  have "queue_inv (map ?g (lq_entries s)) (map (\<lambda>x. if lr_id x = lr_id run then r' else x) (lq_runs s)) (lq_launches s)"
    by (rule close_run_inv [OF inv r r'])
      (use ocs in \<open>auto simp: same_identity_def intro!: outcomes_of_other outcomes_of_not_running\<close>)
  then have "queue_inv (map ?g (lq_entries s)) (lq_runs t) (lq_launches t)"
    using queue_inv_launches [OF t(3)] by (simp add: t(2))
  then show "ready (applyOutcomes env x report t)"
    by (simp add: applyOutcomes_def Let_def, intro ready_save) (simp_all add: os t)
qed

section \<open>Every operation keeps the invariant\<close>

lemma find_run_Some: "ready s \<Longrightarrow> find_run rid s = Some run \<longleftrightarrow> run \<in> set (lq_runs s) \<and> lr_id run = rid"
  by (simp add: find_run_def find_by_id [where h = lr_id] ready_def landing_inv_def queue_inv_def runs_ok_def)

lemma find_entry_Some: "ready s \<Longrightarrow> find_entry eid s = Some e \<longleftrightarrow> e \<in> set (lq_entries s) \<and> le_id e = eid"
  by (simp add: find_entry_def find_by_id [where h = le_id] ready_def landing_inv_def queue_inv_def entries_ok_def)

lemma find_member: "List.find P xs = Some x \<Longrightarrow> x \<in> set xs \<and> P x"
  by (auto simp: find_Some_iff)

lemma active_run_Some: "active_run key s = Some run \<Longrightarrow> run \<in> set (lq_runs s) \<and> lr_key run = key \<and> lr_state run = RunRunning"
  unfolding active_run_def by (drule find_member) simp

lemma active_run_None: "active_run key s = None \<longleftrightarrow> (\<forall>r \<in> set (lq_runs s). lr_state r = RunRunning \<longrightarrow> lr_key r \<noteq> key)"
  by (auto simp: active_run_def find_None_iff)

lemma ownedRunningRun_Inr:
  "ownedRunningRun rid runner s = Inr run \<Longrightarrow> ready s \<Longrightarrow>
    run \<in> set (lq_runs s) \<and> lr_id run = rid \<and> lr_state run = RunRunning \<and> lr_launchId run = Some (rc_launchId runner)"
  by (auto simp: ownedRunningRun_def find_run_Some split: option.splits if_splits run_state.splits)

lemma submit_ready:
  assumes "landing_inv s0" "''le-'' @ fresh \<notin> le_id ` set (lq_entries (load_queue s0))"
  shows "ready (snd (submit env fresh input s0))"
proof -
  have s: "ready (load_queue s0)" using assms(1) by (rule load_queue_ready)
  have key: "landingQueueKey \<lparr>lt_repo = lower (lt_repo t), lt_branch = lt_branch t\<rparr> = landingQueueKey t" for t
    by (simp add: landingQueueKey_def lower_def lower_char_def Let_def)
  show ?thesis
    unfolding submit_def Let_def
    apply (clarsimp simp: s split: option.splits)
    apply (rule ready_save)
    using s apply (simp add: ready_def)
    apply (simp, rule submit_inv)
    using ready_ok [OF s] assms(2) apply (auto simp: key find_None_iff)
    done
qed

lemma withdraw_entry_ready:
  assumes "landing_inv s0"
  shows "ready (snd (withdraw_entry env eid caller leader s0))"
proof -
  have s: "ready (load_queue s0)" using assms(1) by (rule load_queue_ready)
  have d: "distinct (map le_id (lq_entries (load_queue s0)))"
    using ready_ok [OF s] by (simp add: queue_inv_def entries_ok_def)
  have step: "ready (save_queue (set_entry eid (\<lambda>_. e') (load_queue s0)))"
    if e: "find_entry eid (load_queue s0) = Some e" "le_state e = Pending"
      and e': "le_id e' = le_id e" "le_sessionId e' = le_sessionId e" "le_key e' = le_key e" "le_target e' = le_target e" "le_state e' = Withdrawn"
    for e e'
  proof -
    let ?es = "lq_entries (load_queue s0)"
    have mem: "e \<in> set ?es" "le_id e = eid" using e find_entry_Some [OF s] by auto
    let ?g = "\<lambda>x. if x = e then e' else x"
    have "(\<lambda>x. if le_id x = eid then e' else x) x = ?g x" if "x \<in> set ?es" for x
    proof -
      have "(le_id x = eid) = (x = e)" using distinct_by [OF d that mem(1)] mem(2) by auto
      then show ?thesis by simp
    qed
    then have "update_first (\<lambda>x. le_id x = eid) (\<lambda>_. e') ?es = map ?g ?es"
      by (simp add: update_first_map [OF d])
    moreover have "queue_inv (map ?g ?es) (lq_runs (load_queue s0)) (lq_launches (load_queue s0))"
      by (rule resolve_pending_inv [OF ready_ok [OF s]]) (use e(2) e' in \<open>auto simp: same_identity_def\<close>)
    ultimately show ?thesis
      using s by (intro ready_save) (simp_all add: set_entry_def ready_def)
  qed
  show ?thesis
  proof (cases "find_entry eid (load_queue s0)")
    case (Some e)
    show ?thesis
    proof (cases "(le_sessionId e \<noteq> caller \<and> \<not> leader (le_sessionId e)) \<or> le_state e \<noteq> Pending")
      case False
      then show ?thesis
        using step [OF Some, of "e\<lparr>le_state := Withdrawn, le_resolvedAt := Some (ev_now env),
            le_reason := Some (if caller = le_sessionId e then ''Withdrawn by its owner.'' else ''Withdrawn by its leader.'')\<rparr>"]
        by (auto simp: withdraw_entry_def Let_def Some)
    qed (auto simp: withdraw_entry_def Let_def Some s)
  qed (simp add: withdraw_entry_def Let_def s)
qed


lemma heartbeat_ready:
  assumes "landing_inv s0"
  shows "ready (snd (heartbeat env api rid runner phase logPath s0))"
proof -
  have s: "ready (load_queue s0)" using assms(1) by (rule load_queue_ready)
  have step: "ready (save_queue (set_run rid f (load_queue s0\<lparr>lq_leases := l\<rparr>)))"
    if run: "ownedRunningRun rid runner (load_queue s0) = Inr run"
      and f: "lr_id (f run) = lr_id run" "lr_key (f run) = lr_key run" "lr_entryIds (f run) = lr_entryIds run"
        "lr_state (f run) = lr_state run" "lr_plan (f run) = lr_plan run" for run f l
  proof -
    let ?t = "load_queue s0\<lparr>lq_leases := l\<rparr>"
    have t: "ready ?t" using s by simp
    note r = ownedRunningRun_Inr [OF run s]
    have inv: "queue_inv (lq_entries ?t) (lq_runs ?t) (lq_launches ?t)" using ready_ok [OF t] .
    have run_t: "run \<in> set (lq_runs ?t)" using r by simp
    have d: "distinct (map lr_id (lq_runs ?t))" using inv by (simp add: queue_inv_def runs_ok_def)
    have plan: "case lr_plan run of None \<Rightarrow> True | Some p \<Rightarrow> \<not> pp_reconciled p"
      using inv r by (auto simp: queue_inv_def runs_ok_def)
    have "lq_runs (set_run rid f ?t) = map (\<lambda>x. if lr_id x = lr_id run then f run else x) (lq_runs ?t)"
      using map_one [OF d run_t] r by (simp add: set_run_map [OF t])
    moreover have "queue_inv (lq_entries ?t) (map (\<lambda>x. if lr_id x = lr_id run then f run else x) (lq_runs ?t)) (lq_launches ?t)"
      by (rule keep_open_inv [OF inv run_t]) (use r f plan in \<open>simp_all add: open_run_def isUnreconciled_def\<close>)
    ultimately show ?thesis using t by (intro ready_save) (simp_all add: ready_def)
  qed
  show ?thesis
  proof (cases "ownedRunningRun rid runner (load_queue s0)")
    case (Inr run)
    let ?renew = "la_renew api (landingLeaseKey (lr_target run)) (rc_ownerId runner) (Some (Fin LANDING_QUEUE_LEASE_TTL_MS))
                                    (ev_now env) (lq_leases (load_queue s0))"
    obtain v l1 where rn: "?renew = (v, l1)" by (cases ?renew) auto
    show ?thesis
      by (cases v) (auto simp: heartbeat_def Let_def Inr rn s intro!: step [OF Inr])
  qed (simp add: heartbeat_def Let_def s)
qed

lemma recordPlan_ready:
  assumes "landing_inv s0" "\<not> pp_reconciled plan"
  shows "ready (snd (recordPlan env api rid runner plan s0))"
proof -
  let ?s = "load_queue s0"
  have s: "ready ?s" using assms(1) by (rule load_queue_ready)
  show ?thesis
  proof (cases "ownedRunningRun rid runner ?s")
    case (Inr run)
    note r = ownedRunningRun_Inr [OF Inr s]
    let ?f = "\<lambda>r. r\<lparr>lr_plan := Some plan, lr_heartbeatAt := ev_now env, lr_phase := ''pushing''\<rparr>"
    have inv: "queue_ok_state ?s" using ready_ok [OF s] .
    have run_s: "run \<in> set (lq_runs ?s)" using r by simp
    have d: "distinct (map lr_id (lq_runs ?s))" using inv by (simp add: queue_inv_def runs_ok_def)
    have "lq_runs (set_run rid ?f ?s) = map (\<lambda>x. if lr_id x = lr_id run then ?f run else x) (lq_runs ?s)"
      using map_one [OF d run_s, of ?f] r by (simp add: set_run_map [OF s])
    moreover have "queue_inv (lq_entries ?s) (map (\<lambda>x. if lr_id x = lr_id run then ?f run else x) (lq_runs ?s)) (lq_launches ?s)"
      by (rule keep_open_inv [OF inv run_s]) (use r assms(2) in \<open>simp_all add: open_run_def\<close>)
    ultimately have "ready (save_queue (set_run rid ?f ?s))"
      using s by (intro ready_save) (simp_all add: ready_def)
    then show ?thesis using s by (auto simp: recordPlan_def Let_def Inr split: option.splits)
  qed (simp add: recordPlan_def Let_def s)
qed

lemma set_run_one:
  assumes "ready s" "run \<in> set (lq_runs s)" "lr_id run = rid"
  shows "lq_runs (set_run rid f s) = map (\<lambda>x. if lr_id x = lr_id run then f run else x) (lq_runs s)"
proof -
  have "distinct (map lr_id (lq_runs s))" using ready_ok [OF assms(1)] by (simp add: queue_inv_def runs_ok_def)
  then show ?thesis using map_one [of lr_id "lq_runs s" run f] assms by (simp add: set_run_map)
qed

lemma note_progress_fields [simp]:
  "lq_entries (note_progress env report run s) = lq_entries s" "lq_runs (note_progress env report run s) = lq_runs s"
  "lq_launches (note_progress env report run s) = lq_launches s" "lq_loaded (note_progress env report run s) = lq_loaded s"
  by (simp_all add: note_progress_def)

text \<open>
  Finishing a run. The code does not check that a report names only entries of its run; a report that
  does (\<open>own_outcomes\<close>) also keeps the invariant.
\<close>

definition own_outcomes :: "string \<Rightarrow> run_report \<Rightarrow> 'l landing_state \<Rightarrow> bool" where
  "own_outcomes rid report s \<longleftrightarrow>
     (\<forall>run. find_run rid (load_queue s) = Some run \<longrightarrow> set (map outcome_entry (rp_outcomes report)) \<subseteq> set (lr_entryIds run))"

lemma finish_cases:
  assumes inv: "landing_inv s0" and eq: "finish env api rid runner report s0 = (v, s')"
  shows "(\<exists>e. v = Inl e \<and> s' = load_queue s0)
    \<or> (\<exists>run. v = Inr (finished_run env report run) \<and> run \<in> set (lq_runs (load_queue s0)) \<and> lr_id run = rid
        \<and> lr_state run = RunRunning \<and> lr_launchId run = Some (rc_launchId runner)
        \<and> set (lr_entryIds run) \<subseteq> set (map outcome_entry (rp_outcomes report))
        \<and> lq_entries s' = map (outcomes_of (ev_now env) (rp_pushedTip report) (rp_outcomes report)) (lq_entries (load_queue s0))
        \<and> lq_runs s' = map (\<lambda>x. if lr_id x = rid then finished_run env report run else x) (lq_runs (load_queue s0))
        \<and> lq_loaded s' \<and> (own_outcomes rid report s0 \<longrightarrow> ready s'))"
proof -
  let ?s = "load_queue s0"
  have s: "ready ?s" using inv by (rule load_queue_ready)
  show ?thesis
  proof (cases "ownedRunningRun rid runner ?s")
    case (Inr run)
    note r = ownedRunningRun_Inr [OF Inr s]
    show ?thesis
    proof (cases "List.find (\<lambda>i. i \<notin> set (map outcome_entry (rp_outcomes report))) (lr_entryIds run)")
      case None
      then have named: "set (lr_entryIds run) \<subseteq> set (map outcome_entry (rp_outcomes report))"
        by (auto simp: find_None_iff)
      let ?run = "finished_run env report run"
      let ?t = "note_progress env report ?run (endLaunchOf env ?run (set_run rid (finished_run env report) ?s))"
      have closed: "lr_id ?run = lr_id run" "\<not> open_run ?run" "lr_key ?run = lr_key run" "lr_target ?run = lr_target run"
        by (simp_all add: finished_run_def open_run_def isUnreconciled_def)
      have pre: "run \<in> set (lq_runs ?s)" "open_run run" using r by (simp_all add: open_run_def)
      have t: "lq_entries ?t = lq_entries ?s" "lq_runs ?t = map (\<lambda>x. if lr_id x = lr_id run then ?run else x) (lq_runs ?s)"
        "map ll_id (lq_launches ?t) = map ll_id (lq_launches ?s)" "lq_loaded ?t"
        using set_run_one [OF s pre(1)] r s by (simp_all add: ready_def)
      note data = applyOutcomes_data [OF s t(1), of env ?run report]
      have st: "ready (applyOutcomes env ?run report ?t)" if "own_outcomes rid report s0"
      proof -
        have "set (map outcome_entry (rp_outcomes report)) = set (lr_entryIds run)"
          using named that r find_run_Some [OF s] by (auto simp: own_outcomes_def)
        then show ?thesis using settle_ready(1) [OF s pre closed(1,2) _ t] by simp
      qed
      have vs: "(v, s') = (Inr ?run, pumpSoon (lr_key run) (releaseLease env api (lr_target run) (applyOutcomes env ?run report ?t)))"
        using eq by (simp add: finish_def Let_def Inr None closed del: set_map)
      have "lq_loaded s'" using vs data(3) t(4) by (simp add: pumpSoon_def later_def releaseLease_def Let_def)
      moreover have "ready s'" if "own_outcomes rid report s0" using vs st [OF that] by simp
      ultimately show ?thesis using vs r named data t(2) by (intro disjI2 exI [of _ run]) simp
    qed (use eq in \<open>auto simp: finish_def Let_def Inr simp del: set_map\<close>)
  next
    case (Inl e)
    then have "v = Inl e \<and> s' = ?s" using eq by (auto simp: finish_def Let_def)
    then show ?thesis by blast
  qed
qed

lemma finish_ready:
  assumes "landing_inv s0" "own_outcomes rid report s0"
  shows "ready (snd (finish env api rid runner report s0))"
proof -
  obtain v s' where eq: "finish env api rid runner report s0 = (v, s')" by (cases "finish env api rid runner report s0")
  from finish_cases [OF assms(1) eq] have "s' = load_queue s0 \<or> ready s'" using assms(2) by blast
  then show ?thesis using load_queue_ready [OF assms(1)] by (auto simp: eq)
qed


text \<open>Reconciling settles an unreconciled run with one outcome for each of its entries.\<close>

lemma reconcile_cases:
  assumes inv: "landing_inv s0" and eq: "reconcile env api rid runner pushed s0 = (v, s')"
  shows "(\<exists>e. v = Inl e \<and> s' = load_queue s0)
    \<or> (\<exists>run plan. v = Inr (reconciled_run runner pushed run) \<and> run \<in> set (lq_runs (load_queue s0)) \<and> lr_id run = rid
        \<and> isUnreconciled run \<and> lr_plan run = Some plan \<and> ready s'
        \<and> lq_entries s' = map (outcomes_of (ev_now env) (if pushed then Some (pp_tip plan) else None)
             (map (reconcile_outcome pushed plan) (lr_entryIds run))) (lq_entries (load_queue s0))
        \<and> lq_runs s' = map (\<lambda>x. if lr_id x = rid then reconciled_run runner pushed run else x) (lq_runs (load_queue s0)))"
proof -
  let ?s = "load_queue s0"
  have s: "ready ?s" using inv by (rule load_queue_ready)
  show ?thesis
  proof (cases "v")
    case (Inl e)
    then have "s' = ?s"
      using eq by (auto simp: reconcile_def Let_def check_res_def split: option.splits if_splits sum.splits)
    then show ?thesis using Inl by simp
  next
    case (Inr x)
    then obtain run plan where run: "find_run rid ?s = Some run" "lr_plan run = Some plan" "isUnreconciled run"
      "v = Inr (reconciled_run runner pushed run)"
      and s': "s' = applyOutcomes env (reconciled_run runner pushed run) (reconcile_report runner pushed plan run)
                    (set_run rid (reconciled_run runner pushed) ?s)"
      using eq by (auto simp: reconcile_def Let_def check_res_def split: option.splits if_splits sum.splits)
    have r: "run \<in> set (lq_runs ?s)" "lr_id run = rid" "open_run run"
      using run(1,3) find_run_Some [OF s] by (auto simp: open_run_def)
    let ?run = "reconciled_run runner pushed run"
    have closed: "lr_id ?run = lr_id run" "\<not> open_run ?run"
      using run(2,3) by (simp_all add: reconciled_run_def open_run_def isUnreconciled_def)
    have "outcome_entry (reconcile_outcome pushed plan i) = i" for i
      by (simp add: reconcile_outcome_def split: option.splits)
    then have ocs: "set (map outcome_entry (rp_outcomes (reconcile_report runner pushed plan run))) = set (lr_entryIds run)"
      by (auto simp: reconcile_report_def image_iff)
    have t: "lq_runs (set_run rid (reconciled_run runner pushed) ?s) = map (\<lambda>x. if lr_id x = lr_id run then ?run else x) (lq_runs ?s)"
      by (rule set_run_one [OF s r(1,2)])
    note st = settle_ready [OF s r(1,3) closed ocs, of "set_run rid (reconciled_run runner pushed) ?s" env ?run, OF _ t]
    show ?thesis
      using st s run r t by (auto simp: s' reconcile_report_def ready_def)
  qed
qed

lemma reconcile_ready:
  assumes "landing_inv s0"
  shows "ready (snd (reconcile env api rid runner pushed s0))"
  using reconcile_cases [OF assms, of env api rid runner pushed] load_queue_ready [OF assms]
  by (cases "reconcile env api rid runner pushed s0") fastforce

text \<open>Claiming: an older running run is abandoned first.\<close>

lemma abandon_no_active:
  assumes s: "ready s" and a: "active_run key s = Some run"
  shows "active_run key (abandon env run why s) = None"
proof -
  note r = active_run_Some [OF a]
  have "r = run" if "r \<in> set (lq_runs s)" "lr_state r = RunRunning" "lr_key r = key" for r
    using ready_ok [OF s] r that by (auto simp: queue_inv_def runs_ok_def)
  then show ?thesis
    using r by (auto simp: active_run_None abandon_data(1) [OF s] abandoned_run_def)
qed

lemma sorted_batch:
  "set (take n (sort_key f (filter P es))) \<subseteq> {e \<in> set es. P e}"
  by (auto dest: in_set_takeD)

lemma distinct_batch:
  "distinct (map h es) \<Longrightarrow> distinct (map h (take n (sort_key f (filter P es))))"
proof -
  assume "distinct (map h es)"
  then have "distinct (map h (filter P es))" by (simp add: distinct_map_filter)
  then have "distinct (map h (sort_key f (filter P es)))" by (auto simp: distinct_map)
  then show ?thesis by (simp add: take_map [symmetric])
qed


lemma take_over_ready:
  assumes s: "ready s"
  shows "ready (take_over env key s)" "active_run key (take_over env key s) = None"
    "map lr_id (lq_runs (take_over env key s)) = map lr_id (lq_runs s)"
proof -
  have "ready (take_over env key s) \<and> active_run key (take_over env key s) = None
    \<and> map lr_id (lq_runs (take_over env key s)) = map lr_id (lq_runs s)"
  proof (cases "active_run key s")
    case (Some run)
    then show ?thesis
      using abandon_ready [OF s] active_run_Some [OF Some] abandon_no_active [OF s Some] abandon_data(1) [OF s]
      by (simp add: take_over_def abandoned_run_def)
  qed (simp add: take_over_def s)
  then show "ready (take_over env key s)" "active_run key (take_over env key s) = None"
    "map lr_id (lq_runs (take_over env key s)) = map lr_id (lq_runs s)" by simp_all
qed

lemma claim_batch_members: "e \<in> set (claim_batch key s) \<Longrightarrow> e \<in> set (lq_entries s) \<and> le_key e = key \<and> le_state e = Pending"
  using sorted_batch [of LANDING_BATCH_LIMIT le_submittedAt "\<lambda>e. le_key e = key \<and> le_state e = Pending" "lq_entries s"]
  by (auto simp: claim_batch_def pending_of_def)

lemma claim_batch_Nil: "claim_batch key s = [] \<Longrightarrow> pending_of key s = []"
proof -
  assume "claim_batch key s = []"
  then have "sort_key le_submittedAt (pending_of key s) = []" by (simp add: claim_batch_def LANDING_BATCH_LIMIT_def)
  then have "set (pending_of key s) = {}" by (metis set_empty set_sort)
  then show ?thesis by simp
qed

lemma begin_run_ready:
  assumes s: "ready s" and none: "active_run key s = None" and rid: "rid \<notin> lr_id ` set (lq_runs s)"
  defines "batch \<equiv> claim_batch key s"
  shows "ready (begin_run (claimed_run env runner launch rid key batch) launch s)"
    "lq_runs (begin_run run launch s) = lq_runs s @ [run]"
    "lq_entries (begin_run run launch s) =
       map (\<lambda>e. if le_id e \<in> set (lr_entryIds run) then claimed_entry (lr_id run) e else e) (lq_entries s)"
proof -
  show runs: "lq_runs (begin_run run launch s) = lq_runs s @ [run]"
    and ents: "lq_entries (begin_run run launch s) =
       map (\<lambda>e. if le_id e \<in> set (lr_entryIds run) then claimed_entry (lr_id run) e else e) (lq_entries s)" for run
    by (simp_all add: begin_run_def Let_def)
  let ?run = "claimed_run env runner launch rid key batch"
  have inv: "queue_ok_state s" using s by (rule ready_ok)
  then have ids: "distinct (map le_id batch)" "length (map le_id batch) \<le> LANDING_BATCH_LIMIT"
    by (auto simp: batch_def claim_batch_def pending_of_def queue_inv_def entries_ok_def intro!: distinct_batch)
  have mem: "\<forall>i \<in> set (lr_entryIds ?run). \<exists>x \<in> set (lq_entries s). le_id x = i \<and> le_state x = Pending \<and> le_key x = lr_key ?run"
    using claim_batch_members [of _ key s] by (auto simp: claimed_run_def batch_def)
  have "queue_inv (map (\<lambda>x. if le_id x \<in> set (lr_entryIds ?run) then x\<lparr>le_state := Running, le_runId := Some (lr_id ?run)\<rparr> else x) (lq_entries s))
    (lq_runs s @ [?run]) (lq_launches s)"
    by (rule new_run_inv [OF inv _ _ _ _ _ _ mem])
      (use ids none rid in \<open>simp_all add: claimed_run_def active_run_None\<close>)
  then have "queue_ok_state (begin_run ?run launch s)"
    unfolding runs ents claimed_entry_def
    using queue_inv_launches [of "lq_launches (begin_run ?run launch s)" "lq_launches s"]
    by (simp add: begin_run_def Let_def)
  then show "ready (begin_run ?run launch s)"
    using s by (simp add: begin_run_def Let_def, intro ready_save) (simp_all add: ready_def)
qed

text \<open>What a claim answers, and what it does to the queue.\<close>

lemma claim_cases:
  assumes inv: "landing_inv s0" and fresh: "''lr-'' @ fresh \<notin> lr_id ` set (lq_runs (load_queue s0))"
    and eq: "claim env api fresh runner target s0 = (v, s')"
  defines "key \<equiv> landingQueueKey target" and "s1 \<equiv> take_over env (landingQueueKey target) (load_queue s0)"
  shows "(\<exists>e. v = Inl e \<and> s' = load_queue s0)
    \<or> (\<exists>launch. currentLaunch runner key (load_queue s0) = Inr launch \<and> ll_runId launch = None
        \<and> la_holds api (landingLeaseKey target) (rc_ownerId runner) (ev_now env) (lq_leases (load_queue s0))
        \<and> (unreconciled_of key s1 \<noteq> [] \<and> v = Inr \<lparr>cl_run = None, cl_entries = [], cl_unreconciled = unreconciled_of key s1\<rparr> \<and> s' = s1
          \<or> unreconciled_of key s1 = [] \<and> claim_batch key s1 = [] \<and> v = Inr \<lparr>cl_run = None, cl_entries = [], cl_unreconciled = []\<rparr>
             \<and> s' = releaseLease env api target (save_queue (end_launch env (ll_id launch) s1))
          \<or> unreconciled_of key s1 = [] \<and> claim_batch key s1 \<noteq> []
             \<and> v = Inr \<lparr>cl_run = Some (claimed_run env runner launch (''lr-'' @ fresh) key (claim_batch key s1)),
                   cl_entries = map (claimed_entry (''lr-'' @ fresh)) (claim_batch key s1), cl_unreconciled = []\<rparr>
             \<and> s' = begin_run (claimed_run env runner launch (''lr-'' @ fresh) key (claim_batch key s1)) launch s1))"
  using eq unfolding claim_def Let_def check_res_def key_def s1_def
  by (auto split: option.splits if_splits sum.splits)

lemma claim_ready:
  assumes inv: "landing_inv s0" and fresh: "''lr-'' @ fresh \<notin> lr_id ` set (lq_runs (load_queue s0))"
  shows "ready (snd (claim env api fresh runner target s0))"
proof -
  let ?key = "landingQueueKey target" and ?s = "load_queue s0"
  let ?s1 = "take_over env ?key ?s"
  have s: "ready ?s" using inv by (rule load_queue_ready)
  note s1 = take_over_ready [OF s, where env = env and key = ?key]
  have "''lr-'' @ fresh \<notin> lr_id ` set (lq_runs ?s1)" using fresh s1(3) by (simp flip: set_map)
  note b = begin_run_ready(1) [OF s1(1,2) this]
  obtain v s' where eq: "claim env api fresh runner target s0 = (v, s')" by (cases "claim env api fresh runner target s0") auto
  show ?thesis
    using claim_cases [OF inv fresh eq] s s1(1) b by (auto simp: eq ready_save_ready)
qed

section \<open>Starting, losing and sweeping runners\<close>

lemma newLaunch_save_ready:
  assumes "ready s" "''ll-'' @ fresh \<notin> ll_id ` set (lq_launches s)"
  shows "ready (save_queue (snd (newLaunch env fresh token t h c who s)))"
  using newLaunch_ready(1) [OF assms surjective_pairing] by (simp add: ready_save_ready)

lemma hand_over_ready:
  assumes t: "ready t" and fresh: "''ll-'' @ fresh \<notin> ll_id ` set (lq_launches t)"
    and a: "\<forall>run. active = Some run \<longrightarrow> run \<in> set (lq_runs t) \<and> lr_state run = RunRunning"
  shows "ready (snd (hand_over env fresh token caller target hostId checkout active t))"
proof -
  let ?key = "landingQueueKey target"
  define s2 where "s2 = (case active of
              Some run \<Rightarrow> abandon env run ''a runner was started by hand after it stopped reporting'' t | None \<Rightarrow> t)"
  have s2: "ready s2 \<and> map ll_id (lq_launches s2) = map ll_id (lq_launches t)"
    using abandon_ready [OF t] abandon_data(3) [OF t] a t by (cases active) (simp_all add: s2_def)
  define s3 where "s3 = set_trouble ?key None (end_open_launches env ?key s2)"
  have s3: "ready s3" "map ll_id (lq_launches s3) = map ll_id (lq_launches t)" using s2 by (simp_all add: s3_def)
  have "''ll-'' @ fresh \<notin> ll_id ` set (lq_launches s3)" using fresh s3(2) by (simp flip: set_map)
  from newLaunch_save_ready [OF s3(1) this]
  show ?thesis by (simp add: hand_over_def Let_def split_beta flip: s2_def s3_def)
qed

lemma startRunnerByHand_ready:
  assumes inv: "landing_inv s0" and fresh: "''ll-'' @ fresh \<notin> ll_id ` set (lq_launches (load_queue s0))"
  shows "ready (snd (startRunnerByHand env api fresh token caller target hostId checkout s0))"
proof -
  let ?s = "load_queue s0" and ?key = "landingQueueKey target"
  have s: "ready ?s" using inv by (rule load_queue_ready)
  have go: "ready (snd (hand_over env fresh token caller target hostId checkout (active_run ?key ?s) (?s\<lparr>lq_leases := l\<rparr>)))" for l
    by (rule hand_over_ready) (use s fresh active_run_Some [of ?key ?s] in auto)
  have go': "ready (snd (hand_over env fresh token caller target hostId checkout (active_run ?key ?s) ?s))"
    using go [of "lq_leases ?s"] by simp
  obtain r l where a: "la_acquire api (queue_acquire_input target None) (ev_now env) (lq_leases ?s) = (r, l)"
    by (cases "la_acquire api (queue_acquire_input target None) (ev_now env) (lq_leases ?s)") auto
  show ?thesis
    unfolding startRunnerByHand_def Let_def
    by (simp add: s go go' a split: sum.splits acquire_result.splits)
qed

lemma runnerExited_ready:
  assumes "landing_inv s0"
  shows "ready (runnerExited env api lid detail s0)"
proof -
  let ?s = "load_queue s0"
  have s: "ready ?s" using assms by (rule load_queue_ready)
  have ended: "ready (save_queue (set_launch lid (\<lambda>l. if ll_endedAt l = None then l\<lparr>ll_endedAt := Some (ev_now env)\<rparr> else l) ?s))"
    using s by (simp add: ready_save_ready)
  show ?thesis
    using s ended abandon_ready [OF s] find_run_Some [OF s]
    by (auto simp: runnerExited_def Let_def launchFailed_ready split: option.splits)
qed

lemma sweep_run_ready:
  assumes "ready s" "run \<in> set (lq_runs s)" "lr_state run = RunRunning"
  shows "ready (sweep_run env api run s)"
    "\<exists>f. lq_runs (sweep_run env api run s) = map (\<lambda>x. if lr_id x = lr_id run then f else x) (lq_runs s)
      \<or> lq_runs (sweep_run env api run s) = lq_runs s"
  using assms abandon_ready [OF assms] abandon_data(1) [OF assms(1,2)]
  by (auto simp: sweep_run_def)

lemma sweep_runs_ready:
  assumes "ready s" "set rs \<subseteq> set (lq_runs s)" "\<forall>r \<in> set rs. lr_state r = RunRunning" "distinct (map lr_id rs)"
  shows "ready (fold (sweep_run env api) rs s)"
  using assms
proof (induction rs arbitrary: s)
  case (Cons r rs)
  have r: "r \<in> set (lq_runs s)" "lr_state r = RunRunning" using Cons.prems by simp_all
  note s' = sweep_run_ready [OF Cons.prems(1) r, of env api]
  have "x \<in> set (lq_runs (sweep_run env api r s))" if "x \<in> set rs" for x
  proof -
    have "x \<in> set (lq_runs s)" "lr_id x \<noteq> lr_id r" using that Cons.prems by (auto simp: image_iff)
    then show ?thesis using s'(2) by force
  qed
  then show ?case using Cons.IH [OF s'(1)] Cons.prems by auto
qed simp

lemma sweep_launch_ready: "ready s \<Longrightarrow> ready (sweep_launch env api l s)"
  by (simp add: sweep_launch_def ready_save_ready launchFailed_ready)

lemma sweep_launches_ready: "ready s \<Longrightarrow> ready (fold (sweep_launch env api) ls s)"
  by (induction ls arbitrary: s) (simp_all add: sweep_launch_ready)

lemma set_last_n: "set (last_n n xs) \<subseteq> set xs"
  by (auto simp: last_n_def dest: in_set_dropD)

lemma distinct_last_n: "distinct (map h xs) \<Longrightarrow> distinct (map h (last_n n xs))"
  by (simp add: last_n_def drop_map [symmetric])

lemma distinct_map_sort: "distinct (map h (sort_key f xs)) = distinct (map h xs)"
  by (auto simp: distinct_map)

lemma prune_ready:
  assumes s: "ready s"
  shows "ready (prune env s)"
proof -
  have inv: "queue_ok_state s" using s by (rule ready_ok)
  let ?cut = "ev_now env - HISTORY_RETENTION_MS"
  let ?kept = "\<lambda>r. lr_state r = RunRunning \<or> isUnreconciled r"
  let ?dead = "filter (\<lambda>r. \<not> ?kept r \<and> (case lr_finishedAt r of None \<Rightarrow> 0 | Some t \<Rightarrow> t) > ?cut) (lq_runs s)"
  let ?ended = "filter (\<lambda>l. launch_ended l \<and> the (ll_endedAt l) > ?cut) (lq_launches s)"
  have rd: "distinct (map lr_id (lq_runs s))" and ld: "distinct (map ll_id (lq_launches s))"
    using inv by (simp_all add: queue_inv_def runs_ok_def launches_ok_def)
  have part: "distinct (map h (last_n n (filter P xs) @ filter Q xs))"
    if "distinct (map h xs)" "\<And>x. P x \<Longrightarrow> \<not> Q x" for h :: "'b \<Rightarrow> string" and n P Q xs
  proof -
    have "h ` set (last_n n (filter P xs)) \<inter> h ` set (filter Q xs) = {}"
      using that set_last_n [of n "filter P xs"] distinct_by [OF that(1)] by fastforce
    then show ?thesis using that(1) by (simp add: distinct_last_n distinct_map_filter)
  qed
  have runs: "distinct (map lr_id (sort_key lr_startedAt (last_n 100 ?dead @ filter ?kept (lq_runs s))))"
    unfolding distinct_map_sort by (rule part [OF rd]) simp
  have launches: "distinct (map ll_id (sort_key ll_launchedAt (last_n 100 ?ended @ filter (\<lambda>l. \<not> launch_ended l) (lq_launches s))))"
    unfolding distinct_map_sort by (rule part [OF ld]) simp
  have fields: "lq_runs (prune env s) = sort_key lr_startedAt (last_n 100 ?dead @ filter ?kept (lq_runs s))"
    "lq_launches (prune env s) = sort_key ll_launchedAt (last_n 100 ?ended @ filter (\<lambda>l. \<not> launch_ended l) (lq_launches s))"
    "lq_entries (prune env s) = filter (\<lambda>e. unresolved e
             \<or> (case le_resolvedAt e of None \<Rightarrow> True | Some t \<Rightarrow> t > ?cut)) (lq_entries s)"
    by (simp_all add: prune_def Let_def)
  have "queue_ok_state (prune env s)"
    unfolding fields
  proof (rule prune_queue_inv [OF inv refl _ runs _ _ launches])
    show "set (sort_key lr_startedAt (last_n 100 ?dead @ filter ?kept (lq_runs s))) \<subseteq> set (lq_runs s)"
      using set_last_n [of 100 ?dead] by auto
  qed (auto simp: open_run_def)
  then show ?thesis
    using s by (simp add: ready_def landing_inv_def prune_def Let_def)
qed

lemma sweep_locked_ready:
  assumes "ready s"
  shows "ready (sweep_locked env api s)"
proof -
  have "distinct (map lr_id (lq_runs s))" using ready_ok [OF assms] by (simp add: queue_inv_def runs_ok_def)
  then have "distinct (map lr_id (filter (\<lambda>r. lr_state r = RunRunning) (lq_runs s)))" by (simp add: distinct_map_filter)
  then show ?thesis
    unfolding sweep_locked_def Let_def
    by (intro prune_ready sweep_launches_ready sweep_runs_ready assms) auto
qed

lemma sweep_ready: "landing_inv s \<Longrightarrow> ready (sweep env api s)"
  by (simp add: sweep_def Let_def sweep_locked_ready load_queue_ready)

lemma launch_at_ready:
  assumes "ready s" "''ll-'' @ fresh \<notin> ll_id ` set (lq_launches s)"
  shows "ready (snd (launch_at env api fresh token key t pending unrec s))"
  using newLaunch_save_ready [OF assms] assms(1)
  by (simp add: launch_at_def Let_def split_beta split: option.splits)

lemma acquire_and_launch_ready:
  assumes s: "ready s" and fresh: "''ll-'' @ fresh \<notin> ll_id ` set (lq_launches s)"
  shows "ready (snd (acquire_and_launch env api fresh token key t p u s))"
proof -
  have "ready (snd (launch_at env api fresh token key t p u (s\<lparr>lq_leases := l\<rparr>)))" for l
    using s fresh by (intro launch_at_ready) simp_all
  then show ?thesis
    using launch_at_ready [OF s fresh] s
    by (simp add: acquire_and_launch_def Let_def split_beta split: sum.splits acquire_result.splits)
qed

lemma planLaunch_ready:
  assumes inv: "landing_inv s0" and fresh: "''ll-'' @ fresh \<notin> ll_id ` set (lq_launches (load_queue s0))"
  shows "ready (snd (planLaunch env api fresh token key s0))"
  unfolding planLaunch_def Let_def
  using load_queue_ready [OF inv] acquire_and_launch_ready [OF load_queue_ready [OF inv] fresh]
  by (simp split: option.splits list.splits)

lemma launch_settled_ready: "ready s \<Longrightarrow> ready (launch_settled env api key failure s)"
  by (auto simp: launch_settled_def Let_def launchFailed_ready split: option.splits)

lemma start_ready:
  assumes "landing_inv s0"
  shows "ready (start env api s0)"
proof -
  have "ready (withdrawSessionWaiters api (load_queue s0\<lparr>lq_leases := l\<rparr>))" for l
    using load_queue_ready [OF assms] by (simp add: withdrawSessionWaiters_def)
  then show ?thesis by (simp add: start_def Let_def sweep_ready ready_landing_inv)
qed

lemma run_task_ready:
  assumes s: "ready s" and fresh: "''ll-'' @ fresh \<notin> ll_id ` set (lq_launches s)"
  shows "ready (run_task env api fresh token i s)"
proof -
  let ?rest = "s\<lparr>lq_background := take i (lq_background s) @ drop (Suc i) (lq_background s)\<rparr>"
  have rest: "ready ?rest" "landing_inv ?rest" "load_queue ?rest = ?rest"
    using s ready_landing_inv [of ?rest] ready_loaded [of ?rest] by simp_all
  have "ready (snd (planLaunch env api fresh token key ?rest))" for key
    using planLaunch_ready [OF rest(2)] fresh rest(3) by simp
  then have p: "ready s1" if "planLaunch env api fresh token key ?rest = (v, s1)" for key v s1
    using that by (metis snd_conv)
  show ?thesis
    using s rest(1)
    by (auto simp: run_task_def Let_def split: landing_task.splits list.splits prod.splits sum.splits dest!: p)
qed

end
