(* ===== verification/Landing_Service.thy ===== *)
theory Landing_Service
  imports Landing_Invariant Lease_Properties
begin

text \<open>
  The interface between the landing queue and the lease manager (\<open>deps.leases\<close>): what the queue
  relies on, as a locale, what follows for the queue, and the interpretation of the interface on
  the model of the lease manager.
\<close>

section \<open>The interface\<close>

locale lease_service =
  fixes api :: "'l lease_api"
    and inv :: "'l \<Rightarrow> bool"
    and valid_key :: "string \<Rightarrow> bool"
  assumes inv_acquire: "inv l \<Longrightarrow> 0 < now \<Longrightarrow> inv (snd (la_acquire api input now l))"
    and inv_renew: "inv l \<Longrightarrow> 0 < now \<Longrightarrow> inv (snd (la_renew api key who ttl now l))"
    and inv_release: "inv l \<Longrightarrow> 0 < now \<Longrightarrow> inv (snd (la_release api key who now l))"
    and inv_withdraw: "inv l \<Longrightarrow> inv (snd (la_withdraw api key who l))"
    and inv_register: "inv l \<Longrightarrow> inv (la_register api prefix l)"
    and acquire_holds: "inv l \<Longrightarrow> 0 < now \<Longrightarrow> trim (ai_callerSessionId input) = ai_callerSessionId input \<Longrightarrow>
      la_acquire api input now l = (Inr r, l') \<Longrightarrow> (\<And>st w n. r \<noteq> Queued st w n) \<Longrightarrow> (\<And>st. r \<noteq> Unavailable st) \<Longrightarrow>
      la_holds api (ai_resourceKey input) (ai_callerSessionId input) now l'"
    and acquire_waits: "la_acquire api input now l = (Inr (Unavailable st), l') \<Longrightarrow> ai_waitIfUnavailable input \<noteq> Some True"
    and release_gone: "inv l \<Longrightarrow> 0 < now \<Longrightarrow> valid_key key \<Longrightarrow> trim who = who \<Longrightarrow> who \<noteq> [] \<Longrightarrow>
      \<not> la_holds api key who now (snd (la_withdraw api key who (snd (la_release api key who now l))))"

text \<open>A service whose single-slot pools have one holder at a time.\<close>

locale exclusive_lease_service = lease_service +
  fixes single :: "'l \<Rightarrow> string \<Rightarrow> bool"
  assumes exclusive: "inv l \<Longrightarrow> single l key \<Longrightarrow> la_holds api key a now l \<Longrightarrow> la_holds api key b now l \<Longrightarrow> a = b"

section \<open>Where the queue touches the leases\<close>

lemma leases_unchanged [simp]:
  "lq_leases (load_queue s) = lq_leases s" "lq_leases (save_queue s) = lq_leases s" "lq_leases (queue_log es s) = lq_leases s"
  "lq_leases (later task s) = lq_leases s" "lq_leases (pumpSoon key s) = lq_leases s"
  "lq_leases (set_trouble key tr s) = lq_leases s" "lq_leases (republishRun run s) = lq_leases s"
  "lq_leases (recordFailureFor env key entries m s) = lq_leases s" "lq_leases (recordFailure env run m s) = lq_leases s"
  "lq_leases (set_launch lid f s) = lq_leases s" "lq_leases (end_launch env lid s) = lq_leases s"
  "lq_leases (endLaunchOf env run s) = lq_leases s" "lq_leases (end_open_launches env key s) = lq_leases s"
  "lq_leases (set_entry eid g s) = lq_leases s" "lq_leases (back_to_pending ids s) = lq_leases s"
  "lq_leases (note_progress env report run s) = lq_leases s" "lq_leases (prune env s) = lq_leases s"
  by (auto simp: load_queue_def save_queue_def queue_log_def later_def pumpSoon_def set_trouble_def republishRun_def
      recordFailureFor_def recordFailure_def set_launch_def end_launch_def endLaunchOf_def end_open_launches_def
      set_entry_def back_to_pending_def note_progress_def prune_def Let_def split: option.splits)

lemma leases_unchanged_more [simp]:
  "lq_leases (abandon env run why s) = lq_leases s" "lq_leases (outcomes_state now tip ocs s) = lq_leases s"
  "lq_leases (applyOutcomes env run report s) = lq_leases s"
  "lq_leases (snd (newLaunch env fresh token t h c who s)) = lq_leases s"
  "lq_leases (begin_run run launch s) = lq_leases s" "lq_leases (take_over env key s) = lq_leases s"
proof -
  show a: "lq_leases (abandon env run why s) = lq_leases s" for run why by (simp add: abandon_def Let_def)
  show o: "lq_leases (outcomes_state now tip ocs s) = lq_leases s" for now tip ocs and s :: "'a landing_state"
    by (induction ocs arbitrary: s) (simp_all add: outcomes_state_def)
  show "lq_leases (applyOutcomes env run report s) = lq_leases s" by (simp add: applyOutcomes_def Let_def o)
  show "lq_leases (snd (newLaunch env fresh token t h c who s)) = lq_leases s" by (simp add: newLaunch_def Let_def)
  show "lq_leases (begin_run run launch s) = lq_leases s" by (simp add: begin_run_def Let_def)
  show "lq_leases (take_over env key s) = lq_leases s" by (simp add: take_over_def a split: option.splits)
qed

lemma leases_of_operations:
  "lq_leases (snd (submit env fresh input s)) = lq_leases s"
  "lq_leases (snd (withdraw_entry env eid caller leader s)) = lq_leases s"
  "lq_leases (snd (recordPlan env api rid runner plan s)) = lq_leases s"
  "lq_leases (snd (reconcile env api rid runner pushed s)) = lq_leases s"
  by (auto simp: submit_def withdraw_entry_def recordPlan_def reconcile_def check_res_def Let_def
      split: option.splits sum.splits)

section \<open>What the queue gets from the interface\<close>

context lease_service
begin

lemma releaseLease_inv: "inv (lq_leases s) \<Longrightarrow> 0 < ev_now env \<Longrightarrow> inv (lq_leases (releaseLease env api t s))"
  by (simp add: releaseLease_def Let_def inv_release inv_withdraw)

text \<open>Every operation keeps the service's invariant.\<close>

lemma launchFailed_inv: "inv (lq_leases s) \<Longrightarrow> 0 < ev_now env \<Longrightarrow> inv (lq_leases (launchFailed env api l m s))"
  by (simp add: launchFailed_def Let_def releaseLease_inv)

lemma launch_at_inv:
  "inv (lq_leases s) \<Longrightarrow> 0 < ev_now env \<Longrightarrow> inv (lq_leases (snd (launch_at env api fresh token key t p u s)))"
  by (simp add: launch_at_def Let_def split_beta releaseLease_inv split: option.splits)

lemma acquire_and_launch_inv:
  assumes "inv (lq_leases s)" "0 < ev_now env"
  shows "inv (lq_leases (snd (acquire_and_launch env api fresh token key t p u s)))"
  unfolding acquire_and_launch_def Let_def
  using assms inv_acquire [OF assms, of "queue_acquire_input t (Some True)"]
  by (simp add: split_beta launch_at_inv split: sum.splits acquire_result.splits)

lemma planLaunch_inv:
  assumes "inv (lq_leases s)" "0 < ev_now env"
  shows "inv (lq_leases (snd (planLaunch env api fresh token key s)))"
  unfolding planLaunch_def Let_def
  using assms by (simp add: releaseLease_inv acquire_and_launch_inv split: option.splits list.splits)

lemma hand_over_inv:
  "inv (lq_leases s) \<Longrightarrow> inv (lq_leases (snd (hand_over env fresh token caller t h c active s)))"
  by (simp add: hand_over_def Let_def split_beta split: option.splits)

lemma startRunnerByHand_inv:
  assumes "inv (lq_leases s)" "0 < ev_now env"
  shows "inv (lq_leases (snd (startRunnerByHand env api fresh token caller t h c s)))"
  unfolding startRunnerByHand_def Let_def
  using assms inv_acquire [OF assms, of "queue_acquire_input t None"]
  by (simp add: split_beta hand_over_inv split: sum.splits acquire_result.splits)

lemma claim_inv:
  "inv (lq_leases s) \<Longrightarrow> 0 < ev_now env \<Longrightarrow> inv (lq_leases (snd (claim env api fresh runner t s)))"
  by (auto simp: claim_def check_res_def Let_def releaseLease_inv split: option.splits sum.splits)

lemma heartbeat_inv:
  assumes "inv (lq_leases s)" "0 < ev_now env"
  shows "inv (lq_leases (snd (heartbeat env api rid runner phase logPath s)))"
  using assms inv_renew [OF assms]
  by (auto simp: heartbeat_def check_res_def Let_def split_beta split: option.splits sum.splits)

lemma finish_inv:
  "inv (lq_leases s) \<Longrightarrow> 0 < ev_now env \<Longrightarrow> inv (lq_leases (snd (finish env api rid runner report s)))"
  by (auto simp: finish_def check_res_def Let_def releaseLease_inv split: option.splits sum.splits)

lemma runnerExited_inv:
  "inv (lq_leases s) \<Longrightarrow> 0 < ev_now env \<Longrightarrow> inv (lq_leases (runnerExited env api lid detail s))"
  by (auto simp: runnerExited_def Let_def releaseLease_inv launchFailed_inv split: option.splits)

lemma sweep_run_inv: "inv (lq_leases s) \<Longrightarrow> 0 < ev_now env \<Longrightarrow> inv (lq_leases (sweep_run env api r s))"
  by (simp add: sweep_run_def releaseLease_inv)

lemma sweep_launch_inv: "inv (lq_leases s) \<Longrightarrow> 0 < ev_now env \<Longrightarrow> inv (lq_leases (sweep_launch env api l s))"
  by (simp add: sweep_launch_def launchFailed_inv)

lemma sweep_inv:
  assumes "inv (lq_leases s)" "0 < ev_now env"
  shows "inv (lq_leases (sweep env api s))"
proof -
  have runs: "inv (lq_leases t) \<Longrightarrow> inv (lq_leases (fold (sweep_run env api) rs t))" for rs t
    by (induction rs arbitrary: t) (simp_all add: sweep_run_inv assms(2))
  have launches: "inv (lq_leases t) \<Longrightarrow> inv (lq_leases (fold (sweep_launch env api) ls t))" for ls t
    by (induction ls arbitrary: t) (simp_all add: sweep_launch_inv assms(2))
  show ?thesis by (simp add: sweep_def sweep_locked_def Let_def runs launches assms(1))
qed

lemma start_inv:
  assumes "inv (lq_leases s)" "0 < ev_now env"
  shows "inv (lq_leases (start env api s))"
proof -
  have "inv l \<Longrightarrow> inv (fold (\<lambda>e l. snd (la_withdraw api (landingLeaseKey (le_target e)) (le_sessionId e) l)) es l)" for l and es :: "landing_entry list"
    by (induction es arbitrary: l) (simp_all add: inv_withdraw)
  then show ?thesis
    using assms by (simp add: start_def Let_def withdrawSessionWaiters_def sweep_inv inv_register)
qed

lemma run_task_inv:
  assumes "inv (lq_leases s)" "0 < ev_now env"
  shows "inv (lq_leases (run_task env api fresh token i s))"
proof -
  let ?rest = "s\<lparr>lq_background := take i (lq_background s) @ drop (Suc i) (lq_background s)\<rparr>"
  have "inv (lq_leases (snd (planLaunch env api fresh token key ?rest)))" for key
    using assms by (intro planLaunch_inv) simp_all
  then have p: "inv (lq_leases s1)" if "planLaunch env api fresh token key ?rest = (v, s1)" for key v s1
    using that by (metis snd_conv)
  show ?thesis
    using assms
    by (auto simp: run_task_def Let_def split: landing_task.splits list.splits prod.splits sum.splits dest!: p)
qed

lemma launch_settled_inv:
  "inv (lq_leases s) \<Longrightarrow> 0 < ev_now env \<Longrightarrow> inv (lq_leases (launch_settled env api key failure s))"
  by (auto simp: launch_settled_def Let_def launchFailed_inv split: option.splits)

text \<open>A runner is started only while the queue holds the port lease.\<close>

lemma launch_at_Some:
  "launch_at env api fresh token key t p u s = (Inr (Some rq), s') \<Longrightarrow> rn_target rq = t \<and> lq_leases s' = lq_leases s"
  by (auto simp: launch_at_def newLaunch_def Let_def split: option.splits)

lemma acquire_and_launch_target:
  "acquire_and_launch env api fresh token key t p u s = (Inr (Some rq), s') \<Longrightarrow> rn_target rq = t"
  by (auto simp: acquire_and_launch_def Let_def split_beta dest: launch_at_Some
      split: if_splits sum.splits acquire_result.splits)

lemma acquire_and_launch_holds:
  assumes eq: "acquire_and_launch env api fresh token key t p u s = (Inr (Some rq), s')"
    and pre: "inv (lq_leases s)" "0 < ev_now env" and owner: "trim (landingQueueOwnerId t) = landingQueueOwnerId t"
  shows "rn_target rq = t \<and> la_holds api (landingLeaseKey t) (landingQueueOwnerId t) (ev_now env) (lq_leases s')"
proof (cases "la_holds api (landingLeaseKey t) (landingQueueOwnerId t) (ev_now env) (lq_leases s)")
  case True
  then show ?thesis using eq launch_at_Some by (fastforce simp: acquire_and_launch_def)
next
  case False
  obtain r l where a: "la_acquire api (queue_acquire_input t (Some True)) (ev_now env) (lq_leases s) = (r, l)"
    by (cases "la_acquire api (queue_acquire_input t (Some True)) (ev_now env) (lq_leases s)") auto
  obtain r' where r': "r = Inr r'" "\<And>st w n. r' \<noteq> Queued st w n"
    and l: "launch_at env api fresh token key t p u (s\<lparr>lq_leases := l\<rparr>) = (Inr (Some rq), s')"
    using eq False by (auto simp: acquire_and_launch_def a Let_def split: sum.splits acquire_result.splits)
  have "r' \<noteq> Unavailable st" for st
    using acquire_waits [of "queue_acquire_input t (Some True)" "ev_now env" "lq_leases s" st l] a r'(1)
    by (auto simp: queue_acquire_input_def)
  with acquire_holds [OF pre _ a [unfolded r'(1)] r'(2)] owner
  have "la_holds api (landingLeaseKey t) (landingQueueOwnerId t) (ev_now env) l" by (simp add: queue_acquire_input_def)
  then show ?thesis using launch_at_Some [OF l] by simp
qed

lemma planLaunch_Some:
  "planLaunch env api fresh token key s = (Inr (Some rq), s') \<Longrightarrow>
    \<exists>t p u. acquire_and_launch env api fresh token key t p u (load_queue s) = (Inr (Some rq), s')"
  by (auto simp: planLaunch_def Let_def split: if_splits option.splits list.splits)

lemma planLaunch_holds:
  assumes eq: "planLaunch env api fresh token key s = (Inr (Some rq), s')"
    and pre: "inv (lq_leases s)" "0 < ev_now env"
    and owner: "trim (landingQueueOwnerId (rn_target rq)) = landingQueueOwnerId (rn_target rq)"
  shows "la_holds api (landingLeaseKey (rn_target rq)) (landingQueueOwnerId (rn_target rq)) (ev_now env) (lq_leases s')"
proof -
  obtain t p u where a: "acquire_and_launch env api fresh token key t p u (load_queue s) = (Inr (Some rq), s')"
    using planLaunch_Some [OF eq] by blast
  from acquire_and_launch_holds [OF a] acquire_and_launch_target [OF a] pre owner show ?thesis by simp
qed

text \<open>A finished run leaves the queue without the lease.\<close>

lemma releaseLease_gone:
  assumes "inv (lq_leases s)" "0 < ev_now env" "valid_key (landingLeaseKey t)" "trim (landingQueueOwnerId t) = landingQueueOwnerId t"
  shows "\<not> la_holds api (landingLeaseKey t) (landingQueueOwnerId t) (ev_now env) (lq_leases (releaseLease env api t s))"
  using release_gone [OF assms(1-4)]
  by (simp add: releaseLease_def Let_def landingQueueOwnerId_def LANDING_QUEUE_OWNER_PREFIX_def)

end

section \<open>The lease manager provides it\<close>

definition lease_manager_api :: "lease_state lease_api" where
  "lease_manager_api = \<lparr>la_acquire = acquire, la_renew = (\<lambda>key who ttl now. renew key who None ttl now),
     la_release = (\<lambda>key who now. release key who False None now), la_withdraw = withdraw,
     la_holds = holdsLease, la_register = registerSystemOwner\<rparr>"

definition pool_key :: "string \<Rightarrow> string" where
  "pool_key key = lower (trim key)"

lemma normalizeResourceKey_pool: "normalizeResourceKey key = Inr k \<Longrightarrow> k = pool_key key"
  by (auto simp: normalizeResourceKey_def pool_key_def Let_def split: if_splits)

lemma holdsLease_iff:
  "holdsLease key who now s \<longleftrightarrow> (\<exists>l \<in> set (leases (ls_data s)). lease_resourceKey l = pool_key key
     \<and> lease_ownerSessionId l = who \<and> now < lease_expiresAt l)"
  by (auto simp: holdsLease_def list_ex_iff pool_key_def)

lemma acquire_holdsLease:
  assumes inv: "lease_inv s0" and now: "0 < now" and who: "trim (ai_callerSessionId input) = ai_callerSessionId input"
    and eq: "acquire input now s0 = (Inr r, s')" and r: "\<And>st w n. r \<noteq> Queued st w n" "\<And>st. r \<noteq> Unavailable st"
  shows "holdsLease (ai_resourceKey input) (ai_callerSessionId input) now s'"
proof -
  define s where "s = ensureLoaded s0"
  have s: "file_ok (ls_data s)" using inv by (simp add: s_def ensureLoaded_inv loaded_inv_data)
  obtain rq where rq: "normalizeAcquireInput input = Inr rq"
    using eq by (cases "normalizeAcquireInput input") (simp_all add: acquire_def Let_def)
  obtain ch s1 where e: "expireDueLeases now s = (ch, s1)" by (cases "expireDueLeases now s") auto
  obtain res s2 where a: "acquireLoaded rq now s1 = (res, s2)" by (cases "acquireLoaded rq now s1") auto
  have res: "res = r" "ls_data s' = ls_data s2"
    using eq by (auto simp: acquire_def Let_def rq e a simp flip: s_def)
  note x = expireDueLeases_expires(1) [OF s now e]
  have ok: "file_ok (ls_data s1)" "work_conserving (ls_data s1)" "\<forall>l \<in> set (leases (ls_data s1)). now < lease_expiresAt l"
    using x unfolding expires_def by fastforce+
  have "res \<noteq> Queued st w n" for st w n using r(1) res(1) by simp
  then have ans: "acquire_answer rq now (ls_data s1) res (ls_data s2)" by (intro acquireLoaded_answer [OF ok(1,2) _ a]) blast
  have key: "rq_resourceKey rq = pool_key (ai_resourceKey input)" "rq_callerSessionId rq = ai_callerSessionId input" "0 < rq_ttlMs rq"
    using rq normalizeResourceKey_pool normalizeSessionId_Inr who normalizeAcquireInput_ok [OF rq]
    by (auto simp: normalizeAcquireInput_def Let_def bind_res_Inr request_ok_def split: if_splits)
  show ?thesis
  proof (cases r)
    case (Acquired cap l ws)
    then show ?thesis
      using ans key(1,2) key(3) now
      by (auto simp: acquire_answer_def Let_def res holdsLease_iff)
  next
    case (AlreadyOwned cap l ws)
    then show ?thesis
      using ans key(1,2) ok(3) by (auto simp: acquire_answer_def Let_def res holdsLease_iff)
  qed (use r in auto)
qed

lemma acquire_unavailable:
  assumes "acquire input now s = (Inr (Unavailable st), s')"
  shows "ai_waitIfUnavailable input \<noteq> Some True"
proof -
  obtain rq where rq: "normalizeAcquireInput input = Inr rq"
    using assms by (cases "normalizeAcquireInput input") (simp_all add: acquire_def Let_def)
  have "\<not> rq_waitIfUnavailable rq"
    using assms by (auto simp: acquire_def acquireLoaded_def Let_def rq split: prod.splits option.splits if_splits)
  with rq show ?thesis
    by (auto simp: normalizeAcquireInput_def Let_def bind_res_Inr split: if_splits)
qed

lemma selectLease_Inl_none:
  assumes "selectLease d key caller None action False = Inl e"
  shows "caller \<notin> holders d key"
proof
  assume "caller \<in> holders d key"
  then obtain i where i: "i < length (leases d)" "lease_resourceKey (leases d ! i) = key" "lease_ownerSessionId (leases d ! i) = caller"
    by (auto simp: holders_def in_set_conv_nth)
  then have "(i, leases d ! i) \<in> set (getLeasesAt d key)" by (simp add: set_getLeasesAt)
  with i(3) have "List.find (\<lambda>(i, l). lease_ownerSessionId l = caller) (getLeasesAt d key) \<noteq> None"
    by (auto simp: find_None_iff)
  with assms show False
    by (auto simp: selectLease_def Let_def split: option.splits if_splits dest!: find_Some_mem)
qed

lemma release_not_holder:
  assumes inv: "lease_inv s0" and now: "0 < now" and key: "normalizeResourceKey key = Inr k" and who: "trim who = who" "who \<noteq> []"
  shows "who \<notin> holders (ls_data (snd (release key who False None now s0))) k"
proof (cases "fst (release key who False None now s0)")
  case (Inl e)
  define s where "s = ensureLoaded s0"
  have caller: "normalizeSessionId who = Inr who" using who by (simp add: normalizeSessionId_def)
  have slot: "validateSlot (ls_data s) k None = Inr None" by (simp add: validateSlot_def)
  let ?s1 = "expire_and_persist now s"
  from Inl obtain e' where sel: "selectLease (ls_data ?s1) k who None ''release'' False = Inl e'"
    by (cases "selectLease (ls_data ?s1) k who None ''release'' False")
      (auto simp: release_def key caller slot Let_def split_beta simp flip: s_def)
  then have "snd (release key who False None now s0) = ?s1"
    by (simp add: release_def key caller slot Let_def flip: s_def)
  with selectLease_Inl_none [OF sel] show ?thesis by simp
next
  case (Inr r)
  obtain s' where eq: "release key who False None now s0 = (Inr r, s')"
    using Inr by (cases "release key who False None now s0") auto
  obtain k' d i promoted where k': "normalizeResourceKey key = Inr k'"
    and d: "file_ok d" "i < length (leases d)" "rr_released r = leases d ! i" "lease_resourceKey (leases d ! i) = k'"
    and owner: "\<not> False \<Longrightarrow> lease_ownerSessionId (leases d ! i) = trim who"
    and p: "promotes k' now (d\<lparr>leases := take i (leases d) @ drop (Suc i) (leases d)\<rparr>) promoted (ls_data s')"
    using release_success [OF inv now eq] by metis
  let ?d = "d\<lparr>leases := take i (leases d) @ drop (Suc i) (leases d)\<rparr>"
  have kk: "k' = k" using key k' by simp
  have own: "lease_ownerSessionId (leases d ! i) = who" using owner who by simp
  have "distinct (map (\<lambda>l. (lease_resourceKey l, lease_ownerSessionId l)) (leases d))"
    using d(1) by (simp add: file_ok_def leases_ok_def)
  then have "who \<notin> holders ?d k"
    using d(2,4) own kk
    by (subst (asm) id_take_nth_drop [OF d(2)]) (auto simp: holders_def image_iff)
  moreover have "who \<in> holders d k" using d(2,4) own kk by (auto simp: holders_def)
  then have "who \<notin> waiter_sessionId ` set (getWaiters d k)"
    using d(1) by (auto simp: file_ok_def queue_ok_def)
  then have "who \<notin> waiter_sessionId ` set (take n (getWaiters d k))" for n
    by (auto dest: in_set_takeD)
  moreover have "leases (ls_data s') = leases ?d @ promoted"
    "lease_ownerSessionId ` set promoted = waiter_sessionId ` set (take (length promoted) (getWaiters d k))"
    using p kk unfolding promotes_def by (auto simp flip: set_map)
  ultimately show ?thesis by (auto simp: eq holders_def) (metis imageI)
qed

lemma withdraw_leases: "lease_inv s \<Longrightarrow> ls_loaded s \<Longrightarrow> leases (ls_data (snd (withdraw key who s))) = leases (ls_data s)"
  by (cases "normalizeResourceKey key"; cases "normalizeSessionId who")
    (simp_all add: withdraw_def Let_def ensureLoaded_def setWaiters_data)

lemma release_gone_manager:
  assumes inv: "lease_inv s" and now: "0 < now" and key: "\<exists>k. normalizeResourceKey key = Inr k" and who: "trim who = who" "who \<noteq> []"
  shows "\<not> holdsLease key who now (snd (withdraw key who (snd (release key who False None now s))))"
proof -
  obtain k where k: "normalizeResourceKey key = Inr k" using key by blast
  let ?s1 = "snd (release key who False None now s)"
  have s1: "loaded_inv ?s1" using inv now by (rule release_inv)
  have "leases (ls_data (snd (withdraw key who ?s1))) = leases (ls_data ?s1)"
    using s1 by (intro withdraw_leases) (simp_all add: loaded_inv_def)
  moreover have "who \<notin> holders (ls_data ?s1) (pool_key key)"
    using release_not_holder [OF inv now k who] normalizeResourceKey_pool [OF k] by simp
  ultimately show ?thesis by (auto simp: holdsLease_iff holders_def)
qed

lemma exclusive_manager:
  assumes inv: "lease_inv s \<and> (ls_loaded s \<or> ls_data s = emptyResourceLeaseFile)" and single: "getCapacity (ls_data s) (pool_key key) = 1"
    and a: "holdsLease key a now s" and b: "holdsLease key b now s"
  shows "a = b"
proof -
  obtain la lb where l: "la \<in> set (leases (ls_data s))" "lease_resourceKey la = pool_key key" "lease_ownerSessionId la = a"
    "lb \<in> set (leases (ls_data s))" "lease_resourceKey lb = pool_key key" "lease_ownerSessionId lb = b"
    using a b by (auto simp: holdsLease_iff)
  then have ok: "leases_ok (ls_data s)"
    using inv by (auto simp: lease_inv_def file_ok_def emptyResourceLeaseFile_def)
  then have "lease_slot la = 1" "lease_slot lb = 1"
    using l single by (fastforce simp: leases_ok_def list_all_iff lease_normal_def)+
  then have "la = lb"
    using ok l distinct_by [of "\<lambda>l. (lease_resourceKey l, lease_slot l)" "leases (ls_data s)" la lb]
    by (simp add: leases_ok_def)
  then show ?thesis using l by simp
qed

definition manager_inv :: "lease_state \<Rightarrow> bool" where
  "manager_inv s \<longleftrightarrow> lease_inv s \<and> (ls_loaded s \<or> ls_data s = emptyResourceLeaseFile)"

lemma loaded_manager_inv: "loaded_inv s \<Longrightarrow> manager_inv s"
  by (simp add: manager_inv_def loaded_inv_def)

lemma manager_inv_ops:
  assumes "manager_inv s"
  shows "0 < now \<Longrightarrow> manager_inv (snd (acquire input now s))" "0 < now \<Longrightarrow> manager_inv (snd (renew key who slot ttl now s))"
    "0 < now \<Longrightarrow> manager_inv (snd (release key who force slot now s))" "manager_inv (snd (withdraw key who s))"
    "manager_inv (registerSystemOwner prefix s)"
  using assms acquire_inv renew_inv release_inv withdraw_inv registerSystemOwner_inv
  by (auto simp: manager_inv_def registerSystemOwner_def intro!: loaded_manager_inv [unfolded manager_inv_def])

interpretation lease_manager: exclusive_lease_service
  lease_manager_api manager_inv "\<lambda>key. \<exists>k. normalizeResourceKey key = Inr k"
  "\<lambda>s key. getCapacity (ls_data s) (pool_key key) = 1"
proof (unfold_locales, goal_cases)
  case (6 l now input r l')
  then have "lease_inv l" "acquire input now l = (Inr r, l')"
    by (simp_all add: lease_manager_api_def manager_inv_def)
  from acquire_holdsLease [OF this(1) 6(2,3) this(2) 6(5,6)] show ?case by (simp add: lease_manager_api_def)
next
  case 7
  then show ?case using acquire_unavailable by (simp add: lease_manager_api_def)
next
  case 8
  then show ?case using release_gone_manager by (simp add: lease_manager_api_def manager_inv_def)
next
  case 9
  then show ?case using exclusive_manager by (simp add: lease_manager_api_def manager_inv_def)
qed (simp_all add: lease_manager_api_def manager_inv_ops)

end
