(* ===== verification/Landing_Properties.thy ===== *)
theory Landing_Properties
  imports Landing_Service
begin

text \<open>
  The landing queue beside the lease manager as one system, and what it promises.
\<close>

section \<open>The system\<close>

text \<open>
  The queue and the lease manager it uses, with everything that can happen between two operations:
  requests, runner reports, deferred tasks, sweeps, promotions by the lease manager, other clients
  of the lease manager, and a server restart. Fresh identifiers are ones no record has (the code
  takes random UUIDs), the clock is positive, and a plan arrives unreconciled (\<open>parsePlan\<close> of the
  route builds it so).

  \<open>finish\<close> does not check that a report names only entries of its own run. The relation carries a
  flag: \<open>landing_step False\<close> is what the code allows, and in \<open>landing_step True\<close> reports keep to the
  entries of their run, as the runner script's do. What the queue promises for every report is
  stated over the former, what rests on the runner over the latter.
\<close>

type_synonym landing_system = "lease_state landing_state"

inductive landing_step :: "bool \<Rightarrow> landing_system \<Rightarrow> landing_system \<Rightarrow> bool" for own :: bool where
  start: "0 < ev_now env \<Longrightarrow> landing_step own s (start env lease_manager_api s)"
| submit: "''le-'' @ fresh \<notin> le_id ` set (lq_entries (load_queue s)) \<Longrightarrow> landing_step own s (snd (submit env fresh input s))"
| by_hand: "0 < ev_now env \<Longrightarrow> ''ll-'' @ fresh \<notin> ll_id ` set (lq_launches (load_queue s)) \<Longrightarrow>
    landing_step own s (snd (startRunnerByHand env lease_manager_api fresh token caller target host checkout s))"
| claim: "0 < ev_now env \<Longrightarrow> ''lr-'' @ fresh \<notin> lr_id ` set (lq_runs (load_queue s)) \<Longrightarrow>
    landing_step own s (snd (claim env lease_manager_api fresh runner target s))"
| heartbeat: "0 < ev_now env \<Longrightarrow> landing_step own s (snd (heartbeat env lease_manager_api rid runner phase logPath s))"
| recordPlan: "\<not> pp_reconciled plan \<Longrightarrow> landing_step own s (snd (recordPlan env lease_manager_api rid runner plan s))"
| finish: "0 < ev_now env \<Longrightarrow> own \<longrightarrow> own_outcomes rid report s \<Longrightarrow>
    landing_step own s (snd (finish env lease_manager_api rid runner report s))"
| reconcile: "landing_step own s (snd (reconcile env lease_manager_api rid runner pushed s))"
| withdraw: "landing_step own s (snd (withdraw_entry env eid caller leader s))"
| exited: "0 < ev_now env \<Longrightarrow> landing_step own s (runnerExited env lease_manager_api lid detail s)"
| sweep: "0 < ev_now env \<Longrightarrow> landing_step own s (sweep env lease_manager_api s)"
| task: "0 < ev_now env \<Longrightarrow> ''ll-'' @ fresh \<notin> ll_id ` set (lq_launches (load_queue s)) \<Longrightarrow>
    landing_step own s (run_task env lease_manager_api fresh token i (load_queue s))"
| settled: "0 < ev_now env \<Longrightarrow> landing_step own s (launch_settled env lease_manager_api key failure (load_queue s))"
| promoted: "landing_step own s (onLeasePromoted l (load_queue s))"
| others: "lease_step (lq_leases s) l \<Longrightarrow> landing_step own s (s\<lparr>lq_leases := l\<rparr>)"
| restart: "landing_step own s (initial_landing_state (lq_disk s) (restart (lq_leases s)))"

inductive landing_reachable :: "bool \<Rightarrow> landing_system \<Rightarrow> bool" for own :: bool where
  initial: "landing_reachable own (initial_landing_state None (initial_lease_state None))"
| step: "landing_reachable own s \<Longrightarrow> landing_step own s s' \<Longrightarrow> landing_reachable own s'"

text \<open>A step of the code keeps to the run's entries unless it is a report about others.\<close>

lemma landing_step_own:
  assumes "landing_step False s s'"
  obtains (own) "landing_step True s s'"
  | (foreign) env rid runner report where "0 < ev_now env" "s' = snd (finish env lease_manager_api rid runner report s)"
      "\<not> own_outcomes rid report s"
  using assms
proof cases
  case (finish env rid report runner)
  then show ?thesis
  proof (cases "own_outcomes rid report s")
    case True
    then show ?thesis using finish by (intro that(1)) (simp add: landing_step.finish)
  next
    case False
    with finish show ?thesis by (intro that(2))
  qed
qed (rule that(1), hypsubst, rule landing_step.intros; assumption)+

definition system_inv :: "landing_system \<Rightarrow> bool" where
  "system_inv s \<longleftrightarrow> landing_inv s \<and> manager_inv (lq_leases s)"

lemma lease_step_manager_inv: "lease_step l l' \<Longrightarrow> manager_inv l \<Longrightarrow> manager_inv l'"
  using lease_step_inv loaded_step by (simp add: manager_inv_def)

lemmas queue_ready = start_ready submit_ready startRunnerByHand_ready claim_ready heartbeat_ready recordPlan_ready
  finish_ready reconcile_ready withdraw_entry_ready runnerExited_ready sweep_ready

lemmas queue_leases = lease_manager.start_inv lease_manager.startRunnerByHand_inv lease_manager.claim_inv
  lease_manager.heartbeat_inv lease_manager.finish_inv lease_manager.runnerExited_inv lease_manager.sweep_inv
  lease_manager.run_task_inv lease_manager.launch_settled_inv

lemma landing_step_inv: "landing_step True s s' \<Longrightarrow> system_inv s \<Longrightarrow> system_inv s'"
proof (induction rule: landing_step.induct)
  case (task env fresh s token i)
  then show ?case
    using run_task_ready [OF load_queue_ready, of s fresh env lease_manager_api token i]
      lease_manager.run_task_inv [of "load_queue s" env]
    by (simp add: system_inv_def ready_landing_inv)
next
  case (settled env s key failure)
  then show ?case
    using launch_settled_ready [OF load_queue_ready, of s env lease_manager_api]
      lease_manager.launch_settled_inv [of "load_queue s" env]
    by (simp add: system_inv_def ready_landing_inv)
next
  case (promoted s l)
  then show ?case
    using load_queue_ready [of s] by (simp add: system_inv_def onLeasePromoted_def ready_landing_inv)
next
  case (others s l)
  then show ?case
    using lease_step_manager_inv by (simp add: system_inv_def landing_inv_def)
next
  case (restart s)
  then show ?case
    using lease_step_manager_inv [OF lease_step.restart]
    by (simp add: system_inv_def landing_inv_def initial_landing_state_def)
qed (use queue_ready queue_leases in \<open>auto simp: system_inv_def leases_of_operations intro!: ready_landing_inv\<close>)

lemma initial_system_inv: "system_inv (initial_landing_state None (initial_lease_state None))"
  using lease_reachable_inv [OF lease_reachable.initial]
  by (simp add: system_inv_def landing_inv_def initial_landing_state_def file_inv_def load_file_def
      emptyLandingQueueFile_def queue_inv_def entries_ok_def runs_ok_def runs_entries_ok_def launches_ok_def
      manager_inv_def initial_lease_state_def)

lemma landing_reachable_inv: "landing_reachable True s \<Longrightarrow> system_inv s"
  by (induction rule: landing_reachable.induct) (auto intro: initial_system_inv landing_step_inv)

lemma reachable_ready: "landing_reachable True s \<Longrightarrow> ready (load_queue s)"
  using landing_reachable_inv [of s] load_queue_ready [of s] by (simp add: system_inv_def)

section \<open>A run used by the witnesses\<close>

text \<open>Two sessions submit a change, the queue starts a runner, and the runner claims its run.\<close>

definition demo_env :: "number \<Rightarrow> landing_env" where
  "demo_env t = \<lparr>ev_now = t, ev_sessionNum = (\<lambda>_. None), ev_machineName = (\<lambda>_. None), ev_sha256 = rev,
     ev_hasGate = (\<lambda>_. True), ev_canLaunch = True, ev_onResolved = None\<rparr>"

definition demo_target :: landing_target where
  "demo_target = \<lparr>lt_repo = ''app'', lt_branch = ''main''\<rparr>"

definition demo_submit :: "string \<Rightarrow> submit_input" where
  "demo_submit who = \<lparr>si_callerSessionId = who, si_hostId = None, si_target = demo_target, si_baseCheckout = ''/app'',
     si_questId = None, si_preparationId = Some ''p1'', si_bundleId = ''b'' @ who, si_base = ''c0'', si_tip = ''c1'',
     si_commits = [(''c1'', ''change'')], si_preSubmitTest = TestSkipped ''docs''\<rparr>"

definition demo_runner :: runner_caller where
  "demo_runner = \<lparr>rc_launchId = ''ll-1'', rc_ownerId = landingQueueOwnerId demo_target, rc_target = demo_target, rc_hostId = None\<rparr>"

definition demo_submitted :: landing_system where
  "demo_submitted = snd (submit (demo_env 2000) ''2'' (demo_submit ''s2'')
     (snd (submit (demo_env 1000) ''1'' (demo_submit ''s1'') (initial_landing_state None (initial_lease_state None)))))"

definition demo_launched :: landing_system where
  "demo_launched = run_task (demo_env 3000) lease_manager_api ''1'' ''secret'' 0 demo_submitted"

definition demo_claimed :: landing_system where
  "demo_claimed = snd (claim (demo_env 4000) lease_manager_api ''1'' demo_runner demo_target demo_launched)"

lemma demo_submitted_data: "map le_id (lq_entries demo_submitted) = [''le-1'', ''le-2'']" "lq_loaded demo_submitted"
  "map ll_id (lq_launches demo_submitted) = []"
  by code_simp+

lemma demo_launched_data: "map ll_id (lq_launches demo_launched) = [''ll-1'']" "lq_loaded demo_launched" "map lr_id (lq_runs demo_launched) = []"
  by code_simp+

lemma demo_claimed_data: "map lr_id (lq_runs demo_claimed) = [''lr-1'']" "map le_state (lq_entries demo_claimed) = [Running, Running]"
  "map lr_entryIds (lq_runs demo_claimed) = [[''le-1'', ''le-2'']]" "lq_loaded demo_claimed"
  by code_simp+


lemma demo_reachable: "landing_reachable True demo_submitted" "landing_reachable True demo_launched" "landing_reachable True demo_claimed"
proof -
  show a: "landing_reachable True demo_submitted"
  proof -
    have "''le-1'' \<notin> le_id ` set (lq_entries (load_queue (initial_landing_state None (initial_lease_state None))))" by code_simp
    then have one: "landing_reachable True (snd (submit (demo_env 1000) ''1'' (demo_submit ''s1'') (initial_landing_state None (initial_lease_state None))))"
      by (intro landing_reachable.step [OF landing_reachable.initial landing_step.submit]) simp
    have "''le-2'' \<notin> set (map le_id (lq_entries (load_queue (snd (submit (demo_env 1000) ''1'' (demo_submit ''s1'')
        (initial_landing_state None (initial_lease_state None)))))))" by code_simp
    then show ?thesis
      unfolding demo_submitted_def
      by (intro landing_reachable.step [OF one landing_step.submit]) simp
  qed
  show b: "landing_reachable True demo_launched"
  proof -
    have "landing_step True demo_submitted (run_task (demo_env 3000) lease_manager_api ''1'' ''secret'' 0 (load_queue demo_submitted))"
      using demo_submitted_data by (intro landing_step.task) (simp_all add: demo_env_def load_queue_def)
    then show ?thesis
      using landing_reachable.step [OF a] demo_submitted_data(2) by (simp add: demo_launched_def load_queue_def)
  qed
  show "landing_reachable True demo_claimed"
    unfolding demo_claimed_def
    by (intro landing_reachable.step [OF b] landing_step.claim)
      (use demo_launched_data in \<open>simp_all add: demo_env_def load_queue_def\<close>)
qed

section \<open>Safety\<close>

lemma filter_at_most_one:
  assumes "distinct (map h xs)" "\<And>a b. a \<in> set xs \<Longrightarrow> b \<in> set xs \<Longrightarrow> P a \<Longrightarrow> P b \<Longrightarrow> a = b"
  shows "length (filter P xs) \<le> 1"
  using assms
proof (induction xs)
  case (Cons x xs)
  have "filter P xs = []" if "P x"
  proof -
    have "\<not> P y" if y: "y \<in> set xs" for y
    proof
      assume "P y"
      then have "x = y" using Cons.prems(2) [of x y] y \<open>P x\<close> by simp
      with y Cons.prems(1) show False by auto
    qed
    then show ?thesis by (simp add: filter_empty_conv)
  qed
  then show ?case using Cons by simp
qed simp

text \<open>
  C13. In every reachable state of the landing queue with its lease manager, at most one landing
  run of a queue is under way, and a run under way carries at most eight changes, none twice (as in
  C15, with reports about the entries of their own run).
\<close>

theorem one_run_per_queue:
  assumes "landing_reachable True s"
  shows "length (filter (\<lambda>r. lr_key r = key \<and> lr_state r = RunRunning) (lq_runs (load_queue s))) \<le> 1
    \<and> (\<forall>r. r \<in> set (lq_runs (load_queue s)) \<and> lr_state r = RunRunning \<longrightarrow>
        distinct (lr_entryIds r) \<and> length (lr_entryIds r) \<le> 8)"
proof -
  let ?rs = "lq_runs (load_queue s)"
  have ok: "runs_ok ?rs" using ready_ok [OF reachable_ready [OF assms]] by (simp add: queue_inv_def)
  from filter_at_most_one [of lr_id ?rs "\<lambda>r. lr_key r = key \<and> lr_state r = RunRunning"] ok
  have "length (filter (\<lambda>r. lr_key r = key \<and> lr_state r = RunRunning) ?rs) \<le> 1" by (auto simp: runs_ok_def)
  moreover have "distinct (lr_entryIds r) \<and> length (lr_entryIds r) \<le> 8" if "r \<in> set ?rs" "lr_state r = RunRunning" for r
    using ok that by (auto simp: runs_ok_def open_run_def LANDING_BATCH_LIMIT_def)
  ultimately show ?thesis by blast
qed

theorem one_run_per_queue_witness:
  "length (filter (\<lambda>r. lr_key r = ''app:main'' \<and> lr_state r = RunRunning) (lq_runs (load_queue demo_claimed))) \<le> 1
    \<and> map lr_id (lq_runs demo_claimed) = [''lr-1'']"
  using one_run_per_queue [OF demo_reachable(3), of "''app:main''"] demo_claimed_data(1) by blast

text \<open>
  C14. As long as no runner reports outcomes for entries outside its run (which the code does not
  check), no change is in two places: in every reachable state a session has at most one unresolved
  entry, an entry marked as running is listed by exactly one open run (one that is under way, or was
  interrupted after recording a push plan and is not reconciled yet), which is the run it names,
  and every entry an open run lists exists and is marked as running in it.
\<close>

theorem entries_and_runs_agree:
  assumes "landing_reachable True s" and "e \<in> set (lq_entries (load_queue s))"
  shows "(le_state e = Running \<longrightarrow> (\<exists>!r. r \<in> set (lq_runs (load_queue s)) \<and> open_run r \<and> le_id e \<in> set (lr_entryIds r)))
    \<and> (\<forall>r. r \<in> set (lq_runs (load_queue s)) \<and> open_run r \<longrightarrow>
         set (lr_entryIds r) \<subseteq> le_id ` set (lq_entries (load_queue s))
         \<and> (le_id e \<in> set (lr_entryIds r) \<longleftrightarrow> le_state e = Running \<and> le_runId e = Some (lr_id r)))
    \<and> (\<forall>e'. e' \<in> set (lq_entries (load_queue s)) \<and> unresolved e \<and> unresolved e' \<and> le_sessionId e = le_sessionId e' \<longrightarrow> e = e')"
proof -
  have inv: "queue_ok_state (load_queue s)" by (rule ready_ok [OF reachable_ready [OF assms(1)]])
  let ?rs = "lq_runs (load_queue s)" and ?es = "lq_entries (load_queue s)"
  have d: "distinct (map lr_id ?rs)" using inv by (simp add: queue_inv_def runs_ok_def)
  have iff: "le_id e \<in> set (lr_entryIds r) \<longleftrightarrow> le_state e = Running \<and> le_runId e = Some (lr_id r)"
    if r: "r \<in> set ?rs" "open_run r" for r
  proof
    assume "le_id e \<in> set (lr_entryIds r)"
    then show "le_state e = Running \<and> le_runId e = Some (lr_id r)" using open_run_of_entry [OF inv r assms(2)] by blast
  next
    assume run: "le_state e = Running \<and> le_runId e = Some (lr_id r)"
    then obtain r' where "r' \<in> set ?rs" "le_runId e = Some (lr_id r')" "le_id e \<in> set (lr_entryIds r')"
      using running_entry_listed [OF inv assms(2)] by blast
    then show "le_id e \<in> set (lr_entryIds r)" using run distinct_by [OF d, of r' r] r(1) by auto
  qed
  have "\<exists>!r. r \<in> set ?rs \<and> open_run r \<and> le_id e \<in> set (lr_entryIds r)" if "le_state e = Running"
    using running_entry_listed [OF inv assms(2) that] iff distinct_by [OF d] by (metis option.inject)
  moreover have "set (lr_entryIds r) \<subseteq> le_id ` set ?es" if "r \<in> set ?rs" "open_run r" for r
    using open_run_lists [OF inv that] by (force simp: image_iff)
  moreover have "e = e'" if "e' \<in> set ?es" "unresolved e" "unresolved e'" "le_sessionId e = le_sessionId e'" for e'
    using inv assms(2) that unfolding queue_inv_def entries_ok_def by blast
  ultimately show ?thesis using iff by blast
qed

theorem entries_and_runs_agree_witness:
  "\<exists>!r. r \<in> set (lq_runs (load_queue demo_claimed)) \<and> open_run r \<and> ''le-1'' \<in> set (lr_entryIds r)"
proof -
  obtain a b where es: "lq_entries (load_queue demo_claimed) = [a, b]"
    using demo_claimed_data(2,4) by (auto simp: load_queue_def)
  then have "le_state a = Running" using demo_claimed_data(2,4) by (simp add: load_queue_def)
  moreover have "le_id a = ''le-1''"
  proof -
    have "map le_id (lq_entries demo_claimed) = [''le-1'', ''le-2'']" by code_simp
    then show ?thesis using es demo_claimed_data(4) by (simp add: load_queue_def)
  qed
  ultimately show ?thesis using entries_and_runs_agree [OF demo_reachable(3), of a] es by simp
qed

end
