(* ===== verification/Landing_Runs.thy ===== *)
theory Landing_Runs
  imports Landing_Properties
begin

text \<open>What a landing run does to the changes it carries: claiming, finishing, interruption, reconciliation.\<close>

section \<open>Claiming, finishing, reconciling\<close>

lemma sort_take_min:
  assumes "x \<in> set (take n (sort_key f xs))" "y \<in> set xs" "y \<notin> set (take n (sort_key f xs))"
  shows "f x \<le> f y"
proof -
  let ?zs = "sort_key f xs"
  have "y \<in> set (drop n ?zs)"
    using assms(2,3) by (metis append_take_drop_id set_append set_sort UnE)
  moreover have "sorted (map f (take n ?zs) @ map f (drop n ?zs))"
    by (simp flip: map_append)
  ultimately show ?thesis using assms(1) by (auto simp: sorted_append)
qed

text \<open>
  C15. Claiming is first come, first served. When a claim starts a run, the caller's owner holds the
  branch's port lease, no other run of the queue is under way or unreconciled (an older run under way
  was taken over first), and the run carries exactly the oldest eight of the changes then waiting for
  the queue, all of them if there are fewer, in the order of submission, each now marked as running
  in it. Every change still waiting was submitted no earlier than each change taken.
\<close>

theorem claim_takes_oldest:
  assumes "landing_reachable True s0" and "''lr-'' @ fresh \<notin> lr_id ` set (lq_runs (load_queue s0))"
    and "claim env lease_manager_api fresh runner target s0 = (Inr res, s')" and "cl_run res = Some run"
    and "waiting = pending_of (landingQueueKey target) (take_over env (landingQueueKey target) (load_queue s0))"
  shows "holdsLease (landingLeaseKey target) (rc_ownerId runner) (ev_now env) (lq_leases s0)
    \<and> lq_runs s' = lq_runs (take_over env (landingQueueKey target) (load_queue s0)) @ [run]
    \<and> lr_state run = RunRunning \<and> lr_key run = landingQueueKey target \<and> cl_unreconciled res = []
    \<and> (\<forall>r. r \<in> set (lq_runs s') \<and> lr_key r = landingQueueKey target \<and> r \<noteq> run \<longrightarrow> \<not> open_run r)
    \<and> cl_entries res = map (\<lambda>e. e\<lparr>le_state := Running, le_runId := Some (lr_id run)\<rparr>) (take 8 (sort_key le_submittedAt waiting))
    \<and> lr_entryIds run = map le_id (cl_entries res)
    \<and> waiting \<noteq> [] \<and> length (cl_entries res) = min 8 (length waiting)
    \<and> (\<forall>e e'. e \<in> set (cl_entries res) \<and> e' \<in> set (pending_of (landingQueueKey target) s') \<longrightarrow> le_submittedAt e \<le> le_submittedAt e')"
proof -
  let ?key = "landingQueueKey target"
  define s1 where "s1 = take_over env ?key (load_queue s0)"
  have inv: "landing_inv s0" using landing_reachable_inv [OF assms(1)] by (simp add: system_inv_def)
  have s: "ready (load_queue s0)" using inv by (rule load_queue_ready)
  note s1 = take_over_ready [OF s, where env = env and key = ?key, folded s1_def]
  obtain launch where c: "la_holds lease_manager_api (landingLeaseKey target) (rc_ownerId runner) (ev_now env) (lq_leases (load_queue s0))"
    "unreconciled_of ?key s1 = []" "claim_batch ?key s1 \<noteq> []"
    and res: "res = \<lparr>cl_run = Some (claimed_run env runner launch (''lr-'' @ fresh) ?key (claim_batch ?key s1)),
                   cl_entries = map (claimed_entry (''lr-'' @ fresh)) (claim_batch ?key s1), cl_unreconciled = []\<rparr>"
    and s': "s' = begin_run (claimed_run env runner launch (''lr-'' @ fresh) ?key (claim_batch ?key s1)) launch s1"
    using claim_cases [OF inv assms(2,3)] assms(4) by (auto simp: s1_def)
  let ?b = "claim_batch ?key s1"
  have run: "run = claimed_run env runner launch (''lr-'' @ fresh) ?key ?b" using res assms(4) by simp
  have fr: "''lr-'' @ fresh \<notin> lr_id ` set (lq_runs s1)" using assms(2) s1(3) by (simp flip: set_map)
  note b = begin_run_ready [OF s1(1,2) fr]
  have runs: "lq_runs s' = lq_runs s1 @ [run]" using b(2) by (simp add: s' run)
  have others: "\<not> open_run r" if r: "r \<in> set (lq_runs s')" "lr_key r = ?key" "r \<noteq> run" for r
  proof -
    have "r \<in> set (lq_runs s1)" using r(1,3) by (simp add: runs)
    then show ?thesis
      using r(2) s1(2) c(2) by (auto simp: open_run_def active_run_None unreconciled_of_def filter_empty_conv)
  qed
  have waiting: "waiting = pending_of ?key s1" by (simp add: assms(5) s1_def)
  have batch: "?b = take 8 (sort_key le_submittedAt waiting)"
    by (simp add: waiting claim_batch_def LANDING_BATCH_LIMIT_def)
  have oldest: "le_submittedAt e \<le> le_submittedAt e'" if e: "e \<in> set ?b" and e': "e' \<in> set (pending_of ?key s')" for e e'
  proof -
    have "e' \<in> set (lq_entries s') \<and> le_state e' = Pending \<and> le_key e' = ?key" using e' by (simp add: pending_of_def)
    moreover have "lq_entries s' = map (\<lambda>e. if le_id e \<in> set (lr_entryIds run) then claimed_entry (lr_id run) e else e) (lq_entries s1)"
      using b(3) by (simp add: s' run)
    ultimately have in1: "e' \<in> set (pending_of ?key s1)" and out: "le_id e' \<notin> set (lr_entryIds run)"
      by (auto simp: pending_of_def claimed_entry_def split: if_splits)
    have "e' \<notin> set ?b" using out by (auto simp: run claimed_run_def)
    with e in1 show ?thesis
      unfolding claim_batch_def by (intro sort_take_min [of e LANDING_BATCH_LIMIT le_submittedAt "pending_of ?key s1" e'])
  qed
  have ids: "map le_id (cl_entries res) = map le_id ?b" by (simp add: res claimed_entry_def)
  show ?thesis
  proof (intro conjI allI impI)
    show "holdsLease (landingLeaseKey target) (rc_ownerId runner) (ev_now env) (lq_leases s0)"
      using c(1) by (simp add: lease_manager_api_def)
    show "lq_runs s' = lq_runs (take_over env ?key (load_queue s0)) @ [run]" using runs by (simp add: s1_def)
    show "lr_state run = RunRunning" "lr_key run = ?key" "lr_entryIds run = map le_id (cl_entries res)"
      unfolding ids by (simp_all add: run claimed_run_def)
    show "cl_unreconciled res = []" by (simp add: res)
    show "\<not> open_run r" if "r \<in> set (lq_runs s') \<and> lr_key r = ?key \<and> r \<noteq> run" for r using that others by blast
    have "map f ?b = map f (take 8 (sort_key le_submittedAt waiting))" for f :: "landing_entry \<Rightarrow> landing_entry"
      by (rule arg_cong [OF batch])
    then show "cl_entries res = map (\<lambda>e. e\<lparr>le_state := Running, le_runId := Some (lr_id run)\<rparr>) (take 8 (sort_key le_submittedAt waiting))"
      by (simp add: res run claimed_run_def claimed_entry_def)
    show "waiting \<noteq> []" using c(3) unfolding batch by auto
    have "length (cl_entries res) = length ?b" by (simp add: res)
    then show "length (cl_entries res) = min 8 (length waiting)" unfolding batch by simp
    show "le_submittedAt e \<le> le_submittedAt e'"
      if "e \<in> set (cl_entries res) \<and> e' \<in> set (pending_of ?key s')" for e e'
    proof -
      have "e \<in> claimed_entry (''lr-'' @ fresh) ` set ?b" using that by (simp add: res)
      then obtain x where "x \<in> set ?b" "le_submittedAt x = le_submittedAt e"
        by (elim imageE) (simp add: claimed_entry_def)
      then show ?thesis using oldest [of x e'] that by simp
    qed
  qed
qed

theorem claim_takes_oldest_witness:
  "\<exists>res s'. claim (demo_env 4000) lease_manager_api ''1'' demo_runner demo_target demo_launched = (Inr res, s')
    \<and> map le_id (cl_entries res) = [''le-1'', ''le-2'']
    \<and> map le_id (cl_entries res) = map le_id (take 8 (sort_key le_submittedAt
        (pending_of ''app:main'' (take_over (demo_env 4000) ''app:main'' (load_queue demo_launched)))))"
proof -
  have c: "map_sum (\<lambda>_. ()) (\<lambda>res. (map le_id (cl_entries res), cl_run res \<noteq> None))
      (fst (claim (demo_env 4000) lease_manager_api ''1'' demo_runner demo_target demo_launched)) = Inr ([''le-1'', ''le-2''], True)"
    by code_simp
  then obtain res s' run where eq: "claim (demo_env 4000) lease_manager_api ''1'' demo_runner demo_target demo_launched = (Inr res, s')"
    "map le_id (cl_entries res) = [''le-1'', ''le-2'']" "cl_run res = Some run"
    by (auto simp: map_sum_Inr_iff)
  have "''lr-'' @ ''1'' \<notin> lr_id ` set (lq_runs (load_queue demo_launched))"
    using demo_launched_data by (simp add: load_queue_def)
  note oldest = claim_takes_oldest [OF demo_reachable(2) this eq(1,3) refl]
  have key: "landingQueueKey demo_target = ''app:main''" by code_simp
  have "cl_entries res = map (\<lambda>e. e\<lparr>le_state := Running, le_runId := Some (lr_id run)\<rparr>) (take 8 (sort_key le_submittedAt
        (pending_of ''app:main'' (take_over (demo_env 4000) ''app:main'' (load_queue demo_launched)))))"
    using oldest unfolding key by blast
  then have "map le_id (cl_entries res) = map le_id (take 8 (sort_key le_submittedAt
        (pending_of ''app:main'' (take_over (demo_env 4000) ''app:main'' (load_queue demo_launched)))))"
    by (simp only: map_map comp_def) simp
  with eq show ?thesis by (intro exI [of _ res] exI [of _ s'] conjI)
qed

lemma finish_releases:
  "finish env api rid runner report s0 = (Inr run, s') \<Longrightarrow>
    \<exists>t. s' = pumpSoon (lr_key run) (releaseLease env api (lr_target run) t) \<and> lq_leases t = lq_leases s0"
  by (auto simp: finish_def check_res_def Let_def split: sum.splits option.splits)

text \<open>What the outcomes of a report make of an entry.\<close>

lemma outcomes_of_snoc: "outcomes_of now tip (ocs @ [oc]) e = outcome_step now tip oc (outcomes_of now tip ocs e)"
  by (simp add: outcomes_of_def)

lemma outcomes_of_last:
  assumes "\<exists>oc \<in> set ocs. outcome_entry oc = le_id e"
  shows "le_state (outcomes_of now tip ocs e) = le_state (apply_outcome now tip (last (filter (\<lambda>oc. outcome_entry oc = le_id e) ocs)) e)"
  using assms
proof (induction ocs rule: rev_induct)
  case (snoc oc ocs)
  show ?case
  proof (cases "outcome_entry oc = le_id e")
    case True
    then have "outcomes_of now tip (ocs @ [oc]) e = apply_outcome now tip oc (outcomes_of now tip ocs e)"
      by (simp add: outcomes_of_snoc outcome_step_def)
    then show ?thesis using True by (cases oc) simp_all
  next
    case False
    then have "outcomes_of now tip (ocs @ [oc]) e = outcomes_of now tip ocs e"
      by (simp add: outcomes_of_snoc outcome_step_def)
    then show ?thesis using False snoc by auto
  qed
qed simp

lemma outcomes_of_only:
  assumes "filter (\<lambda>oc. outcome_entry oc = le_id e) ocs = [oc]"
  shows "outcomes_of now tip ocs e = apply_outcome now tip oc e"
proof -
  have "outcomes_of now tip ocs e = outcomes_of now tip (filter (\<lambda>oc. outcome_entry oc = le_id e) ocs) e"
  proof (induction ocs arbitrary: e)
    case (Cons a ocs)
    show ?case
      using Cons.IH [of "outcome_step now tip a e"]
      by (auto simp: outcomes_of_def outcome_step_def)
  qed simp
  moreover have "outcome_entry oc = le_id e"
  proof -
    have "oc \<in> set (filter (\<lambda>oc. outcome_entry oc = le_id e) ocs)" by (simp only: assms) simp
    then show ?thesis by simp
  qed
  ultimately show ?thesis by (simp add: assms outcomes_of_def outcome_step_def)
qed

text \<open>
  C16. Finishing settles every change, whatever the report names. When in a state that is reached while
  reports keep to their runs a finish is accepted, the run
  is closed, none of its entries is left running, and every entry of the queue is what the report
  makes of it: one the report does not name is untouched, one it names once is landed with the
  reported commits and tip, bounced with the reported reason and details, or waiting again, with all
  its other fields kept, and of several outcomes for one entry the last one decides its state. The
  queue no longer holds the port lease (for a target whose lease key and owner the lease manager
  takes as they are).
\<close>

theorem finish_settles_run:
  assumes "landing_reachable True s0" and "0 < ev_now env"
    and "finish env lease_manager_api rid runner report s0 = (Inr run, s')"
    and "\<exists>k. normalizeResourceKey (landingLeaseKey (lr_target run)) = Inr k"
    and "trim (landingQueueOwnerId (lr_target run)) = landingQueueOwnerId (lr_target run)"
    and "e \<in> set (lq_entries (load_queue s0))"
    and "about = filter (\<lambda>oc. outcome_entry oc = le_id e) (rp_outcomes report)"
  shows "\<exists>e'. e' \<in> set (lq_entries s') \<and> le_id e' = le_id e
    \<and> (about = [] \<longrightarrow> e' = e)
    \<and> (\<forall>oc. about = [oc] \<longrightarrow> e' = (case oc of
          OLanded _ commits \<Rightarrow> e\<lparr>le_state := Landed, le_mapping := Some commits, le_resolvedAt := Some (ev_now env), le_reason := None,
            le_details := None, le_pushedTip := (case truthy (rp_pushedTip report) of None \<Rightarrow> le_pushedTip e | Some tip \<Rightarrow> Some tip)\<rparr>
        | OBounced _ reason details \<Rightarrow> e\<lparr>le_state := Bounced, le_reason := Some reason, le_resolvedAt := Some (ev_now env),
            le_details := map_option (last_n 6000) (truthy details)\<rparr>
        | ORequeue _ reason \<Rightarrow> e\<lparr>le_state := Pending, le_runId := None, le_reason := Some reason\<rparr>))
    \<and> (about \<noteq> [] \<longrightarrow> le_state e' = (case last about of OLanded _ _ \<Rightarrow> Landed | OBounced _ _ _ \<Rightarrow> Bounced | ORequeue _ _ \<Rightarrow> Pending))
    \<and> (le_id e \<in> set (lr_entryIds run) \<longrightarrow> about \<noteq> [])
    \<and> lr_id run = rid \<and> lr_state run = RunFinished \<and> run \<in> set (lq_runs s')
    \<and> map le_id (lq_entries s') = map le_id (lq_entries (load_queue s0))
    \<and> \<not> holdsLease (landingLeaseKey (lr_target run)) (landingQueueOwnerId (lr_target run)) (ev_now env) (lq_leases s')"
proof -
  have inv: "landing_inv s0" "manager_inv (lq_leases s0)" using landing_reachable_inv [OF assms(1)] by (simp_all add: system_inv_def)
  let ?g = "outcomes_of (ev_now env) (rp_pushedTip report) (rp_outcomes report)"
  obtain r where r: "run = finished_run env report r" "r \<in> set (lq_runs (load_queue s0))" "lr_id r = rid"
      "set (lr_entryIds r) \<subseteq> set (map outcome_entry (rp_outcomes report))"
    and es: "lq_entries s' = map ?g (lq_entries (load_queue s0))"
    and rs: "lq_runs s' = map (\<lambda>x. if lr_id x = rid then finished_run env report r else x) (lq_runs (load_queue s0))"
    using finish_cases [OF inv(1) assms(3)] by auto
  obtain t where s': "s' = pumpSoon (lr_key run) (releaseLease env lease_manager_api (lr_target run) t)"
    and t: "manager_inv (lq_leases t)"
    using finish_releases [OF assms(3)] inv(2) by auto
  have same: "lr_id run = rid" "lr_entryIds run = lr_entryIds r" "lr_state run = RunFinished"
    using r(3) by (simp_all add: r(1) finished_run_def)
  have mem: "run \<in> set (lq_runs s')" using r by (auto simp: rs intro: rev_image_eqI)
  have "\<not> la_holds lease_manager_api (landingLeaseKey (lr_target run)) (landingQueueOwnerId (lr_target run)) (ev_now env)
      (lq_leases (releaseLease env lease_manager_api (lr_target run) t))"
    using lease_manager.releaseLease_gone [OF t assms(2,4,5)] .
  then have free: "\<not> holdsLease (landingLeaseKey (lr_target run)) (landingQueueOwnerId (lr_target run)) (ev_now env) (lq_leases s')"
    by (simp add: s' lease_manager_api_def)
  show ?thesis
  proof (intro exI [of _ "?g e"] conjI allI impI)
    show "?g e \<in> set (lq_entries s')" using assms(6) by (simp add: es)
    show "le_id (?g e) = le_id e" by simp
    show "?g e = e" if "about = []"
    proof -
      have "le_id e \<notin> set (map outcome_entry (rp_outcomes report))"
        using that unfolding assms(7) by (auto simp: filter_empty_conv)
      then show ?thesis by (rule outcomes_of_other)
    qed
    show "?g e = (case oc of
          OLanded _ commits \<Rightarrow> e\<lparr>le_state := Landed, le_mapping := Some commits, le_resolvedAt := Some (ev_now env), le_reason := None,
            le_details := None, le_pushedTip := (case truthy (rp_pushedTip report) of None \<Rightarrow> le_pushedTip e | Some tip \<Rightarrow> Some tip)\<rparr>
        | OBounced _ reason details \<Rightarrow> e\<lparr>le_state := Bounced, le_reason := Some reason, le_resolvedAt := Some (ev_now env),
            le_details := map_option (last_n 6000) (truthy details)\<rparr>
        | ORequeue _ reason \<Rightarrow> e\<lparr>le_state := Pending, le_runId := None, le_reason := Some reason\<rparr>)" if "about = [oc]" for oc
      unfolding outcomes_of_only [OF that [unfolded assms(7)]] by (cases oc) (simp_all add: MAX_DETAILS_def)
    show "le_state (?g e) = (case last about of OLanded _ _ \<Rightarrow> Landed | OBounced _ _ _ \<Rightarrow> Bounced | ORequeue _ _ \<Rightarrow> Pending)"
      if "about \<noteq> []"
    proof -
      have "\<exists>oc \<in> set (rp_outcomes report). outcome_entry oc = le_id e" using that unfolding assms(7) by (auto simp: filter_empty_conv)
      from outcomes_of_last [OF this] show ?thesis unfolding assms(7) [symmetric] by (cases "last about") simp_all
    qed
    show "about \<noteq> []" if "le_id e \<in> set (lr_entryIds run)"
      using that r(4) unfolding same(2) assms(7) by (fastforce simp: filter_empty_conv image_iff)
    show "lr_id run = rid" "lr_state run = RunFinished" by (rule same)+
    show "run \<in> set (lq_runs s')" by (rule mem)
    show "map le_id (lq_entries s') = map le_id (lq_entries (load_queue s0))" by (simp add: es comp_def)
    show "\<not> holdsLease (landingLeaseKey (lr_target run)) (landingQueueOwnerId (lr_target run)) (ev_now env) (lq_leases s')" by (rule free)
  qed
qed

text \<open>The runner of the example reports that the first change landed and the second one waits again.\<close>

definition demo_report :: run_report where
  "demo_report = \<lparr>rp_outcomes = [OLanded ''le-1'' [\<lparr>cm_source = ''c1'', cm_target = ''d1'', cm_subject = ''change'', cm_integrated = False\<rparr>],
       ORequeue ''le-2'' ''the merge failed''], rp_pushedTip = Some ''d1'', rp_summary = ''landed one'', rp_flaky = [],
     rp_preexisting = [], rp_logPath = None\<rparr>"

definition demo_finished :: landing_system where
  "demo_finished = snd (finish (demo_env 5000) lease_manager_api ''lr-1'' demo_runner demo_report demo_claimed)"

lemma demo_own: "own_outcomes ''lr-1'' demo_report demo_claimed"
proof -
  have "set (map outcome_entry (rp_outcomes demo_report)) = {''le-1'', ''le-2''}" by (simp add: demo_report_def)
  moreover have "lr_entryIds run = [''le-1'', ''le-2'']" if "find_run ''lr-1'' (load_queue demo_claimed) = Some run" for run
  proof -
    have "run \<in> set (lq_runs demo_claimed)" using find_member [OF that [unfolded find_run_def]] demo_claimed_data(4) by (simp add: load_queue_def)
    then have "lr_entryIds run \<in> set (map lr_entryIds (lq_runs demo_claimed))" by simp
    then show ?thesis unfolding demo_claimed_data(3) by simp
  qed
  ultimately show ?thesis by (simp add: own_outcomes_def)
qed

theorem finish_settles_run_witness:
  "\<exists>e'. e' \<in> set (lq_entries demo_finished) \<and> le_id e' = ''le-1'' \<and> le_state e' = Landed
    \<and> \<not> holdsLease ''port:app:main'' ''landing-queue:app:main'' 5000 (lq_leases demo_finished)"
proof -
  have f: "map_sum (\<lambda>_. ()) (\<lambda>run. (lt_repo (lr_target run), lt_branch (lr_target run)))
      (fst (finish (demo_env 5000) lease_manager_api ''lr-1'' demo_runner demo_report demo_claimed)) = Inr (''app'', ''main'')"
    by code_simp
  then obtain run where eq: "finish (demo_env 5000) lease_manager_api ''lr-1'' demo_runner demo_report demo_claimed = (Inr run, demo_finished)"
    "lr_target run = demo_target"
    by (auto simp: map_sum_Inr_iff demo_finished_def demo_target_def prod_eq_iff)
  have ex: "\<exists>k. normalizeResourceKey (landingLeaseKey (lr_target run)) = Inr k"
    unfolding eq(2) by (intro exI [of _ "landingLeaseKey demo_target"]) code_simp
  have tr: "trim (landingQueueOwnerId (lr_target run)) = landingQueueOwnerId (lr_target run)" unfolding eq(2) by code_simp
  have "map le_id (lq_entries (load_queue demo_claimed)) = [''le-1'', ''le-2'']" by code_simp
  then obtain e es where "lq_entries (load_queue demo_claimed) = e # es" "le_id e = ''le-1''" by (auto simp: map_eq_Cons_conv)
  then have e: "e \<in> set (lq_entries (load_queue demo_claimed))" "le_id e = ''le-1''" by simp_all
  have pos: "0 < ev_now (demo_env 5000)" "ev_now (demo_env 5000) = 5000" by (simp_all add: demo_env_def)
  note settled = finish_settles_run [OF demo_reachable(3) pos(1) eq(1) ex tr e(1) refl]
  have about: "filter (\<lambda>oc. outcome_entry oc = le_id e) (rp_outcomes demo_report)
      = [OLanded ''le-1'' [\<lparr>cm_source = ''c1'', cm_target = ''d1'', cm_subject = ''change'', cm_integrated = False\<rparr>]]"
    by (simp add: e(2) demo_report_def)
  have names: "landingLeaseKey demo_target = ''port:app:main''" "landingQueueOwnerId demo_target = ''landing-queue:app:main''" by code_simp+
  let ?F = "filter (\<lambda>oc. outcome_entry oc = le_id e) (rp_outcomes demo_report)"
  obtain e' where e': "e' \<in> set (lq_entries demo_finished)" "le_id e' = le_id e"
    "?F \<noteq> [] \<longrightarrow> le_state e' = (case last ?F of OLanded _ _ \<Rightarrow> Landed | OBounced _ _ _ \<Rightarrow> Bounced | ORequeue _ _ \<Rightarrow> Pending)"
    "\<not> holdsLease (landingLeaseKey (lr_target run)) (landingQueueOwnerId (lr_target run)) (ev_now (demo_env 5000)) (lq_leases demo_finished)"
    using settled by (elim exE conjE) (rule that; assumption)
  have "le_state e' = Landed" using e'(3) unfolding about by simp
  moreover have "\<not> holdsLease ''port:app:main'' ''landing-queue:app:main'' 5000 (lq_leases demo_finished)"
    using e'(4) unfolding eq(2) names pos(2) .
  ultimately show ?thesis using e'(1,2) e(2) by auto
qed

end
