(* ===== verification/Landing_Recovery.thy ===== *)
theory Landing_Recovery
  imports Landing_Runs
begin

text \<open>
  What happens around a run: interruption and reconciliation, starting and authenticating runners,
  recording a push plan, retries after failures, and what a report may touch.
\<close>

section \<open>Interruption and reconciliation\<close>

lemma reconcile_outcome_entry [simp]: "outcome_entry (reconcile_outcome pushed plan i) = i"
  by (simp add: reconcile_outcome_def split: option.splits)

text \<open>
  C17. A runner that exits while its run is under way loses nothing: the run is abandoned; without a
  recorded push plan every change it carried waits again, with one every entry stays with the run,
  which then waits to be reconciled. All other entries and runs are as before.
\<close>

theorem lost_runner_keeps_changes:
  assumes "landing_reachable True s0"
    and "find_launch lid (load_queue s0) = Some launch" and "ll_runId launch = Some rid"
    and "find_run rid (load_queue s0) = Some run" and "lr_state run = RunRunning"
    and "s' = runnerExited env lease_manager_api lid detail s0"
  shows "(\<exists>r. r \<in> set (lq_runs s') \<and> lr_id r = rid \<and> lr_state r = RunAbandoned \<and> lr_plan r = lr_plan run
        \<and> lr_entryIds r = lr_entryIds run \<and> (isUnreconciled r \<longleftrightarrow> lr_plan run \<noteq> None))
    \<and> (\<forall>r. r \<in> set (lq_runs (load_queue s0)) \<and> lr_id r \<noteq> rid \<longrightarrow> r \<in> set (lq_runs s'))
    \<and> lq_entries s' = (if lr_plan run = None
        then map (\<lambda>e. if le_id e \<in> set (lr_entryIds run) then e\<lparr>le_state := Pending, le_runId := None\<rparr> else e)
               (lq_entries (load_queue s0))
        else lq_entries (load_queue s0))"
proof -
  let ?s = "load_queue s0"
  define why where "why = ''its runner exited ('' @ detail @ '')''"
  have s: "ready ?s" by (rule reachable_ready [OF assms(1)])
  have r: "run \<in> set (lq_runs ?s)" "lr_id run = rid" using assms(4) s by (simp_all add: find_run_Some)
  note a = abandon_data [OF s r(1), of env why]
  have q: "lq_runs s' = lq_runs (abandon env run why ?s)" "lq_entries s' = lq_entries (abandon env run why ?s)"
    using assms(2-6) by (simp_all add: runnerExited_def Let_def why_def)
  have plan: "\<not> pp_reconciled p" if "lr_plan run = Some p" for p
    using ready_ok [OF s] r(1) assms(5) that by (fastforce simp: queue_inv_def runs_ok_def)
  let ?r = "abandoned_run env why run"
  have "?r \<in> set (lq_runs s')" using r by (auto simp: q(1) a(1) intro: rev_image_eqI)
  moreover have "isUnreconciled ?r \<longleftrightarrow> lr_plan run \<noteq> None"
    using plan by (auto simp: isUnreconciled_def abandoned_run_def split: option.splits)
  moreover have "lr_id ?r = rid" "lr_state ?r = RunAbandoned" "lr_plan ?r = lr_plan run" "lr_entryIds ?r = lr_entryIds run"
    using r(2) by (simp_all add: abandoned_run_def)
  moreover have "x \<in> set (lq_runs s')" if "x \<in> set (lq_runs ?s)" "lr_id x \<noteq> rid" for x
    unfolding q(1) a(1) set_map using that r(2) by (intro rev_image_eqI [OF that(1)]) simp
  ultimately show ?thesis unfolding q(2) a(2) by blast
qed

text \<open>
  C18. Reconciling settles exactly what the remote shows. If the recorded push reached the remote,
  every entry of the interrupted run that the plan maps is landed with its recorded commits and
  every other one is bounced; if it did not, all of them wait again. Other entries are untouched and
  the run never comes up for reconciliation again.
\<close>

theorem reconcile_settles:
  assumes "landing_reachable True s0"
    and "reconcile env lease_manager_api rid runner pushed s0 = (Inr run, s')"
    and "e \<in> set (lq_entries (load_queue s0))"
  shows "\<exists>plan e'. lr_plan run = Some plan \<and> e' \<in> set (lq_entries s') \<and> le_id e' = le_id e
    \<and> (le_id e \<notin> set (lr_entryIds run) \<longrightarrow> e' = e)
    \<and> (le_id e \<in> set (lr_entryIds run) \<longrightarrow> le_state e = Running \<and>
        (if \<not> pushed then le_state e' = Pending \<and> le_runId e' = None
         else (case map_of (pp_mapping plan) (le_id e) of
             Some m \<Rightarrow> le_state e' = Landed \<and> le_mapping e' = Some m \<and> (pp_tip plan \<noteq> [] \<longrightarrow> le_pushedTip e' = Some (pp_tip plan))
           | None \<Rightarrow> le_state e' = Bounced)))
    \<and> run \<in> set (lq_runs s') \<and> \<not> isUnreconciled run \<and> rid \<notin> lr_id ` set (unreconciled_of (lr_key run) s')"
proof -
  let ?s = "load_queue s0"
  have inv: "landing_inv s0" using landing_reachable_inv [OF assms(1)] by (simp add: system_inv_def)
  have s: "ready ?s" by (rule reachable_ready [OF assms(1)])
  have q: "queue_ok_state ?s" using s by (rule ready_ok)
  obtain r plan where r: "run = reconciled_run runner pushed r" "r \<in> set (lq_runs ?s)" "lr_id r = rid"
      "isUnreconciled r" "lr_plan r = Some plan"
    and es: "lq_entries s' = map (outcomes_of (ev_now env) (if pushed then Some (pp_tip plan) else None)
               (map (reconcile_outcome pushed plan) (lr_entryIds r))) (lq_entries ?s)"
    and rs: "lq_runs s' = map (\<lambda>x. if lr_id x = rid then reconciled_run runner pushed r else x) (lq_runs ?s)"
    using reconcile_cases [OF inv assms(2)] by auto
  let ?ocs = "map (reconcile_outcome pushed plan) (lr_entryIds r)" and ?tip = "if pushed then Some (pp_tip plan) else None"
  define e' where "e' = outcomes_of (ev_now env) ?tip ?ocs e"
  have o: "open_run r" using r(4) by (simp add: open_run_def)
  have ids: "map outcome_entry ?ocs = lr_entryIds r" by (simp add: comp_def)
  have d: "distinct (map outcome_entry ?ocs)"
    using q r(2) o unfolding ids by (simp add: queue_inv_def runs_ok_def)
  define plan' where "plan' = plan\<lparr>pp_reconciled := True\<rparr>"
  have plan': "pp_mapping plan' = pp_mapping plan" "pp_tip plan' = pp_tip plan" by (simp_all add: plan'_def)
  have run: "lr_plan run = Some plan'" "lr_entryIds run = lr_entryIds r" "lr_id run = rid"
    by (simp_all add: r(1,3,5) reconciled_run_def plan'_def)
  have id: "le_id e' = le_id e" by (simp add: e'_def)
  have other: "le_id e \<notin> set (lr_entryIds run) \<longrightarrow> e' = e" unfolding e'_def run(2) using outcomes_of_other ids by metis
  have own: "le_state e = Running \<and> e' = apply_outcome (ev_now env) ?tip (reconcile_outcome pushed plan (le_id e)) e"
    if i: "le_id e \<in> set (lr_entryIds r)"
    using open_run_of_entry [OF q r(2) o assms(3) i] outcomes_of_once [OF d, of "reconcile_outcome pushed plan (le_id e)"] i
    by (simp add: e'_def)
  have not_open: "\<not> isUnreconciled run" using run(1) by (simp add: isUnreconciled_def plan'_def)
  have gone: "rid \<notin> lr_id ` set (unreconciled_of (lr_key run) s')"
    using not_open by (auto simp: unreconciled_of_def rs r(1))
  have mem: "run \<in> set (lq_runs s')" "e' \<in> set (lq_entries s')"
    using r assms(3) by (auto simp: rs es e'_def intro: rev_image_eqI)
  have "le_id e \<in> set (lr_entryIds run) \<longrightarrow> le_state e = Running \<and>
        (if \<not> pushed then le_state e' = Pending \<and> le_runId e' = None
         else (case map_of (pp_mapping plan') (le_id e) of
             Some m \<Rightarrow> le_state e' = Landed \<and> le_mapping e' = Some m \<and> (pp_tip plan' \<noteq> [] \<longrightarrow> le_pushedTip e' = Some (pp_tip plan'))
           | None \<Rightarrow> le_state e' = Bounced))"
    using own unfolding run(2) plan'
    by (cases "map_of (pp_mapping plan) (le_id e)") (simp_all add: reconcile_outcome_def)
  with run(1) id other not_open gone mem show ?thesis by blast
qed

text \<open>
  The example continues: the runner records a plan that drops the second change and falls silent;
  someone starts another runner by hand, which reconciles.
\<close>

definition demo_plan :: push_plan where
  "demo_plan = \<lparr>pp_base = ''d0'', pp_tip = ''d1'',
     pp_mapping = [(''le-1'', [\<lparr>cm_source = ''c1'', cm_target = ''d1'', cm_subject = ''change'', cm_integrated = False\<rparr>])],
     pp_reconciled = False\<rparr>"

definition demo_planned :: landing_system where
  "demo_planned = launch_settled (demo_env 6000) lease_manager_api ''app:main'' None
     (snd (recordPlan (demo_env 5000) lease_manager_api ''lr-1'' demo_runner demo_plan demo_claimed))"

definition demo_replaced :: landing_system where
  "demo_replaced = snd (startRunnerByHand (demo_env 300000) lease_manager_api ''2'' ''secret2'' ''s9'' demo_target None ''/app'' demo_planned)"

definition demo_runner2 :: runner_caller where
  "demo_runner2 = demo_runner\<lparr>rc_launchId := ''ll-2''\<rparr>"

lemma demo_planned_data: "lq_loaded demo_planned" "map ll_id (lq_launches demo_planned) = [''ll-1'']"
  by code_simp+

lemma demo_replaced_data: "lq_loaded demo_replaced" "map le_id (lq_entries demo_replaced) = [''le-1'', ''le-2'']"
  by code_simp+

lemma demo_planned_reachable: "landing_reachable True demo_planned"
proof -
  let ?s = "snd (recordPlan (demo_env 5000) lease_manager_api ''lr-1'' demo_runner demo_plan demo_claimed) :: landing_system"
  have "landing_reachable True ?s"
    by (intro landing_reachable.step [OF demo_reachable(3)] landing_step.recordPlan) (simp add: demo_plan_def)
  moreover have "lq_loaded ?s" by code_simp
  ultimately show ?thesis
    using landing_reachable.step [OF _ landing_step.settled [of "demo_env 6000" True ?s "''app:main''" None]]
    by (simp add: demo_planned_def load_queue_def demo_env_def)
qed

lemma demo_replaced_reachable: "landing_reachable True demo_replaced"
proof -
  have "''ll-2'' \<notin> set (map ll_id (lq_launches (load_queue demo_planned)))"
    using demo_planned_data by (simp add: load_queue_def)
  then show ?thesis
    unfolding demo_replaced_def
    by (intro landing_reachable.step [OF demo_planned_reachable] landing_step.by_hand) (simp_all add: demo_env_def)
qed

theorem lost_runner_keeps_changes_witness:
  "map le_state (lq_entries (runnerExited (demo_env 6000) lease_manager_api ''ll-1'' ''exit 1'' demo_claimed)) = [Pending, Pending]"
proof -
  let ?s = "load_queue demo_claimed"
  have "map_option ll_runId (find_launch ''ll-1'' ?s) = Some (Some ''lr-1'')"
    "map_option (\<lambda>r. (lr_state r, lr_plan r = None, lr_entryIds r)) (find_run ''lr-1'' ?s) = Some (RunRunning, True, [''le-1'', ''le-2''])"
    "map le_id (lq_entries ?s) = [''le-1'', ''le-2'']" by code_simp+
  then obtain launch run where l: "find_launch ''ll-1'' ?s = Some launch" "ll_runId launch = Some ''lr-1''"
    "find_run ''lr-1'' ?s = Some run" "lr_state run = RunRunning" and r: "lr_plan run = None" "lr_entryIds run = [''le-1'', ''le-2'']"
    and e: "map le_id (lq_entries ?s) = [''le-1'', ''le-2'']" by auto
  have "lq_entries (runnerExited (demo_env 6000) lease_manager_api ''ll-1'' ''exit 1'' demo_claimed)
      = map (\<lambda>e. if le_id e \<in> set (lr_entryIds run) then e\<lparr>le_state := Pending, le_runId := None\<rparr> else e) (lq_entries ?s)"
    using lost_runner_keeps_changes [OF demo_reachable(3) l refl, of "demo_env 6000" "''exit 1''"] r(1) by simp
  moreover obtain a b where "lq_entries ?s = [a, b]" "le_id a = ''le-1''" "le_id b = ''le-2''" using e by auto
  ultimately show ?thesis using r(2) by simp
qed

theorem reconcile_settles_witness:
  "\<exists>run s'. reconcile (demo_env 301000) lease_manager_api ''lr-1'' demo_runner2 True demo_replaced = (Inr (run :: landing_run), s')
    \<and> (\<exists>e' \<in> set (lq_entries s'). le_id e' = ''le-1'' \<and> le_state e' = Landed)"
proof -
  have "map_sum (\<lambda>_. ()) (\<lambda>run. (lr_entryIds run, map_option (map fst \<circ> pp_mapping) (lr_plan run)))
      (fst (reconcile (demo_env 301000) lease_manager_api ''lr-1'' demo_runner2 True demo_replaced))
      = Inr ([''le-1'', ''le-2''], Some [''le-1''])" by code_simp
  then obtain run plan s' where eq: "reconcile (demo_env 301000) lease_manager_api ''lr-1'' demo_runner2 True demo_replaced = (Inr run, s')"
    "lr_entryIds run = [''le-1'', ''le-2'']" "lr_plan run = Some plan" "map fst (pp_mapping plan) = [''le-1'']"
    by (auto simp: map_sum_Inr_iff prod_eq_iff)
  have "''le-1'' \<in> set (map le_id (lq_entries (load_queue demo_replaced)))"
    using demo_replaced_data by (simp add: load_queue_def)
  then obtain e where e: "e \<in> set (lq_entries (load_queue demo_replaced))" "le_id e = ''le-1''" by auto
  obtain m where "map_of (pp_mapping plan) (le_id e) = Some m"
    using eq(4) by (cases "pp_mapping plan") (auto simp: e(2))
  then have "\<exists>e' \<in> set (lq_entries s'). le_id e' = ''le-1'' \<and> le_state e' = Landed"
    using reconcile_settles [OF demo_replaced_reachable eq(1) e(1)] eq(2,3) e(2) by auto
  with eq(1) show ?thesis by blast
qed

section \<open>Starting a runner\<close>

lemma acquire_and_launch_at:
  assumes "acquire_and_launch env api fresh token key t p u s = (Inr (Some rq), s')"
  shows "\<exists>l1. launch_at env api fresh token key t p u (s\<lparr>lq_leases := l1\<rparr>) = (Inr (Some rq), s')"
proof (cases "la_holds api (landingLeaseKey t) (landingQueueOwnerId t) (ev_now env) (lq_leases s)")
  case True
  then show ?thesis using assms by (intro exI [of _ "lq_leases s"]) (simp add: acquire_and_launch_def)
next
  case False
  then show ?thesis
    using assms by (auto simp: acquire_and_launch_def Let_def split_beta split: sum.splits acquire_result.splits)
qed

lemma launch_at_record:
  "launch_at env api fresh token key t p u s = (Inr (Some rq), s') \<Longrightarrow>
    (key, rq) \<in> set (lq_launching s') \<and> (\<exists>l. lq_launches s' = lq_launches s @ [l] \<and> ll_id l = rn_launchId rq
      \<and> ll_target l = rn_target rq \<and> ll_tokenHash l = ev_sha256 env token \<and> ll_endedAt l = None)"
  by (auto simp: launch_at_def newLaunch_def save_queue_def Let_def split: option.splits)

lemma planLaunch_guards:
  assumes "planLaunch env api fresh token key s0 = (Inr (Some request), s')"
  shows "\<not> list_ex (\<lambda>l. ll_key l = key \<and> \<not> launch_ended l \<and> ll_runId l = None) (lq_launches (load_queue s0))"
    and "pending_of key (load_queue s0) \<noteq> [] \<or> unreconciled_of key (load_queue s0) \<noteq> []"
    and "lq_trouble (load_queue s0) key = Some t \<Longrightarrow> qt_retryAt t \<le> ev_now env"
  using assms by (auto simp: planLaunch_def Let_def split: if_splits option.splits list.splits)

text \<open>
  C19. The queue starts a runner only while it holds the branch's port lease, and never beside
  another runner: no run of the queue is under way, no runner is being started, and no runner that
  was started is still to claim its run. There is something to land or to reconcile, the wait after a
  failure is over, the new launch is on record with only the hash of its token, and while the pool
  has capacity 1 nobody else can hold the lease.
\<close>

theorem runner_needs_lease:
  assumes "landing_reachable True s0" and "0 < ev_now env"
    and "planLaunch env lease_manager_api fresh token key s0 = (Inr (Some request), s')"
    and "trim (landingQueueOwnerId (rn_target request)) = landingQueueOwnerId (rn_target request)"
  shows "holdsLease (landingLeaseKey (rn_target request)) (landingQueueOwnerId (rn_target request)) (ev_now env) (lq_leases s')
    \<and> (\<forall>r. r \<in> set (lq_runs (load_queue s0)) \<and> lr_key r = key \<longrightarrow> lr_state r \<noteq> RunRunning)
    \<and> key \<notin> fst ` set (lq_launching (load_queue s0))
    \<and> (\<forall>l. l \<in> set (lq_launches (load_queue s0)) \<and> ll_key l = key \<longrightarrow> launch_ended l \<or> ll_runId l \<noteq> None)
    \<and> (pending_of key (load_queue s0) \<noteq> [] \<or> unreconciled_of key (load_queue s0) \<noteq> [])
    \<and> (\<forall>t. lq_trouble (load_queue s0) key = Some t \<longrightarrow> qt_retryAt t \<le> ev_now env)
    \<and> (key, request) \<in> set (lq_launching s')
    \<and> (\<exists>l. lq_launches s' = lq_launches (load_queue s0) @ [l] \<and> ll_id l = rn_launchId request \<and> ll_target l = rn_target request
         \<and> ll_tokenHash l = ev_sha256 env token \<and> ll_endedAt l = None)
    \<and> (getCapacity (ls_data (lq_leases s')) (pool_key (landingLeaseKey (rn_target request))) = 1 \<longrightarrow>
         (\<forall>who. holdsLease (landingLeaseKey (rn_target request)) who (ev_now env) (lq_leases s') \<longrightarrow> who = landingQueueOwnerId (rn_target request)))"
proof -
  have inv: "manager_inv (lq_leases s0)" using landing_reachable_inv [OF assms(1)] by (simp add: system_inv_def)
  have holds: "holdsLease (landingLeaseKey (rn_target request)) (landingQueueOwnerId (rn_target request)) (ev_now env) (lq_leases s')"
    using lease_manager.planLaunch_holds [OF assms(3) inv assms(2,4)] by (simp add: lease_manager_api_def)
  have inv': "manager_inv (lq_leases s')"
    using lease_manager.planLaunch_inv [of s0 env fresh token key] inv assms(2,3) by simp
  have idle: "active_run key (load_queue s0) = None" "key \<notin> fst ` set (lq_launching (load_queue s0))"
    using assms(3) by (auto simp: planLaunch_def Let_def split: if_splits option.splits)
  have unclaimed: "launch_ended l \<or> ll_runId l \<noteq> None" if "l \<in> set (lq_launches (load_queue s0))" "ll_key l = key" for l
    using planLaunch_guards(1) [OF assms(3)] that by (auto simp: list_ex_iff)
  note guards = planLaunch_guards(2,3) [OF assms(3)]
  have no_run: "lr_state r \<noteq> RunRunning" if "r \<in> set (lq_runs (load_queue s0))" "lr_key r = key" for r
    using idle(1) that by (auto simp: active_run_None)
  obtain t p u where "acquire_and_launch env lease_manager_api fresh token key t p u (load_queue s0) = (Inr (Some request), s')"
    using lease_manager.planLaunch_Some [OF assms(3)] by blast
  then obtain l1 where "launch_at env lease_manager_api fresh token key t p u ((load_queue s0)\<lparr>lq_leases := l1\<rparr>) = (Inr (Some request), s')"
    using acquire_and_launch_at by blast
  from launch_at_record [OF this]
  have rec: "(key, request) \<in> set (lq_launching s')"
    "\<exists>l. lq_launches s' = lq_launches (load_queue s0) @ [l] \<and> ll_id l = rn_launchId request \<and> ll_target l = rn_target request
      \<and> ll_tokenHash l = ev_sha256 env token \<and> ll_endedAt l = None"
    by simp_all
  have only: "who = landingQueueOwnerId (rn_target request)"
    if "getCapacity (ls_data (lq_leases s')) (pool_key (landingLeaseKey (rn_target request))) = 1"
      "holdsLease (landingLeaseKey (rn_target request)) who (ev_now env) (lq_leases s')" for who
    using lease_manager.exclusive [OF inv' that(1)] that(2) holds by (simp add: lease_manager_api_def)
  show ?thesis
    using holds no_run idle(2) unclaimed guards rec only by (intro conjI allI impI) simp_all
qed

section \<open>Recording a push plan\<close>

text \<open>
  C20. A push plan is accepted only from the runner of a run under way whose owner holds the port
  lease at that moment (and, in a pool of one, nobody else does), only if it speaks of the run's
  own entries, and it is on disk before the runner may push.
\<close>

theorem plan_needs_lease:
  assumes "landing_reachable True s0"
    and "recordPlan env lease_manager_api rid runner plan s0 = (Inr res, s')"
  shows "\<exists>run. run \<in> set (lq_runs (load_queue s0)) \<and> lr_id run = rid \<and> lr_state run = RunRunning
    \<and> lr_launchId run = Some (rc_launchId runner) \<and> set (obj_keys (pp_mapping plan)) \<subseteq> set (lr_entryIds run)
    \<and> holdsLease (landingLeaseKey (lr_target run)) (rc_ownerId runner) (ev_now env) (lq_leases s')
    \<and> (getCapacity (ls_data (lq_leases s')) (pool_key (landingLeaseKey (lr_target run))) = 1 \<longrightarrow>
         (\<forall>who. holdsLease (landingLeaseKey (lr_target run)) who (ev_now env) (lq_leases s') \<longrightarrow> who = rc_ownerId runner))
    \<and> (\<exists>file r. lq_disk s' = Some file \<and> r \<in> set (lf_runs file) \<and> lr_id r = rid \<and> lr_plan r = Some plan \<and> res = Some r)"
proof -
  let ?s = "load_queue s0"
  have inv: "manager_inv (lq_leases s0)" using landing_reachable_inv [OF assms(1)] by (simp add: system_inv_def)
  have s: "ready ?s" by (rule reachable_ready [OF assms(1)])
  obtain run where o: "ownedRunningRun rid runner ?s = Inr run"
    using assms(2) by (cases "ownedRunningRun rid runner ?s") (simp_all add: recordPlan_def Let_def check_res_def)
  note run = ownedRunningRun_Inr [OF o s]
  let ?f = "\<lambda>r. r\<lparr>lr_plan := Some plan, lr_heartbeatAt := ev_now env, lr_phase := ''pushing''\<rparr>"
  have h: "holdsLease (landingLeaseKey (lr_target run)) (rc_ownerId runner) (ev_now env) (lq_leases ?s)"
    and keys: "set (obj_keys (pp_mapping plan)) \<subseteq> set (lr_entryIds run)"
    and eq: "res = find_run rid (set_run rid ?f ?s)" "s' = save_queue (set_run rid ?f ?s)"
    using assms(2) by (auto simp: recordPlan_def Let_def check_res_def o lease_manager_api_def find_None_iff
        split: if_splits option.splits)
  have runs: "lq_runs (set_run rid ?f ?s) = map (\<lambda>x. if lr_id x = rid then ?f run else x) (lq_runs ?s)"
    using set_run_one [OF s, of run rid ?f] run by simp
  have leases: "lq_leases s' = lq_leases s0" by (simp add: eq(2) set_run_def)
  have mem: "?f run \<in> set (lq_runs (set_run rid ?f ?s))" using run by (auto simp: runs intro: rev_image_eqI)
  have "distinct (map lr_id (lq_runs (set_run rid ?f ?s)))"
    using ready_ok [OF s] by (simp add: set_run_def map_update_first queue_inv_def runs_ok_def)
  then have found: "find_run rid (set_run rid ?f ?s) = Some (?f run)"
    using mem run by (simp add: find_run_def find_by_id)
  have only: "who = rc_ownerId runner"
    if "getCapacity (ls_data (lq_leases s')) (pool_key (landingLeaseKey (lr_target run))) = 1"
      "holdsLease (landingLeaseKey (lr_target run)) who (ev_now env) (lq_leases s')" for who
    using lease_manager.exclusive [OF inv that(1) [unfolded leases]] that(2) h by (simp add: lease_manager_api_def leases)
  have "\<exists>file r. lq_disk s' = Some file \<and> r \<in> set (lf_runs file) \<and> lr_id r = rid \<and> lr_plan r = Some plan \<and> res = Some r"
    using mem run found by (intro exI [of _ "\<lparr>lf_entries = lq_entries (set_run rid ?f ?s), lf_runs = lq_runs (set_run rid ?f ?s),
      lf_launches = lq_launches (set_run rid ?f ?s)\<rparr>"] exI [of _ "?f run"]) (simp add: eq save_queue_def)
  with run keys h only show ?thesis by (intro exI [of _ run]) (simp add: leases)
qed

theorem runner_needs_lease_witness:
  "\<exists>request s'. planLaunch (demo_env 3000) lease_manager_api ''1'' ''secret'' ''app:main'' demo_submitted = (Inr (Some request), s')
    \<and> holdsLease ''port:app:main'' ''landing-queue:app:main'' 3000 (lq_leases s')"
proof -
  have "map_sum (\<lambda>_. ()) (map_option rn_target) (fst (planLaunch (demo_env 3000) lease_manager_api ''1'' ''secret'' ''app:main'' demo_submitted))
      = Inr (Some demo_target)" by code_simp
  then obtain request s' where eq: "planLaunch (demo_env 3000) lease_manager_api ''1'' ''secret'' ''app:main'' demo_submitted = (Inr (Some request), s')"
    "rn_target request = demo_target" by (auto simp: map_sum_Inr_iff prod_eq_iff)
  have "trim (landingQueueOwnerId demo_target) = landingQueueOwnerId demo_target" by code_simp
  moreover have "landingLeaseKey demo_target = ''port:app:main''" "landingQueueOwnerId demo_target = ''landing-queue:app:main''" by code_simp+
  moreover have "0 < ev_now (demo_env 3000)" "ev_now (demo_env 3000) = 3000" by (simp_all add: demo_env_def)
  ultimately have "holdsLease ''port:app:main'' ''landing-queue:app:main'' 3000 (lq_leases s')"
    using runner_needs_lease [OF demo_reachable(1) _ eq(1)] by (simp only: eq(2))
  with eq(1) show ?thesis by blast
qed

theorem plan_needs_lease_witness:
  "\<exists>res s'. recordPlan (demo_env 5000) lease_manager_api ''lr-1'' demo_runner demo_plan demo_claimed = (Inr res, s')
    \<and> (\<exists>file r. lq_disk s' = Some file \<and> r \<in> set (lf_runs file) \<and> lr_plan r = Some demo_plan)"
proof -
  have "map_sum (\<lambda>_. ()) (\<lambda>_. ()) (fst (recordPlan (demo_env 5000) lease_manager_api ''lr-1'' demo_runner demo_plan demo_claimed)) = Inr ()"
    by code_simp
  then obtain res s' where eq: "recordPlan (demo_env 5000) lease_manager_api ''lr-1'' demo_runner demo_plan demo_claimed = (Inr res, s')"
    by (auto simp: map_sum_Inr_iff prod_eq_iff)
  from plan_needs_lease [OF demo_reachable(3) eq] eq show ?thesis by blast
qed

section \<open>Authenticating runners\<close>

lemma find_snoc: "List.find P xs = None \<Longrightarrow> P l \<Longrightarrow> List.find P (xs @ [l]) = Some l"
  by (induction xs) (auto split: if_splits)

lemma update_first_snoc: "List.find P xs = None \<Longrightarrow> P l \<Longrightarrow> update_first P f (xs @ [l]) = xs @ [f l]"
  by (induction xs) (auto split: if_splits)

text \<open>
  C21. A runner authenticates with exactly the credentials it was started with: for a fresh launch
  identifier, the session name and token handed to the new runner are accepted and name its launch,
  owner and target; a token with another hash is not, and once the launch has ended neither is the
  right one.
\<close>

theorem runner_credentials:
  assumes "newLaunch env fresh token target host checkout who s = (request, s')"
    and "''ll-'' @ fresh \<notin> ll_id ` set (lq_launches s)" and "token \<noteq> []" and "ev_now env' \<noteq> 0"
  shows "verifyRunner env (Some (rn_sessionId request)) (Some (rn_token request)) s'
        = Some \<lparr>rc_launchId = rn_launchId request, rc_ownerId = landingQueueOwnerId target, rc_target = target, rc_hostId = truthy host\<rparr>
    \<and> (ev_sha256 env other \<noteq> ev_sha256 env token \<longrightarrow> verifyRunner env (Some (rn_sessionId request)) (Some other) s' = None)
    \<and> verifyRunner env (Some (rn_sessionId request)) (Some (rn_token request)) (end_launch env' (rn_launchId request) s') = None"
proof -
  define lid where "lid = ''ll-'' @ fresh"
  define l where "l = \<lparr>ll_id = lid, ll_key = landingQueueKey target, ll_target = target,
      ll_hostId = truthy host, ll_baseCheckout = checkout, ll_launchedAt = ev_now env, ll_tokenHash = ev_sha256 env token,
      ll_startedBySessionId = truthy who, ll_runId = None, ll_endedAt = None\<rparr>"
  have rq: "rn_sessionId request = LANDING_RUNNER_SESSION_PREFIX @ lid" "rn_launchId request = lid" "rn_token request = token"
    and s': "lq_launches s' = lq_launches s @ [l]"
    using assms(1) by (auto simp: newLaunch_def Let_def lid_def l_def)
  have new: "List.find (\<lambda>x. ll_id x = lid) (lq_launches s) = None"
    using assms(2) [folded lid_def] by (auto simp: find_None_iff)
  have found: "find_launch lid s' = Some l"
    using new by (simp add: find_launch_def s' find_snoc l_def)
  have ended: "find_launch lid (end_launch env' lid s') = Some (l\<lparr>ll_endedAt := Some (ev_now env')\<rparr>)"
    using new by (simp add: find_launch_def end_launch_def set_launch_def s' update_first_snoc find_snoc l_def)
  show ?thesis
    using assms(3,4) by (auto simp: verifyRunner_def rq found ended starts_with_def truthy_def launch_ended_def l_def
        split: option.splits list.splits)
qed

section \<open>Retries\<close>

definition failures_in_row ::
  "string \<Rightarrow> (landing_env \<times> landing_entry list \<times> string) list \<Rightarrow> 'l landing_state \<Rightarrow> 'l landing_state" where
  "failures_in_row key fs s = fold (\<lambda>(env, es, message). recordFailureFor env key es message) fs s"

definition is_alert :: "landing_effect \<Rightarrow> bool" where
  "is_alert e = (case e of AlertLeaders _ _ \<Rightarrow> True | _ \<Rightarrow> False)"

lemma retry_delay_cases: "0 < n \<Longrightarrow> retry_delay n = (if n = 1 then 0 else if n = 2 then 60000 else if n = 3 then 300000 else 900000)"
proof -
  assume "0 < n"
  then consider "n = 1" | "n = 2" | "n = 3" | "4 \<le> n" by linarith
  then show ?thesis by cases (simp_all add: retry_delay_def RETRY_DELAYS_MS_def min_def)
qed

text \<open>
  C22. A queue that keeps failing is retried at once after the first failure, then after 1, 5 and
  15 minutes and every 15 minutes from then on, and its leaders are alerted exactly once, at the
  second failure in a row, however long it goes on.
\<close>

theorem failures_back_off_and_alert_once:
  assumes "lq_trouble s key = None" and "\<And>env es message. (env, es, message) \<in> set fs \<Longrightarrow> es \<noteq> []"
    and "fs \<noteq> []"
  shows "length (filter is_alert (lq_log (failures_in_row key fs s))) = length (filter is_alert (lq_log s)) + (if 2 \<le> length fs then 1 else 0)
    \<and> (\<exists>t. lq_trouble (failures_in_row key fs s) key = Some t \<and> qt_failures t = length fs \<and> qt_at t = ev_now (fst (last fs))
        \<and> qt_retryAt t = qt_at t + (if length fs = 1 then 0 else if length fs = 2 then 60000 else if length fs = 3 then 300000 else 900000)
        \<and> (qt_alerted t \<longleftrightarrow> 2 \<le> length fs))"
  using assms(2,3)
proof (induction fs rule: rev_induct)
  case (snoc f fs)
  obtain env es message where f: "f = (env, es, message)" by (cases f) auto
  have es: "es \<noteq> []" using snoc.prems(1) [of env es message] f by simp
  let ?s = "failures_in_row key fs s"
  have step: "failures_in_row key (fs @ [f]) s = recordFailureFor env key es message ?s" by (simp add: failures_in_row_def f)
  show ?case
  proof (cases "fs = []")
    case True
    then show ?thesis
      using assms(1) es by (simp add: step failures_in_row_def f recordFailureFor_def Let_def set_trouble_def ALERT_AFTER_FAILURES_def
          retry_delay_cases)
  next
    case False
    then obtain t where t: "lq_trouble ?s key = Some t" "qt_failures t = length fs" "qt_alerted t \<longleftrightarrow> 2 \<le> length fs"
      and n: "length (filter is_alert (lq_log ?s)) = length (filter is_alert (lq_log s)) + (if 2 \<le> length fs then 1 else 0)"
      using snoc by auto
    have pos: "Suc 0 \<le> length fs" using False by (cases fs) simp_all
    have alert: "length (fs @ [f]) = Suc (length fs)" "is_alert (AlertLeaders es m)" for m by (simp_all add: is_alert_def)
    have "lq_trouble (failures_in_row key (fs @ [f]) s) key = Some \<lparr>qt_failures = Suc (length fs), qt_message = message, qt_at = ev_now env,
        qt_retryAt = ev_now env + retry_delay (Suc (length fs)), qt_alerted = True\<rparr>"
      using t es pos unfolding step
      by (auto simp: recordFailureFor_def Let_def set_trouble_def queue_log_def ALERT_AFTER_FAILURES_def)
    moreover have "length (filter is_alert (lq_log (failures_in_row key (fs @ [f]) s)))
        = length (filter is_alert (lq_log ?s)) + (if 2 \<le> length fs then 0 else 1)"
      using t es pos alert(2) unfolding step
      by (auto simp: recordFailureFor_def Let_def set_trouble_def queue_log_def ALERT_AFTER_FAILURES_def)
    ultimately show ?thesis
      using n pos by (auto simp: f retry_delay_cases)
  qed
qed simp

theorem runner_credentials_witness:
  "\<exists>request s'. newLaunch (demo_env 1000) ''7'' ''tok'' demo_target None ''/app'' None demo_submitted = (request, s')
    \<and> map_option rc_launchId (verifyRunner (demo_env 1000) (Some (rn_sessionId request)) (Some ''tok'') s') = Some ''ll-7''
    \<and> verifyRunner (demo_env 1000) (Some (rn_sessionId request)) (Some ''xyz'') s' = None"
proof -
  obtain request s' where eq: "newLaunch (demo_env 1000) ''7'' ''tok'' demo_target None ''/app'' None demo_submitted = (request, s')"
    by (cases "newLaunch (demo_env 1000) ''7'' ''tok'' demo_target None ''/app'' None demo_submitted")
  then have rq: "rn_token request = ''tok''" "rn_launchId request = ''ll-7''"
    by (auto simp: newLaunch_def Let_def)
  have "''ll-'' @ ''7'' \<notin> set (map ll_id (lq_launches demo_submitted))" unfolding demo_submitted_data(3) by simp
  then have fresh: "''ll-'' @ ''7'' \<notin> ll_id ` set (lq_launches demo_submitted)" by simp
  have hash: "ev_sha256 (demo_env 1000) ''xyz'' \<noteq> ev_sha256 (demo_env 1000) ''tok''" "ev_now (demo_env 1000) \<noteq> 0"
    by (simp_all add: demo_env_def)
  from runner_credentials [OF eq fresh _ hash(2), of "''xyz''"] hash(1) eq show ?thesis
    by (intro exI [of _ request] exI [of _ s']) (simp add: rq)
qed

theorem failures_back_off_and_alert_once_witness:
  "\<exists>t. lq_trouble (failures_in_row ''app:main'' (replicate 3 (demo_env 1000, take 1 (lq_entries demo_submitted), ''m''))
      (initial_landing_state None (initial_lease_state None))) ''app:main'' = Some t \<and> qt_retryAt t = 301000"
proof -
  have "take 1 (lq_entries demo_submitted) \<noteq> []" using demo_submitted_data(1) by (cases "lq_entries demo_submitted") simp_all
  then show ?thesis
    using failures_back_off_and_alert_once [of "initial_landing_state None (initial_lease_state None)" "''app:main''"
        "replicate 3 (demo_env 1000, take 1 (lq_entries demo_submitted), ''m'')"]
    by (auto simp: initial_landing_state_def demo_env_def)
qed

section \<open>What a report may touch\<close>

text \<open>The third session submits while the run of the first two is under way.\<close>

definition demo_third :: landing_system where
  "demo_third = snd (submit (demo_env 4500) ''3'' (demo_submit ''s3'') demo_claimed)"

definition foreign_report :: run_report where
  "foreign_report = demo_report\<lparr>rp_outcomes := rp_outcomes demo_report @ [OLanded ''le-3'' []]\<rparr>"

text \<open>
  A finish report is checked for naming every entry of the run, and not for naming only those:
  in a reachable state the runner of one run marks the waiting change of a third session, which it
  never claimed, as landed.
\<close>

theorem finish_accepts_foreign_outcomes:
  "map (\<lambda>e. (le_id e, le_state e, le_runId e)) (lq_entries demo_third)
      = [(''le-1'', Running, Some ''lr-1''), (''le-2'', Running, Some ''lr-1''), (''le-3'', Pending, None)]
    \<and> map lr_entryIds (lq_runs demo_third) = [[''le-1'', ''le-2'']]
    \<and> map (\<lambda>e. (le_id e, le_state e)) (lq_entries (snd (finish (demo_env 5000) lease_manager_api ''lr-1'' demo_runner foreign_report demo_third)))
      = [(''le-1'', Landed), (''le-2'', Pending), (''le-3'', Landed)]"
proof (intro conjI)
  show "map (\<lambda>e. (le_id e, le_state e, le_runId e)) (lq_entries demo_third)
      = [(''le-1'', Running, Some ''lr-1''), (''le-2'', Running, Some ''lr-1''), (''le-3'', Pending, None)]" by code_simp
  show "map lr_entryIds (lq_runs demo_third) = [[''le-1'', ''le-2'']]" by code_simp
  show "map (\<lambda>e. (le_id e, le_state e)) (lq_entries (snd (finish (demo_env 5000) lease_manager_api ''lr-1'' demo_runner foreign_report demo_third)))
      = [(''le-1'', Landed), (''le-2'', Pending), (''le-3'', Landed)]" by code_simp
qed

end
