(* ===== verification/Landing_History.thy ===== *)
theory Landing_History
  imports Landing_Recovery
begin

text \<open>How entries develop over the life of the queue: resolved changes, and what is on disk.\<close>

section \<open>Resolved changes stay resolved\<close>

text \<open>
  Between two states without a submission in between: every entry was there before, and one that
  was resolved is the same record. And what a state holds in memory is on disk.
\<close>

definition follows :: "'l landing_state \<Rightarrow> 'l landing_state \<Rightarrow> bool" where
  "follows s s' \<longleftrightarrow> (\<forall>e' \<in> set (lq_entries s'). \<exists>e \<in> set (lq_entries s). le_id e = le_id e' \<and> (unresolved e \<or> e' = e))"

definition on_disk :: "'l landing_state \<Rightarrow> bool" where
  "on_disk s \<longleftrightarrow> set (lq_entries s) \<subseteq> set (lf_entries (load_file (lq_disk s)))"

lemma follows_same: "lq_entries s' = lq_entries s \<Longrightarrow> follows s s'"
  by (auto simp: follows_def)

lemma follows_refl [simp]: "follows s s"
  by (rule follows_same) simp

lemma follows_trans: "follows s s' \<Longrightarrow> follows s' s'' \<Longrightarrow> follows s s''"
  unfolding follows_def by metis

lemma follows_map:
  assumes "lq_entries s' = map g (lq_entries s)"
    and "\<And>e. e \<in> set (lq_entries s) \<Longrightarrow> le_id (g e) = le_id e \<and> (unresolved e \<or> g e = e)"
  shows "follows s s'"
  using assms by (auto simp: follows_def)

lemma follows_cong: "lq_entries s' = lq_entries t' \<Longrightarrow> lq_entries s = lq_entries t \<Longrightarrow> follows s s' = follows t t'"
  by (simp add: follows_def)

lemma on_disk_same: "lq_entries s' = lq_entries s \<Longrightarrow> lq_disk s' = lq_disk s \<Longrightarrow> on_disk s' = on_disk s"
  by (simp add: on_disk_def)

lemma on_disk_save [simp]: "on_disk (save_queue s)"
  by (simp add: on_disk_def save_queue_def load_file_def)

lemma on_disk_simps [simp]:
  "on_disk (releaseLease env api t s) = on_disk s" "on_disk (queue_log es s) = on_disk s" "on_disk (later task s) = on_disk s"
  "on_disk (pumpSoon key s) = on_disk s" "on_disk (set_trouble key tr s) = on_disk s" "on_disk (republishRun run s) = on_disk s"
  "on_disk (recordFailureFor env key entries m s) = on_disk s" "on_disk (recordFailure env run m s) = on_disk s"
  "on_disk (s\<lparr>lq_leases := l\<rparr>) = on_disk s" "on_disk (s\<lparr>lq_launching := ps\<rparr>) = on_disk s" "on_disk (s\<lparr>lq_background := ts\<rparr>) = on_disk s"
  "on_disk (end_launch env lid s) = on_disk s" "on_disk (endLaunchOf env run s) = on_disk s"
  "on_disk (end_open_launches env key s) = on_disk s" "on_disk (set_launch lid f s) = on_disk s"
  using same_queue_simps [of s] by (intro on_disk_same; simp add: same_queue_def)+

lemma on_disk_load [simp]: "lq_loaded s \<longrightarrow> on_disk s \<Longrightarrow> on_disk (load_queue s)"
  by (simp add: on_disk_def load_queue_def Let_def)

lemma on_disk_abandon [simp]: "on_disk (abandon env run why s)"
  by (simp add: abandon_def Let_def)

lemma on_disk_launchFailed [simp]: "on_disk (launchFailed env api l m s)"
  by (simp add: launchFailed_def Let_def)

lemma entries_launchFailed [simp]: "lq_entries (launchFailed env api l m s) = lq_entries s"
  by (simp add: launchFailed_def Let_def)

lemma follows_abandon:
  assumes "ready s" "run \<in> set (lq_runs s)" "lr_state run = RunRunning"
  shows "follows s (abandon env run why s)"
proof (cases "lr_plan run")
  case None
  have o: "open_run run" using assms(3) by (simp add: open_run_def)
  show ?thesis
    by (rule follows_map [where g = "\<lambda>e. if le_id e \<in> set (lr_entryIds run) then e\<lparr>le_state := Pending, le_runId := None\<rparr> else e"])
      (use None open_run_of_entry(1) [OF ready_ok [OF assms(1)] assms(2) o] in \<open>auto simp: abandon_data(2) [OF assms(1,2)] unresolved_def\<close>)
qed (simp add: follows_same abandon_data(2) [OF assms(1,2)])

lemma follows_take_over:
  assumes "ready s"
  shows "follows s (take_over env key s)"
proof (cases "active_run key s")
  case (Some run)
  then show ?thesis using follows_abandon [OF assms] active_run_Some [OF Some] by (simp add: take_over_def)
qed (simp add: take_over_def)

lemma on_disk_take_over: "on_disk s \<Longrightarrow> on_disk (take_over env key s)"
  by (simp add: take_over_def split: option.splits)

lemma claim_follows:
  assumes inv: "landing_inv s0" and fresh: "''lr-'' @ fresh \<notin> lr_id ` set (lq_runs (load_queue s0))"
    and d: "on_disk (load_queue s0)"
  shows "follows (load_queue s0) (snd (claim env api fresh runner target s0)) \<and> on_disk (snd (claim env api fresh runner target s0))"
proof -
  let ?key = "landingQueueKey target" and ?s = "load_queue s0"
  define s1 where "s1 = take_over env ?key ?s"
  have s: "ready ?s" using inv by (rule load_queue_ready)
  have s1: "ready s1" "active_run ?key s1 = None" "follows ?s s1" "on_disk s1"
    using take_over_ready [OF s] follows_take_over [OF s] on_disk_take_over [OF d] by (simp_all add: s1_def)
  have ids: "distinct (map le_id (lq_entries s1))" using ready_ok [OF s1(1)] by (simp add: queue_inv_def entries_ok_def)
  have begin_follows: "follows s1 (begin_run (claimed_run env runner launch rid ?key (claim_batch ?key s1)) launch s1)" for launch rid
  proof (rule follows_map [where g = "\<lambda>e. if le_id e \<in> set (map le_id (claim_batch ?key s1)) then claimed_entry rid e else e"])
    fix e assume e: "e \<in> set (lq_entries s1)"
    have "unresolved e" if m: "le_id e \<in> set (map le_id (claim_batch ?key s1))"
    proof -
      obtain b where b: "b \<in> set (claim_batch ?key s1)" "le_id b = le_id e" using m by auto
      then have "b = e" using claim_batch_members distinct_by [OF ids _ e] by blast
      then show ?thesis using claim_batch_members [OF b(1)] by (simp add: unresolved_def)
    qed
    then show "le_id (if le_id e \<in> set (map le_id (claim_batch ?key s1)) then claimed_entry rid e else e) = le_id e
      \<and> (unresolved e \<or> (if le_id e \<in> set (map le_id (claim_batch ?key s1)) then claimed_entry rid e else e) = e)"
      by (auto simp: claimed_entry_def)
  qed (simp add: begin_run_def claimed_run_def Let_def)
  have begin_disk: "on_disk (begin_run run launch s1)" for run launch by (simp add: begin_run_def Let_def)
  obtain v s' where eq: "claim env api fresh runner target s0 = (v, s')" by (cases "claim env api fresh runner target s0") auto
  have "s' = ?s \<or> lq_entries s' = lq_entries s1 \<and> on_disk s'
      \<or> (\<exists>launch. s' = begin_run (claimed_run env runner launch (''lr-'' @ fresh) ?key (claim_batch ?key s1)) launch s1)"
    using claim_cases [OF inv fresh eq] s1(4) by (auto simp: s1_def [symmetric])
  then show ?thesis
  proof (elim disjE exE conjE)
    assume "s' = ?s" then show ?thesis using d by (simp add: eq)
  next
    assume "lq_entries s' = lq_entries s1" "on_disk s'"
    then show ?thesis using follows_trans [OF s1(3) follows_same] by (simp add: eq)
  next
    fix launch assume "s' = begin_run (claimed_run env runner launch (''lr-'' @ fresh) ?key (claim_batch ?key s1)) launch s1"
    then show ?thesis using follows_trans [OF s1(3) begin_follows] begin_disk by (simp add: eq)
  qed
qed

lemma follows_outcomes:
  assumes s: "ready s" and r: "run \<in> set (lq_runs s)" "open_run run"
    and own: "set (map outcome_entry ocs) \<subseteq> set (lr_entryIds run)"
    and es: "lq_entries s' = map (outcomes_of now tip ocs) (lq_entries s)"
  shows "follows s s'"
proof (rule follows_map [OF es])
  fix e assume e: "e \<in> set (lq_entries s)"
  show "le_id (outcomes_of now tip ocs e) = le_id e \<and> (unresolved e \<or> outcomes_of now tip ocs e = e)"
  proof (cases "le_id e \<in> set (map outcome_entry ocs)")
    case True
    then have "le_id e \<in> set (lr_entryIds run)" using own by blast
    then show ?thesis using open_run_of_entry(1) [OF ready_ok [OF s] r e] by (simp add: unresolved_def)
  next
    case False
    then show ?thesis by (simp add: outcomes_of_other)
  qed
qed

lemma on_disk_applyOutcomes [simp]: "on_disk (applyOutcomes env run report s)"
  by (simp add: applyOutcomes_def Let_def)

lemma finish_follows:
  assumes inv: "landing_inv s0" and own: "own_outcomes rid report s0" and d: "on_disk (load_queue s0)"
  shows "follows (load_queue s0) (snd (finish env api rid runner report s0)) \<and> on_disk (snd (finish env api rid runner report s0))"
proof -
  have s: "ready (load_queue s0)" using inv by (rule load_queue_ready)
  obtain v s' where eq: "finish env api rid runner report s0 = (v, s')" by (cases "finish env api rid runner report s0")
  have "on_disk s'" using eq d by (auto simp: finish_def check_res_def Let_def split: sum.splits option.splits)
  moreover have "follows (load_queue s0) s'"
    using finish_cases [OF inv eq]
  proof (elim disjE exE conjE)
    fix run assume r: "run \<in> set (lq_runs (load_queue s0))" "lr_state run = RunRunning" "lr_id run = rid"
      "lq_entries s' = map (outcomes_of (ev_now env) (rp_pushedTip report) (rp_outcomes report)) (lq_entries (load_queue s0))"
    have "set (map outcome_entry (rp_outcomes report)) \<subseteq> set (lr_entryIds run)"
      using own r(1,3) find_run_Some [OF s] by (auto simp: own_outcomes_def)
    then show ?thesis by (intro follows_outcomes [OF s r(1) _ _ r(4)]) (simp_all add: r(2) open_run_def)
  qed simp
  ultimately show ?thesis by (simp add: eq)
qed

lemma reconcile_follows:
  assumes inv: "landing_inv s0" and d: "on_disk (load_queue s0)"
  shows "follows (load_queue s0) (snd (reconcile env api rid runner pushed s0)) \<and> on_disk (snd (reconcile env api rid runner pushed s0))"
proof -
  have s: "ready (load_queue s0)" using inv by (rule load_queue_ready)
  obtain v s' where eq: "reconcile env api rid runner pushed s0 = (v, s')" by (cases "reconcile env api rid runner pushed s0")
  have "on_disk s'" using eq d by (auto simp: reconcile_def check_res_def Let_def split: sum.splits option.splits if_splits)
  moreover have "follows (load_queue s0) s'"
    using reconcile_cases [OF inv eq]
  proof (elim disjE exE conjE)
    fix run plan assume r: "run \<in> set (lq_runs (load_queue s0))" "isUnreconciled run"
      "lq_entries s' = map (outcomes_of (ev_now env) (if pushed then Some (pp_tip plan) else None)
             (map (reconcile_outcome pushed plan) (lr_entryIds run))) (lq_entries (load_queue s0))"
    show ?thesis by (rule follows_outcomes [OF s r(1) _ _ r(3)]) (use r(2) in \<open>auto simp: open_run_def\<close>)
  qed simp
  ultimately show ?thesis by (simp add: eq)
qed

lemma withdraw_follows:
  assumes inv: "landing_inv s0" and d: "on_disk (load_queue s0)"
  shows "follows (load_queue s0) (snd (withdraw_entry env eid caller leader s0)) \<and> on_disk (snd (withdraw_entry env eid caller leader s0))"
proof -
  have s: "ready (load_queue s0)" using inv by (rule load_queue_ready)
  have ids: "distinct (map le_id (lq_entries (load_queue s0)))" using ready_ok [OF s] by (simp add: queue_inv_def entries_ok_def)
  have "follows (load_queue s0) s'" if e: "find_entry eid (load_queue s0) = Some e" "le_state e = Pending"
    and s': "lq_entries s' = lq_entries (set_entry eid (\<lambda>_. e1) (load_queue s0))" "le_id e1 = le_id e" for e e1 and s' :: "'a landing_state"
  proof (rule follows_map [where g = "\<lambda>x. if le_id x = eid then e1 else x"])
    have mem: "e \<in> set (lq_entries (load_queue s0))" "le_id e = eid" using e find_entry_Some [OF s] by auto
    show "lq_entries s' = map (\<lambda>x. if le_id x = eid then e1 else x) (lq_entries (load_queue s0))"
      by (simp add: s'(1) set_entry_def update_first_map [OF ids])
    fix x assume "x \<in> set (lq_entries (load_queue s0))"
    then have "le_id x = eid \<Longrightarrow> x = e" using distinct_by [OF ids] mem by auto
    then show "le_id (if le_id x = eid then e1 else x) = le_id x \<and> (unresolved x \<or> (if le_id x = eid then e1 else x) = x)"
      using e(2) mem s'(2) by (auto simp: unresolved_def)
  qed
  then show ?thesis
    using d by (auto simp: withdraw_entry_def Let_def split: option.splits)
qed

lemma heartbeat_follows:
  assumes "landing_inv s0" "on_disk (load_queue s0)"
  shows "follows (load_queue s0) (snd (heartbeat env api rid runner phase logPath s0)) \<and> on_disk (snd (heartbeat env api rid runner phase logPath s0))"
  using assms by (auto simp: heartbeat_def check_res_def Let_def set_run_def split_beta intro!: follows_same split: sum.splits)

lemma recordPlan_follows:
  assumes "landing_inv s0" "on_disk (load_queue s0)"
  shows "follows (load_queue s0) (snd (recordPlan env api rid runner plan s0)) \<and> on_disk (snd (recordPlan env api rid runner plan s0))"
  using assms by (auto simp: recordPlan_def check_res_def Let_def set_run_def intro!: follows_same split: sum.splits option.splits)

lemma runnerExited_follows:
  assumes inv: "landing_inv s0" and d: "on_disk (load_queue s0)"
  shows "follows (load_queue s0) (runnerExited env api lid detail s0) \<and> on_disk (runnerExited env api lid detail s0)"
proof -
  have s: "ready (load_queue s0)" using inv by (rule load_queue_ready)
  have "follows (load_queue s0) t" if "find_run rid (load_queue s0) = Some r" "lr_state r = RunRunning"
    "lq_entries t = lq_entries (abandon env r why (load_queue s0))" for rid r why and t :: "'a landing_state"
    using follows_abandon [OF s, of r env why] that find_run_Some [OF s] follows_trans [OF _ follows_same] by auto
  then show ?thesis
    using d by (auto simp: runnerExited_def Let_def split: option.splits intro: follows_same)
qed

lemma sweep_run_follows:
  assumes "ready s" "run \<in> set (lq_runs s)" "lr_state run = RunRunning" "on_disk s"
  shows "follows s (sweep_run env api run s) \<and> on_disk (sweep_run env api run s)"
  using assms(4) follows_abandon [OF assms(1-3)] follows_trans [OF follows_abandon [OF assms(1-3)] follows_same]
  by (simp add: sweep_run_def)

lemma sweep_runs_follows:
  assumes "ready s" "set rs \<subseteq> set (lq_runs s)" "\<forall>r \<in> set rs. lr_state r = RunRunning" "distinct (map lr_id rs)" "on_disk s"
  shows "follows s (fold (sweep_run env api) rs s) \<and> on_disk (fold (sweep_run env api) rs s)"
  using assms
proof (induction rs arbitrary: s)
  case (Cons r rs)
  have r: "r \<in> set (lq_runs s)" "lr_state r = RunRunning" using Cons.prems by simp_all
  note s' = sweep_run_ready [OF Cons.prems(1) r, of env api]
  have "x \<in> set (lq_runs (sweep_run env api r s))" if "x \<in> set rs" for x
  proof -
    have "x \<in> set (lq_runs s)" "lr_id x \<noteq> lr_id r" using that Cons.prems by (auto simp: image_iff)
    then show ?thesis using s'(2) by force
  qed
  then show ?case
    using Cons.IH [OF s'(1)] Cons.prems sweep_run_follows [OF Cons.prems(1) r, of env api] follows_trans by fastforce
qed simp

lemma sweep_launches_follows: "on_disk s \<Longrightarrow>
    follows s (fold (sweep_launch env api) ls s) \<and> on_disk (fold (sweep_launch env api) ls s)"
proof (induction ls arbitrary: s)
  case (Cons l ls)
  have "on_disk (sweep_launch env api l s)" "follows s (sweep_launch env api l s)"
    using Cons.prems by (simp_all add: sweep_launch_def follows_same)
  then show ?case using Cons.IH [of "sweep_launch env api l s"] follows_trans by fastforce
qed simp

lemma prune_follows: "on_disk s \<Longrightarrow> follows s (prune env s) \<and> on_disk (prune env s)"
  by (auto simp: follows_def on_disk_def prune_def Let_def)

lemma sweep_follows:
  assumes inv: "landing_inv s0" and d: "on_disk (load_queue s0)"
  shows "follows (load_queue s0) (sweep env api s0) \<and> on_disk (sweep env api s0)"
proof -
  let ?s = "load_queue s0"
  let ?rs = "filter (\<lambda>r. lr_state r = RunRunning) (lq_runs ?s)"
  define s1 where "s1 = fold (sweep_run env api) ?rs ?s"
  define s2 where "s2 = fold (sweep_launch env api) (filter (\<lambda>l. \<not> launch_ended l \<and> ll_runId l = None) (lq_launches s1)) s1"
  have s: "ready ?s" using inv by (rule load_queue_ready)
  then have "distinct (map lr_id ?rs)" using ready_ok [OF s] by (simp add: queue_inv_def runs_ok_def distinct_map_filter)
  then have 1: "follows ?s s1 \<and> on_disk s1" unfolding s1_def by (intro sweep_runs_follows s d) auto
  have 2: "follows s1 s2 \<and> on_disk s2" unfolding s2_def using 1 by (intro sweep_launches_follows) simp
  have 3: "follows s2 (prune env s2) \<and> on_disk (prune env s2)" using 2 by (intro prune_follows) simp
  have "sweep_locked env api ?s = prune env s2" by (simp add: sweep_locked_def s1_def s2_def Let_def)
  then have e: "sweep env api s0 = later (Pump (waiting_keys (prune env s2))) (prune env s2)" by (simp add: sweep_def Let_def)
  have "follows ?s s2" using 1 2 follows_trans by blast
  then have "follows ?s (prune env s2)" using 3 follows_trans by blast
  moreover have "follows (prune env s2) (sweep env api s0)" by (rule follows_same) (simp add: e)
  ultimately show ?thesis using 3 follows_trans [of ?s "prune env s2"] by (simp add: e)
qed

lemma newLaunch_same:
  "lq_entries (snd (newLaunch env fresh token t h c who s)) = lq_entries s" "on_disk (snd (newLaunch env fresh token t h c who s)) = on_disk s"
  by (simp_all add: newLaunch_def Let_def on_disk_def)

lemma launch_at_same:
  "on_disk s \<Longrightarrow> lq_entries (snd (launch_at env api fresh token key t p u s)) = lq_entries s
    \<and> on_disk (snd (launch_at env api fresh token key t p u s))"
  by (simp add: launch_at_def Let_def split_beta newLaunch_same split: option.splits)

lemma acquire_and_launch_same:
  "on_disk s \<Longrightarrow> lq_entries (snd (acquire_and_launch env api fresh token key t p u s)) = lq_entries s
    \<and> on_disk (snd (acquire_and_launch env api fresh token key t p u s))"
  using launch_at_same [of s env api fresh token key t p u]
    launch_at_same [of "s\<lparr>lq_leases := l\<rparr>" env api fresh token key t p u for l]
  by (simp add: acquire_and_launch_def Let_def split_beta split: sum.splits acquire_result.splits)

lemma planLaunch_same:
  "on_disk (load_queue s) \<Longrightarrow> lq_entries (snd (planLaunch env api fresh token key s)) = lq_entries (load_queue s)
    \<and> on_disk (snd (planLaunch env api fresh token key s))"
  using acquire_and_launch_same [of "load_queue s" env api fresh token key]
  by (simp add: planLaunch_def Let_def split: option.splits list.splits)

lemma run_task_same:
  assumes "ready s" "on_disk s"
  shows "lq_entries (run_task env api fresh token i s) = lq_entries s \<and> on_disk (run_task env api fresh token i s)"
proof -
  let ?rest = "s\<lparr>lq_background := take i (lq_background s) @ drop (Suc i) (lq_background s)\<rparr>"
  have rest: "load_queue ?rest = ?rest" "on_disk ?rest" using assms by (simp_all add: ready_loaded)
  show ?thesis
    using planLaunch_same [of ?rest env api fresh token] assms(2) rest
    by (auto simp: run_task_def Let_def split_beta split: landing_task.splits list.splits sum.splits prod.splits)
qed

lemma launch_settled_same:
  "on_disk s \<Longrightarrow> lq_entries (launch_settled env api key failure s) = lq_entries s \<and> on_disk (launch_settled env api key failure s)"
  by (auto simp: launch_settled_def Let_def split: option.splits)

lemma hand_over_follows:
  assumes t: "ready t" and a: "\<forall>run. active = Some run \<longrightarrow> run \<in> set (lq_runs t) \<and> lr_state run = RunRunning"
  shows "follows t (snd (hand_over env fresh token caller target hostId checkout active t))
    \<and> on_disk (snd (hand_over env fresh token caller target hostId checkout active t))"
proof -
  have "follows t t'" if "lq_entries t' = lq_entries (case active of
       Some run \<Rightarrow> abandon env run ''a runner was started by hand after it stopped reporting'' t | None \<Rightarrow> t)" for t' :: "'a landing_state"
    using that follows_trans [OF follows_abandon [OF t] follows_same] a by (auto simp: follows_same split: option.splits)
  then show ?thesis by (simp add: hand_over_def Let_def split_beta newLaunch_same)
qed

lemma startRunnerByHand_follows:
  assumes inv: "landing_inv s0" and d: "on_disk (load_queue s0)"
  shows "follows (load_queue s0) (snd (startRunnerByHand env api fresh token caller target hostId checkout s0))
    \<and> on_disk (snd (startRunnerByHand env api fresh token caller target hostId checkout s0))"
proof -
  let ?s = "load_queue s0" and ?key = "landingQueueKey target"
  have s: "ready ?s" using inv by (rule load_queue_ready)
  have go: "follows ?s (snd (hand_over env fresh token caller target hostId checkout (active_run ?key ?s) (?s\<lparr>lq_leases := l\<rparr>)))
    \<and> on_disk (snd (hand_over env fresh token caller target hostId checkout (active_run ?key ?s) (?s\<lparr>lq_leases := l\<rparr>)))" for l
    using hand_over_follows [of "?s\<lparr>lq_leases := l\<rparr>" "active_run ?key ?s" env fresh token caller target hostId checkout]
      s active_run_Some [of ?key ?s] follows_trans [OF follows_same, of "?s\<lparr>lq_leases := l\<rparr>" ?s] by simp
  have go': "follows ?s (snd (hand_over env fresh token caller target hostId checkout (active_run ?key ?s) ?s))
    \<and> on_disk (snd (hand_over env fresh token caller target hostId checkout (active_run ?key ?s) ?s))"
    using go [of "lq_leases ?s"] by (simp del: leases_unchanged)
  obtain r l where a: "la_acquire api (queue_acquire_input target None) (ev_now env) (lq_leases ?s) = (r, l)"
    by (cases "la_acquire api (queue_acquire_input target None) (ev_now env) (lq_leases ?s)") auto
  show ?thesis
    unfolding startRunnerByHand_def Let_def
    by (simp add: d go go' a follows_same del: leases_unchanged split: sum.splits acquire_result.splits)
qed

lemma start_follows:
  assumes inv: "landing_inv s0" and d: "on_disk (load_queue s0)"
  shows "follows (load_queue s0) (start env api s0) \<and> on_disk (start env api s0)"
proof -
  define t where "t = withdrawSessionWaiters api ((load_queue s0)\<lparr>lq_leases := la_register api LANDING_QUEUE_OWNER_PREFIX (lq_leases (load_queue s0))\<rparr>)"
  have t: "ready t" "lq_entries t = lq_entries (load_queue s0)" "on_disk t"
    using load_queue_ready [OF inv] d by (simp_all add: t_def withdrawSessionWaiters_def)
  have "follows (load_queue t) (sweep env api t) \<and> on_disk (sweep env api t)"
    using t by (intro sweep_follows ready_landing_inv) (simp_all add: ready_loaded)
  moreover have "start env api s0 = sweep env api t" by (simp only: start_def t_def Let_def)
  ultimately show ?thesis
    using t follows_trans [OF follows_same [OF t(2)]] by (simp add: ready_loaded)
qed

text \<open>What a resolved entry may become in one step: nothing else.\<close>

definition keeps_resolved :: "'l landing_state \<Rightarrow> 'l landing_state \<Rightarrow> bool" where
  "keeps_resolved s s' \<longleftrightarrow> (\<forall>e \<in> set (lq_entries s). \<forall>e' \<in> set (lq_entries s').
     \<not> unresolved e \<and> le_id e' = le_id e \<longrightarrow> e' = e)"

lemma follows_keeps:
  assumes "ready s" "follows s s'"
  shows "keeps_resolved s s'"
  unfolding keeps_resolved_def
proof (intro ballI impI, elim conjE)
  fix e e' assume e: "e \<in> set (lq_entries s)" and e': "e' \<in> set (lq_entries s')" and r: "\<not> unresolved e" and id: "le_id e' = le_id e"
  have d: "distinct (map le_id (lq_entries s))" using ready_ok [OF assms(1)] by (simp add: queue_inv_def entries_ok_def)
  obtain e0 where e0: "e0 \<in> set (lq_entries s)" "le_id e0 = le_id e'" "unresolved e0 \<or> e' = e0"
    using assms(2) e' unfolding follows_def by blast
  then have "e0 = e" using distinct_by [OF d e0(1) e] id by simp
  then show "e' = e" using e0(3) r by simp
qed

lemma submit_keeps:
  assumes inv: "landing_inv s0" and fresh: "''le-'' @ fresh \<notin> le_id ` set (lq_entries (load_queue s0))"
    and d: "on_disk (load_queue s0)"
  shows "keeps_resolved (load_queue s0) (snd (submit env fresh input s0)) \<and> on_disk (snd (submit env fresh input s0))"
proof -
  let ?s = "load_queue s0"
  let ?s' = "snd (submit env fresh input s0)"
  have same: "keeps_resolved ?s ?s" by (rule follows_keeps [OF load_queue_ready [OF inv] follows_refl])
  have "lq_entries ?s' = lq_entries ?s \<or> (\<exists>e. le_id e = ''le-'' @ fresh \<and> lq_entries ?s' = lq_entries ?s @ [e])"
    by (auto simp: submit_def Let_def split: option.splits)
  then have "keeps_resolved ?s ?s'"
    using same fresh unfolding keeps_resolved_def by (elim disjE exE conjE) (force simp: image_iff)+
  moreover have "on_disk ?s'" using d by (auto simp: submit_def Let_def split: option.splits)
  ultimately show ?thesis by blast
qed

lemmas queue_follows = start_follows claim_follows finish_follows reconcile_follows withdraw_follows heartbeat_follows
  recordPlan_follows runnerExited_follows sweep_follows startRunnerByHand_follows

lemma landing_step_keeps:
  assumes "landing_step True s s'" "system_inv s" "on_disk (load_queue s)"
  shows "keeps_resolved (load_queue s) (load_queue s') \<and> on_disk (load_queue s')"
proof -
  have inv: "landing_inv s" and r: "ready (load_queue s)" using assms(2) load_queue_ready by (auto simp: system_inv_def)
  have via: "keeps_resolved (load_queue s) (load_queue t) \<and> on_disk (load_queue t)"
    if "follows (load_queue s) t \<and> on_disk t" "ready t" for t :: landing_system
    using follows_keeps [OF r] that by (simp add: ready_loaded)
  show ?thesis
    using assms(1)
  proof cases
    case (submit fresh env input)
    then show ?thesis using submit_keeps [OF inv _ assms(3)] submit_ready [OF inv] by (simp add: ready_loaded)
  next
    case (task env fresh token i)
    then show ?thesis
      using run_task_same [OF r assms(3)] run_task_ready [OF r] by (intro via) (simp_all add: follows_same)
  next
    case (settled env key failure)
    then show ?thesis
      using launch_settled_same [OF assms(3)] launch_settled_ready [OF r] by (intro via) (simp_all add: follows_same)
  next
    case (promoted l)
    then show ?thesis using r assms(3) by (intro via) (simp_all add: onLeasePromoted_def follows_same)
  next
    case (others l)
    have "lq_entries (load_queue s') = lq_entries (load_queue s)" "lq_disk (load_queue s') = lq_disk (load_queue s)"
      by (simp_all add: others load_queue_def Let_def)
    then show ?thesis using follows_keeps [OF r follows_same] assms(3) by (simp add: on_disk_def)
  next
    case restart
    have e: "lq_entries (load_queue s') = lf_entries (load_file (lq_disk s))" "lq_disk (load_queue s') = lq_disk s"
      by (simp_all add: restart initial_landing_state_def load_queue_def Let_def)
    have d: "distinct (map le_id (lf_entries (load_file (lq_disk s))))"
      using inv by (simp add: landing_inv_def file_inv_def queue_inv_def entries_ok_def)
    have "lq_disk (load_queue s) = lq_disk s" by (simp add: load_queue_def Let_def)
    then have "set (lq_entries (load_queue s)) \<subseteq> set (lf_entries (load_file (lq_disk s)))" using assms(3) by (simp add: on_disk_def)
    then show ?thesis using distinct_by [OF d] by (auto simp: keeps_resolved_def on_disk_def e)
  qed ((rule via, use queue_follows [OF inv] assms(3) in simp, use queue_ready [OF inv] in simp)+)
qed

lemma landing_reachable_on_disk: "landing_reachable True s \<Longrightarrow> on_disk (load_queue s)"
proof (induction rule: landing_reachable.induct)
  case initial
  then show ?case by (simp add: on_disk_def load_queue_def initial_landing_state_def load_file_def emptyLandingQueueFile_def Let_def)
next
  case (step s s')
  then show ?case using landing_step_keeps landing_reachable_inv by blast
qed



text \<open>
  C24. A server restart loses no change: whatever entry the queue holds in memory is on disk as it
  is, and the restarted queue has it.
\<close>

theorem restart_keeps_entries:
  assumes "landing_reachable True s" and "e \<in> set (lq_entries (load_queue s))"
  shows "e \<in> set (lq_entries (load_queue (initial_landing_state (lq_disk s) l)))"
proof -
  have "lq_disk (load_queue s) = lq_disk s" by (simp add: load_queue_def Let_def)
  then have "e \<in> set (lf_entries (load_file (lq_disk s)))"
    using landing_reachable_on_disk [OF assms(1)] assms(2) by (auto simp: on_disk_def)
  then show ?thesis by (simp add: initial_landing_state_def load_queue_def Let_def)
qed







theorem restart_keeps_entries_witness:
  "\<exists>e. le_id e = ''le-1'' \<and> e \<in> set (lq_entries (load_queue (initial_landing_state (lq_disk demo_claimed) (initial_lease_state None))))"
proof -
  have "map le_id (lq_entries demo_claimed) = [''le-1'', ''le-2'']" by code_simp
  then have "''le-1'' \<in> set (map le_id (lq_entries demo_claimed))" by simp
  then obtain a where a: "a \<in> set (lq_entries demo_claimed)" "le_id a = ''le-1''" by auto
  then have "a \<in> set (lq_entries (load_queue demo_claimed))" using demo_claimed_data(4) by (simp add: load_queue_def)
  from restart_keeps_entries [OF demo_reachable(3) this, of "initial_lease_state None"]
  show ?thesis using a(2) by (intro exI [of _ a] conjI)
qed

end
