(* ===== verification/Landing_Gates.thy ===== *)
theory Landing_Gates
  imports Landing_Types
begin

text \<open>
  Landing gates: what the parser of a gate document accepts, and the store of saved gates
  (server/landing-gate-store.ts).
\<close>

section \<open>What a parsed gate satisfies\<close>

definition cwd_ok :: "string option \<Rightarrow> bool" where
  "cwd_ok cwd = (case cwd of None \<Rightarrow> True
     | Some s \<Rightarrow> \<not> starts_with ''/'' s \<and> ''..'' \<notin> set (split_on (CHR ''/'') s))"

definition command_ok :: "string list \<Rightarrow> bool" where
  "command_ok run \<longleftrightarrow> run \<noteq> [] \<and> (\<forall>part \<in> set run. part \<noteq> [])"

definition step_ok :: "gate_step \<Rightarrow> bool" where
  "step_ok s \<longleftrightarrow> trim (gs_name s) \<noteq> [] \<and> command_ok (gs_run s) \<and> cwd_ok (gs_cwd s)
     \<and> gs_kind s \<in> {None, Some ''command'', Some ''vitest''}"

definition gate_ok :: "gate_config \<Rightarrow> bool" where
  "gate_ok c \<longleftrightarrow> gc_steps c \<noteq> [] \<and> (\<forall>s \<in> set (gc_steps c). step_ok s) \<and> distinct (map gs_name (gc_steps c))
     \<and> (\<forall>i. gc_install c = Some i \<longrightarrow> command_ok (gi_run i) \<and> cwd_ok (gi_cwd i))"

lemma bind_res_Inr': "bind_res r f = Inr b \<longleftrightarrow> (\<exists>a. r = Inr a \<and> f a = Inr b)"
  by (cases r) simp_all

lemma all_some_map: "all_some (map f xs) = Some ys \<longleftrightarrow> map f xs = map Some ys"
proof (induction xs arbitrary: ys)
  case (Cons x xs)
  then show ?case by (cases "f x"; cases ys) auto
qed auto

lemma command_part_JStr [simp]: "command_part (JStr s) = (if s = [] then None else Some s)"
  by (simp add: command_part_def)

lemma isCommand_Some:
  assumes "isCommand v = Some run"
  shows "command_ok run"
proof -
  have part: "command_part v = Some s \<Longrightarrow> s \<noteq> []" for v s
    by (cases v) (auto simp: command_part_def truthy_def split: list.splits)
  obtain x xs where "all_some (map command_part (x # xs)) = Some run"
    using assms by (auto simp: isCommand_def split: option.splits list.splits)
  then have eq: "map command_part (x # xs) = map Some run" by (simp only: all_some_map)
  have "p \<noteq> []" if p: "p \<in> set run" for p
  proof -
    have "Some p \<in> set (map command_part (x # xs))" unfolding eq using p by simp
    then obtain y where "command_part y = Some p" by (auto simp del: list.map)
    then show ?thesis by (rule part)
  qed
  then show ?thesis using eq by (cases run) (auto simp: command_ok_def)
qed

lemma isCommand_json: "command_ok run \<Longrightarrow> isCommand (Some (JArr (map JStr run))) = Some run"
proof -
  assume ok: "command_ok run"
  then have "map command_part (map JStr run) = map Some run" by (auto simp: command_ok_def)
  then have "all_some (map command_part (map JStr run)) = Some run" unfolding all_some_map .
  then show ?thesis using ok by (cases run) (auto simp: isCommand_def command_ok_def)
qed

lemma checkCwd_Inr: "checkCwd v w = Inr cwd \<Longrightarrow> cwd_ok cwd"
  by (auto simp: checkCwd_def cwd_ok_def split: option.splits if_splits)

lemma checkCwd_json: "cwd_ok cwd \<Longrightarrow> checkCwd (map_option JStr cwd) w = Inr cwd"
  by (auto simp: checkCwd_def cwd_ok_def split: option.splits)

lemma gate_kind_Inr: "gate_kind v w = Inr k \<Longrightarrow> k \<in> {None, Some ''command'', Some ''vitest''}"
  by (auto simp: gate_kind_def split: option.splits if_splits)

lemma gate_kind_json: "k \<in> {None, Some ''command'', Some ''vitest''} \<Longrightarrow> gate_kind (map_option JStr k) w = Inr k"
  by (auto simp: gate_kind_def)

lemma parse_step_Inr: "parse_step i v = Inr s \<Longrightarrow> step_ok s"
  by (auto simp: parse_step_def Let_def bind_res_Inr' step_ok_def split: option.splits
      dest!: isCommand_Some checkCwd_Inr gate_kind_Inr nonblank_SomeD)

lemma parse_step_json: "step_ok s \<Longrightarrow> parse_step i (step_json s) = Inr s"
proof -
  assume ok: "step_ok s"
  have get: "json_get (step_json s) ''name'' = Some (JStr (gs_name s))"
    "json_get (step_json s) ''run'' = Some (JArr (map JStr (gs_run s)))"
    "json_get (step_json s) ''cwd'' = map_option JStr (gs_cwd s)"
    "json_get (step_json s) ''kind'' = map_option JStr (gs_kind s)"
    by (auto simp: json_get_def step_json_def opt_str_def split: option.splits)
  show ?thesis
    using ok unfolding parse_step_def Let_def get
    by (simp add: step_ok_def isCommand_json checkCwd_json gate_kind_json del: insert_iff)
qed

lemma parse_steps_Inr: "parse_steps i vs = Inr ss \<Longrightarrow> (\<forall>s \<in> set ss. step_ok s) \<and> length ss = length vs"
  by (induction vs arbitrary: i ss) (auto simp: bind_res_Inr' dest: parse_step_Inr)

lemma parse_steps_json: "\<forall>s \<in> set ss. step_ok s \<Longrightarrow> parse_steps i (map step_json ss) = Inr ss"
  by (induction ss arbitrary: i) (simp_all add: parse_step_json)

lemma parse_install_Inr:
  "parse_install v = Inr install \<Longrightarrow> install = Some i \<Longrightarrow> command_ok (gi_run i) \<and> cwd_ok (gi_cwd i)"
  by (auto simp: parse_install_def bind_res_Inr' split: option.splits dest: isCommand_Some checkCwd_Inr)

lemma parse_install_json:
  "\<forall>i. install = Some i \<longrightarrow> command_ok (gi_run i) \<and> cwd_ok (gi_cwd i) \<Longrightarrow>
    parse_install (map_option (\<lambda>i. JObj (opt_str ''cwd'' (gi_cwd i) @ [(''run'', JArr (map JStr (gi_run i)))])) install) = Inr install"
proof (cases install)
  case (Some i)
  have get: "json_get (JObj (opt_str ''cwd'' c @ [(''run'', JArr (map JStr r))])) ''run'' = Some (JArr (map JStr r))"
    "json_get (JObj (opt_str ''cwd'' c @ [(''run'', JArr (map JStr r))])) ''cwd'' = map_option JStr c" for c r
    by (auto simp: json_get_def opt_str_def split: option.splits)
  assume "\<forall>i. install = Some i \<longrightarrow> command_ok (gi_run i) \<and> cwd_ok (gi_cwd i)"
  with Some show ?thesis by (simp add: parse_install_def get isCommand_json checkCwd_json)
qed (simp add: parse_install_def)

text \<open>
  C25. The gate parser accepts exactly the well-formed gates: whatever document it accepts gives a
  gate whose commands are non-empty, whose directories stay inside the checkout and whose step
  names are distinct, and the document stored for any such gate parses back to the same gate.
\<close>

theorem gate_roundtrip:
  "(parseLandingGateConfig doc = Inr c \<longrightarrow> gate_ok c) \<and> (parseLandingGateConfig (gate_json c) = Inr c \<longleftrightarrow> gate_ok c)"
proof -
  have sound: "gate_ok c" if p: "parseLandingGateConfig doc = Inr c" for doc
  proof -
    obtain v vs where steps: "as_array (json_get doc ''steps'') = Some (v # vs)" "parse_steps 0 (v # vs) = Inr (gc_steps c)"
      "distinct (map gs_name (gc_steps c))" "parse_install (json_get doc ''install'') = Inr (gc_install c)"
      using p unfolding parseLandingGateConfig_def bind_res_Inr'
      by (auto simp: bind_res_Inr' split: option.splits list.splits jsnum.splits if_splits)
    show ?thesis
      using parse_steps_Inr [OF steps(2)] parse_install_Inr [OF steps(4)] steps(3) by (auto simp: gate_ok_def)
  qed
  have complete: "parseLandingGateConfig (gate_json c) = Inr c" if ok: "gate_ok c"
  proof -
    have get: "json_get (gate_json c) ''version'' = Some (JNum (Fin 1))"
      "json_get (gate_json c) ''steps'' = Some (JArr (map step_json (gc_steps c)))"
      "json_get (gate_json c) ''install'' = map_option (\<lambda>i. JObj (opt_str ''cwd'' (gi_cwd i) @ [(''run'', JArr (map JStr (gi_run i)))])) (gc_install c)"
      by (auto simp: json_get_def gate_json_def split: option.splits)
    have "parse_steps 0 (map step_json (gc_steps c)) = Inr (gc_steps c)" "distinct (map gs_name (gc_steps c))"
      using ok parse_steps_json by (simp_all add: gate_ok_def)
    moreover have "parse_install (map_option (\<lambda>i. JObj (opt_str ''cwd'' (gi_cwd i) @ [(''run'', JArr (map JStr (gi_run i)))])) (gc_install c))
      = Inr (gc_install c)"
      using ok by (intro parse_install_json) (simp add: gate_ok_def)
    moreover obtain x xs where "map step_json (gc_steps c) = x # xs" using ok by (cases "gc_steps c") (auto simp: gate_ok_def)
    ultimately show ?thesis
      unfolding parseLandingGateConfig_def get by simp
  qed
  show ?thesis using sound complete by blast
qed

section \<open>The store of saved gates\<close>

record gate_record =
  gr_key :: string
  gr_target :: landing_target
  gr_config :: gate_config
  gr_updatedAt :: number
  gr_updatedBySessionId :: "string option"
  gr_updatedBySessionNum :: "nat option"

text \<open>The file: absent, not readable as JSON, or a list of records, which are trusted as they are.\<close>

datatype gates_file = GatesAbsent | GatesUnreadable string | GatesSaved "gate_record list"

record gate_store =
  gst_gates :: "(string \<times> gate_record) list option"   \<comment> \<open>the cached map, in insertion order\<close>
  gst_disk :: gates_file

definition initial_gate_store :: "gates_file \<Rightarrow> gate_store" where
  "initial_gate_store file = \<lparr>gst_gates = None, gst_disk = file\<rparr>"

text \<open>\<open>new Map(records by key)\<close>: a later record takes the place of an earlier one.\<close>

definition map_from :: "gate_record list \<Rightarrow> (string \<times> gate_record) list" where
  "map_from rs = fold (\<lambda>r m. AList.update (gr_key r) r m) rs []"

definition gates_read :: "gates_file \<Rightarrow> string + (string \<times> gate_record) list" where
  "gates_read file = (case file of GatesAbsent \<Rightarrow> Inr []
     | GatesUnreadable err \<Rightarrow> Inl (''Cannot read the saved landing gates: '' @ err)
     | GatesSaved rs \<Rightarrow> Inr (map_from rs))"

type_synonym 'a gate_op = "gate_store \<Rightarrow> (string + 'a) \<times> gate_store"

definition gates_load :: "(string \<times> gate_record) list gate_op" where
  "gates_load s = (case gst_gates s of Some m \<Rightarrow> (Inr m, s)
     | None \<Rightarrow> (case gates_read (gst_disk s) of Inl e \<Rightarrow> (Inl e, s)
         | Inr m \<Rightarrow> (Inr m, s\<lparr>gst_gates := Some m\<rparr>)))"

definition gates_save :: "(string \<times> gate_record) list \<Rightarrow> gate_store \<Rightarrow> gate_store" where
  "gates_save m s = s\<lparr>gst_gates := Some m, gst_disk := GatesSaved (map snd m)\<rparr>"

definition gate_get :: "landing_target \<Rightarrow> gate_record option gate_op" where
  "gate_get target s = (case gates_load s of (Inl e, s1) \<Rightarrow> (Inl e, s1)
     | (Inr m, s1) \<Rightarrow> (Inr (map_of m (landingQueueKey target)), s1))"

definition gate_set ::
  "landing_target \<Rightarrow> json \<Rightarrow> string option \<Rightarrow> nat option \<Rightarrow> number \<Rightarrow> (gate_record \<times> gate_record option) gate_op" where
  "gate_set target config sessionId sessionNum now s = (case gates_load s of (Inl e, s1) \<Rightarrow> (Inl e, s1)
     | (Inr m, s1) \<Rightarrow>
         let key = landingQueueKey target
         in (case parseLandingGateConfig config of Inl e \<Rightarrow> (Inl e, s1)
           | Inr c \<Rightarrow>
               let gate = \<lparr>gr_key = key, gr_target = \<lparr>lt_repo = lower (lt_repo target), lt_branch = lt_branch target\<rparr>,
                     gr_config = c, gr_updatedAt = now, gr_updatedBySessionId = truthy sessionId,
                     gr_updatedBySessionNum = sessionNum\<rparr>
               in (Inr (gate, map_of m key), gates_save (AList.update key gate m) s1)))"

definition gate_remove :: "landing_target \<Rightarrow> gate_record option gate_op" where
  "gate_remove target s = (case gates_load s of (Inl e, s1) \<Rightarrow> (Inl e, s1)
     | (Inr m, s1) \<Rightarrow>
         let key = landingQueueKey target
         in (case map_of m key of None \<Rightarrow> (Inr None, s1)
           | Some previous \<Rightarrow> (Inr (Some previous), gates_save (AList.delete key m) s1)))"

text \<open>Every record is filed under its own key, and what is cached is what is on disk.\<close>

definition gates_map_ok :: "(string \<times> gate_record) list \<Rightarrow> bool" where
  "gates_map_ok m \<longleftrightarrow> distinct (map fst m) \<and> (\<forall>(k, r) \<in> set m. gr_key r = k)"

definition gate_store_ok :: "gate_store \<Rightarrow> bool" where
  "gate_store_ok s \<longleftrightarrow> (\<forall>m. gst_gates s = Some m \<longrightarrow> gates_map_ok m \<and> gates_read (gst_disk s) = Inr m)"

lemma gates_map_ok_update: "gates_map_ok m \<Longrightarrow> gr_key r = k \<Longrightarrow> gates_map_ok (AList.update k r m)"
  using set_update_assoc [of k r m] by (auto simp: gates_map_ok_def distinct_update)

lemma map_from_ok: "gates_map_ok (map_from rs)"
proof -
  have "gates_map_ok m \<Longrightarrow> gates_map_ok (fold (\<lambda>r m. AList.update (gr_key r) r m) rs m)" for m
    by (induction rs arbitrary: m) (simp_all add: gates_map_ok_update)
  from this [of "[]"] show ?thesis by (simp add: map_from_def gates_map_ok_def)
qed

lemma map_from_id: "gates_map_ok m \<Longrightarrow> map_from (map snd m) = m"
proof -
  have "gates_map_ok (m0 @ m) \<Longrightarrow> fold (\<lambda>r m. AList.update (gr_key r) r m) (map snd m) m0 = m0 @ m" for m0
  proof (induction m arbitrary: m0)
    case (Cons p m)
    obtain k r where p: "p = (k, r)" by (cases p)
    have "k \<notin> set (map fst m0)" "gr_key r = k" using Cons.prems p by (auto simp: gates_map_ok_def)
    then have "AList.update (gr_key r) r m0 = m0 @ [(k, r)]" by (simp add: update_fresh)
    with Cons.IH [of "m0 @ [(k, r)]"] Cons.prems p show ?case by simp
  qed simp
  from this [of "[]"] show "gates_map_ok m \<Longrightarrow> ?thesis" by (simp add: map_from_def)
qed

lemma gates_read_ok: "gates_read file = Inr m \<Longrightarrow> gates_map_ok m"
  using map_from_ok by (auto simp: gates_read_def gates_map_ok_def split: gates_file.splits)

lemma gates_load_Inr:
  "gate_store_ok s \<Longrightarrow> gates_load s = (Inr m, s') \<Longrightarrow>
    gates_map_ok m \<and> gates_read (gst_disk s) = Inr m \<and> gst_gates s' = Some m \<and> gst_disk s' = gst_disk s"
  using gates_read_ok by (auto simp: gates_load_def gate_store_ok_def split: option.splits sum.splits)

lemma gates_save_ok: "gates_map_ok m \<Longrightarrow> gate_store_ok (gates_save m s) \<and> gates_read (gst_disk (gates_save m s)) = Inr m"
  by (simp add: gates_save_def gate_store_ok_def gates_read_def map_from_id)

lemma gate_set_ok:
  assumes "gate_store_ok s"
  shows "gate_store_ok (snd (gate_set target config who num now s))"
proof (cases "gates_load s")
  case (Pair r s1)
  show ?thesis
  proof (cases r)
    case (Inl e)
    then have "s1 = s" using Pair by (auto simp: gates_load_def split: option.splits sum.splits)
    then show ?thesis using assms by (simp add: gate_set_def Pair Inl)
  next
    case (Inr m)
    note l = gates_load_Inr [OF assms Pair [unfolded Inr]]
    then have "gate_store_ok s1" by (simp add: gate_store_ok_def)
    then show ?thesis
      using l gates_map_ok_update [of m _ "landingQueueKey target"] gates_save_ok
      by (simp add: gate_set_def Pair Inr Let_def split: sum.splits)
  qed
qed

text \<open>The gate a target has after restarting from the file.\<close>

definition gate_of :: "gate_store \<Rightarrow> landing_target \<Rightarrow> gate_record option" where
  "gate_of s target = (case fst (gate_get target (initial_gate_store (gst_disk s))) of Inl _ \<Rightarrow> None | Inr g \<Rightarrow> g)"

lemma gate_of_read: "gates_read (gst_disk s) = Inr m \<Longrightarrow> gate_of s target = map_of m (landingQueueKey target)"
  by (simp add: gate_of_def gate_get_def gates_load_def initial_gate_store_def)

text \<open>
  Saving a gate stores exactly that gate: an accepted config is what the target's gate is from
  then on, also after a restart, the gates of all other targets are untouched, the caller is told
  the previous one, and a rejected config or an unreadable file changes nothing on disk.
\<close>

theorem gate_set_stores:
  assumes "gate_store_ok s" and "gate_set target config who num now s = (res, s')"
  shows "gate_store_ok s'
    \<and> (case res of Inl _ \<Rightarrow> gst_disk s' = gst_disk s
       | Inr (gate, previous) \<Rightarrow> previous = gate_of s target \<and> gate_of s' target = Some gate
           \<and> parseLandingGateConfig config = Inr (gr_config gate) \<and> gate_ok (gr_config gate) \<and> gr_updatedAt gate = now
           \<and> fst (gate_get target s') = Inr (Some gate)
           \<and> (\<forall>t. landingQueueKey t \<noteq> landingQueueKey target \<longrightarrow> gate_of s' t = gate_of s t))"
proof (cases "gates_load s")
  case (Pair r s1)
  show ?thesis
  proof (cases r)
    case (Inl e)
    then have "res = Inl e" "s' = s" using assms(2) Pair by (auto simp: gate_set_def gates_load_def split: option.splits sum.splits)
    then show ?thesis using assms(1) by simp
  next
    case (Inr m)
    note l = gates_load_Inr [OF assms(1) Pair [unfolded Inr]]
    have s1: "gate_store_ok s1" using l by (simp add: gate_store_ok_def)
    show ?thesis
    proof (cases "parseLandingGateConfig config")
      case (Inl e)
      then have "res = Inl e" "s' = s1" using assms(2) by (simp_all add: gate_set_def Pair Inr Let_def)
      then show ?thesis using s1 l by simp
    next
      case (Inr c)
      define gate where "gate = \<lparr>gr_key = landingQueueKey target,
          gr_target = \<lparr>lt_repo = lower (lt_repo target), lt_branch = lt_branch target\<rparr>,
          gr_config = c, gr_updatedAt = now, gr_updatedBySessionId = truthy who, gr_updatedBySessionNum = num\<rparr>"
      let ?m = "AList.update (landingQueueKey target) gate m"
      have res: "res = Inr (gate, map_of m (landingQueueKey target))" "s' = gates_save ?m s1"
        using assms(2) Inr \<open>r = Inr m\<close> by (simp_all add: gate_set_def Pair Let_def gate_def)
      have m: "gates_map_ok ?m" using l by (intro gates_map_ok_update) (simp_all add: gate_def)
      note sv = gates_save_ok [OF m, of s1]
      have "gate_ok c" using gate_roundtrip Inr by blast
      moreover have "fst (gate_get target s') = Inr (Some gate)"
        by (simp add: res(2) gate_get_def gates_load_def gates_save_def update_conv')
      moreover have "gate_of s' t = (if landingQueueKey t = landingQueueKey target then Some gate else gate_of s t)" for t
        using gate_of_read [of s' ?m t] gate_of_read [of s m t] sv l by (simp add: res(2) update_conv')
      ultimately show ?thesis
        using sv Inr gate_of_read [of s m target] l by (simp add: res gate_def)
    qed
  qed
qed

text \<open>
  Removing a gate opts out exactly that target: it answers the gate the target had, afterwards
  the target has none, the others keep theirs, and removing a target without a gate writes nothing.
\<close>

theorem gate_remove_removes:
  assumes "gate_store_ok s" and "gate_remove target s = (Inr previous, s')"
  shows "gate_store_ok s' \<and> previous = gate_of s target \<and> gate_of s' target = None
    \<and> (\<forall>t. landingQueueKey t \<noteq> landingQueueKey target \<longrightarrow> gate_of s' t = gate_of s t)
    \<and> (previous = None \<longrightarrow> gst_disk s' = gst_disk s)"
proof -
  obtain m s1 where load: "gates_load s = (Inr m, s1)"
    using assms(2) by (cases "gates_load s"; cases "fst (gates_load s)") (auto simp: gate_remove_def)
  note l = gates_load_Inr [OF assms(1) load]
  have old: "gate_of s t = map_of m (landingQueueKey t)" for t using gate_of_read l by blast
  show ?thesis
  proof (cases "map_of m (landingQueueKey target)")
    case None
    then have "previous = None" "s' = s1" using assms(2) by (simp_all add: gate_remove_def load Let_def)
    moreover have "gate_of s1 t = gate_of s t" for t using l by (simp add: gate_of_def)
    moreover have "gate_store_ok s1" using l by (simp add: gate_store_ok_def)
    ultimately show ?thesis using l old None by simp
  next
    case (Some g)
    let ?m = "AList.delete (landingQueueKey target) m"
    have res: "previous = Some g" "s' = gates_save ?m s1" using assms(2) Some by (simp_all add: gate_remove_def load Let_def)
    have "gates_map_ok ?m" using l by (auto simp: gates_map_ok_def distinct_map_filter AList.delete_eq)
    note sv = gates_save_ok [OF this, of s1]
    have "gate_of s' t = (if landingQueueKey t = landingQueueKey target then None else gate_of s t)" for t
      using gate_of_read [of s' ?m t] sv by (simp add: res(2) old delete_conv')
    then show ?thesis using sv Some old by (simp add: res)
  qed
qed

definition demo_gate :: json where
  "demo_gate = gate_json \<lparr>gc_install = None, gc_steps = [\<lparr>gs_name = ''test'', gs_cwd = Some ''web'', gs_run = [''npm'', ''test''], gs_kind = None\<rparr>]\<rparr>"

definition demo_gate_store :: gate_store where
  "demo_gate_store = snd (gate_set \<lparr>lt_repo = ''App'', lt_branch = ''main''\<rparr> demo_gate None None 5 (initial_gate_store GatesAbsent))"

theorem gate_set_stores_witness:
  "gate_store_ok demo_gate_store \<and> map_option gr_key (gate_of demo_gate_store \<lparr>lt_repo = ''app'', lt_branch = ''main''\<rparr>) = Some ''app:main''"
proof -
  have ok: "gate_store_ok (initial_gate_store GatesAbsent)" by (simp add: gate_store_ok_def initial_gate_store_def)
  have "map_sum (\<lambda>_. ()) (\<lambda>_. ()) (fst (gate_set \<lparr>lt_repo = ''App'', lt_branch = ''main''\<rparr> demo_gate None None 5 (initial_gate_store GatesAbsent))) = Inr ()"
    by code_simp
  then obtain g p where eq: "gate_set \<lparr>lt_repo = ''App'', lt_branch = ''main''\<rparr> demo_gate None None 5 (initial_gate_store GatesAbsent) = (Inr (g, p), demo_gate_store)"
    by (auto simp: map_sum_Inr_iff demo_gate_store_def prod_eq_iff)
  have "map_option gr_key (gate_of demo_gate_store \<lparr>lt_repo = ''app'', lt_branch = ''main''\<rparr>) = Some ''app:main''" by code_simp
  with gate_set_stores [OF ok eq] show ?thesis by simp
qed

theorem gate_remove_removes_witness:
  "gate_of (snd (gate_remove \<lparr>lt_repo = ''app'', lt_branch = ''main''\<rparr> demo_gate_store)) \<lparr>lt_repo = ''app'', lt_branch = ''main''\<rparr> = None"
proof -
  have "map_sum (\<lambda>_. ()) (\<lambda>_. ()) (fst (gate_remove \<lparr>lt_repo = ''app'', lt_branch = ''main''\<rparr> demo_gate_store)) = Inr ()" by code_simp
  then obtain p s' where eq: "gate_remove \<lparr>lt_repo = ''app'', lt_branch = ''main''\<rparr> demo_gate_store = (Inr p, s')"
    by (auto simp: map_sum_Inr_iff prod_eq_iff)
  have "gate_store_ok demo_gate_store"
    unfolding demo_gate_store_def by (rule gate_set_ok) (simp add: gate_store_ok_def initial_gate_store_def)
  from gate_remove_removes [OF this eq] eq show ?thesis by simp
qed

theorem gate_roundtrip_witness: "\<exists>c. parseLandingGateConfig demo_gate = Inr c \<and> gate_ok c"
proof -
  have "map_sum (\<lambda>_. ()) (\<lambda>_. ()) (parseLandingGateConfig demo_gate) = Inr ()" by code_simp
  then obtain c where "parseLandingGateConfig demo_gate = Inr c"
    by (cases "parseLandingGateConfig demo_gate") simp_all
  with gate_roundtrip [of demo_gate c] show ?thesis by blast
qed

end
