(* ===== verification/Thread_Keys.thy ===== *)
theory Thread_Keys
  imports Js_Json
begin

text \<open>
  Names of conversations: topic handles and keys (shared/topic-thread-key.ts), quest and thread
  keys (shared/thread-routing.ts), and the ids of user messages (shared/leader-user-message-id.ts).
\<close>

section \<open>Characters\<close>

definition is_word :: "char \<Rightarrow> bool" where
  "is_word c \<longleftrightarrow> is_digit c \<or> is_lower_letter (lower_char c) \<or> c = CHR ''_''"

definition is_hex :: "char \<Rightarrow> bool" where
  "is_hex c \<longleftrightarrow> is_digit c \<or> c \<in> set ''abcdef''"

text \<open>\<open>\d+\<close> on a whole string.\<close>

definition all_digits :: "string \<Rightarrow> bool" where
  "all_digits s \<longleftrightarrow> s \<noteq> [] \<and> list_all is_digit s"

section \<open>Topics\<close>

definition topic_prefix :: string where "topic_prefix = ''topic:''"

definition HANDLE_LENGTH :: nat where "HANDLE_LENGTH = 8"

definition topicHandle :: "string \<Rightarrow> string" where
  "topicHandle topicId = take HANDLE_LENGTH (filter (\<lambda>c. c \<noteq> CHR ''-'') (lower (trim topicId)))"

definition topicViewKey :: "string \<Rightarrow> string" where
  "topicViewKey topicId = topic_prefix @ topicHandle topicId"

definition topicIdOfViewKey :: "string \<Rightarrow> string option" where
  "topicIdOfViewKey viewKey =
     (let key = lower (trim viewKey)
      in if \<not> starts_with topic_prefix key then None
         else let id = drop (length topic_prefix) key
           in if id \<noteq> [] \<and> list_all (\<lambda>c. is_word c \<or> c = CHR ''-'') id then truthy (Some (topicHandle id)) else None)"

definition normalizeTopicKey :: "string \<Rightarrow> string option" where
  "normalizeTopicKey key = map_option ((@) topic_prefix) (topicIdOfViewKey key)"

definition isTopicViewKey :: "string \<Rightarrow> bool" where
  "isTopicViewKey viewKey \<longleftrightarrow> topicIdOfViewKey viewKey \<noteq> None"

definition isKeyOfTopic :: "string \<Rightarrow> string \<Rightarrow> bool" where
  "isKeyOfTopic viewKey topicId \<longleftrightarrow> topicIdOfViewKey viewKey = Some (topicHandle topicId)"

section \<open>Thread targets\<close>

record thread_target =
  tt_threadKey :: string
  tt_questId :: "string option"

definition isQuestThreadKey :: "string \<Rightarrow> bool" where
  "isQuestThreadKey key \<longleftrightarrow> starts_with ''q-'' key \<and> all_digits (drop 2 key)"

definition isTopicThreadKey :: "string \<Rightarrow> bool" where
  "isTopicThreadKey key \<longleftrightarrow> normalizeTopicKey key \<noteq> None"

definition normalizeThreadTarget :: "string \<Rightarrow> thread_target option" where
  "normalizeThreadTarget raw =
     (let key = lower (trim raw)
      in if key = ''main'' then Some \<lparr>tt_threadKey = key, tt_questId = None\<rparr>
         else if isQuestThreadKey key then Some \<lparr>tt_threadKey = key, tt_questId = Some key\<rparr>
         else map_option (\<lambda>k. \<lparr>tt_threadKey = k, tt_questId = None\<rparr>) (normalizeTopicKey key))"

section \<open>User message ids\<close>

definition isCanonicalLeaderUserMessageId :: "string \<Rightarrow> bool" where
  "isCanonicalLeaderUserMessageId s = (case s of
       u # d # ds \<Rightarrow> u = CHR ''u'' \<and> is_digit d \<and> d \<noteq> CHR ''0'' \<and> list_all is_digit ds
     | _ \<Rightarrow> False)"

definition user_message_id :: "nat \<Rightarrow> string" where
  "user_message_id n = ''u'' @ show_nat n"

text \<open>
  The persisted ids may be absent or malformed. A canonical id that is the only one of its kind is
  kept; every other message gets the next ordinal nobody has or had. \<open>skip_taken\<close> is the loop of
  \<open>allocate\<close>; its fuel is one more than the number of names it can meet.
\<close>

fun skip_taken :: "nat \<Rightarrow> string set \<Rightarrow> nat \<Rightarrow> nat option" where
  "skip_taken 0 taken n = None"
| "skip_taken (Suc fuel) taken n = (if user_message_id n \<in> taken then skip_taken fuel taken (Suc n) else Some n)"

definition persisted_ids :: "string option list \<Rightarrow> string list" where
  "persisted_ids values = filter isCanonicalLeaderUserMessageId (List.map_filter id values)"

fun assign_ids :: "string list \<Rightarrow> string list \<Rightarrow> nat \<Rightarrow> string option list \<Rightarrow> string list option" where
  "assign_ids persisted assigned ordinal [] = Some []"
| "assign_ids persisted assigned ordinal (v # vs) =
     (case v of
        Some x \<Rightarrow>
          if isCanonicalLeaderUserMessageId x \<and> count_list persisted x = 1 \<and> x \<notin> set assigned
          then map_option (Cons x) (assign_ids persisted (x # assigned) ordinal vs)
          else (case skip_taken (Suc (length persisted + length assigned)) (set persisted \<union> set assigned) ordinal of
              None \<Rightarrow> None
            | Some n \<Rightarrow> map_option (Cons (user_message_id n)) (assign_ids persisted (user_message_id n # assigned) (Suc n) vs))
      | None \<Rightarrow> (case skip_taken (Suc (length persisted + length assigned)) (set persisted \<union> set assigned) ordinal of
              None \<Rightarrow> None
            | Some n \<Rightarrow> map_option (Cons (user_message_id n)) (assign_ids persisted (user_message_id n # assigned) (Suc n) vs)))"

definition assignSessionScopedLeaderUserMessageIds :: "string option list \<Rightarrow> string list option" where
  "assignSessionScopedLeaderUserMessageIds values = assign_ids (persisted_ids values) [] 1 values"

section \<open>Canonical keys\<close>

lemma word_not_space: "is_word c \<Longrightarrow> \<not> js_space c"
proof -
  assume "is_word c"
  then consider "is_digit c \<or> c = CHR ''_''" | "is_lower_letter (lower_char c)" by (auto simp: is_word_def)
  then show ?thesis
  proof cases
    case 1
    then show ?thesis by (auto simp: is_digit_def js_space_def)
  next
    case 2
    then have "\<not> js_space (lower_char c)" by (auto simp: is_lower_letter_def js_space_def)
    then show ?thesis by simp
  qed
qed

lemma prefix_key_chars: "list_all key_char topic_prefix" "list_all key_char ''main''" "list_all key_char ''q-''"
  by (simp_all add: topic_prefix_def key_char_def js_space_def lower_char_def Let_def)

text \<open>A handle is made of lower-case word characters, and is its own handle.\<close>

definition is_handle :: "string \<Rightarrow> bool" where
  "is_handle h \<longleftrightarrow> h \<noteq> [] \<and> length h \<le> HANDLE_LENGTH \<and> list_all (\<lambda>c. is_word c \<and> lower_char c = c) h"

lemma handle_key_chars: "is_handle h \<Longrightarrow> list_all key_char h"
  by (auto simp: is_handle_def list_all_iff key_char_def word_not_space)

lemma dash_not_word: "\<not> is_word CHR ''-''"
  by code_simp

lemma topicHandle_handle: "is_handle h \<Longrightarrow> topicHandle h = h"
proof -
  assume h: "is_handle h"
  then have "filter (\<lambda>c. c \<noteq> CHR ''-'') h = h" using dash_not_word by (auto simp: is_handle_def list_all_iff filter_id_conv)
  then show ?thesis
    using h handle_key_chars [OF h] by (simp add: topicHandle_def key_chars_trim key_chars_lower is_handle_def)
qed

lemma topicIdOfViewKey_handle: "topicIdOfViewKey key = Some h \<Longrightarrow> is_handle h"
proof -
  assume a: "topicIdOfViewKey key = Some h"
  define i where "i = drop (length topic_prefix) (lower (trim key))"
  have i: "list_all (\<lambda>c. is_word c \<or> c = CHR ''-'') i" and h: "truthy (Some (topicHandle i)) = Some h"
    using a by (auto simp: topicIdOfViewKey_def Let_def i_def split: if_splits)
  have low: "list_all (\<lambda>c. lower_char c = c) i"
    by (auto simp: i_def lower_def list_all_iff drop_map)
  have "list_all (\<lambda>c. \<not> js_space c) i"
    using i word_not_space by (auto simp: list_all_iff js_space_def)
  then have "topicHandle i = take HANDLE_LENGTH (filter (\<lambda>c. c \<noteq> CHR ''-'') i)"
    using low by (simp add: topicHandle_def trim_no_space lower_fixed)
  moreover have "list_all (\<lambda>c. is_word c \<and> lower_char c = c) (take n (filter (\<lambda>c. c \<noteq> CHR ''-'') i))" for n
    using i low set_take_subset [of n "filter (\<lambda>c. c \<noteq> CHR ''-'') i"] by (fastforce simp: list_all_iff)
  ultimately have "list_all (\<lambda>c. is_word c \<and> lower_char c = c) (topicHandle i)" by simp
  moreover have "length (topicHandle i) \<le> HANDLE_LENGTH" by (simp add: topicHandle_def)
  moreover have "h = topicHandle i \<and> h \<noteq> []" using h by (cases "topicHandle i") auto
  ultimately show "is_handle h" unfolding is_handle_def by blast
qed

lemma topicIdOfViewKey_prefix: "is_handle h \<Longrightarrow> topicIdOfViewKey (topic_prefix @ h) = Some h"
proof -
  assume h: "is_handle h"
  have "list_all key_char (topic_prefix @ h)" using prefix_key_chars handle_key_chars [OF h] by simp
  then have key: "lower (trim (topic_prefix @ h)) = topic_prefix @ h" by (simp only: key_chars_trim key_chars_lower)
  have "list_all (\<lambda>c. is_word c \<or> c = CHR ''-'') h" "h \<noteq> []" using h by (auto simp: is_handle_def list_all_iff)
  then show ?thesis by (simp add: topicIdOfViewKey_def key Let_def topicHandle_handle [OF h])
qed

text \<open>The canonical thread keys: Main, quests, topics by handle.\<close>

definition canonical_key :: "string \<Rightarrow> bool" where
  "canonical_key key \<longleftrightarrow> key = ''main'' \<or> isQuestThreadKey key \<or> (\<exists>h. is_handle h \<and> key = topic_prefix @ h)"

lemma quest_key_chars: "isQuestThreadKey key \<Longrightarrow> list_all key_char key"
proof -
  assume q: "isQuestThreadKey key"
  then obtain ds where key: "key = ''q-'' @ ds" by (auto simp: isQuestThreadKey_def starts_with_iff)
  then have "list_all key_char ds" using q digits_key_chars by (simp add: isQuestThreadKey_def all_digits_def)
  then show ?thesis using prefix_key_chars(3) by (simp add: key)
qed

lemma canonical_key_chars: "canonical_key key \<Longrightarrow> list_all key_char key"
  using quest_key_chars prefix_key_chars handle_key_chars by (auto simp: canonical_key_def)

lemma topic_key_not_quest: "\<not> isQuestThreadKey (topic_prefix @ h)" "topic_prefix @ h \<noteq> ''main''"
  by (simp_all add: isQuestThreadKey_def starts_with_def topic_prefix_def)

lemma normalizeThreadTarget_canonical:
  assumes "canonical_key key"
  shows "normalizeThreadTarget key = Some \<lparr>tt_threadKey = key, tt_questId = (if isQuestThreadKey key then Some key else None)\<rparr>"
proof -
  have key: "lower (trim key) = key" using canonical_key_chars [OF assms] by (simp add: key_chars_trim key_chars_lower)
  have main: "\<not> isQuestThreadKey ''main''" by code_simp
  show ?thesis
    using assms main topic_key_not_quest
    by (auto simp: canonical_key_def normalizeThreadTarget_def key Let_def normalizeTopicKey_def topicIdOfViewKey_prefix)
qed

lemma normalizeThreadTarget_Some: "normalizeThreadTarget raw = Some t \<Longrightarrow> canonical_key (tt_threadKey t)"
  using topicIdOfViewKey_handle
  by (auto simp: normalizeThreadTarget_def canonical_key_def normalizeTopicKey_def Let_def split: if_splits)

text \<open>
  C26. Thread keys have one canonical form: whatever spelling a destination is given in (case,
  surrounding space, a whole topic id), the target it resolves to has a canonical key, which
  resolves to the same target again; a quest's key is its quest id and no other key has one; and a
  topic's conversation key always names that topic, whenever its id has a usable character.
\<close>

theorem thread_targets_canonical:
  "(normalizeThreadTarget raw = Some t \<longrightarrow>
      canonical_key (tt_threadKey t) \<and> normalizeThreadTarget (tt_threadKey t) = Some t
      \<and> tt_questId t = (if isQuestThreadKey (tt_threadKey t) then Some (tt_threadKey t) else None))
    \<and> normalizeThreadTarget (lower raw) = normalizeThreadTarget raw \<and> normalizeThreadTarget (trim raw) = normalizeThreadTarget raw
    \<and> (is_handle (topicHandle topicId) \<longrightarrow> isKeyOfTopic (topicViewKey topicId) topicId
         \<and> normalizeTopicKey (topicViewKey topicId) = Some (topicViewKey topicId))"
proof -
  have again: "normalizeThreadTarget (tt_threadKey t) = Some t" if t: "normalizeThreadTarget raw = Some t"
  proof -
    have "tt_questId t = (if isQuestThreadKey (tt_threadKey t) then Some (tt_threadKey t) else None)"
    proof -
      have main: "\<not> isQuestThreadKey ''main''" by code_simp
      show ?thesis
        using t main topic_key_not_quest by (auto simp: normalizeThreadTarget_def Let_def normalizeTopicKey_def split: if_splits)
    qed
    then show ?thesis
      using normalizeThreadTarget_canonical [OF normalizeThreadTarget_Some [OF t]] by simp
  qed
  moreover have "tt_questId t = (if isQuestThreadKey (tt_threadKey t) then Some (tt_threadKey t) else None)"
    if t: "normalizeThreadTarget raw = Some t"
    using again [OF t] normalizeThreadTarget_canonical [OF normalizeThreadTarget_Some [OF t]] by simp (metis thread_target.select_convs(2))
  moreover have "normalizeThreadTarget (lower raw) = normalizeThreadTarget raw"
    "normalizeThreadTarget (trim raw) = normalizeThreadTarget raw"
    by (simp_all add: normalizeThreadTarget_def lower_trim [symmetric])
  moreover have "isKeyOfTopic (topicViewKey topicId) topicId \<and> normalizeTopicKey (topicViewKey topicId) = Some (topicViewKey topicId)"
    if "is_handle (topicHandle topicId)"
    using topicIdOfViewKey_prefix [OF that] by (simp add: isKeyOfTopic_def normalizeTopicKey_def topicViewKey_def)
  ultimately show ?thesis using normalizeThreadTarget_Some by blast
qed

theorem thread_targets_canonical_witness:
  "map_option tt_threadKey (normalizeThreadTarget ''q-12'') = Some ''q-12''
    \<and> normalizeThreadTarget '' Q-12 '' = normalizeThreadTarget ''q-12''
    \<and> isKeyOfTopic (topicViewKey ''8DF94BCB-0000'') ''8DF94BCB-0000''"
proof -
  have "map_option tt_threadKey (normalizeThreadTarget ''q-12'') = Some ''q-12''" by code_simp
  moreover have "is_handle (topicHandle ''8DF94BCB-0000'')" by code_simp
  moreover have "lower (trim '' Q-12 '') = ''q-12''" by code_simp
  ultimately show ?thesis
    using thread_targets_canonical [of "'' Q-12 ''" _ "''8DF94BCB-0000''"] thread_targets_canonical [of "trim '' Q-12 ''" _ "[]"] by simp
qed

section \<open>Assigning message ids\<close>

lemma user_message_id_inject [simp]: "user_message_id m = user_message_id n \<longleftrightarrow> m = n"
  by (simp add: user_message_id_def)

lemma show_nat_first: "0 < n \<Longrightarrow> \<exists>d ds. show_nat n = d # ds \<and> d \<noteq> CHR ''0'' \<and> is_digit d \<and> list_all is_digit ds"
proof (induction n rule: show_nat.induct)
  case (1 n)
  have zero: "digit_char d \<noteq> CHR ''0''" if "0 < d" "d < 10" for d
    using digit_char_value [OF that(2)] that(1) by auto
  show ?case
  proof (cases "n < 10")
    case True
    then show ?thesis using "1.prems" zero is_digit_digit_char by (simp add: show_nat.simps [of n])
  next
    case False
    then have "0 < n div 10" by (simp add: div_greater_zero_iff)
    then obtain d ds where "show_nat (n div 10) = d # ds" "d \<noteq> CHR ''0''" "is_digit d" "list_all is_digit ds"
      using "1.IH" [OF False] by blast
    then show ?thesis using False is_digit_digit_char by (simp add: show_nat.simps [of n])
  qed
qed

lemma user_message_id_canonical: "0 < n \<Longrightarrow> isCanonicalLeaderUserMessageId (user_message_id n)"
  using show_nat_first [of n] by (auto simp: user_message_id_def isCanonicalLeaderUserMessageId_def)

lemma skip_taken_finds:
  assumes "finite taken" "card (taken \<inter> user_message_id ` {n..}) < fuel"
  shows "\<exists>m. skip_taken fuel taken n = Some m \<and> n \<le> m \<and> user_message_id m \<notin> taken"
  using assms(2)
proof (induction fuel arbitrary: n)
  case (Suc fuel)
  show ?case
  proof (cases "user_message_id n \<in> taken")
    case True
    have "user_message_id n \<notin> user_message_id ` {Suc n..}" by auto
    then have "taken \<inter> user_message_id ` {Suc n..} \<subset> taken \<inter> user_message_id ` {n..}"
      using True by (auto simp: psubset_eq)
    then have "card (taken \<inter> user_message_id ` {Suc n..}) < card (taken \<inter> user_message_id ` {n..})"
      using assms(1) by (intro psubset_card_mono) auto
    then have "\<exists>m. skip_taken fuel taken (Suc n) = Some m \<and> Suc n \<le> m \<and> user_message_id m \<notin> taken"
      using Suc by simp
    then show ?thesis using True by auto
  qed simp
qed simp

lemma skip_taken_enough:
  "\<exists>m. skip_taken (Suc (length xs + length ys)) (set xs \<union> set ys) n = Some m \<and> n \<le> m \<and> user_message_id m \<notin> set xs \<union> set ys"
proof (rule skip_taken_finds)
  have "card ((set xs \<union> set ys) \<inter> user_message_id ` {n..}) \<le> card (set xs \<union> set ys)" by (intro card_mono) auto
  also have "\<dots> \<le> card (set xs) + card (set ys)" by (rule card_Un_le)
  also have "\<dots> \<le> length xs + length ys" using card_length [of xs] card_length [of ys] by simp
  finally show "card ((set xs \<union> set ys) \<inter> user_message_id ` {n..}) < Suc (length xs + length ys)" by simp
qed simp

text \<open>What is kept: a canonical id that is the only one of its kind.\<close>

definition kept_id :: "string list \<Rightarrow> string option \<Rightarrow> bool" where
  "kept_id persisted v \<longleftrightarrow> (\<exists>x. v = Some x \<and> isCanonicalLeaderUserMessageId x \<and> count_list persisted x = 1)"

lemma assign_ids_step:
  assumes "0 < n" and "\<forall>x. v = Some x \<and> kept_id P v \<longrightarrow> x \<notin> set A"
  shows "\<exists>x m. assign_ids P A n (v # vs) = map_option (Cons x) (assign_ids P (x # A) m vs) \<and> 0 < m \<and> x \<notin> set A
    \<and> isCanonicalLeaderUserMessageId x \<and> (if kept_id P v then v = Some x else x \<notin> set P)"
proof -
  obtain m where m: "skip_taken (Suc (length P + length A)) (set P \<union> set A) n = Some m" "n \<le> m"
    "user_message_id m \<notin> set P \<union> set A"
    using skip_taken_enough by blast
  have c: "isCanonicalLeaderUserMessageId (user_message_id m)" using assms(1) m(2) by (simp add: user_message_id_canonical)
  show ?thesis
  proof (cases "kept_id P v")
    case True
    then obtain x where x: "v = Some x" "isCanonicalLeaderUserMessageId x" "count_list P x = 1" by (auto simp: kept_id_def)
    with True assms have "x \<notin> set A" by blast
    with x True assms(1) show ?thesis by (intro exI [of _ x] exI [of _ n]) simp
  next
    case False
    then have "assign_ids P A n (v # vs) = map_option (Cons (user_message_id m)) (assign_ids P (user_message_id m # A) (Suc m) vs)"
      using m(1) by (auto simp: kept_id_def simp del: skip_taken.simps split: option.splits)
    with False m(3) c show ?thesis by (intro exI [of _ "user_message_id m"] exI [of _ "Suc m"]) simp
  qed
qed

lemma assign_ids_correct:
  assumes "0 < n" and "\<And>x. isCanonicalLeaderUserMessageId x \<Longrightarrow> count_list vs (Some x) \<le> count_list P x"
    and "\<And>x. x \<in> set A \<Longrightarrow> count_list P x = 1 \<Longrightarrow> Some x \<notin> set vs"
  shows "\<exists>ids. assign_ids P A n vs = Some ids \<and> length ids = length vs \<and> distinct ids \<and> set ids \<inter> set A = {}
    \<and> (\<forall>x \<in> set ids. isCanonicalLeaderUserMessageId x)
    \<and> (\<forall>i < length vs. if kept_id P (vs ! i) then vs ! i = Some (ids ! i) else ids ! i \<notin> set P)"
  using assms
proof (induction vs arbitrary: A n)
  case (Cons v vs)
  have "\<forall>x. v = Some x \<and> kept_id P v \<longrightarrow> x \<notin> set A" using Cons.prems(3) by (auto simp: kept_id_def)
  then obtain x m where x: "assign_ids P A n (v # vs) = map_option (Cons x) (assign_ids P (x # A) m vs)" "0 < m" "x \<notin> set A"
    "isCanonicalLeaderUserMessageId x" "if kept_id P v then v = Some x else x \<notin> set P"
    using assign_ids_step [OF Cons.prems(1)] by blast
  have le: "count_list vs (Some y) \<le> count_list P y" if "isCanonicalLeaderUserMessageId y" for y
    using Cons.prems(2) [OF that] by (auto split: if_splits)
  have fresh: "Some y \<notin> set vs" if y: "y \<in> set (x # A)" "count_list P y = 1" for y
  proof (cases "y = x")
    case True
    show ?thesis
    proof (cases "kept_id P v")
      case kept: True
      then have "count_list (v # vs) (Some x) \<le> 1" using Cons.prems(2) [OF x(4)] True y(2) by simp
      then have "count_list vs (Some x) = 0" using kept x(5) by simp
      then show ?thesis using True by (simp add: count_list_0_iff)
    next
      case False
      then have "count_list P x = 0" using x(5) by (simp add: count_list_0_iff)
      then show ?thesis using True y(2) by simp
    qed
  next
    case False
    then show ?thesis using Cons.prems(3) [of y] y by simp
  qed
  obtain ids where ids: "assign_ids P (x # A) m vs = Some ids" "length ids = length vs" "distinct ids" "set ids \<inter> set (x # A) = {}"
    "\<forall>x \<in> set ids. isCanonicalLeaderUserMessageId x"
    "\<forall>i < length vs. if kept_id P (vs ! i) then vs ! i = Some (ids ! i) else ids ! i \<notin> set P"
    using Cons.IH [OF x(2) le fresh] by blast
  have "if kept_id P ((v # vs) ! i) then (v # vs) ! i = Some ((x # ids) ! i) else (x # ids) ! i \<notin> set P" if "i < length (v # vs)" for i
    using that x(5) ids(6) by (cases i) auto
  then show ?case
    using x(1,3,4) ids(1-5) by (intro exI [of _ "x # ids"]) auto
qed simp

lemma count_persisted: "isCanonicalLeaderUserMessageId x \<Longrightarrow> count_list (persisted_ids vs) x = count_list vs (Some x)"
  by (induction vs) (auto simp: persisted_ids_def List.map_filter_simps split: option.splits)

lemma count_list_distinct: "distinct xs \<Longrightarrow> x \<in> set xs \<Longrightarrow> count_list xs x = 1"
  by (induction xs) auto

lemma count_list_map_Some: "count_list (map Some xs) (Some x) = count_list xs x"
  by (induction xs) auto

text \<open>
  C27. Assigning user-message ids always succeeds and gives every message its own canonical id;
  a canonical id that only one message had stays with it, no id that was ever persisted is given to
  another message, and assigning again changes nothing.
\<close>

theorem user_message_ids_assigned:
  "\<exists>ids. assignSessionScopedLeaderUserMessageIds values = Some ids \<and> length ids = length values \<and> distinct ids
    \<and> (\<forall>x \<in> set ids. isCanonicalLeaderUserMessageId x)
    \<and> (\<forall>i < length values. if \<exists>x. values ! i = Some x \<and> isCanonicalLeaderUserMessageId x \<and> count_list values (Some x) = 1
         then values ! i = Some (ids ! i) else Some (ids ! i) \<notin> set values)
    \<and> assignSessionScopedLeaderUserMessageIds (map Some ids) = Some ids"
proof -
  have run: "\<exists>ids. assign_ids (persisted_ids vs) [] 1 vs = Some ids \<and> length ids = length vs \<and> distinct ids \<and> set ids \<inter> set [] = {}
    \<and> (\<forall>x \<in> set ids. isCanonicalLeaderUserMessageId x)
    \<and> (\<forall>i < length vs. if kept_id (persisted_ids vs) (vs ! i) then vs ! i = Some (ids ! i) else ids ! i \<notin> set (persisted_ids vs))" for vs
    by (rule assign_ids_correct) (simp_all add: count_persisted)
  obtain ids where ids: "assign_ids (persisted_ids values) [] 1 values = Some ids" "length ids = length values" "distinct ids"
    "\<forall>x \<in> set ids. isCanonicalLeaderUserMessageId x"
    "\<forall>i < length values. if kept_id (persisted_ids values) (values ! i) then values ! i = Some (ids ! i) else ids ! i \<notin> set (persisted_ids values)"
    using run [of "values"] by auto
  have kept: "kept_id (persisted_ids vs) v \<longleftrightarrow> (\<exists>x. v = Some x \<and> isCanonicalLeaderUserMessageId x \<and> count_list vs (Some x) = 1)" for vs v
    by (auto simp: kept_id_def count_persisted)
  have new: "Some (ids ! i) \<notin> set values" if "i < length values" "ids ! i \<notin> set (persisted_ids values)" for i
  proof -
    have "isCanonicalLeaderUserMessageId (ids ! i)" using that(1) ids(2,4) by simp
    from count_persisted [OF this, of "values"] show ?thesis using that(2) by (simp add: count_list_0_iff [symmetric])
  qed
  obtain ids2 where ids2: "assign_ids (persisted_ids (map Some ids)) [] 1 (map Some ids) = Some ids2" "length ids2 = length ids"
    "\<forall>i < length ids. if kept_id (persisted_ids (map Some ids)) (map Some ids ! i) then map Some ids ! i = Some (ids2 ! i)
       else ids2 ! i \<notin> set (persisted_ids (map Some ids))"
    using run [of "map Some ids"] by auto
  have "ids2 ! i = ids ! i" if "i < length ids" for i
  proof -
    have "count_list (map Some ids) (Some (ids ! i)) = count_list ids (ids ! i)" by (rule count_list_map_Some)
    moreover have "count_list ids (ids ! i) = 1" using ids(3) that by (intro count_list_distinct) simp_all
    ultimately have "kept_id (persisted_ids (map Some ids)) (map Some ids ! i)" using that ids(4) by (simp add: kept)
    then show ?thesis using ids2(3) that by auto
  qed
  then have "ids2 = ids" using ids2(2) by (intro nth_equalityI) simp_all
  then show ?thesis
    using ids ids2(1) new unfolding assignSessionScopedLeaderUserMessageIds_def kept by (intro exI [of _ ids]) auto
qed

theorem user_message_ids_assigned_witness:
  "\<exists>ids. assignSessionScopedLeaderUserMessageIds [None, Some ''u2'', Some ''u2'', Some ''u7''] = Some ids
    \<and> length ids = 4 \<and> distinct ids \<and> ids ! 3 = ''u7''"
proof -
  obtain ids where ids: "assignSessionScopedLeaderUserMessageIds [None, Some ''u2'', Some ''u2'', Some ''u7''] = Some ids"
    "length ids = 4" "distinct ids"
    using user_message_ids_assigned [of "[None, Some ''u2'', Some ''u2'', Some ''u7'']"] by auto
  have "map_option (\<lambda>ids. ids ! 3) (assignSessionScopedLeaderUserMessageIds [None, Some ''u2'', Some ''u2'', Some ''u7'']) = Some ''u7''"
    by code_simp
  with ids show ?thesis by auto
qed

end
