(* ===== verification/Thread_Markers.thy ===== *)
theory Thread_Markers
  imports Thread_Keys
begin

text \<open>
  Routing markers (shared/thread-routing.ts): the \<open>[thread:q-12:A:u3]\<close> line a leader writes above
  a message, the \<open># thread:q-12\<close> comment of a command, and destinations inferred from text. The
  regular expressions are written out as the deterministic recognisers they are.
\<close>

section \<open>Recognisers\<close>

text \<open>A prefix regardless of case, and what follows it.\<close>

definition strip_ci :: "string \<Rightarrow> string \<Rightarrow> string option" where
  "strip_ci p s = (if lower (take (length p) s) = p then Some (drop (length p) s) else None)"

definition strip_cs :: "string \<Rightarrow> string \<Rightarrow> string option" where
  "strip_cs p s = (if starts_with p s then Some (drop (length p) s) else None)"

text \<open>
  \<open>THREAD_KEY_PATTERN\<close> at the start of a string: the key as written and the rest. A digit or
  topic character never ends a key, so the longest match is the only one that can go on.
\<close>

definition topic_char :: "char \<Rightarrow> bool" where
  "topic_char c \<longleftrightarrow> is_hex c \<or> c = CHR ''-''"

definition match_topic :: "(char \<Rightarrow> char) \<Rightarrow> string \<Rightarrow> (string \<times> string) option" where
  "match_topic fc s =
     (let id = takeWhile (\<lambda>c. topic_char (fc c)) s
      in case id of c # _ \<Rightarrow> if is_hex (fc c) \<and> 8 \<le> length id \<and> length id \<le> 36 then Some (id, drop (length id) s) else None
         | [] \<Rightarrow> None)"

definition match_key :: "bool \<Rightarrow> string \<Rightarrow> (string \<times> string) option" where
  "match_key ignoreCase s =
     (let strip = (if ignoreCase then strip_ci else strip_cs);
          fc = (if ignoreCase then lower_char else (\<lambda>c. c))
      in case strip ''main'' s of Some rest \<Rightarrow> Some (take 4 s, rest)
         | None \<Rightarrow> (case strip ''q-'' s of
             Some rest \<Rightarrow>
               let ds = takeWhile is_digit rest
               in if ds = [] then None else Some (take 2 s @ ds, drop (length ds) rest)
           | None \<Rightarrow> (case strip topic_prefix s of
               Some rest \<Rightarrow> map_option (\<lambda>(id, rest). (take 6 s @ id, rest)) (match_topic fc rest)
             | None \<Rightarrow> None)))"

text \<open>\<open>u[1-9]\d*(,u[1-9]\d*)*\<close>: the ids of an answer, up to the closing bracket.\<close>

definition match_ids :: "string \<Rightarrow> (string \<times> string) option" where
  "match_ids s =
     (let ids = takeWhile (\<lambda>c. c \<noteq> CHR '']'') s
      in if list_all isCanonicalLeaderUserMessageId (split_on (CHR '','') (lower ids)) then Some (ids, drop (length ids) s) else None)"

text \<open>
  \<open>MARKER_SUFFIX\<close>: no role, \<open>:C\<close>, or \<open>:A\<close> with an optional exclamation mark and optional ids.
\<close>

datatype marker_role = NoRole | CommentaryRole | AnswerRole bool "string option"   \<comment> \<open>urgent, ids\<close>

definition close_marker :: "marker_role \<Rightarrow> string \<Rightarrow> (marker_role \<times> string) option" where
  "close_marker r s = map_option (Pair r) (strip_cs '']'' s)"

definition match_suffix :: "string \<Rightarrow> (marker_role \<times> string) option" where
  "match_suffix s = (case strip_ci '':c'' s of
       Some rest \<Rightarrow> close_marker CommentaryRole rest
     | None \<Rightarrow> (case strip_ci '':a'' s of
         Some rest \<Rightarrow>
           let (urgent, rest) = (case strip_cs ''!'' rest of Some r \<Rightarrow> (True, r) | None \<Rightarrow> (False, rest))
           in (case strip_cs '':'' rest of
               Some r \<Rightarrow> (case match_ids r of Some (ids, r) \<Rightarrow> close_marker (AnswerRole urgent (Some ids)) r | None \<Rightarrow> None)
             | None \<Rightarrow> close_marker (AnswerRole urgent None) rest)
       | None \<Rightarrow> close_marker NoRole s))"

definition match_marker :: "string \<Rightarrow> (string \<times> marker_role \<times> string) option" where
  "match_marker s = (case strip_ci ''[thread:'' s of None \<Rightarrow> None
     | Some rest \<Rightarrow> (case match_key True rest of None \<Rightarrow> None
         | Some (key, rest) \<Rightarrow> map_option (\<lambda>(r, rest). (key, r, rest)) (match_suffix rest)))"

text \<open>\<open>(?=$|[ \t]|\r?\n)\<close>\<close>

definition at_break :: "string \<Rightarrow> bool" where
  "at_break s \<longleftrightarrow> s = [] \<or> starts_with '' '' s \<or> starts_with [CHR 0x09] s \<or> starts_with nl s \<or> starts_with (CHR 0x0D # nl) s"

text \<open>\<open>TEXT_THREAD_DESTINATION_PREFIX_RE\<close>\<close>

definition has_destination :: "string \<Rightarrow> bool" where
  "has_destination s = (case strip_ci ''[thread:'' s of None \<Rightarrow> False
     | Some rest \<Rightarrow> (case match_key True rest of None \<Rightarrow> False | Some (_, rest) \<Rightarrow> starts_with '':'' rest))"

section \<open>Lines and fences\<close>

text \<open>\<open>s.split(/\r?\n/)\<close>\<close>

definition strip_cr :: "string \<Rightarrow> string" where
  "strip_cr l = (if l \<noteq> [] \<and> last l = CHR 0x0D then butlast l else l)"

definition split_lines :: "string \<Rightarrow> string list" where
  "split_lines s = (let ls = split_on (CHR 0x0A) s in map strip_cr (butlast ls) @ [last ls])"

text \<open>The state is the character and length of the fence the text is in, if any.\<close>

definition fence_token :: "string \<Rightarrow> (char \<times> nat) option" where
  "fence_token line = (case trim_left line of [] \<Rightarrow> None
     | c # cs \<Rightarrow>
         let n = length (takeWhile (\<lambda>d. d = c) (c # cs))
         in if (c = CHR 0x60 \<or> c = CHR ''~'') \<and> 3 \<le> n then Some (c, n) else None)"

definition advanceThreadRoutingMarkdownFence :: "(char \<times> nat) option \<Rightarrow> string \<Rightarrow> (char \<times> nat) option \<times> bool" where
  "advanceThreadRoutingMarkdownFence fence line = (case fence_token line of
       None \<Rightarrow> (fence, False)
     | Some (c, n) \<Rightarrow> (case fence of
         Some (marker, len) \<Rightarrow> (if c = marker \<and> len \<le> n then None else fence, True)
       | None \<Rightarrow> (Some (c, n), True)))"

definition isThreadTextMarkerLikeAtLineStart :: "string \<Rightarrow> bool" where
  "isThreadTextMarkerLikeAtLineStart text \<longleftrightarrow> strip_ci ''[thread:'' text \<noteq> None"

text \<open>\<open>extractThreadMarkerLike\<close>: up to the closing bracket if there is one, otherwise the first line.\<close>

definition extractThreadMarkerLike :: "string \<Rightarrow> string" where
  "extractThreadMarkerLike text =
     (if starts_with ''[thread:'' text \<and> CHR '']'' \<in> set text
      then takeWhile (\<lambda>c. c \<noteq> CHR '']'') text @ '']'' else hd (split_lines text))"

fun first_marker_like :: "(char \<times> nat) option \<Rightarrow> string list \<Rightarrow> string option" where
  "first_marker_like fence [] = None"
| "first_marker_like fence (line # lines) =
     (let (fence', isFence) = advanceThreadRoutingMarkdownFence fence line; candidate = trim_left line
      in if fence \<noteq> None \<or> isFence then first_marker_like fence' lines
         else if isThreadTextMarkerLikeAtLineStart candidate then Some (extractThreadMarkerLike candidate)
         else first_marker_like fence' lines)"

definition firstUnfencedThreadTextMarkerLike :: "string \<Rightarrow> string option" where
  "firstUnfencedThreadTextMarkerLike text = first_marker_like None (split_lines text)"

definition removeSingleThreadMarkerSeparator :: "string \<Rightarrow> string" where
  "removeSingleThreadMarkerSeparator body =
     (if starts_with (CHR 0x0D # nl) body then drop 2 body
      else if starts_with nl body \<or> starts_with [CHR 0x0D] body \<or> starts_with '' '' body \<or> starts_with [CHR 0x09] body
      then drop 1 body else body)"

section \<open>Parsing and printing markers\<close>

datatype text_role = Commentary | Answer

datatype parse_reason = MarkerMissing | MarkerInvalid | MarkerInvalidRole

record routed_text =
  rt_target :: thread_target
  rt_role :: "text_role option"
  rt_ids :: "string list option"
  rt_urgent :: bool
  rt_body :: string

datatype route_parse = Routed routed_text | Unrouted parse_reason "string option" string   \<comment> \<open>reason, marker, body\<close>

definition normalizeThreadTextRole :: "marker_role \<Rightarrow> text_role option" where
  "normalizeThreadTextRole r = (case r of NoRole \<Rightarrow> None | CommentaryRole \<Rightarrow> Some Commentary | AnswerRole _ _ \<Rightarrow> Some Answer)"

definition normalizeAnswerUserMessageIds :: "marker_role \<Rightarrow> string list option" where
  "normalizeAnswerUserMessageIds r = (case r of
       AnswerRole _ None \<Rightarrow> Some []
     | AnswerRole _ (Some v) \<Rightarrow> let ids = split_on (CHR '','') (lower v) in if distinct ids then Some ids else None
     | _ \<Rightarrow> None)"

fun marker_ids :: "marker_role \<Rightarrow> string option" where
  "marker_ids (AnswerRole _ ids) = ids"
| "marker_ids _ = None"

fun marker_urgent :: "marker_role \<Rightarrow> bool" where
  "marker_urgent (AnswerRole u _) = u"
| "marker_urgent _ = False"

text \<open>What both parsers do after the marker at the start of \<open>candidate\<close> was recognised.\<close>

definition route_match :: "string \<Rightarrow> string \<Rightarrow> string \<Rightarrow> marker_role \<Rightarrow> string \<Rightarrow> route_parse" where
  "route_match text candidate key role rest =
     (case normalizeThreadTarget key of
        None \<Rightarrow> Unrouted MarkerInvalid (Some (take (length candidate - length rest) candidate)) text
      | Some target \<Rightarrow>
          let body = removeSingleThreadMarkerSeparator rest
          in (case firstUnfencedThreadTextMarkerLike body of
               Some conflict \<Rightarrow> Unrouted MarkerInvalidRole (Some conflict) text
             | None \<Rightarrow>
                 let ids = normalizeAnswerUserMessageIds role
                 in if marker_ids role \<noteq> None \<and> ids = None
                    then Unrouted MarkerInvalidRole (Some (extractThreadMarkerLike candidate)) text
                    else Routed \<lparr>rt_target = target, rt_role = normalizeThreadTextRole role, rt_ids = ids,
                                  rt_urgent = marker_urgent role, rt_body = body\<rparr>))"

definition route_no_match :: "string \<Rightarrow> string \<Rightarrow> route_parse" where
  "route_no_match text candidate =
     (if isThreadTextMarkerLikeAtLineStart candidate
      then Unrouted (if has_destination candidate then MarkerInvalidRole else MarkerInvalid)
             (Some (extractThreadMarkerLike candidate)) text
      else Unrouted MarkerMissing None text)"

definition parseThreadTextPrefix :: "string \<Rightarrow> route_parse" where
  "parseThreadTextPrefix text =
     (case dropWhile js_space text of [] \<Rightarrow> Unrouted MarkerMissing None text
      | c # cs \<Rightarrow> (case match_marker (c # cs) of
          Some (key, role, rest) \<Rightarrow> if at_break rest then route_match text (c # cs) key role rest
            else route_no_match text (c # cs)
        | None \<Rightarrow> route_no_match text (c # cs)))"

definition parseThreadTextLineStartMarker :: "string \<Rightarrow> route_parse" where
  "parseThreadTextLineStartMarker text = (case match_marker text of
       Some (key, role, rest) \<Rightarrow> route_match text text key role rest
     | None \<Rightarrow> route_no_match text text)"

text \<open>\<open>formatThreadMarker\<close> throws on an answer with ids that are not canonical or not unique.\<close>

definition formatThreadMarker :: "string \<Rightarrow> text_role option \<Rightarrow> string list \<Rightarrow> bool \<Rightarrow> string option" where
  "formatThreadMarker key role ids urgent = (case role of
       Some Answer \<Rightarrow>
         if list_ex (\<lambda>i. \<not> isCanonicalLeaderUserMessageId i) ids \<or> \<not> distinct ids then None
         else let r = (if urgent then ''A!'' else ''A'')
           in Some (if ids = [] then ''[thread:'' @ key @ '':'' @ r @ '']''
                    else ''[thread:'' @ key @ '':'' @ r @ '':'' @ join_with '','' ids @ '']'')
     | Some Commentary \<Rightarrow> Some (''[thread:'' @ key @ '':C'' @ '']'')
     | None \<Rightarrow> Some (''[thread:'' @ key @ '']''))"

section \<open>Command comments\<close>

fun first_nonblank :: "nat \<Rightarrow> string list \<Rightarrow> (nat \<times> string) option" where
  "first_nonblank i [] = None"
| "first_nonblank i (l # ls) = (if trim l \<noteq> [] then Some (i, trim l) else first_nonblank (Suc i) ls)"

definition firstNonEmptyLine :: "string list \<Rightarrow> (nat \<times> string) option" where
  "firstNonEmptyLine lines = first_nonblank 0 lines"

text \<open>\<open>COMMAND_THREAD_COMMENT_RE\<close>\<close>

definition match_comment :: "string \<Rightarrow> string option" where
  "match_comment s = (case strip_cs ''#'' s of None \<Rightarrow> None
     | Some r \<Rightarrow> (case strip_cs ''thread:'' (dropWhile js_space r) of None \<Rightarrow> None
         | Some r \<Rightarrow> (case match_key False r of None \<Rightarrow> None
             | Some (key, rest) \<Rightarrow> if list_all js_space rest then Some key else None)))"

definition parseCommandThreadComment :: "string \<Rightarrow> thread_target option" where
  "parseCommandThreadComment command = (case firstNonEmptyLine (split_lines command) of None \<Rightarrow> None
     | Some (_, t) \<Rightarrow> (case match_comment t of None \<Rightarrow> None | Some key \<Rightarrow> normalizeThreadTarget key))"

definition removeLineAt :: "string list \<Rightarrow> nat \<Rightarrow> string" where
  "removeLineAt lines i = dropWhile (\<lambda>c. c = CHR 0x0A) (join_with nl (take i lines @ drop (Suc i) lines))"

definition stripCommandThreadComment :: "string \<Rightarrow> string" where
  "stripCommandThreadComment command =
     (let lines = split_lines command
      in case firstNonEmptyLine lines of None \<Rightarrow> command
         | Some (i, t) \<Rightarrow> if match_comment t = None then command else removeLineAt lines i)"

section \<open>Destinations inferred from text\<close>

text \<open>\<open>/\bq-\d+\b/gi\<close>: the mentions in order; \<open>prev\<close> tells whether a word character came before.\<close>

function quest_mentions :: "bool \<Rightarrow> string \<Rightarrow> string list" where
  "quest_mentions prev [] = []"
| "quest_mentions prev (c # cs) =
     (let ds = (case cs of d # ds \<Rightarrow> if d = CHR ''-'' then takeWhile is_digit ds else [] | [] \<Rightarrow> []);
          rest = drop (Suc (length ds)) cs
      in if \<not> prev \<and> lower_char c = CHR ''q'' \<and> ds \<noteq> [] \<and> (rest = [] \<or> \<not> is_word (hd rest))
         then (''q-'' @ ds) # quest_mentions True rest
         else quest_mentions (is_word c) cs)"
  by pat_completeness auto
termination by (relation "measure (\<lambda>(_, s). length s)") auto

definition uniqueQuestMentions :: "string \<Rightarrow> string list" where
  "uniqueQuestMentions text = rev (remdups (rev (quest_mentions False text)))"

definition word_break :: "string \<Rightarrow> bool" where
  "word_break rest \<longleftrightarrow> rest = [] \<or> \<not> is_word (hd rest)"

definition leading_quest_target :: "string \<Rightarrow> bool" where
  "leading_quest_target s \<longleftrightarrow>
     list_ex (\<lambda>w. case strip_ci w s of Some rest \<Rightarrow> word_break rest | None \<Rightarrow> False)
       [''work on'', ''advance'', ''review'', ''reopen'']"

text \<open>\<open>^\[\d+\]\s+\<close>\<close>

definition strip_index :: "string \<Rightarrow> string" where
  "strip_index line = (case strip_cs ''['' line of None \<Rightarrow> line
     | Some r \<Rightarrow>
         let ds = takeWhile is_digit r
         in if ds = [] then line
            else (case strip_cs '']'' (drop (length ds) r) of
                Some (c # cs) \<Rightarrow> if js_space c then dropWhile js_space cs else line
              | _ \<Rightarrow> line))"

text \<open>\<open>^(?:leader|user|human|system|agent(?:\([^)]*\))?)\s*:\s*\<close>\<close>

definition after_speaker :: "string \<Rightarrow> string option" where
  "after_speaker rest = map_option (dropWhile js_space) (strip_cs '':'' (dropWhile js_space rest))"

definition skip_parens :: "string \<Rightarrow> string option" where
  "skip_parens rest = (case strip_cs ''('' rest of None \<Rightarrow> None
     | Some r \<Rightarrow> (case dropWhile (\<lambda>c. c \<noteq> CHR '')'') r of [] \<Rightarrow> None | _ # r \<Rightarrow> Some r))"

definition strip_speaker :: "string \<Rightarrow> string" where
  "strip_speaker line =
     (case List.map_filter (\<lambda>w. strip_ci w line) [''leader'', ''user'', ''human'', ''system''] of
        rest # _ \<Rightarrow> (case after_speaker rest of Some r \<Rightarrow> r | None \<Rightarrow> line)
      | [] \<Rightarrow> (case strip_ci ''agent'' line of None \<Rightarrow> line
          | Some rest \<Rightarrow> (case after_speaker (case skip_parens rest of Some r \<Rightarrow> r | None \<Rightarrow> rest) of
              Some r \<Rightarrow> r | None \<Rightarrow> line)))"

definition stripTranscriptPrefix :: "string \<Rightarrow> string" where
  "stripTranscriptPrefix line =
     trim_left (dropWhile (\<lambda>c. c = CHR 0x22 \<or> c = CHR 0x27) (strip_speaker (strip_index line)))"

fun leading_line :: "string list \<Rightarrow> string option" where
  "leading_line [] = None"
| "leading_line (l # ls) =
     (let candidate = stripTranscriptPrefix (trim l)
      in if candidate = [] then leading_line ls
         else if leading_quest_target candidate then Some candidate
         else if uniqueQuestMentions candidate \<noteq> [] then None
         else leading_line ls)"

definition firstLeadingQuestTargetLine :: "string \<Rightarrow> string option" where
  "firstLeadingQuestTargetLine text = leading_line (split_lines text)"

definition inferThreadTargetFromTextContent :: "string \<Rightarrow> thread_target option" where
  "inferThreadTargetFromTextContent text = (case uniqueQuestMentions text of
       [q] \<Rightarrow> normalizeThreadTarget q
     | _ \<Rightarrow> (case firstLeadingQuestTargetLine text of None \<Rightarrow> None
         | Some line \<Rightarrow> (case uniqueQuestMentions line of [q] \<Rightarrow> normalizeThreadTarget q | _ \<Rightarrow> None)))"

section \<open>Printing and parsing\<close>

lemma lower_char_letters [simp]:
  "lower_char CHR ''m'' = CHR ''m''" "lower_char CHR ''q'' = CHR ''q''" "lower_char CHR ''t'' = CHR ''t''"
  "lower_char CHR '':'' = CHR '':''" "lower_char CHR '']'' = CHR '']''" "lower_char CHR ''A'' = CHR ''a''"
  "lower_char CHR ''C'' = CHR ''c''" "lower_char CHR ''a'' = CHR ''a''" "lower_char CHR ''-'' = CHR ''-''"
  "lower_char CHR ''u'' = CHR ''u''" "lower_char CHR '','' = CHR '',''"
  by code_simp+

lemma lower_Cons [simp]: "lower (c # s) = lower_char c # lower s" "lower [] = []"
  by (simp_all add: lower_def)

lemma strip_ci_prefix: "lower p = p \<Longrightarrow> strip_ci p (p @ s) = Some s"
  by (simp add: strip_ci_def)

lemma strip_ci_first: "lower_char c \<noteq> d \<Longrightarrow> strip_ci (d # p) (c # s) = None"
  by (simp add: strip_ci_def)

lemma strip_cs_prefix [simp]: "strip_cs p (p @ s) = Some s"
  by (simp add: strip_cs_def)

text \<open>The keys a marker can name: Main, a quest, a topic by its eight hexadecimal digits.\<close>

definition marker_key :: "string \<Rightarrow> bool" where
  "marker_key key \<longleftrightarrow> key = ''main'' \<or> isQuestThreadKey key \<or> (\<exists>h. key = topic_prefix @ h \<and> length h = 8 \<and> list_all is_hex h)"

text \<open>What can follow a key: neither a digit nor a topic character.\<close>

definition key_end :: "string \<Rightarrow> bool" where
  "key_end rest \<longleftrightarrow> (\<exists>c s. rest = c # s \<and> (c = CHR '':'' \<or> c = CHR '']''))"

lemma hex_lower: "is_hex c \<Longrightarrow> lower_char c = c"
proof -
  have "lower_char d = d" if "d \<in> set ''abcdef''" for d using that by (auto simp: lower_char_def Let_def)
  then show "is_hex c \<Longrightarrow> lower_char c = c"
    using digit_key_char by (auto simp: is_hex_def key_char_def simp del: set_simps)
qed

lemma match_key_marker:
  assumes key: "marker_key key" and rest: "key_end rest"
  shows "match_key True (key @ rest) = Some (key, rest)"
proof -
  obtain c s where r: "rest = c # s" "c = CHR '':'' \<or> c = CHR '']''" using rest by (auto simp: key_end_def)
  consider "key = ''main''" | ds where "key = ''q-'' @ ds" "all_digits ds" | h where "key = topic_prefix @ h" "length h = 8" "list_all is_hex h"
    using key by (auto simp: marker_key_def isQuestThreadKey_def starts_with_iff)
  then show ?thesis
  proof cases
    case 1
    have "strip_ci ''main'' (''main'' @ rest) = Some rest" by (rule strip_ci_prefix) code_simp
    then show ?thesis by (simp add: match_key_def 1)
  next
    case 2
    have strip: "strip_ci ''main'' (''q-'' @ ds @ rest) = None" by (simp add: strip_ci_first)
    have strip': "strip_ci ''q-'' (''q-'' @ ds @ rest) = Some (ds @ rest)" by (rule strip_ci_prefix) simp
    have "takeWhile is_digit (ds @ rest) = ds"
      using 2(2) r by (intro takeWhile_end) (auto simp: all_digits_def is_digit_def)
    then show ?thesis using 2 strip strip' by (simp add: match_key_def all_digits_def)
  next
    case 3
    have strip: "strip_ci ''main'' (topic_prefix @ h @ rest) = None" "strip_ci ''q-'' (topic_prefix @ h @ rest) = None"
      by (simp_all add: topic_prefix_def strip_ci_first)
    have strip': "strip_ci topic_prefix (topic_prefix @ h @ rest) = Some (h @ rest)"
      by (rule strip_ci_prefix) (simp add: key_chars_lower prefix_key_chars)
    have "list_all (\<lambda>c. topic_char (lower_char c)) h" using 3(3) by (auto simp: list_all_iff topic_char_def hex_lower)
    then have id: "takeWhile (\<lambda>c. topic_char (lower_char c)) (h @ rest) = h"
      using r by (intro takeWhile_end) (auto simp: topic_char_def is_hex_def is_digit_def)
    obtain x xs where h: "h = x # xs" using 3(2) by (cases h) auto
    then have "is_hex (lower_char x)" using 3(3) by (simp add: hex_lower)
    then have "match_topic lower_char (h @ rest) = Some (h, rest)"
      using id 3(2) h by (simp add: match_topic_def Let_def)
    then show ?thesis using strip strip' by (simp add: match_key_def 3(1) topic_prefix_def)
  qed
qed

lemma close_marker_end [simp]: "close_marker r ('']'' @ s) = Some (r, s)" "close_marker r (CHR '']'' # s) = Some (r, s)"
  using strip_cs_prefix [of "'']''" s] by (simp_all add: close_marker_def)

lemma canonical_id_chars:
  "isCanonicalLeaderUserMessageId i \<Longrightarrow> list_all (\<lambda>c. lower_char c = c \<and> c \<noteq> CHR '','' \<and> c \<noteq> CHR '']'') i"
proof -
  have d: "is_digit c \<Longrightarrow> lower_char c = c \<and> c \<noteq> CHR '','' \<and> c \<noteq> CHR '']''" for c
    using digit_key_char [of c] by (auto simp: key_char_def is_digit_def)
  show "isCanonicalLeaderUserMessageId i \<Longrightarrow> ?thesis"
    by (auto simp: isCanonicalLeaderUserMessageId_def list_all_iff d split: list.splits)
qed

lemma split_on_join: "ids \<noteq> [] \<Longrightarrow> \<forall>i \<in> set ids. CHR '','' \<notin> set i \<Longrightarrow> split_on (CHR '','') (join_with '','' ids) = ids"
proof -
  have last: "CHR '','' \<notin> set i \<Longrightarrow> split_on (CHR '','') i = [i]" for i
    by (induction i) auto
  have step: "CHR '','' \<notin> set i \<Longrightarrow> split_on (CHR '','') (i @ CHR '','' # s) = i # split_on (CHR '','') s" for i s
    by (induction i) auto
  show "ids \<noteq> [] \<Longrightarrow> \<forall>i \<in> set ids. CHR '','' \<notin> set i \<Longrightarrow> ?thesis"
    by (induction ids rule: induct_list012) (auto simp: last step)
qed

lemma join_chars: "\<forall>i \<in> set ids. list_all P i \<Longrightarrow> P (CHR '','') \<Longrightarrow> list_all P (join_with '','' ids)"
  by (induction ids rule: induct_list012) auto

lemma match_ids_join:
  assumes "ids \<noteq> []" "\<forall>i \<in> set ids. isCanonicalLeaderUserMessageId i"
  shows "match_ids (join_with '','' ids @ '']'' @ s) = Some (join_with '','' ids, '']'' @ s)"
    and "split_on (CHR '','') (lower (join_with '','' ids)) = ids"
proof -
  let ?j = "join_with '','' ids"
  have chars: "\<forall>i \<in> set ids. list_all (\<lambda>c. lower_char c = c \<and> c \<noteq> CHR '','' \<and> c \<noteq> CHR '']'') i"
    using assms(2) canonical_id_chars by blast
  have "list_all (\<lambda>c. lower_char c = c) ?j" using chars by (intro join_chars) (auto simp: list_all_iff)
  then have low: "lower ?j = ?j" by (rule lower_fixed)
  have "list_all (\<lambda>c. c \<noteq> CHR '']'') ?j" using chars by (intro join_chars) (auto simp: list_all_iff)
  then have tw: "takeWhile (\<lambda>c. c \<noteq> CHR '']'') (?j @ '']'' @ s) = ?j" by (intro takeWhile_end) auto
  have "\<forall>i \<in> set ids. CHR '','' \<notin> set i" using chars by (auto simp: list_all_iff)
  then show split: "split_on (CHR '','') (lower ?j) = ids" using split_on_join [OF assms(1)] low by simp
  show "match_ids (?j @ '']'' @ s) = Some (?j, '']'' @ s)"
    using assms(2) unfolding match_ids_def Let_def tw split by (simp add: list_all_iff)
qed

text \<open>The role a printed marker has.\<close>

definition printed_role :: "text_role option \<Rightarrow> string list \<Rightarrow> bool \<Rightarrow> marker_role" where
  "printed_role role ids urgent = (case role of None \<Rightarrow> NoRole | Some Commentary \<Rightarrow> CommentaryRole
     | Some Answer \<Rightarrow> AnswerRole urgent (if ids = [] then None else Some (join_with '','' ids)))"

lemma printed_ids:
  assumes "formatThreadMarker key role ids urgent = Some m"
  shows "role = Some Answer \<Longrightarrow> distinct ids \<and> (\<forall>i \<in> set ids. isCanonicalLeaderUserMessageId i)"
  using assms by (auto simp: formatThreadMarker_def list_ex_iff split: if_splits)

lemma match_printed:
  assumes m: "formatThreadMarker key role ids urgent = Some m" and key: "marker_key key"
  shows "match_marker (m @ s) = Some (key, printed_role role ids urgent, s)"
proof -
  have head: "strip_ci ''[thread:'' (''[thread:'' @ r) = Some r" for r by (rule strip_ci_prefix) code_simp
  have via: "match_marker (m @ s) = Some (key, ro, s)"
    if "m = ''[thread:'' @ key @ suffix" "key_end (suffix @ s)" "match_suffix (suffix @ s) = Some (ro, s)" for suffix ro
    using that match_key_marker [OF key that(2)] head [of "key @ suffix @ s"] by (simp add: match_marker_def)
  have c: "strip_ci '':c'' (CHR '':'' # CHR ''A'' # r) = None" "strip_ci '':a'' (CHR '':'' # CHR ''A'' # r) = Some r"
    "strip_ci '':c'' (CHR '':'' # CHR ''C'' # r) = Some r"
    "strip_ci '':c'' (CHR '']'' # r) = None" "strip_ci '':a'' (CHR '']'' # r) = None" for r
    by (simp_all add: strip_ci_def)
  have cs: "strip_cs ''!'' (CHR '']'' # r) = None" "strip_cs ''!'' (CHR '':'' # r) = None" "strip_cs ''!'' (CHR ''!'' # r) = Some r"
    "strip_cs '':'' (CHR '']'' # r) = None" "strip_cs '':'' (CHR '':'' # r) = Some r" for r
    by (simp_all add: strip_cs_def starts_with_def)
  show ?thesis
  proof (cases role)
    case None
    then show ?thesis
      using m by (intro via [of "'']''"]) (simp_all add: formatThreadMarker_def key_end_def match_suffix_def c printed_role_def)
  next
    case (Some r)
    show ?thesis
    proof (cases r)
      case Commentary
      then show ?thesis
        using m Some by (intro via [of "'':C]''"]) (simp_all add: formatThreadMarker_def key_end_def match_suffix_def c printed_role_def)
    next
      case Answer
      note ids = printed_ids [OF m Some [unfolded Answer]]
      show ?thesis
      proof (cases "ids = []")
        case True
        then show ?thesis
          using m Some Answer
          by (intro via [of "if urgent then '':A!]'' else '':A]''"]; cases urgent)
             (auto simp: formatThreadMarker_def key_end_def match_suffix_def c cs printed_role_def)
      next
        case False
        note j = match_ids_join(1) [OF False conjunct2 [OF ids], of s]
        define suffix where "suffix = (if urgent then '':A!:'' else '':A:'') @ join_with '','' ids @ '']''"
        have "m = ''[thread:'' @ key @ suffix"
          using m Some Answer False ids by (cases urgent) (auto simp: formatThreadMarker_def list_ex_iff suffix_def)
        moreover have "match_suffix (suffix @ s) = Some (printed_role role ids urgent, s)"
          using j False Some Answer by (cases urgent) (simp_all add: match_suffix_def c cs printed_role_def suffix_def)
        moreover have "key_end (suffix @ s)" by (simp add: key_end_def suffix_def)
        ultimately show ?thesis by (intro via)
      qed
    qed
  qed
qed

lemma hex_word: "is_hex c \<Longrightarrow> is_word c"
  by (auto simp: is_hex_def is_word_def is_lower_letter_def lower_char_def Let_def)

lemma marker_key_canonical: "marker_key key \<Longrightarrow> canonical_key key"
proof -
  have "is_handle h" if "length h = 8" "list_all is_hex h" for h
  proof -
    show ?thesis using that hex_lower hex_word by (auto simp: is_handle_def HANDLE_LENGTH_def list_all_iff)
  qed
  then show "marker_key key \<Longrightarrow> canonical_key key" by (auto simp: marker_key_def canonical_key_def)
qed

text \<open>A separator the parser removes: a blank, a tab or a line end.\<close>

definition separator :: "string \<Rightarrow> bool" where
  "separator sep \<longleftrightarrow> sep \<in> {'' '', [CHR 0x09], nl, CHR 0x0D # nl}"

lemma separator_removed: "separator sep \<Longrightarrow> removeSingleThreadMarkerSeparator (sep @ body) = body \<and> at_break (sep @ body)"
  by (auto simp: separator_def removeSingleThreadMarkerSeparator_def at_break_def starts_with_def nl_def)

text \<open>
  C28. What the server prints, it reads: a message under a printed marker (at any indentation, after
  one blank or line end) parses to the same destination, role, answered messages and urgency, and to
  exactly the message as body, as long as the message itself holds no further marker outside code
  fences.
\<close>

theorem thread_marker_roundtrip:
  assumes "formatThreadMarker key role ids urgent = Some m" and "marker_key key" and "separator sep"
    and "list_all js_space indent" and "firstUnfencedThreadTextMarkerLike body = None"
  shows "parseThreadTextPrefix (indent @ m @ sep @ body) =
    Routed \<lparr>rt_target = \<lparr>tt_threadKey = key, tt_questId = (if isQuestThreadKey key then Some key else None)\<rparr>,
      rt_role = role, rt_ids = (if role = Some Answer then Some ids else None),
      rt_urgent = (role = Some Answer \<and> urgent), rt_body = body\<rparr>"
proof -
  let ?c = "m @ sep @ body"
  have m: "\<exists>r. m = CHR ''['' # r" using assms(1) by (auto simp: formatThreadMarker_def Let_def split: option.splits text_role.splits if_splits)
  then have "dropWhile js_space (indent @ ?c) = ?c"
    using assms(4) by (auto simp: dropWhile_append list_all_iff js_space_def)
  moreover obtain r where "?c = CHR ''['' # r" using m by auto
  ultimately have p: "parseThreadTextPrefix (indent @ ?c) = route_match (indent @ ?c) ?c key (printed_role role ids urgent) (sep @ body)"
    using match_printed [OF assms(1,2), of "sep @ body"] separator_removed [OF assms(3)]
    by (simp add: parseThreadTextPrefix_def)
  have ids: "normalizeAnswerUserMessageIds (printed_role role ids urgent) = (if role = Some Answer then Some ids else None)"
  proof (cases "role = Some Answer \<and> ids \<noteq> []")
    case True
    then show ?thesis
      using printed_ids [OF assms(1)] match_ids_join(2) [of ids]
      by (simp add: normalizeAnswerUserMessageIds_def printed_role_def Let_def)
  next
    case False
    then show ?thesis by (auto simp: normalizeAnswerUserMessageIds_def printed_role_def split: option.splits text_role.splits)
  qed
  have rest: "normalizeThreadTextRole (printed_role role ids urgent) = role"
    "marker_urgent (printed_role role ids urgent) \<longleftrightarrow> role = Some Answer \<and> urgent"
    "role \<noteq> Some Answer \<Longrightarrow> marker_ids (printed_role role ids urgent) = None"
    by (auto simp: printed_role_def normalizeThreadTextRole_def split: option.splits text_role.splits)
  show ?thesis
    unfolding p route_match_def normalizeThreadTarget_canonical [OF marker_key_canonical [OF assms(2)]]
    using separator_removed [OF assms(3), of body] assms(5) rest by (simp add: ids Let_def)
qed

theorem thread_marker_roundtrip_witness:
  "\<exists>m. formatThreadMarker ''q-12'' (Some Answer) [''u3'', ''u41''] True = Some m
    \<and> parseThreadTextPrefix ('' '' @ m @ nl @ ''Done.'') = Routed \<lparr>rt_target = \<lparr>tt_threadKey = ''q-12'', tt_questId = Some ''q-12''\<rparr>,
      rt_role = Some Answer, rt_ids = Some [''u3'', ''u41''], rt_urgent = True, rt_body = ''Done.''\<rparr>"
proof -
  have "formatThreadMarker ''q-12'' (Some Answer) [''u3'', ''u41''] True = Some ''[thread:q-12:A!:u3,u41]''" by code_simp
  moreover have "isQuestThreadKey ''q-12''" by code_simp
  moreover have "firstUnfencedThreadTextMarkerLike ''Done.'' = None" by code_simp
  moreover have "list_all js_space '' ''" by code_simp
  ultimately show ?thesis
    using thread_marker_roundtrip [of "''q-12''" "Some Answer" "[''u3'', ''u41'']" True "''[thread:q-12:A!:u3,u41]''" nl "'' ''" "''Done.''"]
    by (simp add: marker_key_def separator_def)
qed

section \<open>Command comments\<close>

text \<open>Every key the pattern recognises is a destination.\<close>

lemma topic_key_target:
  assumes "list_all topic_char tid" "is_hex (hd tid)" "tid \<noteq> []"
  shows "normalizeThreadTarget (topic_prefix @ tid) \<noteq> None"
proof -
  have word: "is_word c" "key_char c" if "is_hex c" for c
    using hex_word [OF that] hex_lower [OF that] word_not_space by (simp_all add: key_char_def)
  have "key_char CHR ''-''" by code_simp
  then have chars: "list_all key_char tid" "list_all (\<lambda>c. is_word c \<or> c = CHR ''-'') tid"
    using assms(1) word by (auto simp: list_all_iff topic_char_def)
  obtain c cs where tid: "tid = c # cs" using assms(3) by (cases tid) auto
  have "c \<noteq> CHR ''-''" using assms(2) word(1) dash_not_word tid by auto
  then have "topicHandle tid = take HANDLE_LENGTH (c # filter (\<lambda>c. c \<noteq> CHR ''-'') cs)"
  proof -
    have "lower (trim tid) = tid" using chars(1) by (simp only: key_chars_trim key_chars_lower)
    then have "topicHandle tid = take HANDLE_LENGTH (filter (\<lambda>c. c \<noteq> CHR ''-'') tid)" by (simp only: topicHandle_def)
    then show ?thesis using \<open>c \<noteq> CHR ''-''\<close> by (simp add: tid)
  qed
  then have h: "topicHandle tid \<noteq> []" by (simp add: HANDLE_LENGTH_def)
  have "list_all key_char (topic_prefix @ tid)" using chars(1) prefix_key_chars by simp
  then have key: "lower (trim (topic_prefix @ tid)) = topic_prefix @ tid" by (simp only: key_chars_trim key_chars_lower)
  have "topicIdOfViewKey (topic_prefix @ tid) = Some (topicHandle tid)"
    using chars(2) assms(3) h by (simp add: topicIdOfViewKey_def key Let_def)
  then show ?thesis
    using topic_key_not_quest [of tid] by (simp add: normalizeThreadTarget_def key Let_def normalizeTopicKey_def)
qed

lemma match_key_target:
  assumes "match_key False s = Some (key, rest)"
  shows "normalizeThreadTarget key \<noteq> None"
proof -
  have "key = ''main'' \<or> (\<exists>ds. key = ''q-'' @ ds \<and> all_digits ds)
    \<or> (\<exists>tid. key = topic_prefix @ tid \<and> list_all topic_char tid \<and> tid \<noteq> [] \<and> is_hex (hd tid))"
  proof -
    have tw: "list_all P (takeWhile P xs)" for P :: "char \<Rightarrow> bool" and xs by (auto simp: list_all_iff dest: set_takeWhileD)
    have four: "starts_with ''main'' s \<Longrightarrow> take 4 s = ''main''" and two: "starts_with ''q-'' s \<Longrightarrow> take 2 s = ''q-''"
      and six: "starts_with topic_prefix s \<Longrightarrow> take 6 s = topic_prefix"
      by (simp_all add: starts_with_def topic_prefix_def numeral_eq_Suc)
    show ?thesis
    proof (cases "starts_with ''main'' s")
      case True
      then show ?thesis using assms four by (simp add: match_key_def strip_cs_def)
    next
      case main: False
      show ?thesis
      proof (cases "starts_with ''q-'' s")
        case True
        then have "key = ''q-'' @ takeWhile is_digit (drop 2 s)" "takeWhile is_digit (drop 2 s) \<noteq> []"
          using assms main two by (auto simp: match_key_def strip_cs_def Let_def numeral_2_eq_2 split: if_splits)
        then show ?thesis using tw by (auto simp: all_digits_def)
      next
        case False
        then obtain tid where tid: "key = topic_prefix @ tid" "match_topic (\<lambda>c. c) (drop (length topic_prefix) s) = Some (tid, rest)"
          using assms main six by (auto simp: match_key_def strip_cs_def split: if_splits)
        then have "tid = takeWhile topic_char (drop (length topic_prefix) s)" "tid \<noteq> []" "is_hex (hd tid)"
          by (auto simp: match_topic_def Let_def split: list.splits if_splits) (metis list.sel(1))
        then show ?thesis using tid(1) tw by metis
      qed
    qed
  qed
  then show ?thesis
    using topic_key_target normalizeThreadTarget_canonical by (auto simp: canonical_key_def isQuestThreadKey_def starts_with_def)
qed

lemma split_on_lines: "CHR 0x0A \<notin> set l \<Longrightarrow> split_on (CHR 0x0A) (l @ CHR 0x0A # s) = l # split_on (CHR 0x0A) s"
  by (induction l) auto

lemma split_on_nonempty [simp]: "split_on c s \<noteq> []"
  by (induction s) (auto split: list.splits)

lemma join_split: "join_with nl (split_on (CHR 0x0A) s) = s"
proof (induction s)
  case (Cons c s)
  obtain w ws where ws: "split_on (CHR 0x0A) s = w # ws" using split_on_nonempty by (cases "split_on (CHR 0x0A) s") blast+
  then show ?case using Cons by (cases ws) (auto simp: nl_def)
qed simp

lemma split_on_sub: "l \<in> set (split_on c s) \<Longrightarrow> set l \<subseteq> set s"
proof (induction s arbitrary: l)
  case (Cons a s)
  obtain w ws where ws: "split_on c s = w # ws" using split_on_nonempty by (cases "split_on c s") blast+
  have "set w \<subseteq> set s" "\<And>v. v \<in> set ws \<Longrightarrow> set v \<subseteq> set s" using Cons.IH ws by auto
  then show ?case using Cons.prems by (auto simp: ws split: if_splits)
qed simp

lemma split_lines_plain: "CHR 0x0D \<notin> set s \<Longrightarrow> split_lines s = split_on (CHR 0x0A) s"
proof -
  assume cr: "CHR 0x0D \<notin> set s"
  have "strip_cr l = l" if "l \<in> set (split_on (CHR 0x0A) s)" for l
    using split_on_sub [OF that] cr last_in_set by (fastforce simp: strip_cr_def)
  then have "map strip_cr (butlast (split_on (CHR 0x0A) s)) = butlast (split_on (CHR 0x0A) s)"
    by (intro map_idI) (auto dest: in_set_butlastD)
  then show ?thesis by (simp add: split_lines_def Let_def)
qed

lemma match_key_exact:
  assumes key: "marker_key key"
  shows "match_key False key = Some (key, [])"
proof -
  consider "key = ''main''" | ds where "key = ''q-'' @ ds" "all_digits ds" | h where "key = topic_prefix @ h" "length h = 8" "list_all is_hex h"
    using key by (auto simp: marker_key_def isQuestThreadKey_def starts_with_iff)
  then show ?thesis
  proof cases
    case 1
    then show ?thesis by (simp add: match_key_def strip_cs_def starts_with_def)
  next
    case 2
    have "takeWhile is_digit ds = ds" using 2(2) by (auto simp: all_digits_def list_all_iff)
    then show ?thesis using 2 by (simp add: match_key_def strip_cs_def starts_with_def all_digits_def Let_def del: takeWhile_eq_all_conv)
  next
    case 3
    obtain x xs where h: "h = x # xs" using 3(2) by (cases h) auto
    have "takeWhile topic_char h = h" using 3(3) by (auto simp: list_all_iff topic_char_def)
    then have "match_topic (\<lambda>c. c) h = Some (h, [])" using 3 h by (simp add: match_topic_def)
    then show ?thesis by (simp add: match_key_def strip_cs_def starts_with_def 3(1) topic_prefix_def)
  qed
qed

lemma trim_ends:
  assumes "l \<noteq> []" "\<not> js_space (hd l)" "\<not> js_space (last l)"
  shows "trim l = l"
proof -
  have "dropWhile js_space l = l" using assms by (cases l) simp_all
  moreover have "dropWhile js_space (rev l) = rev l" using assms by (cases l rule: rev_cases) simp_all
  ultimately show ?thesis by (simp add: trim_def trim_left_def trim_right_def)
qed

lemma comment_line:
  assumes key: "marker_key key" and rest: "CHR 0x0D \<notin> set rest"
  shows "parseCommandThreadComment (''# thread:'' @ key @ nl @ rest) = Some \<lparr>tt_threadKey = key, tt_questId = (if isQuestThreadKey key then Some key else None)\<rparr>"
    and "stripCommandThreadComment (''# thread:'' @ key @ nl @ rest) = dropWhile (\<lambda>c. c = CHR 0x0A) rest"
proof -
  let ?l = "''# thread:'' @ key"
  have chars: "list_all key_char key" by (rule canonical_key_chars [OF marker_key_canonical [OF key]])
  then have plain: "CHR 0x0D \<notin> set key" "CHR 0x0A \<notin> set key" by (auto simp: list_all_iff key_char_def js_space_def)
  have nonempty: "key \<noteq> []" using key by (auto simp: marker_key_def isQuestThreadKey_def starts_with_def topic_prefix_def)
  then have "\<not> js_space (last ?l)" "\<not> js_space (hd ?l)"
    using chars by (auto simp: list_all_iff key_char_def js_space_def dest!: last_in_set)
  then have t: "trim ?l = ?l" by (intro trim_ends) simp_all
  have lines: "split_lines (''# thread:'' @ key @ nl @ rest) = ?l # split_on (CHR 0x0A) rest"
    using plain rest split_on_lines [of ?l rest] by (subst split_lines_plain) (auto simp: nl_def)
  have first: "firstNonEmptyLine (?l # ls) = Some (0, ?l)" for ls unfolding firstNonEmptyLine_def by (simp add: t del: append_Cons)
  have "strip_cs ''#'' ?l = Some ('' thread:'' @ key)" by (simp add: strip_cs_def starts_with_def)
  moreover have "dropWhile js_space ('' thread:'' @ key) = ''thread:'' @ key" by (simp add: js_space_def)
  moreover have "strip_cs ''thread:'' (''thread:'' @ key) = Some key" by (rule strip_cs_prefix)
  ultimately have m: "match_comment ?l = Some key" using match_key_exact [OF key] by (simp add: match_comment_def)
  show "parseCommandThreadComment (''# thread:'' @ key @ nl @ rest) = Some \<lparr>tt_threadKey = key, tt_questId = (if isQuestThreadKey key then Some key else None)\<rparr>"
    unfolding parseCommandThreadComment_def lines first using m normalizeThreadTarget_canonical [OF marker_key_canonical [OF key]] by simp
  show "stripCommandThreadComment (''# thread:'' @ key @ nl @ rest) = dropWhile (\<lambda>c. c = CHR 0x0A) rest"
    unfolding stripCommandThreadComment_def lines first Let_def using m by (simp add: removeLineAt_def join_split)
qed

text \<open>
  The destination comment of a command: a command without one is left as it is, and one that
  starts with such a comment for a destination markers can name resolves to that destination and
  loses exactly that line (and the blank lines after it).
\<close>

theorem command_comment_stripped:
  "(parseCommandThreadComment command = None \<longrightarrow> stripCommandThreadComment command = command)
    \<and> (marker_key key \<and> CHR 0x0D \<notin> set rest \<longrightarrow>
        parseCommandThreadComment (''# thread:'' @ key @ nl @ rest) = Some \<lparr>tt_threadKey = key, tt_questId = (if isQuestThreadKey key then Some key else None)\<rparr>
        \<and> stripCommandThreadComment (''# thread:'' @ key @ nl @ rest) = dropWhile (\<lambda>c. c = CHR 0x0A) rest)"
proof (intro conjI impI, goal_cases)
  case 1
  show ?case
  proof (cases "firstNonEmptyLine (split_lines command)")
    case (Some p)
    obtain i l where p: "p = (i, l)" by (cases p)
    have "match_comment l = None"
    proof (cases "match_comment l")
      case m: (Some key)
      then have "normalizeThreadTarget key \<noteq> None"
        using match_key_target by (auto simp: match_comment_def split: option.splits prod.splits if_splits)
      then show ?thesis using 1 Some p m by (simp add: parseCommandThreadComment_def)
    qed
    then show ?thesis using Some p by (simp add: stripCommandThreadComment_def)
  qed (simp add: stripCommandThreadComment_def)
next
  case 2
  then show ?case using comment_line by blast
next
  case 3
  then show ?case using comment_line by blast
qed

theorem command_comment_stripped_witness:
  "stripCommandThreadComment (''# thread:q-7'' @ nl @ nl @ ''make'') = ''make'' \<and> stripCommandThreadComment ''make'' = ''make''"
proof -
  have "isQuestThreadKey ''q-7''" by code_simp
  moreover have "CHR 0x0D \<notin> set (nl @ ''make'')" by code_simp
  moreover have "dropWhile (\<lambda>c. c = CHR 0x0A) (nl @ ''make'') = ''make''" by code_simp
  moreover have "parseCommandThreadComment ''make'' = None" by code_simp
  ultimately show ?thesis
    using command_comment_stripped [of "''make''" "''q-7''" "nl @ ''make''"] by (simp add: marker_key_def)
qed

end
