(* ===== verification/Timer_Parse.thy ===== *)
theory Timer_Parse
  imports Js_Json
begin

text \<open>
  Timers: their data (server/timer-types.ts) and the parser of schedules (server/timer-parse.ts).
  Times are milliseconds since the epoch. A number too large for a double is \<open>Infinity\<close>.
\<close>

section \<open>Data\<close>

datatype timer_type = DelayTimer | AtTimer | RecurringTimer

record timer =
  tm_id :: string
  tm_sessionId :: string
  tm_threadKey :: "string option"
  tm_title :: string
  tm_description :: string
  tm_type :: timer_type
  tm_originalSpec :: string
  tm_nextFireAt :: number
  tm_intervalMs :: "number option"
  tm_createdAt :: number
  tm_lastFiredAt :: "number option"
  tm_fireCount :: nat

record timer_file =
  tf_sessionId :: string
  tf_nextId :: nat
  tf_timers :: "timer list"

record timer_input =
  ti_title :: "string option"
  ti_description :: "string option"
  ti_threadKey :: "string option"
  ti_in :: "string option"
  ti_at :: "string option"
  ti_every :: "string option"

section \<open>Durations\<close>

definition max_double :: number where
  "max_double = 2 ^ 1024 - 2 ^ 970"

definition to_double :: "number \<Rightarrow> jsnum" where
  "to_double q = (if q < max_double then Fin q else PosInf)"

definition digits_number :: "string \<Rightarrow> number" where
  "digits_number ds = of_nat (digits_value ds)"

text \<open>\<open>parseFloat\<close> of digits with an optional fraction.\<close>

definition decimal_number :: "string \<Rightarrow> string \<Rightarrow> number" where
  "decimal_number whole fraction = digits_number whole + digits_number fraction / 10 ^ length fraction"

definition unit_ms :: "char \<Rightarrow> number option" where
  "unit_ms c = (if c = CHR ''s'' then Some 1000 else if c = CHR ''m'' then Some 60000
     else if c = CHR ''h'' then Some 3600000 else if c = CHR ''d'' then Some 86400000 else None)"

text \<open>\<open>/^(\d+(?:\.\d+)?)(s|m|h|d)$/\<close>: value and unit.\<close>

definition match_duration :: "string \<Rightarrow> (number \<times> number) option" where
  "match_duration s =
     (let whole = takeWhile is_digit s; r = dropWhile is_digit s;
          (fraction, r) = (case r of
              c # cs \<Rightarrow> if c = CHR ''.'' \<and> takeWhile is_digit cs \<noteq> [] then (takeWhile is_digit cs, dropWhile is_digit cs) else ([], r)
            | [] \<Rightarrow> ([], r))
      in case (whole, r) of
           (_ # _, [u]) \<Rightarrow> map_option (Pair (decimal_number whole fraction)) (unit_ms u)
         | _ \<Rightarrow> None)"

text \<open>One optional part of \<open>/^(?:(\d+)h)?(?:(\d+)m)?(?:(\d+)s)?$/\<close>.\<close>

definition duration_part :: "char \<Rightarrow> string \<Rightarrow> string \<times> string" where
  "duration_part u s =
     (let ds = takeWhile is_digit s
      in case dropWhile is_digit s of
           c # cs \<Rightarrow> if ds \<noteq> [] \<and> c = u then (ds, cs) else ([], s)
         | [] \<Rightarrow> ([], s))"

definition match_compound :: "string \<Rightarrow> (string \<times> string \<times> string) option" where
  "match_compound s =
     (let (h, r) = duration_part (CHR ''h'') s;
          (m, r) = duration_part (CHR ''m'') r;
          (sec, r) = duration_part (CHR ''s'') r
      in if r = [] then Some (h, m, sec) else None)"

definition round_number :: "number \<Rightarrow> number" where
  "round_number q = of_int \<lfloor>q + 1 / 2\<rfloor>"

definition js_round :: "jsnum \<Rightarrow> jsnum" where
  "js_round x = (case x of Fin q \<Rightarrow> Fin (round_number q) | _ \<Rightarrow> x)"

definition positive_num :: "jsnum \<Rightarrow> bool" where
  "positive_num x = (case x of Fin q \<Rightarrow> 0 < q | PosInf \<Rightarrow> True | _ \<Rightarrow> False)"

datatype timer_error =
    DurationEmpty | DurationNotPositive string | DurationInvalid string
  | TimeEmpty | TimeInvalid string | HourInvalid string | MinuteInvalid string
  | ScheduleMissing | ScheduleAmbiguous
  | TitleRequired | ThreadInvalid | FireTimeNotFinite | TimerLimitReached | InvalidTimeValue

definition parseDuration :: "string \<Rightarrow> timer_error + jsnum" where
  "parseDuration spec =
     (let s = lower (trim spec)
      in if s = [] then Inl DurationEmpty
         else case match_duration s of
           Some (v, u) \<Rightarrow>
             let ms = js_round (to_double (v * u))
             in if positive_num ms then Inr ms else Inl (DurationNotPositive spec)
         | None \<Rightarrow> (case match_compound s of
             Some (h, m, sec) \<Rightarrow>
               if h = [] \<and> m = [] \<and> sec = [] then Inl (DurationInvalid spec)
               else
                 let ms = to_double (digits_number h * 3600000 + digits_number m * 60000 + digits_number sec * 1000)
                 in if positive_num ms then Inr ms else Inl (DurationNotPositive spec)
           | None \<Rightarrow> Inl (DurationInvalid spec)))"

section \<open>Wall-clock times\<close>

text \<open>
  The local time zone: what turns universal time into local time and back. \<open>setHours\<close> keeps the
  local day, \<open>setDate(getDate() + 1)\<close> moves to the next local day at the same local time.
\<close>

record time_zone =
  tz_local :: "number \<Rightarrow> number"
  tz_utc :: "number \<Rightarrow> number"

definition MS_PER_DAY :: number where "MS_PER_DAY = 86400000"

definition local_day :: "number \<Rightarrow> number" where
  "local_day t = of_int \<lfloor>t / MS_PER_DAY\<rfloor> * MS_PER_DAY"

definition set_hours :: "time_zone \<Rightarrow> number \<Rightarrow> nat \<Rightarrow> nat \<Rightarrow> number" where
  "set_hours tz now hours minutes =
     tz_utc tz (local_day (tz_local tz now) + of_nat hours * 3600000 + of_nat minutes * 60000)"

definition next_day :: "time_zone \<Rightarrow> number \<Rightarrow> number" where
  "next_day tz t = tz_utc tz (tz_local tz t + MS_PER_DAY)"

text \<open>\<open>/^(\d{1,2})(?::(\d{2}))?\s*(am|pm)$/i\<close> on a lower-case string: hours, minutes, afternoon.\<close>

definition one_or_two :: "string \<Rightarrow> bool" where
  "one_or_two ds \<longleftrightarrow> ds \<noteq> [] \<and> length ds \<le> 2"

definition minutes_part :: "string \<Rightarrow> (string \<times> string) option" where
  "minutes_part r = (case r of
       c # a # b # r' \<Rightarrow> if c = CHR '':'' \<and> is_digit a \<and> is_digit b then Some ([a, b], r') else None
     | _ \<Rightarrow> None)"

definition match_12h :: "string \<Rightarrow> (string \<times> string \<times> bool) option" where
  "match_12h s =
     (let h = takeWhile is_digit s; r = dropWhile is_digit s;
          (m, r) = (case minutes_part r of Some (m, r') \<Rightarrow> (m, r') | None \<Rightarrow> ([], r));
          suffix = dropWhile js_space r
      in if one_or_two h \<and> suffix \<in> {''am'', ''pm''} then Some (h, m, suffix = ''pm'') else None)"

definition match_24h :: "string \<Rightarrow> (string \<times> string) option" where
  "match_24h s =
     (let h = takeWhile is_digit s
      in case minutes_part (dropWhile is_digit s) of
           Some (m, r) \<Rightarrow> if one_or_two h \<and> r = [] then Some (h, m) else None
         | None \<Rightarrow> None)"

definition clock_time :: "string \<Rightarrow> timer_error + nat \<times> nat" where
  "clock_time spec =
     (let s = lower (trim spec)
      in if s = [] then Inl TimeEmpty
         else case match_12h s of
           Some (h, m, isPM) \<Rightarrow>
             let hours = digits_value h; minutes = digits_value m
             in if hours < 1 \<or> 12 < hours then Inl (HourInvalid spec)
                else if 59 < minutes then Inl (MinuteInvalid spec)
                else Inr (if isPM \<and> hours \<noteq> 12 then hours + 12 else if \<not> isPM \<and> hours = 12 then 0 else hours, minutes)
         | None \<Rightarrow> (case match_24h s of
             None \<Rightarrow> Inl (TimeInvalid spec)
           | Some (h, m) \<Rightarrow>
               let hours = digits_value h; minutes = digits_value m
               in if 23 < hours then Inl (HourInvalid spec)
                  else if 59 < minutes then Inl (MinuteInvalid spec) else Inr (hours, minutes)))"

definition parseWallClock :: "time_zone \<Rightarrow> number \<Rightarrow> string \<Rightarrow> timer_error + number" where
  "parseWallClock tz now spec = bind_res (clock_time spec) (\<lambda>(hours, minutes).
     let target = set_hours tz now hours minutes
     in Inr (if target \<le> now then next_day tz target else target))"

section \<open>Schedules\<close>

record schedule =
  sc_type :: timer_type
  sc_nextFireAt :: jsnum
  sc_intervalMs :: "jsnum option"
  sc_originalSpec :: string

definition add_ms :: "number \<Rightarrow> jsnum \<Rightarrow> jsnum" where
  "add_ms now ms = (case ms of Fin q \<Rightarrow> to_double (now + q) | x \<Rightarrow> x)"

definition resolveTimerSchedule :: "time_zone \<Rightarrow> number \<Rightarrow> timer_input \<Rightarrow> timer_error + schedule" where
  "resolveTimerSchedule tz now input =
     (let specs = List.map_filter truthy [ti_in input, ti_at input, ti_every input]
      in if specs = [] then Inl ScheduleMissing
         else if 1 < length specs then Inl ScheduleAmbiguous
         else case truthy (ti_in input) of
           Some spec \<Rightarrow> bind_res (parseDuration spec) (\<lambda>ms.
             Inr \<lparr>sc_type = DelayTimer, sc_nextFireAt = add_ms now ms, sc_intervalMs = None, sc_originalSpec = spec\<rparr>)
         | None \<Rightarrow> (case truthy (ti_at input) of
             Some spec \<Rightarrow> bind_res (parseWallClock tz now spec) (\<lambda>t.
               Inr \<lparr>sc_type = AtTimer, sc_nextFireAt = Fin t, sc_intervalMs = None, sc_originalSpec = spec\<rparr>)
           | None \<Rightarrow>
               let spec = hd specs
               in bind_res (parseDuration spec) (\<lambda>ms.
                 Inr \<lparr>sc_type = RecurringTimer, sc_nextFireAt = add_ms now ms, sc_intervalMs = Some ms, sc_originalSpec = spec\<rparr>)))"

section \<open>What a schedule means\<close>

lemma units_are_key_chars: "unit_ms u = Some k \<Longrightarrow> key_char u \<and> \<not> is_digit u \<and> 1000 \<le> k"
  by (auto simp: unit_ms_def key_char_def js_space_def lower_char_def is_digit_def split: if_splits)

lemma round_number_of_nat [simp]: "round_number (of_nat n) = of_nat n" "round_number (of_nat n * numeral k) = of_nat n * numeral k"
proof -
  have r: "round_number (of_nat m) = of_nat m" for m
    by (simp add: round_number_def floor_eq_iff)
  then show "round_number (of_nat n) = of_nat n" .
  show "round_number (of_nat n * numeral k) = of_nat n * numeral k"
    using r [of "n * numeral k"] by simp
qed

lemma match_duration_printed: "unit_ms u = Some k \<Longrightarrow> match_duration (show_nat n @ [u]) = Some (of_nat n, k)"
proof -
  assume u: "unit_ms u = Some k"
  then have nd: "\<not> is_digit u" "u \<noteq> CHR ''.''" using units_are_key_chars by (auto simp: unit_ms_def)
  have "takeWhile is_digit (show_nat n @ [u]) = show_nat n" "dropWhile is_digit (show_nat n @ [u]) = [u]"
    using show_nat_digits [of n] nd by (auto intro: takeWhile_end dropWhile_end)
  moreover obtain d ds where "show_nat n = d # ds" by (cases "show_nat n") auto
  moreover have "digits_value (d # ds) = n" using calculation(3) by (metis digits_value_show_nat)
  ultimately show ?thesis using u nd
    by (simp add: match_duration_def decimal_number_def digits_number_def digits_value_def)
qed

lemma printed_trim_lower:
  assumes "list_all key_char s" shows "lower (trim s) = s"
  using assms by (simp add: key_chars_trim key_chars_lower)

lemma unit_whole: "unit_ms u = Some k \<Longrightarrow> \<exists>m. k = numeral m"
  by (auto simp: unit_ms_def split: if_splits)

lemma parseDuration_printed:
  assumes u: "unit_ms u = Some k" and pos: "0 < n" and fits: "of_nat n * k < max_double"
  shows "parseDuration (show_nat n @ [u]) = Inr (Fin (of_nat n * k))"
proof -
  have "list_all key_char (show_nat n @ [u])"
    using units_are_key_chars [OF u] show_nat_digits [of n] by (simp add: digits_key_chars)
  then have t: "lower (trim (show_nat n @ [u])) = show_nat n @ [u]" by (rule printed_trim_lower)
  obtain m where "k = numeral m" using unit_whole [OF u] by blast
  then show ?thesis using fits pos
    by (simp add: parseDuration_def t match_duration_printed [OF u] to_double_def js_round_def positive_num_def)
qed

text \<open>Hours, minutes and seconds, each optional, as a duration.\<close>

definition hms_text :: "nat option \<Rightarrow> nat option \<Rightarrow> nat option \<Rightarrow> string" where
  "hms_text h m s = (case h of None \<Rightarrow> [] | Some n \<Rightarrow> show_nat n @ ''h'')
     @ (case m of None \<Rightarrow> [] | Some n \<Rightarrow> show_nat n @ ''m'') @ (case s of None \<Rightarrow> [] | Some n \<Rightarrow> show_nat n @ ''s'')"

definition opt_nat :: "nat option \<Rightarrow> nat" where
  "opt_nat v = (case v of None \<Rightarrow> 0 | Some n \<Rightarrow> n)"

lemma duration_part_hit: "\<not> is_digit u \<Longrightarrow> duration_part u (show_nat n @ u # r) = (show_nat n, r)"
  using show_nat_digits [of n] by (simp add: duration_part_def takeWhile_end dropWhile_end)

lemma duration_part_miss: "\<not> is_digit c \<Longrightarrow> c \<noteq> u \<Longrightarrow> duration_part u (show_nat n @ c # r) = ([], show_nat n @ c # r)"
  using show_nat_digits [of n] by (simp add: duration_part_def takeWhile_end dropWhile_end Let_def)

lemma duration_part_Nil [simp]: "duration_part u [] = ([], [])"
  by (simp add: duration_part_def)

lemma match_compound_text:
  "match_compound (hms_text h m s)
     = Some (case h of None \<Rightarrow> [] | Some n \<Rightarrow> show_nat n, case m of None \<Rightarrow> [] | Some n \<Rightarrow> show_nat n,
             case s of None \<Rightarrow> [] | Some n \<Rightarrow> show_nat n)"
  by (auto simp: match_compound_def hms_text_def duration_part_hit duration_part_miss is_digit_def split: option.splits)

lemma match_duration_None:
  assumes "\<not> is_digit u" "u \<noteq> CHR ''.''" "r \<noteq> []" shows "match_duration (show_nat n @ u # r) = None"
proof -
  have "takeWhile is_digit (show_nat n @ u # r) = show_nat n" "dropWhile is_digit (show_nat n @ u # r) = u # r"
    using show_nat_digits [of n] assms by (auto intro: takeWhile_end dropWhile_end)
  then show ?thesis using assms by (cases r; cases "show_nat n") (simp_all add: match_duration_def)
qed

text \<open>
  A duration written as hours, minutes and seconds, each part optional, means the sum of its
  parts, as long as that is positive and a finite double.
\<close>

theorem duration_means_its_sum:
  fixes h m s :: "nat option"
  defines "ms \<equiv> opt_nat h * 3600000 + opt_nat m * 60000 + opt_nat s * 1000"
  assumes pos: "0 < ms" and fits: "of_nat ms < max_double"
  shows "parseDuration (hms_text h m s) = Inr (Fin (of_nat ms))"
proof -
  let ?t = "hms_text h m s"
  have "list_all key_char ?t"
    using show_nat_digits by (auto simp: hms_text_def digits_key_chars key_char_def js_space_def lower_char_def split: option.splits)
  then have t: "lower (trim ?t) = ?t" by (rule printed_trim_lower)
  consider (hour) n where "h = Some n" "m = None" "s = None" | (minute) n where "h = None" "m = Some n" "s = None"
    | (second) n where "h = None" "m = None" "s = Some n" | (more) "match_duration ?t = None" "?t \<noteq> []" "h \<noteq> None \<or> m \<noteq> None \<or> s \<noteq> None"
    using pos by (cases h; cases m; cases s)
      (auto simp: ms_def opt_nat_def hms_text_def match_duration_None is_digit_def)
  then show ?thesis
  proof cases
    case hour
    then show ?thesis using parseDuration_printed [of "CHR ''h''" 3600000 n] pos fits
      by (simp add: ms_def opt_nat_def hms_text_def unit_ms_def)
  next
    case minute
    then show ?thesis using parseDuration_printed [of "CHR ''m''" 60000 n] pos fits
      by (simp add: ms_def opt_nat_def hms_text_def unit_ms_def)
  next
    case second
    then show ?thesis using parseDuration_printed [of "CHR ''s''" 1000 n] pos fits
      by (simp add: ms_def opt_nat_def hms_text_def unit_ms_def)
  next
    case more
    have v: "digits_number (case v of None \<Rightarrow> [] | Some n \<Rightarrow> show_nat n) = of_nat (opt_nat v)" for v
      by (simp add: digits_number_def opt_nat_def digits_value_def split: option.splits)
        (metis digits_value_def digits_value_show_nat)
    have sum: "digits_number (case h of None \<Rightarrow> [] | Some n \<Rightarrow> show_nat n) * 3600000
      + digits_number (case m of None \<Rightarrow> [] | Some n \<Rightarrow> show_nat n) * 60000
      + digits_number (case s of None \<Rightarrow> [] | Some n \<Rightarrow> show_nat n) * 1000 = of_nat ms"
      by (simp add: v ms_def)
    have some: "\<not> ((case h of None \<Rightarrow> [] | Some n \<Rightarrow> show_nat n) = [] \<and> (case m of None \<Rightarrow> [] | Some n \<Rightarrow> show_nat n) = []
       \<and> (case s of None \<Rightarrow> [] | Some n \<Rightarrow> show_nat n) = [])"
      using more(3) by (auto split: option.splits)
    show ?thesis using more(1,2) pos fits
      by (simp only: parseDuration_def t match_compound_text Let_def some sum if_False option.case prod.case)
        (simp add: to_double_def positive_num_def)
  qed
qed

theorem duration_means_its_sum_witness:
  "parseDuration ''1h15m30s'' = Inr (Fin 4530000) \<and> parseDuration ''90m'' = Inr (Fin 5400000)"
proof -
  have s: "show_nat 1 = ''1''" "show_nat 15 = ''15''" "show_nat 30 = ''30''" "show_nat 90 = ''90''" by code_simp+
  have m: "(4530000 :: number) < max_double" "(5400000 :: number) < max_double" by (simp_all add: max_double_def)
  show ?thesis
    using duration_means_its_sum [of "Some 1" "Some 15" "Some 30"] duration_means_its_sum [of None "Some 90" None] m
    by (simp add: hms_text_def opt_nat_def s s [simplified])
qed

text \<open>Every duration is a positive whole number of milliseconds, or too large for a double.\<close>

definition whole_ms :: "jsnum \<Rightarrow> bool" where
  "whole_ms x = (case x of Fin q \<Rightarrow> 1 \<le> q \<and> of_int \<lfloor>q\<rfloor> = q | PosInf \<Rightarrow> True | _ \<Rightarrow> False)"

lemma whole_msI: "positive_num x \<Longrightarrow> (\<And>q. x = Fin q \<Longrightarrow> q = of_int \<lfloor>q\<rfloor>) \<Longrightarrow> whole_ms x"
proof (cases x)
  case (Fin q)
  assume "positive_num x" "\<And>q. x = Fin q \<Longrightarrow> q = of_int \<lfloor>q\<rfloor>"
  with Fin have "0 < q" "q = of_int \<lfloor>q\<rfloor>" by (simp_all add: positive_num_def)
  moreover from this have "1 \<le> \<lfloor>q\<rfloor>" by (metis of_int_0_less_iff zero_less_iff_neq_zero less_le_not_le int_one_le_iff_zero_less)
  ultimately show ?thesis using Fin by (simp add: whole_ms_def)
qed (simp_all add: whole_ms_def positive_num_def)

lemma parseDuration_whole: "parseDuration spec = Inr ms \<Longrightarrow> whole_ms ms"
proof -
  assume p: "parseDuration spec = Inr ms"
  have rounded: "q = of_int \<lfloor>q\<rfloor>" if "js_round (to_double r) = Fin q" for q r
    using that by (auto simp: js_round_def to_double_def round_number_def split: if_splits)
  have nat: "q = of_int \<lfloor>q\<rfloor>" if "to_double (digits_number a * 3600000 + digits_number b * 60000 + digits_number c * 1000) = Fin q" for q a b c
  proof -
    have "q = of_nat (digits_value a * 3600000 + digits_value b * 60000 + digits_value c * 1000)"
      using that by (auto simp: to_double_def digits_number_def split: if_splits)
    then show ?thesis by (metis floor_of_nat of_int_of_nat_eq)
  qed
  show ?thesis
  proof (rule whole_msI)
    show "positive_num ms" using p by (auto simp: parseDuration_def Let_def split: if_splits option.splits prod.splits)
    fix q assume "ms = Fin q"
    with p consider r where "js_round (to_double r) = Fin q"
      | a b c where "to_double (digits_number a * 3600000 + digits_number b * 60000 + digits_number c * 1000) = Fin q"
      by (auto simp: parseDuration_def Let_def split: if_splits option.splits prod.splits)
    then show "q = of_int \<lfloor>q\<rfloor>" by cases (fact rounded, fact nat)
  qed
qed

section \<open>Wall-clock times\<close>

text \<open>A zone that does not change its offset: local time is universal time moved by a constant.\<close>

definition fixed_offset :: "time_zone \<Rightarrow> bool" where
  "fixed_offset tz \<longleftrightarrow> (\<exists>off. \<forall>t. tz_local tz t = t + off \<and> tz_utc tz t = t - off)"

definition time_of_day :: "time_zone \<Rightarrow> number \<Rightarrow> number" where
  "time_of_day tz t = tz_local tz t - local_day (tz_local tz t)"

lemma local_day_bounds: "local_day t \<le> t" "t < local_day t + MS_PER_DAY"
proof -
  have "of_int \<lfloor>t / MS_PER_DAY\<rfloor> \<le> t / MS_PER_DAY" "t / MS_PER_DAY < of_int \<lfloor>t / MS_PER_DAY\<rfloor> + 1" by linarith+
  then show "local_day t \<le> t" "t < local_day t + MS_PER_DAY" by (simp_all add: local_day_def MS_PER_DAY_def field_simps)
qed

lemma local_day_of: "0 \<le> r \<Longrightarrow> r < MS_PER_DAY \<Longrightarrow> local_day (of_int k * MS_PER_DAY + r) = of_int k * MS_PER_DAY"
proof -
  assume r: "0 \<le> r" "r < MS_PER_DAY"
  have "(of_int k * MS_PER_DAY + r) / MS_PER_DAY = of_int k + r / MS_PER_DAY"
    by (simp add: MS_PER_DAY_def add_divide_distrib)
  moreover have "0 \<le> r / MS_PER_DAY" "r / MS_PER_DAY < 1" using r by (simp_all add: MS_PER_DAY_def)
  ultimately have "\<lfloor>(of_int k * MS_PER_DAY + r) / MS_PER_DAY\<rfloor> = k" by (simp add: floor_eq_iff)
  then show ?thesis by (simp add: local_day_def)
qed

lemma clock_time_range: "clock_time spec = Inr (h, m) \<Longrightarrow> h < 24 \<and> m < 60"
  by (auto simp: clock_time_def Let_def split: if_splits option.splits prod.splits)

lemma wall_clock_next:
  assumes zone: "fixed_offset tz" and clock: "clock_time spec = Inr (h, m)"
  shows "\<exists>t. parseWallClock tz now spec = Inr t \<and> now < t \<and> t \<le> now + MS_PER_DAY
    \<and> time_of_day tz t = of_nat h * 3600000 + of_nat m * 60000"
proof -
  obtain off where z: "\<And>t. tz_local tz t = t + off" "\<And>t. tz_utc tz t = t - off"
    using zone by (auto simp: fixed_offset_def)
  define r :: number where "r = of_nat h * 3600000 + of_nat m * 60000"
  have "of_nat h \<le> (23 :: number)" "of_nat m \<le> (59 :: number)" using clock_time_range [OF clock] by simp_all
  then have r: "0 \<le> r" "r < MS_PER_DAY" by (simp_all add: r_def MS_PER_DAY_def)
  define k where "k = \<lfloor>(now + off) / MS_PER_DAY\<rfloor>"
  have k: "local_day (now + off) = of_int k * MS_PER_DAY" by (simp add: k_def local_day_def)
  define t where "t = of_int k * MS_PER_DAY + r - off"
  have target: "set_hours tz now h m = t" by (simp add: set_hours_def z k t_def r_def)
  have tomorrow: "next_day tz t = t + MS_PER_DAY" by (simp add: next_day_def z)
  have day: "of_int k * MS_PER_DAY \<le> now + off" "now + off < of_int k * MS_PER_DAY + MS_PER_DAY"
    using local_day_bounds [of "now + off"] by (simp_all add: k)
  have tod: "time_of_day tz (t + of_int j * MS_PER_DAY) = r" for j
    using local_day_of [OF r, of "k + j"] by (simp add: time_of_day_def z t_def algebra_simps)
  have "parseWallClock tz now spec = Inr (if t \<le> now then t + MS_PER_DAY else t)"
    by (simp add: parseWallClock_def clock target tomorrow)
  moreover have "now < t + MS_PER_DAY" using r day by (simp add: t_def)
  moreover have "t \<le> now + MS_PER_DAY" using r day by (simp add: t_def)
  ultimately show ?thesis using tod [of 0] tod [of 1]
    by (intro exI [of _ "if t \<le> now then t + MS_PER_DAY else t"]) (simp add: r_def)
qed

text \<open>
  In a zone with a fixed offset, a wall-clock time names the next instant at which the local
  clock shows it: later than now, at most a day away, with that local hour and minute exactly.
\<close>

theorem wall_clock_is_next:
  assumes zone: "fixed_offset tz" and clock: "clock_time spec = Inr (h, m)"
  shows "\<exists>t. parseWallClock tz now spec = Inr t \<and> now < t \<and> t \<le> now + MS_PER_DAY
    \<and> time_of_day tz t = of_nat h * 3600000 + of_nat m * 60000"
  using assms by (rule wall_clock_next)

definition utc :: time_zone where
  "utc = \<lparr>tz_local = \<lambda>t. t, tz_utc = \<lambda>t. t\<rparr>"

lemma utc_fixed [simp]: "fixed_offset utc"
  by (auto simp: fixed_offset_def utc_def intro: exI [of _ 0])

theorem wall_clock_is_next_witness:
  "clock_time ''3:30pm'' = Inr (15, 30)
    \<and> (\<exists>t. parseWallClock utc 1000 ''3:30pm'' = Inr t \<and> 1000 < t \<and> t \<le> 1000 + MS_PER_DAY
        \<and> time_of_day utc t = 55800000)"
proof -
  have c: "clock_time ''3:30pm'' = Inr (15, 30)" by code_simp
  show ?thesis using wall_clock_is_next [OF utc_fixed c, of 1000] c by simp
qed

section \<open>Schedules\<close>

definition later_than :: "number \<Rightarrow> jsnum \<Rightarrow> bool" where
  "later_than now x = (case x of Fin t \<Rightarrow> now < t | PosInf \<Rightarrow> True | _ \<Rightarrow> False)"

lemma add_ms_later: "whole_ms ms \<Longrightarrow> later_than now (add_ms now ms)"
  by (auto simp: add_ms_def to_double_def later_than_def whole_ms_def split: jsnum.splits)

lemma schedule_cases:
  assumes ok: "resolveTimerSchedule tz now input = Inr sc"
  obtains
    (delay) i ms where "truthy (ti_in input) = Some i" "truthy (ti_at input) = None" "truthy (ti_every input) = None"
      "parseDuration i = Inr ms"
      "sc = \<lparr>sc_type = DelayTimer, sc_nextFireAt = add_ms now ms, sc_intervalMs = None, sc_originalSpec = i\<rparr>"
  | (at) a t where "truthy (ti_at input) = Some a" "truthy (ti_in input) = None" "truthy (ti_every input) = None"
      "parseWallClock tz now a = Inr t"
      "sc = \<lparr>sc_type = AtTimer, sc_nextFireAt = Fin t, sc_intervalMs = None, sc_originalSpec = a\<rparr>"
  | (recurring) e ms where "truthy (ti_every input) = Some e" "truthy (ti_in input) = None" "truthy (ti_at input) = None"
      "parseDuration e = Inr ms"
      "sc = \<lparr>sc_type = RecurringTimer, sc_nextFireAt = add_ms now ms, sc_intervalMs = Some ms, sc_originalSpec = e\<rparr>"
proof -
  have bound: "(\<exists>x. v = Inr x \<and> k x = Inr sc)" if "bind_res v k = Inr sc" for v :: "timer_error + 'x" and k
    using that by (cases v) simp_all
  show ?thesis using ok
    by (cases "truthy (ti_in input)"; cases "truthy (ti_at input)"; cases "truthy (ti_every input)")
      (auto simp: resolveTimerSchedule_def Let_def List.map_filter_def dest!: bound intro: that)
qed

lemma parseWallClock_later: "fixed_offset tz \<Longrightarrow> parseWallClock tz now spec = Inr t \<Longrightarrow> now < t"
proof -
  assume zone: "fixed_offset tz" and p: "parseWallClock tz now spec = Inr t"
  obtain h m where "clock_time spec = Inr (h, m)"
    using p by (cases "clock_time spec") (auto simp: parseWallClock_def)
  from wall_clock_next [OF zone this, of now] p show ?thesis by auto
qed

text \<open>
  A schedule comes from exactly one of the three specifications and fires strictly later than
  now; a recurring one carries its interval, a whole number of milliseconds.
\<close>

theorem schedule_in_the_future:
  assumes zone: "fixed_offset tz" and ok: "resolveTimerSchedule tz now input = Inr sc"
  shows "later_than now (sc_nextFireAt sc)
    \<and> (case sc_type sc of
         DelayTimer \<Rightarrow> truthy (ti_in input) = Some (sc_originalSpec sc) \<and> truthy (ti_at input) = None
           \<and> truthy (ti_every input) = None \<and> sc_intervalMs sc = None
       | AtTimer \<Rightarrow> truthy (ti_at input) = Some (sc_originalSpec sc) \<and> truthy (ti_in input) = None
           \<and> truthy (ti_every input) = None \<and> sc_intervalMs sc = None
       | RecurringTimer \<Rightarrow> truthy (ti_every input) = Some (sc_originalSpec sc) \<and> truthy (ti_in input) = None
           \<and> truthy (ti_at input) = None
           \<and> (\<exists>ms. sc_intervalMs sc = Some ms \<and> whole_ms ms \<and> sc_nextFireAt sc = add_ms now ms))"
  using ok
proof (cases rule: schedule_cases)
  case at
  then show ?thesis using parseWallClock_later [OF zone] by (auto simp: later_than_def)
qed (auto dest!: parseDuration_whole intro!: add_ms_later)

definition hourly_input :: timer_input where
  "hourly_input = \<lparr>ti_title = Some ''check'', ti_description = None, ti_threadKey = None, ti_in = None, ti_at = None, ti_every = Some ''1h''\<rparr>"

lemma hourly_schedule:
  "resolveTimerSchedule utc 1000 hourly_input
     = Inr \<lparr>sc_type = RecurringTimer, sc_nextFireAt = Fin 3601000, sc_intervalMs = Some (Fin 3600000), sc_originalSpec = ''1h''\<rparr>"
proof -
  have m: "(3600000 :: number) < max_double" "(3601000 :: number) < max_double" by (simp_all add: max_double_def)
  have "show_nat 1 = ''1''" by code_simp
  then have "parseDuration ''1h'' = Inr (Fin 3600000)"
    using parseDuration_printed [of "CHR ''h''" 3600000 1] m by (simp add: unit_ms_def)
  then show ?thesis using m
    by (simp add: resolveTimerSchedule_def hourly_input_def List.map_filter_def add_ms_def to_double_def)
qed

theorem schedule_in_the_future_witness:
  "later_than 1000 (Fin 3601000) \<and> truthy (ti_every hourly_input) = Some ''1h'' \<and> whole_ms (Fin 3600000)"
  using schedule_in_the_future [OF utc_fixed hourly_schedule] by (simp add: add_ms_def to_double_def max_double_def)

end
