(* ===== verification/Timer_Manager.thy ===== *)
theory Timer_Manager
  imports Timer_Parse Thread_Keys
begin

text \<open>
  The timer files (server/timer-store.ts) and the timer manager (server/timer-manager.ts). The
  manager's map of sessions is an association list in insertion order; writes succeed; messages to
  sessions and browsers are a log.
\<close>

section \<open>Thread routes\<close>

record thread_route =
  tr_threadKey :: string
  tr_questId :: "string option"
  tr_refs :: "(string \<times> string option \<times> string) list"

definition threadRouteForTarget :: "string \<Rightarrow> string \<Rightarrow> thread_route" where
  "threadRouteForTarget threadKey source =
     (case normalizeThreadTarget threadKey of
        None \<Rightarrow> \<lparr>tr_threadKey = ''main'', tr_questId = None, tr_refs = []\<rparr>
      | Some t \<Rightarrow>
          if tt_threadKey t = ''main'' then \<lparr>tr_threadKey = ''main'', tr_questId = None, tr_refs = []\<rparr>
          else \<lparr>tr_threadKey = tt_threadKey t, tr_questId = tt_questId t,
                 tr_refs = [(tt_threadKey t, tt_questId t, source)]\<rparr>)"

definition normalizeThreadRoute :: "string option \<Rightarrow> string option \<Rightarrow> thread_route option" where
  "normalizeThreadRoute threadKey questId =
     (let target = Option.bind threadKey normalizeThreadTarget;
          normalized = (case target of Some t \<Rightarrow> Some t | None \<Rightarrow> Option.bind questId normalizeThreadTarget)
      in map_option (\<lambda>t. threadRouteForTarget (tt_threadKey t) ''explicit'') normalized)"

section \<open>Files\<close>

text \<open>
  A stored timer: the fields the code trusts, and the title, description and legacy prompt it
  normalises. A file that is missing, or is not JSON with a list of timers, counts as empty.
\<close>

record raw_timer =
  rw_timer :: timer
  rw_title :: "json option"
  rw_description :: "json option"
  rw_prompt :: "json option"

datatype disk_file = UnreadableFile | TimersFile "nat option" "raw_timer list option"   \<comment> \<open>nextId, timers\<close>

type_synonym timer_disk = "(string \<times> disk_file) list"

definition emptyFile :: "string \<Rightarrow> timer_file" where
  "emptyFile sessionId = \<lparr>tf_sessionId = sessionId, tf_nextId = 1, tf_timers = []\<rparr>"

text \<open>The text before and after the first occurrence of a divider.\<close>

fun split_first :: "string \<Rightarrow> string \<Rightarrow> (string \<times> string) option" where
  "split_first d s = (if starts_with d s then Some ([], drop (length d) s)
     else case s of [] \<Rightarrow> None | c # cs \<Rightarrow> map_option (\<lambda>(a, b). (c # a, b)) (split_first d cs))"

declare split_first.simps [simp del]

definition splitOnce :: "string \<Rightarrow> string \<Rightarrow> (string \<times> string) option" where
  "splitOnce t divider = (case split_first divider t of None \<Rightarrow> None
     | Some (a, b) \<Rightarrow> if trim a = [] then None else Some (trim a, trim b))"

text \<open>\<open>replace(/\r\n?/g, "\n")\<close>\<close>

fun unify_newlines :: "string \<Rightarrow> string" where
  "unify_newlines [] = []"
| "unify_newlines (c # cs) =
     (if c = CHR 0x0D then CHR 0x0A # (case cs of d # ds \<Rightarrow> if d = CHR 0x0A then unify_newlines ds else unify_newlines cs | [] \<Rightarrow> [])
      else c # unify_newlines cs)"

definition first_some :: "'a option list \<Rightarrow> 'a option" where
  "first_some xs = (case List.map_filter id xs of [] \<Rightarrow> None | x # _ \<Rightarrow> Some x)"

definition normalizeLegacyPrompt :: "json option \<Rightarrow> string \<times> string" where
  "normalizeLegacyPrompt prompt =
     (let raw = trim (case prompt of None \<Rightarrow> [] | Some v \<Rightarrow> js_string v)
      in if raw = [] then (''Timer'', [])
         else
           let t = unify_newlines raw
           in case first_some (map (splitOnce t) ['' -- '', nl, '': '', ''. '']) of
                Some r \<Rightarrow> r
              | None \<Rightarrow> if 72 < length raw then (trim_right (take 69 raw) @ ''...'', raw) else (raw, []))"

definition normalizeTimer :: "string \<Rightarrow> raw_timer \<Rightarrow> timer" where
  "normalizeTimer sessionId t =
     (let title = (case as_string (rw_title t) of None \<Rightarrow> [] | Some s \<Rightarrow> trim s);
          description = map_option trim (as_string (rw_description t));
          legacy = normalizeLegacyPrompt (rw_prompt t)
      in (rw_timer t)\<lparr>tm_sessionId := sessionId, tm_title := (if title \<noteq> [] then title else fst legacy),
           tm_description := (case description of Some d \<Rightarrow> d | None \<Rightarrow> snd legacy)\<rparr>)"

definition read_file :: "string \<Rightarrow> disk_file \<Rightarrow> timer_file" where
  "read_file sessionId f = (case f of
       TimersFile nextId (Some ts) \<Rightarrow>
         \<lparr>tf_sessionId = sessionId, tf_nextId = (case nextId of None \<Rightarrow> 1 | Some n \<Rightarrow> n), tf_timers = map (normalizeTimer sessionId) ts\<rparr>
     | _ \<Rightarrow> emptyFile sessionId)"

definition loadTimers :: "string \<Rightarrow> timer_disk \<Rightarrow> timer_file" where
  "loadTimers sessionId disk = (case map_of disk sessionId of None \<Rightarrow> emptyFile sessionId | Some f \<Rightarrow> read_file sessionId f)"

definition raw_of :: "timer \<Rightarrow> raw_timer" where
  "raw_of t = \<lparr>rw_timer = t, rw_title = Some (JStr (tm_title t)), rw_description = Some (JStr (tm_description t)), rw_prompt = None\<rparr>"

definition saveTimers :: "timer_file \<Rightarrow> timer_disk \<Rightarrow> timer_disk" where
  "saveTimers f disk = AList.update (tf_sessionId f) (TimersFile (Some (tf_nextId f)) (Some (map raw_of (tf_timers f)))) disk"

definition deleteTimers :: "string \<Rightarrow> timer_disk \<Rightarrow> timer_disk" where
  "deleteTimers sessionId disk = AList.delete sessionId disk"

definition listTimerSessions :: "timer_disk \<Rightarrow> string list" where
  "listTimerSessions disk = map fst disk"

section \<open>The manager\<close>

datatype delivery = Sent | QueuedDelivery | PausedQueued | Dropped | NoSession

datatype timer_effect =
    InjectMessage string string "string \<times> string" "thread_route option" "(string \<times> number) option"
      \<comment> \<open>session, content, sender (id, label), route, firing (timer, scheduled time)\<close>
  | BroadcastTimers string "timer list"

record timer_env =
  te_now :: number
  te_zone :: time_zone
  te_stopping :: bool
  te_paused :: "string \<Rightarrow> bool"
  te_deliver :: "string \<Rightarrow> delivery"

record timer_state =
  ts_sessions :: "(string \<times> timer_file) list"
  ts_disk :: timer_disk
  ts_log :: "timer_effect list"

definition MAX_TIMERS_PER_SESSION :: nat where "MAX_TIMERS_PER_SESSION = 50"

definition LATE_TIMER_THRESHOLD_MS :: number where "LATE_TIMER_THRESHOLD_MS = 5 * 60000"

definition timer_log :: "timer_effect list \<Rightarrow> timer_state \<Rightarrow> timer_state" where
  "timer_log es s = s\<lparr>ts_log := ts_log s @ es\<rparr>"

definition session_file :: "string \<Rightarrow> timer_state \<Rightarrow> timer_file option" where
  "session_file sid s = map_of (ts_sessions s) sid"

definition set_session :: "string \<Rightarrow> timer_file \<Rightarrow> timer_state \<Rightarrow> timer_state" where
  "set_session sid f s = s\<lparr>ts_sessions := AList.update sid f (ts_sessions s)\<rparr>"

text \<open>Starting: every readable file with timers; the state in memory before is empty.\<close>

definition startAllTimers :: "timer_disk \<Rightarrow> timer_state" where
  "startAllTimers disk =
     fold (\<lambda>sid s. let f = loadTimers sid disk in if tf_timers f \<noteq> [] then set_session sid f s else s)
       (listTimerSessions disk) \<lparr>ts_sessions = [], ts_disk = disk, ts_log = []\<rparr>"

definition listTimers :: "string \<Rightarrow> timer_state \<Rightarrow> timer list" where
  "listTimers sid s = (case session_file sid s of None \<Rightarrow> [] | Some f \<Rightarrow> tf_timers f)"

definition broadcastTimers :: "string \<Rightarrow> timer_state \<Rightarrow> timer_state" where
  "broadcastTimers sid s = timer_log [BroadcastTimers sid (listTimers sid s)] s"

definition persistSessionNow :: "string \<Rightarrow> timer_state \<Rightarrow> timer_state" where
  "persistSessionNow sid s = (case session_file sid s of None \<Rightarrow> s
     | Some f \<Rightarrow> s\<lparr>ts_disk := saveTimers f (ts_disk s)\<rparr>)"

definition persistAndEvictIfEmptyNow :: "string \<Rightarrow> timer_state \<Rightarrow> timer_state" where
  "persistAndEvictIfEmptyNow sid s =
     (let s1 = persistSessionNow sid s
      in case session_file sid s1 of
           Some f \<Rightarrow> if tf_timers f = [] then s1\<lparr>ts_sessions := AList.delete sid (ts_sessions s1)\<rparr> else s1
         | None \<Rightarrow> s1)"

section \<open>Creating and cancelling\<close>

record new_timer =
  nt_title :: string
  nt_threadKey :: "string option"
  nt_schedule :: schedule
  nt_fireAt :: number

text \<open>The checks of \<open>createTimer\<close> before the session's file is touched.\<close>

definition check_input :: "timer_env \<Rightarrow> timer_input \<Rightarrow> timer_error + new_timer" where
  "check_input env input =
     (let title = (case ti_title input of None \<Rightarrow> [] | Some t \<Rightarrow> trim t);
          target = Option.bind (ti_threadKey input) normalizeThreadTarget
      in if title = [] then Inl TitleRequired
         else if ti_threadKey input \<noteq> None \<and> target = None then Inl ThreadInvalid
         else bind_res (resolveTimerSchedule (te_zone env) (te_now env) input) (\<lambda>sc.
           case sc_nextFireAt sc of
             Fin t \<Rightarrow> Inr \<lparr>nt_title = title, nt_threadKey = map_option tt_threadKey target, nt_schedule = sc, nt_fireAt = t\<rparr>
           | _ \<Rightarrow> Inl FireTimeNotFinite))"

definition finite_interval :: "jsnum option \<Rightarrow> number option" where
  "finite_interval i = (case i of Some (Fin q) \<Rightarrow> Some q | _ \<Rightarrow> None)"

definition timer_of :: "timer_env \<Rightarrow> string \<Rightarrow> timer_input \<Rightarrow> new_timer \<Rightarrow> nat \<Rightarrow> timer" where
  "timer_of env sid input new n =
     \<lparr>tm_id = ''t'' @ show_nat n, tm_sessionId = sid, tm_threadKey = nt_threadKey new, tm_title = nt_title new,
      tm_description = (case ti_description input of None \<Rightarrow> [] | Some d \<Rightarrow> trim d), tm_type = sc_type (nt_schedule new),
      tm_originalSpec = sc_originalSpec (nt_schedule new), tm_nextFireAt = nt_fireAt new,
      tm_intervalMs = finite_interval (sc_intervalMs (nt_schedule new)), tm_createdAt = te_now env,
      tm_lastFiredAt = None, tm_fireCount = 0\<rparr>"

text \<open>The largest time a \<open>Date\<close> can hold; \<open>toISOString\<close> of a later one throws.\<close>

definition MAX_DATE :: number where "MAX_DATE = 8640000000000000"

text \<open>
  \<open>getOrCreateFile\<close> reads the disk in one step and stores what it read in a later one;
  \<open>add_timer\<close> is \<open>createTimer\<close> from there on, given the file that was read, if any. Its last
  action formats the fire time for the console.
\<close>

definition add_timer ::
  "timer_env \<Rightarrow> string \<Rightarrow> timer_input \<Rightarrow> new_timer \<Rightarrow> timer_file option \<Rightarrow> timer_state \<Rightarrow> (timer_error + timer) \<times> timer_state" where
  "add_timer env sid input new loaded s0 =
     (let s = (case loaded of None \<Rightarrow> s0 | Some f \<Rightarrow> set_session sid f s0);
          file = (case session_file sid s of None \<Rightarrow> emptyFile sid | Some f \<Rightarrow> f)
      in if MAX_TIMERS_PER_SESSION \<le> length (tf_timers file) then (Inl TimerLimitReached, s)
         else
           let timer = timer_of env sid input new (tf_nextId file);
               s1 = set_session sid (file\<lparr>tf_nextId := tf_nextId file + 1, tf_timers := tf_timers file @ [timer]\<rparr>) s;
               s2 = broadcastTimers sid (persistSessionNow sid s1)
           in (if MAX_DATE < tm_nextFireAt timer then Inl InvalidTimeValue else Inr timer, s2))"

definition read_if_needed :: "string \<Rightarrow> timer_state \<Rightarrow> timer_file option" where
  "read_if_needed sid s = (case session_file sid s of None \<Rightarrow> Some (loadTimers sid (ts_disk s)) | Some _ \<Rightarrow> None)"

definition createTimer ::
  "timer_env \<Rightarrow> string \<Rightarrow> timer_input \<Rightarrow> timer_state \<Rightarrow> (timer_error + timer) \<times> timer_state" where
  "createTimer env sid input s = check_res (check_input env input) s (\<lambda>new.
     add_timer env sid input new (read_if_needed sid s) s)"

text \<open>The alarm-clock sign, as the bytes of its encoding.\<close>

definition clock_sign :: string where "clock_sign = [CHR 0xE2, CHR 0x8F, CHR 0xB0]"

definition timer_sender :: "string \<Rightarrow> string \<times> string" where
  "timer_sender tid = (''timer:'' @ tid, ''Timer '' @ tid)"

definition cancelTimer :: "string \<Rightarrow> string \<Rightarrow> timer_state \<Rightarrow> bool \<times> timer_state" where
  "cancelTimer sid tid s = (case session_file sid s of None \<Rightarrow> (False, s)
     | Some f \<Rightarrow> (case List.find (\<lambda>t. tm_id t = tid) (tf_timers f) of None \<Rightarrow> (False, s)
         | Some timer \<Rightarrow>
             let s1 = set_session sid (f\<lparr>tf_timers := remove1 timer (tf_timers f)\<rparr>) s;
                 s2 = broadcastTimers sid (persistAndEvictIfEmptyNow sid s1);
                 content = ''['' @ clock_sign @ '' Timer '' @ tid @ '' cancelled] '' @ tm_title timer
             in (True, timer_log [InjectMessage sid content (timer_sender tid) (normalizeThreadRoute (tm_threadKey timer) None) None] s2)))"

definition cancelAllTimers :: "string \<Rightarrow> timer_state \<Rightarrow> timer_state" where
  "cancelAllTimers sid s =
     (let s1 = s\<lparr>ts_sessions := AList.delete sid (ts_sessions s), ts_disk := deleteTimers sid (ts_disk s)\<rparr>
      in if session_file sid s \<noteq> None then broadcastTimers sid s1 else s1)"

section \<open>The sweep\<close>

definition is_due :: "number \<Rightarrow> timer \<Rightarrow> bool" where
  "is_due now t \<longleftrightarrow> tm_nextFireAt t \<le> now"

definition getDueTimerSessionIds :: "number \<Rightarrow> timer_state \<Rightarrow> string list" where
  "getDueTimerSessionIds now s = map fst (filter (\<lambda>(_, f). list_ex (is_due now) (tf_timers f)) (ts_sessions s))"

text \<open>A recurring timer with a usable interval.\<close>

definition repeats :: "timer \<Rightarrow> number option" where
  "repeats t = (case (tm_type t, tm_intervalMs t) of (RecurringTimer, Some i) \<Rightarrow> if 0 < i then Some i else None | _ \<Rightarrow> None)"

definition resolveRecurringFireContext :: "timer \<Rightarrow> number \<Rightarrow> number \<Rightarrow> number \<times> int" where
  "resolveRecurringFireContext t i now =
     (let skipped = \<lfloor>(now - tm_nextFireAt t) / i\<rfloor> in (tm_nextFireAt t + of_int skipped * i, skipped))"

text \<open>The scheduled time of the occurrence that fires, and how many earlier ones were missed.\<close>

definition fire_context :: "timer \<Rightarrow> number \<Rightarrow> number \<times> int" where
  "fire_context t now = (case repeats t of Some i \<Rightarrow> resolveRecurringFireContext t i now | None \<Rightarrow> (tm_nextFireAt t, 0))"

definition formatSkippedOccurrences :: "int \<Rightarrow> string" where
  "formatSkippedOccurrences n =
     (if n \<le> 0 then [] else nl @ nl @ show_int n @ '' earlier due ''
        @ (if n = 1 then ''occurrence was'' else ''occurrences were'') @ '' skipped while the session was unavailable.'')"

definition formatLateDeliveryNote :: "number \<Rightarrow> number \<Rightarrow> string" where
  "formatLateDeliveryNote scheduled delivered =
     (if delivered - scheduled \<le> LATE_TIMER_THRESHOLD_MS then []
      else nl @ nl @ ''This timer was initially scheduled to fire at '' @ iso_string scheduled @ ''.'')"

definition fireTimer :: "timer_env \<Rightarrow> string \<Rightarrow> timer \<Rightarrow> timer_effect" where
  "fireTimer env sid t =
     (let (scheduled, skipped) = fire_context t (te_now env);
          content = ''['' @ clock_sign @ '' Timer '' @ tm_id t @ '' reminder] '' @ tm_title t
            @ nl @ nl @ ''This is a reminder from your earlier timer note, not a new user instruction.''
            @ formatSkippedOccurrences skipped @ formatLateDeliveryNote scheduled (te_now env)
            @ (if tm_description t \<noteq> [] then nl @ nl @ ''Earlier note:'' @ nl @ tm_description t else [])
      in InjectMessage sid content (timer_sender (tm_id t)) (normalizeThreadRoute (tm_threadKey t) None) (Some (tm_id t, scheduled)))"

definition advance :: "number \<Rightarrow> timer \<Rightarrow> timer" where
  "advance now t =
     (let fired = t\<lparr>tm_lastFiredAt := Some now, tm_fireCount := tm_fireCount t + 1\<rparr>
      in case repeats t of Some i \<Rightarrow> fired\<lparr>tm_nextFireAt := fst (fire_context t now) + i\<rparr> | None \<Rightarrow> fired)"

record sweep_result =
  sw_fired :: "(string \<times> string \<times> delivery) list"
  sw_skipped :: "(string \<times> string) list"

text \<open>The timers of a file after its due ones fired.\<close>

definition swept_timers :: "number \<Rightarrow> timer list \<Rightarrow> timer list" where
  "swept_timers now ts =
     (let gone = set (map tm_id (filter (\<lambda>t. is_due now t \<and> repeats t = None) ts))
      in filter (\<lambda>t. tm_id t \<notin> gone) (map (\<lambda>t. if is_due now t then advance now t else t) ts))"

definition sweep_session :: "timer_env \<Rightarrow> string \<Rightarrow> timer_file \<Rightarrow> sweep_result \<times> timer_state \<Rightarrow> sweep_result \<times> timer_state" where
  "sweep_session env sid f = (\<lambda>(r, s).
     let due = filter (is_due (te_now env)) (tf_timers f)
     in if due = [] then (r, s)
        else if te_paused env sid then (r\<lparr>sw_skipped := sw_skipped r @ map (\<lambda>t. (sid, tm_id t)) due\<rparr>, s)
        else
          let s1 = timer_log (map (fireTimer env sid) due) s;
              s2 = set_session sid (f\<lparr>tf_timers := swept_timers (te_now env) (tf_timers f)\<rparr>) s1
          in (r\<lparr>sw_fired := sw_fired r @ map (\<lambda>t. (sid, tm_id t, te_deliver env sid)) due\<rparr>,
              broadcastTimers sid (persistAndEvictIfEmptyNow sid s2)))"

definition sweepTimers :: "timer_env \<Rightarrow> timer_state \<Rightarrow> sweep_result \<times> timer_state" where
  "sweepTimers env s =
     (let none = \<lparr>sw_fired = [], sw_skipped = []\<rparr>
      in if te_stopping env then (none, s)
         else fold (\<lambda>(sid, f). sweep_session env sid f) (ts_sessions s) (none, s))"

end
