(* ===== verification/Timer_Invariant.thy ===== *)
theory Timer_Invariant
  imports Timer_Manager
begin

text \<open>
  The invariant of the timer manager: what the files say and the map in memory agree, every
  timer has an id below the file's counter, a title, and an interval exactly when it recurs.
\<close>

section \<open>Normalised timers\<close>

definition tidy :: "string \<Rightarrow> timer \<Rightarrow> bool" where
  "tidy sid t \<longleftrightarrow> tm_sessionId t = sid \<and> tm_title t \<noteq> [] \<and> trim (tm_title t) = tm_title t
     \<and> trim (tm_description t) = tm_description t"

lemma trimmed_first: "trim s = c # cs \<Longrightarrow> \<not> js_space c"
proof
  assume s: "trim s = c # cs" and c: "js_space c"
  have "trim_left (trim s) = trim s" unfolding trim_def by (rule trim_left_trim_right) (simp add: trim_left_def dropWhile_idem)
  with s c show False by (metis dropWhile_eq_Cons_conv trim_left_def)
qed

lemma trimmed_ellipsis:
  assumes "trim s = s" "s \<noteq> []"
  shows "trim (trim_right (take (Suc n) s) @ ''...'') = trim_right (take (Suc n) s) @ ''...''"
proof -
  obtain c cs where s: "s = c # cs" using assms(2) by (cases s) auto
  then have c: "\<not> js_space c" using trimmed_first [of s c cs] assms(1) by simp
  then have "trim_left (trim_right (take (Suc n) s) @ ''...'') = trim_right (take (Suc n) s) @ ''...''"
    by (simp add: s trim_right_first trim_left_def)
  then show ?thesis by (simp add: trim_def trim_right_def js_space_def)
qed

lemma splitOnce_trimmed: "splitOnce s d = Some (a, b) \<Longrightarrow> a \<noteq> [] \<and> trim a = a \<and> trim b = b"
  by (auto simp: splitOnce_def split: option.splits if_splits)

lemma first_some_in: "first_some xs = Some x \<Longrightarrow> Some x \<in> set xs"
  by (induction xs) (auto simp: first_some_def List.map_filter_def split: if_splits list.splits)

lemma normalizeLegacyPrompt_trimmed:
  assumes "normalizeLegacyPrompt p = (a, b)"
  shows "a \<noteq> [] \<and> trim a = a \<and> trim b = b"
proof -
  define raw where "raw = trim (case p of None \<Rightarrow> [] | Some v \<Rightarrow> js_string v)"
  define parts where "parts = first_some (map (splitOnce (unify_newlines raw)) ['' -- '', nl, '': '', ''. ''])"
  have raw: "trim raw = raw" by (simp add: raw_def)
  have eq: "normalizeLegacyPrompt p = (if raw = [] then (''Timer'', [])
      else case parts of Some r \<Rightarrow> r | None \<Rightarrow> if 72 < length raw then (trim_right (take 69 raw) @ ''...'', raw) else (raw, []))"
    by (simp only: normalizeLegacyPrompt_def raw_def [symmetric] parts_def Let_def)
  show ?thesis
  proof (cases "raw = []")
    case True
    have "trim ''Timer'' = ''Timer''" by code_simp
    with True assms eq show ?thesis by auto
  next
    case False
    show ?thesis
    proof (cases parts)
      case None
      have "trim (trim_right (take 69 raw) @ ''...'') = trim_right (take 69 raw) @ ''...''"
        using trimmed_ellipsis [OF raw False, of 68] by simp
      with None False assms eq raw show ?thesis by (auto split: if_splits)
    next
      case (Some r)
      then obtain d where "splitOnce (unify_newlines raw) d = Some r"
        using first_some_in [of _ r] unfolding parts_def by (metis (no_types, lifting) imageE set_map)
      with Some False assms eq show ?thesis by (cases r) (auto dest: splitOnce_trimmed)
    qed
  qed
qed

lemma normalizeTimer_tidy: "tidy sid (normalizeTimer sid r)"
proof -
  obtain a b where l: "normalizeLegacyPrompt (rw_prompt r) = (a, b)" by (cases "normalizeLegacyPrompt (rw_prompt r)")
  show ?thesis using normalizeLegacyPrompt_trimmed [OF l]
    by (auto simp: tidy_def normalizeTimer_def l Let_def split: option.splits)
qed

lemma normalizeTimer_raw_of [simp]: "tidy sid t \<Longrightarrow> normalizeTimer sid (raw_of t) = t"
  by (simp add: normalizeTimer_def raw_of_def tidy_def)

section \<open>Files\<close>

definition timer_ok :: "string \<Rightarrow> nat \<Rightarrow> timer \<Rightarrow> bool" where
  "timer_ok sid n t \<longleftrightarrow> tidy sid t \<and> (\<exists>k < n. tm_id t = ''t'' @ show_nat k) \<and> (tm_type t = RecurringTimer \<longleftrightarrow> repeats t \<noteq> None)"

definition file_ok :: "string \<Rightarrow> timer_file \<Rightarrow> bool" where
  "file_ok sid f \<longleftrightarrow> tf_sessionId f = sid \<and> length (tf_timers f) \<le> MAX_TIMERS_PER_SESSION
     \<and> distinct (map tm_id (tf_timers f)) \<and> (\<forall>t \<in> set (tf_timers f). timer_ok sid (tf_nextId f) t)"

definition disk_ok :: "timer_disk \<Rightarrow> bool" where
  "disk_ok disk \<longleftrightarrow> (\<forall>sid. file_ok sid (loadTimers sid disk))"

definition kept_file :: "string \<Rightarrow> timer_disk \<Rightarrow> timer_file option" where
  "kept_file sid disk = (let f = loadTimers sid disk in if tf_timers f = [] then None else Some f)"

definition timers_ok :: "timer_state \<Rightarrow> bool" where
  "timers_ok s \<longleftrightarrow> distinct (map fst (ts_sessions s)) \<and> disk_ok (ts_disk s)
     \<and> (\<forall>sid. session_file sid s = kept_file sid (ts_disk s))"

lemma loadTimers_saveTimers:
  "loadTimers sid (saveTimers f disk)
     = (if sid = tf_sessionId f then f\<lparr>tf_timers := map (normalizeTimer sid \<circ> raw_of) (tf_timers f)\<rparr> else loadTimers sid disk)"
  by (simp add: loadTimers_def saveTimers_def read_file_def update_conv')

lemma map_normalizeTimer: "(\<forall>t \<in> set ts. tidy sid t) \<Longrightarrow> map (normalizeTimer sid \<circ> raw_of) ts = ts"
  by (induction ts) simp_all

lemma loadTimers_save_tidy:
  "\<forall>t \<in> set (tf_timers f). tidy (tf_sessionId f) t \<Longrightarrow>
     loadTimers sid (saveTimers f disk) = (if sid = tf_sessionId f then f else loadTimers sid disk)"
  by (simp add: loadTimers_saveTimers map_normalizeTimer)

lemma loadTimers_save_ok:
  "file_ok k f \<Longrightarrow> loadTimers sid (saveTimers f disk) = (if sid = k then f else loadTimers sid disk)"
  by (subst loadTimers_save_tidy) (auto simp: file_ok_def timer_ok_def)

lemma loadTimers_session [simp]: "tf_sessionId (loadTimers sid disk) = sid"
  by (auto simp: loadTimers_def read_file_def emptyFile_def split: option.splits disk_file.splits)

lemma loadTimers_tidy: "\<forall>t \<in> set (tf_timers (loadTimers sid disk)). tidy sid t"
  by (auto simp: loadTimers_def read_file_def emptyFile_def normalizeTimer_tidy split: option.splits disk_file.splits)

lemma loadTimers_delete: "loadTimers sid (deleteTimers k disk) = (if sid = k then emptyFile k else loadTimers sid disk)"
  by (simp add: loadTimers_def deleteTimers_def delete_conv')

lemma emptyFile_ok [simp]: "file_ok sid (emptyFile sid)" "tf_timers (emptyFile sid) = []"
  by (simp_all add: file_ok_def emptyFile_def)

text \<open>
  C32. Reading a timer file, whatever it holds, gives timers with a trimmed, non-empty title of the
  session that owns the file; writing them and reading again gives the same file and no other
  session's file changes.
\<close>

theorem timer_file_roundtrip:
  "list_all (tidy sid) (tf_timers (loadTimers sid disk))
   \<and> loadTimers sid (saveTimers (loadTimers sid disk) disk) = loadTimers sid disk
   \<and> (\<lambda>k. loadTimers k (saveTimers (loadTimers sid disk) disk)) = (\<lambda>k. loadTimers k disk)"
  using loadTimers_tidy [of sid disk] by (auto simp: list_all_iff loadTimers_save_tidy)

section \<open>The invariant\<close>

lemma session_file_simps [simp]:
  "session_file sid (timer_log es s) = session_file sid s"
  "session_file sid (broadcastTimers k s) = session_file sid s"
  "session_file sid (set_session k f s) = (if sid = k then Some f else session_file sid s)"
  "session_file sid (s\<lparr>ts_disk := disk\<rparr>) = session_file sid s"
  "session_file sid (s\<lparr>ts_sessions := AList.delete k (ts_sessions s)\<rparr>) = (if sid = k then None else session_file sid s)"
  "session_file sid (s\<lparr>ts_sessions := AList.delete k (ts_sessions s), ts_disk := disk\<rparr>) = (if sid = k then None else session_file sid s)"
  by (simp_all add: session_file_def timer_log_def broadcastTimers_def set_session_def update_conv' delete_conv')

lemma ts_disk_simps [simp]:
  "ts_disk (timer_log es s) = ts_disk s" "ts_disk (broadcastTimers k s) = ts_disk s" "ts_disk (set_session k f s) = ts_disk s"
  "ts_sessions (timer_log es s) = ts_sessions s" "ts_sessions (broadcastTimers k s) = ts_sessions s"
  by (simp_all add: timer_log_def broadcastTimers_def set_session_def)

lemma timers_ok_log [simp]: "timers_ok (timer_log es s) = timers_ok s" "timers_ok (broadcastTimers k s) = timers_ok s"
  by (simp_all add: timers_ok_def)

lemma timers_ok_file: "timers_ok s \<Longrightarrow> session_file sid s = Some f \<Longrightarrow> file_ok sid f \<and> tf_timers f \<noteq> [] \<and> f = loadTimers sid (ts_disk s)"
  by (auto simp: timers_ok_def disk_ok_def kept_file_def Let_def split: if_splits)

lemma timers_ok_list: "timers_ok s \<Longrightarrow> listTimers sid s = tf_timers (loadTimers sid (ts_disk s))"
  by (auto simp: timers_ok_def listTimers_def kept_file_def Let_def)

lemma kept_file_save: "file_ok k f \<Longrightarrow>
    kept_file sid (saveTimers f disk) = (if sid = k then (if tf_timers f = [] then None else Some f) else kept_file sid disk)"
  by (simp add: kept_file_def loadTimers_save_ok)

lemma disk_ok_save: "disk_ok disk \<Longrightarrow> file_ok k f \<Longrightarrow> disk_ok (saveTimers f disk)"
  by (simp add: disk_ok_def loadTimers_save_ok)

lemma put_file:
  assumes "timers_ok s" "file_ok k f"
  shows "timers_ok (persistAndEvictIfEmptyNow k (set_session k f s))"
    "session_file sid (persistAndEvictIfEmptyNow k (set_session k f s))
       = (if sid = k then (if tf_timers f = [] then None else Some f) else session_file sid s)"
  using assms by (auto simp: timers_ok_def persistAndEvictIfEmptyNow_def persistSessionNow_def kept_file_save disk_ok_save
      set_session_def distinct_update distinct_delete session_file_def update_conv' delete_conv' Let_def)

lemma put_nonempty_file:
  assumes "tf_timers f \<noteq> []"
  shows "persistSessionNow k (set_session k f s) = persistAndEvictIfEmptyNow k (set_session k f s)"
  using assms by (simp add: persistAndEvictIfEmptyNow_def persistSessionNow_def)

lemma check_input_new:
  assumes "check_input env input = Inr new"
  shows "nt_title new \<noteq> []" "trim (nt_title new) = nt_title new"
    "sc_nextFireAt (nt_schedule new) = Fin (nt_fireAt new)"
    "resolveTimerSchedule (te_zone env) (te_now env) input = Inr (nt_schedule new)"
  using assms
  by (cases "resolveTimerSchedule (te_zone env) (te_now env) input";
      auto simp: check_input_def Let_def split: if_splits jsnum.splits option.splits)+

lemma schedule_repeats:
  assumes "resolveTimerSchedule tz now input = Inr sc" "sc_nextFireAt sc = Fin t"
  shows "case sc_type sc of RecurringTimer \<Rightarrow> (\<exists>q > 0. sc_intervalMs sc = Some (Fin q)) | _ \<Rightarrow> sc_intervalMs sc = None"
  using assms(1)
proof (cases rule: schedule_cases)
  case (recurring e ms)
  then have "whole_ms ms" by (blast intro: parseDuration_whole)
  then show ?thesis using recurring assms(2) by (cases ms) (auto simp: whole_ms_def add_ms_def)
qed simp_all

lemma timer_of_ok:
  assumes new: "check_input env input = Inr new"
  shows "timer_ok sid (Suc n) (timer_of env sid input new n)"
proof -
  have "trim (case ti_description input of None \<Rightarrow> [] | Some d \<Rightarrow> trim d) = (case ti_description input of None \<Rightarrow> [] | Some d \<Rightarrow> trim d)"
    by (simp split: option.splits)
  then show ?thesis
    using check_input_new [OF new] schedule_repeats [OF check_input_new(4) [OF new] check_input_new(3) [OF new]]
    by (auto simp: timer_ok_def tidy_def timer_of_def repeats_def finite_interval_def split: timer_type.splits)
qed

lemma timer_ok_mono: "timer_ok sid n t \<Longrightarrow> timer_ok sid (Suc n) t"
  by (auto simp: timer_ok_def less_Suc_eq)

lemma add_timer_file_ok:
  assumes f: "file_ok sid f" and room: "length (tf_timers f) < MAX_TIMERS_PER_SESSION" and new: "check_input env input = Inr new"
  shows "file_ok sid (f\<lparr>tf_nextId := tf_nextId f + 1, tf_timers := tf_timers f @ [timer_of env sid input new (tf_nextId f)]\<rparr>)"
proof -
  have "tm_id (timer_of env sid input new (tf_nextId f)) \<noteq> tm_id t" if t: "t \<in> set (tf_timers f)" for t
  proof -
    obtain k where "k < tf_nextId f" "tm_id t = ''t'' @ show_nat k" using f t by (auto simp: file_ok_def timer_ok_def)
    then show ?thesis by (simp add: timer_of_def)
  qed
  moreover have "\<forall>t \<in> set (tf_timers f). timer_ok sid (tf_nextId f + 1) t"
    using f timer_ok_mono by (auto simp: file_ok_def)
  ultimately show ?thesis using f room timer_of_ok [OF new] by (force simp: file_ok_def)
qed

text \<open>
  The file an addition works on: the one in memory, else the one just read. \<open>add_timer\<close> with it
  either finds the session full or stores the extended file.
\<close>

lemma createTimer_ok:
  assumes inv: "timers_ok s"
  shows "timers_ok (snd (createTimer env sid input s))"
    and "listTimers k (snd (createTimer env sid input s)) =
      (case check_input env input of
         Inl e \<Rightarrow> listTimers k s
       | Inr new \<Rightarrow>
           if k \<noteq> sid \<or> MAX_TIMERS_PER_SESSION \<le> length (listTimers sid s) then listTimers k s
           else listTimers sid s @ [timer_of env sid input new (tf_nextId (loadTimers sid (ts_disk s)))])"
proof -
  let ?f = "loadTimers sid (ts_disk s)"
  have f: "file_ok sid ?f" and list: "listTimers j s = tf_timers (loadTimers j (ts_disk s))" for j
    using inv by (simp_all add: timers_ok_def disk_ok_def timers_ok_list)
  have mem: "session_file sid s = kept_file sid (ts_disk s)" using inv by (simp add: timers_ok_def)
  have "timers_ok (snd (createTimer env sid input s)) \<and>
    listTimers k (snd (createTimer env sid input s)) = (case check_input env input of Inl e \<Rightarrow> listTimers k s | Inr new \<Rightarrow>
       if k \<noteq> sid \<or> MAX_TIMERS_PER_SESSION \<le> length (listTimers sid s) then listTimers k s
       else listTimers sid s @ [timer_of env sid input new (tf_nextId ?f)])"
  proof (cases "check_input env input")
    case (Inl e)
    then show ?thesis using inv by (simp add: createTimer_def)
  next
    case new: (Inr new)
    define s1 where "s1 = (case read_if_needed sid s of None \<Rightarrow> s | Some f \<Rightarrow> set_session sid f s)"
    have s1: "session_file sid s1 = Some ?f" "ts_disk s1 = ts_disk s"
      using mem by (auto simp: s1_def read_if_needed_def kept_file_def Let_def split: option.splits if_splits)
    have nonempty: "s1 = s" if "tf_timers ?f \<noteq> []"
      using mem that by (auto simp: s1_def read_if_needed_def kept_file_def)
    have again: "set_session sid g s1 = set_session sid g s" for g
      by (auto simp: s1_def read_if_needed_def set_session_def split: option.splits)
    show ?thesis
    proof (cases "MAX_TIMERS_PER_SESSION \<le> length (tf_timers ?f)")
      case True
      then have "tf_timers ?f \<noteq> []" by (auto simp: MAX_TIMERS_PER_SESSION_def)
      then show ?thesis using True new inv nonempty s1
        by (simp add: createTimer_def add_timer_def s1_def [symmetric] list)
    next
      case False
      define g where "g = ?f\<lparr>tf_nextId := tf_nextId ?f + 1, tf_timers := tf_timers ?f @ [timer_of env sid input new (tf_nextId ?f)]\<rparr>"
      have g: "file_ok sid g" "tf_timers g \<noteq> []" using False add_timer_file_ok [OF f _ new] by (simp_all add: g_def)
      have "snd (createTimer env sid input s) = broadcastTimers sid (persistSessionNow sid (set_session sid g s))"
        using False new s1 by (simp add: createTimer_def add_timer_def s1_def [symmetric] Let_def again g_def)
      then have "snd (createTimer env sid input s) = broadcastTimers sid (persistAndEvictIfEmptyNow sid (set_session sid g s))"
        by (simp only: put_nonempty_file [OF g(2)])
      then show ?thesis using put_file [OF inv g(1)] g(2) new False list
        by (simp add: listTimers_def g_def)
    qed
  qed
  then show "timers_ok (snd (createTimer env sid input s))"
    and "listTimers k (snd (createTimer env sid input s)) = (case check_input env input of Inl e \<Rightarrow> listTimers k s | Inr new \<Rightarrow>
       if k \<noteq> sid \<or> MAX_TIMERS_PER_SESSION \<le> length (listTimers sid s) then listTimers k s
       else listTimers sid s @ [timer_of env sid input new (tf_nextId ?f)])"
    by blast+
qed

lemma file_ok_remove1: "file_ok sid f \<Longrightarrow> file_ok sid (f\<lparr>tf_timers := remove1 t (tf_timers f)\<rparr>)"
  using set_remove1_subset [of t "tf_timers f"] length_remove1 [of t "tf_timers f"] distinct_map [of tm_id "tf_timers f"]
  by (auto simp: file_ok_def distinct_map inj_on_subset)

lemma cancelTimer_ok: "timers_ok s \<Longrightarrow> timers_ok (snd (cancelTimer sid tid s))"
  using put_file(1) [OF _ file_ok_remove1] timers_ok_file
  by (force simp: cancelTimer_def Let_def split: option.splits)

lemma cancelAllTimers_ok: "timers_ok s \<Longrightarrow> timers_ok (cancelAllTimers sid s)"
  by (auto simp: cancelAllTimers_def timers_ok_def disk_ok_def kept_file_def loadTimers_delete distinct_delete Let_def)

lemma startAllTimers_ok:
  assumes "disk_ok disk" shows "timers_ok (startAllTimers disk)"
proof -
  let ?step = "\<lambda>sid s. let f = loadTimers sid disk in if tf_timers f \<noteq> [] then set_session sid f s else s"
  have keys: "distinct (map fst (ts_sessions s)) \<Longrightarrow> distinct (map fst (ts_sessions (fold ?step xs s)))" for xs s
    by (induction xs arbitrary: s) (auto simp: Let_def set_session_def distinct_update)
  have same: "ts_disk (fold ?step xs s) = ts_disk s" for xs s
    by (induction xs arbitrary: s) (simp_all add: Let_def)
  have found: "session_file sid (fold ?step xs s)
      = (if sid \<in> set xs \<and> tf_timers (loadTimers sid disk) \<noteq> [] then Some (loadTimers sid disk) else session_file sid s)" for sid xs s
    by (induction xs arbitrary: s) (simp_all add: Let_def)
  have "tf_timers (loadTimers sid disk) = []" if "sid \<notin> set (listTimerSessions disk)" for sid
    using that by (simp add: listTimerSessions_def loadTimers_def map_of_eq_None_iff [THEN iffD2])
  then show ?thesis using assms keys [of "\<lparr>ts_sessions = [], ts_disk = disk, ts_log = []\<rparr>"]
    unfolding startAllTimers_def timers_ok_def found same by (simp add: kept_file_def Let_def session_file_def)
qed

end
