(* ===== verification/Timer_Sweep.thy ===== *)
theory Timer_Sweep
  imports Timer_Invariant
begin

text \<open>
  What a sweep of the due timers does, the reachable states of the timer manager, and two ways a
  timer can be lost or misreported.
\<close>

section \<open>One timer\<close>

lemma advance_fields [simp]:
  "tm_id (advance now t) = tm_id t" "tm_sessionId (advance now t) = tm_sessionId t" "tm_title (advance now t) = tm_title t"
  "tm_description (advance now t) = tm_description t" "tm_type (advance now t) = tm_type t"
  "tm_intervalMs (advance now t) = tm_intervalMs t" "tm_fireCount (advance now t) = tm_fireCount t + 1"
  "tm_lastFiredAt (advance now t) = Some now"
  by (simp_all add: advance_def Let_def split: option.splits)

lemma repeats_advance [simp]: "repeats (advance now t) = repeats t"
  by (simp add: repeats_def)

lemma timer_ok_advance: "timer_ok sid n t \<Longrightarrow> timer_ok sid n (advance now t)"
  by (simp add: timer_ok_def tidy_def)

lemma repeats_positive: "repeats t = Some i \<Longrightarrow> 0 < i"
  by (auto simp: repeats_def split: timer_type.splits option.splits if_splits)

text \<open>The next firing of a recurring timer keeps its phase and is the first one after now.\<close>

lemma advance_next:
  assumes r: "repeats t = Some i" and due: "is_due now t"
  shows "now < tm_nextFireAt (advance now t) \<and> tm_nextFireAt (advance now t) \<le> now + i
    \<and> (\<exists>k :: nat. tm_nextFireAt (advance now t) = tm_nextFireAt t + of_nat (Suc k) * i)"
proof -
  have i: "0 < i" using r by (rule repeats_positive)
  define m where "m = \<lfloor>(now - tm_nextFireAt t) / i\<rfloor>"
  have n: "tm_nextFireAt (advance now t) = tm_nextFireAt t + of_int m * i + i"
    by (simp add: advance_def Let_def r fire_context_def resolveRecurringFireContext_def m_def)
  have "0 \<le> (now - tm_nextFireAt t) / i" using i due by (simp add: is_due_def)
  then have m0: "0 \<le> m" by (simp add: m_def)
  have "of_int m \<le> (now - tm_nextFireAt t) / i" "(now - tm_nextFireAt t) / i < of_int m + 1"
    unfolding m_def by linarith+
  then have b: "of_int m * i \<le> now - tm_nextFireAt t" "now - tm_nextFireAt t < of_int m * i + i"
    using i by (simp_all add: field_simps)
  have "tm_nextFireAt (advance now t) = tm_nextFireAt t + of_nat (Suc (nat m)) * i"
    using m0 by (simp add: n algebra_simps)
  then have "\<exists>k :: nat. tm_nextFireAt (advance now t) = tm_nextFireAt t + of_nat (Suc k) * i" by blast
  moreover have "now < tm_nextFireAt (advance now t)" "tm_nextFireAt (advance now t) \<le> now + i" using b n by simp_all
  ultimately show ?thesis by blast
qed

section \<open>One file\<close>

lemma swept_timers_eq:
  assumes "distinct (map tm_id ts)"
  shows "swept_timers now ts =
    map (\<lambda>t. if is_due now t then advance now t else t) (filter (\<lambda>t. is_due now t \<longrightarrow> repeats t \<noteq> None) ts)"
proof -
  have "tm_id t \<in> tm_id ` {u \<in> set ts. is_due now u \<and> repeats u = None} \<longleftrightarrow> is_due now t \<and> repeats t = None"
    if "t \<in> set ts" for t
    using assms that by (auto simp: distinct_map dest: inj_onD)
  then have "filter (\<lambda>t. tm_id t \<notin> tm_id ` {u \<in> set ts. is_due now u \<and> repeats u = None}) ts
    = filter (\<lambda>t. is_due now t \<longrightarrow> repeats t \<noteq> None) ts"
    by (intro filter_cong) auto
  moreover have "(\<lambda>t. tm_id t \<notin> A) \<circ> (\<lambda>t. if is_due now t then advance now t else t) = (\<lambda>t. tm_id t \<notin> A)" for A
    by (rule ext) simp
  ultimately show ?thesis by (simp add: swept_timers_def filter_map)
qed

lemma swept_not_due: "distinct (map tm_id ts) \<Longrightarrow> t \<in> set (swept_timers now ts) \<Longrightarrow> now < tm_nextFireAt t"
  using advance_next by (fastforce simp: swept_timers_eq is_due_def split: if_splits)

lemma file_ok_swept:
  assumes "file_ok sid f" shows "file_ok sid (f\<lparr>tf_timers := swept_timers now (tf_timers f)\<rparr>)"
proof -
  let ?g = "\<lambda>t. if is_due now t then advance now t else t"
  have d: "distinct (map tm_id (tf_timers f))" using assms by (simp add: file_ok_def)
  have "map tm_id (map ?g xs) = map tm_id xs" for xs by (induction xs) simp_all
  moreover have "distinct (map tm_id (filter P (tf_timers f)))" for P using d by (rule distinct_map_filter)
  ultimately show ?thesis
    using assms le_trans [OF length_filter_le] timer_ok_advance
    by (auto simp: file_ok_def swept_timers_eq [OF d] simp del: map_map)
qed

section \<open>All sessions\<close>

definition due_of :: "number \<Rightarrow> timer_file \<Rightarrow> timer list" where
  "due_of now f = filter (is_due now) (tf_timers f)"

lemma due_Nil_swept: "file_ok sid f \<Longrightarrow> due_of now f = [] \<Longrightarrow> swept_timers now (tf_timers f) = tf_timers f"
  by (simp add: due_of_def swept_timers_def filter_empty_conv cong: map_cong)

lemma sweep_session_step:
  assumes inv: "timers_ok s" and f: "session_file sid s = Some f"
  shows "timers_ok (snd (sweep_session env sid f (r, s)))"
    and "k \<noteq> sid \<Longrightarrow> session_file k (snd (sweep_session env sid f (r, s))) = session_file k s"
    and "listTimers k (snd (sweep_session env sid f (r, s)))
      = (if k = sid \<and> \<not> te_paused env sid then swept_timers (te_now env) (tf_timers f) else listTimers k s)"
    and "sw_fired (fst (sweep_session env sid f (r, s)))
      = sw_fired r @ (if te_paused env sid then [] else map (\<lambda>t. (sid, tm_id t, te_deliver env sid)) (due_of (te_now env) f))"
    and "sw_skipped (fst (sweep_session env sid f (r, s)))
      = sw_skipped r @ (if te_paused env sid then map (\<lambda>t. (sid, tm_id t)) (due_of (te_now env) f) else [])"
    and "ts_log (snd (sweep_session env sid f (r, s))) = ts_log s @ (if te_paused env sid \<or> due_of (te_now env) f = [] then []
      else map (fireTimer env sid) (due_of (te_now env) f)
        @ [BroadcastTimers sid (swept_timers (te_now env) (tf_timers f))])"
proof -
  let ?now = "te_now env"
  have fok: "file_ok sid f" using timers_ok_file [OF inv f] by blast
  let ?g = "f\<lparr>tf_timers := swept_timers ?now (tf_timers f)\<rparr>"
  note put = put_file [OF _ file_ok_swept [OF fok]]
  let ?s1 = "timer_log (map (fireTimer env sid) (due_of ?now f)) s"
  have p: "timers_ok (persistAndEvictIfEmptyNow sid (set_session sid ?g ?s1))"
    "\<And>k. session_file k (persistAndEvictIfEmptyNow sid (set_session sid ?g ?s1))
       = (if k = sid then (if swept_timers ?now (tf_timers f) = [] then None else Some ?g) else session_file k s)"
    using put [of ?s1] inv by simp_all
  have lg: "ts_log (persistAndEvictIfEmptyNow sid (set_session sid ?g ?s1)) = ts_log s @ map (fireTimer env sid) (due_of ?now f)"
    by (simp add: persistAndEvictIfEmptyNow_def persistSessionNow_def Let_def set_session_def timer_log_def split: option.splits)
  note d = sweep_session_def due_of_def [symmetric] Let_def
  show "timers_ok (snd (sweep_session env sid f (r, s)))"
    using inv p by (simp add: d)
  show "k \<noteq> sid \<Longrightarrow> session_file k (snd (sweep_session env sid f (r, s))) = session_file k s"
    using p by (simp add: d)
  show "listTimers k (snd (sweep_session env sid f (r, s)))
      = (if k = sid \<and> \<not> te_paused env sid then swept_timers ?now (tf_timers f) else listTimers k s)"
    using p due_Nil_swept [OF fok] f by (simp add: d listTimers_def)
  show "sw_fired (fst (sweep_session env sid f (r, s)))
      = sw_fired r @ (if te_paused env sid then [] else map (\<lambda>t. (sid, tm_id t, te_deliver env sid)) (due_of ?now f))"
    by (simp add: d)
  show "sw_skipped (fst (sweep_session env sid f (r, s)))
      = sw_skipped r @ (if te_paused env sid then map (\<lambda>t. (sid, tm_id t)) (due_of ?now f) else [])"
    by (simp add: d)
  show "ts_log (snd (sweep_session env sid f (r, s))) = ts_log s @ (if te_paused env sid \<or> due_of ?now f = [] then []
      else map (fireTimer env sid) (due_of ?now f) @ [BroadcastTimers sid (swept_timers ?now (tf_timers f))])"
    using p lg by (simp add: d) (simp add: broadcastTimers_def timer_log_def listTimers_def)
qed

text \<open>The firings and messages of the sessions in a list, in their order.\<close>

definition fired_by :: "timer_env \<Rightarrow> (string \<times> timer_file) list \<Rightarrow> (string \<times> string \<times> delivery) list" where
  "fired_by env xs = concat (map (\<lambda>(sid, f). if te_paused env sid then []
     else map (\<lambda>t. (sid, tm_id t, te_deliver env sid)) (due_of (te_now env) f)) xs)"

definition skipped_by :: "timer_env \<Rightarrow> (string \<times> timer_file) list \<Rightarrow> (string \<times> string) list" where
  "skipped_by env xs = concat (map (\<lambda>(sid, f). if te_paused env sid then map (\<lambda>t. (sid, tm_id t)) (due_of (te_now env) f) else []) xs)"

definition sent_by :: "timer_env \<Rightarrow> (string \<times> timer_file) list \<Rightarrow> timer_effect list" where
  "sent_by env xs = concat (map (\<lambda>(sid, f). if te_paused env sid \<or> due_of (te_now env) f = [] then []
     else map (fireTimer env sid) (due_of (te_now env) f) @ [BroadcastTimers sid (swept_timers (te_now env) (tf_timers f))]) xs)"

abbreviation sweep_all :: "timer_env \<Rightarrow> (string \<times> timer_file) list \<Rightarrow> sweep_result \<times> timer_state \<Rightarrow> sweep_result \<times> timer_state" where
  "sweep_all env xs \<equiv> fold (\<lambda>(sid, f). sweep_session env sid f) xs"

lemma fired_by_set: "set (fired_by env xs) = {(sid, tm_id t, te_deliver env sid) | sid t f.
    (sid, f) \<in> set xs \<and> \<not> te_paused env sid \<and> t \<in> set (tf_timers f) \<and> is_due (te_now env) t}"
  by (auto simp: fired_by_def due_of_def split: if_splits)

lemma sweep_all_steps:
  assumes "timers_ok s" "distinct (map fst xs)" "\<And>sid f. (sid, f) \<in> set xs \<Longrightarrow> session_file sid s = Some f"
  shows "timers_ok (snd (sweep_all env xs (r, s)))
    \<and> (\<forall>k. listTimers k (snd (sweep_all env xs (r, s)))
         = (if k \<in> fst ` set xs \<and> \<not> te_paused env k then swept_timers (te_now env) (listTimers k s) else listTimers k s))
    \<and> sw_fired (fst (sweep_all env xs (r, s))) = sw_fired r @ fired_by env xs
    \<and> sw_skipped (fst (sweep_all env xs (r, s))) = sw_skipped r @ skipped_by env xs
    \<and> ts_log (snd (sweep_all env xs (r, s))) = ts_log s @ sent_by env xs"
  using assms
proof (induction xs arbitrary: r s)
  case Nil
  then show ?case by (simp add: fired_by_def skipped_by_def sent_by_def)
next
  case (Cons x xs)
  obtain sid f where x: "x = (sid, f)" by (cases x)
  have f: "session_file sid s = Some f" using Cons.prems(3) x by simp
  have new: "sid \<notin> fst ` set xs" using Cons.prems(2) x by simp
  obtain r1 s1 where 1: "sweep_session env sid f (r, s) = (r1, s1)" by (cases "sweep_session env sid f (r, s)")
  note step = sweep_session_step [OF Cons.prems(1) f, where env = env and r = r, unfolded 1 fst_conv snd_conv]
  have others: "session_file k s1 = Some g" if "(k, g) \<in> set xs" for k g
  proof -
    have "k \<noteq> sid" using that new by force
    then show ?thesis using that step(2) Cons.prems(3) x by simp
  qed
  note ih = Cons.IH [OF step(1) _ others, of r1]
  have "swept_timers (te_now env) (tf_timers f) = swept_timers (te_now env) (listTimers sid s)"
    using f by (simp add: listTimers_def)
  then show ?case using ih Cons.prems(2) step new
    by (auto simp: x 1 fired_by_def skipped_by_def sent_by_def)
qed

lemma sweepTimers_steps:
  assumes inv: "timers_ok s" and go: "\<not> te_stopping env"
  shows "timers_ok (snd (sweepTimers env s))"
    and "listTimers k (snd (sweepTimers env s)) = (if te_paused env k then listTimers k s else swept_timers (te_now env) (listTimers k s))"
    and "sw_fired (fst (sweepTimers env s)) = fired_by env (ts_sessions s)"
    and "sw_skipped (fst (sweepTimers env s)) = skipped_by env (ts_sessions s)"
    and "ts_log (snd (sweepTimers env s)) = ts_log s @ sent_by env (ts_sessions s)"
proof -
  have d: "distinct (map fst (ts_sessions s))" using inv by (simp add: timers_ok_def)
  have m: "session_file sid s = Some f" if "(sid, f) \<in> set (ts_sessions s)" for sid f
    using that d by (simp add: session_file_def)
  have e: "sweepTimers env s = sweep_all env (ts_sessions s) (\<lparr>sw_fired = [], sw_skipped = []\<rparr>, s)"
    using go by (simp add: sweepTimers_def Let_def)
  note all = sweep_all_steps [OF inv d m, of env "\<lparr>sw_fired = [], sw_skipped = []\<rparr>", folded e]
  show "timers_ok (snd (sweepTimers env s))" using all by blast
  have "listTimers k s = []" if "k \<notin> fst ` set (ts_sessions s)"
    using that by (simp add: listTimers_def session_file_def map_of_eq_None_iff [THEN iffD2])
  moreover have "swept_timers (te_now env) [] = []" by (simp add: swept_timers_def)
  ultimately show "listTimers k (snd (sweepTimers env s)) = (if te_paused env k then listTimers k s else swept_timers (te_now env) (listTimers k s))"
    using all by (cases "k \<in> fst ` set (ts_sessions s)") simp_all
  show "sw_fired (fst (sweepTimers env s)) = fired_by env (ts_sessions s)"
    "sw_skipped (fst (sweepTimers env s)) = skipped_by env (ts_sessions s)"
    "ts_log (snd (sweepTimers env s)) = ts_log s @ sent_by env (ts_sessions s)" using all by simp_all
qed

lemma sweepTimers_ok: "timers_ok s \<Longrightarrow> timers_ok (snd (sweepTimers env s))"
  by (cases "te_stopping env") (simp_all add: sweepTimers_steps(1), simp add: sweepTimers_def)

lemma listTimers_distinct: "timers_ok s \<Longrightarrow> distinct (map tm_id (listTimers sid s))"
  by (simp add: timers_ok_list) (simp add: timers_ok_def disk_ok_def file_ok_def)

lemma fired_distinct:
  assumes "timers_ok s"
  shows "distinct (map (\<lambda>(sid, tid, d). (sid, tid)) (fired_by env (ts_sessions s)))"
proof -
  have "distinct (map (\<lambda>(sid, tid, d). (sid, tid)) (fired_by env xs))"
    if "distinct (map fst xs)" "\<And>sid f. (sid, f) \<in> set xs \<Longrightarrow> file_ok sid f" for xs
    using that
  proof (induction xs)
    case Nil
    then show ?case by (simp add: fired_by_def)
  next
    case (Cons x xs)
    obtain sid f where x: "x = (sid, f)" by (cases x)
    have "distinct (map tm_id (due_of (te_now env) f))"
      using Cons.prems(2) [of sid f] x unfolding due_of_def by (intro distinct_map_filter) (simp add: file_ok_def)
    then have "distinct (map (\<lambda>t. (sid, tm_id t)) (due_of (te_now env) f))" by (simp add: distinct_map inj_on_def)
    then show ?case using Cons x by (auto simp: fired_by_def comp_def image_iff)
  qed
  then show ?thesis using assms timers_ok_file by (fastforce simp: timers_ok_def session_file_def)
qed

section \<open>Reachable states\<close>

text \<open>The operations of the manager, each run to its end, and the restart of the server.\<close>

inductive timer_reach :: "timer_state \<Rightarrow> bool" where
  start: "disk_ok disk \<Longrightarrow> timer_reach (startAllTimers disk)"
| create: "timer_reach s \<Longrightarrow> timer_reach (snd (createTimer env sid input s))"
| cancel: "timer_reach s \<Longrightarrow> timer_reach (snd (cancelTimer sid tid s))"
| cancel_all: "timer_reach s \<Longrightarrow> timer_reach (cancelAllTimers sid s)"
| sweep: "timer_reach s \<Longrightarrow> timer_reach (snd (sweepTimers env s))"
| restart: "timer_reach s \<Longrightarrow> timer_reach (startAllTimers (ts_disk s))"

lemma timer_reach_ok: "timer_reach s \<Longrightarrow> timers_ok s"
  by (induction rule: timer_reach.induct)
    (auto intro: startAllTimers_ok createTimer_ok cancelTimer_ok cancelAllTimers_ok sweepTimers_ok simp: timers_ok_def [THEN iffD1])

text \<open>Demonstrations: an hourly timer of a session that had none.\<close>

definition demo_env :: "number \<Rightarrow> timer_env" where
  "demo_env now = \<lparr>te_now = now, te_zone = utc, te_stopping = False, te_paused = (\<lambda>sid. False), te_deliver = (\<lambda>sid. Sent)\<rparr>"

definition hourly_timer :: timer where
  "hourly_timer = \<lparr>tm_id = ''t1'', tm_sessionId = ''a'', tm_threadKey = None, tm_title = ''check'', tm_description = [],
     tm_type = RecurringTimer, tm_originalSpec = ''1h'', tm_nextFireAt = 3601000, tm_intervalMs = Some 3600000,
     tm_createdAt = 1000, tm_lastFiredAt = None, tm_fireCount = 0\<rparr>"

definition hourly_state :: timer_state where
  "hourly_state = snd (createTimer (demo_env 1000) ''a'' hourly_input (startAllTimers []))"

definition hourly_new :: new_timer where
  "hourly_new = \<lparr>nt_title = ''check'', nt_threadKey = None,
     nt_schedule = \<lparr>sc_type = RecurringTimer, sc_nextFireAt = Fin 3601000, sc_intervalMs = Some (Fin 3600000), sc_originalSpec = ''1h''\<rparr>,
     nt_fireAt = 3601000\<rparr>"

lemma trim_check: "trim ''check'' = ''check''"
  by code_simp

lemma hourly_check: "check_input (demo_env 1000) hourly_input = Inr hourly_new"
proof -
  have "ti_title hourly_input = Some ''check''" "ti_threadKey hourly_input = None" by (simp_all add: hourly_input_def)
  then show ?thesis using hourly_schedule
    by (simp add: check_input_def Let_def trim_check demo_env_def hourly_new_def)
qed

lemma hourly_timer_of: "timer_of (demo_env 1000) ''a'' hourly_input hourly_new 1 = hourly_timer"
proof -
  have "show_nat 1 = ''1''" by code_simp
  then show ?thesis
    by (simp add: timer_of_def hourly_new_def hourly_timer_def hourly_input_def demo_env_def finite_interval_def)
qed

lemma hourly_reach: "timer_reach hourly_state"
proof -
  have "disk_ok []" by (simp add: disk_ok_def loadTimers_def)
  then show ?thesis unfolding hourly_state_def by (intro timer_reach.intros)
qed

lemma hourly_listed: "listTimers ''a'' hourly_state = [hourly_timer]"
proof -
  have d: "disk_ok []" by (simp add: disk_ok_def loadTimers_def)
  have "startAllTimers [] = \<lparr>ts_sessions = [], ts_disk = [], ts_log = []\<rparr>" by (simp add: startAllTimers_def listTimerSessions_def)
  then show ?thesis unfolding hourly_state_def createTimer_ok(2) [OF startAllTimers_ok [OF d]]
    by (simp add: hourly_check listTimers_def session_file_def MAX_TIMERS_PER_SESSION_def loadTimers_def emptyFile_def hourly_timer_of [simplified])
qed



text \<open>
  C30. A sweep fires every due timer of every session that is not paused, each exactly once and in
  the order of the timers, with one message each, and no other timer. Afterwards the session has
  its timers that were not due, as they were, and its due recurring timers, advanced, and none of
  them is due.
\<close>

theorem sweep_fires_due_timers_once:
  assumes "timer_reach s" "\<not> te_stopping env"
  defines "s' \<equiv> snd (sweepTimers env s)" and "fired \<equiv> sw_fired (fst (sweepTimers env s))"
  shows "set fired = {(sid, tm_id t, te_deliver env sid) | sid t. t \<in> set (listTimers sid s) \<and> is_due (te_now env) t \<and> \<not> te_paused env sid}
    \<and> distinct (map (\<lambda>(sid, tid, d). (sid, tid)) fired)
    \<and> [m \<leftarrow> ts_log s'. case m of InjectMessage _ _ _ _ _ \<Rightarrow> True | BroadcastTimers _ _ \<Rightarrow> False]
        = [m \<leftarrow> ts_log s. case m of InjectMessage _ _ _ _ _ \<Rightarrow> True | BroadcastTimers _ _ \<Rightarrow> False]
          @ concat (map (\<lambda>(sid, f). if te_paused env sid then [] else map (fireTimer env sid) (due_of (te_now env) f)) (ts_sessions s))
    \<and> listTimers sid s' = (if te_paused env sid then listTimers sid s
        else map (\<lambda>t. if is_due (te_now env) t then advance (te_now env) t else t)
          (filter (\<lambda>t. is_due (te_now env) t \<longrightarrow> repeats t \<noteq> None) (listTimers sid s)))
    \<and> (\<not> te_paused env sid \<longrightarrow> list_all (\<lambda>t. \<not> is_due (te_now env) t) (listTimers sid s'))"
proof -
  have inv: "timers_ok s" using assms(1) by (rule timer_reach_ok)
  note steps = sweepTimers_steps [OF inv assms(2)]
  have d: "distinct (map fst (ts_sessions s))" using inv by (simp add: timers_ok_def)
  let ?inj = "\<lambda>m. case m of InjectMessage _ _ _ _ _ \<Rightarrow> True | BroadcastTimers _ _ \<Rightarrow> False"
  have mem: "(sid, f) \<in> set (ts_sessions s) \<longleftrightarrow> session_file sid s = Some f" for sid f
    using d by (simp add: session_file_def)
  have listed: "t \<in> set (listTimers sid s) \<longleftrightarrow> (\<exists>f. session_file sid s = Some f \<and> t \<in> set (tf_timers f))" for t sid
    by (cases "session_file sid s") (simp_all add: listTimers_def)
  have f: "set fired = {(sid, tm_id t, te_deliver env sid) | sid t. t \<in> set (listTimers sid s) \<and> is_due (te_now env) t \<and> \<not> te_paused env sid}"
    unfolding fired_def steps(3) fired_by_set mem listed by blast
  have fm: "?inj (fireTimer env sid t)" for sid t by (simp add: fireTimer_def split: prod.splits)
  have "filter ?inj (sent_by env xs)
      = concat (map (\<lambda>(sid, f). if te_paused env sid then [] else map (fireTimer env sid) (due_of (te_now env) f)) xs)" for xs
    by (induction xs) (auto simp: sent_by_def fm filter_id_conv)
  then have l: "filter ?inj (ts_log s') = filter ?inj (ts_log s)
      @ concat (map (\<lambda>(sid, f). if te_paused env sid then [] else map (fireTimer env sid) (due_of (te_now env) f)) (ts_sessions s))"
    by (simp add: s'_def steps(5))
  note ids = listTimers_distinct [OF inv, of sid]
  have "list_all (\<lambda>t. \<not> is_due (te_now env) t) (swept_timers (te_now env) (listTimers sid s))"
    using swept_not_due [OF ids] by (fastforce simp: list_all_iff is_due_def)
  then have "\<not> te_paused env sid \<longrightarrow> list_all (\<lambda>t. \<not> is_due (te_now env) t) (listTimers sid s')"
    by (simp add: s'_def steps(2))
  moreover have "distinct (map (\<lambda>(sid, tid, d). (sid, tid)) fired)"
    using fired_distinct [OF inv, of env] by (simp add: fired_def steps(3))
  moreover have "listTimers sid s' = (if te_paused env sid then listTimers sid s
        else map (\<lambda>t. if is_due (te_now env) t then advance (te_now env) t else t)
          (filter (\<lambda>t. is_due (te_now env) t \<longrightarrow> repeats t \<noteq> None) (listTimers sid s)))"
    by (simp add: s'_def steps(2) swept_timers_eq [OF ids])
  ultimately show ?thesis using f l by blast
qed

text \<open>
  C31. A due recurring timer is rescheduled by the sweep that fires it to the first time after now
  that is a whole number of intervals after the time it was due, and counts one firing whatever
  the number of occurrences missed.
\<close>

theorem recurring_timer_keeps_phase:
  assumes "timer_reach s" "\<not> te_stopping env" "\<not> te_paused env sid"
    "t \<in> set (listTimers sid s)" "is_due (te_now env) t" "repeats t = Some i"
  shows "\<exists>t' k. t' \<in> set (listTimers sid (snd (sweepTimers env s))) \<and> tm_id t' = tm_id t
    \<and> tm_nextFireAt t' = tm_nextFireAt t + of_nat (Suc k) * i
    \<and> te_now env < tm_nextFireAt t' \<and> tm_nextFireAt t' \<le> te_now env + i \<and> tm_fireCount t' = tm_fireCount t + 1"
proof -
  have inv: "timers_ok s" using assms(1) by (rule timer_reach_ok)
  have "listTimers sid (snd (sweepTimers env s)) = swept_timers (te_now env) (listTimers sid s)"
    using sweepTimers_steps(2) [OF inv assms(2)] assms(3) by simp
  then have "advance (te_now env) t \<in> set (listTimers sid (snd (sweepTimers env s)))"
    using assms by (force simp: swept_timers_eq [OF listTimers_distinct [OF inv]])
  then show ?thesis using advance_next [OF assms(6,5)] by (metis advance_fields(1,7))
qed

lemma hourly_due: "is_due 9000000 hourly_timer" "repeats hourly_timer = Some 3600000"
  by (simp_all add: is_due_def hourly_timer_def repeats_def)

theorem recurring_timer_keeps_phase_witness:
  "\<exists>t' k. t' \<in> set (listTimers ''a'' (snd (sweepTimers (demo_env 9000000) hourly_state))) \<and> tm_id t' = ''t1''
    \<and> tm_nextFireAt t' = 3601000 + of_nat (Suc k) * 3600000 \<and> 9000000 < tm_nextFireAt t' \<and> tm_nextFireAt t' \<le> 12600000
    \<and> tm_fireCount t' = 1"
  using recurring_timer_keeps_phase [OF hourly_reach, of "demo_env 9000000" "''a''" hourly_timer 3600000] hourly_due
  by (simp add: demo_env_def hourly_listed) (simp add: hourly_timer_def)

theorem sweep_fires_due_timers_once_witness:
  "set (sw_fired (fst (sweepTimers (demo_env 9000000) hourly_state)))
     = {(sid, tm_id t, Sent) | sid t. t \<in> set (listTimers sid hourly_state) \<and> is_due 9000000 t}
   \<and> listTimers ''a'' (snd (sweepTimers (demo_env 9000000) hourly_state)) = [advance 9000000 hourly_timer]"
proof -
  have "\<not> te_stopping (demo_env 9000000)" by (simp add: demo_env_def)
  note sw = sweep_fires_due_timers_once [OF hourly_reach this, of "''a''"]
  show ?thesis using sw by (simp add: demo_env_def hourly_listed hourly_due)
qed

section \<open>Lost and misreported timers\<close>

text \<open>A duration below a second is accepted, down to a millisecond.\<close>

theorem subsecond_duration_accepted: "parseDuration ''0.001s'' = Inr (Fin 1)"
proof -
  have t: "lower (trim ''0.001s'') = ''0.001s''" and m: "match_duration ''0.001s'' = Some (1 / 1000, 1000)" by code_simp+
  have "\<lfloor>3 / 2 :: number\<rfloor> = 1" by (rule floor_unique) simp_all
  then show ?thesis
    by (simp only: parseDuration_def t m Let_def option.case prod.case)
      (simp add: to_double_def max_double_def js_round_def round_number_def positive_num_def)
qed

text \<open>
  A delay beyond the last date a \<open>Date\<close> can hold: the caller gets an error, but the timer is stored
  and was broadcast.
\<close>

definition far_input :: timer_input where
  "far_input = hourly_input\<lparr>ti_in := Some ''100000000d'', ti_every := None\<rparr>"

lemma far_schedule:
  assumes "0 < now" "now < 1000000"
  shows "resolveTimerSchedule tz now far_input = Inr \<lparr>sc_type = DelayTimer, sc_nextFireAt = Fin (now + 8640000000000000),
    sc_intervalMs = None, sc_originalSpec = ''100000000d''\<rparr>"
proof -
  have m: "(8640000000000000 :: number) < max_double" "now + 8640000000000000 < max_double"
    using assms by (simp_all add: max_double_def)
  have "digit_char 0 = CHR ''0''" "digit_char 1 = CHR ''1''" by code_simp+
  then have "show_nat 100000000 = ''100000000''" by (simp add: show_nat.simps)
  then have p: "parseDuration ''100000000d'' = Inr (Fin 8640000000000000)"
    using parseDuration_printed [of "CHR ''d''" 86400000 100000000] m by (simp add: unit_ms_def)
  have "ti_in far_input = Some ''100000000d''" "ti_at far_input = None" "ti_every far_input = None"
    by (simp_all add: far_input_def hourly_input_def)
  then show ?thesis using m by (simp add: resolveTimerSchedule_def List.map_filter_def p add_ms_def to_double_def)
qed

theorem failed_create_keeps_the_timer:
  "fst (createTimer (demo_env 1000) ''a'' far_input (startAllTimers [])) = Inl InvalidTimeValue
   \<and> map tm_title (listTimers ''a'' (snd (createTimer (demo_env 1000) ''a'' far_input (startAllTimers [])))) = [''check'']"
proof -
  have i: "ti_title far_input = Some ''check''" "ti_threadKey far_input = None" by (simp_all add: far_input_def hourly_input_def)
  have e: "startAllTimers [] = \<lparr>ts_sessions = [], ts_disk = [], ts_log = []\<rparr>" by (simp add: startAllTimers_def listTimerSessions_def)
  obtain new where new: "check_input (demo_env 1000) far_input = Inr new" "nt_title new = ''check''" "nt_fireAt new = 8640000000001000"
    using far_schedule [of 1000 utc] i by (simp add: check_input_def Let_def trim_check demo_env_def)
  have ok: "timers_ok (startAllTimers [])"
    by (rule startAllTimers_ok) (simp add: disk_ok_def loadTimers_def)
  have "fst (createTimer (demo_env 1000) ''a'' far_input (startAllTimers [])) = Inl InvalidTimeValue"
    using new by (simp add: createTimer_def e add_timer_def read_if_needed_def session_file_def loadTimers_def emptyFile_def
      set_session_def MAX_TIMERS_PER_SESSION_def Let_def timer_of_def MAX_DATE_def)
  moreover have "map tm_title (listTimers ''a'' (snd (createTimer (demo_env 1000) ''a'' far_input (startAllTimers [])))) = [''check'']"
    unfolding createTimer_ok(2) [OF ok] using new
    by (simp add: e listTimers_def session_file_def MAX_TIMERS_PER_SESSION_def timer_of_def)
  ultimately show ?thesis by blast
qed

text \<open>
  Two additions to a session without a file in memory, both of which read the disk before either
  stores its file: both report a timer, under the same id, and the first timer is lost, in memory
  and on disk.
\<close>

theorem concurrent_creates_lose_a_timer:
  defines "s0 \<equiv> startAllTimers []"
  defines "second \<equiv> hourly_new\<lparr>nt_title := ''other''\<rparr>"
  defines "both \<equiv> (let l1 = read_if_needed ''a'' s0; l2 = read_if_needed ''a'' s0;
      (r1, s1) = add_timer (demo_env 1000) ''a'' hourly_input hourly_new l1 s0;
      (r2, s2) = add_timer (demo_env 1000) ''a'' hourly_input second l2 s1 in (r1, r2, s2))"
  shows "both = (Inr hourly_timer, Inr (hourly_timer\<lparr>tm_title := ''other''\<rparr>), snd (snd both))"
    "listTimers ''a'' (snd (snd both)) = [hourly_timer\<lparr>tm_title := ''other''\<rparr>]"
    "tf_timers (loadTimers ''a'' (ts_disk (snd (snd both)))) = [hourly_timer\<lparr>tm_title := ''other''\<rparr>]"
  unfolding both_def second_def s0_def by code_simp+

end
