(* ===== verification/List_Delta.thy ===== *)
theory List_Delta
  imports Js_Prelude
begin

text \<open>
  Lists sent as what changed since a list the browser holds (shared/keyed-list-delta.ts): applying a
  delta. The type of the entries and the function that gives an entry's id are parameters.
\<close>

section \<open>Maps by insertion order\<close>

text \<open>\<open>new Map(pairs)\<close>: a later pair replaces the value of an earlier one and keeps its place.\<close>

definition js_map :: "('k \<times> 'v) list \<Rightarrow> ('k \<times> 'v) list" where
  "js_map ps = foldl (\<lambda>m (k, v). AList.update k v m) [] ps"

lemma map_of_js_map: "map_of (js_map ps) = map_of (rev (ps :: ('k \<times> 'v) list))"
proof -
  have "map_of (foldl (\<lambda>m (k, v). AList.update k v m) m ps) = map_of m ++ map_of (rev ps)" for m
    by (induction ps arbitrary: m) (auto simp: update_conv' map_add_def split: option.splits)
  then show ?thesis by (simp add: js_map_def)
qed

lemma js_map_distinct: "distinct (map fst ps) \<Longrightarrow> js_map ps = ps"
proof -
  have "foldl (\<lambda>m (k, v). AList.update k v m) m ps = m @ ps" if "distinct (map fst (m @ ps))" for m
    using that by (induction ps arbitrary: m) (auto simp: update_fresh)
  then show "distinct (map fst ps) \<Longrightarrow> js_map ps = ps" by (simp add: js_map_def)
qed

section \<open>Deltas\<close>

record 'a list_delta =
  ld_base :: string
  ld_hash :: string
  ld_upserts :: "'a list"
  ld_removed :: "string list"
  ld_order :: "string list option"

definition by_id :: "('a \<Rightarrow> string) \<Rightarrow> 'a list \<Rightarrow> (string \<times> 'a) list" where
  "by_id idOf xs = js_map (map (\<lambda>e. (idOf e, e)) xs)"

text \<open>The entries named by \<open>order\<close>; none when one of them is unknown.\<close>

fun arrange :: "(string \<Rightarrow> 'a option) \<Rightarrow> string list \<Rightarrow> 'a list option" where
  "arrange find_entry [] = Some []"
| "arrange find_entry (i # is) = (case find_entry i of None \<Rightarrow> None | Some e \<Rightarrow> map_option (Cons e) (arrange find_entry is))"

text \<open>The held entries that stay, changed ones replaced; then what is left of the changes.\<close>

fun replace_entries :: "('a \<Rightarrow> string) \<Rightarrow> string list \<Rightarrow> 'a list \<Rightarrow> (string \<times> 'a) list \<Rightarrow> 'a list" where
  "replace_entries idOf removed [] upserts = map snd upserts"
| "replace_entries idOf removed (e # es) upserts =
     (if idOf e \<in> set removed then replace_entries idOf removed es upserts
      else case map_of upserts (idOf e) of
             None \<Rightarrow> e # replace_entries idOf removed es upserts
           | Some changed \<Rightarrow> changed # replace_entries idOf removed es (AList.delete (idOf e) upserts))"

definition applyKeyedListDelta :: "('a \<Rightarrow> string) \<Rightarrow> 'a list \<Rightarrow> 'a list_delta \<Rightarrow> 'a list option" where
  "applyKeyedListDelta idOf base delta =
     (let upserts = by_id idOf (ld_upserts delta)
      in case ld_order delta of
           Some order \<Rightarrow>
             let held = by_id idOf base
             in arrange (\<lambda>i. case map_of upserts i of Some e \<Rightarrow> Some e
                  | None \<Rightarrow> if i \<in> set (ld_removed delta) then None else map_of held i) order
         | None \<Rightarrow> Some (replace_entries idOf (ld_removed delta) base upserts))"

section \<open>What applying does\<close>

lemma map_of_by_id:
  assumes "distinct (map idOf xs)"
  shows "map_of (by_id idOf xs) i = Some e \<longleftrightarrow> e \<in> set xs \<and> idOf e = i"
proof -
  have "by_id idOf xs = map (\<lambda>e. (idOf e, e)) xs"
    unfolding by_id_def by (rule js_map_distinct) (simp add: comp_def assms)
  then show ?thesis using assms by (auto simp: map_of_eq_Some_iff comp_def)
qed

lemma by_id_distinct: "distinct (map idOf xs) \<Longrightarrow> by_id idOf xs = map (\<lambda>e. (idOf e, e)) xs"
  unfolding by_id_def by (rule js_map_distinct) (simp add: comp_def)

lemma arrange_map: "(\<And>e. e \<in> set xs \<Longrightarrow> find_entry (idOf e) = Some e) \<Longrightarrow> arrange find_entry (map idOf xs) = Some xs"
  by (induction xs) simp_all

lemma delete_by_id: "AList.delete i (map (\<lambda>e. (idOf e, e)) us) = map (\<lambda>e. (idOf e, e)) (filter (\<lambda>e. idOf e \<noteq> i) us)"
  by (induction us) simp_all

text \<open>With distinct ids: the kept entries with the new value of their id, then the entries with a new id.\<close>

lemma replace_entries_eq:
  assumes "distinct (map idOf base)" "distinct (map idOf us)" "\<forall>e \<in> set us. idOf e \<notin> set removed"
  shows "replace_entries idOf removed base (map (\<lambda>e. (idOf e, e)) us)
    = map (\<lambda>e. case map_of (map (\<lambda>e. (idOf e, e)) us) (idOf e) of None \<Rightarrow> e | Some u \<Rightarrow> u) (filter (\<lambda>e. idOf e \<notin> set removed) base)
      @ filter (\<lambda>u. idOf u \<notin> idOf ` set base) us"
  using assms
proof (induction base arbitrary: us)
  case Nil
  then show ?case by (simp add: comp_def)
next
  case (Cons b base)
  let ?p = "\<lambda>us. map (\<lambda>e. (idOf e, e)) us"
  show ?case
  proof (cases "map_of (?p us) (idOf b)")
    case None
    then have "idOf u \<noteq> idOf b" if "u \<in> set us" for u using that by (force simp: map_of_eq_None_iff image_iff)
    then have f: "filter (\<lambda>u. idOf u \<notin> idOf ` set (b # base)) us = filter (\<lambda>u. idOf u \<notin> idOf ` set base) us"
      by (intro filter_cong) auto
    show ?thesis
    proof (cases "idOf b \<in> set removed")
      case True
      then show ?thesis unfolding f using Cons by simp
    next
      case False
      then show ?thesis unfolding f using Cons None by simp
    qed
  next
    case (Some u)
    then have u: "u \<in> set us" "idOf u = idOf b" by (auto dest!: map_of_SomeD)
    with Cons.prems have stays: "idOf b \<notin> set removed" by force
    let ?us = "filter (\<lambda>e. idOf e \<noteq> idOf b) us"
    have d: "distinct (map idOf ?us)" using Cons.prems(2) by (rule distinct_map_filter)
    have same: "map_of (?p ?us) (idOf e) = map_of (?p us) (idOf e)" if "e \<in> set base" for e
    proof -
      have "idOf e \<noteq> idOf b" using Cons.prems(1) that by (simp add: image_iff) metis
      then show ?thesis by (simp add: delete_by_id [symmetric] delete_conv')
    qed
    have "replace_entries idOf removed (b # base) (?p us) = u # replace_entries idOf removed base (?p ?us)"
      using stays Some by (simp add: delete_by_id)
    also have "replace_entries idOf removed base (?p ?us)
      = map (\<lambda>e. case map_of (?p ?us) (idOf e) of None \<Rightarrow> e | Some u \<Rightarrow> u) (filter (\<lambda>e. idOf e \<notin> set removed) base)
        @ filter (\<lambda>u. idOf u \<notin> idOf ` set base) ?us"
      using Cons.IH [of ?us] Cons.prems d by simp
    also have "map (\<lambda>e. case map_of (?p ?us) (idOf e) of None \<Rightarrow> e | Some u \<Rightarrow> u) (filter (\<lambda>e. idOf e \<notin> set removed) base)
      = map (\<lambda>e. case map_of (?p us) (idOf e) of None \<Rightarrow> e | Some u \<Rightarrow> u) (filter (\<lambda>e. idOf e \<notin> set removed) base)"
      by (intro map_cong) (auto simp: same)
    finally show ?thesis using stays Some by (simp add: conj_commute)
  qed
qed

end
