(* ===== verification/List_Versions.thy ===== *)
theory List_Versions
  imports List_Delta "HOL-Library.Word"
begin

text \<open>
  The server's side of the synchronised lists: the hash that names a list
  (shared/snapshot-part-hash.ts) and the recent versions of a list, from which deltas are computed
  (server/bridge/keyed-list-versions.ts). \<open>JSON.stringify\<close> of an entry and the function that gives
  its id are parameters, as is the number of versions kept.
\<close>

unbundle bit_operations_syntax

section \<open>Hashes\<close>

type_synonym u32 = "32 word"

definition base36_digit :: "nat \<Rightarrow> char" where
  "base36_digit d = (if d < 10 then digit_char d else char_of (87 + d))"

fun show_base36 :: "nat \<Rightarrow> string" where
  "show_base36 n = (if n < 36 then [base36_digit n] else show_base36 (n div 36) @ [base36_digit (n mod 36)])"

declare show_base36.simps [simp del]

definition hash_char :: "u32 \<times> u32 \<Rightarrow> char \<Rightarrow> u32 \<times> u32" where
  "hash_char h c = (let (h1, h2) = h; ch = of_nat (of_char c)
     in ((h1 XOR ch) * 2654435761, (h2 XOR ch) * 1597334677))"

definition snapshotTextHash :: "string \<Rightarrow> string" where
  "snapshotTextHash text =
     (let (h1, h2) = foldl hash_char (0xdeadbeef, 0x41c6ce57) text;
          h1 = ((h1 XOR drop_bit 16 h1) * 2246822507) XOR ((h2 XOR drop_bit 13 h2) * 3266489909);
          h2 = ((h2 XOR drop_bit 16 h2) * 2246822507) XOR ((h1 XOR drop_bit 13 h1) * 3266489909)
      in show_base36 (unat h2) @ ''-'' @ show_base36 (unat h1) @ ''-'' @ show_base36 (length text))"

text \<open>The hash ends with the length, so texts of different lengths never collide.\<close>

lemma base36_digit_value: "d < 36 \<Longrightarrow> (of_char (base36_digit d) :: nat) = (if d < 10 then 48 + d else 87 + d)"
  by (simp add: base36_digit_def digit_char_value)

lemma base36_digit_inject: "d < 36 \<Longrightarrow> e < 36 \<Longrightarrow> base36_digit d = base36_digit e \<longleftrightarrow> d = e"
proof
  assume de: "d < 36" "e < 36" and "base36_digit d = base36_digit e"
  then have "(if d < 10 then 48 + d else 87 + d) = (if e < 10 then 48 + e else 87 + e)"
    by (metis base36_digit_value)
  with de show "d = e" by (simp split: if_splits)
qed simp

lemma show_base36_inject: "show_base36 m = show_base36 n \<longleftrightarrow> m = n"
proof (induction m arbitrary: n rule: show_base36.induct)
  case (1 m)
  have ne: "show_base36 j \<noteq> []" for j by (subst show_base36.simps) simp
  consider "m < 36" "n < 36" | "m < 36" "\<not> n < 36" | "\<not> m < 36" "n < 36" | (big) "\<not> m < 36" "\<not> n < 36" by blast
  then show ?case
  proof cases
    case big
    then have "show_base36 m = show_base36 n \<longleftrightarrow> m div 36 = n div 36 \<and> m mod 36 = n mod 36"
      using 1 by (simp add: show_base36.simps [of m] show_base36.simps [of n] base36_digit_inject)
    then show ?thesis by (metis div_mult_mod_eq)
  qed (auto simp: show_base36.simps [of m] show_base36.simps [of n] base36_digit_inject ne ne [symmetric])
qed

lemma show_base36_no_dash: "CHR ''-'' \<notin> set (show_base36 n)"
proof (induction n rule: show_base36.induct)
  case (1 n)
  have "base36_digit d \<noteq> CHR ''-''" if "d < 36" for d
    using base36_digit_value [OF that] by (auto split: if_splits)
  then have "CHR ''-'' \<noteq> base36_digit d" if "d < 36" for d using that by metis
  with 1 show ?case by (simp add: show_base36.simps [of n])
qed

lemma snapshotTextHash_length: "snapshotTextHash s = snapshotTextHash t \<Longrightarrow> length s = length t"
proof -
  have "takeWhile (\<lambda>c. c \<noteq> CHR ''-'') (rev (snapshotTextHash u)) = rev (show_base36 (length u))" for u
    by (simp add: snapshotTextHash_def case_prod_beta Let_def)
      (subst takeWhile_end; use show_base36_no_dash in \<open>auto simp: list_all_iff\<close>)
  then show "snapshotTextHash s = snapshotTextHash t \<Longrightarrow> length s = length t"
    by (metis rev_rev_ident show_base36_inject)
qed

section \<open>Versions\<close>

record 'a list_kind =
  lk_idOf :: "'a \<Rightarrow> string"
  lk_text :: "'a \<Rightarrow> string"   \<comment> \<open>JSON.stringify\<close>
  lk_limit :: nat

record list_version =
  lv_hash :: string
  lv_ids :: "string list"
  lv_entryHashes :: "string list"
  lv_keyed :: bool

record list_versions =
  vs_versions :: "list_version list"
  vs_broadcastBase :: "string option"

record 'a list_sync =
  ls_hash :: string
  ls_list :: "'a list option"
  ls_delta :: "'a list_delta option"

definition no_versions :: list_versions where
  "no_versions = \<lparr>vs_versions = [], vs_broadcastBase = None\<rparr>"

definition find_version :: "string \<Rightarrow> list_versions \<Rightarrow> list_version option" where
  "find_version h st = List.find (\<lambda>v. lv_hash v = h) (vs_versions st)"

definition idsOf :: "string \<Rightarrow> list_versions \<Rightarrow> string list option" where
  "idsOf h st = map_option lv_ids (find_version h st)"

definition listHash :: "('a, 'x) list_kind_scheme \<Rightarrow> 'a list \<Rightarrow> string" where
  "listHash k list = snapshotTextHash (''['' @ join_with '','' (map (lk_text k) list) @ '']'')"

text \<open>The index of each id; a later duplicate wins.\<close>

definition index_map :: "string list \<Rightarrow> (string \<times> nat) list" where
  "index_map ids = js_map (zip ids [0..<length ids])"

text \<open>
  The version of a list, sharing the strings of the latest version: an id it also has, and the hash
  of an entry that is the same there.
\<close>

definition shared_id :: "list_version option \<Rightarrow> string \<Rightarrow> string" where
  "shared_id latest i = (case latest of None \<Rightarrow> i
     | Some v \<Rightarrow> (case map_of (index_map (lv_ids v)) i of None \<Rightarrow> i | Some j \<Rightarrow> lv_ids v ! j))"

definition shared_hash :: "list_version option \<Rightarrow> string \<Rightarrow> string \<Rightarrow> string" where
  "shared_hash latest i h = (case latest of None \<Rightarrow> h
     | Some v \<Rightarrow> (case map_of (index_map (lv_ids v)) i of None \<Rightarrow> h
         | Some j \<Rightarrow> if lv_entryHashes v ! j = h then lv_entryHashes v ! j else h))"

definition new_version :: "('a, 'x) list_kind_scheme \<Rightarrow> list_version option \<Rightarrow> string \<Rightarrow> 'a list \<Rightarrow> list_version" where
  "new_version k latest h list =
     (let ids = map (\<lambda>e. shared_id latest (lk_idOf k e)) list;
          entryHashes = map2 (\<lambda>i e. shared_hash latest i (snapshotTextHash (lk_text k e))) ids list
      in \<lparr>lv_hash = h, lv_ids = ids, lv_entryHashes = entryHashes, lv_keyed = (card (set ids) = length ids)\<rparr>)"

definition push_version :: "nat \<Rightarrow> list_version \<Rightarrow> list_versions \<Rightarrow> list_versions" where
  "push_version limit v st =
     (let vs = vs_versions st @ [v] in st\<lparr>vs_versions := (if limit < length vs then tl vs else vs)\<rparr>)"

definition last_version :: "list_versions \<Rightarrow> list_version option" where
  "last_version st = (if vs_versions st = [] then None else Some (last (vs_versions st)))"

definition remember :: "('a, 'x) list_kind_scheme \<Rightarrow> 'a list \<Rightarrow> string option \<Rightarrow> list_versions \<Rightarrow> list_version \<times> list_versions" where
  "remember k list h st =
     (case Option.bind h (\<lambda>h. find_version h st) of
        Some known \<Rightarrow> (known, st)
      | None \<Rightarrow>
          let lh = (case h of Some h \<Rightarrow> h | None \<Rightarrow> listHash k list)
          in case last_version st of
               Some latest \<Rightarrow>
                 if lv_hash latest = lh then (latest, st)
                 else let v = new_version k (Some latest) lh list in (v, push_version (lk_limit k) v st)
             | None \<Rightarrow> let v = new_version k None lh list in (v, push_version (lk_limit k) v st))"

section \<open>Deltas\<close>

text \<open>
  The pass over the current entries (id, hash, entry): the entries to send and whether the held
  entries stay in their order with the new ones after them. The state is the index of the last held
  entry met and whether a new entry was met.
\<close>

fun delta_scan :: "(string \<Rightarrow> nat option) \<Rightarrow> string list \<Rightarrow> int \<Rightarrow> bool \<Rightarrow> (string \<times> string \<times> 'a) list \<Rightarrow> 'a list \<times> bool" where
  "delta_scan baseIndex baseHashes previous appending [] = ([], True)"
| "delta_scan baseIndex baseHashes previous appending ((i, h, e) # rest) =
     (case baseIndex i of
        None \<Rightarrow> (let (ups, ordered) = delta_scan baseIndex baseHashes previous True rest in (e # ups, ordered))
      | Some b \<Rightarrow>
          let (ups, ordered) = delta_scan baseIndex baseHashes (int b) appending rest
          in (if baseHashes ! b \<noteq> h then e # ups else ups, ordered \<and> \<not> (appending \<or> int b < previous)))"

definition version_delta :: "list_version \<Rightarrow> list_version \<Rightarrow> 'a list \<Rightarrow> 'a list_delta option" where
  "version_delta base current list =
     (if \<not> lv_keyed base \<or> \<not> lv_keyed current then None
      else
        let (upserts, ordered) = delta_scan (map_of (index_map (lv_ids base))) (lv_entryHashes base) (- 1) False
              (zip (lv_ids current) (zip (lv_entryHashes current) list))
        in if length upserts = length list \<and> 0 < length list then None
           else Some \<lparr>ld_base = lv_hash base, ld_hash = lv_hash current, ld_upserts = upserts,
                  ld_removed = filter (\<lambda>i. i \<notin> set (lv_ids current)) (lv_ids base),
                  ld_order = (if ordered then None else Some (lv_ids current))\<rparr>)"

definition sync :: "('a, 'x) list_kind_scheme \<Rightarrow> 'a list \<Rightarrow> string option \<Rightarrow> string option \<Rightarrow> list_versions \<Rightarrow> 'a list_sync \<times> list_versions" where
  "sync k list held h st =
     (let (current, st1) = remember k list h st
      in if held = Some (lv_hash current) then (\<lparr>ls_hash = lv_hash current, ls_list = None, ls_delta = None\<rparr>, st1)
         else
           let base = Option.bind held (\<lambda>g. find_version g st1);
               delta = Option.bind base (\<lambda>b. version_delta b current list)
           in (case delta of
                 Some d \<Rightarrow> \<lparr>ls_hash = lv_hash current, ls_list = None, ls_delta = Some d\<rparr>
               | None \<Rightarrow> \<lparr>ls_hash = lv_hash current, ls_list = Some list, ls_delta = None\<rparr>, st1))"

definition broadcast :: "('a, 'x) list_kind_scheme \<Rightarrow> 'a list \<Rightarrow> string option \<Rightarrow> list_versions \<Rightarrow> 'a list_sync \<times> list_versions" where
  "broadcast k list h st =
     (let (result, st1) = sync k list (vs_broadcastBase st) h st
      in (result, st1\<lparr>vs_broadcastBase := Some (ls_hash result)\<rparr>))"

section \<open>A version is the shape of its list\<close>

definition entry_hash :: "('a, 'x) list_kind_scheme \<Rightarrow> 'a \<Rightarrow> string" where
  "entry_hash k e = snapshotTextHash (lk_text k e)"

definition version_of :: "('a, 'x) list_kind_scheme \<Rightarrow> string \<Rightarrow> 'a list \<Rightarrow> list_version" where
  "version_of k h list = \<lparr>lv_hash = h, lv_ids = map (lk_idOf k) list, lv_entryHashes = map (entry_hash k) list,
     lv_keyed = distinct (map (lk_idOf k) list)\<rparr>"

lemma index_map_Some:
  assumes "map_of (index_map ids) i = Some j" shows "j < length ids \<and> ids ! j = i"
proof -
  have "(i, j) \<in> set (zip ids [0..<length ids])"
    using map_of_SomeD [OF assms [unfolded index_map_def map_of_js_map]] by simp
  then show ?thesis by (auto simp: set_zip)
qed

lemma index_map_None: "map_of (index_map ids) i = None \<longleftrightarrow> i \<notin> set ids"
proof -
  have "map_of (rev (zip ids [0..<length ids])) i = None \<longleftrightarrow> i \<notin> fst ` set (zip ids [0..<length ids])"
    by (simp add: map_of_eq_None_iff)
  moreover have "fst ` set (zip ids [0..<length ids]) = set ids"
    by (metis list.set_map map_fst_zip length_upt minus_nat.diff_0)
  ultimately show ?thesis by (simp add: index_map_def map_of_js_map)
qed

lemma index_map_distinct: "distinct ids \<Longrightarrow> j < length ids \<Longrightarrow> map_of (index_map ids) (ids ! j) = Some j"
proof -
  assume d: "distinct ids" and j: "j < length ids"
  then obtain m where m: "map_of (index_map ids) (ids ! j) = Some m"
    using index_map_None [of ids "ids ! j"] by auto
  then have "m < length ids" "ids ! m = ids ! j" using index_map_Some by blast+
  with d j m show ?thesis by (simp add: nth_eq_iff_index_eq)
qed

lemma shared_id_same: "shared_id latest i = i"
  by (auto simp: shared_id_def split: option.splits dest: index_map_Some)

lemma shared_hash_same: "shared_hash latest i h = h"
  by (auto simp: shared_hash_def split: option.splits)

text \<open>Sharing strings with the latest version does not change the version.\<close>

lemma new_version_eq: "new_version k latest h list = version_of k h list"
proof -
  have "map2 (\<lambda>i e. snapshotTextHash (lk_text k e)) (map (lk_idOf k) list) list = map (entry_hash k) list"
    by (rule nth_equalityI) (simp_all add: entry_hash_def)
  moreover have "card (set (map (lk_idOf k) list)) = length (map (lk_idOf k) list) \<longleftrightarrow> distinct (map (lk_idOf k) list)"
    by (metis distinct_card card_distinct)
  ultimately show ?thesis
    by (simp only: new_version_def shared_id_same shared_hash_same version_of_def Let_def)
qed

section \<open>Computing a delta\<close>

lemma delta_scan_upserts:
  assumes "distinct (map (lk_idOf k) b)"
  shows "fst (delta_scan (map_of (index_map (map (lk_idOf k) b))) (map (entry_hash k) b) p a
      (map (\<lambda>e. (lk_idOf k e, entry_hash k e, e)) c))
    = filter (\<lambda>e. \<not> (\<exists>x \<in> set b. lk_idOf k x = lk_idOf k e \<and> entry_hash k x = entry_hash k e)) c"
proof (induction c arbitrary: p a)
  case (Cons e c)
  let ?ids = "map (lk_idOf k) b"
  show ?case
  proof (cases "map_of (index_map ?ids) (lk_idOf k e)")
    case None
    then have "lk_idOf k e \<notin> set ?ids" by (rule index_map_None [THEN iffD1])
    then have "\<not> (\<exists>x \<in> set b. lk_idOf k x = lk_idOf k e \<and> entry_hash k x = entry_hash k e)" by (metis imageI list.set_map)
    then show ?thesis using None Cons.IH by (simp add: case_prod_beta Let_def)
  next
    case (Some j)
    then have j: "j < length b" "lk_idOf k (b ! j) = lk_idOf k e" using index_map_Some by fastforce+
    have "(\<exists>x \<in> set b. lk_idOf k x = lk_idOf k e \<and> entry_hash k x = entry_hash k e) \<longleftrightarrow> entry_hash k (b ! j) = entry_hash k e"
    proof -
      have "x = b ! j" if "x \<in> set b" "lk_idOf k x = lk_idOf k e" for x
        using assms that j by (metis distinct_map inj_onD nth_mem)
      then show ?thesis using j nth_mem by metis
    qed
    then show ?thesis using Some Cons.IH j by (simp add: case_prod_beta Let_def)
  qed
qed simp

text \<open>
  The scan reports order exactly when the entries are held ones with growing indices, followed by
  new ones.
\<close>

lemma delta_scan_ordered:
  assumes "snd (delta_scan ix hs p a xs)"
  shows "\<exists>held new. xs = held @ new \<and> (a \<longrightarrow> held = []) \<and> (\<forall>x \<in> set new. ix (fst x) = None)
    \<and> (\<forall>x \<in> set held. ix (fst x) \<noteq> None) \<and> sorted (p # map (\<lambda>x. int (the (ix (fst x)))) held)"
  using assms
proof (induction xs arbitrary: p a)
  case (Cons x xs)
  obtain i h e where x: "x = (i, h, e)" by (cases x)
  show ?case
  proof (cases "ix i")
    case None
    with Cons.prems x have "snd (delta_scan ix hs p True xs)" by (simp add: case_prod_beta Let_def)
    then obtain new where "xs = new" "\<forall>x \<in> set new. ix (fst x) = None" using Cons.IH by blast
    then show ?thesis using None x by (intro exI [of _ "[]"] exI [of _ "x # xs"]) auto
  next
    case (Some j)
    with Cons.prems x have o: "snd (delta_scan ix hs (int j) a xs)" "\<not> a" "p \<le> int j"
      by (auto simp: case_prod_beta Let_def)
    obtain held new where s: "xs = held @ new" "\<forall>x \<in> set new. ix (fst x) = None"
      "\<forall>x \<in> set held. ix (fst x) \<noteq> None" "sorted (int j # map (\<lambda>x. int (the (ix (fst x)))) held)"
      using Cons.IH [OF o(1)] by blast
    show ?thesis
      by (intro exI [of _ "x # held"] exI [of _ new]) (use s o Some x in \<open>auto\<close>)
  qed
qed simp

lemma sorted_positions:
  assumes "sorted ks" "distinct ks" "\<forall>j \<in> set ks. j < length xs" "distinct xs"
  shows "map (nth xs) ks = filter (\<lambda>x. x \<in> nth xs ` set ks) xs"
proof -
  have "filter (\<lambda>j. j \<in> set ks) [0..<length xs] = ks"
  proof (rule sorted_distinct_set_unique)
    show "sorted (filter (\<lambda>j. j \<in> set ks) [0..<length xs])" by (simp add: sorted_wrt_filter)
    show "set (filter (\<lambda>j. j \<in> set ks) [0..<length xs]) = set ks" using assms(3) by auto
  qed (use assms in simp_all)
  then have "map (nth xs) ks = map (nth xs) (filter (\<lambda>j. j \<in> set ks) [0..<length xs])" by simp
  also have "\<dots> = map (nth xs) (filter (\<lambda>j. xs ! j \<in> nth xs ` set ks) [0..<length xs])"
  proof -
    have "j \<in> set ks \<longleftrightarrow> xs ! j \<in> nth xs ` set ks" if "j < length xs" for j
      using assms(3,4) that by (auto simp: nth_eq_iff_index_eq image_iff)
    then show ?thesis by (intro arg_cong [of _ _ "map (nth xs)"] filter_cong) auto
  qed
  also have "\<dots> = filter (\<lambda>x. x \<in> nth xs ` set ks) (map (nth xs) [0..<length xs])"
    by (simp add: filter_map comp_def)
  finally show ?thesis by (simp add: map_nth)
qed

lemma zip_version: "zip (map f c) (zip (map g c) c) = map (\<lambda>e. (f e, g e, e)) c"
  by (induction c) simp_all

text \<open>The held part of the current list is made of the ids of the base that stay, in its order.\<close>

lemma held_ids:
  assumes b: "distinct (map idOf b)" and c: "distinct (map idOf (ch @ cn))"
    and new: "\<forall>e \<in> set cn. idOf e \<notin> idOf ` set b" and held: "\<forall>e \<in> set ch. idOf e \<in> idOf ` set b"
    and sorted: "sorted (map (\<lambda>e. int (the (map_of (index_map (map idOf b)) (idOf e)))) ch)"
  shows "filter (\<lambda>i. i \<in> idOf ` set (ch @ cn)) (map idOf b) = map idOf ch"
proof -
  let ?ids = "map idOf b"
  define ks where "ks = map (\<lambda>e. the (map_of (index_map ?ids) (idOf e))) ch"
  have pos: "the (map_of (index_map ?ids) (idOf e)) < length ?ids \<and> ?ids ! the (map_of (index_map ?ids) (idOf e)) = idOf e"
    if "e \<in> set ch" for e
  proof -
    have "idOf e \<in> set ?ids" using held that by simp
    then obtain j where "map_of (index_map ?ids) (idOf e) = Some j" using index_map_None [of ?ids "idOf e"] by auto
    then show ?thesis using index_map_Some by fastforce
  qed
  then have ids: "map (nth ?ids) ks = map idOf ch" by (simp add: ks_def del: nth_map)
  then have "distinct ks" using c by (metis distinct_append distinct_map map_append)
  moreover have "sorted ks" using sorted by (simp add: ks_def sorted_map)
  moreover have "\<forall>j \<in> set ks. j < length ?ids" using pos by (auto simp: ks_def)
  ultimately have "map (nth ?ids) ks = filter (\<lambda>i. i \<in> nth ?ids ` set ks) ?ids" using b by (intro sorted_positions)
  moreover have "nth ?ids ` set ks = idOf ` set ch" using ids by (metis list.set_map)
  ultimately have "filter (\<lambda>i. i \<in> idOf ` set ch) ?ids = map idOf ch" by (simp only: ids)
  moreover have "filter (\<lambda>i. i \<in> idOf ` set (ch @ cn)) ?ids = filter (\<lambda>i. i \<in> idOf ` set ch) ?ids"
    using new by (intro filter_cong) (auto simp: image_iff, metis)
  ultimately show ?thesis by simp
qed

lemma upserts_of:
  assumes inj: "inj_on (entry_hash k) (set b \<union> set c)"
  shows "filter (\<lambda>e. \<not> (\<exists>x \<in> set b. lk_idOf k x = lk_idOf k e \<and> entry_hash k x = entry_hash k e)) c = filter (\<lambda>e. e \<notin> set b) c"
proof (rule filter_cong)
  fix e assume "e \<in> set c"
  then show "(\<not> (\<exists>x \<in> set b. lk_idOf k x = lk_idOf k e \<and> entry_hash k x = entry_hash k e)) = (e \<notin> set b)"
    using inj by (metis UnI1 UnI2 inj_on_def)
qed simp

lemma apply_in_place:
  assumes b: "distinct (map idOf b)" and c: "distinct (map idOf c)" and parts: "c = ch @ cn"
    and new: "\<forall>e \<in> set cn. idOf e \<notin> idOf ` set b" and held: "\<forall>e \<in> set ch. idOf e \<in> idOf ` set b"
    and sorted: "sorted (map (\<lambda>e. int (the (map_of (index_map (map idOf b)) (idOf e)))) ch)"
  shows "replace_entries idOf (filter (\<lambda>i. i \<notin> idOf ` set c) (map idOf b)) b
      (map (\<lambda>e. (idOf e, e)) (filter (\<lambda>e. e \<notin> set b) c)) = c"
proof -
  define us where "us = filter (\<lambda>e. e \<notin> set b) c"
  define removed where "removed = filter (\<lambda>i. i \<notin> idOf ` set c) (map idOf b)"
  define val where "val = (\<lambda>e. case map_of (map (\<lambda>e. (idOf e, e)) us) (idOf e) of None \<Rightarrow> e | Some u \<Rightarrow> u)"
  define stay where "stay = filter (\<lambda>e. idOf e \<notin> set removed) b"
  have us: "distinct (map idOf us)" unfolding us_def by (rule distinct_map_filter [OF c])
  have lookup: "map_of (map (\<lambda>e. (idOf e, e)) us) i = Some u \<longleftrightarrow> u \<in> set us \<and> idOf u = i" for i u
    using map_of_by_id [OF us, of i u] by (simp add: by_id_distinct [OF us])
  have same: "x = y" if "x \<in> set c" "y \<in> set c" "idOf x = idOf y" for x y
    using c that by (simp add: distinct_map inj_on_def)
  have sameb: "x = y" if "x \<in> set b" "y \<in> set b" "idOf x = idOf y" for x y
    using b that by (simp add: distinct_map inj_on_def)
  have "replace_entries idOf removed b (map (\<lambda>e. (idOf e, e)) us) = map val stay @ filter (\<lambda>u. idOf u \<notin> idOf ` set b) us"
    using replace_entries_eq [OF b us, of removed] by (simp add: val_def stay_def removed_def us_def)
  moreover have "filter (\<lambda>u. idOf u \<notin> idOf ` set b) us = cn"
  proof -
    have "filter (\<lambda>u. idOf u \<notin> idOf ` set b) (filter (\<lambda>e. e \<notin> set b) ch) = []" using held by (simp add: filter_empty_conv)
    moreover have "filter (\<lambda>u. idOf u \<notin> idOf ` set b) (filter (\<lambda>e. e \<notin> set b) cn) = cn" using new by (auto simp: filter_id_conv)
    ultimately show ?thesis by (simp add: us_def parts)
  qed
  moreover have "map val stay = ch"
  proof -
    have ids: "idOf (val e) = idOf e" for e using lookup by (auto simp: val_def split: option.splits)
    have "map idOf (map val stay) = filter (\<lambda>i. i \<notin> set removed) (map idOf b)"
      by (simp add: comp_def ids stay_def filter_map)
    also have "\<dots> = filter (\<lambda>i. i \<in> idOf ` set (ch @ cn)) (map idOf b)"
      by (intro filter_cong) (auto simp: removed_def parts)
    also have "\<dots> = map idOf ch" by (rule held_ids) (use b c parts new held sorted in simp_all)
    finally have "map idOf (map val stay) = map idOf ch" .
    moreover have "set (map val stay) \<subseteq> set c"
    proof
      fix x assume "x \<in> set (map val stay)"
      then obtain e where e: "e \<in> set b" "idOf e \<in> idOf ` set c" "x = val e" by (auto simp: stay_def removed_def)
      show "x \<in> set c"
      proof (cases "map_of (map (\<lambda>e. (idOf e, e)) us) (idOf e)")
        case (Some u)
        then show ?thesis using e lookup by (simp add: val_def us_def)
      next
        case None
        obtain y where y: "y \<in> set c" "idOf y = idOf e" using e(2) by auto
        then have "y \<in> set b" using None lookup [of "idOf e" y] by (auto simp: us_def)
        then have "y = e" using e(1) y(2) by (simp add: sameb)
        then show ?thesis using None e y by (simp add: val_def)
      qed
    qed
    moreover have "set ch \<subseteq> set c" by (simp add: parts)
    moreover have "inj_on idOf (set c)" using c by (simp add: distinct_map)
    ultimately show ?thesis by (intro map_inj_on [of idOf]) (auto intro: inj_on_subset)
  qed
  ultimately show ?thesis by (simp add: us_def removed_def parts)
qed

lemma version_delta_correct:
  assumes inj: "inj_on (entry_hash k) (set b \<union> set c)"
    and d: "version_delta (version_of k hb b) (version_of k hc c) c = Some d"
  shows "applyKeyedListDelta (lk_idOf k) b d = Some c" "ld_base d = hb" "ld_hash d = hc"
    "ld_upserts d = filter (\<lambda>e. e \<notin> set b) c" "c \<noteq> [] \<Longrightarrow> \<exists>e \<in> set c. e \<in> set b"
proof -
  let ?id = "lk_idOf k" and ?ix = "map_of (index_map (map (lk_idOf k) b))"
  let ?triples = "map (\<lambda>e. (lk_idOf k e, entry_hash k e, e)) c"
  obtain ups ordered where scan: "delta_scan ?ix (map (entry_hash k) b) (- 1) False ?triples = (ups, ordered)"
    by (cases "delta_scan ?ix (map (entry_hash k) b) (- 1) False ?triples")
  have b: "distinct (map ?id b)" and c: "distinct (map ?id c)"
    using d by (auto simp: version_delta_def version_of_def split: if_splits)
  have ups: "ups = filter (\<lambda>e. e \<notin> set b) c"
    using delta_scan_upserts [OF b, of "- 1" False c] scan upserts_of [OF inj] by simp
  define removed where "removed = filter (\<lambda>i. i \<notin> ?id ` set c) (map ?id b)"
  have deq: "d = \<lparr>ld_base = hb, ld_hash = hc, ld_upserts = ups, ld_removed = removed,
      ld_order = (if ordered then None else Some (map ?id c))\<rparr>"
    using d b c scan by (auto simp: version_delta_def version_of_def zip_version removed_def split: if_splits)
  then show "ld_base d = hb" "ld_hash d = hc" "ld_upserts d = filter (\<lambda>e. e \<notin> set b) c" by (simp_all add: ups)
  have "c = [] \<or> length ups \<noteq> length c"
    using d b c scan by (auto simp: version_delta_def version_of_def zip_version split: if_splits)
  then have "c = [] \<or> ups \<noteq> c" by auto
  then show "\<exists>e \<in> set c. e \<in> set b" if "c \<noteq> []" using that by (auto simp: ups filter_id_conv)
  have us: "distinct (map ?id ups)" unfolding ups by (rule distinct_map_filter [OF c])
  show "applyKeyedListDelta ?id b d = Some c"
  proof (cases ordered)
    case True
    then obtain held new where parts: "?triples = held @ new" "\<forall>x \<in> set new. ?ix (fst x) = None"
      "\<forall>x \<in> set held. ?ix (fst x) \<noteq> None" "sorted (map (\<lambda>x. int (the (?ix (fst x)))) held)"
      using delta_scan_ordered [of ?ix "map (entry_hash k) b" "- 1" False ?triples] scan by auto
    obtain ch cn where ch: "c = ch @ cn" "held = map (\<lambda>e. (?id e, entry_hash k e, e)) ch" "new = map (\<lambda>e. (?id e, entry_hash k e, e)) cn"
      using parts(1) by (auto simp: map_eq_append_conv)
    have "\<forall>e \<in> set cn. ?id e \<notin> ?id ` set b"
      using parts(2) by (simp add: ch index_map_None)
    moreover have "\<forall>e \<in> set ch. ?id e \<in> ?id ` set b"
      using parts(3) index_map_None [of "map ?id b"] by (force simp: ch)
    moreover have "sorted (map (\<lambda>e. int (the (?ix (?id e)))) ch)"
      using parts(4) by (simp add: ch comp_def)
    ultimately have "replace_entries ?id removed b (map (\<lambda>e. (?id e, e)) ups) = c"
      unfolding removed_def ups using apply_in_place [OF b c ch(1)] by simp
    then show ?thesis using True by (simp add: applyKeyedListDelta_def deq by_id_distinct [OF us])
  next
    case False
    have "(case map_of (by_id ?id ups) (?id e) of Some u \<Rightarrow> Some u
        | None \<Rightarrow> if ?id e \<in> set removed then None else map_of (by_id ?id b) (?id e)) = Some e" if e: "e \<in> set c" for e
    proof (cases "e \<in> set b")
      case False
      then have "map_of (by_id ?id ups) (?id e) = Some e" using e map_of_by_id [OF us, of "?id e" e] by (simp add: ups)
      then show ?thesis by simp
    next
      case True
      have "map_of (by_id ?id ups) (?id e) = None"
      proof (rule ccontr)
        assume "map_of (by_id ?id ups) (?id e) \<noteq> None"
        then obtain u where "u \<in> set ups" "?id u = ?id e" using map_of_by_id [OF us] by blast
        then have "u = e" using c e by (simp add: ups distinct_map inj_on_def)
        with \<open>u \<in> set ups\<close> True show False by (simp add: ups)
      qed
      moreover have "map_of (by_id ?id b) (?id e) = Some e" using True by (simp add: map_of_by_id [OF b])
      ultimately show ?thesis using e by (simp add: removed_def)
    qed
    then have "arrange (\<lambda>i. case map_of (by_id ?id ups) i of Some u \<Rightarrow> Some u
        | None \<Rightarrow> if i \<in> set removed then None else map_of (by_id ?id b) i) (map ?id c) = Some c"
      by (intro arrange_map) blast
    then show ?thesis using False by (simp add: applyKeyedListDelta_def deq Let_def cong: option.case_cong)
  qed
qed

text \<open>
  C34. The delta between two remembered versions of a list, applied to the old list, gives exactly
  the new list, whichever entries changed, left, moved or were added; it names the old list as its
  base and the new one as its result, sends exactly the entries that changed or are new, and is
  used only when some entry of a non-empty list need not be sent.
\<close>

theorem delta_rebuilds_list:
  assumes "inj_on (entry_hash k) (set b \<union> set c)"
    "version_delta (version_of k hb b) (version_of k hc c) c = Some d"
  shows "applyKeyedListDelta (lk_idOf k) b d = Some c \<and> ld_base d = hb \<and> ld_hash d = hc
    \<and> ld_upserts d = filter (\<lambda>e. e \<notin> set b) c \<and> (c = [] \<or> (\<exists>e \<in> set c. e \<in> set b))"
  using version_delta_correct [OF assms] by blast

text \<open>A list of words, each identified by its first letter, as a demonstration.\<close>

definition word_kind :: "string list_kind" where
  "word_kind = \<lparr>lk_idOf = take 1, lk_text = (\<lambda>w. w), lk_limit = 8\<rparr>"

definition old_words :: "string list" where "old_words = [''a1'', ''b22'']"
definition new_words :: "string list" where "new_words = [''b22'', ''c4444'', ''a333'']"

lemma entry_hash_length: "entry_hash word_kind v = entry_hash word_kind w \<Longrightarrow> length v = length w"
  by (auto simp: entry_hash_def word_kind_def dest: snapshotTextHash_length)

lemma words_inj: "inj_on (entry_hash word_kind) (set old_words \<union> set new_words)"
  by (rule inj_onI, drule entry_hash_length) (auto simp: old_words_def new_words_def)

lemma words_delta:
  "version_delta (version_of word_kind ''o'' old_words) (version_of word_kind ''n'' new_words) new_words
     = Some \<lparr>ld_base = ''o'', ld_hash = ''n'', ld_upserts = [''c4444'', ''a333''], ld_removed = [], ld_order = Some [''b'', ''c'', ''a'']\<rparr>"
proof -
  have "entry_hash word_kind ''a1'' \<noteq> entry_hash word_kind ''a333''" by (auto dest: entry_hash_length)
  then show ?thesis
    by (simp add: version_delta_def version_of_def old_words_def new_words_def word_kind_def index_map_def js_map_def upt_rec numeral_nat)
qed

theorem delta_rebuilds_list_witness:
  "\<exists>d. version_delta (version_of word_kind ''o'' old_words) (version_of word_kind ''n'' new_words) new_words = Some d
     \<and> ld_order d \<noteq> None \<and> applyKeyedListDelta (lk_idOf word_kind) old_words d = Some new_words"
  using conjunct1 [OF delta_rebuilds_list [OF words_inj words_delta]] words_delta by simp

end
