(* ===== verification/List_Sync.thy ===== *)
theory List_Sync
  imports List_Versions
begin

text \<open>
  The browser's side of the synchronised lists (src/utils/synced-lists.ts) and the protocol: the
  server's list changes, messages are computed against any hash a browser may name, and browsers
  receive them late, twice, out of order or never.
\<close>

section \<open>The browser\<close>

datatype list_name = Notifications | AttentionRecords | CompletedBoard | RowSessionStatuses | ThreadSummaries | MessageAttentionRecords

definition SYNCED_LIST_KINDS :: "list_name list" where
  "SYNCED_LIST_KINDS = [Notifications, AttentionRecords, CompletedBoard, RowSessionStatuses, ThreadSummaries, MessageAttentionRecords]"

definition list_name_text :: "list_name \<Rightarrow> string" where
  "list_name_text n = (case n of Notifications \<Rightarrow> ''notifications'' | AttentionRecords \<Rightarrow> ''attention_records''
     | CompletedBoard \<Rightarrow> ''completed_board'' | RowSessionStatuses \<Rightarrow> ''row_session_statuses''
     | ThreadSummaries \<Rightarrow> ''thread_summaries'' | MessageAttentionRecords \<Rightarrow> ''message_attention_records'')"

record 'a synced_list =
  sy_list :: "'a list option"
  sy_delta :: "'a list_delta option"
  sy_hash :: "string option"

type_synonym 'a received = "string \<rightharpoonup> 'a list \<times> string"

definition receivedKey :: "list_name \<Rightarrow> string \<Rightarrow> string" where
  "receivedKey n sid = list_name_text n @ [CHR 0x00] @ sid"

definition receivedListHash :: "list_name \<Rightarrow> string \<Rightarrow> 'a received \<Rightarrow> string option" where
  "receivedListHash n sid r = map_option snd (r (receivedKey n sid))"

definition receiveSyncedList ::
  "list_name \<Rightarrow> string \<Rightarrow> 'a synced_list \<Rightarrow> ('a \<Rightarrow> string) \<Rightarrow> 'a received \<Rightarrow> 'a list option \<times> 'a received" where
  "receiveSyncedList n sid synced idOf r =
     (let key = receivedKey n sid;
          list = (case sy_list synced of
              Some l \<Rightarrow> Some l
            | None \<Rightarrow> (case r key of
                None \<Rightarrow> None
              | Some (held, h) \<Rightarrow>
                  if sy_hash synced = Some h then Some held
                  else (case sy_delta synced of
                      None \<Rightarrow> None
                    | Some d \<Rightarrow> if h = ld_base d then applyKeyedListDelta idOf held d else None)))
      in (list, case (list, sy_hash synced) of (Some l, Some h) \<Rightarrow> r(key \<mapsto> (l, h)) | _ \<Rightarrow> r))"

definition forgetReceivedLists :: "string \<Rightarrow> 'a received \<Rightarrow> 'a received" where
  "forgetReceivedLists sid r = fold (\<lambda>n r. r(receivedKey n sid := None)) SYNCED_LIST_KINDS r"

text \<open>A server message as the browser reads it.\<close>

definition as_synced :: "'a list_sync \<Rightarrow> 'a synced_list" where
  "as_synced m = \<lparr>sy_list = ls_list m, sy_delta = ls_delta m, sy_hash = Some (ls_hash m)\<rparr>"

section \<open>The protocol\<close>

text \<open>
  The name of a list is its hash, or the hash of the value it is part of. On the lists the server
  ever has, names are assumed not to collide, nor are the hashes of their entries.
\<close>

definition list_hash_of :: "('a, 'x) list_kind_scheme \<Rightarrow> ('a list \<Rightarrow> string option) \<Rightarrow> 'a list \<Rightarrow> string" where
  "list_hash_of k own l = (case own l of Some h \<Rightarrow> h | None \<Rightarrow> listHash k l)"

definition collision_free :: "('a, 'x) list_kind_scheme \<Rightarrow> ('a list \<Rightarrow> string option) \<Rightarrow> 'a list set \<Rightarrow> bool" where
  "collision_free k own L \<longleftrightarrow> inj_on (list_hash_of k own) L \<and> inj_on (entry_hash k) (\<Union> (set ` L))"

text \<open>
  The server with the browsers of one list (browsers are numbered) and every message sent, with the
  list it was sent for.
\<close>

record 'a sync_system =
  sy_server :: list_versions
  sy_browsers :: "nat \<Rightarrow> 'a received"
  sy_sent :: "('a list \<times> 'a list_sync) list"

inductive sync_reach :: "('a, 'x) list_kind_scheme \<Rightarrow> ('a list \<Rightarrow> string option) \<Rightarrow> 'a list set \<Rightarrow> list_name \<Rightarrow> string \<Rightarrow> 'a sync_system \<Rightarrow> bool"
  for k own L n sid where
  init: "sync_reach k own L n sid \<lparr>sy_server = no_versions, sy_browsers = (\<lambda>i. Map.empty), sy_sent = []\<rparr>"
| answer: "sync_reach k own L n sid s \<Longrightarrow> c \<in> L \<Longrightarrow> sync k c held (own c) (sy_server s) = (m, v)
    \<Longrightarrow> sync_reach k own L n sid (s\<lparr>sy_server := v, sy_sent := (c, m) # sy_sent s\<rparr>)"
| broadcast: "sync_reach k own L n sid s \<Longrightarrow> c \<in> L \<Longrightarrow> broadcast k c (own c) (sy_server s) = (m, v)
    \<Longrightarrow> sync_reach k own L n sid (s\<lparr>sy_server := v, sy_sent := (c, m) # sy_sent s\<rparr>)"
| receive: "sync_reach k own L n sid s \<Longrightarrow> (c, m) \<in> set (sy_sent s)
    \<Longrightarrow> sync_reach k own L n sid (s\<lparr>sy_browsers := (sy_browsers s)(i :=
          snd (receiveSyncedList n sid (as_synced m) (lk_idOf k) (sy_browsers s i)))\<rparr>)"
| forget: "sync_reach k own L n sid s
    \<Longrightarrow> sync_reach k own L n sid (s\<lparr>sy_browsers := (sy_browsers s)(i := forgetReceivedLists sid' (sy_browsers s i))\<rparr>)"

text \<open>
  The invariant: every version the server remembers is the shape of one of its lists, every browser
  holds one of its lists under that list's name, and every message produces its list.
\<close>

definition versions_ok :: "('a, 'x) list_kind_scheme \<Rightarrow> ('a list \<Rightarrow> string option) \<Rightarrow> 'a list set \<Rightarrow> list_versions \<Rightarrow> bool" where
  "versions_ok k own L st \<longleftrightarrow> (\<forall>v \<in> set (vs_versions st). \<exists>l \<in> L. v = version_of k (list_hash_of k own l) l)
     \<and> length (vs_versions st) \<le> lk_limit k"

definition holds_ok :: "('a, 'x) list_kind_scheme \<Rightarrow> ('a list \<Rightarrow> string option) \<Rightarrow> 'a list set \<Rightarrow> string \<Rightarrow> 'a received \<Rightarrow> bool" where
  "holds_ok k own L key r \<longleftrightarrow> (case r key of None \<Rightarrow> True | Some (l, h) \<Rightarrow> l \<in> L \<and> h = list_hash_of k own l)"

definition message_ok :: "('a, 'x) list_kind_scheme \<Rightarrow> ('a list \<Rightarrow> string option) \<Rightarrow> 'a list set \<Rightarrow> 'a list \<Rightarrow> 'a list_sync \<Rightarrow> bool" where
  "message_ok k own L c m \<longleftrightarrow> c \<in> L \<and> ls_hash m = list_hash_of k own c \<and> (ls_list m = None \<or> ls_list m = Some c)
     \<and> (\<forall>d. ls_delta m = Some d \<longrightarrow> (\<exists>b \<in> L. ld_base d = list_hash_of k own b \<and> applyKeyedListDelta (lk_idOf k) b d = Some c))"

lemma remember_ok:
  assumes cf: "collision_free k own L" and st: "versions_ok k own L st" and c: "c \<in> L"
    and r: "remember k c (own c) st = (v, st')"
  shows "v = version_of k (list_hash_of k own c) c" "versions_ok k own L st'"
proof -
  let ?h = "list_hash_of k own c"
  have known: "w = version_of k ?h c" if "w \<in> set (vs_versions st)" "lv_hash w = ?h" for w
  proof -
    obtain l where l: "l \<in> L" "w = version_of k (list_hash_of k own l) l" using st \<open>w \<in> _\<close> by (auto simp: versions_ok_def)
    then have "list_hash_of k own l = ?h" using that(2) by (simp add: version_of_def)
    then have "l = c" using cf l(1) c by (simp add: collision_free_def inj_on_def)
    then show ?thesis using l by simp
  qed
  have push: "versions_ok k own L (push_version (lk_limit k) (version_of k ?h c) st)"
  proof -
    have "x \<in> set xs" if "x \<in> set (tl xs)" for x and xs :: "list_version list" using that by (cases xs) auto
    note tl = this [where xs = "vs_versions st @ [version_of k ?h c]"]
    show ?thesis using st c by (auto simp: versions_ok_def push_version_def Let_def dest!: tl)
  qed
  have last: "w \<in> set (vs_versions st)" if "last_version st = Some w" for w
    using that by (auto simp: last_version_def split: if_splits)
  have eff: "(case own c of Some h \<Rightarrow> h | None \<Rightarrow> listHash k c) = ?h" by (simp add: list_hash_of_def)
  show "v = version_of k ?h c"
  proof (cases "Option.bind (own c) (\<lambda>h. find_version h st)")
    case (Some w)
    then obtain h where h: "own c = Some h" "find_version h st = Some w" by (auto simp: bind_eq_Some_conv)
    then have "w \<in> set (vs_versions st)" "lv_hash w = h" by (auto simp: find_version_def find_Some_iff)
    then show ?thesis using known [of w] Some r h by (simp add: remember_def list_hash_of_def)
  next
    case None
    then show ?thesis using r known last
      by (auto simp: remember_def eff new_version_eq Let_def split: option.splits if_splits)
  qed
  show "versions_ok k own L st'"
    using r st push by (auto simp: remember_def eff new_version_eq Let_def split: option.splits if_splits)
qed

lemma sync_ok:
  assumes cf: "collision_free k own L" and st: "versions_ok k own L st" and c: "c \<in> L"
    and r: "sync k c held (own c) st = (m, st')"
  shows "versions_ok k own L st'" "message_ok k own L c m" "held \<noteq> Some (ls_hash m) \<or> (ls_list m = None \<and> ls_delta m = None)"
    "ls_list m = None \<longrightarrow> ls_delta m = None \<longrightarrow> held = Some (ls_hash m)"
    "\<forall>d. ls_delta m = Some d \<longrightarrow> held = Some (ld_base d)"
proof -
  let ?h = "list_hash_of k own c"
  obtain v st1 where rem: "remember k c (own c) st = (v, st1)" by (cases "remember k c (own c) st")
  note v = remember_ok [OF cf st c rem]
  have hv: "lv_hash v = ?h" by (simp add: v version_of_def)
  show "versions_ok k own L st'" using r rem v(2) by (auto simp: sync_def Let_def split: if_splits)
  have delta: "ld_hash d = ?h \<and> held = Some (ld_base d) \<and> (\<exists>b \<in> L. ld_base d = list_hash_of k own b \<and> applyKeyedListDelta (lk_idOf k) b d = Some c)"
    if d: "Option.bind (Option.bind held (\<lambda>g. find_version g st1)) (\<lambda>b. version_delta b v c) = Some d" for d
  proof -
    obtain g w where g: "held = Some g" "find_version g st1 = Some w" "version_delta w v c = Some d"
      using d by (auto simp: bind_eq_Some_conv)
    then have w: "w \<in> set (vs_versions st1)" "lv_hash w = g" by (auto simp: find_version_def find_Some_iff)
    then obtain b where b: "b \<in> L" "w = version_of k (list_hash_of k own b) b" using v(2) by (auto simp: versions_ok_def)
    have "inj_on (entry_hash k) (set b \<union> set c)"
      using cf b(1) c by (auto simp: collision_free_def intro: inj_on_subset)
    note ok = version_delta_correct [OF this g(3) [unfolded b(2) v(1)]]
    have "g = list_hash_of k own b" using w(2) b(2) by (simp add: version_of_def)
    then show ?thesis using ok b(1) g(1) by auto
  qed
  show "message_ok k own L c m" using r rem c hv delta
    by (auto simp: sync_def Let_def message_ok_def split: if_splits option.splits)
  show "held \<noteq> Some (ls_hash m) \<or> (ls_list m = None \<and> ls_delta m = None)"
    "ls_list m = None \<longrightarrow> ls_delta m = None \<longrightarrow> held = Some (ls_hash m)"
    "\<forall>d. ls_delta m = Some d \<longrightarrow> held = Some (ld_base d)"
    using r rem hv delta by (auto simp: sync_def Let_def split: if_splits option.splits)
qed

lemma receive_ok:
  assumes cf: "collision_free k own L" and m: "message_ok k own L c m" and r: "holds_ok k own L (receivedKey n sid) r"
  shows "fst (receiveSyncedList n sid (as_synced m) (lk_idOf k) r) \<in> {None, Some c}"
    "holds_ok k own L (receivedKey n sid) (snd (receiveSyncedList n sid (as_synced m) (lk_idOf k) r))"
proof -
  let ?list = "fst (receiveSyncedList n sid (as_synced m) (lk_idOf k) r)"
  have same: "l = c" if "l \<in> L" "list_hash_of k own l = ls_hash m" for l
    using cf m that by (simp add: collision_free_def message_ok_def inj_on_def)
  have base: "applyKeyedListDelta (lk_idOf k) l d = Some c" if l: "l \<in> L" "list_hash_of k own l = ld_base d" "ls_delta m = Some d" for l d
  proof -
    obtain b where b: "b \<in> L" "ld_base d = list_hash_of k own b" "applyKeyedListDelta (lk_idOf k) b d = Some c"
      using m l(3) by (auto simp: message_ok_def)
    then have "b = l" using cf l(1,2) by (simp add: collision_free_def inj_on_def)
    then show ?thesis using b(3) by simp
  qed
  show l: "?list \<in> {None, Some c}"
    using r m by (auto simp: receiveSyncedList_def as_synced_def holds_ok_def message_ok_def same base Let_def
      split: option.splits prod.splits)
  have "snd (receiveSyncedList n sid (as_synced m) (lk_idOf k) r)
      = (case ?list of None \<Rightarrow> r | Some l \<Rightarrow> r(receivedKey n sid \<mapsto> (l, ls_hash m)))"
    by (simp add: receiveSyncedList_def as_synced_def Let_def split: option.splits)
  then show "holds_ok k own L (receivedKey n sid) (snd (receiveSyncedList n sid (as_synced m) (lk_idOf k) r))"
    using l r m by (auto simp: holds_ok_def message_ok_def)
qed

lemma forget_ok: "holds_ok k own L key r \<Longrightarrow> holds_ok k own L key (forgetReceivedLists sid r)"
  by (auto simp: forgetReceivedLists_def SYNCED_LIST_KINDS_def holds_ok_def split: if_splits)

lemma sync_reach_ok:
  assumes cf: "collision_free k own L" and "sync_reach k own L n sid s"
  shows "versions_ok k own L (sy_server s) \<and> (\<forall>i. holds_ok k own L (receivedKey n sid) (sy_browsers s i))
    \<and> (\<forall>(c, m) \<in> set (sy_sent s). message_ok k own L c m)"
  using assms(2)
proof (induction rule: sync_reach.induct)
  case init
  then show ?case by (simp add: versions_ok_def no_versions_def holds_ok_def)
next
  case (answer s c held m v)
  then show ?case using sync_ok(1,2) [OF cf, of "sy_server s" c held m v] by auto
next
  case (broadcast s c m v)
  obtain v1 where v1: "sync k c (vs_broadcastBase (sy_server s)) (own c) (sy_server s) = (m, v1)"
    "v = v1\<lparr>vs_broadcastBase := Some (ls_hash m)\<rparr>"
    using broadcast.hyps(3) by (auto simp: broadcast_def Let_def split: prod.splits)
  then show ?case using sync_ok(1,2) [OF cf _ _ v1(1)] broadcast by (auto simp: versions_ok_def)
next
  case (receive s c m i)
  then have "message_ok k own L c m" by auto
  then show ?case using receive receive_ok(2) [OF cf] by auto
next
  case (forget s i sid')
  then show ?case by (simp add: forget_ok)
qed

text \<open>
  C33. A browser that applies any message the server ever sent for a list, in whatever order and
  after whatever losses, gets exactly the list the message was sent for, or asks again; and an
  answer computed against the hash the browser holds always gives the current list. The server
  remembers at most the given number of versions. (Hashes of the lists the server has are assumed
  not to collide.)
\<close>

theorem synced_lists_converge:
  assumes cf: "collision_free k own L" and s: "sync_reach k own L n sid s"
  shows "(\<forall>(c, m) \<in> set (sy_sent s). fst (receiveSyncedList n sid (as_synced m) (lk_idOf k) (sy_browsers s i)) \<in> {None, Some c})
    \<and> (\<forall>c \<in> L. fst (receiveSyncedList n sid
          (as_synced (fst (sync k c (receivedListHash n sid (sy_browsers s i)) (own c) (sy_server s)))) (lk_idOf k) (sy_browsers s i)) = Some c)
    \<and> length (vs_versions (sy_server s)) \<le> lk_limit k"
proof (intro conjI ballI)
  note inv = sync_reach_ok [OF cf s]
  let ?r = "sy_browsers s i"
  have r: "holds_ok k own L (receivedKey n sid) ?r" using inv by blast
  show "length (vs_versions (sy_server s)) \<le> lk_limit k" using inv by (simp add: versions_ok_def)
  show "case p of (c, m) \<Rightarrow> fst (receiveSyncedList n sid (as_synced m) (lk_idOf k) ?r) \<in> {None, Some c}" if "p \<in> set (sy_sent s)" for p
  proof -
    obtain c m where p: "p = (c, m)" by (cases p)
    then have "message_ok k own L c m" using inv that by fast
    then show ?thesis using receive_ok(1) [OF cf _ r] p by auto
  qed
  fix c assume c: "c \<in> L"
  let ?held = "receivedListHash n sid ?r"
  obtain m v where mv: "sync k c ?held (own c) (sy_server s) = (m, v)" by (cases "sync k c ?held (own c) (sy_server s)")
  note ok = sync_ok [OF cf _ c mv]
  have "fst (receiveSyncedList n sid (as_synced m) (lk_idOf k) ?r) \<noteq> None"
  proof (cases "ls_list m")
    case None
    show ?thesis
    proof (cases "ls_delta m")
      case None
      with \<open>ls_list m = None\<close> have "?held = Some (ls_hash m)" using ok inv by simp
      then show ?thesis using \<open>ls_list m = None\<close>
        by (auto simp: receivedListHash_def receiveSyncedList_def as_synced_def Let_def)
    next
      case (Some d)
      then have h: "?held = Some (ld_base d)" using ok inv by simp
      then obtain l where l: "?r (receivedKey n sid) = Some (l, ld_base d)" by (auto simp: receivedListHash_def)
      obtain b where b: "b \<in> L" "ld_base d = list_hash_of k own b" "applyKeyedListDelta (lk_idOf k) b d = Some c"
        using ok(2) inv Some by (auto simp: message_ok_def)
      have "l \<in> L" "list_hash_of k own l = ld_base d" using r l by (simp_all add: holds_ok_def)
      then have "l = b" using cf b by (simp add: collision_free_def inj_on_def)
      then show ?thesis using \<open>ls_list m = None\<close> Some l b
        by (simp add: receiveSyncedList_def as_synced_def Let_def)
    qed
  next
    case (Some l)
    then show ?thesis by (simp add: receiveSyncedList_def as_synced_def Let_def)
  qed
  then show "fst (receiveSyncedList n sid (as_synced (fst (sync k c ?held (own c) (sy_server s)))) (lk_idOf k) ?r) = Some c"
    using receive_ok(1) [OF cf ok(2) r] inv mv by auto
qed

definition word_lists :: "string list set" where
  "word_lists = {old_words, new_words}"

lemma word_lists_collision_free: "collision_free word_kind (\<lambda>l. None) word_lists"
proof -
  have "listHash word_kind l \<noteq> listHash word_kind m"
    if "length (join_with '','' l) \<noteq> length (join_with '','' m)" for l m
    using that by (auto simp: listHash_def word_kind_def dest: snapshotTextHash_length)
  then have "listHash word_kind old_words \<noteq> listHash word_kind new_words"
    by (simp add: old_words_def new_words_def)
  then show ?thesis using words_inj
    by (simp add: collision_free_def word_lists_def list_hash_of_def inj_on_def)
qed

text \<open>A browser that received the old words.\<close>

definition old_message :: "string list_sync" where
  "old_message = fst (sync word_kind old_words None None no_versions)"

lemma old_message_eq: "old_message = \<lparr>ls_hash = listHash word_kind old_words, ls_list = Some old_words, ls_delta = None\<rparr>"
  by (simp add: old_message_def sync_def remember_def last_version_def no_versions_def new_version_def Let_def)

definition word_system :: "string sync_system" where
  "word_system = \<lparr>sy_server = snd (sync word_kind old_words None None no_versions),
     sy_browsers = (\<lambda>i. Map.empty)(0 := snd (receiveSyncedList Notifications ''s'' (as_synced old_message) (lk_idOf word_kind) Map.empty)),
     sy_sent = [(old_words, old_message)]\<rparr>"

lemma word_system_reach: "sync_reach word_kind (\<lambda>l. None) word_lists Notifications ''s'' word_system"
proof -
  have "sync_reach word_kind (\<lambda>l. None) word_lists Notifications ''s''
      \<lparr>sy_server = snd (sync word_kind old_words None None no_versions), sy_browsers = (\<lambda>i. Map.empty), sy_sent = [(old_words, old_message)]\<rparr>"
    using sync_reach.answer [OF sync_reach.init, of old_words word_lists word_kind None "\<lambda>l. None"]
    by (simp add: old_message_def word_lists_def)
  from sync_reach.receive [OF this, of old_words old_message 0] show ?thesis by (simp add: word_system_def)
qed

theorem synced_lists_converge_witness:
  "receivedListHash Notifications ''s'' (sy_browsers word_system 0) = Some (listHash word_kind old_words)
   \<and> fst (receiveSyncedList Notifications ''s''
        (as_synced (fst (sync word_kind new_words (Some (listHash word_kind old_words)) None (sy_server word_system))))
        (take 1) (sy_browsers word_system 0)) = Some new_words"
proof -
  have h: "receivedListHash Notifications ''s'' (sy_browsers word_system 0) = Some (listHash word_kind old_words)"
    by (simp add: word_system_def old_message_eq receivedListHash_def receiveSyncedList_def as_synced_def)
  show ?thesis
    using synced_lists_converge [OF word_lists_collision_free word_system_reach, of 0] h
    by (simp add: word_lists_def word_kind_def [THEN arg_cong, of lk_idOf])
qed

end
