(* ===== verification/Delivery_Tracker.thy ===== *)
theory Delivery_Tracker
  imports Js_Json
begin

text \<open>
  Tracking of messages queued for a session that was not running
  (server/message-delivery-tracker.ts): the tracker's records and the probe that classifies a
  target. A probe's answer arrives in one step; the random id of a message is a parameter, and so
  are the launcher, the bridge's sessions and the hosts that the probe asks. Follow-ups to senders
  are a log.
\<close>

section \<open>Records\<close>

definition DELIVERY_WAIT_WINDOW_MS :: number where "DELIVERY_WAIT_WINDOW_MS = 20000"
definition STOPPED_GRACE_MS :: number where "STOPPED_GRACE_MS = 15000"
definition GIVE_UP_MS :: number where "GIVE_UP_MS = 10 * 60000"
definition RECORD_TTL_MS :: number where "RECORD_TTL_MS = 24 * 60 * 60000"
definition PREVIEW_CHARS :: nat where "PREVIEW_CHARS = 80"

datatype delivery_status = DPending | DQueued | DDelivered | DFailed

record delivery_record =
  dr_id :: string
  dr_targetSessionId :: string
  dr_senderSessionId :: string
  dr_preview :: string
  dr_questId :: "string option"
  dr_queuedAt :: number
  dr_status :: delivery_status
  dr_reason :: "string option"
  dr_settledAt :: "number option"
  dr_followUp :: bool

datatype delivery_wait = WStarting | WStopped | WPaused | WHostOffline

datatype delivery_probe = ProbeDelivered | ProbeGone string | ProbeWaiting string delivery_wait

text \<open>The watch of a record: when its target was first seen stopped.\<close>

record tracker_state =
  dt_records :: "(string \<times> delivery_record) list"
  dt_watch :: "(string \<times> number option) list"
  dt_launchFailures :: "(string \<times> string \<times> number) list"
  dt_timer :: bool
  dt_pushed :: "delivery_record list"

definition no_deliveries :: tracker_state where
  "no_deliveries = \<lparr>dt_records = [], dt_watch = [], dt_launchFailures = [], dt_timer = False, dt_pushed = []\<rparr>"

text \<open>\<open>replace(/\s+/g, " ")\<close>\<close>

fun collapse_spaces :: "string \<Rightarrow> string" where
  "collapse_spaces [] = []"
| "collapse_spaces (c # cs) =
     (if \<not> js_space c then c # collapse_spaces cs
      else case cs of d # ds \<Rightarrow> if js_space d then collapse_spaces cs else '' '' @ collapse_spaces cs | [] \<Rightarrow> '' '')"

definition preview_of :: "string \<Rightarrow> string" where
  "preview_of content =
     (let preview = trim (collapse_spaces content)
      in if PREVIEW_CHARS < length preview then take (PREVIEW_CHARS - 3) preview @ ''...'' else preview)"

record track_input =
  tk_targetSessionId :: string
  tk_senderSessionId :: string
  tk_content :: string
  tk_questId :: "string option"
  tk_followUp :: bool

definition put_record :: "delivery_record \<Rightarrow> tracker_state \<Rightarrow> tracker_state" where
  "put_record r s = s\<lparr>dt_records := AList.update (dr_id r) r (dt_records s)\<rparr>"

definition set_watch :: "string \<Rightarrow> number option \<Rightarrow> tracker_state \<Rightarrow> tracker_state" where
  "set_watch i w s = s\<lparr>dt_watch := AList.update i w (dt_watch s)\<rparr>"

definition unwatch :: "string \<Rightarrow> tracker_state \<Rightarrow> tracker_state" where
  "unwatch i s = s\<lparr>dt_watch := AList.delete i (dt_watch s)\<rparr>"

definition track :: "string \<Rightarrow> track_input \<Rightarrow> number \<Rightarrow> tracker_state \<Rightarrow> delivery_record \<times> tracker_state" where
  "track fresh input now s =
     (let r = \<lparr>dr_id = ''msg-'' @ fresh, dr_targetSessionId = tk_targetSessionId input, dr_senderSessionId = tk_senderSessionId input,
            dr_preview = preview_of (tk_content input), dr_questId = truthy (tk_questId input), dr_queuedAt = now,
            dr_status = DPending, dr_reason = Some ''the session is starting'', dr_settledAt = None, dr_followUp = tk_followUp input\<rparr>
      in (r, (set_watch (dr_id r) None (put_record r s))\<lparr>dt_timer := True\<rparr>))"

definition recordLaunchFailure :: "string \<Rightarrow> string \<Rightarrow> number \<Rightarrow> tracker_state \<Rightarrow> tracker_state" where
  "recordLaunchFailure sid message now s = s\<lparr>dt_launchFailures := AList.update sid (message, now) (dt_launchFailures s)\<rparr>"

definition settle_delivery :: "delivery_record \<Rightarrow> delivery_status \<Rightarrow> string option \<Rightarrow> number \<Rightarrow> tracker_state \<Rightarrow> tracker_state" where
  "settle_delivery r status reason now s =
     (let told = dr_status r \<in> {DQueued, DFailed};
          r' = r\<lparr>dr_status := status, dr_reason := reason, dr_settledAt := Some now\<rparr>;
          s1 = put_record r' s
      in if told \<and> dr_followUp r then s1\<lparr>dt_pushed := dt_pushed s1 @ [r']\<rparr> else s1)"

text \<open>\<open>evaluate\<close> once the probe answered; a probe that throws answers nothing.\<close>

definition window_over :: "delivery_record \<Rightarrow> number \<Rightarrow> delivery_record" where
  "window_over r now = (if dr_status r = DPending \<and> DELIVERY_WAIT_WINDOW_MS \<le> now - dr_queuedAt r then r\<lparr>dr_status := DQueued\<rparr> else r)"

definition evaluate_waiting :: "delivery_record \<Rightarrow> number option \<Rightarrow> string \<Rightarrow> delivery_wait \<Rightarrow> number \<Rightarrow> tracker_state \<Rightarrow> tracker_state" where
  "evaluate_waiting r stoppedSince reason wait now s =
     (let since = (case stoppedSince of None \<Rightarrow> now | Some t \<Rightarrow> t);
          s1 = set_watch (dr_id r) (if wait = WStopped then Some since else None) s;
          launchFailure = map_of (dt_launchFailures s) (dr_targetSessionId r)
      in if wait = WStopped \<and> (case launchFailure of Some (m, failedAt) \<Rightarrow> dr_queuedAt r \<le> failedAt | None \<Rightarrow> False)
         then settle_delivery r DFailed (map_option (\<lambda>(m, failedAt). ''relaunch failed: '' @ m) launchFailure) now s1
         else if wait = WStopped \<and> STOPPED_GRACE_MS \<le> now - since
         then settle_delivery r DFailed (Some ''the session stopped and is not being relaunched'') now s1
         else if wait \<noteq> WPaused \<and> GIVE_UP_MS \<le> now - dr_queuedAt r
         then settle_delivery r DFailed (Some (reason @ '' after 10 minutes'')) now s1
         else put_record (r\<lparr>dr_reason := Some reason\<rparr>) s1)"

definition evaluate :: "string \<Rightarrow> delivery_probe option \<Rightarrow> number \<Rightarrow> tracker_state \<Rightarrow> tracker_state" where
  "evaluate i answer now s =
     (case (map_of (dt_records s) i, map_of (dt_watch s) i, answer) of
        (Some r0, Some stoppedSince, Some probe) \<Rightarrow>
          let r = window_over r0 now
          in (case probe of
               ProbeDelivered \<Rightarrow> settle_delivery r DDelivered None now (unwatch i s)
             | ProbeGone reason \<Rightarrow>
                 if dr_status r \<noteq> DFailed then settle_delivery r DFailed (Some reason) now (unwatch i s)
                 else put_record r (unwatch i s)
             | ProbeWaiting reason wait \<Rightarrow>
                 if dr_status r = DFailed then put_record r s else evaluate_waiting r stoppedSince reason wait now s)
      | _ \<Rightarrow> s)"

text \<open>The status of a message, checked against its target first when it is watched.\<close>

definition delivery_status_of :: "string \<Rightarrow> delivery_probe option \<Rightarrow> number \<Rightarrow> tracker_state \<Rightarrow> delivery_record option \<times> tracker_state" where
  "delivery_status_of i answer now s = (let s1 = evaluate i answer now s in (map_of (dt_records s1) i, s1))"

definition describeTarget :: "string \<Rightarrow> tracker_state \<Rightarrow> delivery_record list \<times> (string \<times> number) option" where
  "describeTarget sid s =
     (filter (\<lambda>r. dr_targetSessionId r = sid \<and> dr_status r \<noteq> DDelivered \<and> map_of (dt_watch s) (dr_id r) \<noteq> None) (map snd (dt_records s)),
      map_of (dt_launchFailures s) sid)"

section \<open>The poll\<close>

definition forget_old :: "number \<Rightarrow> tracker_state \<Rightarrow> tracker_state" where
  "forget_old now s =
     (let old = map fst (filter (\<lambda>(i, r). RECORD_TTL_MS \<le> now - dr_queuedAt r) (dt_records s))
      in s\<lparr>dt_records := filter (\<lambda>(i, r). i \<notin> set old) (dt_records s), dt_watch := filter (\<lambda>(i, w). i \<notin> set old) (dt_watch s)\<rparr>)"

definition stop_if_idle :: "tracker_state \<Rightarrow> tracker_state" where
  "stop_if_idle s = (if dt_watch s = [] then s\<lparr>dt_timer := False\<rparr> else s)"

text \<open>One poll; the probe of a record answers by its target and sender.\<close>

definition tick :: "(string \<Rightarrow> string \<Rightarrow> delivery_probe option) \<Rightarrow> number \<Rightarrow> tracker_state \<Rightarrow> tracker_state" where
  "tick probe now s =
     (let s1 = forget_old now s
      in stop_if_idle (fold (\<lambda>i s. case map_of (dt_records s) i of None \<Rightarrow> s
           | Some r \<Rightarrow> evaluate i (probe (dr_targetSessionId r) (dr_senderSessionId r)) now s) (map fst (dt_watch s1)) s1))"

section \<open>The probe\<close>

datatype launch_state = LStarting | LConnected | LRunning | LExited

record launcher_info =
  li_archived :: bool
  li_state :: launch_state
  li_hostId :: "string option"

text \<open>
  A session of the bridge: the state of its backend, when it was paused, its adapters (whether each
  is connected) and the input held for it, as parsed from JSON where that is possible.
\<close>

record target_session =
  tg_backendState :: "string option"
  tg_pausedAt :: "number option"
  tg_codexAdapter :: "bool option"
  tg_claudeSdkAdapter :: "bool option"
  tg_pendingMessages :: "json option list"

record probe_deps =
  pd_launcher :: "string \<Rightarrow> launcher_info option"
  pd_bridge :: "string \<Rightarrow> target_session option"
  pd_hostIsOnline :: "string \<Rightarrow> bool"
  pd_hostName :: "string \<Rightarrow> string"

definition session_paused :: "target_session \<Rightarrow> bool" where
  "session_paused session \<longleftrightarrow> (case tg_pausedAt session of None \<Rightarrow> False | Some t \<Rightarrow> t \<noteq> 0)"

definition holdsInputFrom :: "target_session \<Rightarrow> string \<Rightarrow> bool" where
  "holdsInputFrom t sender = list_ex (\<lambda>m. case m of None \<Rightarrow> False
     | Some v \<Rightarrow> as_string (json_get v ''type'') = Some ''user_message''
         \<and> Option.bind (json_get v ''agentSource'') (\<lambda>src. as_string (json_get src ''sessionId'')) = Some sender) (tg_pendingMessages t)"

definition messageDeliveryProbe :: "probe_deps \<Rightarrow> string \<Rightarrow> string \<Rightarrow> delivery_probe" where
  "messageDeliveryProbe deps target sender =
     (case (pd_launcher deps target, pd_bridge deps target) of
        (Some info, Some session) \<Rightarrow>
          if li_archived info then ProbeGone ''the session was archived''
          else if tg_backendState session \<in> {Some ''broken'', Some ''recovery_suppressed''} then
            ProbeWaiting ''the session's recovery is paused until a manual Resume'' WStarting
          else if (case truthy (li_hostId info) of Some host \<Rightarrow> \<not> pd_hostIsOnline deps host | None \<Rightarrow> False) then
            ProbeWaiting (''host '' @ pd_hostName deps (the (li_hostId info)) @ '' is offline'') WHostOffline
          else if (tg_claudeSdkAdapter session = Some True \<or> tg_codexAdapter session = Some True) \<and> \<not> holdsInputFrom session sender then
            ProbeDelivered
          else if session_paused session then ProbeWaiting ''the session is paused'' WPaused
          else if li_state info = LExited then ProbeWaiting ''the session is stopped'' WStopped
          else ProbeWaiting ''the session is starting'' WStarting
      | _ \<Rightarrow> ProbeGone ''the session no longer exists'')"

section \<open>Follow-ups\<close>

definition pushes :: "string \<Rightarrow> delivery_status \<Rightarrow> tracker_state \<Rightarrow> nat" where
  "pushes i status s = length (filter (\<lambda>r. dr_id r = i \<and> dr_status r = status) (dt_pushed s))"

text \<open>Whether a record was settled when its sender no longer waited for the answer.\<close>

definition settled_late :: "delivery_record \<Rightarrow> bool" where
  "settled_late r \<longleftrightarrow> (case dr_settledAt r of None \<Rightarrow> False | Some t \<Rightarrow> DELIVERY_WAIT_WINDOW_MS \<le> t - dr_queuedAt r)"

definition record_ok :: "tracker_state \<Rightarrow> delivery_record \<Rightarrow> bool" where
  "record_ok s r \<longleftrightarrow>
     (let failed = pushes (dr_id r) DFailed s; delivered = pushes (dr_id r) DDelivered s; watched = map_of (dt_watch s) (dr_id r) \<noteq> None
      in (dr_followUp r \<or> failed = 0 \<and> delivered = 0) \<and> failed \<le> 1 \<and> delivered \<le> 1
        \<and> (case dr_status r of
             DPending \<Rightarrow> watched \<and> failed = 0 \<and> delivered = 0 \<and> dr_settledAt r = None
           | DQueued \<Rightarrow> watched \<and> failed = 0 \<and> delivered = 0 \<and> dr_settledAt r = None
           | DFailed \<Rightarrow> delivered = 0 \<and> dr_settledAt r \<noteq> None \<and> (dr_followUp r \<and> settled_late r \<longrightarrow> failed = 1)
           | DDelivered \<Rightarrow> \<not> watched \<and> dr_settledAt r \<noteq> None
               \<and> (dr_followUp r \<and> (settled_late r \<or> failed = 1) \<longrightarrow> delivered = 1)))"

definition tracker_ok :: "tracker_state \<Rightarrow> bool" where
  "tracker_ok s \<longleftrightarrow> (\<forall>i r. map_of (dt_records s) i = Some r \<longrightarrow> dr_id r = i \<and> record_ok s r)"

lemma tracker_updates [simp]:
  "map_of (dt_records (put_record r s)) = (map_of (dt_records s))(dr_id r \<mapsto> r)" "dt_watch (put_record r s) = dt_watch s"
  "dt_pushed (put_record r s) = dt_pushed s" "dt_launchFailures (put_record r s) = dt_launchFailures s"
  "map_of (dt_watch (set_watch i w s)) = (map_of (dt_watch s))(i \<mapsto> w)" "dt_records (set_watch i w s) = dt_records s"
  "dt_pushed (set_watch i w s) = dt_pushed s" "dt_launchFailures (set_watch i w s) = dt_launchFailures s"
  "map_of (dt_watch (unwatch i s)) = (map_of (dt_watch s))(i := None)" "dt_records (unwatch i s) = dt_records s"
  "dt_pushed (unwatch i s) = dt_pushed s" "dt_launchFailures (unwatch i s) = dt_launchFailures s"
  by (simp_all add: put_record_def set_watch_def unwatch_def update_conv' delete_conv')

lemma record_ok_same: "dt_watch s' = dt_watch s \<Longrightarrow> dt_pushed s' = dt_pushed s \<Longrightarrow> record_ok s' r = record_ok s r"
  by (simp add: record_ok_def pushes_def)

lemma record_ok_put [simp]: "record_ok (put_record q s) r = record_ok s r"
  by (simp add: record_ok_def pushes_def)

text \<open>A change to one record, its watch and its follow-ups leaves the others alone.\<close>

lemma record_ok_frame:
  assumes "\<And>j. j \<noteq> i \<Longrightarrow> map_of (dt_watch s') j = map_of (dt_watch s) j"
    "filter (\<lambda>p. dr_id p \<noteq> i) (dt_pushed s') = filter (\<lambda>p. dr_id p \<noteq> i) (dt_pushed s)" "dr_id r \<noteq> i"
  shows "record_ok s' r = record_ok s r"
proof -
  have split: "filter (\<lambda>p. dr_id p = dr_id r \<and> dr_status p = st) xs
      = filter (\<lambda>p. dr_id p = dr_id r \<and> dr_status p = st) (filter (\<lambda>p. dr_id p \<noteq> i) xs)" for st xs
    using assms(3) by (simp add: filter_filter) (metis)
  note split = this
  have "pushes (dr_id r) st s' = pushes (dr_id r) st s" for st
    unfolding pushes_def split [of st "dt_pushed s'"] split [of st "dt_pushed s"] assms(2) by (rule refl)
  then show ?thesis using assms(1,3) by (simp add: record_ok_def)
qed

lemma tracker_ok_change:
  assumes ok: "tracker_ok s" and i: "dr_id r = i" and r: "record_ok s' r"
    and records: "map_of (dt_records s') = (map_of (dt_records s))(i \<mapsto> r)"
    and watch: "\<And>j. j \<noteq> i \<Longrightarrow> map_of (dt_watch s') j = map_of (dt_watch s) j"
    and pushed: "filter (\<lambda>p. dr_id p \<noteq> i) (dt_pushed s') = filter (\<lambda>p. dr_id p \<noteq> i) (dt_pushed s)"
  shows "tracker_ok s'"
  unfolding tracker_ok_def
proof (intro allI impI)
  fix j q assume q: "map_of (dt_records s') j = Some q"
  show "dr_id q = j \<and> record_ok s' q"
  proof (cases "j = i")
    case True
    then show ?thesis using q records i r by simp
  next
    case False
    then have "map_of (dt_records s) j = Some q" using q records by simp
    then have "dr_id q = j" "record_ok s q" using ok by (auto simp: tracker_ok_def)
    then show ?thesis using record_ok_frame [OF watch pushed] False by simp
  qed
qed

lemma settle_fields [simp]:
  "map_of (dt_records (settle_delivery r st reason now s))
     = (map_of (dt_records s))(dr_id r \<mapsto> r\<lparr>dr_status := st, dr_reason := reason, dr_settledAt := Some now\<rparr>)"
  "dt_watch (settle_delivery r st reason now s) = dt_watch s"
  "dt_pushed (settle_delivery r st reason now s) = dt_pushed s @ (if dr_status r \<in> {DQueued, DFailed} \<and> dr_followUp r
     then [r\<lparr>dr_status := st, dr_reason := reason, dr_settledAt := Some now\<rparr>] else [])"
  by (simp_all add: settle_delivery_def Let_def)

lemma tracker_ok_window:
  assumes ok: "tracker_ok s" and r: "map_of (dt_records s) i = Some r"
  shows "dr_id (window_over r now) = i" "record_ok s (window_over r now)"
    "dr_status (window_over r now) = DPending \<Longrightarrow> now - dr_queuedAt r < DELIVERY_WAIT_WINDOW_MS"
    "dr_queuedAt (window_over r now) = dr_queuedAt r" "dr_followUp (window_over r now) = dr_followUp r"
proof -
  have o: "dr_id r = i" "record_ok s r" using ok r by (auto simp: tracker_ok_def)
  then show "dr_id (window_over r now) = i" "record_ok s (window_over r now)"
    by (auto simp: window_over_def record_ok_def settled_late_def Let_def)
  show "dr_status (window_over r now) = DPending \<Longrightarrow> now - dr_queuedAt r < DELIVERY_WAIT_WINDOW_MS"
    by (auto simp: window_over_def split: if_splits)
  show "dr_queuedAt (window_over r now) = dr_queuedAt r" "dr_followUp (window_over r now) = dr_followUp r"
    by (simp_all add: window_over_def)
qed

lemma settle_failed_ok:
  assumes "record_ok s r" "dr_status r \<noteq> DFailed" "dr_status r \<noteq> DDelivered" "map_of (dt_watch s') (dr_id r) = w" "dt_pushed s' = dt_pushed s"
    "dr_status r = DPending \<Longrightarrow> now - dr_queuedAt r < DELIVERY_WAIT_WINDOW_MS"
  shows "record_ok (settle_delivery r DFailed reason now s') (r\<lparr>dr_status := DFailed, dr_reason := reason, dr_settledAt := Some now\<rparr>)"
  using assms by (cases "dr_status r") (auto simp: record_ok_def pushes_def settled_late_def Let_def)

lemma settle_delivered_ok:
  assumes "record_ok s r" "dr_status r \<noteq> DDelivered" "map_of (dt_watch s') (dr_id r) = None" "dt_pushed s' = dt_pushed s"
    "dr_status r = DPending \<Longrightarrow> now - dr_queuedAt r < DELIVERY_WAIT_WINDOW_MS"
  shows "record_ok (settle_delivery r DDelivered reason now s') (r\<lparr>dr_status := DDelivered, dr_reason := reason, dr_settledAt := Some now\<rparr>)"
  using assms by (cases "dr_status r") (auto simp: record_ok_def pushes_def settled_late_def Let_def)

lemma evaluate_waiting_ok:
  assumes ok: "tracker_ok s" and r: "record_ok s r" and st: "dr_status r \<noteq> DFailed" "dr_status r \<noteq> DDelivered"
    and late: "dr_status r = DPending \<Longrightarrow> now - dr_queuedAt r < DELIVERY_WAIT_WINDOW_MS"
  shows "tracker_ok (evaluate_waiting r since reason wait now s)"
proof -
  define s1 where "s1 = set_watch (dr_id r) (if wait = WStopped then Some (case since of None \<Rightarrow> now | Some t \<Rightarrow> t) else None) s"
  have settle: "tracker_ok (settle_delivery r DFailed why now s1)" for why
    by (rule tracker_ok_change [OF ok _ settle_failed_ok [OF r st _ _ late], where i = "dr_id r"]) (use st in \<open>simp_all add: s1_def\<close>)
  have "record_ok s1 (r\<lparr>dr_reason := Some reason\<rparr>)"
    using r st by (cases "dr_status r") (auto simp: record_ok_def pushes_def Let_def s1_def)
  then have put: "tracker_ok (put_record (r\<lparr>dr_reason := Some reason\<rparr>) s1)"
    by (intro tracker_ok_change [OF ok, of "r\<lparr>dr_reason := Some reason\<rparr>" "dr_id r"]) (simp_all add: s1_def)
  show ?thesis unfolding evaluate_waiting_def Let_def s1_def [symmetric] using settle put by presburger
qed

lemma evaluate_ok:
  assumes ok: "tracker_ok s" shows "tracker_ok (evaluate i answer now s)"
proof (cases "\<exists>r0 since probe. map_of (dt_records s) i = Some r0 \<and> map_of (dt_watch s) i = Some since \<and> answer = Some probe")
  case False
  then have "evaluate i answer now s = s" by (auto simp: evaluate_def split: option.splits)
  then show ?thesis using ok by simp
next
  case True
  then obtain r0 since probe where e: "map_of (dt_records s) i = Some r0" "map_of (dt_watch s) i = Some since" "answer = Some probe" by blast
  define r where "r = window_over r0 now"
  note w = tracker_ok_window [OF ok e(1), of now, folded r_def]
  have nd: "dr_status r \<noteq> DDelivered" using w(1,2) e(2) by (auto simp: record_ok_def Let_def)
  show ?thesis
  proof (cases probe)
    case ProbeDelivered
    have "record_ok (settle_delivery r DDelivered None now (unwatch i s)) (r\<lparr>dr_status := DDelivered, dr_reason := None, dr_settledAt := Some now\<rparr>)"
      by (rule settle_delivered_ok [OF w(2) nd]) (use w in simp_all)
    then have "tracker_ok (settle_delivery r DDelivered None now (unwatch i s))"
      using w(1) by (intro tracker_ok_change [OF ok _ , of _ i]) simp_all
    then show ?thesis using e ProbeDelivered by (simp add: evaluate_def r_def Let_def)
  next
    case (ProbeGone reason)
    show ?thesis
    proof (cases "dr_status r = DFailed")
      case True
      then have "record_ok (put_record r (unwatch i s)) r" using w by (auto simp: record_ok_def pushes_def Let_def)
      then have "tracker_ok (put_record r (unwatch i s))" using w(1) by (intro tracker_ok_change [OF ok, of _ i]) simp_all
      then show ?thesis using e ProbeGone True by (simp add: evaluate_def r_def Let_def)
    next
      case False
      have "record_ok (settle_delivery r DFailed (Some reason) now (unwatch i s)) (r\<lparr>dr_status := DFailed, dr_reason := Some reason, dr_settledAt := Some now\<rparr>)"
        by (rule settle_failed_ok [OF w(2) False nd]) (use w in simp_all)
      then have "tracker_ok (settle_delivery r DFailed (Some reason) now (unwatch i s))"
        using w(1) by (intro tracker_ok_change [OF ok _ , of _ i]) simp_all
      then show ?thesis using e ProbeGone False by (simp add: evaluate_def r_def Let_def)
    qed
  next
    case (ProbeWaiting reason wait)
    show ?thesis
    proof (cases "dr_status r = DFailed")
      case True
      then have "record_ok (put_record r s) r" using w by (auto simp: record_ok_def pushes_def Let_def)
      then have "tracker_ok (put_record r s)" using w(1) by (intro tracker_ok_change [OF ok, of _ i]) simp_all
      then show ?thesis using e ProbeWaiting True by (simp add: evaluate_def r_def Let_def)
    next
      case False
      have "tracker_ok (evaluate_waiting r since reason wait now s)"
        by (rule evaluate_waiting_ok [OF ok w(2) False nd]) (use w in simp)
      then show ?thesis using e ProbeWaiting False by (simp add: evaluate_def r_def Let_def)
    qed
  qed
qed

section \<open>Reachable states\<close>

text \<open>
  The operations, an evaluation being one step once its probe answered; a message's random id is
  one that no message had before.
\<close>

inductive delivery_reach :: "tracker_state \<Rightarrow> bool" where
  init: "delivery_reach no_deliveries"
| track: "delivery_reach s \<Longrightarrow> map_of (dt_records s) (''msg-'' @ fresh) = None
    \<Longrightarrow> list_all (\<lambda>p. dr_id p \<noteq> ''msg-'' @ fresh) (dt_pushed s) \<Longrightarrow> delivery_reach (snd (track fresh input now s))"
| launch_failure: "delivery_reach s \<Longrightarrow> delivery_reach (recordLaunchFailure sid message now s)"
| evaluate: "delivery_reach s \<Longrightarrow> delivery_reach (evaluate i answer now s)"
| forget: "delivery_reach s \<Longrightarrow> delivery_reach (forget_old now s)"
| idle: "delivery_reach s \<Longrightarrow> delivery_reach (stop_if_idle s)"

lemma map_of_filter_keys: "map_of (filter (\<lambda>(i, x). P i) xs) i = (if P i then map_of xs i else None)"
  by (induction xs) auto

lemma forget_old_views:
  defines "old s now \<equiv> set (map fst (filter (\<lambda>(i, r). RECORD_TTL_MS \<le> now - dr_queuedAt r) (dt_records s)))"
  shows "map_of (dt_records (forget_old now s)) i = (if i \<notin> old s now then map_of (dt_records s) i else None)"
    "map_of (dt_watch (forget_old now s)) i = (if i \<notin> old s now then map_of (dt_watch s) i else None)"
    "dt_pushed (forget_old now s) = dt_pushed s"
  by (simp_all add: forget_old_def Let_def map_of_filter_keys old_def)

lemma delivery_reach_ok: "delivery_reach s \<Longrightarrow> tracker_ok s"
proof (induction rule: delivery_reach.induct)
  case init
  then show ?case by (simp add: tracker_ok_def no_deliveries_def)
next
  case (track s fresh input now)
  let ?r = "fst (track fresh input now s)"
  have r: "dr_id ?r = ''msg-'' @ fresh" "dr_status ?r = DPending" "dr_settledAt ?r = None" by (simp_all add: track_def Let_def)
  have s: "snd (track fresh input now s) = (set_watch (dr_id ?r) None (put_record ?r s))\<lparr>dt_timer := True\<rparr>"
    by (simp add: track_def Let_def)
  have "filter (\<lambda>p. dr_id p = dr_id ?r \<and> dr_status p = st) (dt_pushed s) = []" for st
    using track.hyps(3) r(1) by (auto simp: filter_empty_conv list_all_iff)
  then have "record_ok (snd (track fresh input now s)) ?r"
    using r unfolding s by (simp add: record_ok_def pushes_def)
  then show ?case
    by (intro tracker_ok_change [OF track.IH, of ?r "dr_id ?r"]) (simp_all add: s)
next
  case (launch_failure s sid message now)
  have "record_ok (recordLaunchFailure sid message now s) r = record_ok s r" for r
    by (rule record_ok_same) (simp_all add: recordLaunchFailure_def)
  then show ?case using launch_failure.IH by (simp add: tracker_ok_def) (simp add: recordLaunchFailure_def)
next
  case (evaluate s i answer now)
  show ?case by (rule evaluate_ok [OF evaluate.IH])
next
  case (forget s now)
  have "record_ok (forget_old now s) r" if "record_ok s r" "map_of (dt_records (forget_old now s)) (dr_id r) = Some r" for r
    using that forget_old_views(1,2) [where s = s and now = now and i = "dr_id r"] forget_old_views(3) [of now s]
    by (simp add: record_ok_def pushes_def split: if_splits)
  then show ?case using forget.IH by (auto simp: tracker_ok_def forget_old_views(1) split: if_splits)
next
  case (idle s)
  have "record_ok (stop_if_idle s) r = record_ok s r" for r
    by (rule record_ok_same) (simp_all add: stop_if_idle_def)
  then show ?case using idle.IH by (simp add: tracker_ok_def) (simp add: stop_if_idle_def)
qed

lemma tick_reach: "delivery_reach s \<Longrightarrow> delivery_reach (tick probe now s)"
proof -
  have "delivery_reach (fold (\<lambda>i s. case map_of (dt_records s) i of None \<Rightarrow> s
      | Some r \<Rightarrow> evaluate i (probe (dr_targetSessionId r) (dr_senderSessionId r)) now s) xs s)" if "delivery_reach s" for xs s
    using that by (induction xs arbitrary: s) (auto intro: delivery_reach.evaluate split: option.splits)
  then show "delivery_reach s \<Longrightarrow> delivery_reach (tick probe now s)"
    by (simp add: tick_def Let_def delivery_reach.idle delivery_reach.forget)
qed

lemma evaluate_pushed: "\<exists>ps. dt_pushed (evaluate i answer now s) = dt_pushed s @ ps
    \<and> (\<forall>p \<in> set ps. dr_followUp p \<and> dr_status p \<in> {DDelivered, DFailed})"
  by (auto simp: evaluate_def evaluate_waiting_def Let_def split: option.splits delivery_probe.splits)

lemma pushes_final: "delivery_reach s \<Longrightarrow> \<forall>p \<in> set (dt_pushed s). dr_followUp p \<and> dr_status p \<in> {DDelivered, DFailed}"
proof (induction rule: delivery_reach.induct)
  case (evaluate s i answer now)
  then show ?case using evaluate_pushed [of i answer now s] by auto
qed (simp_all add: no_deliveries_def track_def Let_def recordLaunchFailure_def forget_old_views stop_if_idle_def)

text \<open>
  C37. A sender is pushed an outcome only if it asked for follow-ups, at most once a failure and at
  most once a delivery for a message, and nothing while the message is open; and it misses none: a
  message that was settled when the sender no longer waited, or delivered after a failure it was
  told of, has its push. An open message is watched, a delivered one no longer is.
\<close>

theorem outcomes_pushed_once:
  assumes "delivery_reach s" "map_of (dt_records s) i = Some r"
  shows "(dr_followUp r \<or> pushes i DFailed s = 0 \<and> pushes i DDelivered s = 0)
    \<and> pushes i DFailed s \<le> 1 \<and> pushes i DDelivered s \<le> 1 \<and> pushes i DPending s = 0 \<and> pushes i DQueued s = 0
    \<and> (case dr_status r of
         DPending \<Rightarrow> map_of (dt_watch s) i \<noteq> None \<and> pushes i DFailed s = 0 \<and> pushes i DDelivered s = 0
       | DQueued \<Rightarrow> map_of (dt_watch s) i \<noteq> None \<and> pushes i DFailed s = 0 \<and> pushes i DDelivered s = 0
       | DFailed \<Rightarrow> pushes i DDelivered s = 0 \<and> (dr_followUp r \<and> settled_late r \<longrightarrow> pushes i DFailed s = 1)
       | DDelivered \<Rightarrow> map_of (dt_watch s) i = None
           \<and> (dr_followUp r \<and> (settled_late r \<or> pushes i DFailed s = 1) \<longrightarrow> pushes i DDelivered s = 1))"
proof -
  have ok: "dr_id r = i" "record_ok s r" using delivery_reach_ok [OF assms(1)] assms(2) by (auto simp: tracker_ok_def)
  have "pushes i st s = 0" if "st \<notin> {DDelivered, DFailed}" for st
    using pushes_final [OF assms(1)] that by (auto simp: pushes_def filter_empty_conv)
  then show ?thesis using ok by (cases "dr_status r") (auto simp: record_ok_def Let_def)
qed

text \<open>
  C38. An evaluation whose probe answers decides a watched message completely. It is delivered when
  the target got it, and failed for the probe's reason when the target is gone. While the target keeps
  it waiting, an open message fails exactly when the target is stopped and its relaunch failed after
  the message was queued, or it has been seen stopped for fifteen seconds, or, unless it is paused,
  ten minutes have passed; otherwise the message stays open with the probe's reason, pending within
  the sender's twenty seconds and queued after them. A failed message is failed only once, and no
  other message changes.
\<close>

theorem evaluation_settles:
  fixes now :: number and wait :: delivery_wait
  assumes "map_of (dt_records s) i = Some r" "map_of (dt_watch s) i = Some since" "delivery_reach s"
  defines "after \<equiv> \<lambda>probe. map_of (dt_records (evaluate i (Some probe) now s)) i"
    and "relaunch_failed \<equiv> wait = WStopped
        \<and> (\<exists>m t. map_of (dt_launchFailures s) (dr_targetSessionId r) = Some (m, t) \<and> dr_queuedAt r \<le> t)"
    and "stopped_long \<equiv> wait = WStopped \<and> (\<exists>t. since = Some t \<and> 15000 \<le> now - t)"
    and "overdue \<equiv> wait \<noteq> WPaused \<and> 600000 \<le> now - dr_queuedAt r"
  shows "after ProbeDelivered = Some (r\<lparr>dr_status := DDelivered, dr_reason := None, dr_settledAt := Some now\<rparr>)
    \<and> after (ProbeGone why) = Some (if dr_status r = DFailed then r
        else r\<lparr>dr_status := DFailed, dr_reason := Some why, dr_settledAt := Some now\<rparr>)
    \<and> (dr_status r = DFailed \<longrightarrow> after (ProbeWaiting why wait) = Some r)
    \<and> (dr_status r \<noteq> DFailed \<and> (relaunch_failed \<or> stopped_long \<or> overdue) \<longrightarrow>
        (\<exists>reason. after (ProbeWaiting why wait) = Some (r\<lparr>dr_status := DFailed, dr_reason := Some reason, dr_settledAt := Some now\<rparr>)
          \<and> (relaunch_failed \<longrightarrow> starts_with ''relaunch failed: '' reason)
          \<and> (\<not> relaunch_failed \<and> \<not> stopped_long \<longrightarrow> reason = why @ '' after 10 minutes'')))
    \<and> (dr_status r \<noteq> DFailed \<and> \<not> relaunch_failed \<and> \<not> stopped_long \<and> \<not> overdue \<longrightarrow>
        after (ProbeWaiting why wait) = Some (r\<lparr>dr_status := (if dr_status r = DPending \<and> now - dr_queuedAt r < 20000 then DPending else DQueued),
          dr_reason := Some why\<rparr>))
    \<and> (\<forall>j probe. j \<noteq> i \<longrightarrow> map_of (dt_records (evaluate i (Some probe) now s)) j = map_of (dt_records s) j)"
proof -
  have ok: "dr_id r = i" "record_ok s r" using delivery_reach_ok [OF assms(3)] assms(1) by (auto simp: tracker_ok_def)
  have live: "dr_status r \<noteq> DDelivered" using ok assms(2) by (auto simp: record_ok_def Let_def)
  have failed: "dr_status (window_over r now) = DFailed \<longleftrightarrow> dr_status r = DFailed" by (simp add: window_over_def)
  have same: "dr_status r = DFailed \<Longrightarrow> window_over r now = r" by (simp add: window_over_def)
  have w: "dr_id (window_over r now) = i" "dr_queuedAt (window_over r now) = dr_queuedAt r"
    "dr_targetSessionId (window_over r now) = dr_targetSessionId r"
    "window_over r now\<lparr>dr_status := st, dr_reason := why, dr_settledAt := at'\<rparr> = r\<lparr>dr_status := st, dr_reason := why, dr_settledAt := at'\<rparr>"
    for st why at' using ok by (simp_all add: window_over_def)
  have waiting: "after (ProbeWaiting why wait) = map_of (dt_records (evaluate_waiting (window_over r now) since why wait now s)) i"
    if "dr_status r \<noteq> DFailed" using assms(1,2) failed that by (simp add: after_def evaluate_def Let_def)
  have stopped: "wait = WStopped \<and> STOPPED_GRACE_MS \<le> now - (case since of None \<Rightarrow> now | Some t \<Rightarrow> t) \<longleftrightarrow> stopped_long"
    by (auto simp: stopped_long_def STOPPED_GRACE_MS_def split: option.splits)
  have relaunch: "wait = WStopped \<and> (case map_of (dt_launchFailures s) (dr_targetSessionId r) of
      Some (m, failedAt) \<Rightarrow> dr_queuedAt (window_over r now) \<le> failedAt | None \<Rightarrow> False) \<longleftrightarrow> relaunch_failed"
    by (auto simp: relaunch_failed_def w(2) split: option.splits)
  have late: "wait \<noteq> WPaused \<and> GIVE_UP_MS \<le> now - dr_queuedAt r \<longleftrightarrow> overdue" by (simp add: overdue_def GIVE_UP_MS_def)
  show ?thesis
  proof (intro conjI impI allI)
    show "after ProbeDelivered = Some (r\<lparr>dr_status := DDelivered, dr_reason := None, dr_settledAt := Some now\<rparr>)"
      using assms(1,2) w by (simp add: after_def evaluate_def Let_def)
    show "after (ProbeGone why) = Some (if dr_status r = DFailed then r
        else r\<lparr>dr_status := DFailed, dr_reason := Some why, dr_settledAt := Some now\<rparr>)"
      using assms(1,2) w failed same by (simp add: after_def evaluate_def Let_def)
    show "after (ProbeWaiting why wait) = Some r" if "dr_status r = DFailed"
      using assms(1,2) same that ok by (simp add: after_def evaluate_def Let_def)
    show "\<exists>reason. after (ProbeWaiting why wait) = Some (r\<lparr>dr_status := DFailed, dr_reason := Some reason, dr_settledAt := Some now\<rparr>)
          \<and> (relaunch_failed \<longrightarrow> starts_with ''relaunch failed: '' reason)
          \<and> (\<not> relaunch_failed \<and> \<not> stopped_long \<longrightarrow> reason = why @ '' after 10 minutes'')"
      if f: "dr_status r \<noteq> DFailed \<and> (relaunch_failed \<or> stopped_long \<or> overdue)"
    proof (cases "relaunch_failed")
      case True
      then obtain m t where m: "map_of (dt_launchFailures s) (dr_targetSessionId r) = Some (m, t)" "dr_queuedAt r \<le> t" "wait = WStopped"
        by (auto simp: relaunch_failed_def)
      have "after (ProbeWaiting why wait)
          = Some (r\<lparr>dr_status := DFailed, dr_reason := Some (''relaunch failed: '' @ m), dr_settledAt := Some now\<rparr>)"
        unfolding waiting [OF conjunct1 [OF f]] using m by (simp add: evaluate_waiting_def Let_def w)
      moreover have "starts_with ''relaunch failed: '' (''relaunch failed: '' @ m)" by (simp add: starts_with_def)
      ultimately show ?thesis using True by blast
    next
      case False
      then consider "stopped_long" | "\<not> stopped_long" "overdue" using f by blast
      then show ?thesis
      proof cases
        case 1
        have "after (ProbeWaiting why wait) = Some (r\<lparr>dr_status := DFailed,
            dr_reason := Some ''the session stopped and is not being relaunched'', dr_settledAt := Some now\<rparr>)"
          using f False 1 by (simp add: waiting evaluate_waiting_def Let_def w relaunch stopped late)
        then show ?thesis using False 1 by blast
      next
        case 2
        then show ?thesis using f False by (simp add: waiting evaluate_waiting_def Let_def w relaunch stopped late)
      qed
    qed
    show "after (ProbeWaiting why wait) = Some (r\<lparr>dr_status := (if dr_status r = DPending \<and> now - dr_queuedAt r < 20000 then DPending else DQueued),
          dr_reason := Some why\<rparr>)"
      if f: "dr_status r \<noteq> DFailed \<and> \<not> relaunch_failed \<and> \<not> stopped_long \<and> \<not> overdue"
    proof -
      have "window_over r now = r\<lparr>dr_status := (if dr_status r = DPending \<and> now - dr_queuedAt r < 20000 then DPending else DQueued)\<rparr>"
        using live f by (cases "dr_status r") (auto simp: window_over_def DELIVERY_WAIT_WINDOW_MS_def)
      moreover have "after (ProbeWaiting why wait) = Some (window_over r now\<lparr>dr_reason := Some why\<rparr>)"
        using f by (simp add: waiting evaluate_waiting_def Let_def w(1-3) relaunch stopped late)
      ultimately show ?thesis by simp
    qed
    show "map_of (dt_records (evaluate i (Some probe) now s)) j = map_of (dt_records s) j" if "j \<noteq> i" for j probe
      using assms(1,2) that w by (cases probe) (simp_all add: evaluate_def evaluate_waiting_def Let_def)
  qed
qed

text \<open>A message queued at 0 that is found delivered after half a minute.\<close>

definition demo_tracked :: tracker_state where
  "demo_tracked = snd (track ''00000001'' \<lparr>tk_targetSessionId = ''b'', tk_senderSessionId = ''a'', tk_content = ''hello'',
     tk_questId = None, tk_followUp = True\<rparr> 0 no_deliveries)"

definition demo_delivered :: tracker_state where
  "demo_delivered = evaluate ''msg-00000001'' (Some ProbeDelivered) 30000 demo_tracked"

lemma demo_tracked_reach: "delivery_reach demo_tracked"
  unfolding demo_tracked_def by (intro delivery_reach.intros) (simp_all add: no_deliveries_def)

lemma demo_tracked_record:
  "\<exists>r. map_of (dt_records demo_tracked) ''msg-00000001'' = Some r \<and> dr_queuedAt r = 0 \<and> dr_followUp r \<and> dr_status r = DPending \<and> dr_id r = ''msg-00000001''"
  "map_of (dt_watch demo_tracked) ''msg-00000001'' = Some None"
  by (simp_all add: demo_tracked_def track_def Let_def)

theorem outcomes_pushed_once_witness: "pushes ''msg-00000001'' DDelivered demo_delivered = 1"
proof -
  obtain r where r: "map_of (dt_records demo_tracked) ''msg-00000001'' = Some r" "dr_queuedAt r = 0" "dr_followUp r"
    "dr_status r = DPending" "dr_id r = ''msg-00000001''"
    using demo_tracked_record(1) by blast
  define q where "q = r\<lparr>dr_status := DDelivered, dr_reason := None, dr_settledAt := Some 30000\<rparr>"
  have "map_of (dt_records demo_delivered) ''msg-00000001'' = Some q"
    using r demo_tracked_record(2)
    by (simp add: demo_delivered_def evaluate_def Let_def window_over_def DELIVERY_WAIT_WINDOW_MS_def q_def)
  moreover have "delivery_reach demo_delivered"
    unfolding demo_delivered_def by (rule delivery_reach.evaluate [OF demo_tracked_reach])
  ultimately show ?thesis using outcomes_pushed_once [of demo_delivered "''msg-00000001''" q] r
    by (simp add: q_def settled_late_def DELIVERY_WAIT_WINDOW_MS_def)
qed

theorem evaluation_settles_witness:
  "map_option (\<lambda>r. (dr_status r, dr_reason r)) (map_of (dt_records (evaluate ''msg-00000001''
      (Some (ProbeWaiting ''the session is paused'' WPaused)) 700000 demo_tracked)) ''msg-00000001'')
     = Some (DQueued, Some ''the session is paused'')"
proof -
  obtain r where r: "map_of (dt_records demo_tracked) ''msg-00000001'' = Some r" "dr_queuedAt r = 0" "dr_status r = DPending"
    using demo_tracked_record(1) by blast
  show ?thesis
    using evaluation_settles [OF r(1) demo_tracked_record(2) demo_tracked_reach, where wait = WPaused and now = 700000 and why = "''the session is paused''"] r(2,3)
    by simp
qed

section \<open>What counts as delivered\<close>

text \<open>
  A target got the messages of a sender exactly when it exists and is not archived, its backend
  is neither broken nor held from recovery, its host is online, one of its adapters is connected,
  and the server holds no input of that sender for it.
\<close>

theorem probe_delivered:
  "messageDeliveryProbe deps target sender = ProbeDelivered \<longleftrightarrow>
     (\<exists>info session. pd_launcher deps target = Some info \<and> pd_bridge deps target = Some session
       \<and> \<not> li_archived info \<and> tg_backendState session \<notin> {Some ''broken'', Some ''recovery_suppressed''}
       \<and> \<not> (\<exists>host. truthy (li_hostId info) = Some host \<and> \<not> pd_hostIsOnline deps host)
       \<and> (tg_claudeSdkAdapter session = Some True \<or> tg_codexAdapter session = Some True)
       \<and> \<not> holdsInputFrom session sender)"
  by (auto simp: messageDeliveryProbe_def split: option.splits)

end
