(* ===== verification/Thread_Tabs.thy ===== *)
theory Thread_Tabs
  imports Js_Json Thread_Keys
begin

text \<open>
  The open thread tabs of a leader's session (shared/leader-open-thread-tabs.ts): the state both the
  server and the browsers reduce over, its normalisation, and the updates by users and by server
  events. The order of strings by \<open>localeCompare\<close> is a parameter.
\<close>

section \<open>State\<close>

definition MAX_LEADER_OPEN_THREAD_TABS :: nat where "MAX_LEADER_OPEN_THREAD_TABS = 50"
definition MAX_LEADER_CLOSED_THREAD_TOMBSTONES :: nat where "MAX_LEADER_CLOSED_THREAD_TOMBSTONES = 200"
definition MAX_LEADER_SERVER_CANDIDATE_PROMOTIONS :: nat where "MAX_LEADER_SERVER_CANDIDATE_PROMOTIONS = 200"

type_synonym tombstone = "string \<times> number"   \<comment> \<open>threadKey, closedAt\<close>

record tabs_state =
  tb_ordered :: "string list"
  tb_tombstones :: "tombstone list"
  tb_updatedAt :: number
  tb_migratedAt :: "number option"
  tb_explicitAt :: "number option"
  tb_latestEventAt :: "number option"
  tb_promotedAt :: "number jsobj option"

datatype tab_placement = PlaceFirst | PlaceLast | PlaceBefore

record candidate_options =
  co_reposition :: bool
  co_placement :: "tab_placement option"
  co_before :: "string set"
  co_reopen :: bool   \<comment> \<open>allowTombstoneReopen !== false\<close>

type_synonym locale_compare = "string \<Rightarrow> string \<Rightarrow> int"

section \<open>Normalisation\<close>

text \<open>\<open>normalizeSelectedFeedThreadKey\<close> of shared/thread-window.ts.\<close>

definition normalizeLeaderThreadKey :: "string \<Rightarrow> string" where
  "normalizeLeaderThreadKey threadKey =
     (let normalized = lower (trim threadKey)
      in case normalizeTopicKey normalized of Some key \<Rightarrow> key
         | None \<Rightarrow> if normalized = [] then ''main'' else normalized)"

definition shouldPersistLeaderThreadTab :: "string \<Rightarrow> bool" where
  "shouldPersistLeaderThreadTab threadKey \<longleftrightarrow> normalizeLeaderThreadKey threadKey \<notin> {''main'', ''all''}"

definition validTimestamp :: "jsnum option \<Rightarrow> number option" where
  "validTimestamp v = (case v of Some (Fin q) \<Rightarrow> Some (max 0 q) | _ \<Rightarrow> None)"

definition raw_tab_key :: "json \<Rightarrow> string option" where
  "raw_tab_key v = truthy (case v of JStr s \<Rightarrow> Some s
     | _ \<Rightarrow> (case as_string (json_get v ''threadKey'') of Some s \<Rightarrow> Some s | None \<Rightarrow> as_string (json_get v ''questId'')))"

fun open_keys :: "string list \<Rightarrow> json list \<Rightarrow> string list" where
  "open_keys acc [] = acc"
| "open_keys acc (v # vs) =
     (case raw_tab_key v of
        None \<Rightarrow> open_keys acc vs
      | Some raw \<Rightarrow>
          let key = normalizeLeaderThreadKey raw
          in if \<not> shouldPersistLeaderThreadTab key \<or> key \<in> set acc then open_keys acc vs
             else if length (acc @ [key]) = MAX_LEADER_OPEN_THREAD_TABS then acc @ [key]
             else open_keys (acc @ [key]) vs)"

definition normalizeLeaderOpenThreadKeys :: "json list \<Rightarrow> string list" where
  "normalizeLeaderOpenThreadKeys vs = open_keys [] vs"

abbreviation normalize_keys :: "string list \<Rightarrow> string list" where
  "normalize_keys ks \<equiv> normalizeLeaderOpenThreadKeys (map JStr ks)"

text \<open>The tombstones among the elements of an array, by their key and validated time.\<close>

definition tombstone_fields :: "json \<Rightarrow> (string \<times> number option) list" where
  "tombstone_fields v = (if json_is_object v
     then [(case as_string (json_get v ''threadKey'') of Some k \<Rightarrow> normalizeLeaderThreadKey k | None \<Rightarrow> [],
            validTimestamp (as_number (json_get v ''closedAt'')))]
     else [])"

fun collect_tombstones :: "tombstone list \<Rightarrow> (string \<times> number option) list \<Rightarrow> tombstone list" where
  "collect_tombstones acc [] = acc"
| "collect_tombstones acc ((key, closedAt) # rest) =
     (case closedAt of
        None \<Rightarrow> collect_tombstones acc rest
      | Some t \<Rightarrow> if \<not> shouldPersistLeaderThreadTab key \<or> key \<in> fst ` set acc then collect_tombstones acc rest
          else collect_tombstones (acc @ [(key, t)]) rest)"

definition newest_tombstones :: "tombstone list \<Rightarrow> tombstone list" where
  "newest_tombstones ts = take MAX_LEADER_CLOSED_THREAD_TOMBSTONES (sort_key (\<lambda>(k, t). - t) ts)"

definition normalizeClosedThreadTombstones :: "json option \<Rightarrow> tombstone list" where
  "normalizeClosedThreadTombstones v = (case as_array v of None \<Rightarrow> []
     | Some vs \<Rightarrow> newest_tombstones (collect_tombstones [] (concat (map tombstone_fields vs))))"

text \<open>The same, of tombstones the state already has.\<close>

definition normalize_tombstones :: "tombstone list \<Rightarrow> tombstone list" where
  "normalize_tombstones ts = newest_tombstones (collect_tombstones [] (map (\<lambda>(k, t). (normalizeLeaderThreadKey k, Some (max 0 t))) ts))"

text \<open>A stable sort by a comparison.\<close>

fun insert_by :: "('a \<Rightarrow> 'a \<Rightarrow> int) \<Rightarrow> 'a \<Rightarrow> 'a list \<Rightarrow> 'a list" where
  "insert_by cmp x [] = [x]"
| "insert_by cmp x (y # ys) = (if cmp x y \<le> 0 then x # y # ys else y # insert_by cmp x ys)"

definition sort_by :: "('a \<Rightarrow> 'a \<Rightarrow> int) \<Rightarrow> 'a list \<Rightarrow> 'a list" where
  "sort_by cmp xs = foldr (insert_by cmp) xs []"

definition promotion_order :: "locale_compare \<Rightarrow> string \<times> number \<Rightarrow> string \<times> number \<Rightarrow> int" where
  "promotion_order lc l r = (if snd r \<noteq> snd l then (if snd r < snd l then - 1 else 1) else lc (fst l) (fst r))"

definition newest_promotions :: "locale_compare \<Rightarrow> (string \<times> number) list \<Rightarrow> number jsobj" where
  "newest_promotions lc ps = from_entries (take MAX_LEADER_SERVER_CANDIDATE_PROMOTIONS (sort_by (promotion_order lc) ps))"

definition promotion_entry :: "string \<Rightarrow> number option \<Rightarrow> (string \<times> number) list" where
  "promotion_entry raw t = (let key = normalizeLeaderThreadKey raw
     in case t of Some q \<Rightarrow> if shouldPersistLeaderThreadTab key then [(key, q)] else [] | None \<Rightarrow> [])"

definition normalizeServerCandidatePromotedAt :: "locale_compare \<Rightarrow> json option \<Rightarrow> number jsobj" where
  "normalizeServerCandidatePromotedAt lc v = (case v of
       Some (JObj ob) \<Rightarrow> newest_promotions lc (concat (map (\<lambda>(k, x). promotion_entry k (validTimestamp (as_number (Some x)))) ob))
     | _ \<Rightarrow> [])"

definition normalize_promotions :: "locale_compare \<Rightarrow> number jsobj \<Rightarrow> number jsobj" where
  "normalize_promotions lc ob = newest_promotions lc (concat (map (\<lambda>(k, t). promotion_entry k (Some (max 0 t))) ob))"

definition normalizeLeaderOpenThreadTabsState :: "locale_compare \<Rightarrow> json \<Rightarrow> tabs_state option" where
  "normalizeLeaderOpenThreadTabsState lc v =
     (if \<not> json_is_object v \<or> as_number (json_get v ''version'') \<noteq> Some (Fin 1) then None
      else
        let stamp = (\<lambda>f. validTimestamp (as_number (json_get v f)));
            promotions = normalizeServerCandidatePromotedAt lc (json_get v ''serverCandidatePromotedAt'')
        in Some \<lparr>tb_ordered = normalizeLeaderOpenThreadKeys (case as_array (json_get v ''orderedOpenThreadKeys'') of Some vs \<Rightarrow> vs | None \<Rightarrow> []),
             tb_tombstones = normalizeClosedThreadTombstones (json_get v ''closedThreadTombstones''),
             tb_updatedAt = (case stamp ''updatedAt'' of Some t \<Rightarrow> t | None \<Rightarrow> 0),
             tb_migratedAt = stamp ''migratedFromLocalStorageAt'', tb_explicitAt = stamp ''explicitOrderUpdatedAt'',
             tb_latestEventAt = stamp ''latestServerCandidateEventAt'',
             tb_promotedAt = (if promotions = [] then None else Some promotions)\<rparr>)"

definition createLeaderOpenThreadTabsState :: "number \<Rightarrow> tabs_state" where
  "createLeaderOpenThreadTabsState now = \<lparr>tb_ordered = [], tb_tombstones = [], tb_updatedAt = now, tb_migratedAt = None,
     tb_explicitAt = None, tb_latestEventAt = None, tb_promotedAt = None\<rparr>"

section \<open>Placing\<close>

fun index_of :: "('a \<Rightarrow> bool) \<Rightarrow> 'a list \<Rightarrow> nat option" where
  "index_of P [] = None"
| "index_of P (x # xs) = (if P x then Some 0 else map_option Suc (index_of P xs))"

definition placeLeaderOpenThreadTabKey :: "string list \<Rightarrow> string \<Rightarrow> bool \<Rightarrow> string list" where
  "placeLeaderOpenThreadTabKey existing threadKey to_end =
     (let key = normalizeLeaderThreadKey threadKey; keys = normalize_keys existing; others = filter (\<lambda>k. k \<noteq> key) keys
      in if \<not> shouldPersistLeaderThreadTab key
           \<or> (to_end \<and> index_of (\<lambda>k. k = key) keys = None \<and> MAX_LEADER_OPEN_THREAD_TABS \<le> length keys) then keys
         else normalize_keys (if to_end then others @ [key] else key # others))"

definition placeLeaderOpenThreadTabBeforeKeys :: "string list \<Rightarrow> string \<Rightarrow> string set \<Rightarrow> string list" where
  "placeLeaderOpenThreadTabBeforeKeys existing threadKey stops =
     (let key = normalizeLeaderThreadKey threadKey; keys = normalize_keys existing; others = filter (\<lambda>k. k \<noteq> key) keys
      in if \<not> shouldPersistLeaderThreadTab key then keys
         else
           let fallback = (case index_of (\<lambda>k. k = key) keys of None \<Rightarrow> length others | Some i \<Rightarrow> i);
               i = (case index_of (\<lambda>k. k \<in> stops) others of None \<Rightarrow> fallback | Some b \<Rightarrow> min fallback b)
           in normalize_keys (take i others @ [key] @ drop i others))"

definition reorderLeaderOpenThreadKeys :: "string list \<Rightarrow> json list \<Rightarrow> string list" where
  "reorderLeaderOpenThreadKeys existing requestedOrder =
     (let keys = normalize_keys existing;
          requested = filter (\<lambda>k. k \<in> set keys) (normalizeLeaderOpenThreadKeys requestedOrder)
      in requested @ filter (\<lambda>k. k \<notin> set requested) keys)"

section \<open>Server events\<close>

definition canServerCandidateOpenThread :: "tabs_state option \<Rightarrow> string \<Rightarrow> jsnum option \<Rightarrow> bool \<Rightarrow> bool" where
  "canServerCandidateOpenThread state threadKey eventAt reopen =
     (let key = normalizeLeaderThreadKey threadKey;
          tombstone = Option.bind state (\<lambda>s. List.find (\<lambda>t. fst t = key) (tb_tombstones s))
      in shouldPersistLeaderThreadTab key
         \<and> (case tombstone of None \<Rightarrow> True
            | Some (k, closedAt) \<Rightarrow> reopen \<and> (case validTimestamp eventAt of Some t \<Rightarrow> closedAt < t | None \<Rightarrow> False)))"

text \<open>The second half of \<open>applyLeaderServerCandidateThreadTabEvent\<close>: the event is accepted.\<close>

definition accept_candidate :: "locale_compare \<Rightarrow> tabs_state \<Rightarrow> string \<Rightarrow> bool \<Rightarrow> number \<Rightarrow> candidate_options \<Rightarrow> tabs_state" where
  "accept_candidate lc base key alreadyOpen eventAt options =
     (let placement = (if \<not> alreadyOpen \<and> (case tb_explicitAt base of None \<Rightarrow> False | Some t \<Rightarrow> eventAt \<le> t) then PlaceLast
            else case co_placement options of None \<Rightarrow> PlaceFirst | Some p \<Rightarrow> p);
          ordered = (if placement = PlaceBefore then placeLeaderOpenThreadTabBeforeKeys (tb_ordered base) key (co_before options)
            else placeLeaderOpenThreadTabKey (tb_ordered base) key (placement = PlaceLast));
          tombstones = filter (\<lambda>t. fst t \<noteq> key) (tb_tombstones base);
          visualChanged = (tb_ordered base \<noteq> ordered \<or> length tombstones \<noteq> length (tb_tombstones base))
      in base\<lparr>tb_ordered := ordered, tb_tombstones := tombstones,
           tb_updatedAt := (if visualChanged then max (tb_updatedAt base) eventAt else tb_updatedAt base),
           tb_latestEventAt := Some (max (case tb_latestEventAt base of None \<Rightarrow> 0 | Some t \<Rightarrow> t) eventAt),
           tb_promotedAt := Some (normalize_promotions lc (obj_set (case tb_promotedAt base of None \<Rightarrow> [] | Some ob \<Rightarrow> ob) key eventAt))\<rparr>)"

definition applyLeaderServerCandidateThreadTabEvent ::
  "locale_compare \<Rightarrow> tabs_state option \<Rightarrow> string \<Rightarrow> number \<Rightarrow> candidate_options \<Rightarrow> tabs_state option" where
  "applyLeaderServerCandidateThreadTabEvent lc state threadKey eventAt options =
     (let key = normalizeLeaderThreadKey threadKey;
          alreadyOpen = (case state of None \<Rightarrow> False | Some s \<Rightarrow> key \<in> set (tb_ordered s));
          promotedAt = (case Option.bind state (\<lambda>s. Option.bind (tb_promotedAt s) (\<lambda>ob. map_of ob key)) of None \<Rightarrow> - 1 | Some t \<Rightarrow> t);
          latestEventAt = (case state of None \<Rightarrow> - 1 | Some s \<Rightarrow> (case tb_latestEventAt s of Some t \<Rightarrow> t | None \<Rightarrow> tb_updatedAt s));
          explicitAt = (case Option.bind state tb_explicitAt of None \<Rightarrow> - 1 | Some t \<Rightarrow> t)
      in if \<not> shouldPersistLeaderThreadTab key \<or> eventAt \<le> promotedAt then state
         else if alreadyOpen \<and> (\<not> co_reposition options \<or> eventAt < latestEventAt \<or> eventAt \<le> explicitAt) then state
         else if \<not> canServerCandidateOpenThread state key (Some (Fin eventAt)) (co_reopen options) then state
         else Some (accept_candidate lc (case state of None \<Rightarrow> createLeaderOpenThreadTabsState eventAt | Some s \<Rightarrow> s)
                key alreadyOpen eventAt options))"

section \<open>Updates by the user\<close>

definition migrate_tabs :: "json \<Rightarrow> json list \<Rightarrow> number \<Rightarrow> tabs_state" where
  "migrate_tabs update keys now =
     (let migratedAt = (case validTimestamp (as_number (json_get update ''migratedAt'')) of Some t \<Rightarrow> t | None \<Rightarrow> now)
      in (createLeaderOpenThreadTabsState migratedAt)\<lparr>tb_ordered := normalizeLeaderOpenThreadKeys keys, tb_migratedAt := Some migratedAt\<rparr>)"

definition reorder_tabs :: "json list \<Rightarrow> number \<Rightarrow> tabs_state \<Rightarrow> tabs_state" where
  "reorder_tabs keys now s =
     (let ordered = reorderLeaderOpenThreadKeys (tb_ordered s) keys
      in if tb_ordered s = ordered \<and> tb_explicitAt s = Some now then s
         else s\<lparr>tb_ordered := ordered, tb_updatedAt := now, tb_explicitAt := Some now\<rparr>)"

definition open_tab :: "string \<Rightarrow> bool \<Rightarrow> number \<Rightarrow> tabs_state \<Rightarrow> tabs_state" where
  "open_tab key to_end now s =
     (let ordered = placeLeaderOpenThreadTabKey (tb_ordered s) key to_end;
          tombstones = filter (\<lambda>t. fst t \<noteq> key) (tb_tombstones s)
      in if tb_ordered s = ordered \<and> length tombstones = length (tb_tombstones s) then s
         else s\<lparr>tb_ordered := ordered, tb_tombstones := tombstones, tb_updatedAt := now, tb_explicitAt := Some now\<rparr>)"

definition close_tab :: "string \<Rightarrow> number \<Rightarrow> tabs_state \<Rightarrow> tabs_state" where
  "close_tab key closedAt s =
     (let ordered = filter (\<lambda>k. k \<noteq> key) (tb_ordered s);
          tombstones = normalize_tombstones ((key, closedAt) # filter (\<lambda>t. fst t \<noteq> key) (tb_tombstones s))
      in if tb_ordered s = ordered \<and> map_of (tb_tombstones s) key = Some closedAt \<and> tb_updatedAt s = closedAt
           \<and> tb_explicitAt s = Some closedAt then s
         else s\<lparr>tb_ordered := ordered, tb_tombstones := tombstones, tb_updatedAt := closedAt, tb_explicitAt := Some closedAt\<rparr>)"

definition applyLeaderThreadTabUpdate :: "tabs_state option \<Rightarrow> json \<Rightarrow> number \<Rightarrow> tabs_state option" where
  "applyLeaderThreadTabUpdate existing update now =
     (let kind = as_string (json_get update ''type''); keys = as_array (json_get update ''orderedOpenThreadKeys'')
      in if \<not> json_is_object update then existing
         else if kind = Some ''migrate'' then (case keys of None \<Rightarrow> existing | Some ks \<Rightarrow> Some (migrate_tabs update ks now))
         else if kind = Some ''reorder'' then (case (existing, keys) of (Some s, Some ks) \<Rightarrow> Some (reorder_tabs ks now s) | _ \<Rightarrow> existing)
         else case as_string (json_get update ''threadKey'') of
           None \<Rightarrow> existing
         | Some raw \<Rightarrow>
             if kind \<noteq> Some ''open'' \<and> kind \<noteq> Some ''close'' then existing
             else
               let state = (case existing of Some s \<Rightarrow> s | None \<Rightarrow> createLeaderOpenThreadTabsState now);
                   key = normalizeLeaderThreadKey raw
               in if \<not> shouldPersistLeaderThreadTab key then Some state
                  else if kind = Some ''open'' then Some (open_tab key (as_string (json_get update ''placement'') = Some ''last'') now state)
                  else Some (close_tab key (case validTimestamp (as_number (json_get update ''closedAt'')) of Some t \<Rightarrow> t | None \<Rightarrow> now) state))"

section \<open>Well-formed states\<close>

definition tab_key :: "string \<Rightarrow> bool" where
  "tab_key k \<longleftrightarrow> normalizeLeaderThreadKey k = k \<and> k \<notin> {''main'', ''all''}"

definition keys_ok :: "string list \<Rightarrow> bool" where
  "keys_ok ks \<longleftrightarrow> distinct ks \<and> list_all tab_key ks \<and> length ks \<le> MAX_LEADER_OPEN_THREAD_TABS"

definition tombstones_ok :: "tombstone list \<Rightarrow> bool" where
  "tombstones_ok ts \<longleftrightarrow> distinct (map fst ts) \<and> list_all tab_key (map fst ts) \<and> length ts \<le> MAX_LEADER_CLOSED_THREAD_TOMBSTONES
     \<and> sorted (map (\<lambda>(k, t). - t) ts)"

definition promotions_ok :: "number jsobj option \<Rightarrow> bool" where
  "promotions_ok p \<longleftrightarrow> (case p of None \<Rightarrow> True
     | Some ob \<Rightarrow> wf_obj ob \<and> list_all tab_key (map fst ob) \<and> length ob \<le> MAX_LEADER_SERVER_CANDIDATE_PROMOTIONS)"

definition tabs_shape :: "tabs_state \<Rightarrow> bool" where
  "tabs_shape s \<longleftrightarrow> keys_ok (tb_ordered s) \<and> tombstones_ok (tb_tombstones s) \<and> promotions_ok (tb_promotedAt s)"

definition tabs_ok :: "tabs_state \<Rightarrow> bool" where
  "tabs_ok s \<longleftrightarrow> tabs_shape s \<and> set (tb_ordered s) \<inter> fst ` set (tb_tombstones s) = {}"

lemma topic_key_fixed: "normalizeTopicKey k = Some key \<Longrightarrow> normalizeTopicKey key = Some key \<and> lower (trim key) = key"
proof -
  assume "normalizeTopicKey k = Some key"
  then obtain h where h: "topicIdOfViewKey k = Some h" "key = topic_prefix @ h" by (auto simp: normalizeTopicKey_def)
  then have hk: "is_handle h" by (intro topicIdOfViewKey_handle)
  then have "list_all key_char key" using prefix_key_chars handle_key_chars h(2) by simp
  then have "lower (trim key) = key" by (simp only: key_chars_trim key_chars_lower)
  moreover have "normalizeTopicKey key = Some key"
    using topicIdOfViewKey_prefix [OF hk] h(2) by (simp add: normalizeTopicKey_def)
  ultimately show ?thesis by blast
qed

lemma normalizeLeaderThreadKey_idem [simp]: "normalizeLeaderThreadKey (normalizeLeaderThreadKey k) = normalizeLeaderThreadKey k"
proof -
  define n where "n = lower (trim k)"
  have nn: "lower (trim n) = n" by (simp add: n_def lower_trim)
  show ?thesis
  proof (cases "normalizeTopicKey n")
    case None
    have "normalizeTopicKey ''main'' = None" "lower (trim ''main'') = ''main''" by code_simp+
    then show ?thesis using None nn by (auto simp: normalizeLeaderThreadKey_def n_def [symmetric])
  next
    case (Some key)
    then show ?thesis using topic_key_fixed [OF Some] by (simp add: normalizeLeaderThreadKey_def n_def [symmetric])
  qed
qed

lemma tab_key_normalized: "shouldPersistLeaderThreadTab (normalizeLeaderThreadKey k) \<longleftrightarrow> tab_key (normalizeLeaderThreadKey k)"
  by (simp add: tab_key_def shouldPersistLeaderThreadTab_def)

lemma tab_key_simps: "tab_key k \<Longrightarrow> normalizeLeaderThreadKey k = k \<and> shouldPersistLeaderThreadTab k \<and> k \<noteq> []"
proof -
  have "normalizeLeaderThreadKey [] = ''main''" by code_simp
  then show "tab_key k \<Longrightarrow> normalizeLeaderThreadKey k = k \<and> shouldPersistLeaderThreadTab k \<and> k \<noteq> []"
    by (auto simp: tab_key_def shouldPersistLeaderThreadTab_def)
qed

lemma open_keys_ok: "keys_ok acc \<Longrightarrow> length acc < MAX_LEADER_OPEN_THREAD_TABS \<Longrightarrow> keys_ok (open_keys acc vs)"
proof (induction acc vs rule: open_keys.induct)
  case (2 acc v vs)
  show ?case
  proof (cases "raw_tab_key v")
    case None
    then show ?thesis using 2 by simp
  next
    case (Some raw)
    let ?key = "normalizeLeaderThreadKey raw"
    have "keys_ok (acc @ [?key])" if "shouldPersistLeaderThreadTab ?key" "?key \<notin> set acc"
      using 2(4,5) that tab_key_normalized [of raw] by (simp add: keys_ok_def)
    then show ?thesis using 2 Some by (auto simp: Let_def)
  qed
qed simp

lemma normalize_keys_ok [simp]: "keys_ok (normalizeLeaderOpenThreadKeys vs)"
  unfolding normalizeLeaderOpenThreadKeys_def
  by (rule open_keys_ok) (simp_all add: keys_ok_def MAX_LEADER_OPEN_THREAD_TABS_def)

lemma open_keys_take:
  "distinct (acc @ ks) \<Longrightarrow> list_all tab_key ks \<Longrightarrow> length acc < MAX_LEADER_OPEN_THREAD_TABS
     \<Longrightarrow> open_keys acc (map JStr ks) = take MAX_LEADER_OPEN_THREAD_TABS (acc @ ks)"
proof (induction ks arbitrary: acc)
  case (Cons k ks)
  have k: "raw_tab_key (JStr k) = Some k" "normalizeLeaderThreadKey k = k" "shouldPersistLeaderThreadTab k" "k \<notin> set acc"
    using Cons.prems tab_key_simps [of k] by (auto simp: raw_tab_key_def)
  show ?case
  proof (cases "Suc (length acc) = MAX_LEADER_OPEN_THREAD_TABS")
    case True
    then show ?thesis using k by (simp add: True [symmetric])
  next
    case False
    then show ?thesis using k Cons.IH [of "acc @ [k]"] Cons.prems by simp
  qed
qed simp

lemma normalize_keys_take: "distinct ks \<Longrightarrow> list_all tab_key ks \<Longrightarrow> normalize_keys ks = take MAX_LEADER_OPEN_THREAD_TABS ks"
  using open_keys_take [of "[]" ks] by (simp add: normalizeLeaderOpenThreadKeys_def MAX_LEADER_OPEN_THREAD_TABS_def)

lemma normalize_keys_id: "keys_ok ks \<Longrightarrow> normalize_keys ks = ks"
  by (simp add: keys_ok_def normalize_keys_take)

lemma keys_ok_filter: "keys_ok ks \<Longrightarrow> keys_ok (filter P ks)"
  by (auto simp: keys_ok_def list_all_iff intro: le_trans [OF length_filter_le])

text \<open>Placing a tab keeps the others and adds at most that one.\<close>

lemma place_key:
  assumes ks: "keys_ok ks" and k: "tab_key k"
  shows "keys_ok (placeLeaderOpenThreadTabKey ks k e)" "set (placeLeaderOpenThreadTabKey ks k e) \<subseteq> insert k (set ks)"
    "\<not> e \<Longrightarrow> placeLeaderOpenThreadTabKey ks k e = take MAX_LEADER_OPEN_THREAD_TABS (k # filter (\<lambda>x. x \<noteq> k) ks)"
proof -
  note n = normalize_keys_id [OF ks] tab_key_simps [OF k]
  have d: "distinct (k # filter (\<lambda>x. x \<noteq> k) ks)" "list_all tab_key (k # filter (\<lambda>x. x \<noteq> k) ks)"
    using ks k by (auto simp: keys_ok_def list_all_iff)
  then have d': "distinct (filter (\<lambda>x. x \<noteq> k) ks @ [k])" "list_all tab_key (filter (\<lambda>x. x \<noteq> k) ks @ [k])" by auto
  show "keys_ok (placeLeaderOpenThreadTabKey ks k e)"
    using n ks by (simp add: placeLeaderOpenThreadTabKey_def Let_def)
  show "set (placeLeaderOpenThreadTabKey ks k e) \<subseteq> insert k (set ks)"
    unfolding placeLeaderOpenThreadTabKey_def Let_def
    using n normalize_keys_take [OF d] normalize_keys_take [OF d']
    by (auto dest!: in_set_takeD)
  show "\<not> e \<Longrightarrow> placeLeaderOpenThreadTabKey ks k e = take MAX_LEADER_OPEN_THREAD_TABS (k # filter (\<lambda>x. x \<noteq> k) ks)"
    using n normalize_keys_take [OF d] by (simp add: placeLeaderOpenThreadTabKey_def Let_def)
qed

lemma place_before:
  assumes ks: "keys_ok ks" and k: "tab_key k"
  shows "keys_ok (placeLeaderOpenThreadTabBeforeKeys ks k B)" "set (placeLeaderOpenThreadTabBeforeKeys ks k B) \<subseteq> insert k (set ks)"
proof -
  note n = normalize_keys_id [OF ks] tab_key_simps [OF k]
  define others where "others = filter (\<lambda>x. x \<noteq> k) ks"
  show "keys_ok (placeLeaderOpenThreadTabBeforeKeys ks k B)"
    using n ks by (simp add: placeLeaderOpenThreadTabBeforeKeys_def Let_def)
  have "set (normalize_keys (take i others @ [k] @ drop i others)) \<subseteq> insert k (set ks)" for i
  proof -
    have o: "distinct others" "k \<notin> set others" "list_all tab_key others" "set others \<subseteq> set ks"
      using ks by (auto simp: others_def keys_ok_def list_all_iff)
    have "distinct (take i others @ [k] @ drop i others)" "list_all tab_key (take i others @ [k] @ drop i others)"
      using o k by (auto simp: set_take_disj_set_drop_if_distinct list_all_iff dest!: in_set_takeD in_set_dropD)
    from normalize_keys_take [OF this] show ?thesis using o(4) by (auto dest!: in_set_takeD in_set_dropD)
  qed
  then show "set (placeLeaderOpenThreadTabBeforeKeys ks k B) \<subseteq> insert k (set ks)"
    using n by (auto simp: placeLeaderOpenThreadTabBeforeKeys_def Let_def others_def)
qed

lemma reorder_keys:
  assumes ks: "keys_ok ks"
  shows "keys_ok (reorderLeaderOpenThreadKeys ks req)" "set (reorderLeaderOpenThreadKeys ks req) = set ks"
proof -
  define r where "r = filter (\<lambda>k. k \<in> set ks) (normalizeLeaderOpenThreadKeys req)"
  have r: "distinct r" "set r \<subseteq> set ks" using normalize_keys_ok [of req] by (auto simp: r_def keys_ok_def)
  have e: "reorderLeaderOpenThreadKeys ks req = r @ filter (\<lambda>k. k \<notin> set r) ks"
    by (simp add: reorderLeaderOpenThreadKeys_def Let_def normalize_keys_id [OF ks] r_def)
  show s: "set (reorderLeaderOpenThreadKeys ks req) = set ks" using r by (auto simp: e)
  have d: "distinct (reorderLeaderOpenThreadKeys ks req)" using r ks by (auto simp: e keys_ok_def)
  have "length (reorderLeaderOpenThreadKeys ks req) = length ks"
    using d ks s by (metis distinct_card keys_ok_def)
  then show "keys_ok (reorderLeaderOpenThreadKeys ks req)" using d s ks by (simp add: keys_ok_def list_all_iff)
qed

lemma collect_tombstones_ok:
  assumes "distinct (map fst acc)" "list_all tab_key (map fst acc)" "\<forall>(k, t) \<in> set xs. \<exists>r. k = normalizeLeaderThreadKey r \<or> k = []"
  shows "distinct (map fst (collect_tombstones acc xs)) \<and> list_all tab_key (map fst (collect_tombstones acc xs))
    \<and> fst ` set (collect_tombstones acc xs) \<subseteq> fst ` set acc \<union> fst ` set xs"
  using assms
proof (induction acc xs rule: collect_tombstones.induct)
  case (2 acc key closedAt rest)
  have "\<not> shouldPersistLeaderThreadTab []"
    by code_simp
  then have "tab_key key" if "shouldPersistLeaderThreadTab key"
    using that "2.prems"(3) tab_key_normalized by (simp, metis)
  note new = this
  show ?case
  proof (cases closedAt)
    case None
    then show ?thesis using "2.IH"(1) "2.prems" by auto
  next
    case (Some t)
    show ?thesis
    proof (cases "\<not> shouldPersistLeaderThreadTab key \<or> key \<in> fst ` set acc")
      case True
      then show ?thesis using "2.IH"(2) [OF Some] "2.prems" Some by auto
    next
      case False
      then show ?thesis using "2.IH"(3) [OF Some] "2.prems" Some new by auto
    qed
  qed
qed simp

lemma newest_tombstones_ok:
  assumes "distinct (map fst ts)" "list_all tab_key (map fst ts)"
  shows "tombstones_ok (newest_tombstones ts)" "set (newest_tombstones ts) \<subseteq> set ts"
proof -
  let ?f = "\<lambda>(k, t). - t :: number"
  have m: "mset (map fst (sort_key ?f ts)) = mset (map fst ts)" by simp
  then have "distinct (map fst (sort_key ?f ts))" using assms(1) by (metis mset_eq_imp_distinct_iff)
  moreover have "sorted (map ?f (sort_key ?f ts))" by simp
  moreover have "list_all tab_key (map fst (sort_key ?f ts))" using assms(2) by (simp add: list_all_iff)
  ultimately show "tombstones_ok (newest_tombstones ts)"
    by (auto simp: tombstones_ok_def newest_tombstones_def take_map [symmetric] sorted_wrt_take list_all_iff dest!: in_set_takeD)
  show "set (newest_tombstones ts) \<subseteq> set ts" by (auto simp: newest_tombstones_def dest!: in_set_takeD)
qed

lemma normalizeClosedThreadTombstones_ok: "tombstones_ok (normalizeClosedThreadTombstones v)"
proof (cases "as_array v")
  case None
  then show ?thesis by (simp add: normalizeClosedThreadTombstones_def tombstones_ok_def)
next
  case (Some vs)
  have "\<forall>(k, t) \<in> set (concat (map tombstone_fields vs)). \<exists>r. k = normalizeLeaderThreadKey r \<or> k = []"
    by (auto simp: tombstone_fields_def split: option.splits if_splits)
  from collect_tombstones_ok [OF _ _ this, of "[]"] show ?thesis using Some
    by (auto simp: normalizeClosedThreadTombstones_def intro: newest_tombstones_ok)
qed

lemma normalize_tombstones_ok:
  "tombstones_ok (normalize_tombstones ts)" "fst ` set (normalize_tombstones ts) \<subseteq> normalizeLeaderThreadKey ` fst ` set ts"
proof -
  let ?xs = "map (\<lambda>(k, t). (normalizeLeaderThreadKey k, Some (max 0 t))) ts"
  have "\<forall>(k, t) \<in> set ?xs. \<exists>r. k = normalizeLeaderThreadKey r \<or> k = []" by auto
  note c = collect_tombstones_ok [OF _ _ this, of "[]"]
  show "tombstones_ok (normalize_tombstones ts)" using c by (auto simp: normalize_tombstones_def intro: newest_tombstones_ok)
  have "set (normalize_tombstones ts) \<subseteq> set (collect_tombstones [] ?xs)"
    using c unfolding normalize_tombstones_def by (intro newest_tombstones_ok(2)) auto
  moreover have "fst ` set (collect_tombstones [] ?xs) \<subseteq> normalizeLeaderThreadKey ` fst ` set ts" using c by force
  ultimately show "fst ` set (normalize_tombstones ts) \<subseteq> normalizeLeaderThreadKey ` fst ` set ts" by blast
qed

lemma set_sort_by [simp]: "set (sort_by cmp xs) = set xs"
proof -
  have i: "set (insert_by cmp x ys) = insert x (set ys)" for x ys by (induction ys) auto
  show ?thesis unfolding sort_by_def by (induction xs) (simp_all add: i)
qed

lemma length_from_entries: "length (from_entries ps) \<le> length ps"
proof -
  have u: "length (AList.update k v ob) \<le> Suc (length ob)" for k v and ob :: "'a jsobj" by (induction ob) auto
  have c: "length (canon ob) = length ob" for ob :: "'a jsobj"
    using mset_canon [of ob] by (metis size_mset)
  have "length (foldl (\<lambda>ob (k, v). obj_set ob k v) ob ps) \<le> length ob + length ps" for ob
  proof (induction ps arbitrary: ob)
    case (Cons p ps)
    show ?case using Cons.IH [of "obj_set ob (fst p) (snd p)"] u [of "fst p" "snd p" ob]
      by (cases p) (simp add: obj_set_def c)
  qed simp
  from this [of "[]"] show ?thesis by (simp add: from_entries_def)
qed

lemma newest_promotions_ok:
  assumes "\<forall>(k, t) \<in> set ps. tab_key k" shows "promotions_ok (Some (newest_promotions lc ps))"
proof -
  let ?qs = "take MAX_LEADER_SERVER_CANDIDATE_PROMOTIONS (sort_by (promotion_order lc) ps)"
  have "set (from_entries ?qs) \<subseteq> set ps" using set_from_entries [of ?qs] by (auto dest!: in_set_takeD)
  then have "list_all tab_key (map fst (from_entries ?qs))" using assms by (fastforce simp: list_all_iff)
  moreover have "length (from_entries ?qs) \<le> MAX_LEADER_SERVER_CANDIDATE_PROMOTIONS"
    using length_from_entries [of ?qs] by (simp add: min_def split: if_splits)
  ultimately show ?thesis by (simp add: promotions_ok_def newest_promotions_def wf_obj_from_entries)
qed

lemma promotion_entry_ok: "(k, t) \<in> set (promotion_entry raw x) \<Longrightarrow> tab_key k"
  by (auto simp: promotion_entry_def Let_def tab_key_normalized split: option.splits if_splits)

lemma promotions_normal: "promotions_ok (Some (normalize_promotions lc ob))"
  "promotions_ok (Some (normalizeServerCandidatePromotedAt lc v))"
proof -
  show "promotions_ok (Some (normalize_promotions lc ob))"
    unfolding normalize_promotions_def by (rule newest_promotions_ok) (auto dest: promotion_entry_ok)
  have "promotions_ok (Some [])" by (simp add: promotions_ok_def)
  moreover have "promotions_ok (Some (newest_promotions lc (concat (map (\<lambda>(k, x). promotion_entry k (validTimestamp (as_number (Some x)))) ob))))" for ob
    by (rule newest_promotions_ok) (auto dest: promotion_entry_ok)
  ultimately show "promotions_ok (Some (normalizeServerCandidatePromotedAt lc v))"
    by (auto simp: normalizeServerCandidatePromotedAt_def split: option.splits json.splits)
qed

section \<open>Updates keep the state well-formed\<close>

lemma create_ok: "tabs_ok (createLeaderOpenThreadTabsState now)"
  by (simp add: tabs_ok_def tabs_shape_def createLeaderOpenThreadTabsState_def keys_ok_def tombstones_ok_def promotions_ok_def)

lemma tombstones_ok_filter: "tombstones_ok ts \<Longrightarrow> tombstones_ok (filter P ts)"
  by (auto simp: tombstones_ok_def list_all_iff distinct_map_filter sorted_filter intro: le_trans [OF length_filter_le])

lemma tabs_ok_placed:
  assumes s: "tabs_ok s" and "keys_ok (tb_ordered s')" and o: "set (tb_ordered s') \<subseteq> insert k (set (tb_ordered s))"
    and t: "tb_tombstones s' = filter (\<lambda>t. fst t \<noteq> k) (tb_tombstones s)" and "promotions_ok (tb_promotedAt s')"
  shows "tabs_ok s'"
proof -
  have "set (tb_ordered s) \<inter> fst ` set (tb_tombstones s) = {}" using s by (simp add: tabs_ok_def)
  moreover have "fst ` set (tb_tombstones s') \<subseteq> fst ` set (tb_tombstones s)" "k \<notin> fst ` set (tb_tombstones s')" by (auto simp: t)
  ultimately have "set (tb_ordered s') \<inter> fst ` set (tb_tombstones s') = {}" using o by blast
  then show ?thesis using assms tombstones_ok_filter [of "tb_tombstones s"] by (simp add: tabs_ok_def tabs_shape_def)
qed

lemma open_tab_ok: "tabs_ok s \<Longrightarrow> tab_key k \<Longrightarrow> tabs_ok (open_tab k e now s)"
proof -
  assume s: "tabs_ok s" and k: "tab_key k"
  let ?s' = "s\<lparr>tb_ordered := placeLeaderOpenThreadTabKey (tb_ordered s) k e,
     tb_tombstones := filter (\<lambda>t. fst t \<noteq> k) (tb_tombstones s), tb_updatedAt := now, tb_explicitAt := Some now\<rparr>"
  have "tabs_ok ?s'"
    by (rule tabs_ok_placed [OF s, of _ k]) (use place_key [of "tb_ordered s" k e] s k in \<open>simp_all add: tabs_ok_def tabs_shape_def\<close>)
  then show ?thesis using s by (simp add: open_tab_def Let_def)
qed

lemma close_tab_ok:
  assumes s: "tabs_ok s" and k: "tab_key k" shows "tabs_ok (close_tab k t s)"
proof -
  define old where "old = filter (\<lambda>t. fst t \<noteq> k) (tb_tombstones s)"
  define ts where "ts = normalize_tombstones ((k, t) # old)"
  have old: "fst ` set old \<subseteq> fst ` set (tb_tombstones s)" "\<forall>j \<in> fst ` set old. normalizeLeaderThreadKey j = j"
    using s tab_key_simps(1) by (auto simp: old_def tabs_ok_def tabs_shape_def tombstones_ok_def list_all_iff)
  have "fst ` set ts \<subseteq> normalizeLeaderThreadKey ` (insert k (fst ` set old))"
    using normalize_tombstones_ok(2) [of "(k, t) # old"] by (simp add: ts_def)
  also have "\<dots> \<subseteq> insert k (fst ` set old)" using old(2) tab_key_simps [OF k] by auto
  finally have sub: "fst ` set ts \<subseteq> insert k (fst ` set (tb_tombstones s))" using old(1) by blast
  define ordered where "ordered = filter (\<lambda>j. j \<noteq> k) (tb_ordered s)"
  have "set ordered \<subseteq> set (tb_ordered s)" "k \<notin> set ordered" by (auto simp: ordered_def)
  moreover have "set (tb_ordered s) \<inter> fst ` set (tb_tombstones s) = {}" using s by (simp add: tabs_ok_def)
  ultimately have d: "set ordered \<inter> fst ` set ts = {}" using sub by blast
  have n: "keys_ok ordered" "tombstones_ok ts" "promotions_ok (tb_promotedAt s)"
    using s keys_ok_filter [of "tb_ordered s"] normalize_tombstones_ok(1) by (simp_all add: ordered_def ts_def tabs_ok_def tabs_shape_def)
  have "tabs_ok (s\<lparr>tb_ordered := ordered, tb_tombstones := ts, tb_updatedAt := t, tb_explicitAt := Some t\<rparr>)"
    using d n by (simp add: tabs_ok_def tabs_shape_def)
  then show ?thesis using s by (simp add: close_tab_def Let_def ordered_def ts_def old_def)
qed

lemma reorder_tabs_ok: "tabs_ok s \<Longrightarrow> tabs_ok (reorder_tabs ks now s)"
  using reorder_keys [of "tb_ordered s" ks] by (auto simp: reorder_tabs_def Let_def tabs_ok_def tabs_shape_def)

lemma migrate_tabs_ok: "tabs_ok (migrate_tabs u ks now)"
  by (simp add: migrate_tabs_def Let_def tabs_ok_def tabs_shape_def createLeaderOpenThreadTabsState_def tombstones_ok_def promotions_ok_def)

lemma update_ok:
  assumes "pred_option tabs_ok s" shows "pred_option tabs_ok (applyLeaderThreadTabUpdate s u now)"
proof -
  have key: "tab_key (normalizeLeaderThreadKey raw)" if "shouldPersistLeaderThreadTab (normalizeLeaderThreadKey raw)" for raw
    using that by (simp add: tab_key_normalized)
  have st: "tabs_ok (case s of Some s \<Rightarrow> s | None \<Rightarrow> createLeaderOpenThreadTabsState now)"
    using assms create_ok by (cases s) simp_all
  show ?thesis
    using assms key st create_ok open_tab_ok close_tab_ok reorder_tabs_ok migrate_tabs_ok
    by (auto simp: applyLeaderThreadTabUpdate_def Let_def split: option.splits)
qed

lemma accept_ok:
  assumes b: "tabs_ok base" and k: "tab_key key" shows "tabs_ok (accept_candidate lc base key already eventAt opts)"
proof -
  have base: "keys_ok (tb_ordered base)" using b by (simp add: tabs_ok_def tabs_shape_def)
  note placed = place_key(1,2) [OF base k] place_before [OF base k]
  show ?thesis
    by (rule tabs_ok_placed [OF b, of _ key])
      (use placed promotions_normal(1) in \<open>simp_all add: accept_candidate_def Let_def\<close>)
qed

lemma candidate_ok:
  assumes "pred_option tabs_ok s" shows "pred_option tabs_ok (applyLeaderServerCandidateThreadTabEvent lc s k eventAt opts)"
proof -
  have b: "tabs_ok (case s of None \<Rightarrow> createLeaderOpenThreadTabsState eventAt | Some s \<Rightarrow> s)"
    using assms create_ok by (cases s) simp_all
  show ?thesis
    using assms accept_ok [OF b] by (simp add: applyLeaderServerCandidateThreadTabEvent_def Let_def tab_key_normalized)
qed

lemma normalize_state_shape: "pred_option tabs_shape (normalizeLeaderOpenThreadTabsState lc v)"
  using promotions_normal(2) [of lc] normalizeClosedThreadTombstones_ok normalize_keys_ok
  by (auto simp: normalizeLeaderOpenThreadTabsState_def Let_def tabs_shape_def promotions_ok_def)

section \<open>Closing a tab\<close>

lemma insort_within:
  fixes f :: "'a \<Rightarrow> 'b::linorder"
  shows "length (filter (\<lambda>y. f y < f x) ys) < n \<Longrightarrow> sorted (map f ys) \<Longrightarrow> x \<in> set (take n (insort_key f x ys))"
proof (induction ys arbitrary: n)
  case (Cons y ys)
  then obtain m where n: "n = Suc m" by (cases n) simp_all
  have "f y < f x \<Longrightarrow> length (filter (\<lambda>y. f y < f x) ys) < m" using Cons.prems(1) n by simp
  then show ?case using Cons.IH [of m] Cons.prems(2) n by auto
qed (cases n; simp)

lemma sort_key_within:
  fixes f :: "'a \<Rightarrow> 'b::linorder"
  assumes "length (filter (\<lambda>y. f y < f x) ys) < n" shows "x \<in> set (take n (sort_key f (x # ys)))"
proof -
  have "length (filter P (sort_key f ys)) = length (filter P ys)" for P
    by (metis mset_filter mset_sort size_mset)
  then show ?thesis using insort_within [of f x "sort_key f ys" n] assms by simp
qed

lemma normalize_tombstones_head:
  assumes k: "tab_key k" and t: "0 \<le> t" and ts: "list_all tab_key (map fst ts)" "distinct (map fst ts)" "k \<notin> fst ` set ts"
    and n: "length (filter (\<lambda>(j, u). t < max 0 u) ts) < MAX_LEADER_CLOSED_THREAD_TOMBSTONES"
  shows "(k, t) \<in> set (normalize_tombstones ((k, t) # ts))"
proof -
  have c: "collect_tombstones acc (map (\<lambda>(k, t). (normalizeLeaderThreadKey k, Some (max 0 t))) xs) = acc @ map (\<lambda>(k, t). (k, max 0 t)) xs"
    if "list_all tab_key (map fst xs)" "distinct (map fst (acc @ xs))" for acc xs
    using that
  proof (induction xs arbitrary: acc)
    case (Cons x xs)
    obtain j u where x: "x = (j, u)" by (cases x)
    then have j: "normalizeLeaderThreadKey j = j" "shouldPersistLeaderThreadTab j" "j \<notin> fst ` set acc"
      using Cons.prems tab_key_simps [of j] by auto
    from Cons.IH [of "acc @ [(j, max 0 u)]"] Cons.prems show ?case by (simp add: x j)
  qed simp
  have "length (filter (\<lambda>y. (case y of (k, t) \<Rightarrow> - t) < - t) (map (\<lambda>(k, t). (k, max 0 t)) ts)) = length (filter (\<lambda>(j, u). t < max 0 u) ts)"
    by (simp add: filter_map comp_def case_prod_unfold)
  then show ?thesis
    using c [of "(k, t) # ts" "[]"] k ts t n sort_key_within [of "\<lambda>(k, t). - t" "(k, t)" "map (\<lambda>(k, t). (k, max 0 t)) ts"]
    by (simp add: normalize_tombstones_def newest_tombstones_def)
qed

definition close_update :: "string \<Rightarrow> number \<Rightarrow> json" where
  "close_update k t = JObj [(''type'', JStr ''close''), (''threadKey'', JStr k), (''closedAt'', JNum (Fin t))]"

definition open_update :: "string \<Rightarrow> json" where
  "open_update k = JObj [(''type'', JStr ''open''), (''threadKey'', JStr k)]"

lemma update_close:
  assumes "tab_key (normalizeLeaderThreadKey k)" "0 \<le> t"
  shows "applyLeaderThreadTabUpdate (Some s) (close_update k t) now = Some (close_tab (normalizeLeaderThreadKey k) t s)"
  using assms by (simp add: applyLeaderThreadTabUpdate_def close_update_def json_get_def validTimestamp_def tab_key_normalized)

lemma update_open:
  assumes "tab_key (normalizeLeaderThreadKey k)"
  shows "applyLeaderThreadTabUpdate (Some s) (open_update k) now = Some (open_tab (normalizeLeaderThreadKey k) False now s)"
  using assms by (simp add: applyLeaderThreadTabUpdate_def open_update_def json_get_def tab_key_normalized)

lemma close_tab_closed:
  assumes s: "tabs_ok s" and k: "tab_key k" and t: "0 \<le> t"
    and n: "length (filter (\<lambda>(j, u). j \<noteq> k \<and> t < max 0 u) (tb_tombstones s)) < MAX_LEADER_CLOSED_THREAD_TOMBSTONES"
  shows "tb_ordered (close_tab k t s) = filter (\<lambda>j. j \<noteq> k) (tb_ordered s) \<and> (k, t) \<in> set (tb_tombstones (close_tab k t s))"
proof -
  have d: "distinct (map fst (tb_tombstones s))" "list_all tab_key (map fst (tb_tombstones s))"
    using s by (simp_all add: tabs_ok_def tabs_shape_def tombstones_ok_def)
  have f: "filter (\<lambda>(j, u). t < max 0 u) (filter (\<lambda>t. fst t \<noteq> k) (tb_tombstones s)) = filter (\<lambda>(j, u). j \<noteq> k \<and> t < max 0 u) (tb_tombstones s)"
    by (simp add: case_prod_unfold conj_commute)
  have "(k, t) \<in> set (normalize_tombstones ((k, t) # filter (\<lambda>t. fst t \<noteq> k) (tb_tombstones s)))"
    by (rule normalize_tombstones_head [OF k t]) (use d n f in \<open>auto simp: list_all_iff distinct_map_filter\<close>)
  then show ?thesis by (auto simp: close_tab_def Let_def dest: map_of_SomeD)
qed

lemma find_key: "distinct (map fst ts) \<Longrightarrow> (k, t) \<in> set ts \<Longrightarrow> List.find (\<lambda>t. fst t = k) ts = Some (k, t)"
  by (induction ts) force+

lemma candidate_blocked:
  assumes s: "tabs_ok s" and tomb: "(normalizeLeaderThreadKey k, t) \<in> set (tb_tombstones s)" and old: "eventAt \<le> t" and t: "0 \<le> t"
  shows "applyLeaderServerCandidateThreadTabEvent lc (Some s) k eventAt opts = Some s"
proof -
  let ?k = "normalizeLeaderThreadKey k"
  have "distinct (map fst (tb_tombstones s))" using s by (simp add: tabs_ok_def tabs_shape_def tombstones_ok_def)
  then have "List.find (\<lambda>t. fst t = ?k) (tb_tombstones s) = Some (?k, t)" using tomb
    by (intro find_key)
  then have "\<not> canServerCandidateOpenThread (Some s) ?k (Some (Fin eventAt)) r" for r
    using old t by (simp add: canServerCandidateOpenThread_def Let_def validTimestamp_def not_less)
  then show ?thesis by (simp add: applyLeaderServerCandidateThreadTabEvent_def Let_def)
qed

lemma open_tab_opens:
  assumes s: "tabs_ok s" and k: "tab_key k"
  shows "hd (tb_ordered (open_tab k False now s)) = k \<and> k \<in> set (tb_ordered (open_tab k False now s)) \<and> k \<notin> fst ` set (tb_tombstones (open_tab k False now s))"
proof -
  have p: "placeLeaderOpenThreadTabKey (tb_ordered s) k False = k # take 49 (filter (\<lambda>x. x \<noteq> k) (tb_ordered s))"
    using place_key(3) [of "tb_ordered s" k False] s k by (simp add: tabs_ok_def tabs_shape_def MAX_LEADER_OPEN_THREAD_TABS_def eval_nat_numeral)
  have all: "filter P xs = xs" if "length (filter P xs) = length xs" for P and xs :: "tombstone list"
    using that length_filter_less [of _ xs P] by (metis filter_True less_irrefl)
  have "tb_ordered (open_tab k False now s) = k # take 49 (filter (\<lambda>x. x \<noteq> k) (tb_ordered s))"
    by (simp add: open_tab_def Let_def p)
  moreover have "tb_tombstones (open_tab k False now s) = filter (\<lambda>t. fst t \<noteq> k) (tb_tombstones s)"
    using all [of "\<lambda>t. fst t \<noteq> k" "tb_tombstones s", THEN sym] by (auto simp: open_tab_def Let_def)
  ultimately show ?thesis by auto
qed

section \<open>Properties\<close>

text \<open>
  C35. The open thread tabs stay well-formed: whatever update a browser sends and whatever event the
  server applies, at most 50 tabs are open, each once and in canonical spelling, never the main or the
  all-threads view; no open tab has a tombstone; the tombstones (at most 200) are one per thread with the
  newest first; and at most 200 promotions are remembered. A persisted state is brought
  into this shape when it is read.
\<close>
theorem tabs_stay_ok:
  "pred_option tabs_shape (normalizeLeaderOpenThreadTabsState lc v)
   \<and> (pred_option tabs_ok s \<longrightarrow> pred_option tabs_ok (applyLeaderThreadTabUpdate s update now)
        \<and> pred_option tabs_ok (applyLeaderServerCandidateThreadTabEvent lc s threadKey eventAt options))"
  using normalize_state_shape update_ok candidate_ok by blast

text \<open>
  C36. A closed tab stays closed. Closing removes the tab and no other; as long as fewer than 200
  threads were closed later, its tombstone is kept, and then no server event up to the time it was
  closed changes the tabs, whatever placement it asks for. Only the user opening the thread again clears the
  tombstone, and puts the tab in front.
\<close>
theorem closed_tab_stays_closed:
  assumes "tabs_ok s" "shouldPersistLeaderThreadTab key" "key = normalizeLeaderThreadKey threadKey" "0 \<le> closedAt"
    and "length (filter (\<lambda>(j, u). j \<noteq> key \<and> closedAt < max 0 u) (tb_tombstones s)) < MAX_LEADER_CLOSED_THREAD_TOMBSTONES"
  shows "\<exists>s'. applyLeaderThreadTabUpdate (Some s) (close_update threadKey closedAt) now = Some s'
    \<and> tb_ordered s' = filter (\<lambda>k. k \<noteq> key) (tb_ordered s)
    \<and> (\<forall>eventAt options lc. eventAt \<le> closedAt
          \<longrightarrow> applyLeaderServerCandidateThreadTabEvent lc (Some s') threadKey eventAt options = Some s')
    \<and> (\<exists>s''. applyLeaderThreadTabUpdate (Some s') (open_update threadKey) later = Some s''
          \<and> hd (tb_ordered s'') = key \<and> key \<in> set (tb_ordered s'') \<and> key \<notin> fst ` set (tb_tombstones s''))"
proof -
  have k: "tab_key key" using assms(2,3) by (simp add: tab_key_normalized)
  let ?s' = "close_tab key closedAt s"
  have ok: "tabs_ok ?s'" by (rule close_tab_ok [OF assms(1) k])
  note c = close_tab_closed [OF assms(1) k assms(4,5)]
  have "applyLeaderThreadTabUpdate (Some s) (close_update threadKey closedAt) now = Some ?s'"
    using update_close [of threadKey closedAt s now] k assms(3,4) by simp
  moreover have "applyLeaderServerCandidateThreadTabEvent lc (Some ?s') threadKey eventAt options = Some ?s'"
    if "eventAt \<le> closedAt" for eventAt options lc
    using candidate_blocked [OF ok _ that assms(4)] c assms(3) by blast
  moreover have "applyLeaderThreadTabUpdate (Some ?s') (open_update threadKey) later = Some (open_tab key False later ?s')"
    using update_open [of threadKey ?s' later] k assms(3) by simp
  ultimately show ?thesis using c open_tab_opens [OF ok k] by blast
qed

definition two_tabs :: tabs_state where
  "two_tabs = \<lparr>tb_ordered = [''q-1'', ''q-2''], tb_tombstones = [], tb_updatedAt = 100, tb_migratedAt = None,
     tb_explicitAt = None, tb_latestEventAt = None, tb_promotedAt = None\<rparr>"

lemma two_tabs_ok: "tabs_ok two_tabs"
proof -
  have "tab_key ''q-1''" "tab_key ''q-2''" by code_simp+
  then show ?thesis
    by (simp add: tabs_ok_def tabs_shape_def two_tabs_def keys_ok_def tombstones_ok_def promotions_ok_def MAX_LEADER_OPEN_THREAD_TABS_def)
qed

theorem tabs_stay_ok_witness:
  "pred_option tabs_ok (applyLeaderThreadTabUpdate (Some two_tabs) (close_update ''Q-1'' 200) 200)"
  using tabs_stay_ok [of "\<lambda>a b. 0" JNull "Some two_tabs" "close_update ''Q-1'' 200" 200] two_tabs_ok by simp

theorem closed_tab_stays_closed_witness:
  "\<exists>s'. applyLeaderThreadTabUpdate (Some two_tabs) (close_update ''Q-1'' 200) 200 = Some s'
    \<and> tb_ordered s' = [''q-2'']
    \<and> applyLeaderServerCandidateThreadTabEvent (\<lambda>a b. 0) (Some s') ''Q-1'' 150
         \<lparr>co_reposition = True, co_placement = None, co_before = {}, co_reopen = True\<rparr> = Some s'"
proof -
  have k: "normalizeLeaderThreadKey ''Q-1'' = ''q-1''" "shouldPersistLeaderThreadTab ''q-1''" by code_simp+
  from closed_tab_stays_closed [OF two_tabs_ok k(2) k(1) [symmetric], of 200 200 200] show ?thesis
    by (force simp: two_tabs_def MAX_LEADER_CLOSED_THREAD_TOMBSTONES_def)
qed

end
