(* ===== verification/Host_Link.thy ===== *)
theory Host_Link
  imports Js_Prelude "HOL-Library.Word" "HOL-Library.AList"
begin

text \<open>
  The link between a coordinator and a host (shared/host-protocol.ts,
  server/remote-host/host-link-manager.ts, server/remote-host/host-agent.ts): commands to a host are
  numbered per link, events of a process per process; both sides keep what is not acknowledged and
  send it again after a reconnect. One host is modelled, with the messages that carry commands and
  events; an operation returns the new state and the messages it sends. The fields marked history
  record what has been numbered or applied so far and are read by no operation.
\<close>

section \<open>Messages\<close>

type_synonym bytes = "8 word list"

record launch =
  la_command :: string
  la_args :: "string list"
  la_cwd :: "string option"
  la_env :: "(string \<times> string) list"
  la_fullEnv :: bool
  la_prepared :: "string option"   \<comment> \<open>preparedLaunchId\<close>

datatype host_command =
    CmdSpawn string launch
  | CmdSpawnTerminal string string nat nat
  | CmdWriteFile string bytes
  | CmdStdin string bytes
  | CmdStdinEnd string
  | CmdResize string nat nat
  | CmdKill string string

text \<open>\<open>"procId" in command\<close>\<close>

fun command_proc :: "host_command \<Rightarrow> string option" where
  "command_proc (CmdSpawn p l) = Some p"
| "command_proc (CmdSpawnTerminal p cwd cols rows) = Some p"
| "command_proc (CmdWriteFile path b) = None"
| "command_proc (CmdStdin p b) = Some p"
| "command_proc (CmdStdinEnd p) = Some p"
| "command_proc (CmdResize p cols rows) = Some p"
| "command_proc (CmdKill p signal) = Some p"

datatype host_event =
    EvSpawned "int option"
  | EvStdout bytes
  | EvStderr bytes
  | EvExit "int option" "string option"
  | EvError string

definition HOST_PROTOCOL_VERSION :: nat where "HOST_PROTOCOL_VERSION = 3"

record hello =
  hl_protocol :: nat
  hl_instance :: string
  hl_applied :: nat
  hl_appliedFrom :: "string option"
  hl_processes :: "string list"

datatype to_coordinator =
    Hello hello
  | Event string nat host_event
  | CommandAck nat
  | UpdateFailed string string

datatype to_host =
    Welcome string nat "(string \<times> nat) list"   \<comment> \<open>instanceId, epoch, received\<close>
  | Command nat host_command
  | EventAck string nat
  | Rejected
  | Update string

section \<open>The coordinator's side\<close>

record remote_process =
  rp_started :: bool
  rp_pid :: "int option"
  rp_killed :: bool
  rp_exited :: bool
  rp_exitCode :: "int option"
  rp_failure :: "string option"   \<comment> \<open>the error \<open>fail\<close> reported\<close>
  rp_lastSeq :: nat
  rp_events :: "host_event list"   \<comment> \<open>history: events applied\<close>

definition new_process :: remote_process where
  "new_process = \<lparr>rp_started = False, rp_pid = None, rp_killed = False, rp_exited = False, rp_exitCode = None,
     rp_failure = None, rp_lastSeq = 0, rp_events = []\<rparr>"

text \<open>
  \<open>lk_procs\<close> are the keys of the map of processes, in its order; the objects stay with their users
  when the map drops them, so they are kept apart. \<open>lk_acks\<close> are the acknowledgements that wait for
  the end of the current burst, for the link's socket.
\<close>

record link_state =
  lk_instance :: string
  lk_epoch :: nat
  lk_socket :: bool
  lk_online :: bool
  lk_hostInstance :: "string option"
  lk_updateRequested :: "string option"
  lk_updateSent :: bool
  lk_nextSeq :: nat
  lk_unacked :: "(nat \<times> host_command) list"
  lk_procs :: "string list"
  lk_object :: "string \<rightharpoonup> remote_process"
  lk_acks :: "(string \<times> nat) list"
  lk_commands :: "host_command list"   \<comment> \<open>history: commands in the current numbering\<close>

definition new_link :: "string \<Rightarrow> nat \<Rightarrow> link_state" where
  "new_link i epoch = \<lparr>lk_instance = i, lk_epoch = epoch, lk_socket = False, lk_online = False, lk_hostInstance = None,
     lk_updateRequested = None, lk_updateSent = False, lk_nextSeq = 1, lk_unacked = [], lk_procs = [],
     lk_object = Map.empty, lk_acks = [], lk_commands = []\<rparr>"

definition attach :: "link_state \<Rightarrow> link_state" where
  "attach l = l\<lparr>lk_socket := True, lk_acks := []\<rparr>"

text \<open>The link's socket closes, goes silent or is closed by the coordinator.\<close>

definition detach :: "link_state \<Rightarrow> link_state" where
  "detach l = (if lk_socket l then l\<lparr>lk_socket := False, lk_online := False, lk_acks := []\<rparr> else l)"

definition enqueue :: "host_command \<Rightarrow> link_state \<Rightarrow> link_state \<times> to_host list" where
  "enqueue c l = (l\<lparr>lk_nextSeq := lk_nextSeq l + 1, lk_unacked := lk_unacked l @ [(lk_nextSeq l, c)], lk_commands := lk_commands l @ [c]\<rparr>,
     if lk_online l \<and> lk_socket l \<and> \<not> lk_updateSent l then [Command (lk_nextSeq l) c] else [])"

definition set_object :: "string \<Rightarrow> remote_process \<Rightarrow> link_state \<Rightarrow> link_state" where
  "set_object p r l = l\<lparr>lk_object := (lk_object l)(p \<mapsto> r)\<rparr>"

definition untrack :: "string \<Rightarrow> link_state \<Rightarrow> link_state" where
  "untrack p l = l\<lparr>lk_procs := filter (\<lambda>q. q \<noteq> p) (lk_procs l)\<rparr>"

text \<open>\<open>finish\<close>: the exit listener of a tracked process drops it from the map.\<close>

definition finish_proc :: "string \<Rightarrow> int option \<Rightarrow> remote_process \<Rightarrow> link_state \<Rightarrow> link_state" where
  "finish_proc p code r l = (if rp_exited r then set_object p r l
     else untrack p (set_object p (r\<lparr>rp_exited := True, rp_exitCode := code\<rparr>) l))"

definition fail_proc :: "string \<Rightarrow> string \<Rightarrow> link_state \<Rightarrow> link_state" where
  "fail_proc message p l = (case lk_object l p of None \<Rightarrow> l
     | Some r \<Rightarrow> if rp_exited r then l else finish_proc p None (r\<lparr>rp_failure := Some message\<rparr>) l)"

definition apply_event :: "string \<Rightarrow> host_event \<Rightarrow> remote_process \<Rightarrow> link_state \<Rightarrow> link_state" where
  "apply_event p ev r l = (case ev of
       EvSpawned pid \<Rightarrow> set_object p (r\<lparr>rp_started := True, rp_pid := pid\<rparr>) l
     | EvExit code signal \<Rightarrow> finish_proc p code r l
     | _ \<Rightarrow> set_object p r l)"

definition tracked :: "link_state \<Rightarrow> string \<Rightarrow> remote_process option" where
  "tracked l p = (if p \<in> set (lk_procs l) then lk_object l p else None)"

subsection \<open>Starting and ending processes\<close>

definition HOST_LOCAL_ENV :: "string list" where
  "HOST_LOCAL_ENV = [''PATH'', ''HOME'', ''PWD'', ''OLDPWD'', ''SHELL'', ''USER'', ''LOGNAME'', ''TMPDIR'', ''TERM'']"

fun definedEnv :: "(string \<times> string option) list \<Rightarrow> (string \<times> string) list" where
  "definedEnv [] = []"
| "definedEnv ((k, v) # env) = (case v of Some s \<Rightarrow> [(k, s)] | None \<Rightarrow> []) @ definedEnv env"

definition sessionEnv :: "(string \<Rightarrow> string option) \<Rightarrow> (string \<times> string option) list \<Rightarrow> (string \<times> string) list" where
  "sessionEnv own env = filter (\<lambda>(k, s). k \<notin> set HOST_LOCAL_ENV \<and> own k \<noteq> Some s) (definedEnv env)"

definition spawn_command :: "bool \<Rightarrow> (string \<Rightarrow> string option) \<Rightarrow> string \<Rightarrow> string list \<Rightarrow> string option \<Rightarrow> (string \<times> string option) list
    \<Rightarrow> string option \<Rightarrow> string \<Rightarrow> host_command" where
  "spawn_command sameMachine own command args cwd env prepared p =
     CmdSpawn p \<lparr>la_command = command, la_args = args, la_cwd = (if cwd = Some [] then None else cwd),
       la_env = (if sameMachine then definedEnv env else sessionEnv own env), la_fullEnv = sameMachine,
       la_prepared = (if prepared = Some [] then None else prepared)\<rparr>"

definition startProcess :: "string \<Rightarrow> (string \<Rightarrow> host_command) \<Rightarrow> link_state \<Rightarrow> link_state \<times> to_host list" where
  "startProcess p startCommand l = enqueue (startCommand p) (set_object p new_process (l\<lparr>lk_procs := lk_procs l @ [p]\<rparr>))"

definition adopt :: "string \<Rightarrow> link_state \<Rightarrow> link_state" where
  "adopt p l = (let l' = set_object p (new_process\<lparr>rp_started := True\<rparr>) (l\<lparr>lk_procs := lk_procs l @ [p]\<rparr>)
     in if lk_hostInstance l \<noteq> None then fail_proc ''The host no longer runs this process'' p l' else l')"

definition kill_process :: "string \<Rightarrow> string \<Rightarrow> link_state \<Rightarrow> link_state \<times> to_host list" where
  "kill_process p signal l = (case lk_object l p of None \<Rightarrow> (l, [])
     | Some r \<Rightarrow> if rp_exited r then (l, []) else enqueue (CmdKill p signal) (set_object p (r\<lparr>rp_killed := True\<rparr>) l))"

definition resize_process :: "string \<Rightarrow> nat \<Rightarrow> nat \<Rightarrow> link_state \<Rightarrow> link_state \<times> to_host list" where
  "resize_process p cols rows l = (case lk_object l p of None \<Rightarrow> (l, [])
     | Some r \<Rightarrow> if rp_exited r then (l, []) else enqueue (CmdResize p cols rows) l)"

definition write_stdin :: "string \<Rightarrow> bytes \<Rightarrow> link_state \<Rightarrow> link_state \<times> to_host list" where
  "write_stdin p b l = enqueue (CmdStdin p b) l"

definition end_stdin :: "string \<Rightarrow> link_state \<Rightarrow> link_state \<times> to_host list" where
  "end_stdin p l = enqueue (CmdStdinEnd p) l"

definition writeFileInOrder :: "string \<Rightarrow> bytes \<Rightarrow> link_state \<Rightarrow> link_state \<times> to_host list" where
  "writeFileInOrder path b l = enqueue (CmdWriteFile path b) l"

definition release_host :: "string \<Rightarrow> link_state \<Rightarrow> link_state" where
  "release_host reason l = (if lk_online l then l
     else fold (fail_proc reason) (lk_procs l) (l\<lparr>lk_unacked := filter (\<lambda>(s, c). command_proc c = None) (lk_unacked l)\<rparr>))"

definition startBlocker :: "link_state \<Rightarrow> string option" where
  "startBlocker l = (if \<not> lk_online l \<or> \<not> lk_socket l then Some ''is offline''
     else if lk_updateSent l then Some ''is restarting for a Takode update; try again once it is back'' else None)"

subsection \<open>Messages from the host\<close>

text \<open>A new host instance: end what it does not run, and number the remaining commands from 1.\<close>

definition lost_processes :: "hello \<Rightarrow> link_state \<Rightarrow> string list" where
  "lost_processes m l = (let running = (if lk_hostInstance l = None then hl_processes m else [])
     in filter (\<lambda>p. (case lk_object l p of None \<Rightarrow> False | Some r \<Rightarrow> rp_started r) \<and> p \<notin> set running) (lk_procs l))"

definition renumber :: "link_state \<Rightarrow> link_state" where
  "renumber l = (let kept = filter (\<lambda>c. case command_proc c of None \<Rightarrow> True | Some p \<Rightarrow> p \<in> set (lk_procs l)) (map snd (lk_unacked l))
     in l\<lparr>lk_unacked := enumerate 1 kept, lk_nextSeq := length kept + 1, lk_commands := kept\<rparr>)"

definition new_host_instance :: "hello \<Rightarrow> link_state \<Rightarrow> link_state" where
  "new_host_instance m l =
     (let reason = (if lk_hostInstance l = None then ''The host no longer runs this process'' else ''The host restarted and its processes ended'')
      in (renumber (fold (fail_proc reason) (lost_processes m l) l))
           \<lparr>lk_hostInstance := Some (hl_instance m), lk_updateRequested := None, lk_updateSent := False\<rparr>)"

definition received_seqs :: "link_state \<Rightarrow> (string \<times> nat) list" where
  "received_seqs l = map (\<lambda>p. (p, case lk_object l p of None \<Rightarrow> 0 | Some r \<Rightarrow> rp_lastSeq r)) (lk_procs l)"

definition handleHello :: "hello \<Rightarrow> link_state \<Rightarrow> link_state \<times> to_host list" where
  "handleHello m l =
     (if hl_protocol m \<noteq> HOST_PROTOCOL_VERSION then (l, [Rejected])
      else
        let sameInstance = (lk_hostInstance l = Some (hl_instance m));
            l' = (if sameInstance then l else new_host_instance m l);
            applied = (if hl_appliedFrom m = Some (lk_instance l') then hl_applied m else 0)
        in (l'\<lparr>lk_online := True\<rparr>,
            Welcome (lk_instance l') (lk_epoch l') (received_seqs l')
            # (if lk_updateSent l' then [] else map (\<lambda>(s, c). Command s c) (filter (\<lambda>(s, c). applied < s) (lk_unacked l')))
            @ (case lk_updateRequested l' of Some commit \<Rightarrow> if sameInstance \<and> lk_updateSent l' then [Update commit] else [] | None \<Rightarrow> [])))"

definition acknowledge :: "string \<Rightarrow> nat \<Rightarrow> link_state \<Rightarrow> link_state" where
  "acknowledge p s l = l\<lparr>lk_acks := AList.update p (max s (case map_of (lk_acks l) p of None \<Rightarrow> 0 | Some t \<Rightarrow> t)) (lk_acks l)\<rparr>"

definition handleEvent :: "string \<Rightarrow> nat \<Rightarrow> host_event \<Rightarrow> link_state \<Rightarrow> link_state" where
  "handleEvent p s ev l = (case tracked l p of
       None \<Rightarrow> acknowledge p s l
     | Some r \<Rightarrow>
         if s = rp_lastSeq r + 1 then
           acknowledge p s (apply_event p ev (r\<lparr>rp_lastSeq := s, rp_events := rp_events r @ [ev]\<rparr>) l)
         else if s \<le> rp_lastSeq r then acknowledge p s l
         else l)"

text \<open>The acknowledgements of a burst, sent when the event loop moves on.\<close>

definition flushAcks :: "link_state \<Rightarrow> link_state \<times> to_host list" where
  "flushAcks l = (l\<lparr>lk_acks := []\<rparr>, if lk_socket l then map (\<lambda>(p, s). EventAck p s) (lk_acks l) else [])"

text \<open>\<open>updateSent\<close> is set when the update of the host is sent; giving up on it sends what was held back.\<close>

definition send_update :: "string \<Rightarrow> link_state \<Rightarrow> link_state \<times> to_host list" where
  "send_update commit l = (l\<lparr>lk_updateRequested := Some commit, lk_updateSent := True\<rparr>, [Update commit])"

definition abandonUpdate :: "link_state \<Rightarrow> link_state \<times> to_host list" where
  "abandonUpdate l = (l\<lparr>lk_updateSent := False\<rparr>,
     if lk_online l \<and> lk_socket l then map (\<lambda>(s, c). Command s c) (lk_unacked l) else [])"

definition link_receive :: "to_coordinator \<Rightarrow> link_state \<Rightarrow> link_state \<times> to_host list" where
  "link_receive m l = (case m of
       Hello h \<Rightarrow> handleHello h l
     | Event p s ev \<Rightarrow> (handleEvent p s ev l, [])
     | CommandAck s \<Rightarrow> (l\<lparr>lk_unacked := filter (\<lambda>(t, c). s < t) (lk_unacked l)\<rparr>, [])
     | UpdateFailed commit err \<Rightarrow> if Some commit \<noteq> lk_updateRequested l then (l, []) else abandonUpdate l)"

section \<open>The host's side\<close>

datatype process_control = NoControl | ChildControl | TerminalControl

record hosted =
  hp_control :: process_control
  hp_nextSeq :: nat
  hp_pending :: "(nat \<times> host_event) list"
  hp_unfinished :: bytes
  hp_exited :: bool
  hp_events :: "host_event list"   \<comment> \<open>history: events in the current numbering\<close>

definition new_hosted :: hosted where
  "new_hosted = \<lparr>hp_control = NoControl, hp_nextSeq = 1, hp_pending = [], hp_unfinished = [], hp_exited = False, hp_events = []\<rparr>"

text \<open>What the host does on its machine.\<close>

datatype host_effect =
    DoStart string launch
  | DoTerminal string string nat nat
  | DoWrite string bytes
  | DoEnd string
  | DoResize string nat nat
  | DoSignal string string
  | DoFile string bytes

record host_state =
  hs_instance :: string
  hs_open :: bool
  hs_coordinator :: "string option"
  hs_highestEpoch :: nat
  hs_applied :: nat
  hs_procs :: "(string \<times> hosted) list"
  hs_prepared :: "string list"
  hs_stopped :: bool
  hs_effects :: "host_effect list"
  hs_commands :: "host_command list"   \<comment> \<open>history: commands applied from this coordinator\<close>

definition new_host :: "string \<Rightarrow> host_state" where
  "new_host i = \<lparr>hs_instance = i, hs_open = False, hs_coordinator = None, hs_highestEpoch = 0, hs_applied = 0, hs_procs = [],
     hs_prepared = [], hs_stopped = False, hs_effects = [], hs_commands = []\<rparr>"

definition host_hello :: "host_state \<Rightarrow> to_coordinator" where
  "host_hello h = Hello \<lparr>hl_protocol = HOST_PROTOCOL_VERSION, hl_instance = hs_instance h, hl_applied = hs_applied h,
     hl_appliedFrom = hs_coordinator h, hl_processes = map fst (hs_procs h)\<rparr>"

definition host_connect :: "host_state \<Rightarrow> host_state \<times> to_coordinator list" where
  "host_connect h = (if hs_stopped h then (h, []) else (h\<lparr>hs_open := True\<rparr>, [host_hello h]))"

definition host_disconnect :: "host_state \<Rightarrow> host_state" where
  "host_disconnect h = h\<lparr>hs_open := False\<rparr>"

definition set_proc :: "string \<Rightarrow> hosted \<Rightarrow> host_state \<Rightarrow> host_state" where
  "set_proc p hp h = h\<lparr>hs_procs := AList.update p hp (hs_procs h)\<rparr>"

definition drop_proc :: "string \<Rightarrow> host_state \<Rightarrow> host_state" where
  "drop_proc p h = h\<lparr>hs_procs := AList.delete p (hs_procs h)\<rparr>"

definition do_effect :: "host_effect \<Rightarrow> host_state \<Rightarrow> host_state" where
  "do_effect e h = h\<lparr>hs_effects := hs_effects h @ [e]\<rparr>"

abbreviation host_connected :: "host_state \<Rightarrow> bool" where
  "host_connected h \<equiv> hs_open h \<and> hs_coordinator h \<noteq> None"

definition emit :: "string \<Rightarrow> host_event \<Rightarrow> host_state \<Rightarrow> host_state \<times> to_coordinator list" where
  "emit p ev h = (case map_of (hs_procs h) p of
       None \<Rightarrow> (h, [])
     | Some hp \<Rightarrow> if hp_exited hp then (h, [])
         else
           let s = hp_nextSeq hp;
               hp' = hp\<lparr>hp_exited := (case ev of EvExit code signal \<Rightarrow> True | _ \<Rightarrow> False), hp_nextSeq := s + 1,
                 hp_pending := hp_pending hp @ [(s, ev)], hp_events := hp_events hp @ [ev]\<rparr>
           in (set_proc p hp' h, if host_connected h then [Event p s ev] else []))"

fun emit_all :: "string \<Rightarrow> host_event list \<Rightarrow> host_state \<Rightarrow> host_state \<times> to_coordinator list" where
  "emit_all p [] h = (h, [])"
| "emit_all p (ev # evs) h = (let (h', out) = emit p ev h; (h'', out') = emit_all p evs h' in (h'', out @ out'))"

subsection \<open>Commands\<close>

definition control_of :: "string \<Rightarrow> host_state \<Rightarrow> process_control" where
  "control_of p h = (case map_of (hs_procs h) p of None \<Rightarrow> NoControl | Some hp \<Rightarrow> hp_control hp)"

definition drive :: "process_control set \<Rightarrow> string \<Rightarrow> host_effect \<Rightarrow> host_state \<Rightarrow> host_state" where
  "drive controls p e h = (if control_of p h \<in> controls then do_effect e h else h)"

text \<open>\<open>fails\<close> gives the error a start throws on this machine, if it does.\<close>

definition host_spawn :: "(host_command \<Rightarrow> string option) \<Rightarrow> string \<Rightarrow> launch \<Rightarrow> host_state \<Rightarrow> host_state \<times> to_coordinator list" where
  "host_spawn fails p l h =
     (let h1 = set_proc p new_hosted h;
          gone = (case la_prepared l of None \<Rightarrow> False | Some i \<Rightarrow> i \<notin> set (hs_prepared h));
          h2 = (case la_prepared l of None \<Rightarrow> h1 | Some i \<Rightarrow> h1\<lparr>hs_prepared := filter (\<lambda>j. j \<noteq> i) (hs_prepared h)\<rparr>)
      in if gone then emit_all p [EvError ''The prepared launch is gone; the host may have restarted'', EvExit None None] h2
         else case fails (CmdSpawn p l) of
           Some message \<Rightarrow> emit_all p [EvError message, EvExit None None] h2
         | None \<Rightarrow> (do_effect (DoStart p l) (set_proc p (new_hosted\<lparr>hp_control := ChildControl\<rparr>) h2), []))"

definition host_spawn_terminal :: "(host_command \<Rightarrow> string option) \<Rightarrow> string \<Rightarrow> string \<Rightarrow> nat \<Rightarrow> nat \<Rightarrow> host_state \<Rightarrow> host_state \<times> to_coordinator list" where
  "host_spawn_terminal fails p cwd cols rows h =
     (let h1 = set_proc p new_hosted h
      in case fails (CmdSpawnTerminal p cwd cols rows) of
           Some message \<Rightarrow> emit_all p [EvError message, EvExit None None] h1
         | None \<Rightarrow> emit p (EvSpawned None) (do_effect (DoTerminal p cwd cols rows) (set_proc p (new_hosted\<lparr>hp_control := TerminalControl\<rparr>) h1)))"

definition apply_command :: "(host_command \<Rightarrow> string option) \<Rightarrow> host_command \<Rightarrow> host_state \<Rightarrow> host_state \<times> to_coordinator list" where
  "apply_command fails c h = (case c of
       CmdSpawn p l \<Rightarrow> host_spawn fails p l h
     | CmdSpawnTerminal p cwd cols rows \<Rightarrow> host_spawn_terminal fails p cwd cols rows h
     | CmdWriteFile path b \<Rightarrow> (do_effect (DoFile path b) h, [])
     | CmdStdin p b \<Rightarrow> (drive {ChildControl, TerminalControl} p (DoWrite p b) h, [])
     | CmdStdinEnd p \<Rightarrow> (drive {ChildControl} p (DoEnd p) h, [])
     | CmdResize p cols rows \<Rightarrow> (drive {TerminalControl} p (DoResize p cols rows) h, [])
     | CmdKill p signal \<Rightarrow> (drive {ChildControl, TerminalControl} p (DoSignal p signal) h, []))"

definition host_command_message :: "(host_command \<Rightarrow> string option) \<Rightarrow> nat \<Rightarrow> host_command \<Rightarrow> host_state \<Rightarrow> host_state \<times> to_coordinator list" where
  "host_command_message fails s c h =
     (if s \<le> hs_applied h then (h, [CommandAck s])
      else if s \<noteq> hs_applied h + 1 then (h, [])
      else let (h', out) = apply_command fails c h
           in (h'\<lparr>hs_applied := s, hs_commands := hs_commands h' @ [c]\<rparr>, out @ [CommandAck s]))"

subsection \<open>Acknowledged events\<close>

text \<open>The bytes after the last newline of what was there before, followed by a chunk.\<close>

definition lineRemainder :: "bytes \<Rightarrow> bytes \<Rightarrow> bytes" where
  "lineRemainder previous chunk = (if 10 \<in> set chunk then rev (takeWhile (\<lambda>b. b \<noteq> 10) (rev chunk)) else previous @ chunk)"

fun note_line :: "host_event \<Rightarrow> bytes \<Rightarrow> bytes" where
  "note_line (EvStdout b) line = lineRemainder line b"
| "note_line _ line = line"

definition ack_events :: "nat \<Rightarrow> hosted \<Rightarrow> hosted" where
  "ack_events s hp = hp\<lparr>hp_unfinished := fold (\<lambda>(t, ev). note_line ev) (takeWhile (\<lambda>(t, ev). t \<le> s) (hp_pending hp)) (hp_unfinished hp),
     hp_pending := filter (\<lambda>(t, ev). s < t) (hp_pending hp)\<rparr>"

definition event_acked :: "string \<Rightarrow> nat \<Rightarrow> host_state \<Rightarrow> host_state" where
  "event_acked p s h = (case map_of (hs_procs h) p of
       None \<Rightarrow> h
     | Some hp \<Rightarrow> let hp' = ack_events s hp
         in if hp_exited hp' \<and> hp_pending hp' = [] then drop_proc p h else set_proc p hp' h)"

subsection \<open>The coordinator's welcome\<close>

definition end_process :: "string \<Rightarrow> host_state \<Rightarrow> host_state" where
  "end_process p h = drop_proc p (drive {ChildControl, TerminalControl} p (DoSignal p ''SIGTERM'') h)"

abbreviation resend :: "string \<Rightarrow> hosted \<Rightarrow> to_coordinator list" where
  "resend p hp \<equiv> map (\<lambda>(s, ev). Event p s ev) (hp_pending hp)"

text \<open>One process of a welcome: ended unless the coordinator names it, else what is unacknowledged is sent again.\<close>

definition restore_process :: "(nat \<Rightarrow> hosted \<Rightarrow> hosted) \<Rightarrow> (string \<times> nat) list \<Rightarrow> string \<Rightarrow> host_state \<Rightarrow> host_state \<times> to_coordinator list" where
  "restore_process f received p h = (case map_of (hs_procs h) p of None \<Rightarrow> (h, [])
     | Some hp \<Rightarrow> (case map_of received p of
         None \<Rightarrow> (end_process p h, [])
       | Some s \<Rightarrow> (set_proc p (f s hp) h, resend p (f s hp))))"

definition drop_received :: "nat \<Rightarrow> hosted \<Rightarrow> hosted" where
  "drop_received s hp = hp\<lparr>hp_pending := filter (\<lambda>(t, ev). s < t) (hp_pending hp)\<rparr>"

definition readopt :: "hosted \<Rightarrow> hosted" where
  "readopt hp = (let events = (if hp_unfinished hp = [] then [] else [EvStdout (hp_unfinished hp)]) @ map snd (hp_pending hp)
     in hp\<lparr>hp_unfinished := [], hp_pending := enumerate 1 events, hp_nextSeq := length events + 1, hp_events := events\<rparr>)"

fun each_process :: "(string \<Rightarrow> host_state \<Rightarrow> host_state \<times> to_coordinator list) \<Rightarrow> string list \<Rightarrow> host_state \<Rightarrow> host_state \<times> to_coordinator list" where
  "each_process f [] h = (h, [])"
| "each_process f (p # ps) h = (let (h', out) = f p h; (h'', out') = each_process f ps h' in (h'', out @ out'))"

definition handleWelcome :: "string \<Rightarrow> (string \<times> nat) list \<Rightarrow> host_state \<Rightarrow> host_state \<times> to_coordinator list" where
  "handleWelcome i received h =
     (if hs_coordinator h = Some i then each_process (restore_process drop_received received) (map fst (hs_procs h)) h
      else each_process (restore_process (\<lambda>s. readopt) received) (map fst (hs_procs h))
             (h\<lparr>hs_coordinator := Some i, hs_applied := 0, hs_prepared := [], hs_commands := []\<rparr>))"

definition host_stop :: "host_state \<Rightarrow> host_state" where
  "host_stop h = fold (\<lambda>p. drive {ChildControl, TerminalControl} p (DoSignal p ''SIGTERM'')) (map fst (hs_procs h))
     (h\<lparr>hs_stopped := True, hs_open := False\<rparr>)"

definition host_receive :: "(host_command \<Rightarrow> string option) \<Rightarrow> to_host \<Rightarrow> host_state \<Rightarrow> host_state \<times> to_coordinator list" where
  "host_receive fails m h = (case m of
       Welcome i epoch received \<Rightarrow>
         if epoch < hs_highestEpoch h then (host_disconnect h, [])
         else handleWelcome i received (h\<lparr>hs_highestEpoch := epoch\<rparr>)
     | Command s c \<Rightarrow> host_command_message fails s c h
     | EventAck p s \<Rightarrow> (event_acked p s h, [])
     | Rejected \<Rightarrow> (host_stop h, [])
     | Update commit \<Rightarrow> (h, []))"

definition prepare_launch :: "string \<Rightarrow> host_state \<Rightarrow> host_state" where
  "prepare_launch i h = h\<lparr>hs_prepared := i # hs_prepared h\<rparr>"

end
