(* ===== verification/Link_System.thy ===== *)
theory Link_System
  imports Host_Link
begin

text \<open>
  A coordinator and a host joined by a connection that can be lost at any time: every order of
  messages, drops, reconnects and restarts of either side, and the facts about single operations that
  the invariants of the link use.
\<close>

section \<open>The system\<close>

record link_system =
  sy_link :: link_state
  sy_host :: host_state
  sy_to_host :: "to_host list"
  sy_to_coord :: "to_coordinator list"
  sy_instances :: "string set"
  sy_processes :: "string set"

text \<open>What is sent on a connection that its receiver has given up is lost.\<close>

definition joined :: "link_state \<Rightarrow> host_state \<Rightarrow> to_host list \<Rightarrow> to_coordinator list \<Rightarrow> string set \<Rightarrow> string set \<Rightarrow> link_system" where
  "joined l h q r is ps = \<lparr>sy_link = l, sy_host = h, sy_to_host = (if hs_open h then q else []),
     sy_to_coord = (if lk_socket l then r else []), sy_instances = is, sy_processes = ps\<rparr>"

definition acquainted :: "link_state \<Rightarrow> host_state \<Rightarrow> bool" where
  "acquainted l h \<longleftrightarrow> hs_coordinator h = Some (lk_instance l) \<and> lk_hostInstance l = Some (hs_instance h)"

definition starts :: "string \<Rightarrow> host_command \<Rightarrow> bool" where
  "starts p c \<longleftrightarrow> (case c of CmdSpawn q l \<Rightarrow> q = p | CmdSpawnTerminal q cwd cols rows \<Rightarrow> q = p | _ \<Rightarrow> False)"

fun is_spawned :: "host_event \<Rightarrow> bool" where
  "is_spawned (EvSpawned pid) = True"
| "is_spawned _ = False"

text \<open>
  The code lets a second connection replace the first, a node restart and a host be released at any
  time. What the link promises holds of orderly runs, in which three things do not happen:
  a node connects while the coordinator still takes an older connection for alive although the two
  do not know each other; a node restarts while a start it failed is half reported; a host whose node
  is the one the coordinator knows is given up. The relations below carry a flag: with \<open>False\<close> they
  are what the code does, with \<open>True\<close> the runs without these three. \<open>Link_Runs\<close> shows what happens
  otherwise.
\<close>

definition expected_connection :: "link_state \<Rightarrow> host_state \<Rightarrow> bool" where
  "expected_connection l h \<longleftrightarrow> (lk_online l \<longrightarrow> acquainted l h)"

definition starts_reported :: "link_state \<Rightarrow> to_coordinator list \<Rightarrow> bool" where
  "starts_reported l r \<longleftrightarrow> (\<forall>p rp. tracked l p = Some rp \<longrightarrow> \<not> rp_started rp \<longrightarrow>
     rp_events rp = [] \<and> (\<forall>ev. Event p 1 ev \<in> set r \<longrightarrow> is_spawned ev))"

definition node_gone :: "link_state \<Rightarrow> host_state \<Rightarrow> bool" where
  "node_gone l h \<longleftrightarrow> lk_hostInstance l \<noteq> Some (hs_instance h)"

text \<open>
  An operation of the coordinator, with the ids of processes in use before and after. Ids are random
  and so not in use.
\<close>

inductive coordinator_op :: "bool \<Rightarrow> host_state \<Rightarrow> string set \<Rightarrow> link_state \<Rightarrow> string set \<Rightarrow> link_state \<times> to_host list \<Rightarrow> bool"
  for orderly h where
  start: "p \<notin> ps \<Longrightarrow> starts p c \<Longrightarrow> coordinator_op orderly h ps l (insert p ps) (startProcess p (\<lambda>_. c) l)"
| adopt: "lk_object l p = None \<Longrightarrow> coordinator_op orderly h ps l (insert p ps) (adopt p l, [])"
| kill: "coordinator_op orderly h ps l ps (kill_process p signal l)"
| resize: "coordinator_op orderly h ps l ps (resize_process p cols rows l)"
| stdin: "lk_object l p = Some rp \<Longrightarrow> coordinator_op orderly h ps l ps (write_stdin p b l)"
| stdin_end: "lk_object l p = Some rp \<Longrightarrow> coordinator_op orderly h ps l ps (end_stdin p l)"
| write_file: "coordinator_op orderly h ps l ps (writeFileInOrder path b l)"
| release: "orderly \<longrightarrow> node_gone l h \<Longrightarrow> coordinator_op orderly h ps l ps (release_host reason l, [])"
| flush: "coordinator_op orderly h ps l ps (flushAcks l)"
| update: "lk_online l \<Longrightarrow> lk_socket l \<Longrightarrow> coordinator_op orderly h ps l ps (send_update commit l)"
| abandon: "coordinator_op orderly h ps l ps (abandonUpdate l)"
| detach: "coordinator_op orderly h ps l ps (detach l, [])"

text \<open>Whether the operating system can start a process, \<open>fails\<close>, is open at every command.\<close>

inductive link_step :: "bool \<Rightarrow> link_system \<Rightarrow> link_system \<Rightarrow> bool"
  for orderly where
  connect: "\<not> hs_open h \<Longrightarrow> \<not> hs_stopped h \<Longrightarrow> orderly \<longrightarrow> expected_connection l h \<Longrightarrow> host_connect h = (h', out)
     \<Longrightarrow> link_step orderly (joined l h q r is ps) (joined (attach l) h' [] out is ps)"
| host_drops: "link_step orderly (joined l h q r is ps) (joined l (host_disconnect h) q r is ps)"
| host_reads: "hs_open h \<Longrightarrow> host_receive fails m h = (h', out)
     \<Longrightarrow> link_step orderly (joined l h (m # q) r is ps) (joined l h' q (r @ out) is ps)"
| coordinator_reads: "lk_socket l \<Longrightarrow> link_receive m l = (l', out)
     \<Longrightarrow> link_step orderly (joined l h q (m # r) is ps) (joined l' h (q @ out) r is ps)"
| coordinator_acts: "coordinator_op orderly h ps l ps' (l', out)
     \<Longrightarrow> link_step orderly (joined l h q r is ps) (joined l' h (q @ out) r is ps')"
| child_event: "emit p ev h = (h', out) \<Longrightarrow> link_step orderly (joined l h q r is ps) (joined l h' q (r @ out) is ps)"
| update_fails: "hs_open h \<Longrightarrow> link_step orderly (joined l h q r is ps) (joined l h q (r @ [UpdateFailed commit err]) is ps)"
| launch_prepared: "link_step orderly (joined l h q r is ps) (joined l (prepare_launch i h) q r is ps)"
| coordinator_restarts: "i \<notin> is
     \<Longrightarrow> link_step orderly (joined l h q r is ps) (joined (new_link i epoch) h [] [] (insert i is) ps)"
| host_restarts: "i \<notin> is \<Longrightarrow> orderly \<longrightarrow> starts_reported l r
     \<Longrightarrow> link_step orderly (joined l h q r is ps) (joined l (new_host i) q r (insert i is) ps)"

inductive link_reachable :: "bool \<Rightarrow> link_system \<Rightarrow> bool"
  for orderly where
  initial: "i \<noteq> j \<Longrightarrow> link_reachable orderly (joined (new_link i epoch) (new_host j) [] [] {i, j} {})"
| step: "link_reachable orderly s \<Longrightarrow> link_step orderly s s' \<Longrightarrow> link_reachable orderly s'"

section \<open>Operations of the coordinator\<close>

lemma link_frame [simp]:
  "lk_instance (set_object p rp l) = lk_instance l" "lk_socket (set_object p rp l) = lk_socket l"
  "lk_online (set_object p rp l) = lk_online l" "lk_hostInstance (set_object p rp l) = lk_hostInstance l"
  "lk_updateSent (set_object p rp l) = lk_updateSent l" "lk_nextSeq (set_object p rp l) = lk_nextSeq l"
  "lk_unacked (set_object p rp l) = lk_unacked l" "lk_acks (set_object p rp l) = lk_acks l"
  "lk_commands (set_object p rp l) = lk_commands l" "lk_procs (set_object p rp l) = lk_procs l"
  "lk_epoch (set_object p rp l) = lk_epoch l" "lk_updateRequested (set_object p rp l) = lk_updateRequested l"
  "lk_object (set_object p rp l) = (lk_object l)(p \<mapsto> rp)"
  "lk_instance (untrack p l) = lk_instance l" "lk_socket (untrack p l) = lk_socket l"
  "lk_online (untrack p l) = lk_online l" "lk_hostInstance (untrack p l) = lk_hostInstance l"
  "lk_updateSent (untrack p l) = lk_updateSent l" "lk_nextSeq (untrack p l) = lk_nextSeq l"
  "lk_unacked (untrack p l) = lk_unacked l" "lk_acks (untrack p l) = lk_acks l"
  "lk_commands (untrack p l) = lk_commands l" "lk_object (untrack p l) = lk_object l"
  "lk_epoch (untrack p l) = lk_epoch l" "lk_updateRequested (untrack p l) = lk_updateRequested l"
  "lk_procs (untrack p l) = filter (\<lambda>q. q \<noteq> p) (lk_procs l)"
  by (simp_all add: set_object_def untrack_def)

text \<open>What an operation on the process objects leaves alone.\<close>

definition same_link :: "link_state \<Rightarrow> link_state \<Rightarrow> bool" where
  "same_link l l' \<longleftrightarrow> lk_instance l' = lk_instance l \<and> lk_socket l' = lk_socket l \<and> lk_online l' = lk_online l
     \<and> lk_hostInstance l' = lk_hostInstance l \<and> lk_updateSent l' = lk_updateSent l \<and> lk_nextSeq l' = lk_nextSeq l
     \<and> lk_unacked l' = lk_unacked l \<and> lk_acks l' = lk_acks l \<and> lk_commands l' = lk_commands l \<and> lk_epoch l' = lk_epoch l
     \<and> lk_updateRequested l' = lk_updateRequested l"

lemma same_link_trans: "same_link l l' \<Longrightarrow> same_link l' l'' \<Longrightarrow> same_link l l''"
  by (simp add: same_link_def)

lemma same_link_simps [simp]: "same_link l l" "same_link l (set_object p rp l')  = same_link l l'" "same_link l (untrack p l') = same_link l l'"
  by (simp_all add: same_link_def)

lemma same_finish [simp]: "same_link l (finish_proc p code rp l') = same_link l l'"
  by (simp add: finish_proc_def)

lemma same_fail [simp]: "same_link l (fail_proc m p l') = same_link l l'"
  by (simp add: fail_proc_def split: option.split)

lemma same_apply [simp]: "same_link l (apply_event p ev rp l') = same_link l l'"
  by (simp add: apply_event_def split: host_event.split)

lemma same_fold_fail: "same_link l (fold (fail_proc m) ps l)"
  by (induction ps rule: rev_induct) simp_all

text \<open>Every tracked process has a live object, whose history is as long as its counter says.\<close>

fun is_exit :: "host_event \<Rightarrow> bool" where
  "is_exit (EvExit code signal) = True"
| "is_exit _ = False"

definition object_ok :: "remote_process \<Rightarrow> bool" where
  "object_ok rp \<longleftrightarrow> rp_lastSeq rp = length (rp_events rp) \<and> \<not> rp_exited rp \<and> (\<forall>ev \<in> set (rp_events rp). \<not> is_exit ev)"

definition objects_ok :: "link_state \<Rightarrow> bool" where
  "objects_ok l \<longleftrightarrow> (\<forall>p \<in> set (lk_procs l). \<exists>rp. lk_object l p = Some rp \<and> object_ok rp)"

lemma tracked_ok: "objects_ok l \<Longrightarrow> tracked l p = Some rp \<Longrightarrow> object_ok rp"
  by (auto simp: objects_ok_def tracked_def split: if_splits)

lemma tracked_iff: "objects_ok l \<Longrightarrow> (tracked l p \<noteq> None) = (p \<in> set (lk_procs l))"
  by (force simp: objects_ok_def tracked_def)

lemma tracked_set: "tracked (set_object p rp l) q = (if q = p then if p \<in> set (lk_procs l) then Some rp else None else tracked l q)"
  by (simp add: tracked_def)

lemma tracked_untrack: "tracked (untrack p l) q = (if q = p then None else tracked l q)"
  by (simp add: tracked_def)

lemma tracked_fail: "objects_ok l \<Longrightarrow> tracked (fail_proc m p l) q = (if q = p then None else tracked l q)"
  by (auto simp: fail_proc_def finish_proc_def tracked_set tracked_untrack objects_ok_def object_ok_def tracked_def split: option.split)

lemma procs_fail: "objects_ok l \<Longrightarrow> set (lk_procs (fail_proc m p l)) = set (lk_procs l) - {p}"
  by (auto simp: fail_proc_def finish_proc_def objects_ok_def object_ok_def split: option.split)

lemma objects_ok_fail: "objects_ok l \<Longrightarrow> objects_ok (fail_proc m p l)"
proof -
  assume l: "objects_ok l"
  have "lk_object (fail_proc m p l) q = lk_object l q" if "q \<noteq> p" for q
    using that by (simp add: fail_proc_def finish_proc_def split: option.split)
  then show ?thesis using l by (auto simp: objects_ok_def procs_fail [OF l])
qed

lemma fold_fail:
  "objects_ok l \<Longrightarrow> objects_ok (fold (fail_proc m) ps l) \<and> set (lk_procs (fold (fail_proc m) ps l)) = set (lk_procs l) - set ps
     \<and> (\<forall>q. tracked (fold (fail_proc m) ps l) q = (if q \<in> set ps then None else tracked l q))"
  by (induction ps arbitrary: l) (auto simp: objects_ok_fail procs_fail tracked_fail)

section \<open>Operations of the host\<close>

lemma map_of_procs [simp]:
  "map_of (hs_procs (set_proc p hp h)) = (map_of (hs_procs h))(p \<mapsto> hp)"
  "map_of (hs_procs (drop_proc p h)) = (map_of (hs_procs h))(p := None)"
  "hs_procs (do_effect e h) = hs_procs h"
  by (simp_all add: set_proc_def drop_proc_def do_effect_def update_conv' delete_conv')

lemma procs_drive [simp]: "hs_procs (drive cs p e h) = hs_procs h"
  by (simp add: drive_def)

definition same_host :: "host_state \<Rightarrow> host_state \<Rightarrow> bool" where
  "same_host h h' \<longleftrightarrow> hs_instance h' = hs_instance h \<and> hs_open h' = hs_open h \<and> hs_coordinator h' = hs_coordinator h
     \<and> hs_highestEpoch h' = hs_highestEpoch h \<and> hs_applied h' = hs_applied h \<and> hs_stopped h' = hs_stopped h \<and> hs_commands h' = hs_commands h"

lemma same_host_simps [simp]: "same_host h h" "same_host h (set_proc p hp h') = same_host h h'" "same_host h (drop_proc p h') = same_host h h'"
  "same_host h (do_effect e h') = same_host h h'" "same_host h (drive cs p e h') = same_host h h'"
  "same_host h (h'\<lparr>hs_prepared := xs\<rparr>) = same_host h h'" "same_host (set_proc p hp h) h' = same_host h h'"
  by (simp_all add: same_host_def set_proc_def drop_proc_def do_effect_def drive_def)

lemma same_host_trans: "same_host h h' \<Longrightarrow> same_host h' h'' \<Longrightarrow> same_host h h''"
  by (simp add: same_host_def)

lemma same_emit [simp]: "same_host h (fst (emit p ev h')) = same_host h h'"
  by (simp add: emit_def Let_def split: option.split)

lemma same_emit_all: "same_host h (fst (emit_all p evs h))"
proof (induction evs arbitrary: h)
  case (Cons ev evs)
  have "same_host h (fst (emit p ev h))" by simp
  from same_host_trans [OF this Cons.IH [of "fst (emit p ev h)"]] show ?case by (simp add: Let_def split_beta)
qed simp

declare emit_all.simps [simp del]

lemma same_spawn [simp]: "same_host h (fst (host_spawn fails p l h))"
proof -
  have "same_host h (fst (emit_all p evs h'))" if "same_host h h'" for evs h'
    using same_emit_all that same_host_trans by blast
  then show ?thesis by (simp add: host_spawn_def Let_def split: option.split)
qed

lemma same_terminal [simp]: "same_host h (fst (host_spawn_terminal fails p cwd cols rows h))"
proof -
  have "same_host h (fst (emit_all p evs h'))" if "same_host h h'" for evs h'
    using same_emit_all that same_host_trans by blast
  then show ?thesis by (simp add: host_spawn_terminal_def Let_def split: option.split)
qed

lemma same_apply_command [simp]: "same_host h (fst (apply_command fails c h))"
  by (simp add: apply_command_def split: host_command.split)

lemma same_event_acked [simp]: "same_host h (event_acked p s h)"
  by (simp add: event_acked_def Let_def split: option.split)

lemma same_restore [simp]: "same_host h (fst (restore_process f rec p h))"
  by (simp add: restore_process_def end_process_def Let_def split: option.split)

lemma same_each:
  assumes "\<And>h p. same_host h (fst (f p h))" shows "same_host h (fst (each_process f ps h))"
proof (induction ps arbitrary: h)
  case (Cons p ps)
  from same_host_trans [OF assms Cons.IH [of "fst (f p h)"]] show ?case by (simp add: Let_def split_beta)
qed simp

end
