(* ===== verification/Link_Streams.thy ===== *)
theory Link_Streams
  imports Link_System "HOL-Library.Sublist"
begin

text \<open>
  How the operations of the host move the events of one process: what a process has kept, what is in
  flight, and what the coordinator makes of it.
\<close>

section \<open>Delivery of one process's events\<close>

fun events_of :: "string \<Rightarrow> to_coordinator list \<Rightarrow> (nat \<times> host_event) list" where
  "events_of p [] = []"
| "events_of p (Event q s ev # r) = (if q = p then (s, ev) # events_of p r else events_of p r)"
| "events_of p (m # r) = events_of p r"

lemma events_of_append [simp]: "events_of p (r @ r') = events_of p r @ events_of p r'"
  by (induction p r rule: events_of.induct) simp_all

lemma events_of_set: "(s, ev) \<in> set (events_of p r) \<longleftrightarrow> Event p s ev \<in> set r"
  by (induction p r rule: events_of.induct) auto

lemma events_of_resend: "events_of p (resend q hp) = (if q = p then hp_pending hp else [])"
proof -
  have "events_of p (map (\<lambda>(s, ev). Event q s ev) xs) = (if q = p then xs else [])" for xs by (induction xs) auto
  then show ?thesis by simp
qed

fun deliver :: "host_event list \<Rightarrow> (nat \<times> host_event) list \<Rightarrow> host_event list" where
  "deliver G [] = G"
| "deliver G ((s, ev) # xs) = deliver (if s = Suc (length G) then G @ [ev] else G) xs"

lemma deliver_append [simp]: "deliver G (xs @ ys) = deliver (deliver G xs) ys"
  by (induction G xs rule: deliver.induct) simp_all

lemma deliver_extends: "\<exists>zs. deliver G xs = G @ zs"
  by (induction G xs rule: deliver.induct) (auto split: if_splits)

lemma deliver_late: "\<forall>(s, ev) \<in> set xs. 2 \<le> s \<Longrightarrow> deliver [] xs = []"
proof (induction xs)
  case (Cons x xs)
  then show ?case by (cases x) simp
qed simp

text \<open>What is kept and sent again closes every gap.\<close>

lemma deliver_enumerate: "deliver G (enumerate (Suc (length G)) evs) = G @ evs"
  by (induction evs arbitrary: G) (simp_all, metis Suc_eq_plus1 append.assoc append_Cons append_Nil length_append_singleton)

lemma deliver_resent:
  assumes "k \<le> n" "n \<le> length E" shows "deliver (take n E) (drop k (enumerate 1 E)) = E"
proof -
  have seen: "deliver G xs = G" if "\<forall>(s, ev) \<in> set xs. s \<le> length G" for G xs
    using that by (induction G xs rule: deliver.induct) auto
  have "enumerate 1 E = enumerate 1 (take n E) @ enumerate (Suc n) (drop n E)"
    using assms(2) by (metis append_take_drop_id enumerate_append_eq length_take min.absorb2 plus_1_eq_Suc)
  then have "drop k (enumerate 1 E) = drop k (enumerate 1 (take n E)) @ enumerate (Suc n) (drop n E)"
    using assms by simp
  moreover have "deliver (take n E) (drop k (enumerate 1 (take n E))) = take n E"
    using assms(2) by (intro seen) (auto simp: in_set_enumerate_eq dest!: in_set_dropD)
  moreover have "deliver (take n E) (enumerate (Suc n) (drop n E)) = E"
    using deliver_enumerate [of "take n E" "drop n E"] assms(2) by (simp add: min.absorb2)
  ultimately show ?thesis by simp
qed

section \<open>What a process keeps\<close>

definition acked :: "hosted \<Rightarrow> nat" where
  "acked hp = length (hp_events hp) - length (hp_pending hp)"

definition hosted_ok :: "hosted \<Rightarrow> bool" where
  "hosted_ok hp \<longleftrightarrow> length (hp_pending hp) \<le> length (hp_events hp) \<and> hp_pending hp = drop (acked hp) (enumerate 1 (hp_events hp))
     \<and> hp_nextSeq hp = Suc (length (hp_events hp)) \<and> (\<forall>ev \<in> set (butlast (hp_events hp)). \<not> is_exit ev)
     \<and> hp_exited hp = (hp_events hp \<noteq> [] \<and> is_exit (last (hp_events hp))) \<and> (hp_exited hp \<longrightarrow> acked hp < length (hp_events hp))
     \<and> (acked hp = 0 \<longrightarrow> hp_unfinished hp = [])"

lemma new_hosted_ok: "hosted_ok new_hosted" "hosted_ok (new_hosted\<lparr>hp_control := c\<rparr>)"
  by (simp_all add: hosted_ok_def acked_def new_hosted_def)

definition grown :: "hosted \<Rightarrow> host_event list \<Rightarrow> hosted \<Rightarrow> bool" where
  "grown hp evs hp' \<longleftrightarrow> hp_events hp' = hp_events hp @ evs \<and> acked hp' = acked hp \<and> hp_unfinished hp' = hp_unfinished hp \<and> hosted_ok hp'"

lemma grown_trans: "grown hp evs hp1 \<Longrightarrow> grown hp1 evs' hp' \<Longrightarrow> grown hp (evs @ evs') hp'"
  by (simp add: grown_def)

lemma grown_same: "hosted_ok hp \<Longrightarrow> grown hp [] (hp\<lparr>hp_control := c\<rparr>)" "hosted_ok hp \<Longrightarrow> grown hp [] hp"
  by (simp_all add: grown_def hosted_ok_def acked_def)

abbreviation hosts_ok :: "host_state \<Rightarrow> bool" where
  "hosts_ok h \<equiv> \<forall>p hp. map_of (hs_procs h) p = Some hp \<longrightarrow> hosted_ok hp"

fun grows :: "bool \<Rightarrow> hosted option \<Rightarrow> hosted option \<Rightarrow> (nat \<times> host_event) list \<Rightarrow> bool" where
  "grows c None x es \<longleftrightarrow> x = None \<and> es = []"
| "grows c (Some hp) x es \<longleftrightarrow> (\<exists>evs hp'. x = Some hp' \<and> grown hp evs hp'
     \<and> es = (if c then enumerate (Suc (length (hp_events hp))) evs else []))"

lemma grows_refl: "(\<And>hp. x = Some hp \<Longrightarrow> hosted_ok hp) \<Longrightarrow> grows c x x []"
  by (cases x) (auto intro!: exI [of _ "[]"] simp: grown_same(2))

lemma grows_trans: "grows c x y es \<Longrightarrow> grows c y z es' \<Longrightarrow> grows c x z (es @ es')"
proof (cases x)
  case (Some hp)
  assume a: "grows c x y es" and b: "grows c y z es'"
  from a Some obtain evs hp1 where 1: "y = Some hp1" "grown hp evs hp1" "es = (if c then enumerate (Suc (length (hp_events hp))) evs else [])"
    by auto
  from b 1(1) obtain evs' hp2 where 2: "z = Some hp2" "grown hp1 evs' hp2" "es' = (if c then enumerate (Suc (length (hp_events hp1))) evs' else [])"
    by auto
  have "grown hp (evs @ evs') hp2" using 1(2) 2(2) by (rule grown_trans)
  moreover have "es @ es' = (if c then enumerate (Suc (length (hp_events hp))) (evs @ evs') else [])"
    using 1(2,3) 2(3) by (simp add: grown_def enumerate_append_eq)
  ultimately show ?thesis using 2(1) Some by auto
qed simp

text \<open>An operation that only adds events, and sends those it adds when the host is connected.\<close>

fun is_event :: "to_coordinator \<Rightarrow> bool" where
  "is_event (Event p s ev) = True"
| "is_event _ = False"

definition emits :: "host_state \<Rightarrow> host_state \<Rightarrow> to_coordinator list \<Rightarrow> bool" where
  "emits h h' out \<longleftrightarrow> same_host h h' \<and> (\<forall>m \<in> set out. is_event m)
     \<and> (\<forall>p. grows (host_connected h) (map_of (hs_procs h) p) (map_of (hs_procs h') p) (events_of p out))"

lemma emits_hosts_ok: "emits h h' out \<Longrightarrow> hosts_ok h'"
proof (intro allI impI)
  fix p hp assume e: "emits h h' out" and p: "map_of (hs_procs h') p = Some hp"
  from e have "grows (host_connected h) (map_of (hs_procs h) p) (Some hp) (events_of p out)"
    by (simp add: emits_def p [symmetric])
  then show "hosted_ok hp" by (cases "map_of (hs_procs h) p") (auto simp: grown_def)
qed

lemma emits_none: "hosts_ok h \<Longrightarrow> same_host h h' \<Longrightarrow> map_of (hs_procs h') = map_of (hs_procs h) \<Longrightarrow> emits h h' []"
  by (auto simp: emits_def intro!: grows_refl)

lemma emits_trans:
  assumes a: "emits h h1 out1" and b: "emits h1 h2 out2" shows "emits h h2 (out1 @ out2)"
proof -
  have c: "host_connected h1 = host_connected h" using a by (simp add: emits_def same_host_def)
  have "grows (host_connected h) (map_of (hs_procs h) p) (map_of (hs_procs h2) p) (events_of p out1 @ events_of p out2)" for p
    using a b unfolding emits_def c by (blast intro: grows_trans)
  then show ?thesis using a b same_host_trans [of h h1 h2] unfolding emits_def by auto
qed

lemma emits_emit:
  assumes h: "hosts_ok h" shows "emits h (fst (emit p ev h)) (snd (emit p ev h))"
proof (cases "map_of (hs_procs h) p")
  case None
  then show ?thesis using emits_none [OF h] by (simp add: emit_def)
next
  case (Some hp)
  show ?thesis
  proof (cases "hp_exited hp")
    case True
    then show ?thesis using Some emits_none [OF h] by (simp add: emit_def)
  next
    case False
    define hp' where "hp' = hp\<lparr>hp_exited := is_exit ev, hp_nextSeq := hp_nextSeq hp + 1,
       hp_pending := hp_pending hp @ [(hp_nextSeq hp, ev)], hp_events := hp_events hp @ [ev]\<rparr>"
    have x: "(case ev of EvExit code signal \<Rightarrow> True | _ \<Rightarrow> False) = is_exit ev" by (cases ev) simp_all
    have ok: "hosted_ok hp" using h Some by blast
    have a: "acked hp' = acked hp" by (simp add: hp'_def acked_def)
    have g: "grown hp [ev] hp'"
    proof -
      have n: "\<forall>ev \<in> set (hp_events hp). \<not> is_exit ev"
      proof (cases "hp_events hp" rule: rev_cases)
        case (snoc xs x)
        then show ?thesis using ok False by (auto simp: hosted_ok_def)
      qed simp
      have k: "acked hp \<le> length (hp_events hp)" by (simp add: acked_def)
      have "hp_pending hp' = drop (acked hp) (enumerate 1 (hp_events hp'))"
        using ok k by (simp add: hosted_ok_def hp'_def enumerate_append_eq)
      then have "hosted_ok hp'" unfolding hosted_ok_def a
        using ok n k by (simp add: hp'_def hosted_ok_def)
      then show ?thesis using a by (simp add: grown_def hp'_def)
    qed
    have e: "emit p ev h = (set_proc p hp' h, if host_connected h then [Event p (Suc (length (hp_events hp))) ev] else [])"
      using Some False ok by (simp add: emit_def Let_def hp'_def x hosted_ok_def)
    have "grows (host_connected h) (map_of (hs_procs h) q) (map_of (hs_procs (set_proc p hp' h)) q)
        (events_of q (if host_connected h then [Event p (Suc (length (hp_events hp))) ev] else []))" for q
    proof (cases "q = p")
      case True
      then show ?thesis using Some g by (auto intro!: exI [of _ "[ev]"])
    next
      case False
      then show ?thesis using h by (simp add: grows_refl)
    qed
    then show ?thesis unfolding e emits_def by simp
  qed
qed

lemma emits_emit_all:
  "hosts_ok h \<Longrightarrow> emits h (fst (emit_all p evs h)) (snd (emit_all p evs h))"
proof (induction evs arbitrary: h)
  case Nil
  then show ?case using emits_none by (simp add: emit_all.simps)
next
  case (Cons ev evs)
  note 1 = emits_emit [OF Cons.prems, of p ev]
  from emits_trans [OF 1 Cons.IH [OF emits_hosts_ok [OF 1]]] show ?case by (simp add: emit_all.simps Let_def split_beta)
qed

text \<open>A start begins with an empty process; any other command moves no events.\<close>

lemma emits_drive: "hosts_ok h \<Longrightarrow> emits h (drive cs p e h) []"
  by (rule emits_none) simp_all

lemma emits_start:
  assumes h: "hosts_ok h" and c: "starts p c"
  shows "\<exists>k. emits (set_proc p (new_hosted\<lparr>hp_control := k\<rparr>) h) (fst (apply_command fails c h)) (snd (apply_command fails c h))"
proof -
  have ok: "hosts_ok (set_proc p (new_hosted\<lparr>hp_control := k\<rparr>) h')" if "hs_procs h' = hs_procs h" for k h'
    using h that new_hosted_ok by simp
  have frame: "emits (set_proc p hp h1) h2 out" if "emits (set_proc p hp h3) h2 out" "same_host h1 h3" "hs_procs h3 = hs_procs h1" for hp h1 h2 h3 out
    using that by (simp add: emits_def same_host_def set_proc_def)
  have new: "new_hosted = new_hosted\<lparr>hp_control := NoControl\<rparr>" by (simp add: new_hosted_def)
  show ?thesis
  proof (cases c)
    case (CmdSpawn q l)
    then have q: "q = p" using c by (simp add: starts_def)
    define h2 where "h2 = (case la_prepared l of None \<Rightarrow> h | Some i \<Rightarrow> h\<lparr>hs_prepared := filter (\<lambda>j. j \<noteq> i) (hs_prepared h)\<rparr>)"
    have h2: "same_host h h2" "hs_procs h2 = hs_procs h" by (simp_all add: h2_def split: option.split)
    have p: "(case la_prepared l of None \<Rightarrow> set_proc p new_hosted h | Some i \<Rightarrow> (set_proc p new_hosted h)\<lparr>hs_prepared := filter (\<lambda>j. j \<noteq> i) (hs_prepared h)\<rparr>)
        = set_proc p new_hosted h2" by (simp add: h2_def set_proc_def split: option.split)
    have a: "\<exists>k. emits (set_proc p (new_hosted\<lparr>hp_control := k\<rparr>) h) (fst (emit_all p evs (set_proc p new_hosted h2))) (snd (emit_all p evs (set_proc p new_hosted h2)))" for evs
      using frame [OF emits_emit_all h2] ok [of h2 NoControl] h2(2) new by metis
    have b: "\<exists>k. emits (set_proc p (new_hosted\<lparr>hp_control := k\<rparr>) h) (do_effect (DoStart p l) (set_proc p (new_hosted\<lparr>hp_control := ChildControl\<rparr>) (set_proc p new_hosted h2))) []"
      by (rule exI [of _ ChildControl], rule emits_none, rule ok [OF refl], simp_all add: h2)
    define gone where "gone = (case la_prepared l of None \<Rightarrow> False | Some i \<Rightarrow> i \<notin> set (hs_prepared h))"
    have "host_spawn fails p l h = (if gone then emit_all p [EvError ''The prepared launch is gone; the host may have restarted'', EvExit None None] (set_proc p new_hosted h2)
       else case fails (CmdSpawn p l) of Some message \<Rightarrow> emit_all p [EvError message, EvExit None None] (set_proc p new_hosted h2)
         | None \<Rightarrow> (do_effect (DoStart p l) (set_proc p (new_hosted\<lparr>hp_control := ChildControl\<rparr>) (set_proc p new_hosted h2)), []))"
      by (simp only: host_spawn_def Let_def p gone_def)
    then show ?thesis using a b by (cases gone; cases "fails (CmdSpawn p l)") (simp_all add: CmdSpawn q apply_command_def)
  next
    case (CmdSpawnTerminal q cwd cols rows)
    then have q: "q = p" using c by (simp add: starts_def)
    have a: "\<exists>k. emits (set_proc p (new_hosted\<lparr>hp_control := k\<rparr>) h) (fst (emit_all p evs (set_proc p new_hosted h))) (snd (emit_all p evs (set_proc p new_hosted h)))" for evs
      using emits_emit_all ok [of h NoControl] new by metis
    define ht where "ht = do_effect (DoTerminal p cwd cols rows) (set_proc p (new_hosted\<lparr>hp_control := TerminalControl\<rparr>) (set_proc p new_hosted h))"
    have t: "emits (set_proc p (new_hosted\<lparr>hp_control := TerminalControl\<rparr>) h) ht []"
      by (rule emits_none, rule ok [OF refl], simp_all add: ht_def)
    have b: "\<exists>k. emits (set_proc p (new_hosted\<lparr>hp_control := k\<rparr>) h) (fst (emit p (EvSpawned None) ht)) (snd (emit p (EvSpawned None) ht))"
      using emits_trans [OF t emits_emit [OF emits_hosts_ok [OF t]]] by auto
    show ?thesis using a b by (simp add: CmdSpawnTerminal q apply_command_def host_spawn_terminal_def Let_def ht_def split: option.split)
  qed (use c in \<open>simp_all add: starts_def\<close>)
qed

lemma emits_other:
  assumes h: "hosts_ok h" and c: "\<And>p. \<not> starts p c"
  shows "emits h (fst (apply_command fails c h)) (snd (apply_command fails c h)) \<and> snd (apply_command fails c h) = []"
proof -
  have e: "emits h (do_effect e h) []" for e by (rule emits_none [OF h]) simp_all
  show ?thesis using c emits_drive [OF h] e by (cases c) (auto simp: apply_command_def starts_def)
qed

section \<open>Acknowledgements and welcomes\<close>

lemma filter_enumerate: "filter (\<lambda>(t, ev). s < t) (drop k (enumerate 1 E)) = drop (max k s) (enumerate 1 E)"
proof -
  have f: "filter (\<lambda>(t, ev). s < t) (enumerate (Suc m) xs) = drop (s - m) (enumerate (Suc m) xs)" for m and xs :: "'a list"
  proof (induction xs arbitrary: m)
    case (Cons x xs)
    show ?case
    proof (cases "s \<le> m")
      case True
      have "filter (\<lambda>(t, ev). s < t) (enumerate (Suc m) (x # xs)) = enumerate (Suc m) (x # xs)"
        using True by (intro filter_True) (auto simp: in_set_enumerate_eq)
      then show ?thesis using True by simp
    next
      case False
      then show ?thesis using Cons.IH [of "Suc m"] by (simp add: drop_Cons' Suc_diff_Suc)
    qed
  qed simp
  have "drop k (enumerate m E) = enumerate (m + k) (drop k E)" for m
    by (induction E arbitrary: k m) (simp_all add: drop_Cons split: nat.split)
  from this [of 1] have "drop k (enumerate 1 E) = enumerate (Suc k) (drop k E)" by simp
  then have "filter (\<lambda>(t, ev). s < t) (drop k (enumerate 1 E)) = drop (s - k) (drop k (enumerate 1 E))"
    using f [of k "drop k E"] by simp
  also have "\<dots> = drop (max k s) (enumerate 1 E)" by (simp add: max_def)
  finally show ?thesis .
qed

lemma acked_drop: "acked (hp\<lparr>hp_pending := drop k (enumerate 1 (hp_events hp))\<rparr>) = min k (length (hp_events hp))"
  by (simp add: acked_def)

lemma hosted_pending: "hosted_ok hp \<Longrightarrow> filter (\<lambda>(t, ev). s < t) (hp_pending hp) = drop (max (acked hp) s) (enumerate 1 (hp_events hp))"
  using filter_enumerate [of s "acked hp" "hp_events hp"] by (simp add: hosted_ok_def)

lemma acked_le: "hosted_ok hp \<Longrightarrow> acked hp \<le> length (hp_events hp)"
  by (simp add: acked_def)

lemma drop_received_frame:
  assumes "hosted_ok hp"
  shows "hp_events (drop_received s hp) = hp_events hp \<and> hp_exited (drop_received s hp) = hp_exited hp
    \<and> acked (drop_received s hp) = min (max (acked hp) s) (length (hp_events hp))
    \<and> hp_pending (drop_received s hp) = drop (max (acked hp) s) (enumerate 1 (hp_events hp))"
proof -
  have p: "hp_pending (drop_received s hp) = drop (max (acked hp) s) (enumerate 1 (hp_events hp))"
    using hosted_pending [OF assms] by (simp add: drop_received_def)
  have a: "acked (drop_received s hp) = min (max (acked hp) s) (length (hp_events hp))"
    using p by (simp add: acked_def [of "drop_received s hp"], simp add: drop_received_def)
  show ?thesis using p a by (simp add: drop_received_def)
qed

lemma drop_min: "drop (min k (length E)) (enumerate 1 E) = drop k (enumerate 1 E)"
  by (simp add: min_def)

text \<open>Shortening what is kept, without forgetting an exit, is well-formed.\<close>

lemma hosted_ok_shorter:
  assumes hp: "hosted_ok hp"
    and f: "hp_events hp' = hp_events hp" "hp_exited hp' = hp_exited hp" "hp_nextSeq hp' = hp_nextSeq hp"
      "acked hp' = min k (length (hp_events hp))" "hp_pending hp' = drop k (enumerate 1 (hp_events hp))"
    and x: "hp_exited hp \<Longrightarrow> k < length (hp_events hp)" and u: "acked hp' = 0 \<Longrightarrow> hp_unfinished hp' = []"
  shows "hosted_ok hp'"
  unfolding hosted_ok_def
proof (intro conjI)
  show "length (hp_pending hp') \<le> length (hp_events hp')" by (simp add: f)
  show "hp_pending hp' = drop (acked hp') (enumerate 1 (hp_events hp'))" using f drop_min [of k "hp_events hp"] by simp
  show "hp_nextSeq hp' = Suc (length (hp_events hp'))" "\<forall>ev \<in> set (butlast (hp_events hp')). \<not> is_exit ev"
    "hp_exited hp' = (hp_events hp' \<noteq> [] \<and> is_exit (last (hp_events hp')))"
    using hp unfolding f hosted_ok_def by blast+
  show "hp_exited hp' \<longrightarrow> acked hp' < length (hp_events hp')" using x by (simp add: f)
  show "acked hp' = 0 \<longrightarrow> hp_unfinished hp' = []" using u by simp
qed

lemma drop_received_ok:
  assumes hp: "hosted_ok hp" and x: "hp_exited hp \<Longrightarrow> s < length (hp_events hp)" shows "hosted_ok (drop_received s hp)"
proof -
  note d = drop_received_frame [OF hp, of s]
  have a: "hp_exited hp \<Longrightarrow> acked hp < length (hp_events hp)" "acked hp = 0 \<Longrightarrow> hp_unfinished hp = []"
    "length (hp_events hp) = 0 \<Longrightarrow> acked hp = 0"
    using hp by (simp_all add: hosted_ok_def acked_def)
  have u: "acked (drop_received s hp) = 0 \<Longrightarrow> hp_unfinished (drop_received s hp) = []"
    using a(2,3) d by (simp add: min_def split: if_splits) (simp_all add: drop_received_def)
  have "hp_nextSeq (drop_received s hp) = hp_nextSeq hp" by (simp add: drop_received_def)
  then show ?thesis
    by (rule hosted_ok_shorter [OF hp, rotated 2, of _ "max (acked hp) s"]) (use d x a u in simp_all)
qed

lemma ack_events_frame:
  assumes hp: "hosted_ok hp"
  shows "hp_events (ack_events s hp) = hp_events hp \<and> hp_exited (ack_events s hp) = hp_exited hp
    \<and> acked (ack_events s hp) = min (max (acked hp) s) (length (hp_events hp))
    \<and> hp_pending (ack_events s hp) = drop (max (acked hp) s) (enumerate 1 (hp_events hp))"
proof -
  have "hp_pending (ack_events s hp) = hp_pending (drop_received s hp)" "hp_events (ack_events s hp) = hp_events (drop_received s hp)"
    by (simp_all add: ack_events_def drop_received_def)
  moreover from this have "acked (ack_events s hp) = acked (drop_received s hp)" by (simp only: acked_def)
  moreover have "hp_events (ack_events s hp) = hp_events hp" "hp_exited (ack_events s hp) = hp_exited hp" by (simp_all add: ack_events_def)
  ultimately show ?thesis using drop_received_frame [OF hp, of s] by simp
qed

lemma ack_events_ok:
  assumes hp: "hosted_ok hp" and d: "\<not> (hp_exited (ack_events s hp) \<and> hp_pending (ack_events s hp) = [])"
  shows "hosted_ok (ack_events s hp)"
proof -
  note f = ack_events_frame [OF hp, of s]
  have u: "hp_unfinished (ack_events s hp) = []" if "acked (ack_events s hp) = 0"
  proof (cases "hp_events hp = []")
    case True
    then have "hp_pending hp = []" using hp by (simp add: hosted_ok_def)
    then show ?thesis using hp True by (simp add: ack_events_def hosted_ok_def acked_def)
  next
    case False
    then have z: "acked hp = 0" "s = 0" using that f by (auto simp: min_def split: if_splits)
    have "takeWhile (\<lambda>(t, ev). t \<le> s) (hp_pending hp) = []"
      using hp z by (cases "hp_events hp") (auto simp: hosted_ok_def)
    then show ?thesis using hp z by (simp add: ack_events_def hosted_ok_def)
  qed
  have x: "hp_exited hp \<Longrightarrow> max (acked hp) s < length (hp_events hp)" using d f by (simp add: not_le)
  show ?thesis
    by (rule hosted_ok_shorter [OF hp, of _ "max (acked hp) s"]) (use f x u in \<open>simp_all\<close>, simp add: ack_events_def)
qed

lemma readopt_ok:
  assumes hp: "hosted_ok hp"
  shows "hosted_ok (readopt hp) \<and> acked (readopt hp) = 0 \<and> hp_pending (readopt hp) = enumerate 1 (hp_events (readopt hp))
    \<and> (acked hp = 0 \<longrightarrow> hp_events (readopt hp) = hp_events hp)"
proof -
  define E where "E = hp_events hp"
  define F where "F = hp_events (readopt hp)"
  have F: "F = (if hp_unfinished hp = [] then [] else [EvStdout (hp_unfinished hp)]) @ drop (acked hp) E"
    using hp by (simp add: F_def readopt_def Let_def hosted_ok_def E_def drop_map [symmetric])
  have r: "hp_pending (readopt hp) = enumerate 1 F" "hp_nextSeq (readopt hp) = Suc (length F)" "hp_exited (readopt hp) = hp_exited hp"
    "hp_unfinished (readopt hp) = []"
    by (simp_all add: F_def readopt_def Let_def)
  have a: "acked (readopt hp) = 0" by (simp add: acked_def r F_def [symmetric])
  have E: "\<forall>ev \<in> set (butlast E). \<not> is_exit ev" "hp_exited hp = (E \<noteq> [] \<and> is_exit (last E))" "hp_exited hp \<Longrightarrow> acked hp < length E"
    using hp by (simp_all add: hosted_ok_def E_def)
  have b: "\<not> is_exit ev" if "ev \<in> set (butlast F)" for ev
  proof -
    have "ev = EvStdout (hp_unfinished hp) \<or> ev \<in> set (butlast (drop (acked hp) E))"
      using that by (auto simp: F butlast_append split: if_splits)
    moreover have "set (butlast (drop (acked hp) E)) \<subseteq> set (butlast E)" by (simp add: butlast_drop set_drop_subset)
    ultimately show ?thesis using E(1) by auto
  qed
  have x: "hp_exited hp = (F \<noteq> [] \<and> is_exit (last F))"
  proof (cases "acked hp < length E")
    case True
    then have "F \<noteq> [] \<and> E \<noteq> [] \<and> last F = last E" by (auto simp: F)
    then show ?thesis using E(2) by simp
  next
    case False
    then show ?thesis using E(3) by (auto simp: F)
  qed
  have "acked hp = 0 \<Longrightarrow> F = E" using hp by (simp add: F hosted_ok_def)
  then show ?thesis using a b x r by (auto simp: hosted_ok_def F_def E_def)
qed

definition distinct_procs :: "host_state \<Rightarrow> bool" where
  "distinct_procs h \<longleftrightarrow> distinct (map fst (hs_procs h))"

lemma distinct_procs_simps [simp]: "distinct_procs h \<Longrightarrow> distinct_procs (set_proc p hp h)" "distinct_procs h \<Longrightarrow> distinct_procs (drop_proc p h)"
  "distinct_procs (do_effect e h) = distinct_procs h" "distinct_procs (drive cs p e h) = distinct_procs h"
  by (simp_all add: distinct_procs_def set_proc_def drop_proc_def do_effect_def drive_def distinct_update distinct_delete)

text \<open>A welcome treats every process once.\<close>

lemma restore_each:
  fixes f rec ps h
  defines "R \<equiv> each_process (restore_process f rec) ps h"
  assumes "distinct ps"
  shows "(\<forall>q. map_of (hs_procs (fst R)) q = (if q \<in> set ps then (case map_of (hs_procs h) q of None \<Rightarrow> None
         | Some hp \<Rightarrow> (case map_of rec q of None \<Rightarrow> None | Some s \<Rightarrow> Some (f s hp))) else map_of (hs_procs h) q))
    \<and> (\<forall>q. events_of q (snd R) = (if q \<in> set ps then (case map_of (hs_procs h) q of None \<Rightarrow> []
         | Some hp \<Rightarrow> (case map_of rec q of None \<Rightarrow> [] | Some s \<Rightarrow> hp_pending (f s hp))) else []))
    \<and> (\<forall>m \<in> set (snd R). is_event m)"
  using assms(2) unfolding R_def
proof (induction ps arbitrary: h)
  case (Cons p ps)
  define h1 where "h1 = fst (restore_process f rec p h)"
  have h1: "map_of (hs_procs h1) q = (if q = p then (case map_of (hs_procs h) p of None \<Rightarrow> None
         | Some hp \<Rightarrow> (case map_of rec p of None \<Rightarrow> None | Some s \<Rightarrow> Some (f s hp))) else map_of (hs_procs h) q)" for q
    by (simp add: h1_def restore_process_def end_process_def Let_def split: option.split)
  have o: "events_of q (snd (restore_process f rec p h)) = (if q = p then (case map_of (hs_procs h) p of None \<Rightarrow> []
         | Some hp \<Rightarrow> (case map_of rec p of None \<Rightarrow> [] | Some s \<Rightarrow> hp_pending (f s hp))) else [])" for q
    by (auto simp: restore_process_def Let_def events_of_resend split: option.split)
  have e: "\<forall>m \<in> set (snd (restore_process f rec p h)). is_event m"
    by (auto simp: restore_process_def Let_def split: option.split)
  have "distinct ps" "p \<notin> set ps" using Cons.prems by simp_all
  from Cons.IH [OF this(1), of h1] this(2) show ?case
    using o e by (auto simp: Let_def split_beta h1_def [symmetric] h1)
qed simp

end
