(* ===== verification/Link_Invariant.thy ===== *)
theory Link_Invariant
  imports Link_Streams
begin

text \<open>
  The invariants of the link, over its two ends and what is in flight between them, and that every
  step keeps them: who knows whom, how the commands and the events are numbered, and that nothing is
  missing once the messages in flight are read.
\<close>

section \<open>The invariants\<close>

fun is_welcome :: "to_host \<Rightarrow> bool" where
  "is_welcome (Welcome i epoch received) = True"
| "is_welcome _ = False"

fun is_hello :: "to_coordinator \<Rightarrow> bool" where
  "is_hello (Hello m) = True"
| "is_hello _ = False"

fun numbered :: "to_host \<Rightarrow> bool" where
  "numbered (Command s c) = True"
| "numbered (EventAck p s) = True"
| "numbered _ = False"

text \<open>What the coordinator has received of a process it tracks, and whether it saw it start.\<close>

definition got :: "link_state \<Rightarrow> string \<Rightarrow> (host_event list \<times> bool) option" where
  "got l p = map_option (\<lambda>rp. (rp_events rp, rp_started rp)) (tracked l p)"

abbreviation hosted :: "host_state \<Rightarrow> string \<Rightarrow> hosted option" where
  "hosted h p \<equiv> map_of (hs_procs h) p"

definition met :: "link_state \<Rightarrow> host_state \<Rightarrow> bool" where
  "met l h \<longleftrightarrow> lk_hostInstance l = Some (hs_instance h)"

definition ids_ok :: "link_state \<Rightarrow> host_state \<Rightarrow> to_host list \<Rightarrow> to_coordinator list \<Rightarrow> string set \<Rightarrow> bool" where
  "ids_ok l h q r is \<longleftrightarrow> lk_instance l \<in> is \<and> hs_instance h \<in> is \<and> set_option (hs_coordinator h) \<subseteq> is \<and> set_option (lk_hostInstance l) \<subseteq> is
     \<and> (\<forall>m. Hello m \<in> set r \<longrightarrow> hl_instance m \<in> is)
     \<and> (\<forall>i epoch received. Welcome i epoch received \<in> set q \<longrightarrow> i = lk_instance l) \<and> length (filter is_welcome q) \<le> 1"

text \<open>A hello is the first message of a connection, and answered by one welcome.\<close>

definition hello_ok :: "link_state \<Rightarrow> host_state \<Rightarrow> hello \<Rightarrow> bool" where
  "hello_ok l h m \<longleftrightarrow> hl_protocol m = HOST_PROTOCOL_VERSION
     \<and> (if hl_instance m = hs_instance h
        then hl_appliedFrom m = hs_coordinator h \<and> hl_applied m \<le> hs_applied h
          \<and> (\<not> acquainted l h \<longrightarrow> set (hl_processes m) = dom (hosted h))
        else hs_coordinator h = None \<and> \<not> hs_open h \<and> \<not> met l h)"

definition phase_ok :: "link_state \<Rightarrow> host_state \<Rightarrow> to_host list \<Rightarrow> to_coordinator list \<Rightarrow> bool" where
  "phase_ok l h q r \<longleftrightarrow> (\<forall>m \<in> set (tl r). \<not> is_hello m) \<and> (\<forall>m. Hello m \<in> set r \<longrightarrow> hello_ok l h m)
     \<and> ((\<exists>m \<in> set q. is_welcome m) \<longrightarrow> (\<forall>m \<in> set r. \<not> is_hello m) \<and> met l h)
     \<and> (hs_coordinator h = Some (lk_instance l) \<longrightarrow> met l h)
     \<and> (hs_coordinator h = None \<longrightarrow> hs_procs h = [] \<and> hs_applied h = 0)
     \<and> (lk_hostInstance l \<noteq> None \<and> \<not> met l h \<longrightarrow> hs_coordinator h = None)
     \<and> (lk_hostInstance l = None \<longrightarrow> \<not> lk_online l)
     \<and> (lk_acks l \<noteq> [] \<longrightarrow> lk_online l \<and> (\<forall>x \<in> set r. \<not> is_hello x))
     \<and> (lk_socket l \<and> (\<forall>m \<in> set r. \<not> is_hello m) \<longrightarrow> lk_online l)
     \<and> (lk_online l \<and> hs_open h \<longrightarrow> (\<exists>m \<in> set q. is_welcome m) \<or> acquainted l h)
     \<and> (\<not> hs_open h \<longrightarrow> q = []) \<and> (\<not> lk_socket l \<longrightarrow> r = []) \<and> (lk_online l \<longrightarrow> lk_socket l)"

text \<open>The host that the coordinator last met is gone for good.\<close>

definition gone :: "link_state \<Rightarrow> host_state \<Rightarrow> to_coordinator list \<Rightarrow> bool" where
  "gone l h r \<longleftrightarrow> \<not> met l h \<and> (\<forall>m. Hello m \<in> set r \<longrightarrow> hl_instance m \<noteq> hs_instance h)"

definition numbers_ok :: "link_state \<Rightarrow> host_state \<Rightarrow> to_host list \<Rightarrow> to_coordinator list \<Rightarrow> bool" where
  "numbers_ok l h q r \<longleftrightarrow> lk_nextSeq l = Suc (length (lk_commands l))
     \<and> (met l h \<longrightarrow> (\<exists>k \<le> length (lk_commands l). lk_unacked l = drop k (enumerate 1 (lk_commands l))
          \<and> (if acquainted l h then k \<le> hs_applied h else k = 0)))
     \<and> (acquainted l h \<longrightarrow> hs_applied h \<le> length (lk_commands l) \<and> hs_commands h = take (hs_applied h) (lk_commands l))
     \<and> (\<forall>s c. Command s c \<in> set q \<longrightarrow> met l h \<and> 1 \<le> s \<and> s \<le> length (lk_commands l) \<and> lk_commands l ! (s - 1) = c)
     \<and> (\<not> acquainted l h \<longrightarrow> (\<forall>m \<in> set (takeWhile (\<lambda>m. \<not> is_welcome m) q). \<not> numbered m))
     \<and> (\<forall>s. CommandAck s \<in> set r \<longrightarrow> acquainted l h \<and> s \<le> hs_applied h \<or> gone l h r)"

definition starts_ok :: "link_state \<Rightarrow> host_state \<Rightarrow> string set \<Rightarrow> bool" where
  "starts_ok l h ps \<longleftrightarrow>
     (\<forall>p. length (filter (starts p) (lk_commands l)) \<le> 1)
     \<and> (\<forall>p. \<forall>c \<in> set (lk_commands l). starts p c \<longrightarrow> p \<in> ps)
     \<and> (\<forall>p i. hosted h p \<noteq> None \<and> i < length (lk_commands l) \<and> starts p (lk_commands l ! i) \<longrightarrow> acquainted l h \<and> i < hs_applied h)
     \<and> subseq (map snd (lk_unacked l)) (lk_commands l)"

definition known_ok :: "link_state \<Rightarrow> host_state \<Rightarrow> to_host list \<Rightarrow> to_coordinator list \<Rightarrow> string set \<Rightarrow> bool" where
  "known_ok l h q r ps \<longleftrightarrow> dom (hosted h) \<subseteq> ps \<and> set (lk_procs l) \<subseteq> ps \<and> fst ` set (lk_acks l) \<subseteq> ps
     \<and> (\<forall>p s ev. Event p s ev \<in> set r \<longrightarrow> p \<in> ps) \<and> (\<forall>p s. EventAck p s \<in> set q \<longrightarrow> p \<in> ps)
     \<and> (\<forall>i epoch received. Welcome i epoch received \<in> set q \<longrightarrow> fst ` set received \<subseteq> ps)"

text \<open>A process the coordinator tracks and the host has.\<close>

definition stream_ok :: "bool \<Rightarrow> host_event list \<Rightarrow> hosted \<Rightarrow> (nat \<times> host_event) list \<Rightarrow> bool" where
  "stream_ok acq G hp es \<longleftrightarrow>
     (if acq then prefix (deliver G es) (hp_events hp) \<and> acked hp \<le> length G
      else if acked hp = 0 then prefix (deliver G es) (hp_events hp) else G = [] \<and> (\<forall>(s, ev) \<in> set es. 2 \<le> s))"

definition process_ok :: "bool \<Rightarrow> bool \<Rightarrow> bool \<Rightarrow> hosted option \<Rightarrow> (nat \<times> host_event) list \<Rightarrow> host_event list \<Rightarrow> bool \<Rightarrow> bool" where
  "process_ok acq mt gn x es G st \<longleftrightarrow> (case x of
        Some hp \<Rightarrow> stream_ok acq G hp es
      | None \<Rightarrow> (\<not> gn \<longrightarrow> es = []) \<and> (mt \<longrightarrow> G = [])
          \<and> (\<not> mt \<and> \<not> st \<longrightarrow> G = [] \<and> (\<forall>ev. (1, ev) \<in> set es \<longrightarrow> is_spawned ev)))"

definition in_flight :: "host_state \<Rightarrow> to_coordinator list \<Rightarrow> bool" where
  "in_flight h r \<longleftrightarrow> (\<forall>p s ev. Event p s ev \<in> set r \<longrightarrow>
     (\<exists>hp. hosted h p = Some hp \<and> acked hp < s \<and> s \<le> length (hp_events hp) \<and> hp_events hp ! (s - 1) = ev))"

definition streams_ok :: "link_state \<Rightarrow> host_state \<Rightarrow> to_coordinator list \<Rightarrow> bool" where
  "streams_ok l h r \<longleftrightarrow>
     (\<forall>p G st. got l p = Some (G, st) \<longrightarrow> process_ok (acquainted l h) (met l h) (gone l h r) (hosted h p) (events_of p r) G st)
     \<and> (\<not> acquainted l h \<and> \<not> gone l h r \<longrightarrow> in_flight h r)"

text \<open>Acknowledgements on their way, and the counters in a welcome.\<close>

definition welcome_ok :: "link_state \<Rightarrow> host_state \<Rightarrow> to_host list \<Rightarrow> (string \<times> nat) list \<Rightarrow> bool" where
  "welcome_ok l h pre received \<longleftrightarrow>
     (\<forall>p G st. got l p = Some (G, st) \<longrightarrow> (case map_of received p of Some s \<Rightarrow> s \<le> length G
        | None \<Rightarrow> hosted h p = None \<and> (\<forall>s c. Command s c \<in> set pre \<longrightarrow> \<not> starts p c)))
     \<and> (acquainted l h \<longrightarrow> (\<forall>p s hp. map_of received p = Some s \<longrightarrow> hosted h p = Some hp
          \<longrightarrow> s \<le> length (hp_events hp) \<and> (hp_exited hp \<longrightarrow> s < length (hp_events hp))))
     \<and> (acquainted l h \<longrightarrow> (\<forall>p s i. map_of received p = Some s \<longrightarrow> hosted h p = None \<longrightarrow> hs_applied h \<le> i \<longrightarrow> i < length (lk_commands l)
          \<longrightarrow> starts p (lk_commands l ! i) \<longrightarrow> s = 0))"

definition acks_ok :: "link_state \<Rightarrow> host_state \<Rightarrow> to_host list \<Rightarrow> bool" where
  "acks_ok l h q \<longleftrightarrow>
     (\<forall>p G st s. got l p = Some (G, st) \<longrightarrow> EventAck p s \<in> set q \<or> (p, s) \<in> set (lk_acks l) \<longrightarrow> s \<le> length G)
     \<and> (\<forall>pre i epoch received post. q = pre @ Welcome i epoch received # post \<longrightarrow> welcome_ok l h pre received)"

text \<open>Nothing is missing once what is in flight is read.\<close>

fun will_apply :: "string option \<Rightarrow> nat \<Rightarrow> to_host list \<Rightarrow> nat" where
  "will_apply co a [] = a"
| "will_apply co a (Welcome i epoch received # q) = will_apply (Some i) (if co = Some i then a else 0) q"
| "will_apply co a (Command s c # q) = will_apply co (if s = Suc a then s else a) q"
| "will_apply co a (m # q) = will_apply co a q"

definition complete :: "link_state \<Rightarrow> host_state \<Rightarrow> to_host list \<Rightarrow> to_coordinator list \<Rightarrow> bool" where
  "complete l h q r \<longleftrightarrow> (lk_socket l \<and> hs_open h \<and> (\<forall>m \<in> set r. \<not> is_hello m) \<longrightarrow>
     ((\<forall>m \<in> set q. \<not> is_welcome m) \<longrightarrow>
        (\<forall>p G st hp. got l p = Some (G, st) \<longrightarrow> hosted h p = Some hp \<longrightarrow> deliver G (events_of p r) = hp_events hp))
     \<and> (\<not> lk_updateSent l \<longrightarrow> will_apply (hs_coordinator h) (hs_applied h) q = length (lk_commands l)))"

definition link_ok :: "link_state \<Rightarrow> host_state \<Rightarrow> to_host list \<Rightarrow> to_coordinator list \<Rightarrow> string set \<Rightarrow> string set \<Rightarrow> bool" where
  "link_ok l h q r is ps \<longleftrightarrow> objects_ok l \<and> hosts_ok h \<and> distinct_procs h \<and> ids_ok l h q r is \<and> phase_ok l h q r \<and> numbers_ok l h q r
     \<and> starts_ok l h ps \<and> known_ok l h q r ps \<and> streams_ok l h r \<and> acks_ok l h q \<and> complete l h q r"

definition system_ok :: "link_system \<Rightarrow> bool" where
  "system_ok s \<longleftrightarrow> link_ok (sy_link s) (sy_host s) (sy_to_host s) (sy_to_coord s) (sy_instances s) (sy_processes s)"

lemma link_okD:
  assumes "link_ok l h q r is ps"
  shows "objects_ok l" "hosts_ok h" "distinct_procs h" "ids_ok l h q r is" "phase_ok l h q r" "numbers_ok l h q r"
    "starts_ok l h ps" "known_ok l h q r ps" "streams_ok l h r" "acks_ok l h q" "complete l h q r"
  using assms unfolding link_ok_def by blast+

lemma link_okI:
  "objects_ok l \<Longrightarrow> hosts_ok h \<Longrightarrow> distinct_procs h \<Longrightarrow> ids_ok l h q r is \<Longrightarrow> phase_ok l h q r \<Longrightarrow> numbers_ok l h q r
    \<Longrightarrow> starts_ok l h ps \<Longrightarrow> known_ok l h q r ps \<Longrightarrow> streams_ok l h r \<Longrightarrow> acks_ok l h q \<Longrightarrow> complete l h q r \<Longrightarrow> link_ok l h q r is ps"
  unfolding link_ok_def by blast

lemma phase_okD:
  assumes "phase_ok l h q r"
  shows "x \<in> set (tl r) \<Longrightarrow> \<not> is_hello x" "Hello hl \<in> set r \<Longrightarrow> hello_ok l h hl"
    "m \<in> set q \<Longrightarrow> is_welcome m \<Longrightarrow> x \<in> set r \<Longrightarrow> \<not> is_hello x" "m \<in> set q \<Longrightarrow> is_welcome m \<Longrightarrow> met l h"
    "hs_coordinator h = Some (lk_instance l) \<Longrightarrow> met l h" "hs_coordinator h = None \<Longrightarrow> hs_procs h = []"
    "hs_coordinator h = None \<Longrightarrow> hs_applied h = 0" "lk_hostInstance l \<noteq> None \<Longrightarrow> \<not> met l h \<Longrightarrow> hs_coordinator h = None"
    "lk_hostInstance l = None \<Longrightarrow> \<not> lk_online l" "lk_acks l \<noteq> [] \<Longrightarrow> lk_online l"
    "lk_socket l \<Longrightarrow> \<forall>m \<in> set r. \<not> is_hello m \<Longrightarrow> lk_online l"
    "lk_online l \<Longrightarrow> hs_open h \<Longrightarrow> (\<exists>m \<in> set q. is_welcome m) \<or> acquainted l h"
    "\<not> hs_open h \<Longrightarrow> q = []" "\<not> lk_socket l \<Longrightarrow> r = []" "lk_online l \<Longrightarrow> lk_socket l"
    "lk_acks l \<noteq> [] \<Longrightarrow> \<forall>x \<in> set r. \<not> is_hello x"
  using assms unfolding phase_ok_def by blast+

lemma phase_okI:
  assumes "\<And>x. x \<in> set (tl r) \<Longrightarrow> \<not> is_hello x" "\<And>hl. Hello hl \<in> set r \<Longrightarrow> hello_ok l h hl"
    "\<exists>m \<in> set q. is_welcome m \<Longrightarrow> (\<forall>x \<in> set r. \<not> is_hello x) \<and> met l h"
    "hs_coordinator h = Some (lk_instance l) \<Longrightarrow> met l h" "hs_coordinator h = None \<Longrightarrow> hs_procs h = [] \<and> hs_applied h = 0"
    "lk_hostInstance l \<noteq> None \<Longrightarrow> \<not> met l h \<Longrightarrow> hs_coordinator h = None"
    "lk_hostInstance l = None \<Longrightarrow> \<not> lk_online l" "lk_acks l \<noteq> [] \<Longrightarrow> lk_online l \<and> (\<forall>x \<in> set r. \<not> is_hello x)"
    "lk_socket l \<Longrightarrow> \<forall>m \<in> set r. \<not> is_hello m \<Longrightarrow> lk_online l"
    "lk_online l \<Longrightarrow> hs_open h \<Longrightarrow> (\<exists>m \<in> set q. is_welcome m) \<or> acquainted l h"
    "\<not> hs_open h \<Longrightarrow> q = []" "\<not> lk_socket l \<Longrightarrow> r = []" "lk_online l \<Longrightarrow> lk_socket l"
  shows "phase_ok l h q r"
  unfolding phase_ok_def
  by (intro conjI impI allI ballI; (rule assms; assumption)?) (use assms in blast)+

lemma phase_view:
  assumes p: "phase_ok l h q r" and f: "lk_instance l' = lk_instance l" "lk_socket l' = lk_socket l" "lk_online l' = lk_online l"
      "lk_hostInstance l' = lk_hostInstance l" and a: "lk_acks l' \<noteq> [] \<Longrightarrow> lk_online l \<and> (\<forall>x \<in> set r. \<not> is_hello x)"
  shows "phase_ok l' h q r"
proof -
  note d = phase_okD [OF p]
  have v: "acquainted l' h = acquainted l h" "met l' h = met l h" "hello_ok l' h = hello_ok l h"
    using f by (auto simp: acquainted_def met_def hello_ok_def fun_eq_iff)
  show ?thesis
  proof (rule phase_okI, unfold f v)
    show "\<And>x. x \<in> set (tl r) \<Longrightarrow> \<not> is_hello x" by (rule d(1))
    show "\<And>hl. Hello hl \<in> set r \<Longrightarrow> hello_ok l h hl" by (rule d(2))
    show "\<exists>m \<in> set q. is_welcome m \<Longrightarrow> (\<forall>x \<in> set r. \<not> is_hello x) \<and> met l h" using d(3,4) by blast
    show "hs_coordinator h = None \<Longrightarrow> hs_procs h = [] \<and> hs_applied h = 0" using d(6,7) by blast
    show "lk_acks l' \<noteq> [] \<Longrightarrow> lk_online l \<and> (\<forall>x \<in> set r. \<not> is_hello x)" by (rule a)
  qed (fact d)+
qed

lemma numbers_okD:
  assumes "numbers_ok l h q r"
  shows "lk_nextSeq l = Suc (length (lk_commands l))"
    "met l h \<Longrightarrow> \<exists>k \<le> length (lk_commands l). lk_unacked l = drop k (enumerate 1 (lk_commands l))
       \<and> (if acquainted l h then k \<le> hs_applied h else k = 0)"
    "acquainted l h \<Longrightarrow> hs_applied h \<le> length (lk_commands l)" "acquainted l h \<Longrightarrow> hs_commands h = take (hs_applied h) (lk_commands l)"
    "Command s c \<in> set q \<Longrightarrow> met l h" "Command s c \<in> set q \<Longrightarrow> 1 \<le> s" "Command s c \<in> set q \<Longrightarrow> s \<le> length (lk_commands l)"
    "Command s c \<in> set q \<Longrightarrow> lk_commands l ! (s - 1) = c"
    "\<not> acquainted l h \<Longrightarrow> \<forall>m \<in> set (takeWhile (\<lambda>m. \<not> is_welcome m) q). \<not> numbered m"
    "CommandAck s \<in> set r \<Longrightarrow> acquainted l h \<and> s \<le> hs_applied h \<or> gone l h r"
  using assms unfolding numbers_ok_def by blast+

lemma known_okD:
  assumes k: "known_ok l h q r ps"
  shows "hosted h p = Some hp \<Longrightarrow> p \<in> ps" "p \<in> set (lk_procs l) \<Longrightarrow> p \<in> ps" "(p, s) \<in> set (lk_acks l) \<Longrightarrow> p \<in> ps"
    "Event p s ev \<in> set r \<Longrightarrow> p \<in> ps" "EventAck p s \<in> set q \<Longrightarrow> p \<in> ps"
    "Welcome i epoch received \<in> set q \<Longrightarrow> map_of received p = Some s \<Longrightarrow> p \<in> ps"
proof -
  have "dom (hosted h) \<subseteq> ps" "set (lk_procs l) \<subseteq> ps" using k by (simp_all add: known_ok_def)
  then show "hosted h p = Some hp \<Longrightarrow> p \<in> ps" "p \<in> set (lk_procs l) \<Longrightarrow> p \<in> ps" by auto
  have "fst ` set (lk_acks l) \<subseteq> ps" using k by (simp add: known_ok_def)
  then show "(p, s) \<in> set (lk_acks l) \<Longrightarrow> p \<in> ps" by force
  show "Event p s ev \<in> set r \<Longrightarrow> p \<in> ps" using k unfolding known_ok_def by blast
  show "EventAck p s \<in> set q \<Longrightarrow> p \<in> ps" using k unfolding known_ok_def by blast
  assume w: "Welcome i epoch received \<in> set q" and m: "map_of received p = Some s"
  from k w have "fst ` set received \<subseteq> ps" unfolding known_ok_def by blast
  with map_of_SomeD [OF m] show "p \<in> ps" by force
qed

lemma starts_okD:
  assumes "starts_ok l h ps"
  shows "length (filter (starts p) (lk_commands l)) \<le> 1"
    "c \<in> set (lk_commands l) \<Longrightarrow> starts p c \<Longrightarrow> p \<in> ps"
    "hosted h p \<noteq> None \<Longrightarrow> i < length (lk_commands l) \<Longrightarrow> starts p (lk_commands l ! i) \<Longrightarrow> acquainted l h \<and> i < hs_applied h"
    "subseq (map snd (lk_unacked l)) (lk_commands l)"
  using assms unfolding starts_ok_def by blast+

lemma got_new_link [simp]: "got (new_link i epoch) p = None"
  by (simp add: got_def tracked_def new_link_def)

lemma new_link_ok:
  assumes "i \<notin> is" "hs_instance h \<in> is" "set_option (hs_coordinator h) \<subseteq> is" "hosts_ok h" "distinct_procs h" "dom (hosted h) \<subseteq> ps"
    "hs_coordinator h = None \<Longrightarrow> hs_procs h = [] \<and> hs_applied h = 0"
  shows "link_ok (new_link i epoch) h [] [] (insert i is) ps"
proof -
  have "hs_coordinator h \<noteq> Some i" using assms(1,3) by auto
  then have a: "\<not> acquainted (new_link i epoch) h" by (simp add: acquainted_def new_link_def)
  have m: "\<not> met (new_link i epoch) h" by (simp add: met_def new_link_def)
  show ?thesis unfolding link_ok_def
  proof (intro conjI)
    show "objects_ok (new_link i epoch)" by (simp add: objects_ok_def new_link_def)
    show "ids_ok (new_link i epoch) h [] [] (insert i is)" using assms by (auto simp: ids_ok_def new_link_def)
    show "phase_ok (new_link i epoch) h [] []" using assms \<open>hs_coordinator h \<noteq> Some i\<close>
      by (auto simp: phase_ok_def new_link_def)
    show "numbers_ok (new_link i epoch) h [] []" using a m by (simp add: numbers_ok_def new_link_def)
    show "known_ok (new_link i epoch) h [] [] ps" using assms by (simp add: known_ok_def new_link_def)
    show "starts_ok (new_link i epoch) h ps" by (simp add: starts_ok_def new_link_def)
    show "streams_ok (new_link i epoch) h []" by (simp add: streams_ok_def in_flight_def)
    show "complete (new_link i epoch) h [] []" by (simp add: complete_def, simp add: new_link_def)
    show "acks_ok (new_link i epoch) h []" by (simp add: acks_ok_def)
  qed (use assms in simp_all)
qed

section \<open>The coordinator acts\<close>

lemma acquainted_met: "acquainted l h \<Longrightarrow> met l h"
  by (simp add: acquainted_def met_def)

text \<open>A change of the coordinator that concerns neither numbering nor the processes.\<close>

definition same_view :: "link_state \<Rightarrow> link_state \<Rightarrow> bool" where
  "same_view l l' \<longleftrightarrow> lk_instance l' = lk_instance l \<and> lk_socket l' = lk_socket l \<and> lk_online l' = lk_online l
     \<and> lk_hostInstance l' = lk_hostInstance l \<and> lk_nextSeq l' = lk_nextSeq l \<and> lk_unacked l' = lk_unacked l
     \<and> lk_acks l' = lk_acks l \<and> lk_commands l' = lk_commands l \<and> got l' = got l \<and> set (lk_procs l') = set (lk_procs l) \<and> objects_ok l'"

lemma link_ok_view:
  assumes v: "same_view l l'" and u: "lk_updateSent l' = lk_updateSent l \<or> lk_updateSent l'" and ok: "link_ok l h q r is ps"
  shows "link_ok l' h q r is ps"
proof -
  have a: "acquainted l' h = acquainted l h" "met l' h = met l h" "gone l' h r = gone l h r" "hello_ok l' h = hello_ok l h"
    using v by (auto simp: same_view_def acquainted_def met_def gone_def hello_ok_def fun_eq_iff)
  have w: "welcome_ok l' h = welcome_ok l h" using v a by (simp add: same_view_def welcome_ok_def fun_eq_iff)
  have f: "lk_instance l' = lk_instance l" "lk_socket l' = lk_socket l" "lk_online l' = lk_online l"
     "lk_hostInstance l' = lk_hostInstance l" "lk_nextSeq l' = lk_nextSeq l" "lk_unacked l' = lk_unacked l"
     "lk_acks l' = lk_acks l" "lk_commands l' = lk_commands l" "got l' = got l" "set (lk_procs l') = set (lk_procs l)" "objects_ok l'"
    using v by (simp_all add: same_view_def)
  note d = link_okD [OF ok]
  show ?thesis
  proof (rule link_okI)
    show "ids_ok l' h q r is" using d(4) unfolding ids_ok_def f .
    show "phase_ok l' h q r" using d(5) unfolding phase_ok_def f a .
    show "numbers_ok l' h q r" using d(6) unfolding numbers_ok_def f a .
    show "starts_ok l' h ps" using d(7) unfolding starts_ok_def f a .
    show "known_ok l' h q r ps" using d(8) unfolding known_ok_def f .
    show "streams_ok l' h r" using d(9) unfolding streams_ok_def f a .
    show "acks_ok l' h q" using d(10) unfolding acks_ok_def f w .
    show "complete l' h q r" using d(11) u unfolding complete_def f by metis
  qed (use d f in simp_all)
qed

lemma split_welcome: "q @ q' = pre @ Welcome i e rec # post \<Longrightarrow> \<forall>m \<in> set q'. \<not> is_welcome m \<Longrightarrow> \<exists>post'. q = pre @ Welcome i e rec # post'"
proof -
  assume s: "q @ q' = pre @ Welcome i e rec # post" and n: "\<forall>m \<in> set q'. \<not> is_welcome m"
  from s consider us where "q = pre @ us" "us @ q' = Welcome i e rec # post" | us where "q @ us = pre" "q' = us @ Welcome i e rec # post"
    by (auto simp: append_eq_append_conv2)
  then show ?thesis
  proof cases
    case 1
    then show ?thesis using n by (cases us) auto
  next
    case 2
    then show ?thesis using n by auto
  qed
qed

lemma will_apply_append: "\<forall>m \<in> set q'. \<not> is_welcome m \<Longrightarrow> will_apply co a (q @ q') = will_apply co (will_apply co a q) q'"
proof -
  assume n: "\<forall>m \<in> set q'. \<not> is_welcome m"
  have c: "will_apply co a q' = will_apply co' a q'" for co co' a
    using n
  proof (induction q' arbitrary: a)
    case (Cons m q')
    then show ?case by (cases m) simp_all
  qed simp
  show ?thesis
  proof (induction co a q rule: will_apply.induct)
    case (2 co a i e rec q)
    then show ?case using c by (metis append_Cons will_apply.simps(2))
  qed simp_all
qed

lemma online_sends:
  assumes "phase_ok l h q r" "lk_online l" "hs_open h"
  shows "met l h \<and> ((\<exists>m \<in> set q. is_welcome m) \<or> acquainted l h)"
  using assms acquainted_met unfolding phase_ok_def by blast

lemma early_append:
  assumes a: "\<forall>m \<in> set (takeWhile (\<lambda>m. \<not> is_welcome m) q). \<not> numbered m"
    and b: "(\<exists>m \<in> set q. is_welcome m) \<or> (\<forall>m \<in> set q'. \<not> numbered m)"
  shows "\<forall>m \<in> set (takeWhile (\<lambda>m. \<not> is_welcome m) (q @ q')). \<not> numbered m"
proof (cases "\<exists>m \<in> set q. is_welcome m")
  case True
  then have "takeWhile (\<lambda>m. \<not> is_welcome m) (q @ q') = takeWhile (\<lambda>m. \<not> is_welcome m) q" by (auto simp: takeWhile_append1)
  then show ?thesis using a by simp
next
  case False
  then have e: "takeWhile (\<lambda>m. \<not> is_welcome m) q = q" by (simp add: takeWhile_eq_all_conv)
  have "\<forall>m \<in> set q. \<not> numbered m" using a unfolding e .
  then show ?thesis using b False by (auto simp: takeWhile_append2 dest!: set_takeWhileD)
qed

lemma phase_append:
  assumes p: "phase_ok l h q r" and w: "\<forall>m \<in> set out. \<not> is_welcome m" and o: "\<not> hs_open h \<longrightarrow> out = []"
  shows "phase_ok l h (q @ out) r"
proof -
  have e: "(\<exists>m \<in> set (q @ out). is_welcome m) = (\<exists>m \<in> set q. is_welcome m)" using w by auto
  have n: "\<not> hs_open h \<longrightarrow> q @ out = []" using phase_okD(13) [OF p] o by simp
  show ?thesis using p n unfolding phase_ok_def e by (elim conjE) (intro conjI; assumption)
qed

lemma ids_append:
  assumes i: "ids_ok l h q r is" and w: "\<forall>m \<in> set out. \<not> is_welcome m" shows "ids_ok l h (q @ out) r is"
proof -
  have "Welcome i epoch received \<in> set (q @ out) \<longleftrightarrow> Welcome i epoch received \<in> set q" for i epoch received using w by auto
  moreover have "filter is_welcome out = []" using w by (simp add: filter_empty_conv)
  ultimately show ?thesis using i unfolding ids_ok_def by simp
qed

lemma known_append:
  assumes k: "known_ok l h q r ps" and w: "\<forall>m \<in> set out. \<not> is_welcome m" and a: "\<And>p s. EventAck p s \<in> set out \<Longrightarrow> p \<in> ps"
  shows "known_ok l h (q @ out) r ps"
proof -
  have "Welcome i epoch received \<in> set (q @ out) \<longleftrightarrow> Welcome i epoch received \<in> set q" for i epoch received using w by auto
  moreover have "EventAck p s \<in> set (q @ out) \<Longrightarrow> p \<in> ps" for p s using a known_okD(5) [OF k] by auto
  ultimately show ?thesis using k unfolding known_ok_def by (elim conjE, intro conjI) simp_all
qed

lemma enqueue_ok:
  assumes ok: "link_ok l h q r is ps" and e: "enqueue c l = (l', out)"
    and new: "\<And>p. starts p c \<Longrightarrow> p \<in> ps \<and> hosted h p = None \<and> (\<forall>c' \<in> set (lk_commands l). \<not> starts p c')
        \<and> (\<forall>i epoch received. Welcome i epoch received \<in> set q \<longrightarrow> map_of received p = None)"
  shows "link_ok l' h (if hs_open h then q @ out else []) r is ps"
proof -
  define N where "N = lk_commands l"
  define q' where "q' = (if hs_open h then q @ out else [])"
  note d = link_okD [OF ok]
  have nxt: "lk_nextSeq l = Suc (length N)" using d(6) by (simp add: numbers_ok_def N_def)
  have f: "lk_instance l' = lk_instance l" "lk_socket l' = lk_socket l" "lk_online l' = lk_online l" "lk_hostInstance l' = lk_hostInstance l"
    "lk_updateSent l' = lk_updateSent l" "lk_acks l' = lk_acks l" "lk_procs l' = lk_procs l" "lk_object l' = lk_object l"
    "lk_commands l' = N @ [c]" "lk_nextSeq l' = Suc (length (N @ [c]))" "lk_unacked l' = lk_unacked l @ [(Suc (length N), c)]"
    using e nxt by (auto simp: enqueue_def N_def)
  have out: "out = (if lk_online l \<and> lk_socket l \<and> \<not> lk_updateSent l then [Command (Suc (length N)) c] else [])"
    using e nxt by (auto simp: enqueue_def)
  have q0: "\<not> hs_open h \<Longrightarrow> q = []" using d(5) by (simp add: phase_ok_def)
  have q': "q' = q @ (if hs_open h then out else [])" using q0 by (simp add: q'_def)
  have sent: "met l h \<and> ((\<exists>m \<in> set q. is_welcome m) \<or> acquainted l h)" if "hs_open h" "out \<noteq> []"
    using online_sends [OF d(5)] that out by (auto split: if_splits)
  have v: "acquainted l' = acquainted l" "met l' = met l" "gone l' = gone l" "hello_ok l' = hello_ok l" "got l' = got l" "tracked l' = tracked l"
    using f by (auto simp: acquainted_def met_def gone_def hello_ok_def got_def tracked_def fun_eq_iff)
  have nw: "\<forall>m \<in> set (if hs_open h then out else []). \<not> is_welcome m" by (simp add: out)
  have "phase_ok l' h q' r"
  proof -
    have "phase_ok l h q' r" unfolding q' by (rule phase_append [OF d(5) nw]) simp
    then show ?thesis by (rule phase_view) (use phase_okD(10,16) [OF d(5)] f in simp_all)
  qed
  moreover have "ids_ok l' h q' r is" using d(4) by (auto simp: ids_ok_def f q' out)
  moreover have "numbers_ok l' h q' r"
  proof -
    have u: "\<exists>k \<le> length (N @ [c]). lk_unacked l' = drop k (enumerate 1 (N @ [c])) \<and> (if acquainted l h then k \<le> hs_applied h else k = 0)"
      if "met l h"
    proof -
      obtain k where k: "k \<le> length N" "lk_unacked l = drop k (enumerate 1 N)" "if acquainted l h then k \<le> hs_applied h else k = 0"
        using d(6) \<open>met l h\<close> by (auto simp: numbers_ok_def N_def)
      then have "lk_unacked l' = drop k (enumerate 1 (N @ [c]))" by (simp add: f enumerate_append_eq)
      then show ?thesis using k by (metis le_SucI length_append_singleton)
    qed
    have cq: "met l h \<and> 1 \<le> s \<and> s \<le> length (N @ [c]) \<and> (N @ [c]) ! (s - 1) = c'" if "Command s c' \<in> set q'" for s c'
    proof (cases "Command s c' \<in> set q")
      case True
      note n = numbers_okD(5-8) [OF d(6) this]
      then have "s - 1 < length N" by (simp add: N_def)
      then show ?thesis using n by (simp add: N_def nth_append)
    next
      case False
      then have "hs_open h" "out \<noteq> []" "s = Suc (length N)" "c' = c" using that by (auto simp: q' out split: if_splits)
      then show ?thesis using sent by simp
    qed
    have early: "\<forall>m \<in> set (takeWhile (\<lambda>m. \<not> is_welcome m) q'). \<not> numbered m" if "\<not> acquainted l h"
      unfolding q' using numbers_okD(9) [OF d(6) that] that sent by (cases "out = []") (auto intro!: early_append)
    have "acquainted l h \<Longrightarrow> hs_applied h \<le> length (N @ [c]) \<and> hs_commands h = take (hs_applied h) (N @ [c])"
      using numbers_okD(3,4) [OF d(6)] by (simp add: N_def)
    then show ?thesis
      using numbers_okD(10) [OF d(6)] u cq early unfolding numbers_ok_def f v by blast
  qed
  moreover have "starts_ok l' h ps"
  proof -
    have 1: "length (filter (starts p) (N @ [c])) \<le> 1" for p
    proof (cases "starts p c")
      case True
      then have "filter (starts p) N = []" using new [of p] by (simp add: N_def filter_empty_conv)
      then show ?thesis by simp
    next
      case False
      then show ?thesis using starts_okD(1) [OF d(7), of p] by (simp add: N_def)
    qed
    have 2: "p \<in> ps" if "c' \<in> set (N @ [c])" "starts p c'" for p c'
      using that d(7) new [of p] by (auto simp: starts_ok_def N_def)
    have 3: "acquainted l h \<and> i < hs_applied h" if "hosted h p \<noteq> None" "i < length (N @ [c])" "starts p ((N @ [c]) ! i)" for p i
    proof (cases "i < length N")
      case True
      then show ?thesis using starts_okD(3) [OF d(7) that(1)] that(3) by (simp add: N_def nth_append)
    next
      case False
      then show ?thesis using that new [of p] by (simp add: less_Suc_eq)
    qed
    have 4: "subseq (map snd (lk_unacked l')) (N @ [c])" using starts_okD(4) [OF d(7)] by (simp add: f N_def list_emb_append_mono)
    show ?thesis unfolding starts_ok_def v f(9) using 1 2 3 4 by blast
  qed
  moreover have "known_ok l' h q' r ps" using d(8) by (auto simp: known_ok_def f q' out)
  moreover have "streams_ok l' h r" using d(9) unfolding streams_ok_def f v .
  moreover have "acks_ok l' h q'"
    unfolding acks_ok_def
  proof (intro conjI allI impI)
    fix p G st s assume "got l' p = Some (G, st)" "EventAck p s \<in> set q' \<or> (p, s) \<in> set (lk_acks l')"
    then show "s \<le> length G" using d(10) by (auto simp: acks_ok_def v f q' out split: if_splits)
  next
    fix pre i epoch received post assume "q' = pre @ Welcome i epoch received # post"
    then obtain post' where q: "q = pre @ Welcome i epoch received # post'" using split_welcome nw q' by metis
    then have w: "welcome_ok l h pre received" using d(10) by (simp add: acks_ok_def)
    have n: "map_of received p = None" if "starts p c" for p using new [OF that] q by (metis in_set_conv_decomp)
    show "welcome_ok l' h pre received"
      using w n unfolding welcome_ok_def f v N_def [symmetric]
      by (auto simp: nth_append less_Suc_eq split: if_splits)
  qed
  moreover have "complete l' h q' r"
  proof -
    have "will_apply (hs_coordinator h) (hs_applied h) q' = Suc (length N)"
      if "lk_socket l" "hs_open h" "\<forall>m \<in> set r. \<not> is_hello m" "\<not> lk_updateSent l"
    proof -
      have "lk_online l" using d(5) that by (simp add: phase_ok_def)
      then have "q' = q @ [Command (Suc (length N)) c]" using that by (simp add: q' out)
      moreover have "will_apply (hs_coordinator h) (hs_applied h) q = length N" using d(11) that by (simp add: complete_def N_def)
      ultimately show ?thesis by (simp add: will_apply_append)
    qed
    then show ?thesis using d(11) nw unfolding complete_def f v by (auto simp: q')
  qed
  ultimately show ?thesis using d f v unfolding q'_def [symmetric] by (intro link_okI) (simp_all add: objects_ok_def)
qed

end
