(* ===== verification/Link_Coordinator.thy ===== *)
theory Link_Coordinator
  imports Link_Invariant
begin

text \<open>
  The coordinator's operations and the messages it reads keep the invariants of the link.
\<close>

section \<open>Operations\<close>

lemma streams_okD:
  assumes "streams_ok l h r"
  shows "got l p = Some (G, st) \<Longrightarrow> process_ok (acquainted l h) (met l h) (gone l h r) (hosted h p) (events_of p r) G st"
    "\<not> acquainted l h \<Longrightarrow> \<not> gone l h r \<Longrightarrow> in_flight h r"
  using assms unfolding streams_ok_def by blast+

lemma in_flightD:
  "in_flight h r \<Longrightarrow> (s, ev) \<in> set (events_of p r)
     \<Longrightarrow> \<exists>hp. hosted h p = Some hp \<and> acked hp < s \<and> s \<le> length (hp_events hp) \<and> hp_events hp ! (s - 1) = ev"
  unfolding in_flight_def events_of_set by blast

lemma no_events: "(\<And>s ev. Event p s ev \<notin> set r) \<Longrightarrow> events_of p r = []"
  using events_of_set by (metis list.set_intros(1) list.exhaust surj_pair)

lemma deliver_prefix:
  assumes "prefix G E" "\<forall>(s, ev) \<in> set es. 1 \<le> s \<and> s \<le> length E \<and> E ! (s - 1) = ev" shows "prefix (deliver G es) E"
  using assms
proof (induction G es rule: deliver.induct)
  case (2 G s ev xs)
  have "prefix (G @ [ev]) E" if "s = Suc (length G)"
  proof -
    have "length G < length E" "E ! length G = ev" using 2(3) that by auto
    then show ?thesis using 2(2) by (metis append_one_prefix)
  qed
  then show ?case using 2 by simp
qed simp

lemma gone_unhosted:
  assumes p: "phase_ok l h q r" and g: "gone l h r" shows "hs_procs h = [] \<or> r = []"
proof (cases "\<exists>m \<in> set r. is_hello m")
  case True
  then obtain m where "Hello m \<in> set r" by (auto elim!: is_hello.elims)
  then have "hs_coordinator h = None" using phase_okD(2) [OF p] g by (auto simp: gone_def hello_ok_def)
  then show ?thesis using phase_okD(6) [OF p] by simp
next
  case False
  show ?thesis
  proof (cases "lk_hostInstance l = None")
    case True
    then have "\<not> lk_socket l" using phase_okD(9,11) [OF p] False by blast
    then show ?thesis using phase_okD(14) [OF p] by simp
  next
    case False
    then have "hs_coordinator h = None" using phase_okD(8) [OF p] g by (simp add: gone_def)
    then show ?thesis using phase_okD(6) [OF p] by simp
  qed
qed

text \<open>A process the coordinator begins to track.\<close>

lemma track_ok:
  assumes ok: "link_ok l h q r is ps" and p: "p \<notin> set (lk_procs l)"
    and l': "l' = set_object p (new_process\<lparr>rp_started := st\<rparr>) (l\<lparr>lk_procs := lk_procs l @ [p]\<rparr>)"
    and new: "p \<notin> ps \<and> \<not> st \<or> lk_hostInstance l = None \<and> st"
  shows "link_ok l' h q r is (insert p ps)"
proof -
  note d = link_okD [OF ok]
  have f: "lk_instance l' = lk_instance l" "lk_socket l' = lk_socket l" "lk_online l' = lk_online l"
     "lk_hostInstance l' = lk_hostInstance l" "lk_nextSeq l' = lk_nextSeq l" "lk_unacked l' = lk_unacked l"
     "lk_acks l' = lk_acks l" "lk_commands l' = lk_commands l" "lk_updateSent l' = lk_updateSent l" "lk_procs l' = lk_procs l @ [p]"
    by (simp_all add: l')
  have got: "got l' = (got l)(p \<mapsto> ([], st))"
    using p by (auto simp: got_def tracked_def l' fun_eq_iff new_process_def)
  have v: "acquainted l' = acquainted l" "met l' = met l" "gone l' = gone l" "hello_ok l' = hello_ok l"
    using f by (auto simp: acquainted_def met_def gone_def hello_ok_def fun_eq_iff)
  have none: "hosted h p = None" "events_of p r = []" if "p \<notin> ps"
    using that known_okD(1,4) [OF d(8)] no_events by (metis not_None_eq, metis)
  have first: "\<not> met l h \<and> \<not> acquainted l h \<and> lk_acks l = [] \<and> (\<forall>m \<in> set q. \<not> is_welcome m \<and> \<not> numbered m)" if "lk_hostInstance l = None"
  proof -
    have m: "\<not> met l h" using that by (simp add: met_def)
    then have "\<not> acquainted l h" using acquainted_met by blast
    moreover have w: "\<forall>m \<in> set q. \<not> is_welcome m" using phase_okD(4) [OF d(5)] m by blast
    moreover from w have "takeWhile (\<lambda>m. \<not> is_welcome m) q = q" by (simp add: takeWhile_eq_all_conv)
    moreover have "lk_acks l = []" using phase_okD(9,10) [OF d(5)] that by blast
    ultimately show ?thesis using m numbers_okD(9) [OF d(6)] by metis
  qed
  have own: "process_ok (acquainted l h) (met l h) (gone l h r) (hosted h p) (events_of p r) [] st"
  proof (cases "p \<in> ps")
    case False
    then show ?thesis using none by (simp add: process_ok_def)
  next
    case True
    then have n: "\<not> acquainted l h" and st using new first by blast+
    show ?thesis
    proof (cases "gone l h r")
      case True
      then have "hosted h p = None \<or> r = []" using gone_unhosted [OF d(5)] by auto
      then show ?thesis using True n \<open>st\<close> by (auto simp: stream_ok_def process_ok_def split: option.split)
    next
      case False
      note fl = in_flightD [OF streams_okD(2) [OF d(9) n False], of _ _ p]
      show ?thesis
      proof (cases "hosted h p")
        case None
        then have "events_of p r = []" using fl by (cases "events_of p r") auto
        then show ?thesis using None \<open>st\<close> by (simp add: process_ok_def)
      next
        case (Some hp)
        have "prefix (deliver [] (events_of p r)) (hp_events hp)"
          by (rule deliver_prefix) (use fl Some in fastforce)+
        moreover have "2 \<le> s" if "(s, ev) \<in> set (events_of p r)" "acked hp \<noteq> 0" for s ev using fl [OF that(1)] Some that(2) by auto
        ultimately show ?thesis using n Some by (auto simp: stream_ok_def process_ok_def)
      qed
    qed
  qed
  have nowelcome: "map_of received p = None" if "Welcome i epoch received \<in> set q" for i epoch received
  proof (cases "p \<in> ps")
    case True
    then show ?thesis using new first that by force
  next
    case False
    then show ?thesis using known_okD(6) [OF d(8) that] by (metis not_None_eq)
  qed
  show ?thesis
  proof (rule link_okI)
    show "objects_ok l'" using d(1) p by (auto simp: objects_ok_def l' object_ok_def new_process_def)
    show "ids_ok l' h q r is" using d(4) unfolding ids_ok_def f .
    show "phase_ok l' h q r" by (rule phase_view [OF d(5)]) (use f phase_okD(10,16) [OF d(5)] in simp_all)
    show "numbers_ok l' h q r" using d(6) unfolding numbers_ok_def f v .
    show "starts_ok l' h (insert p ps)" using d(7) unfolding starts_ok_def f v by blast
    show "known_ok l' h q r (insert p ps)" using d(8) unfolding known_ok_def f by (elim conjE, intro conjI) (auto simp: subset_insertI2)
    show "streams_ok l' h r"
      using d(9) own unfolding streams_ok_def v got by simp
    show "acks_ok l' h q"
      unfolding acks_ok_def
    proof (intro conjI allI impI)
      fix pa G sta s assume g: "got l' pa = Some (G, sta)" and e: "EventAck pa s \<in> set q \<or> (pa, s) \<in> set (lk_acks l')"
      have "pa \<noteq> p"
      proof
        assume "pa = p"
        then have "p \<in> ps" using e d(8) by (auto simp: known_ok_def f)
        then show False using new first e \<open>pa = p\<close> by (auto simp: f)
      qed
      then show "s \<le> length G" using g e d(10) by (auto simp: acks_ok_def got f)
    next
      fix pre i epoch received post assume q: "q = pre @ Welcome i epoch received # post"
      then have w: "welcome_ok l h pre received" using d(10) by (simp add: acks_ok_def)
      have "p \<notin> ps" using q new first by auto
      then have "hosted h p = None \<and> (\<forall>s c. Command s c \<in> set pre \<longrightarrow> \<not> starts p c)"
        using none(1) q numbers_okD(6-8) [OF d(6)] starts_okD(2) [OF d(7)]
        by (metis (no_types, lifting) One_nat_def Suc_le_lessD Suc_pred UnI1 nth_mem set_append)
      moreover have "map_of received p = None" using nowelcome q by auto
      ultimately show "welcome_ok l' h pre received"
        using w unfolding welcome_ok_def f v got by simp
    qed
    have "\<not> (lk_socket l \<and> hs_open h \<and> (\<forall>m \<in> set r. \<not> is_hello m)) \<or> hosted h p = None"
      using new none(1) phase_okD(9,11) [OF d(5)] by (cases "p \<in> ps") auto
    then show "complete l' h q r" using d(11) unfolding complete_def f v got by auto
  qed (use d in simp_all)
qed

lemma start_ok:
  assumes ok: "link_ok l h q r is ps" and p: "p \<notin> ps" "starts p c" and e: "startProcess p (\<lambda>_. c) l = (l', out)"
  shows "link_ok l' h (if hs_open h then q @ out else []) r is (insert p ps)"
proof -
  define l0 where "l0 = set_object p new_process (l\<lparr>lk_procs := lk_procs l @ [p]\<rparr>)"
  note d = link_okD [OF ok]
  have new: "new_process = new_process\<lparr>rp_started := False\<rparr>" by (simp add: new_process_def)
  have n: "p \<notin> set (lk_procs l)" using known_okD(2) [OF d(8)] p(1) by blast
  have "link_ok l0 h q r is (insert p ps)"
    by (rule track_ok [OF ok n, of _ False]) (use p(1) new in \<open>simp_all add: l0_def\<close>)
  moreover have "enqueue c l0 = (l', out)" using e by (simp add: startProcess_def l0_def)
  moreover have "p' \<in> insert p ps \<and> hosted h p' = None \<and> (\<forall>c' \<in> set (lk_commands l0). \<not> starts p' c')
      \<and> (\<forall>i epoch received. Welcome i epoch received \<in> set q \<longrightarrow> map_of received p' = None)" if "starts p' c" for p'
  proof -
    have "p' = p" using that p(2) by (auto simp: starts_def split: host_command.splits)
    moreover have "lk_commands l0 = lk_commands l" by (simp add: l0_def)
    ultimately show ?thesis using p(1) known_okD(1,6) [OF d(8)] starts_okD(2) [OF d(7)] by (metis insertI1 not_None_eq)
  qed
  ultimately show ?thesis by (rule enqueue_ok) blast+
qed

lemma acks_cleared:
  assumes ok: "link_ok l h q r is ps" and o: "lk_socket l" "lk_acks l \<noteq> []"
  shows "link_ok (l\<lparr>lk_acks := []\<rparr>) h (if hs_open h then q @ map (\<lambda>(p, s). EventAck p s) (lk_acks l) else []) r is ps"
proof -
  define out where "out = (if hs_open h then map (\<lambda>(p, s). EventAck p s) (lk_acks l) else [])"
  define l' where "l' = l\<lparr>lk_acks := []\<rparr>"
  note d = link_okD [OF ok]
  have q: "(if hs_open h then q @ map (\<lambda>(p, s). EventAck p s) (lk_acks l) else []) = q @ out"
    using phase_okD(13) [OF d(5)] by (simp add: out_def)
  have f: "lk_instance l' = lk_instance l" "lk_socket l' = lk_socket l" "lk_online l' = lk_online l"
     "lk_hostInstance l' = lk_hostInstance l" "lk_nextSeq l' = lk_nextSeq l" "lk_unacked l' = lk_unacked l"
     "lk_acks l' = []" "lk_commands l' = lk_commands l" "lk_updateSent l' = lk_updateSent l" "lk_procs l' = lk_procs l" "lk_object l' = lk_object l"
    by (simp_all add: l'_def)
  have v: "acquainted l' = acquainted l" "met l' = met l" "gone l' = gone l" "hello_ok l' = hello_ok l" "got l' = got l"
    using f by (auto simp: acquainted_def met_def gone_def hello_ok_def got_def tracked_def fun_eq_iff)
  have w: "welcome_ok l' = welcome_ok l" using f v by (simp add: welcome_ok_def fun_eq_iff)
  have nw: "\<forall>m \<in> set out. \<not> is_welcome m" by (auto simp: out_def)
  have sent: "(\<exists>m \<in> set q. is_welcome m) \<or> acquainted l h" if "hs_open h"
    using phase_okD(10,12) [OF d(5)] o(2) that by blast
  have "link_ok l' h (q @ out) r is ps"
  proof (rule link_okI)
    show "ids_ok l' h (q @ out) r is" using ids_append [OF d(4) nw] unfolding ids_ok_def f .
    have "phase_ok l h (q @ out) r" by (rule phase_append [OF d(5) nw]) (simp add: out_def)
    then show "phase_ok l' h (q @ out) r" by (rule phase_view) (simp_all add: f)
    show "numbers_ok l' h (q @ out) r"
    proof -
      have "\<forall>m \<in> set (takeWhile (\<lambda>m. \<not> is_welcome m) (q @ out)). \<not> numbered m" if "\<not> acquainted l h"
        by (rule early_append [OF numbers_okD(9) [OF d(6) that]]) (use sent that in \<open>auto simp: out_def\<close>)
      moreover have "Command s c \<in> set (q @ out) \<longleftrightarrow> Command s c \<in> set q" for s c by (auto simp: out_def)
      ultimately show ?thesis using d(6) unfolding numbers_ok_def f v by blast
    qed
    show "starts_ok l' h ps" using d(7) unfolding starts_ok_def f v .
    have e: "EventAck p s \<in> set out \<Longrightarrow> (p, s) \<in> set (lk_acks l)" for p s by (auto simp: out_def split: if_splits)
    have "known_ok l h (q @ out) r ps"
      by (rule known_append [OF d(8) nw]) (use e known_okD(3) [OF d(8)] in blast)
    then show "known_ok l' h (q @ out) r ps" unfolding known_ok_def f by simp
    show "streams_ok l' h r" using d(9) unfolding streams_ok_def f v .
    show "acks_ok l' h (q @ out)"
      unfolding acks_ok_def
    proof (intro conjI allI impI)
      fix p G st s assume "got l' p = Some (G, st)" "EventAck p s \<in> set (q @ out) \<or> (p, s) \<in> set (lk_acks l')"
      then have "got l p = Some (G, st)" "EventAck p s \<in> set q \<or> (p, s) \<in> set (lk_acks l)" using e by (auto simp: v f)
      then show "s \<le> length G" using d(10) unfolding acks_ok_def by blast
    next
      fix pre i epoch received post assume "q @ out = pre @ Welcome i epoch received # post"
      then obtain post' where "q = pre @ Welcome i epoch received # post'" using split_welcome nw by metis
      then show "welcome_ok l' h pre received" using d(10) by (simp add: acks_ok_def w)
    qed
    have "will_apply co a (map (\<lambda>(p, s). EventAck p s) xs) = a" for co a xs
      by (induction xs) auto
    then have "will_apply co a (q @ out) = will_apply co a q" for co a using nw by (simp add: will_apply_append out_def)
    then show "complete l' h (q @ out) r" using d(11) nw unfolding complete_def f v by auto
  qed (use d f in \<open>simp_all add: objects_ok_def\<close>)
  then show ?thesis unfolding q l'_def .
qed

lemma detach_ok:
  assumes ok: "link_ok l h q r is ps" shows "link_ok (l\<lparr>lk_socket := False, lk_online := False, lk_acks := []\<rparr>) h q [] is ps"
proof -
  define l' where "l' = l\<lparr>lk_socket := False, lk_online := False, lk_acks := []\<rparr>"
  note d = link_okD [OF ok]
  have f: "lk_instance l' = lk_instance l" "lk_socket l' = False" "lk_online l' = False"
     "lk_hostInstance l' = lk_hostInstance l" "lk_nextSeq l' = lk_nextSeq l" "lk_unacked l' = lk_unacked l"
     "lk_acks l' = []" "lk_commands l' = lk_commands l" "lk_procs l' = lk_procs l" "lk_object l' = lk_object l"
    by (simp_all add: l'_def)
  have v: "acquainted l' = acquainted l" "met l' = met l" "gone l' = gone l" "got l' = got l"
    using f by (auto simp: acquainted_def met_def gone_def got_def tracked_def fun_eq_iff)
  have w: "welcome_ok l' = welcome_ok l" using f v by (simp add: welcome_ok_def fun_eq_iff)
  have g: "gone l h []  = (\<not> met l h)" by (simp add: gone_def)
  have "link_ok l' h q [] is ps"
  proof (rule link_okI)
    show "ids_ok l' h q [] is" using d(4) unfolding ids_ok_def f by simp
    show "phase_ok l' h q []"
    proof (rule phase_okI, unfold f v)
      note p = phase_okD [OF d(5)]
      show "\<exists>m \<in> set q. is_welcome m \<Longrightarrow> (\<forall>x \<in> set []. \<not> is_hello x) \<and> met l h" using p(4) by auto
      show "hs_coordinator h = None \<Longrightarrow> hs_procs h = [] \<and> hs_applied h = 0" using p(6,7) by blast
    qed (use phase_okD(5,8,13) [OF d(5)] in simp_all)
    show "numbers_ok l' h q []" using d(6) unfolding numbers_ok_def f v by simp
    show "starts_ok l' h ps" using d(7) unfolding starts_ok_def f v .
    show "known_ok l' h q [] ps" using d(8) unfolding known_ok_def f by simp
    show "acks_ok l' h q" using d(10) unfolding acks_ok_def f v w by simp
    have "process_ok (acquainted l h) (met l h) (gone l h []) (hosted h p) [] G st" if "got l p = Some (G, st)" for p G st
    proof -
      have pr: "process_ok (acquainted l h) (met l h) (gone l h r) (hosted h p) (events_of p r) G st" using streams_okD(1) [OF d(9) that] .
      show ?thesis
      proof (cases "hosted h p")
        case (Some hp)
        have "prefix (deliver G (events_of p r)) (hp_events hp) \<Longrightarrow> prefix G (hp_events hp)"
          using deliver_extends [of G "events_of p r"] by (metis prefixI prefix_order.trans)
        then show ?thesis using pr Some by (auto simp: process_ok_def stream_ok_def split: if_splits)
      next
        case None
        then show ?thesis using pr by (auto simp: process_ok_def)
      qed
    qed
    then show "streams_ok l' h []" unfolding streams_ok_def v by (simp add: in_flight_def)
    show "complete l' h q []" by (simp add: complete_def f)
  qed (use d f in \<open>simp_all add: objects_ok_def\<close>)
  then show ?thesis unfolding l'_def .
qed

subsection \<open>Commands sent again\<close>

lemma will_apply_le: "\<forall>m \<in> set q. \<forall>s c. m = Command s c \<longrightarrow> s \<le> n \<Longrightarrow> a \<le> n \<Longrightarrow> will_apply co a q \<le> n"
  by (induction co a q rule: will_apply.induct) auto

lemma will_apply_ge: "\<forall>m \<in> set q. \<forall>i epoch rec. m = Welcome i epoch rec \<longrightarrow> co = Some i \<Longrightarrow> a \<le> will_apply co a q"
proof (induction co a q rule: will_apply.induct)
  case (3 co a s c q)
  then show ?case by (cases "s = Suc a") (auto dest: Suc_leD)
qed auto

lemma will_apply_quiet: "\<forall>m \<in> set q. \<not> numbered m \<and> \<not> is_welcome m \<Longrightarrow> will_apply co a q = a"
proof (induction q)
  case (Cons m q)
  then show ?case by (cases m) auto
qed simp

abbreviation commands_of :: "(nat \<times> host_command) list \<Rightarrow> to_host list" where
  "commands_of cs \<equiv> map (\<lambda>(s, c). Command s c) cs"

lemma will_apply_resent:
  assumes "k \<le> a" "a \<le> length N" shows "will_apply co a (commands_of (drop k (enumerate 1 N))) = length N"
proof -
  have seen: "will_apply co a (commands_of xs) = a" if "\<forall>(s, c) \<in> set xs. s \<le> a" for xs
    using that by (induction xs) auto
  have fresh: "will_apply co a (commands_of (enumerate (Suc a) M)) = a + length M" for a M
    by (induction M arbitrary: a) auto
  have "enumerate 1 N = enumerate 1 (take a N) @ enumerate (Suc a) (drop a N)"
    using assms(2) by (metis append_take_drop_id enumerate_append_eq length_take min.absorb2 plus_1_eq_Suc)
  then have e: "drop k (enumerate 1 N) = drop k (enumerate 1 (take a N)) @ enumerate (Suc a) (drop a N)" using assms by simp
  have "will_apply co a (commands_of (drop k (enumerate 1 (take a N)))) = a"
    using assms(2) by (intro seen) (auto simp: in_set_enumerate_eq dest!: in_set_dropD)
  moreover have "\<forall>m \<in> set (commands_of (enumerate (Suc a) (drop a N))). \<not> is_welcome m" by auto
  ultimately have "will_apply co a (commands_of (drop k (enumerate 1 (take a N))) @ commands_of (enumerate (Suc a) (drop a N))) = length N"
    using fresh [of a "drop a N"] assms(2) by (subst will_apply_append) simp_all
  then show ?thesis unfolding e map_append .
qed

lemma unacked_numbered:
  assumes "(s, c) \<in> set (drop k (enumerate 1 N))" shows "1 \<le> s \<and> s \<le> length N \<and> N ! (s - 1) = c \<and> k < s"
proof -
  obtain i where i: "i < length N - k" "(s, c) = drop k (enumerate 1 N) ! i" using assms by (auto simp: in_set_conv_nth)
  then show ?thesis by (simp add: nth_enumerate_eq)
qed

text \<open>What the host will have applied lies between what it acknowledged and what was numbered.\<close>

lemma will_apply_bounds:
  assumes ok: "link_ok l h q r is ps" and o: "lk_online l" "hs_open h"
    and k: "if acquainted l h then k \<le> hs_applied h else k = 0"
  shows "k \<le> will_apply (hs_coordinator h) (hs_applied h) q \<and> will_apply (hs_coordinator h) (hs_applied h) q \<le> length (lk_commands l)"
proof -
  note d = link_okD [OF ok]
  have s: "s \<le> length (lk_commands l)" if "Command s c \<in> set q" for s c using numbers_okD(7) [OF d(6) that] .
  have w: "i = lk_instance l" if "Welcome i epoch received \<in> set q" for i epoch received using d(4) that unfolding ids_ok_def by blast
  show ?thesis
  proof (cases "acquainted l h")
    case True
    then have c: "hs_coordinator h = Some (lk_instance l)" by (simp add: acquainted_def)
    have "hs_applied h \<le> will_apply (hs_coordinator h) (hs_applied h) q" by (rule will_apply_ge) (use w c in auto)
    moreover have "will_apply (hs_coordinator h) (hs_applied h) q \<le> length (lk_commands l)"
      by (rule will_apply_le) (use s numbers_okD(3) [OF d(6) True] in auto)
    ultimately show ?thesis using k True by simp
  next
    case False
    then have "\<exists>m \<in> set q. is_welcome m" using phase_okD(12) [OF d(5) o] by blast
    then obtain pre m post where q: "q = pre @ m # post" "is_welcome m" "\<forall>x \<in> set pre. \<not> is_welcome x" by (metis split_list_first_prop)
    then obtain i epoch received where m: "m = Welcome i epoch received" by (cases m) auto
    have "takeWhile (\<lambda>m. \<not> is_welcome m) q = pre" using q by (simp add: takeWhile_append2)
    then have n: "will_apply (hs_coordinator h) (hs_applied h) pre = hs_applied h"
      using numbers_okD(9) [OF d(6) False] q(3) by (intro will_apply_quiet) auto
    have "met l h" using phase_okD(4) [OF d(5)] q by auto
    then have "hs_coordinator h \<noteq> Some i" using False w [of i epoch received] q m by (auto simp: acquainted_def met_def)
    have pw: "will_apply co a (pre @ rest) = will_apply co (will_apply co a pre) rest" for co a rest
      using q(3) numbers_okD(9) [OF d(6) False] \<open>takeWhile (\<lambda>m. \<not> is_welcome m) q = pre\<close>
    proof -
      have "\<forall>x \<in> set pre. \<not> numbered x \<and> \<not> is_welcome x"
        using q(3) numbers_okD(9) [OF d(6) False] \<open>takeWhile (\<lambda>m. \<not> is_welcome m) q = pre\<close> by auto
      then show ?thesis
      proof (induction pre arbitrary: a)
        case (Cons x xs)
        then show ?case by (cases x) auto
      qed simp
    qed
    have "will_apply (hs_coordinator h) (hs_applied h) q = will_apply (Some i) 0 post"
      using n \<open>hs_coordinator h \<noteq> Some i\<close> by (simp add: q(1) m pw)
    moreover have "will_apply (Some i) 0 post \<le> length (lk_commands l)"
      by (rule will_apply_le) (use s q in auto)
    ultimately show ?thesis using k False by simp
  qed
qed

lemma abandon_ok:
  assumes ok: "link_ok l h q r is ps" and e: "abandonUpdate l = (l', out)"
  shows "link_ok l' h (if hs_open h then q @ out else []) r is ps"
proof -
  define out' where "out' = (if hs_open h then out else [])"
  note d = link_okD [OF ok]
  have q: "(if hs_open h then q @ out else []) = q @ out'" using phase_okD(13) [OF d(5)] by (simp add: out'_def)
  have f: "lk_instance l' = lk_instance l" "lk_socket l' = lk_socket l" "lk_online l' = lk_online l"
     "lk_hostInstance l' = lk_hostInstance l" "lk_nextSeq l' = lk_nextSeq l" "lk_unacked l' = lk_unacked l"
     "lk_acks l' = lk_acks l" "lk_commands l' = lk_commands l" "lk_procs l' = lk_procs l" "lk_object l' = lk_object l"
    using e by (auto simp: abandonUpdate_def)
  have out: "out = (if lk_online l \<and> lk_socket l then commands_of (lk_unacked l) else [])" using e by (auto simp: abandonUpdate_def)
  have v: "acquainted l' = acquainted l" "met l' = met l" "gone l' = gone l" "hello_ok l' = hello_ok l" "got l' = got l"
    using f by (auto simp: acquainted_def met_def gone_def hello_ok_def got_def tracked_def fun_eq_iff)
  have w: "welcome_ok l' = welcome_ok l" using f v by (simp add: welcome_ok_def fun_eq_iff)
  have nw: "\<forall>m \<in> set out'. \<not> is_welcome m" by (auto simp: out'_def out)
  have sent: "met l h \<and> ((\<exists>m \<in> set q. is_welcome m) \<or> acquainted l h)" if "out' \<noteq> []"
    using online_sends [OF d(5)] that by (auto simp: out'_def out split: if_splits)
  have cmd: "met l h \<and> 1 \<le> s \<and> s \<le> length (lk_commands l) \<and> lk_commands l ! (s - 1) = c" if "Command s c \<in> set out'" for s c
  proof -
    have m: "met l h" using sent that by (metis empty_iff list.set(1))
    then obtain k where "lk_unacked l = drop k (enumerate 1 (lk_commands l))" using numbers_okD(2) [OF d(6)] by blast
    moreover have "(s, c) \<in> set (lk_unacked l)" using that by (auto simp: out'_def out split: if_splits)
    ultimately show ?thesis using unacked_numbered m by metis
  qed
  have "link_ok l' h (q @ out') r is ps"
  proof (rule link_okI)
    show "ids_ok l' h (q @ out') r is" using ids_append [OF d(4) nw] unfolding ids_ok_def f .
    have "phase_ok l h (q @ out') r" by (rule phase_append [OF d(5) nw]) (simp add: out'_def)
    then show "phase_ok l' h (q @ out') r" by (rule phase_view) (use f phase_okD(10,16) [OF d(5)] in simp_all)
    show "numbers_ok l' h (q @ out') r"
    proof -
      have "\<forall>m \<in> set (takeWhile (\<lambda>m. \<not> is_welcome m) (q @ out')). \<not> numbered m" if "\<not> acquainted l h"
        by (rule early_append [OF numbers_okD(9) [OF d(6) that]]) (use sent that in \<open>cases "out' = []"; auto\<close>)
      moreover have "met l h \<and> 1 \<le> s \<and> s \<le> length (lk_commands l) \<and> lk_commands l ! (s - 1) = c" if "Command s c \<in> set (q @ out')" for s c
        using that cmd numbers_okD(5-8) [OF d(6), of s c] by auto
      ultimately show ?thesis using d(6) unfolding numbers_ok_def f v by blast
    qed
    show "starts_ok l' h ps" using d(7) unfolding starts_ok_def f v .
    have "known_ok l h (q @ out') r ps" by (rule known_append [OF d(8) nw]) (auto simp: out'_def out split: if_splits)
    then show "known_ok l' h (q @ out') r ps" unfolding known_ok_def f .
    show "streams_ok l' h r" using d(9) unfolding streams_ok_def f v .
    have na: "EventAck p s \<notin> set out'" for p s by (auto simp: out'_def out)
    show "acks_ok l' h (q @ out')"
      unfolding acks_ok_def
    proof (intro conjI allI impI)
      fix p G st s assume "got l' p = Some (G, st)" "EventAck p s \<in> set (q @ out') \<or> (p, s) \<in> set (lk_acks l')"
      then have "got l p = Some (G, st)" "EventAck p s \<in> set q \<or> (p, s) \<in> set (lk_acks l)" using na by (auto simp: v f)
      then show "s \<le> length G" using d(10) unfolding acks_ok_def by blast
    next
      fix pre i epoch received post assume "q @ out' = pre @ Welcome i epoch received # post"
      then obtain post' where "q = pre @ Welcome i epoch received # post'" using split_welcome nw by metis
      then show "welcome_ok l' h pre received" using d(10) by (simp add: acks_ok_def w)
    qed
    have "will_apply (hs_coordinator h) (hs_applied h) (q @ out') = length (lk_commands l)"
      if "lk_socket l" "hs_open h" "\<forall>m \<in> set r. \<not> is_hello m"
    proof -
      have o: "lk_online l" using phase_okD(11) [OF d(5)] that by blast
      have "met l h" using online_sends [OF d(5) o that(2)] by blast
      then obtain k where k: "k \<le> length (lk_commands l)" "lk_unacked l = drop k (enumerate 1 (lk_commands l))"
        "if acquainted l h then k \<le> hs_applied h else k = 0" using numbers_okD(2) [OF d(6)] by blast
      have e: "out' = commands_of (drop k (enumerate 1 (lk_commands l)))" using that o k(2) by (simp add: out'_def out)
      show ?thesis
        by (subst will_apply_append [OF nw], subst e, rule will_apply_resent) (use will_apply_bounds [OF ok o that(2) k(3)] in auto)
    qed
    then show "complete l' h (q @ out') r" using d(11) nw unfolding complete_def f v by auto
  qed (use d f in \<open>simp_all add: objects_ok_def\<close>)
  then show ?thesis unfolding q .
qed

text \<open>The request to update carries nothing that is numbered.\<close>

lemma told_update_ok:
  assumes ok: "link_ok l h q r is ps" and o: "lk_online l" and u: "lk_updateSent l"
  shows "link_ok l h (q @ (if hs_open h then [Update commit] else [])) r is ps"
proof -
  define out where "out = (if hs_open h then [Update commit] else [])"
  note d = link_okD [OF ok]
  have nw: "\<forall>m \<in> set out. \<not> is_welcome m" by (simp add: out_def)
  have m: "Command s c \<in> set (q @ out) \<longleftrightarrow> Command s c \<in> set q" "EventAck p s \<in> set (q @ out) \<longleftrightarrow> EventAck p s \<in> set q" for s c p
    by (auto simp: out_def)
  have "link_ok l h (q @ out) r is ps"
  proof (rule link_okI)
    show "ids_ok l h (q @ out) r is" by (rule ids_append [OF d(4) nw])
    show "phase_ok l h (q @ out) r" by (rule phase_append [OF d(5) nw]) (simp add: out_def)
    have "\<forall>m \<in> set (takeWhile (\<lambda>m. \<not> is_welcome m) (q @ out)). \<not> numbered m" if "\<not> acquainted l h"
      by (rule early_append [OF numbers_okD(9) [OF d(6) that]]) (simp add: out_def)
    then show "numbers_ok l h (q @ out) r" using d(6) unfolding numbers_ok_def m by blast
    show "known_ok l h (q @ out) r ps" by (rule known_append [OF d(8) nw]) (simp add: out_def)
    show "acks_ok l h (q @ out)"
      unfolding acks_ok_def m
    proof (intro conjI)
      show "\<forall>p G st s. got l p = Some (G, st) \<longrightarrow> EventAck p s \<in> set q \<or> (p, s) \<in> set (lk_acks l) \<longrightarrow> s \<le> length G"
        using d(10) unfolding acks_ok_def by blast
      show "\<forall>pre i epoch received post. q @ out = pre @ Welcome i epoch received # post \<longrightarrow> welcome_ok l h pre received"
        using d(10) split_welcome [OF _ nw] unfolding acks_ok_def by metis
    qed
    show "complete l h (q @ out) r" using d(11) nw u unfolding complete_def by auto
  qed (use d in simp_all)
  then show ?thesis unfolding out_def .
qed

lemma more_processes_ok:
  assumes ok: "link_ok l h q r is ps" and s: "ps \<subseteq> ps'" shows "link_ok l h q r is ps'"
proof -
  note d = link_okD [OF ok]
  have "starts_ok l h ps'" using d(7) s unfolding starts_ok_def by blast
  have k: "dom (hosted h) \<subseteq> ps" "set (lk_procs l) \<subseteq> ps" "fst ` set (lk_acks l) \<subseteq> ps" using d(8) by (simp_all add: known_ok_def)
  have "known_ok l h q r ps'"
    unfolding known_ok_def
  proof (intro conjI allI impI)
    show "dom (hosted h) \<subseteq> ps'" "set (lk_procs l) \<subseteq> ps'" "fst ` set (lk_acks l) \<subseteq> ps'" using k s by (blast intro: subset_trans)+
    fix p n ev assume "Event p n ev \<in> set r"
    then show "p \<in> ps'" using known_okD(4) [OF d(8)] s by blast
  next
    fix p n assume "EventAck p n \<in> set q"
    then show "p \<in> ps'" using known_okD(5) [OF d(8)] s by blast
  next
    fix i epoch received assume "Welcome i epoch received \<in> set q"
    then have "fst ` set received \<subseteq> ps" using d(8) unfolding known_ok_def by blast
    then show "fst ` set received \<subseteq> ps'" using s by (rule subset_trans)
  qed
  with \<open>starts_ok l h ps'\<close> show ?thesis by (intro link_okI) (use d in simp_all)
qed

subsection \<open>Every operation\<close>

lemma fail_tracked_view:
  assumes "objects_ok l" shows "got (fail_proc m p l) = (got l)(p := None)"
  using tracked_fail [OF assms] by (auto simp: got_def fun_eq_iff)

lemma release_ok:
  assumes ok: "link_ok l h q r is ps" and m: "\<not> met l h"
  shows "link_ok (release_host reason l) h q r is ps"
proof (cases "lk_online l")
  case True
  then show ?thesis using ok by (simp add: release_host_def)
next
  case False
  define l0 where "l0 = l\<lparr>lk_unacked := filter (\<lambda>(s, c). command_proc c = None) (lk_unacked l)\<rparr>"
  define l' where "l' = fold (fail_proc reason) (lk_procs l) l0"
  note d = link_okD [OF ok]
  have o: "objects_ok l0" using d(1) by (simp add: objects_ok_def l0_def)
  have "same_link l0 l'" unfolding l'_def by (rule same_fold_fail)
  then have f: "lk_instance l' = lk_instance l" "lk_socket l' = lk_socket l" "lk_online l' = lk_online l"
     "lk_hostInstance l' = lk_hostInstance l" "lk_nextSeq l' = lk_nextSeq l" "lk_unacked l' = filter (\<lambda>(s, c). command_proc c = None) (lk_unacked l)"
     "lk_acks l' = lk_acks l" "lk_commands l' = lk_commands l" "lk_updateSent l' = lk_updateSent l"
    by (simp_all add: same_link_def l0_def)
  have p: "objects_ok l'" "lk_procs l' = []" using fold_fail [OF o, of reason "lk_procs l"] by (simp_all add: l'_def l0_def)
  then have g: "got l' = Map.empty" by (simp add: got_def tracked_def fun_eq_iff)
  have v: "acquainted l' = acquainted l" "met l' = met l" "gone l' = gone l" "hello_ok l' = hello_ok l"
    using f by (auto simp: acquainted_def met_def gone_def hello_ok_def fun_eq_iff)
  have na: "\<not> acquainted l h" using m acquainted_met by blast
  have "link_ok l' h q r is ps"
  proof (rule link_okI)
    show "ids_ok l' h q r is" using d(4) unfolding ids_ok_def f .
    show "phase_ok l' h q r" by (rule phase_view [OF d(5)]) (use f phase_okD(10,16) [OF d(5)] in simp_all)
    show "numbers_ok l' h q r" using d(6) m unfolding numbers_ok_def f v by blast
    have "subseq (map snd (filter P xs)) (map snd xs)" for P and xs :: "(nat \<times> host_command) list" by (simp add: subseq_map subseq_filter_left)
    then show "starts_ok l' h ps" using d(7) unfolding starts_ok_def f v using subseq_order.order_trans by blast
    show "known_ok l' h q r ps" using d(8) unfolding known_ok_def f p by simp
    show "streams_ok l' h r" using d(9) unfolding streams_ok_def v g by simp
    show "acks_ok l' h q" using d(10) unfolding acks_ok_def welcome_ok_def f v g by simp
    show "complete l' h q r" using d(11) unfolding complete_def f g by simp
  qed (use d p in simp_all)
  then show ?thesis using False by (simp add: release_host_def l'_def l0_def)
qed

lemma enqueue_other_ok:
  assumes ok: "link_ok l h q r is ps" and e: "enqueue c l = (l', out)" and "\<And>p. \<not> starts p c"
  shows "link_ok l' h (if hs_open h then q @ out else []) r is ps"
  by (rule enqueue_ok [OF ok e]) (use assms(3) in simp)

lemma set_killed_view: "objects_ok l \<Longrightarrow> lk_object l p = Some rp \<Longrightarrow> same_view l (set_object p (rp\<lparr>rp_killed := True\<rparr>) l)"
  by (auto simp: same_view_def got_def tracked_def objects_ok_def object_ok_def fun_eq_iff)

lemma coordinator_acts_ok:
  assumes op: "coordinator_op True h ps l ps' (l', out)" and ok: "link_ok l h q r is ps"
  shows "link_ok l' h (if hs_open h then q @ out else []) (if lk_socket l' then r else []) is ps'"
proof -
  note d = link_okD [OF ok]
  have q0: "(if hs_open h then q @ [] else []) = q" using phase_okD(13) [OF d(5)] by simp
  have r0: "(if lk_socket l then r else []) = r" using phase_okD(14) [OF d(5)] by simp
  have quiet: ?thesis if "link_ok l' h q r is ps'" "lk_socket l' = lk_socket l" "out = []"
    unfolding that(2,3) q0 r0 by (rule that(1))
  have sends: ?thesis if "link_ok l' h (if hs_open h then q @ out else []) r is ps'" "lk_socket l' = lk_socket l"
    unfolding that(2) r0 by (rule that(1))
  have other: ?thesis if e: "enqueue c l0 = (l', out)" and v: "same_view l l0" "lk_updateSent l0 = lk_updateSent l"
    and c: "\<And>p. \<not> starts p c" and "ps' = ps" for c l0
  proof -
    have "link_ok l0 h q r is ps" by (rule link_ok_view [OF v(1) _ ok]) (use v in simp)
    from enqueue_other_ok [OF this e c] have "link_ok l' h (if hs_open h then q @ out else []) r is ps'" unfolding \<open>ps' = ps\<close> .
    moreover have "lk_socket l' = lk_socket l" using e v by (auto simp: enqueue_def same_view_def)
    ultimately show ?thesis by (rule sends)
  qed
  have self: "same_view l l" using d(1) by (simp add: same_view_def)
  from op show ?thesis
  proof (cases rule: coordinator_op.cases)
    case (start p c)
    have e: "startProcess p (\<lambda>_. c) l = (l', out)" using start by simp
    then have "lk_socket l' = lk_socket l" by (auto simp: startProcess_def enqueue_def)
    then show ?thesis using sends start_ok [OF ok start(3,4) e] start(1) by simp
  next
    case (adopt p)
    have p: "p \<notin> set (lk_procs l)" using d(1) adopt(4) by (auto simp: objects_ok_def)
    define l0 where "l0 = set_object p (new_process\<lparr>rp_started := True\<rparr>) (l\<lparr>lk_procs := lk_procs l @ [p]\<rparr>)"
    show ?thesis
    proof (cases "lk_hostInstance l = None")
      case True
      then have "l' = l0" using adopt(2) by (simp add: adopt_def l0_def)
      have "link_ok l0 h q r is (insert p ps)"
        by (rule track_ok [OF ok p, of _ True]) (use True in \<open>simp_all add: l0_def\<close>)
      then show ?thesis using \<open>l' = l0\<close> adopt(1,3) by (intro quiet) (simp_all add: l0_def)
    next
      case False
      then have l': "l' = fail_proc ''The host no longer runs this process'' p l0" using adopt(2) by (simp add: adopt_def l0_def Let_def)
      have o: "objects_ok l0" using d(1) p by (auto simp: objects_ok_def l0_def object_ok_def new_process_def)
      have "same_link l0 l'" by (simp add: l')
      moreover have "got l' = got l"
      proof -
        have "got l' = (got l0)(p := None)" unfolding l' by (rule fail_tracked_view [OF o])
        also have "\<dots> = got l" using p by (auto simp: got_def l0_def tracked_def fun_eq_iff)
        finally show ?thesis .
      qed
      moreover have "set (lk_procs l') = set (lk_procs l)" using p by (simp add: l' procs_fail [OF o]) (simp add: l0_def)
      ultimately have v: "same_view l l'" "lk_updateSent l' = lk_updateSent l" "lk_socket l' = lk_socket l"
        using objects_ok_fail [OF o] by (simp_all add: same_view_def same_link_def l0_def l')
      have a: "link_ok l' h q r is ps" by (rule link_ok_view [OF v(1) _ ok]) (use v in simp)
      have "link_ok l' h q r is (insert p ps)"
        by (rule more_processes_ok [OF a]) blast
      then show ?thesis using v(3) adopt(1,3) by (intro quiet) simp_all
    qed
  next
    case (kill p signal)
    show ?thesis
    proof (cases "\<exists>rp. lk_object l p = Some rp \<and> \<not> rp_exited rp")
      case True
      then obtain rp where rp: "lk_object l p = Some rp" "\<not> rp_exited rp" by blast
      then have e: "enqueue (CmdKill p signal) (set_object p (rp\<lparr>rp_killed := True\<rparr>) l) = (l', out)" using kill(2) by (simp add: kill_process_def)
      show ?thesis by (rule other [OF e set_killed_view [OF d(1) rp(1)]]) (use kill(1) in \<open>simp_all add: starts_def\<close>)
    next
      case False
      then have "(l', out) = (l, [])" using kill(2) by (auto simp: kill_process_def split: option.splits)
      then show ?thesis using quiet ok kill(1) by simp
    qed
  next
    case (resize p cols rows)
    show ?thesis
    proof (cases "\<exists>rp. lk_object l p = Some rp \<and> \<not> rp_exited rp")
      case True
      then have e: "enqueue (CmdResize p cols rows) l = (l', out)" using resize(2) by (auto simp: resize_process_def)
      show ?thesis by (rule other [OF e self]) (use resize(1) in \<open>simp_all add: starts_def\<close>)
    next
      case False
      then have "(l', out) = (l, [])" using resize(2) by (auto simp: resize_process_def split: option.splits)
      then show ?thesis using quiet ok resize(1) by simp
    qed
  next
    case (stdin p rp b)
    then show ?thesis by (intro other [OF _ self, of "CmdStdin p b"]) (simp_all add: write_stdin_def starts_def)
  next
    case (stdin_end p rp)
    then show ?thesis by (intro other [OF _ self, of "CmdStdinEnd p"]) (simp_all add: end_stdin_def starts_def)
  next
    case (write_file path b)
    then show ?thesis by (intro other [OF _ self, of "CmdWriteFile path b"]) (simp_all add: writeFileInOrder_def starts_def)
  next
    case (release reason)
    then have "\<not> met l h" by (simp add: met_def node_gone_def)
    then have "link_ok l' h q r is ps'" using release_ok [OF ok] release by simp
    moreover have "lk_socket l' = lk_socket l" using release(2) same_fold_fail
      by (auto simp: release_host_def same_link_def)
    ultimately show ?thesis using quiet release(3) by simp
  next
    case flush
    show ?thesis
    proof (cases "lk_socket l \<and> lk_acks l \<noteq> []")
      case True
      then have e: "l' = l\<lparr>lk_acks := []\<rparr>" "out = map (\<lambda>(p, s). EventAck p s) (lk_acks l)" using flush(2) by (simp_all add: flushAcks_def)
      show ?thesis
      proof (rule sends)
        show "link_ok l' h (if hs_open h then q @ out else []) r is ps'"
          unfolding e flush(1) by (rule acks_cleared [OF ok]) (use True in simp_all)
      qed (simp add: e)
    next
      case False
      then have "lk_acks l = []" using phase_okD(10,15) [OF d(5)] by blast
      then have "l\<lparr>lk_acks := []\<rparr> = l" by (cases l) simp
      then have l': "l' = l" using flush(2) by (simp add: flushAcks_def)
      show ?thesis
      proof (rule quiet)
        show "link_ok l' h q r is ps'" unfolding l' flush(1) by (rule ok)
        show "out = []" using flush(2) \<open>lk_acks l = []\<close> by (simp add: flushAcks_def split: if_splits)
      qed (simp add: l')
    qed
  next
    case (update commit)
    have l': "l' = l\<lparr>lk_updateRequested := Some commit, lk_updateSent := True\<rparr>" "out = [Update commit]" using update(2) by (simp_all add: send_update_def)
    have v: "same_view l l'" "lk_updateSent l'" using d(1) by (simp_all add: l' same_view_def got_def tracked_def objects_ok_def fun_eq_iff)
    have "link_ok l' h q r is ps" by (rule link_ok_view [OF v(1) _ ok]) (use v in simp)
    then have "link_ok l' h (q @ (if hs_open h then [Update commit] else [])) r is ps"
      by (rule told_update_ok) (use v update in \<open>simp_all add: l'(1)\<close>)
    moreover have "q @ (if hs_open h then [Update commit] else []) = (if hs_open h then q @ out else [])"
      using phase_okD(13) [OF d(5)] by (simp add: l')
    ultimately have "link_ok l' h (if hs_open h then q @ out else []) r is ps'" unfolding update(1) by metis
    then show ?thesis by (rule sends) (simp add: l')
  next
    case abandon
    then show ?thesis using abandon_ok [OF ok, of l' out] by (intro sends) (auto simp: abandonUpdate_def)
  next
    case detach
    show ?thesis
    proof (cases "lk_socket l")
      case True
      then have "l' = l\<lparr>lk_socket := False, lk_online := False, lk_acks := []\<rparr>" "out = []" "ps' = ps" using detach by (simp_all add: detach_def)
      then show ?thesis using detach_ok [OF ok] phase_okD(13) [OF d(5)] by (cases "hs_open h") simp_all
    next
      case False
      then show ?thesis using detach ok by (intro quiet) (simp_all add: detach_def)
    qed
  qed
qed

end
