(* ===== verification/Link_Reads.thy ===== *)
theory Link_Reads
  imports Link_Coordinator
begin

text \<open>
  The messages the coordinator reads keep the invariants of the link: events, acknowledgements, a
  failed update and the hello that begins a connection.
\<close>

section \<open>Events and acknowledgements\<close>

lemma gone_tail: "\<not> is_hello m \<Longrightarrow> gone l h (m # r) = gone l h r"
  by (auto simp: gone_def)

lemma phase_tail:
  assumes p: "phase_ok l h q (m # r)" and m: "\<not> is_hello m" shows "phase_ok l h q r"
proof (rule phase_okI)
  note d = phase_okD [OF p]
  have n: "\<forall>x \<in> set r. \<not> is_hello x" using d(1) by simp
  show "x \<in> set (tl r) \<Longrightarrow> \<not> is_hello x" for x using n by (cases r) auto
  show "Hello hl \<in> set r \<Longrightarrow> hello_ok l h hl" for hl using n by auto
  show "\<exists>m \<in> set q. is_welcome m \<Longrightarrow> (\<forall>x \<in> set r. \<not> is_hello x) \<and> met l h" using n d(4) by blast
  show "hs_coordinator h = None \<Longrightarrow> hs_procs h = [] \<and> hs_applied h = 0" using d(6,7) by blast
  show "lk_acks l \<noteq> [] \<Longrightarrow> lk_online l \<and> (\<forall>x \<in> set r. \<not> is_hello x)" using n d(10) by blast
  show "lk_socket l \<Longrightarrow> \<forall>m \<in> set r. \<not> is_hello m \<Longrightarrow> lk_online l" using d(11) m by auto
  show "\<not> lk_socket l \<Longrightarrow> r = []" using d(14) by blast
qed (use phase_okD(5,8,9,12,13,15) [OF p] in blast)+

lemma known_tail: "known_ok l h q (m # r) ps \<Longrightarrow> known_ok l h q r ps"
  unfolding known_ok_def by (elim conjE, intro conjI) (assumption | simp)+

lemma ids_tail: "ids_ok l h q (m # r) is \<Longrightarrow> ids_ok l h q r is"
  unfolding ids_ok_def by simp

lemma numbers_tail: "numbers_ok l h q (m # r) \<Longrightarrow> \<not> is_hello m \<Longrightarrow> numbers_ok l h q r"
  unfolding numbers_ok_def gone_tail by simp

lemma in_flight_tail: "in_flight h (m # r) \<Longrightarrow> in_flight h r"
  unfolding in_flight_def by simp

text \<open>A message that carries no event.\<close>

lemma tail_ok:
  assumes ok: "link_ok l h q (m # r) is ps" and m: "\<not> is_hello m" "\<not> is_event m"
  shows "link_ok l h q r is ps"
proof -
  note d = link_okD [OF ok]
  have e: "events_of p (m # r) = events_of p r" for p using m(2) by (cases m) simp_all
  have "(\<forall>x \<in> set (m # r). \<not> is_hello x) = (\<forall>x \<in> set r. \<not> is_hello x)" using m(1) by simp
  then have "complete l h q r" using d(11) unfolding complete_def e by simp
  moreover have "streams_ok l h r" using d(9) unfolding streams_ok_def e gone_tail [OF m(1)] by (blast intro: in_flight_tail)
  ultimately show ?thesis
    using d ids_tail [OF d(4)] phase_tail [OF d(5) m(1)] numbers_tail [OF d(6) m(1)] known_tail [OF d(8)] by (intro link_okI)
qed

lemma ack_commands_ok:
  assumes ok: "link_ok l h q r is ps" and s: "acquainted l h \<and> s \<le> hs_applied h \<or> \<not> met l h"
  shows "link_ok (l\<lparr>lk_unacked := filter (\<lambda>(t, c). s < t) (lk_unacked l)\<rparr>) h q r is ps"
proof -
  define l' where "l' = l\<lparr>lk_unacked := filter (\<lambda>(t, c). s < t) (lk_unacked l)\<rparr>"
  note d = link_okD [OF ok]
  have f: "lk_instance l' = lk_instance l" "lk_socket l' = lk_socket l" "lk_online l' = lk_online l"
     "lk_hostInstance l' = lk_hostInstance l" "lk_nextSeq l' = lk_nextSeq l" "lk_updateSent l' = lk_updateSent l"
     "lk_acks l' = lk_acks l" "lk_commands l' = lk_commands l" "lk_procs l' = lk_procs l" "lk_object l' = lk_object l"
    by (simp_all add: l'_def)
  have v: "acquainted l' = acquainted l" "met l' = met l" "gone l' = gone l" "hello_ok l' = hello_ok l" "got l' = got l"
    using f by (auto simp: acquainted_def met_def gone_def hello_ok_def got_def tracked_def fun_eq_iff)
  have w: "welcome_ok l' = welcome_ok l" using f v by (simp add: welcome_ok_def fun_eq_iff)
  have "link_ok l' h q r is ps"
  proof (rule link_okI)
    show "ids_ok l' h q r is" using d(4) unfolding ids_ok_def f .
    show "phase_ok l' h q r" by (rule phase_view [OF d(5)]) (use f phase_okD(10,16) [OF d(5)] in simp_all)
    have "\<exists>k \<le> length (lk_commands l). lk_unacked l' = drop k (enumerate 1 (lk_commands l)) \<and> (if acquainted l h then k \<le> hs_applied h else k = 0)"
      if m: "met l h"
    proof -
      obtain k where k: "k \<le> length (lk_commands l)" "lk_unacked l = drop k (enumerate 1 (lk_commands l))"
        "if acquainted l h then k \<le> hs_applied h else k = 0" using numbers_okD(2) [OF d(6) m] by blast
      have "lk_unacked l' = drop (max k s) (enumerate 1 (lk_commands l))"
        using filter_enumerate [of s k "lk_commands l"] k(2) by (simp add: l'_def)
      moreover have "acquainted l h" "s \<le> hs_applied h" using s m by blast+
      ultimately show ?thesis using k numbers_okD(3) [OF d(6)] by (intro exI [of _ "max k s"]) simp
    qed
    then show "numbers_ok l' h q r" using d(6) unfolding numbers_ok_def f v by blast
    have "subseq (map snd (lk_unacked l')) (map snd (lk_unacked l))" by (simp add: l'_def subseq_map subseq_filter_left)
    then show "starts_ok l' h ps" using d(7) unfolding starts_ok_def f v using subseq_order.order_trans by blast
    show "known_ok l' h q r ps" using d(8) unfolding known_ok_def f .
    show "streams_ok l' h r" using d(9) unfolding streams_ok_def v .
    show "acks_ok l' h q" using d(10) unfolding acks_ok_def f v w .
    show "complete l' h q r" using d(11) unfolding complete_def f v .
  qed (use d f in \<open>simp_all add: objects_ok_def\<close>)
  then show ?thesis unfolding l'_def .
qed

text \<open>An event that is read, applied or not, and acknowledged.\<close>

lemma read_event_ok:
  assumes ok: "link_ok l h q (Event p s ev # r) is ps" and socket: "lk_socket l"
    and f: "same_link (l\<lparr>lk_acks := lk_acks l'\<rparr>) l'" and procs: "objects_ok l'" "set (lk_procs l') \<subseteq> set (lk_procs l)"
    and other: "\<And>p'. p' \<noteq> p \<Longrightarrow> got l' p' = got l p'"
    and own: "\<And>G' st'. got l' p = Some (G', st') \<Longrightarrow> \<exists>G st. got l p = Some (G, st) \<and> G' = deliver G [(s, ev)] \<and> (st \<longrightarrow> st')
        \<and> (s = Suc (length G) \<and> is_spawned ev \<longrightarrow> st')"
    and acks: "\<And>p' t. (p', t) \<in> set (lk_acks l') \<Longrightarrow> (p', t) \<in> set (lk_acks l) \<or> p' = p \<and> (\<forall>G' st'. got l' p = Some (G', st') \<longrightarrow> t \<le> length G')"
  shows "link_ok l' h q r is ps"
proof -
  note d = link_okD [OF ok]
  have nh: "\<not> is_hello (Event p s ev)" by simp
  have f: "lk_instance l' = lk_instance l" "lk_socket l' = lk_socket l" "lk_online l' = lk_online l"
     "lk_hostInstance l' = lk_hostInstance l" "lk_nextSeq l' = lk_nextSeq l" "lk_unacked l' = lk_unacked l"
     "lk_commands l' = lk_commands l" "lk_updateSent l' = lk_updateSent l"
    using f by (simp_all add: same_link_def)
  have v: "acquainted l' = acquainted l" "met l' = met l" "gone l' = gone l" "hello_ok l' = hello_ok l"
    using f by (auto simp: acquainted_def met_def gone_def hello_ok_def fun_eq_iff)
  have pps: "p \<in> ps" by (rule known_okD(4) [OF d(8), of p s ev]) simp
  have ext: "\<exists>G st. got l p' = Some (G, st) \<and> length G \<le> length G' \<and> deliver G' (events_of p' r) = deliver G (events_of p' (Event p s ev # r))"
    if g: "got l' p' = Some (G', st')" for p' G' st'
  proof (cases "p' = p")
    case True
    then obtain G st where "got l p = Some (G, st)" "G' = deliver G [(s, ev)]" using own g by blast
    then show ?thesis using True by simp
  next
    case False
    then show ?thesis using g other by auto
  qed
  show ?thesis
  proof (rule link_okI)
    show "ids_ok l' h q r is" using ids_tail [OF d(4)] unfolding ids_ok_def f .
    have online: "lk_online l" "\<forall>x \<in> set r. \<not> is_hello x" using phase_okD(1,11) [OF d(5)] socket by auto
    show "phase_ok l' h q r" by (rule phase_view [OF phase_tail [OF d(5) nh]]) (use f online in simp_all)
    show "numbers_ok l' h q r" using numbers_tail [OF d(6) nh] unfolding numbers_ok_def f v .
    show "starts_ok l' h ps" using d(7) unfolding starts_ok_def f v .
    have "fst ` set (lk_acks l') \<subseteq> ps" using acks known_okD(3) [OF d(8)] pps by fastforce
    then show "known_ok l' h q r ps" using known_tail [OF d(8)] procs(2) unfolding known_ok_def
      by (elim conjE, intro conjI) (assumption | rule subset_trans)+
    show "streams_ok l' h r" unfolding streams_ok_def v
    proof (intro conjI allI impI)
      fix p' G' st' assume g: "got l' p' = Some (G', st')"
      show "process_ok (acquainted l h) (met l h) (gone l h r) (hosted h p') (events_of p' r) G' st'"
      proof (cases "p' = p")
        case False
        then have o: "got l p' = Some (G', st')" and e: "events_of p' (Event p s ev # r) = events_of p' r" using g other by simp_all
        show ?thesis using streams_okD(1) [OF d(9) o] unfolding e gone_tail [OF nh] .
      next
        case True
        with g own obtain G st where o: "got l p = Some (G, st)" "G' = deliver G [(s, ev)]" "st \<longrightarrow> st'"
          "s = Suc (length G) \<and> is_spawned ev \<longrightarrow> st'" by blast
        have pr: "process_ok (acquainted l h) (met l h) (gone l h r) (hosted h p) ((s, ev) # events_of p r) G st"
          using streams_okD(1) [OF d(9) o(1)] by (simp add: gone_tail)
        show ?thesis
        proof (cases "hosted h p")
          case (Some hp)
          then show ?thesis using pr True o(2) by (auto simp: process_ok_def stream_ok_def split: if_splits)
        next
          case None
          have "gone l h r" using pr None by (auto simp: process_ok_def)
          then have "\<not> met l h" by (simp add: gone_def)
          then show ?thesis using pr None True o(2-4) by (auto simp: process_ok_def)
        qed
      qed
    next
      assume "\<not> acquainted l h \<and> \<not> gone l h r"
      then show "in_flight h r" using streams_okD(2) [OF d(9)] in_flight_tail by (simp add: gone_tail)
    qed
    show "acks_ok l' h q"
      unfolding acks_ok_def
    proof (intro conjI allI impI)
      fix p' G' st' t assume g: "got l' p' = Some (G', st')" and e: "EventAck p' t \<in> set q \<or> (p', t) \<in> set (lk_acks l')"
      obtain G st where o: "got l p' = Some (G, st)" "length G \<le> length G'" using ext [OF g] by blast
      show "t \<le> length G'"
      proof (cases "EventAck p' t \<in> set q \<or> (p', t) \<in> set (lk_acks l)")
        case True
        then have "t \<le> length G" using d(10) o(1) unfolding acks_ok_def by blast
        then show ?thesis using o(2) by simp
      next
        case False
        then show ?thesis using e acks g by blast
      qed
    next
      fix pre i epoch received post assume "q = pre @ Welcome i epoch received # post"
      then have w: "welcome_ok l h pre received" using d(10) unfolding acks_ok_def by blast
      have "case map_of received p' of Some s \<Rightarrow> s \<le> length G' | None \<Rightarrow> hosted h p' = None \<and> (\<forall>s c. Command s c \<in> set pre \<longrightarrow> \<not> starts p' c)"
        if g: "got l' p' = Some (G', st')" for p' G' st'
      proof -
        obtain G st where o: "got l p' = Some (G, st)" "length G \<le> length G'" using ext [OF g] by blast
        then have "case map_of received p' of Some s \<Rightarrow> s \<le> length G | None \<Rightarrow> hosted h p' = None \<and> (\<forall>s c. Command s c \<in> set pre \<longrightarrow> \<not> starts p' c)"
          using w unfolding welcome_ok_def by blast
        then show ?thesis using o(2) by (simp split: option.splits)
      qed
      then show "welcome_ok l' h pre received" using w unfolding welcome_ok_def v f by blast
    qed
    have n: "(\<forall>x \<in> set (Event p s ev # r). \<not> is_hello x) = (\<forall>x \<in> set r. \<not> is_hello x)" by simp
    show "complete l' h q r"
      unfolding complete_def f
    proof (intro conjI allI impI)
      fix p' G' st' hp
      assume c: "lk_socket l \<and> hs_open h \<and> (\<forall>m \<in> set r. \<not> is_hello m)" "\<forall>m \<in> set q. \<not> is_welcome m"
        and g: "got l' p' = Some (G', st')" "hosted h p' = Some hp"
      obtain G st where o: "got l p' = Some (G, st)" "deliver G' (events_of p' r) = deliver G (events_of p' (Event p s ev # r))"
        using ext [OF g(1)] by blast
      show "deliver G' (events_of p' r) = hp_events hp"
        unfolding o(2) using d(11) c o(1) g(2) unfolding complete_def n by blast
    next
      assume "lk_socket l \<and> hs_open h \<and> (\<forall>m \<in> set r. \<not> is_hello m)" "\<not> lk_updateSent l"
      then show "will_apply (hs_coordinator h) (hs_applied h) q = length (lk_commands l)"
        using d(11) unfolding complete_def n by blast
    qed
  qed (use d procs in simp_all)
qed

text \<open>Numbers of acknowledgements waiting never exceed what was applied.\<close>

lemma set_alist_update: "(p', t) \<in> set (AList.update p v xs) \<Longrightarrow> (p', t) \<in> set xs \<or> p' = p \<and> t = v"
  by (induction xs) (auto split: if_splits)

lemma acknowledge_frame:
  "lk_procs (acknowledge p s l) = lk_procs l" "lk_object (acknowledge p s l) = lk_object l" "got (acknowledge p s l) = got l"
  "same_link (l\<lparr>lk_acks := X\<rparr>) l0 \<Longrightarrow> same_link (l\<lparr>lk_acks := lk_acks (acknowledge p s l0)\<rparr>) (acknowledge p s l0)"
  by (simp_all add: acknowledge_def got_def tracked_def fun_eq_iff same_link_def)

lemma acknowledge_set:
  assumes "(p', t) \<in> set (lk_acks (acknowledge p s l))"
  shows "(p', t) \<in> set (lk_acks l) \<or> p' = p \<and> (t = s \<or> (p, t) \<in> set (lk_acks l))"
proof -
  have "max s (case map_of (lk_acks l) p of None \<Rightarrow> 0 | Some t \<Rightarrow> t) = s
    \<or> (p, max s (case map_of (lk_acks l) p of None \<Rightarrow> 0 | Some t \<Rightarrow> t)) \<in> set (lk_acks l)"
    by (auto simp: max_def split: option.split dest: map_of_SomeD)
  then show ?thesis using assms set_alist_update unfolding acknowledge_def by fastforce
qed

lemma got_view: "objects_ok l \<Longrightarrow> got l p = Some (G, st) \<longleftrightarrow> (\<exists>rp. tracked l p = Some rp \<and> G = rp_events rp \<and> st = rp_started rp)"
  by (auto simp: got_def)

lemma apply_event_frame:
  assumes o: "objects_ok l" and t: "tracked l p = Some rp" "rp_exited rp' = rp_exited rp" "rp_started rp' = rp_started rp"
    "rp_events rp' = rp_events rp @ [ev]" "rp_lastSeq rp' = Suc (rp_lastSeq rp)"
  shows "objects_ok (apply_event p ev rp' l)"
    "set (lk_procs (apply_event p ev rp' l)) \<subseteq> set (lk_procs l)"
    "p' \<noteq> p \<Longrightarrow> got (apply_event p ev rp' l) p' = got l p'"
    "got (apply_event p ev rp' l) p = (if is_exit ev then None else Some (rp_events rp @ [ev], rp_started rp \<or> is_spawned ev))"
proof -
  have p: "p \<in> set (lk_procs l)" "lk_object l p = Some rp" using t(1) by (auto simp: tracked_def split: if_splits)
  have rp: "object_ok rp" using tracked_ok [OF o t(1)] .
  then have x: "\<not> rp_exited rp'" using t(2) by (simp add: object_ok_def)
  show "set (lk_procs (apply_event p ev rp' l)) \<subseteq> set (lk_procs l)"
    by (auto simp: apply_event_def finish_proc_def split: host_event.splits if_splits)
  show "p' \<noteq> p \<Longrightarrow> got (apply_event p ev rp' l) p' = got l p'"
    by (auto simp: got_def tracked_def apply_event_def finish_proc_def split: host_event.splits if_splits)
  show "got (apply_event p ev rp' l) p = (if is_exit ev then None else Some (rp_events rp @ [ev], rp_started rp \<or> is_spawned ev))"
    using p t x by (cases ev) (auto simp: got_def tracked_def apply_event_def finish_proc_def)
  show "objects_ok (apply_event p ev rp' l)"
    using o p t x rp by (cases ev) (auto simp: objects_ok_def apply_event_def finish_proc_def object_ok_def)
qed

lemma handle_event_ok:
  assumes ok: "link_ok l h q (Event p s ev # r) is ps" and socket: "lk_socket l"
  shows "link_ok (handleEvent p s ev l) h q r is ps"
proof -
  note d = link_okD [OF ok]
  have old: "t \<le> length G" if "got l p = Some (G, st)" "(p, t) \<in> set (lk_acks l)" for t G st
    using d(10) that unfolding acks_ok_def by blast
  have acked: "link_ok (acknowledge p s l0) h q r is ps"
    if l0: "same_link l l0" "objects_ok l0" "set (lk_procs l0) \<subseteq> set (lk_procs l)" "\<And>p'. p' \<noteq> p \<Longrightarrow> got l0 p' = got l p'"
      and own: "\<And>G' st'. got l0 p = Some (G', st') \<Longrightarrow> \<exists>G st. got l p = Some (G, st) \<and> G' = deliver G [(s, ev)] \<and> (st \<longrightarrow> st')
          \<and> (s = Suc (length G) \<and> is_spawned ev \<longrightarrow> st') \<and> s \<le> length G'" for l0
  proof (rule read_event_ok [OF ok socket])
    show "same_link (l\<lparr>lk_acks := lk_acks (acknowledge p s l0)\<rparr>) (acknowledge p s l0)"
      by (rule acknowledge_frame(4) [where X = "lk_acks l"]) (use l0(1) in \<open>simp add: same_link_def\<close>)
    show "objects_ok (acknowledge p s l0)" using l0(2) by (simp add: objects_ok_def acknowledge_frame)
    show "set (lk_procs (acknowledge p s l0)) \<subseteq> set (lk_procs l)" using l0(3) by (simp add: acknowledge_frame)
    show "got (acknowledge p s l0) p' = got l p'" if "p' \<noteq> p" for p' using l0(4) [OF that] by (simp add: acknowledge_frame)
    show "\<exists>G st. got l p = Some (G, st) \<and> G' = deliver G [(s, ev)] \<and> (st \<longrightarrow> st') \<and> (s = Suc (length G) \<and> is_spawned ev \<longrightarrow> st')"
      if "got (acknowledge p s l0) p = Some (G', st')" for G' st'
      using own [OF that [unfolded acknowledge_frame]] by blast
    fix p' t assume "(p', t) \<in> set (lk_acks (acknowledge p s l0))"
    moreover have "lk_acks l0 = lk_acks l" using l0(1) by (simp add: same_link_def)
    ultimately have e: "(p', t) \<in> set (lk_acks l) \<or> p' = p \<and> (t = s \<or> (p, t) \<in> set (lk_acks l))"
      using acknowledge_set by metis
    have "t \<le> length G'" if "p' = p" "t = s" "got l0 p = Some (G', st')" for G' st' using own [OF that(3)] that by blast
    then show "(p', t) \<in> set (lk_acks l) \<or> p' = p \<and> (\<forall>G' st'. got (acknowledge p s l0) p = Some (G', st') \<longrightarrow> t \<le> length G')"
      using e by (auto simp: acknowledge_frame)
  qed
  show ?thesis
  proof (cases "tracked l p")
    case None
    then have "link_ok (acknowledge p s l) h q r is ps" by (intro acked) (use d(1) in \<open>simp_all add: got_def\<close>)
    then show ?thesis using None by (simp add: handleEvent_def)
  next
    case (Some rp)
    have g: "got l p = Some (rp_events rp, rp_started rp)" using Some by (simp add: got_def)
    have n: "rp_lastSeq rp = length (rp_events rp)" using tracked_ok [OF d(1) Some] by (simp add: object_ok_def)
    consider "s = Suc (rp_lastSeq rp)" | "s \<le> rp_lastSeq rp" | "s > Suc (rp_lastSeq rp)" by linarith
    then show ?thesis
    proof cases
      case 1
      define rp' where "rp' = rp\<lparr>rp_lastSeq := s, rp_events := rp_events rp @ [ev]\<rparr>"
      have "link_ok (acknowledge p s (apply_event p ev rp' l)) h q r is ps"
      proof (rule acked)
        note a = apply_event_frame [OF d(1) Some, of rp' ev]
        show "same_link l (apply_event p ev rp' l)" by simp
        show "objects_ok (apply_event p ev rp' l)" by (rule a(1)) (use 1 in \<open>simp_all add: rp'_def\<close>)
        show "set (lk_procs (apply_event p ev rp' l)) \<subseteq> set (lk_procs l)" by (rule a(2)) (use 1 in \<open>simp_all add: rp'_def\<close>)
        show "got (apply_event p ev rp' l) p' = got l p'" if "p' \<noteq> p" for p' by (rule a(3)) (use 1 that in \<open>simp_all add: rp'_def\<close>)
        have "got (apply_event p ev rp' l) p = (if is_exit ev then None else Some (rp_events rp @ [ev], rp_started rp \<or> is_spawned ev))"
          by (rule a(4)) (use 1 in \<open>simp_all add: rp'_def\<close>)
        then show "\<exists>G st. got l p = Some (G, st) \<and> G' = deliver G [(s, ev)] \<and> (st \<longrightarrow> st')
            \<and> (s = Suc (length G) \<and> is_spawned ev \<longrightarrow> st') \<and> s \<le> length G'" if "got (apply_event p ev rp' l) p = Some (G', st')" for G' st'
          using that g n 1 by (auto split: if_splits)
      qed
      then show ?thesis using Some 1 by (simp add: handleEvent_def rp'_def)
    next
      case 2
      have "link_ok (acknowledge p s l) h q r is ps" by (intro acked) (use d(1) g n 2 in auto)
      then show ?thesis using Some 2 by (simp add: handleEvent_def)
    next
      case 3
      have "link_ok l h q r is ps" by (rule read_event_ok [OF ok socket]) (use d(1) g n 3 in \<open>auto simp: same_link_def\<close>)
      then show ?thesis using Some 3 by (simp add: handleEvent_def)
    qed
  qed
qed

section \<open>The hello of a connection\<close>

lemma received_map: "map_of (received_seqs l) p = (if p \<in> set (lk_procs l) then Some (case lk_object l p of None \<Rightarrow> 0 | Some r \<Rightarrow> rp_lastSeq r) else None)"
proof -
  have "map_of (map (\<lambda>p. (p, f p)) xs) p = (if p \<in> set xs then Some (f p) else None)" for f :: "string \<Rightarrow> nat" and xs
    by (induction xs) auto
  then show ?thesis by (simp add: received_seqs_def)
qed

lemma received_got:
  assumes o: "objects_ok l" and g: "got l p = Some (G, st)" shows "map_of (received_seqs l) p = Some (length G)"
proof -
  obtain rp where t: "tracked l p = Some rp" "G = rp_events rp" using g by (auto simp: got_def)
  then have "rp_lastSeq rp = length G" using tracked_ok [OF o] by (auto simp: object_ok_def)
  then show ?thesis using t(1) by (auto simp: received_map tracked_def split: if_splits)
qed

lemma received_some:
  assumes o: "objects_ok l" and s: "map_of (received_seqs l) p = Some s"
  shows "\<exists>G st. got l p = Some (G, st) \<and> length G = s \<and> (\<forall>ev \<in> set G. \<not> is_exit ev)"
proof -
  have p: "p \<in> set (lk_procs l)" using s by (simp add: received_map split: if_splits)
  then obtain rp where r: "lk_object l p = Some rp" "object_ok rp" using o by (auto simp: objects_ok_def)
  then have g: "got l p = Some (rp_events rp, rp_started rp)" using p by (simp add: got_def tracked_def)
  have "length (rp_events rp) = s" using received_got [OF o g] s by simp
  then show ?thesis using g r(2) by (auto simp: object_ok_def)
qed

definition welcome_messages :: "nat \<Rightarrow> link_state \<Rightarrow> to_host list" where
  "welcome_messages applied l = Welcome (lk_instance l) (lk_epoch l) (received_seqs l)
     # (if lk_updateSent l then [] else commands_of (filter (\<lambda>(s, c). applied < s) (lk_unacked l)))"

text \<open>The answer to a hello: the coordinator says what it has and sends again what may be missing.\<close>

lemma welcomed_ok:
  assumes o: "objects_ok l" and h: "hosts_ok h" "distinct_procs h" and ids: "ids_ok l h q r is"
    and quiet: "\<forall>m \<in> set q. \<not> is_welcome m" "\<forall>m \<in> set r. \<not> is_hello m" "lk_acks l = []" and m: "met l h" and socket: "lk_socket l"
    and host: "hs_coordinator h = None \<Longrightarrow> hs_procs h = [] \<and> hs_applied h = 0" "\<not> hs_open h \<Longrightarrow> q = []"
    and n: "numbers_ok l h q r" and st: "starts_ok l h ps" and k: "known_ok l h q r ps" and str: "streams_ok l h r" and a: "acks_ok l h q"
    and applied: "if acquainted l h then applied \<le> hs_applied h else applied = 0"
    and upd: "upd = [] \<or> lk_updateSent l \<and> (\<exists>commit. upd = [Update commit])"
  shows "link_ok (l\<lparr>lk_online := True\<rparr>) h (if hs_open h then q @ welcome_messages applied l @ upd else []) r is ps"
proof -
  define l' where "l' = l\<lparr>lk_online := True\<rparr>"
  define rest where "rest = (if lk_updateSent l then [] else commands_of (filter (\<lambda>(s, c). applied < s) (lk_unacked l))) @ upd"
  define out where "out = (if hs_open h then Welcome (lk_instance l) (lk_epoch l) (received_seqs l) # rest else [])"
  have q': "(if hs_open h then q @ welcome_messages applied l @ upd else []) = q @ out"
    using host(2) by (simp add: out_def rest_def welcome_messages_def)
  have f: "lk_instance l' = lk_instance l" "lk_socket l' = lk_socket l" "lk_online l' = True"
     "lk_hostInstance l' = lk_hostInstance l" "lk_nextSeq l' = lk_nextSeq l" "lk_unacked l' = lk_unacked l" "lk_updateSent l' = lk_updateSent l"
     "lk_acks l' = lk_acks l" "lk_commands l' = lk_commands l" "lk_procs l' = lk_procs l" "lk_object l' = lk_object l"
    by (simp_all add: l'_def)
  have v: "acquainted l' = acquainted l" "met l' = met l" "gone l' = gone l" "got l' = got l"
    using f by (auto simp: acquainted_def met_def gone_def got_def tracked_def fun_eq_iff)
  have w: "welcome_ok l' = welcome_ok l" using f v by (simp add: welcome_ok_def fun_eq_iff)
  have ng: "\<not> gone l h r" using m by (simp add: gone_def)
  obtain b where b: "b \<le> length (lk_commands l)" "lk_unacked l = drop b (enumerate 1 (lk_commands l))"
    "if acquainted l h then b \<le> hs_applied h else b = 0" using numbers_okD(2) [OF n m] by blast
  have resent: "filter (\<lambda>(s, c). applied < s) (lk_unacked l) = drop (max b applied) (enumerate 1 (lk_commands l))"
    unfolding b(2) by (rule filter_enumerate)
  have nw: "\<forall>m \<in> set rest. \<not> is_welcome m" using upd by (auto simp: rest_def)
  have na: "EventAck p s \<notin> set out" for p s using upd by (auto simp: out_def rest_def)
  have cmd: "1 \<le> s \<and> s \<le> length (lk_commands l) \<and> lk_commands l ! (s - 1) = c" if "Command s c \<in> set out" for s c
  proof -
    have "(s, c) \<in> set (drop (max b applied) (enumerate 1 (lk_commands l)))"
      using that upd by (auto simp: out_def rest_def resent split: if_splits)
    then show ?thesis using unacked_numbered by metis
  qed
  have tw: "takeWhile (\<lambda>m. \<not> is_welcome m) (q @ out) = q" using quiet(1) by (simp add: out_def takeWhile_append2 takeWhile_eq_all_conv)
  have tq: "takeWhile (\<lambda>m. \<not> is_welcome m) q = q" using quiet(1) by (simp add: takeWhile_eq_all_conv)
  have wel: "i = lk_instance l \<and> epoch = lk_epoch l \<and> received = received_seqs l" if "Welcome i epoch received \<in> set (q @ out)" for i epoch received
    using that quiet(1) nw by (auto simp: out_def split: if_splits)
  have "link_ok l' h (q @ out) r is ps"
  proof (rule link_okI)
    have "filter is_welcome q = []" "filter is_welcome rest = []" using quiet(1) nw by (simp_all add: filter_empty_conv)
    then have "length (filter is_welcome (q @ out)) \<le> 1" by (simp add: out_def)
    then show "ids_ok l' h (q @ out) r is" using ids wel unfolding ids_ok_def f by blast
    show "phase_ok l' h (q @ out) r"
    proof (rule phase_okI, unfold f v)
      show "x \<in> set (tl r) \<Longrightarrow> \<not> is_hello x" for x using quiet(2) by (cases r) auto
      show "Hello hl \<in> set r \<Longrightarrow> hello_ok l' h hl" for hl using quiet(2) by auto
      show "True \<Longrightarrow> hs_open h \<Longrightarrow> (\<exists>m \<in> set (q @ out). is_welcome m) \<or> acquainted l h" by (simp add: out_def)
      show "\<not> hs_open h \<Longrightarrow> q @ out = []" using host(2) by (simp add: out_def)
    qed (use m quiet host socket in \<open>simp_all add: met_def\<close>)
    show "numbers_ok l' h (q @ out) r"
    proof -
      have "met l h \<and> 1 \<le> s \<and> s \<le> length (lk_commands l) \<and> lk_commands l ! (s - 1) = c" if "Command s c \<in> set (q @ out)" for s c
        using that cmd numbers_okD(5-8) [OF n, of s c] m by auto
      moreover have "\<forall>m \<in> set (takeWhile (\<lambda>m. \<not> is_welcome m) (q @ out)). \<not> numbered m" if "\<not> acquainted l h"
        using numbers_okD(9) [OF n that] unfolding tq tw .
      ultimately show ?thesis using n unfolding numbers_ok_def f v by blast
    qed
    show "starts_ok l' h ps" using st unfolding starts_ok_def f v .
    have "fst ` set (received_seqs l) \<subseteq> ps" using known_okD(2) [OF k] by (auto simp: received_seqs_def)
    then have "\<forall>i epoch received. Welcome i epoch received \<in> set (q @ out) \<longrightarrow> fst ` set received \<subseteq> ps" using wel by blast
    moreover have "EventAck p s \<in> set (q @ out) \<longleftrightarrow> EventAck p s \<in> set q" for p s using na by simp
    ultimately show "known_ok l' h (q @ out) r ps" using k unfolding known_ok_def f by (elim conjE, intro conjI) simp_all
    show "streams_ok l' h r" using str unfolding streams_ok_def v .
    show "acks_ok l' h (q @ out)"
      unfolding acks_ok_def
    proof (intro conjI allI impI)
      fix p G sta s assume "got l' p = Some (G, sta)" "EventAck p s \<in> set (q @ out) \<or> (p, s) \<in> set (lk_acks l')"
      then have "got l p = Some (G, sta)" "EventAck p s \<in> set q \<or> (p, s) \<in> set (lk_acks l)" using na by (auto simp: v f)
      then show "s \<le> length G" using a unfolding acks_ok_def by blast
    next
      fix pre i epoch received post assume e: "q @ out = pre @ Welcome i epoch received # post"
      then have i: "Welcome i epoch received \<in> set (q @ out)" by simp
      then have o': "received = received_seqs l" using wel by blast
      have nq: "Welcome i epoch received \<notin> set q" using quiet(1) by auto
      have nr: "Welcome i epoch received \<notin> set rest" using nw by auto
      have pre: "pre = q"
      proof -
        from e consider us where "q = pre @ us" "us @ out = Welcome i epoch received # post" | us where "q @ us = pre" "out = us @ Welcome i epoch received # post"
          by (auto simp: append_eq_append_conv2)
        then show ?thesis
        proof cases
          case 1
          then show ?thesis using nq by (cases us) auto
        next
          case 2
          then show ?thesis using nr by (cases us) (auto simp: out_def split: if_splits)
        qed
      qed
      show "welcome_ok l' h pre received"
        unfolding w welcome_ok_def pre o'
      proof (intro conjI allI impI)
        fix p G sta assume "got l p = Some (G, sta)"
        then have "map_of (received_seqs l) p = Some (length G)" by (rule received_got [OF o])
        then show "case map_of (received_seqs l) p of Some s \<Rightarrow> s \<le> length G | None \<Rightarrow> hosted h p = None \<and> (\<forall>s c. Command s c \<in> set q \<longrightarrow> \<not> starts p c)" by simp
      next
        fix p s hp assume c: "acquainted l h" and e: "map_of (received_seqs l) p = Some s" and hp: "hosted h p = Some hp"
        obtain G sta where g: "got l p = Some (G, sta)" "length G = s" "\<forall>ev \<in> set G. \<not> is_exit ev" using received_some [OF o e] by blast
        have "prefix (deliver G (events_of p r)) (hp_events hp)"
          using streams_okD(1) [OF str g(1)] c hp by (simp add: process_ok_def stream_ok_def)
        then have x: "prefix G (hp_events hp)" using deliver_extends [of G "events_of p r"] by (metis prefixI prefix_order.trans)
        then show "s \<le> length (hp_events hp)" using g(2) prefix_length_le by blast
        assume "hp_exited hp"
        then have "hp_events hp \<noteq> []" "is_exit (last (hp_events hp))" using h(1) hp by (auto simp: hosted_ok_def)
        then have "G \<noteq> hp_events hp" using g(3) by (metis last_in_set)
        then have "strict_prefix G (hp_events hp)" using x by (simp add: strict_prefix_def)
        then show "s < length (hp_events hp)" using g(2) prefix_length_less by blast
      next
        fix p s i assume c: "acquainted l h" and e: "map_of (received_seqs l) p = Some s" and hp: "hosted h p = None"
        obtain G sta where g: "got l p = Some (G, sta)" "length G = s" using received_some [OF o e] by blast
        then show "s = 0" using streams_okD(1) [OF str g(1)] hp m by (simp add: process_ok_def)
      qed
    qed
    have "will_apply (hs_coordinator h) (hs_applied h) (q @ out) = length (lk_commands l)" if u: "\<not> lk_updateSent l" "hs_open h"
    proof -
      define a1 where "a1 = will_apply (hs_coordinator h) (hs_applied h) q"
      have split: "will_apply co a (q @ Welcome i e rc # rest') = will_apply (Some i) (if co = Some i then will_apply co a q else 0) rest'" for co a i e rc rest'
        using quiet(1)
      proof (induction q arbitrary: a)
        case (Cons x xs)
        then show ?case by (cases x) auto
      qed simp
      have out: "out = Welcome (lk_instance l) (lk_epoch l) (received_seqs l) # commands_of (drop (max b applied) (enumerate 1 (lk_commands l)))"
        using upd u by (auto simp: out_def rest_def resent)
      show ?thesis
      proof (cases "acquainted l h")
        case True
        then have c: "hs_coordinator h = Some (lk_instance l)" by (simp add: acquainted_def)
        have "hs_applied h \<le> a1" unfolding a1_def by (rule will_apply_ge) (use quiet(1) in auto)
        moreover have "a1 \<le> length (lk_commands l)"
          unfolding a1_def by (rule will_apply_le) (use numbers_okD(7) [OF n] numbers_okD(3) [OF n True] in auto)
        moreover have "max b applied \<le> hs_applied h" using b(3) applied True by simp
        ultimately have "will_apply (Some (lk_instance l)) a1 (commands_of (drop (max b applied) (enumerate 1 (lk_commands l)))) = length (lk_commands l)"
          by (intro will_apply_resent) simp_all
        then show ?thesis unfolding out split a1_def [symmetric] using c by simp
      next
        case False
        then have c: "hs_coordinator h \<noteq> Some (lk_instance l)" using m by (simp add: acquainted_def met_def)
        have "max b applied = 0" using b(3) applied False by simp
        then show ?thesis unfolding out split using c will_apply_resent [of 0 0 "lk_commands l" "Some (lk_instance l)"] by simp
      qed
    qed
    then show "complete l' h (q @ out) r" unfolding complete_def f by (auto simp: out_def)
  qed (use o h f in \<open>simp_all add: objects_ok_def\<close>)
  then show ?thesis unfolding q' l'_def .
qed

subsection \<open>A host instance the coordinator has not met\<close>

lemma enumerate_snd: "map snd (enumerate n xs) = xs"
  by (induction xs arbitrary: n) simp_all

lemma new_instance_frame:
  assumes o: "objects_ok l" and l': "l' = new_host_instance m l"
  shows "objects_ok l'" "lk_instance l' = lk_instance l" "lk_socket l' = lk_socket l" "lk_online l' = lk_online l"
    "lk_acks l' = lk_acks l" "lk_hostInstance l' = Some (hl_instance m)" "\<not> lk_updateSent l'" "lk_epoch l' = lk_epoch l"
    "lk_updateRequested l' = None"
    "lk_nextSeq l' = Suc (length (lk_commands l'))" "lk_unacked l' = enumerate 1 (lk_commands l')"
    "subseq (lk_commands l') (map snd (lk_unacked l))" "set (lk_procs l') \<subseteq> set (lk_procs l)"
    "got l' p = (if p \<in> set (lost_processes m l) then None else got l p)"
proof -
  define reason where "reason = (if lk_hostInstance l = None then ''The host no longer runs this process'' else ''The host restarted and its processes ended'')"
  define l1 where "l1 = fold (fail_proc reason) (lost_processes m l) l"
  have e: "l' = (renumber l1)\<lparr>lk_hostInstance := Some (hl_instance m), lk_updateRequested := None, lk_updateSent := False\<rparr>"
    by (simp add: l' new_host_instance_def Let_def l1_def reason_def)
  have s: "same_link l l1" unfolding l1_def by (rule same_fold_fail)
  note k = fold_fail [OF o, of reason "lost_processes m l", folded l1_def]
  have p: "lk_procs l' = lk_procs l1" "lk_object l' = lk_object l1" by (simp_all add: e renumber_def Let_def)
  then have t: "tracked l' = tracked l1" by (simp add: tracked_def fun_eq_iff)
  show "objects_ok l'" using k p by (simp add: objects_ok_def)
  show "set (lk_procs l') \<subseteq> set (lk_procs l)" using k p by auto
  show "got l' p = (if p \<in> set (lost_processes m l) then None else got l p)" using k by (simp add: got_def t)
  show "lk_instance l' = lk_instance l" "lk_socket l' = lk_socket l" "lk_online l' = lk_online l" "lk_acks l' = lk_acks l"
    "lk_hostInstance l' = Some (hl_instance m)" "\<not> lk_updateSent l'" "lk_epoch l' = lk_epoch l" "lk_updateRequested l' = None"
    using s by (simp_all add: e renumber_def Let_def same_link_def)
  show "lk_nextSeq l' = Suc (length (lk_commands l'))" "lk_unacked l' = enumerate 1 (lk_commands l')"
    by (simp_all add: e renumber_def Let_def)
  have "lk_unacked l1 = lk_unacked l" using s by (simp add: same_link_def)
  then show "subseq (lk_commands l') (map snd (lk_unacked l))" by (simp add: e renumber_def Let_def subseq_filter_left)
qed

lemma lostI:
  assumes "got l p = Some (G, True)" "lk_hostInstance l = None \<Longrightarrow> p \<notin> set (hl_processes m)"
  shows "p \<in> set (lost_processes m l)"
  using assms by (auto simp: got_def tracked_def lost_processes_def Let_def split: if_splits)

lemma starts_renumbered:
  assumes st: "starts_ok l h ps" and l': "subseq (lk_commands l') (map snd (lk_unacked l))" "map snd (lk_unacked l') = lk_commands l'"
    and a: "\<not> acquainted l h \<or> hs_procs h = []"
  shows "starts_ok l' h ps"
proof -
  have sub: "subseq (lk_commands l') (lk_commands l)" using l'(1) starts_okD(4) [OF st] by (rule subseq_order.order_trans)
  have one: "length (filter (starts p) (lk_commands l')) \<le> 1" for p
  proof -
    have "subseq (filter (starts p) (lk_commands l')) (filter (starts p) (lk_commands l))" using sub by (rule subseq_filter)
    then show ?thesis using starts_okD(1) [OF st, of p] list_emb_length by (meson le_trans)
  qed
  have mem: "c \<in> set (lk_commands l)" if "c \<in> set (lk_commands l')" for c using list_emb_set [OF sub that] by metis
  have no: False if p: "hosted h p \<noteq> None" and i: "i < length (lk_commands l')" and c: "starts p (lk_commands l' ! i)" for p i
  proof -
    have "lk_commands l' ! i \<in> set (lk_commands l)" using mem i by simp
    then obtain j where "j < length (lk_commands l)" "starts p (lk_commands l ! j)" using c by (metis in_set_conv_nth)
    then have "acquainted l h" using starts_okD(3) [OF st p] by blast
    then show False using a p by simp
  qed
  show ?thesis
    unfolding starts_ok_def l'(2)
  proof (intro conjI allI ballI impI)
    show "length (filter (starts p) (lk_commands l')) \<le> 1" for p by (rule one)
    show "p \<in> ps" if "c \<in> set (lk_commands l')" "starts p c" for p c using starts_okD(2) [OF st mem [OF that(1)] that(2)] .
  qed (use no in blast, use no in blast, simp)
qed

text \<open>A host that restarted while its hello was on the way: the answer never arrives.\<close>

lemma dead_hello_ok:
  assumes ok: "link_ok l h q (Hello m # r) is ps" and x: "hl_instance m \<noteq> hs_instance h" and socket: "lk_socket l"
    and l': "l' = (if lk_hostInstance l = Some (hl_instance m) then l else new_host_instance m l)"
  shows "link_ok (l'\<lparr>lk_online := True\<rparr>) h [] r is ps"
proof -
  define l2 where "l2 = l'\<lparr>lk_online := True\<rparr>"
  note d = link_okD [OF ok]
  have hello: "hs_coordinator h = None" "\<not> hs_open h" "\<not> met l h"
    using phase_okD(2) [OF d(5), of m] x by (simp_all add: hello_ok_def)
  have procs: "hs_procs h = []" "hs_applied h = 0" using phase_okD(6,7) [OF d(5)] hello(1) by blast+
  have nh: "\<forall>x \<in> set r. \<not> is_hello x" using phase_okD(1) [OF d(5)] by simp
  have acks: "lk_acks l = []" using phase_okD(16) [OF d(5)] by auto
  have gone: "gone l h (Hello m # r)" using hello(3) x nh by (auto simp: gone_def)
  note nf = new_instance_frame [OF d(1) refl, of m]
  have f: "lk_instance l2 = lk_instance l" "lk_socket l2" "lk_online l2" "lk_acks l2 = []" "lk_hostInstance l2 = Some (hl_instance m)"
    "objects_ok l'" "set (lk_procs l2) \<subseteq> set (lk_procs l)" "lk_nextSeq l2 = Suc (length (lk_commands l2))"
    using nf d(1) acks socket numbers_okD(1) [OF d(6)] by (simp_all add: l2_def l')
  have g: "got l p = Some (G, st)" if "got l2 p = Some (G, st)" for p G st
  proof -
    have "got l2 p = got l' p" by (simp add: l2_def got_def tracked_def)
    then show ?thesis using that nf(14) [of p] by (simp add: l' split: if_splits)
  qed
  have m2: "\<not> met l2 h" using x f(5) by (simp add: met_def)
  have a2: "\<not> acquainted l2 h" using m2 acquainted_met by blast
  have "link_ok l2 h [] r is ps"
  proof (rule link_okI)
    show "objects_ok l2" using f(6) by (simp add: l2_def objects_ok_def)
    show "ids_ok l2 h [] r is" using d(4) f by (simp add: ids_ok_def)
    show "phase_ok l2 h [] r"
    proof (rule phase_okI)
      show "x \<in> set (tl r) \<Longrightarrow> \<not> is_hello x" for x using nh by (cases r) auto
      show "Hello hl \<in> set r \<Longrightarrow> hello_ok l2 h hl" for hl using nh by auto
    qed (use f hello procs nh in \<open>simp_all add: met_def\<close>)
    show "numbers_ok l2 h [] r" using m2 a2 f nh unfolding numbers_ok_def by (auto simp: gone_def)
    have "starts_ok l' h ps"
    proof (cases "lk_hostInstance l = Some (hl_instance m)")
      case True
      then show ?thesis using d(7) by (simp add: l')
    next
      case False
      then have e: "l' = new_host_instance m l" by (simp add: l')
      show ?thesis unfolding e by (rule starts_renumbered [OF d(7) nf(12)]) (use nf(11) procs in \<open>simp_all add: enumerate_snd\<close>)
    qed
    then show "starts_ok l2 h ps" using procs by (simp add: starts_ok_def l2_def)
    show "known_ok l2 h [] r ps" using known_tail [OF d(8)] f unfolding known_ok_def by (elim conjE, intro conjI) (assumption | simp | rule subset_trans)+
    have "process_ok (acquainted l2 h) (met l2 h) (gone l2 h r) (hosted h p) (events_of p r) G st" if "got l2 p = Some (G, st)" for p G st
    proof -
      have "process_ok (acquainted l h) (met l h) True None (events_of p r) G st"
        using streams_okD(1) [OF d(9) g [OF that]] gone procs by simp
      then show ?thesis using hello(3) m2 procs nh by (auto simp: process_ok_def gone_def)
    qed
    moreover have "gone l2 h r" using m2 nh by (auto simp: gone_def)
    ultimately show "streams_ok l2 h r" unfolding streams_ok_def by blast
    show "acks_ok l2 h []" by (simp add: acks_ok_def f)
    show "complete l2 h [] r" using hello by (simp add: complete_def)
  qed (use d in simp_all)
  then show ?thesis unfolding l2_def .
qed

text \<open>A live host the coordinator meets, perhaps with processes it has adopted already.\<close>

lemma met_ok:
  assumes ok: "link_ok l h q (Hello m # r) is ps" and x: "hl_instance m = hs_instance h" and socket: "lk_socket l" and nm: "\<not> met l h"
    and l': "l' = new_host_instance m l"
  shows "link_ok (l'\<lparr>lk_online := True\<rparr>) h (if hs_open h then q @ welcome_messages 0 l' @ [] else []) r is ps"
proof -
  note d = link_okD [OF ok]
  have hello: "\<not> acquainted l h \<longrightarrow> set (hl_processes m) = dom (hosted h)"
    using phase_okD(2) [OF d(5), of m] x by (simp add: hello_ok_def)
  have na: "\<not> acquainted l h" using nm acquainted_met by blast
  have ng: "\<not> gone l h (Hello m # r)" using x by (auto simp: gone_def)
  have nh: "\<forall>x \<in> set r. \<not> is_hello x" using phase_okD(1) [OF d(5)] by simp
  have nq: "\<forall>x \<in> set q. \<not> is_welcome x" using phase_okD(4) [OF d(5)] nm by blast
  then have tq: "takeWhile (\<lambda>m. \<not> is_welcome m) q = q" by (simp add: takeWhile_eq_all_conv)
  have quiet: "\<forall>x \<in> set q. \<not> numbered x" using numbers_okD(9) [OF d(6) na] unfolding tq .
  have acks: "lk_acks l = []" using phase_okD(16) [OF d(5)] by auto
  note nf = new_instance_frame [OF d(1) l']
  have m': "met l' h" using nf(6) x by (simp add: met_def)
  have "hs_coordinator h \<noteq> Some (lk_instance l)" using phase_okD(5) [OF d(5)] nm by blast
  then have na': "\<not> acquainted l' h" using nf(2) by (simp add: acquainted_def)
  have c: "Command s c \<notin> set q" "EventAck p s \<notin> set q" for s c p using quiet by auto
  show ?thesis
  proof (rule welcomed_ok)
    show "objects_ok l'" by (rule nf(1))
    show "ids_ok l' h q r is" using d(4) x nf(2,6) by (auto simp: ids_ok_def)
    show "lk_acks l' = []" using nf(5) acks by simp
    show "lk_socket l'" using nf(3) socket by simp
    show "hs_coordinator h = None \<Longrightarrow> hs_procs h = [] \<and> hs_applied h = 0" using phase_okD(6,7) [OF d(5)] by blast
    show "\<not> hs_open h \<Longrightarrow> q = []" by (rule phase_okD(13) [OF d(5)])
    have "CommandAck s \<notin> set r" for s using numbers_okD(10) [OF d(6), of s] na ng by auto
    then show "numbers_ok l' h q r" using nf(10,11) m' na' c quiet unfolding numbers_ok_def by (auto dest: set_takeWhileD intro: exI [of _ 0])
    show "starts_ok l' h ps" by (rule starts_renumbered [OF d(7) nf(12)]) (use nf(11) na in \<open>simp_all add: enumerate_snd\<close>)
    show "known_ok l' h q r ps" using known_tail [OF d(8)] nf(5,13) unfolding known_ok_def by (elim conjE, intro conjI) (assumption | simp | rule subset_trans)+
    have "process_ok (acquainted l' h) (met l' h) (gone l' h r) (hosted h p) (events_of p r) G st" if g: "got l' p = Some (G, st)" for p G st
    proof -
      have g': "got l p = Some (G, st)" "p \<notin> set (lost_processes m l)" using g nf(14) [of p] by (auto split: if_splits)
      have pr: "process_ok False False False (hosted h p) (events_of p r) G st"
        using streams_okD(1) [OF d(9) g'(1)] na nm ng by simp
      have "G = []" if "hosted h p = None"
      proof (cases st)
        case False
        then show ?thesis using pr that by (simp add: process_ok_def)
      next
        case True
        then have "got l p = Some (G, True)" using g'(1) by simp
        from lostI [OF this, of m] have "lk_hostInstance l = None \<and> p \<in> set (hl_processes m)" using g'(2) by blast
        then have "p \<in> dom (hosted h)" using hello na by blast
        then show ?thesis using that by auto
      qed
      then show ?thesis using pr m' na' by (auto simp: process_ok_def gone_def split: option.splits)
    qed
    moreover have "in_flight h r" using in_flight_tail [OF streams_okD(2) [OF d(9) na ng]] .
    ultimately show "streams_ok l' h r" unfolding streams_ok_def by blast
    show "acks_ok l' h q" using nq c nf(5) acks by (auto simp: acks_ok_def)
    show "if acquainted l' h then 0 \<le> hs_applied h else (0 :: nat) = 0" by simp
  qed (use d nh nq m' in simp_all)
qed

lemma known_hello_ok:
  assumes ok: "link_ok l h q (Hello m # r) is ps" and x: "hl_instance m = hs_instance h" and socket: "lk_socket l" and me: "met l h"
    and upd: "upd = [] \<or> lk_updateSent l \<and> (\<exists>commit. upd = [Update commit])"
    and applied: "applied = (if hl_appliedFrom m = Some (lk_instance l) then hl_applied m else 0)"
  shows "link_ok (l\<lparr>lk_online := True\<rparr>) h (if hs_open h then q @ welcome_messages applied l @ upd else []) r is ps"
proof -
  note d = link_okD [OF ok]
  have hello: "hl_appliedFrom m = hs_coordinator h" "hl_applied m \<le> hs_applied h"
    using phase_okD(2) [OF d(5), of m] x by (simp_all add: hello_ok_def)
  have nq: "\<forall>x \<in> set q. \<not> is_welcome x" using phase_okD(3) [OF d(5), of _ "Hello m"] by auto
  have g: "gone l h (Hello m # r) = gone l h r" using me by (simp add: gone_def)
  show ?thesis
  proof (rule welcomed_ok [OF d(1-3) ids_tail [OF d(4)] nq _ _ me socket])
    show "\<forall>x \<in> set r. \<not> is_hello x" using phase_okD(1) [OF d(5)] by simp
    show "lk_acks l = []" using phase_okD(16) [OF d(5)] by auto
    show "hs_coordinator h = None \<Longrightarrow> hs_procs h = [] \<and> hs_applied h = 0" using phase_okD(6,7) [OF d(5)] by blast
    show "\<not> hs_open h \<Longrightarrow> q = []" by (rule phase_okD(13) [OF d(5)])
    show "numbers_ok l h q r" using d(6) unfolding numbers_ok_def g by simp
    show "starts_ok l h ps" by (rule d(7))
    show "known_ok l h q r ps" by (rule known_tail [OF d(8)])
    show "streams_ok l h r" using d(9) unfolding streams_ok_def g by (simp add: in_flight_def)
    show "acks_ok l h q" by (rule d(10))
    show "if acquainted l h then applied \<le> hs_applied h else applied = 0"
      using hello me by (simp add: applied acquainted_def met_def)
    show "upd = [] \<or> lk_updateSent l \<and> (\<exists>commit. upd = [Update commit])" by (rule upd)
  qed
qed

lemma hello_read_ok:
  assumes ok: "link_ok l h q (Hello m # r) is ps" and socket: "lk_socket l" and e: "handleHello m l = (l', out)"
  shows "link_ok l' h (if hs_open h then q @ out else []) r is ps"
proof -
  note d = link_okD [OF ok]
  have hello: "hl_protocol m = HOST_PROTOCOL_VERSION" "hl_instance m \<noteq> hs_instance h \<Longrightarrow> \<not> hs_open h"
    using phase_okD(2) [OF d(5), of m] by (simp_all add: hello_ok_def split: if_splits)
  define l1 where "l1 = (if lk_hostInstance l = Some (hl_instance m) then l else new_host_instance m l)"
  define applied where "applied = (if hl_appliedFrom m = Some (lk_instance l1) then hl_applied m else 0)"
  define upd where "upd = (case lk_updateRequested l1 of Some commit \<Rightarrow> if lk_hostInstance l = Some (hl_instance m) \<and> lk_updateSent l1 then [Update commit] else [] | None \<Rightarrow> [])"
  have "handleHello m l = (l1\<lparr>lk_online := True\<rparr>, welcome_messages applied l1 @ upd)"
    unfolding handleHello_def Let_def hello(1) welcome_messages_def applied_def upd_def l1_def [symmetric] by simp
  then have e: "l' = l1\<lparr>lk_online := True\<rparr>" "out = welcome_messages applied l1 @ upd" using e by simp_all
  show ?thesis
  proof (cases "hl_instance m = hs_instance h")
    case False
    have "link_ok (l1\<lparr>lk_online := True\<rparr>) h [] r is ps" by (rule dead_hello_ok [OF ok False socket l1_def])
    then show ?thesis using hello(2) [OF False] by (simp add: e)
  next
    case True
    show ?thesis
    proof (cases "met l h")
      case m: True
      then have l1: "l1 = l" using True by (simp add: l1_def met_def)
      show ?thesis unfolding e l1
        by (rule known_hello_ok [OF ok True socket m]) (auto simp: upd_def l1 applied_def split: option.split)
    next
      case False
      then have l1: "l1 = new_host_instance m l" using True by (simp add: l1_def met_def)
      have "hs_coordinator h \<noteq> Some (lk_instance l1)" using phase_okD(5) [OF d(5)] False new_instance_frame(2) [OF d(1) l1] by auto
      moreover have "hl_appliedFrom m = hs_coordinator h" using phase_okD(2) [OF d(5), of m] True by (simp add: hello_ok_def)
      ultimately have "applied = 0" by (simp add: applied_def)
      moreover have "upd = []" using new_instance_frame(7,9) [OF d(1) l1] by (simp add: upd_def)
      ultimately show ?thesis unfolding e using met_ok [OF ok True socket False l1] by metis
    qed
  qed
qed

section \<open>Every message\<close>

lemma receive_socket:
  assumes o: "objects_ok l" and e: "link_receive m l = (l', out)" shows "lk_socket l' = lk_socket l"
proof (cases m)
  case (Hello x)
  then show ?thesis using e new_instance_frame(3) [OF o refl] by (auto simp: link_receive_def handleHello_def Let_def split: if_splits)
next
  case (Event p s ev)
  have "lk_socket (apply_event p ev rp l) = lk_socket l" for rp using same_apply [of l p ev rp l] by (simp add: same_link_def)
  then show ?thesis using Event e
    by (auto simp: link_receive_def handleEvent_def acknowledge_def split: option.splits if_splits)
qed (use e in \<open>auto simp: link_receive_def abandonUpdate_def split: if_splits\<close>)

lemma coordinator_reads_ok:
  assumes ok: "link_ok l h q (m # r) is ps" and socket: "lk_socket l" and e: "link_receive m l = (l', out)"
  shows "link_ok l' h (if hs_open h then q @ out else []) r is ps"
proof (cases m)
  case (Hello m)
  then show ?thesis using hello_read_ok [OF _ socket] ok e by (simp add: link_receive_def)
next
  case (Event p s ev)
  then have "link_ok l' h q r is ps" "out = []" using handle_event_ok [OF _ socket] ok e by (auto simp: link_receive_def)
  then show ?thesis using phase_okD(13) [OF link_okD(5) [OF ok]] by (cases "hs_open h") simp_all
next
  case (CommandAck s)
  have t: "link_ok l h q r is ps" by (rule tail_ok [OF ok]) (simp_all add: CommandAck)
  have "acquainted l h \<and> s \<le> hs_applied h \<or> \<not> met l h"
    using numbers_okD(10) [OF link_okD(6) [OF ok], of s] CommandAck by (auto simp: gone_def)
  from ack_commands_ok [OF t this] have "link_ok l' h q r is ps" "out = []" using e by (auto simp: link_receive_def CommandAck)
  then show ?thesis using phase_okD(13) [OF link_okD(5) [OF ok]] by (cases "hs_open h") simp_all
next
  case (UpdateFailed commit err)
  have t: "link_ok l h q r is ps" by (rule tail_ok [OF ok]) (simp_all add: UpdateFailed)
  show ?thesis
  proof (cases "Some commit = lk_updateRequested l")
    case True
    then show ?thesis using abandon_ok [OF t] e by (simp add: link_receive_def UpdateFailed)
  next
    case False
    then have "l' = l" "out = []" using e by (simp_all add: link_receive_def UpdateFailed)
    then show ?thesis using t phase_okD(13) [OF link_okD(5) [OF ok]] by (cases "hs_open h") simp_all
  qed
qed

end
