(* ===== verification/Link_Host.thy ===== *)
theory Link_Host
  imports Link_Reads
begin

text \<open>
  The host's steps keep the invariants of the link: events of its processes, the messages it reads,
  lost connections and restarts.
\<close>

section \<open>A host that knows the coordinator\<close>

lemma set_tl_append: "x \<in> set (tl (xs @ ys)) \<Longrightarrow> x \<in> set (tl xs) \<or> x \<in> set ys"
  by (cases xs; cases ys) auto

lemma advance_ok:
  assumes ok: "link_ok l h (ms @ q) r is ps"
    and h': "hosts_ok h'" "distinct_procs h'" "hs_instance h' = hs_instance h" "hs_open h' = hs_open h" "acquainted l h'"
    and prev: "acquainted l h \<and> hs_applied h \<le> hs_applied h' \<or> \<not> acquainted l h \<and> (\<forall>m \<in> set r. \<not> is_hello m)"
    and n: "hs_applied h' \<le> length (lk_commands l)" "hs_commands h' = take (hs_applied h') (lk_commands l)"
    and st: "\<And>p i. hosted h' p \<noteq> None \<Longrightarrow> i < length (lk_commands l) \<Longrightarrow> starts p (lk_commands l ! i) \<Longrightarrow> i < hs_applied h'"
    and dom: "dom (hosted h') \<subseteq> ps"
    and out: "\<And>m. m \<in> set out \<Longrightarrow> (\<exists>p s ev. m = Event p s ev \<and> p \<in> ps) \<or> (\<exists>s. m = CommandAck s \<and> s \<le> hs_applied h')" "lk_socket l \<or> out = []"
    and streams: "\<And>p G sta. got l p = Some (G, sta) \<Longrightarrow> process_ok True True False (hosted h' p) (events_of p (r @ out)) G sta"
    and wel: "\<And>pre i epoch received post. q = pre @ Welcome i epoch received # post \<Longrightarrow> welcome_ok l h' pre received"
    and comp: "\<And>p G sta hp. lk_socket l \<Longrightarrow> hs_open h \<Longrightarrow> \<forall>m \<in> set r. \<not> is_hello m \<Longrightarrow> \<forall>m \<in> set q. \<not> is_welcome m
        \<Longrightarrow> got l p = Some (G, sta) \<Longrightarrow> hosted h' p = Some hp \<Longrightarrow> deliver G (events_of p (r @ out)) = hp_events hp"
    and wa: "will_apply (hs_coordinator h') (hs_applied h') q = will_apply (hs_coordinator h) (hs_applied h) (ms @ q)"
  shows "link_ok l h' q (r @ out) is ps"
proof -
  note d = link_okD [OF ok]
  have m: "met l h'" "met l h" using acquainted_met [OF h'(5)] h'(3) by (simp_all add: met_def)
  have c: "hs_coordinator h' = Some (lk_instance l)" using h'(5) by (simp add: acquainted_def)
  have ng: "\<not> gone l h r" "\<not> gone l h' (r @ out)" using m by (simp_all add: gone_def)
  have noh: "\<not> is_hello x" if "x \<in> set out" for x using out(1) [OF that] by auto
  have hellos: "(\<forall>x \<in> set (r @ out). \<not> is_hello x) \<longleftrightarrow> (\<forall>x \<in> set r. \<not> is_hello x)" using noh by auto
  show ?thesis
  proof (rule link_okI)
    have "lk_instance l \<in> is" using d(4) by (simp add: ids_ok_def)
    moreover have "Hello m \<notin> set out" for m using noh by fastforce
    ultimately show "ids_ok l h' q (r @ out) is"
      using d(4) h'(3) c by (auto simp: ids_ok_def)
    show "phase_ok l h' q (r @ out)"
    proof (rule phase_okI)
      fix x assume "x \<in> set (tl (r @ out))"
      then have "x \<in> set (tl r) \<or> x \<in> set out" by (rule set_tl_append)
      then show "\<not> is_hello x" using phase_okD(1) [OF d(5)] noh by blast
    next
      fix hl assume "Hello hl \<in> set (r @ out)"
      then have hl: "Hello hl \<in> set r" using noh [of "Hello hl"] by auto
      then have a: "acquainted l h" "hs_applied h \<le> hs_applied h'" using prev by auto
      show "hello_ok l h' hl"
        using phase_okD(2) [OF d(5) hl] m h'(3,5) a c by (auto simp: hello_ok_def acquainted_def split: if_splits)
    next
      assume "\<exists>m \<in> set q. is_welcome m"
      then show "(\<forall>x \<in> set (r @ out). \<not> is_hello x) \<and> met l h'" using phase_okD(3) [OF d(5)] m hellos by auto
    next
      assume "lk_acks l \<noteq> []"
      then show "lk_online l \<and> (\<forall>x \<in> set (r @ out). \<not> is_hello x)" using phase_okD(10,16) [OF d(5)] hellos by blast
    next
      assume "lk_socket l" "\<forall>x \<in> set (r @ out). \<not> is_hello x"
      then show "lk_online l" using phase_okD(11) [OF d(5)] hellos by blast
    next
      assume "\<not> lk_socket l"
      then show "r @ out = []" using phase_okD(14) [OF d(5)] out(2) by auto
    qed (use m c h' phase_okD(9,13,15) [OF d(5)] in auto)
    show "numbers_ok l h' q (r @ out)"
    proof -
      obtain k where k: "k \<le> length (lk_commands l)" "lk_unacked l = drop k (enumerate 1 (lk_commands l))"
        "if acquainted l h then k \<le> hs_applied h else k = 0" using numbers_okD(2) [OF d(6) m(2)] by blast
      have "k \<le> hs_applied h'" using k(3) prev by (auto split: if_splits)
      then have 1: "\<exists>k \<le> length (lk_commands l). lk_unacked l = drop k (enumerate 1 (lk_commands l)) \<and> (if acquainted l h' then k \<le> hs_applied h' else k = 0)"
        using k h'(5) by auto
      have 2: "s \<le> hs_applied h'" if "CommandAck s \<in> set (r @ out)" for s
      proof (cases "CommandAck s \<in> set r")
        case True
        then show ?thesis using numbers_okD(10) [OF d(6) True] ng(1) prev by auto
      next
        case False
        then show ?thesis using that out(1) by auto
      qed
      have 3: "met l h' \<and> 1 \<le> s \<and> s \<le> length (lk_commands l) \<and> lk_commands l ! (s - 1) = c" if "Command s c \<in> set q" for s c
        using numbers_okD(5-8) [OF d(6), of s c] that m by auto
      show ?thesis unfolding numbers_ok_def using numbers_okD(1) [OF d(6)] 1 2 3 n h'(5) by blast
    qed
    show "starts_ok l h' ps" using d(7) st h'(5) unfolding starts_ok_def by blast
    have e: "p \<in> ps" if "Event p s ev \<in> set (r @ out)" for p s ev
      using that known_okD(4) [OF d(8), of p s ev] out(1) [of "Event p s ev"] by auto
    show "known_ok l h' q (r @ out) ps"
      using d(8) dom e unfolding known_ok_def by (elim conjE, intro conjI) (assumption | auto)+
    show "streams_ok l h' (r @ out)" unfolding streams_ok_def using streams h'(5) m ng by simp
    show "acks_ok l h' q" using d(10) wel unfolding acks_ok_def by auto
    show "complete l h' q (r @ out)"
      using d(11) comp unfolding complete_def wa hellos h'(4) by blast
  qed (use d h' in simp_all)
qed

section \<open>Events of the host's processes\<close>

lemma grown_events:
  assumes "hosted_ok hp" "grown hp evs hp'" "(s, ev) \<in> set (enumerate (Suc (length (hp_events hp))) evs)"
  shows "length (hp_events hp) < s \<and> s \<le> length (hp_events hp') \<and> hp_events hp' ! (s - 1) = ev"
  using assms(2,3) by (auto simp: grown_def in_set_enumerate_eq nth_append)

lemma stream_grows:
  assumes ok: "hosted_ok hp" and g: "grown hp evs hp'" and es': "es' = [] \<or> es' = enumerate (Suc (length (hp_events hp))) evs"
    and s: "stream_ok acq G hp es"
  shows "stream_ok acq G hp' (es @ es')"
proof -
  have late: "\<forall>(s, ev) \<in> set es'. length (hp_events hp) < s \<and> s \<le> length (hp_events hp') \<and> hp_events hp' ! (s - 1) = ev"
    using es' by (auto dest: grown_events [OF ok g])
  have e: "hp_events hp' = hp_events hp @ evs" "acked hp' = acked hp" using g by (simp_all add: grown_def)
  have p: "prefix (deliver G (es @ es')) (hp_events hp')" if "prefix (deliver G es) (hp_events hp)"
  proof -
    have "prefix (deliver G es) (hp_events hp')" using that e by simp
    then show ?thesis unfolding deliver_append by (rule deliver_prefix) (use late in auto)
  qed
  have "2 \<le> s" if "(s, ev) \<in> set es'" "acked hp \<noteq> 0" for s ev
  proof -
    have "0 < length (hp_events hp)" using that(2) by (auto simp: acked_def)
    moreover have "length (hp_events hp) < s" using late that(1) by blast
    ultimately show ?thesis by linarith
  qed
  then show ?thesis using s p e by (auto simp: stream_ok_def split: if_splits)
qed

lemma no_procs: "hs_procs h = [] \<longleftrightarrow> dom (hosted h) = {}"
  by (cases "hs_procs h") (auto simp: dom_eq_empty_conv fun_eq_iff split: if_splits)

lemma emits_ok:
  assumes ok: "link_ok l h q r is ps" and em: "emits h h' out" and dist: "distinct_procs h'"
  shows "link_ok l h' q (if lk_socket l then r @ out else []) is ps"
proof -
  note d = link_okD [OF ok]
  define out' where "out' = (if lk_socket l then out else [])"
  have r': "(if lk_socket l then r @ out else []) = r @ out'" using phase_okD(14) [OF d(5)] by (simp add: out'_def)
  have f: "hs_instance h' = hs_instance h" "hs_open h' = hs_open h" "hs_coordinator h' = hs_coordinator h" "hs_applied h' = hs_applied h"
    "hs_commands h' = hs_commands h" using em by (simp_all add: emits_def same_host_def)
  have v: "acquainted l h' = acquainted l h" "met l h' = met l h" using f by (simp_all add: acquainted_def met_def)
  have g: "grows (host_connected h) (hosted h p) (hosted h' p) (events_of p out)" for p using em by (simp add: emits_def)
  have dm: "hosted h' p = None \<longleftrightarrow> hosted h p = None" for p using g [of p] by (cases "hosted h p") auto
  then have dom: "dom (hosted h') = dom (hosted h)" by (auto simp: dom_def)
  have kind: "is_event x" if "x \<in> set out'" for x using em that by (auto simp: emits_def out'_def split: if_splits)
  have "\<not> is_hello x \<and> x \<noteq> Hello hl \<and> x \<noteq> CommandAck s" if "x \<in> set out'" for x hl s using kind [OF that] by (cases x) simp_all
  then have nh: "\<not> is_hello x" "x \<noteq> Hello hl" "x \<noteq> CommandAck s" if "x \<in> set out'" for x hl s using that by blast+
  have gn: "gone l h' (r @ out') = gone l h r" using v f nh unfolding gone_def by auto
  have hellos: "(\<forall>x \<in> set (r @ out'). \<not> is_hello x) \<longleftrightarrow> (\<forall>x \<in> set r. \<not> is_hello x)" using nh by auto
  have ack: "CommandAck s \<in> set (r @ out') \<longleftrightarrow> CommandAck s \<in> set r" "Hello hl \<in> set (r @ out') \<longleftrightarrow> Hello hl \<in> set r" for s hl
    using nh(3) [of "CommandAck s" s] nh(2) [of "Hello hl" hl] by auto
  have ho: "hello_ok l h' = hello_ok l h" using v f dom by (simp add: hello_ok_def fun_eq_iff)
  have some: "\<exists>hp evs. hosted h p = Some hp \<and> hosted_ok hp \<and> grown hp evs hp' \<and> (events_of p out = (if host_connected h then enumerate (Suc (length (hp_events hp))) evs else []))"
    if "hosted h' p = Some hp'" for p hp'
    using g [of p] d(2) dm [of p] that by (cases "hosted h p") auto
  have none: "events_of p out' = []" if "hosted h p = None" for p using g [of p] that by (simp add: out'_def)
  have eo: "events_of p out' = (if lk_socket l then events_of p out else [])" for p by (simp add: out'_def)
  have "link_ok l h' q (r @ out') is ps"
  proof (rule link_okI)
    show "hosts_ok h'" by (rule emits_hosts_ok [OF em])
    show "ids_ok l h' q (r @ out') is" using d(4) unfolding ids_ok_def f ack .
    show "phase_ok l h' q (r @ out')"
    proof (rule phase_okI, unfold v f ack ho hellos)
      fix x assume "x \<in> set (tl (r @ out'))"
      then have "x \<in> set (tl r) \<or> x \<in> set out'" by (rule set_tl_append)
      then show "\<not> is_hello x" using phase_okD(1) [OF d(5)] nh by blast
    next
      show "Hello hl \<in> set r \<Longrightarrow> hello_ok l h hl" for hl by (rule phase_okD(2) [OF d(5)])
      assume "\<exists>m \<in> set q. is_welcome m"
      then obtain m where m: "m \<in> set q" "is_welcome m" by blast
      show "(\<forall>x \<in> set r. \<not> is_hello x) \<and> met l h" using phase_okD(3) [OF d(5) m] phase_okD(4) [OF d(5) m] by blast
    next
      have "hs_procs h' = [] \<longleftrightarrow> hs_procs h = []" unfolding no_procs dom by (rule refl)
      then show "hs_coordinator h = None \<Longrightarrow> hs_procs h' = [] \<and> hs_applied h = 0" using phase_okD(6,7) [OF d(5)] by metis
      show "lk_acks l \<noteq> [] \<Longrightarrow> lk_online l \<and> (\<forall>x \<in> set r. \<not> is_hello x)" by (intro conjI phase_okD(10,16) [OF d(5)])
      show "\<not> lk_socket l \<Longrightarrow> r @ out' = []" using phase_okD(14) [OF d(5)] by (simp add: out'_def)
    qed (fact phase_okD [OF d(5)])+
    show "numbers_ok l h' q (r @ out')" using d(6) unfolding numbers_ok_def v f ack gn .
    show "starts_ok l h' ps" using d(7) unfolding starts_ok_def v f dm .
    have "p \<in> ps" if "Event p s ev \<in> set (r @ out')" for p s ev
    proof (cases "Event p s ev \<in> set r")
      case True
      then show ?thesis by (rule known_okD(4) [OF d(8)])
    next
      case False
      then have "events_of p out' \<noteq> []" using that events_of_set [of s ev p out'] by auto
      then show ?thesis using none known_okD(1) [OF d(8)] by blast
    qed
    then show "known_ok l h' q (r @ out') ps" using d(8) unfolding known_ok_def dom by (elim conjE, intro conjI) (assumption | blast)+
    show "streams_ok l h' (r @ out')"
      unfolding streams_ok_def v gn
    proof (intro conjI allI impI)
      fix p G st assume gt: "got l p = Some (G, st)"
      note pr = streams_okD(1) [OF d(9) gt]
      show "process_ok (acquainted l h) (met l h) (gone l h r) (hosted h' p) (events_of p (r @ out')) G st"
      proof (cases "hosted h' p")
        case None
        then have n: "hosted h p = None" using dm by blast
        show ?thesis using pr none [OF n] by (simp add: n None)
      next
        case (Some hp')
        then obtain hp evs where x: "hosted h p = Some hp" "hosted_ok hp" "grown hp evs hp'"
          "events_of p out = (if host_connected h then enumerate (Suc (length (hp_events hp))) evs else [])" using some by blast
        have "stream_ok (acquainted l h) G hp (events_of p r)" using pr x(1) by (simp add: process_ok_def)
        from stream_grows [OF x(2,3) _ this, of "events_of p out'"] show ?thesis using x(4) by (simp add: Some process_ok_def eo)
      qed
    next
      assume n: "\<not> acquainted l h \<and> \<not> gone l h r"
      have "\<exists>hp. hosted h' p = Some hp \<and> acked hp < s \<and> s \<le> length (hp_events hp) \<and> hp_events hp ! (s - 1) = ev"
        if e: "Event p s ev \<in> set (r @ out')" for p s ev
      proof (cases "Event p s ev \<in> set r")
        case True
        then obtain hp where hp: "hosted h p = Some hp" "acked hp < s" "s \<le> length (hp_events hp)" "hp_events hp ! (s - 1) = ev"
          using streams_okD(2) [OF d(9)] n unfolding in_flight_def by blast
        then obtain hp' evs where "hosted h' p = Some hp'" "grown hp evs hp'" using g [of p] by auto
        then show ?thesis using hp by (auto simp: grown_def nth_append)
      next
        case False
        then have i: "(s, ev) \<in> set (events_of p out')" using e by (simp add: events_of_set)
        then obtain hp' where h': "hosted h' p = Some hp'" using none dm by fastforce
        then obtain hp evs where x: "hosted_ok hp" "grown hp evs hp'"
          "events_of p out = (if host_connected h then enumerate (Suc (length (hp_events hp))) evs else [])" using some by blast
        have "(s, ev) \<in> set (enumerate (Suc (length (hp_events hp))) evs)" using i x(3) by (simp add: eo split: if_splits)
        note ge = grown_events [OF x(1,2) this]
        have "acked hp' = acked hp" using x(2) by (simp add: grown_def)
        then have "acked hp' \<le> length (hp_events hp)" using acked_le [OF x(1)] by simp
        then show ?thesis using h' ge by (intro exI [of _ hp']) simp
      qed
      then show "in_flight h' (r @ out')" unfolding in_flight_def by blast
    qed
    have "welcome_ok l h' pre received" if w: "welcome_ok l h pre received" for pre received
    proof -
      have "s \<le> length (hp_events hp') \<and> (hp_exited hp' \<longrightarrow> s < length (hp_events hp'))"
        if a: "acquainted l h" and s: "map_of received p = Some s" and h': "hosted h' p = Some hp'" for p s hp'
      proof -
        obtain hp evs where x: "hosted h p = Some hp" "hosted_ok hp" "grown hp evs hp'" using some [OF h'] by blast
        then have b: "s \<le> length (hp_events hp) \<and> (hp_exited hp \<longrightarrow> s < length (hp_events hp))" using w a s unfolding welcome_ok_def by blast
        have e: "hp_events hp' = hp_events hp @ evs" "hosted_ok hp'" using x(3) by (simp_all add: grown_def)
        have "hp_exited hp' = hp_exited hp" if "evs = []" using x(2) e that by (simp add: hosted_ok_def)
        then show ?thesis using b e(1) by (cases evs) auto
      qed
      then show ?thesis using w unfolding welcome_ok_def v f dm by blast
    qed
    then show "acks_ok l h' q" using d(10) unfolding acks_ok_def by blast
    show "complete l h' q (r @ out')"
      unfolding complete_def hellos f
    proof (intro impI conjI allI)
      fix p G st hp' assume c: "lk_socket l \<and> hs_open h \<and> (\<forall>m \<in> set r. \<not> is_hello m)" and nw: "\<forall>m \<in> set q. \<not> is_welcome m"
        and gt: "got l p = Some (G, st)" and h': "hosted h' p = Some hp'"
      obtain hp evs where x: "hosted h p = Some hp" "grown hp evs hp'"
        "events_of p out = (if host_connected h then enumerate (Suc (length (hp_events hp))) evs else [])" using some [OF h'] by blast
      have "acquainted l h" using phase_okD(11,12) [OF d(5)] c nw by blast
      then have "host_connected h" using c by (simp add: acquainted_def)
      then have "events_of p out' = enumerate (Suc (length (hp_events hp))) evs" using x(3) c by (simp add: eo)
      moreover have "deliver G (events_of p r) = hp_events hp" using d(11) c nw gt x(1) unfolding complete_def by blast
      ultimately show "deliver G (events_of p (r @ out')) = hp_events hp'"
        using x(2) by (simp add: deliver_enumerate grown_def)
    next
      assume "lk_socket l \<and> hs_open h \<and> (\<forall>m \<in> set r. \<not> is_hello m)" "\<not> lk_updateSent l"
      then show "will_apply (hs_coordinator h) (hs_applied h) q = length (lk_commands l)" using d(11) unfolding complete_def by blast
    qed
  qed (use d dist in simp_all)
  then show ?thesis unfolding r' .
qed

section \<open>Lost connections and restarts\<close>

lemma process_lost: "process_ok acq mt gn x es G st \<Longrightarrow> process_ok acq mt gn' x [] G st"
proof -
  assume p: "process_ok acq mt gn x es G st"
  have "prefix (deliver G es) E \<Longrightarrow> prefix G E" for E
    using deliver_extends [of G es] by (metis prefixI prefix_order.trans)
  then show ?thesis using p by (auto simp: process_ok_def stream_ok_def split: option.splits if_splits)
qed

lemma host_drop_ok:
  assumes ok: "link_ok l h q r is ps"
    and f: "hs_procs h' = hs_procs h" "hs_instance h' = hs_instance h" "hs_coordinator h' = hs_coordinator h" "hs_applied h' = hs_applied h"
      "hs_commands h' = hs_commands h" "\<not> hs_open h'"
  shows "link_ok l h' [] r is ps"
proof -
  note d = link_okD [OF ok]
  have v: "acquainted l h' = acquainted l h" "met l h' = met l h" "gone l h' r = gone l h r" using f by (simp_all add: acquainted_def met_def gone_def)
  have ho: "hello_ok l h' m" if "hello_ok l h m" for m using that f v by (auto simp: hello_ok_def split: if_splits)
  show ?thesis
  proof (rule link_okI)
    show "ids_ok l h' [] r is" using d(4) unfolding ids_ok_def f by simp
    show "phase_ok l h' [] r"
    proof (rule phase_okI, unfold v f)
      show "Hello hl \<in> set r \<Longrightarrow> hello_ok l h' hl" for hl using phase_okD(2) [OF d(5)] ho by blast
      show "lk_acks l \<noteq> [] \<Longrightarrow> lk_online l \<and> (\<forall>x \<in> set r. \<not> is_hello x)" by (intro conjI phase_okD(10,16) [OF d(5)])
      show "hs_coordinator h = None \<Longrightarrow> hs_procs h = [] \<and> hs_applied h = 0" by (intro conjI phase_okD(6,7) [OF d(5)])
      show "lk_online l \<Longrightarrow> hs_open h' \<Longrightarrow> (\<exists>m \<in> set []. is_welcome m) \<or> acquainted l h" using f(6) by blast
    qed ((fact phase_okD [OF d(5)]) | simp)+
    show "numbers_ok l h' [] r" using d(6) unfolding numbers_ok_def v f by simp
    show "starts_ok l h' ps" using d(7) unfolding starts_ok_def v f .
    show "known_ok l h' [] r ps" using d(8) unfolding known_ok_def f by simp
    show "streams_ok l h' r" using d(9) unfolding streams_ok_def in_flight_def v f .
    show "acks_ok l h' []" using d(10) unfolding acks_ok_def by auto
    show "complete l h' [] r" using f(6) by (simp add: complete_def)
  qed (use d f in \<open>simp_all add: distinct_procs_def\<close>)
qed

lemma connect_ok:
  assumes ok: "link_ok l h q r is ps" and g: "\<not> hs_open h" "\<not> hs_stopped h" "lk_online l \<Longrightarrow> acquainted l h"
    and e: "host_connect h = (h', out)"
  shows "link_ok (attach l) h' [] out is ps"
proof -
  note d = link_okD [OF ok]
  have h': "h' = h\<lparr>hs_open := True\<rparr>" and out: "out = [host_hello h]" using e g(2) by (simp_all add: host_connect_def)
  define l' where "l' = attach l"
  have fl: "lk_instance l' = lk_instance l" "lk_socket l'" "lk_online l' = lk_online l" "lk_hostInstance l' = lk_hostInstance l"
    "lk_nextSeq l' = lk_nextSeq l" "lk_unacked l' = lk_unacked l" "lk_acks l' = []" "lk_commands l' = lk_commands l" "lk_procs l' = lk_procs l"
    "got l' = got l" by (simp_all add: l'_def attach_def got_def tracked_def fun_eq_iff)
  have f: "hs_procs h' = hs_procs h" "hs_instance h' = hs_instance h" "hs_coordinator h' = hs_coordinator h" "hs_applied h' = hs_applied h"
      "hs_commands h' = hs_commands h" by (simp_all add: h')
  have v: "acquainted l' h' = acquainted l h" "met l' h' = met l h" using f fl by (simp_all add: acquainted_def met_def)
  have hl: "is_hello (host_hello h)" "\<not> gone l' h' [host_hello h]" using f by (auto simp: host_hello_def gone_def)
  have ng: "events_of p [host_hello h] = []" "CommandAck s \<noteq> host_hello h" "Event p s ev \<noteq> host_hello h" for p s ev by (simp_all add: host_hello_def)
  have "link_ok l' h' [] [host_hello h] is ps"
  proof (rule link_okI)
    have "lk_instance l \<in> is" "hs_instance h \<in> is" "set_option (hs_coordinator h) \<subseteq> is" "set_option (lk_hostInstance l) \<subseteq> is"
      using d(4) unfolding ids_ok_def by blast+
    then show "ids_ok l' h' [] [host_hello h] is" by (simp add: ids_ok_def fl f host_hello_def)
    show "phase_ok l' h' [] [host_hello h]"
    proof (rule phase_okI, unfold v f fl)
      show "hello_ok l' h' m" if "Hello m \<in> set [host_hello h]" for m
        using that by (auto simp: hello_ok_def host_hello_def f dom_map_of_conv_image_fst)
      show "hs_coordinator h = None \<Longrightarrow> hs_procs h = [] \<and> hs_applied h = 0" by (intro conjI phase_okD(6,7) [OF d(5)])
      show "\<forall>m \<in> set [host_hello h]. \<not> is_hello m \<Longrightarrow> lk_online l" using hl by simp
      show "lk_online l \<Longrightarrow> (\<exists>m \<in> set []. is_welcome m) \<or> acquainted l h" using g(3) by blast
    qed ((fact phase_okD [OF d(5)]) | simp add: fl)+
    show "numbers_ok l' h' [] [host_hello h]" using d(6) unfolding numbers_ok_def v f fl by (simp add: ng)
    show "starts_ok l' h' ps" using d(7) unfolding starts_ok_def v f fl .
    show "known_ok l' h' [] [host_hello h] ps" using d(8) unfolding known_ok_def f fl by (simp add: ng)
    show "streams_ok l' h' [host_hello h]" unfolding streams_ok_def v f fl ng
      using process_lost [OF streams_okD(1) [OF d(9)]] by (simp add: in_flight_def ng)
    show "acks_ok l' h' []" by (simp add: acks_ok_def fl)
    show "complete l' h' [] [host_hello h]" using hl by (simp add: complete_def)
  qed (use d f fl in \<open>simp_all add: distinct_procs_def objects_ok_def l'_def attach_def\<close>)
  then show ?thesis unfolding out l'_def .
qed

lemma host_restart_ok:
  assumes ok: "link_ok l h q r is ps" and i: "i \<notin> is"
    and unstarted: "\<And>p rp. tracked l p = Some rp \<Longrightarrow> \<not> rp_started rp \<Longrightarrow> rp_events rp = [] \<and> (\<forall>ev. Event p 1 ev \<in> set r \<longrightarrow> is_spawned ev)"
  shows "link_ok l (new_host i) [] r (insert i is) ps"
proof -
  note d = link_okD [OF ok]
  have f: "hs_procs (new_host i) = []" "hs_instance (new_host i) = i" "hs_coordinator (new_host i) = None" "hs_applied (new_host i) = 0" "\<not> hs_open (new_host i)"
    by (simp_all add: new_host_def)
  have ids: "lk_instance l \<in> is" "set_option (lk_hostInstance l) \<subseteq> is" "\<forall>m. Hello m \<in> set r \<longrightarrow> hl_instance m \<in> is"
    using d(4) unfolding ids_ok_def by blast+
  have v: "\<not> met l (new_host i)" "\<not> acquainted l (new_host i)" "gone l (new_host i) r"
    using ids i f by (auto simp: met_def acquainted_def gone_def)
  show ?thesis
  proof (rule link_okI)
    show "ids_ok l (new_host i) [] r (insert i is)" using ids f by (auto simp: ids_ok_def)
    show "phase_ok l (new_host i) [] r"
    proof (rule phase_okI, unfold f)
      fix hl assume "Hello hl \<in> set r"
      moreover from this have "hl_instance hl \<noteq> i" using ids(3) i by blast
      ultimately show "hello_ok l (new_host i) hl" using phase_okD(2) [OF d(5), of hl] v f by (simp add: hello_ok_def)
    next
      show "lk_acks l \<noteq> [] \<Longrightarrow> lk_online l \<and> (\<forall>x \<in> set r. \<not> is_hello x)" by (intro conjI phase_okD(10,16) [OF d(5)])
    qed ((fact phase_okD [OF d(5)]) | simp add: f)+
    show "numbers_ok l (new_host i) [] r" using d(6) v unfolding numbers_ok_def by simp
    show "starts_ok l (new_host i) ps" using d(7) unfolding starts_ok_def by (simp add: f)
    show "known_ok l (new_host i) [] r ps" using d(8) unfolding known_ok_def by (simp add: f)
    have "process_ok False False True None (events_of p r) G st" if gt: "got l p = Some (G, st)" for p G st
    proof (cases st)
      case False
      then obtain rp where "tracked l p = Some rp" "\<not> rp_started rp" "G = rp_events rp" using gt by (auto simp: got_def)
      then have "G = []" "\<forall>ev. Event p 1 ev \<in> set r \<longrightarrow> is_spawned ev" using unstarted by blast+
      then show ?thesis by (simp add: process_ok_def events_of_set)
    qed (simp add: process_ok_def)
    then show "streams_ok l (new_host i) r" unfolding streams_ok_def using v f by simp
    show "acks_ok l (new_host i) []" using d(10) unfolding acks_ok_def by auto
    show "complete l (new_host i) [] r" by (simp add: complete_def f)
  qed (use d f in \<open>simp_all add: distinct_procs_def\<close>)
qed

end
