(* ===== verification/Link_Host_Reads.thy ===== *)
theory Link_Host_Reads
  imports Link_Host
begin

text \<open>
  The messages the host reads keep the invariants of the link: the welcome, which restores a
  connection or hands the processes of an earlier coordinator to this one, commands and
  acknowledgements.
\<close>

section \<open>The welcome\<close>

lemma drop_stream:
  assumes hp: "hosted_ok hp" and s: "stream_ok True G hp es" and le: "s \<le> length G"
  shows "deliver G (es @ hp_pending (drop_received s hp)) = hp_events (drop_received s hp) \<and> acked (drop_received s hp) \<le> length G"
proof -
  note f = drop_received_frame [OF hp, of s]
  define D where "D = deliver G es"
  have p: "prefix D (hp_events hp)" and a: "acked hp \<le> length G" using s by (simp_all add: stream_ok_def D_def)
  obtain zs where "D = G @ zs" using deliver_extends [of G es] unfolding D_def by blast
  then have l: "length G \<le> length D" by simp
  have d: "D = take (length D) (hp_events hp)" "length D \<le> length (hp_events hp)" using p by (auto simp: prefix_def)
  have "deliver (take (length D) (hp_events hp)) (drop (max (acked hp) s) (enumerate 1 (hp_events hp))) = hp_events hp"
    by (rule deliver_resent) (use l a le d in simp_all)
  then have "deliver D (hp_pending (drop_received s hp)) = hp_events hp" using f d(1) by metis
  then show ?thesis using f a le by (simp add: D_def)
qed

lemma readopt_stream:
  assumes hp: "hosted_ok hp" and s: "stream_ok False G hp es"
  shows "deliver G (es @ hp_pending (readopt hp)) = hp_events (readopt hp) \<and> acked (readopt hp) \<le> length G"
proof (cases "acked hp = 0")
  case True
  note f = readopt_ok [OF hp]
  define D where "D = deliver G es"
  have "prefix D (hp_events (readopt hp))" using s True f by (simp add: stream_ok_def D_def)
  then have d: "D = take (length D) (hp_events (readopt hp))" "length D \<le> length (hp_events (readopt hp))" by (auto simp: prefix_def)
  have "deliver (take (length D) (hp_events (readopt hp))) (drop 0 (enumerate 1 (hp_events (readopt hp)))) = hp_events (readopt hp)"
    by (rule deliver_resent) (use d in simp_all)
  then have "deliver D (hp_pending (readopt hp)) = hp_events (readopt hp)" using f d(1) by (metis drop0)
  then show ?thesis using f by (simp add: D_def)
next
  case False
  then have "G = []" "\<forall>(s, ev) \<in> set es. 2 \<le> s" using s by (simp_all add: stream_ok_def)
  then have "deliver G es = []" using deliver_late by blast
  moreover have "deliver [] (enumerate 1 (hp_events (readopt hp))) = hp_events (readopt hp)" using deliver_enumerate [of "[]"] by simp
  ultimately show ?thesis using readopt_ok [OF hp] by (metis append_Nil deliver_append le0)
qed

lemma distinct_restore:
  "distinct_procs h \<Longrightarrow> distinct_procs (fst (each_process (restore_process f rec) ps h))"
proof (induction ps arbitrary: h)
  case (Cons p ps)
  have "distinct_procs (fst (restore_process f rec p h))"
    using Cons.prems by (simp add: restore_process_def end_process_def Let_def split: option.split)
  then show ?case using Cons.IH by (simp add: Let_def split_beta)
qed simp

lemma restored_ok:
  fixes F received h h1
  defines "R \<equiv> each_process (restore_process F received) (map fst (hs_procs h)) h1"
  assumes ok: "link_ok l h (Welcome i epoch received # q) r is ps"
    and h1: "hs_procs h1 = hs_procs h" "hs_instance h1 = hs_instance h" "hs_open h1 = hs_open h" "hs_coordinator h1 = Some i"
    and mode: "acquainted l h \<and> hs_applied h1 = hs_applied h \<and> hs_commands h1 = hs_commands h
      \<or> \<not> acquainted l h \<and> hs_applied h1 = 0 \<and> hs_commands h1 = []"
    and F: "\<And>p hp s. hosted h p = Some hp \<Longrightarrow> map_of received p = Some s \<Longrightarrow> hosted_ok (F s hp)"
      "\<And>p hp s G st. hosted h p = Some hp \<Longrightarrow> map_of received p = Some s \<Longrightarrow> got l p = Some (G, st)
         \<Longrightarrow> deliver G (events_of p r @ hp_pending (F s hp)) = hp_events (F s hp) \<and> acked (F s hp) \<le> length G"
  shows "link_ok l (fst R) q (if lk_socket l then r @ snd R else []) is ps"
proof -
  note d = link_okD [OF ok]
  define out where "out = (if lk_socket l then snd R else [])"
  have r': "(if lk_socket l then r @ snd R else []) = r @ out" using phase_okD(14) [OF d(5)] by (simp add: out_def)
  have i: "i = lk_instance l" using d(4) unfolding ids_ok_def by auto
  have count: "length (filter is_welcome (Welcome i epoch received # q)) \<le> 1" using d(4) unfolding ids_ok_def by blast
  then have "filter is_welcome q = []" by simp
  then have nw: "\<forall>m \<in> set q. \<not> is_welcome m" by (simp add: filter_empty_conv)
  have m: "met l h" by (rule phase_okD(4) [OF d(5), of "Welcome i epoch received"]) simp_all
  have nh: "\<forall>x \<in> set r. \<not> is_hello x" using phase_okD(3) [OF d(5), of "Welcome i epoch received"] by simp
  have w: "welcome_ok l h [] received" using d(10) unfolding acks_ok_def by blast
  have dp: "distinct (map fst (hs_procs h))" using d(3) by (simp add: distinct_procs_def)
  note each = restore_each [of "map fst (hs_procs h)" F received h1, OF dp, folded R_def]
  have x: "hosted (fst R) p = (case hosted h p of None \<Rightarrow> None
         | Some hp \<Rightarrow> (case map_of received p of None \<Rightarrow> None | Some s \<Rightarrow> Some (F s hp)))" for p
  proof (cases "p \<in> set (map fst (hs_procs h))")
    case False
    then have "hosted h p = None" by (metis image_set map_of_eq_None_iff)
    then show ?thesis using each False h1(1) by auto
  qed (use each h1(1) in auto)
  have eo: "events_of p (snd R) = (case hosted h p of None \<Rightarrow> []
         | Some hp \<Rightarrow> (case map_of received p of None \<Rightarrow> [] | Some s \<Rightarrow> hp_pending (F s hp)))" for p
  proof (cases "p \<in> set (map fst (hs_procs h))")
    case False
    then have "hosted h p = None" by (metis image_set map_of_eq_None_iff)
    then show ?thesis using each False by auto
  qed (use each h1(1) in auto)
  have s: "same_host h1 (fst R)" unfolding R_def by (rule same_each) simp
  then have f: "hs_instance (fst R) = hs_instance h" "hs_open (fst R) = hs_open h" "hs_coordinator (fst R) = Some i"
    "hs_applied (fst R) = hs_applied h1" "hs_commands (fst R) = hs_commands h1" using h1 by (simp_all add: same_host_def)
  have acq: "acquainted l (fst R)" using f i m by (simp add: acquainted_def met_def)
  have gt: "(hosted h p = None \<and> hosted (fst R) p = None \<and> events_of p (r @ out) = [] \<and> G = [])
      \<or> (\<exists>hp s. hosted h p = Some hp \<and> map_of received p = Some s \<and> hosted (fst R) p = Some (F s hp)
          \<and> events_of p (snd R) = hp_pending (F s hp))"
    if g: "got l p = Some (G, st)" for p G st
  proof (cases "hosted h p")
    case None
    have "process_ok (acquainted l h) (met l h) (gone l h r) None (events_of p r) G st" using streams_okD(1) [OF d(9) g] None by simp
    then have "events_of p r = [] \<and> G = []" using m by (simp add: process_ok_def gone_def)
    moreover have "events_of p out = []" using eo [of p] None by (simp add: out_def)
    ultimately show ?thesis using None x [of p] by simp
  next
    case (Some hp)
    have "case map_of received p of Some s \<Rightarrow> s \<le> length G | None \<Rightarrow> hosted h p = None \<and> (\<forall>s c. Command s c \<in> set [] \<longrightarrow> \<not> starts p c)"
      using w g unfolding welcome_ok_def by blast
    then have "map_of received p \<noteq> None" using Some by (cases "map_of received p") auto
    then show ?thesis using Some x [of p] eo [of p] by auto
  qed
  have "link_ok l (fst R) q (r @ out) is ps"
  proof (rule advance_ok [of l h "[Welcome i epoch received]" q r "is" ps "fst R"])
    show "link_ok l h ([Welcome i epoch received] @ q) r is ps" using ok by simp
    show "hosts_ok (fst R)" using F(1) by (auto simp: x split: option.splits)
    show "distinct_procs (fst R)" unfolding R_def by (rule distinct_restore) (use d(3) h1(1) in \<open>simp add: distinct_procs_def\<close>)
    show "hs_instance (fst R) = hs_instance h" "hs_open (fst R) = hs_open h" by (rule f)+
    show "acquainted l (fst R)" by (rule acq)
    show "acquainted l h \<and> hs_applied h \<le> hs_applied (fst R) \<or> \<not> acquainted l h \<and> (\<forall>m \<in> set r. \<not> is_hello m)"
      using mode nh f(4) by auto
    show "hs_applied (fst R) \<le> length (lk_commands l)" using mode numbers_okD(3) [OF d(6)] f(4) by auto
    show "hs_commands (fst R) = take (hs_applied (fst R)) (lk_commands l)" using mode numbers_okD(4) [OF d(6)] f(4,5) by auto
    show "k < hs_applied (fst R)" if "hosted (fst R) p \<noteq> None" "k < length (lk_commands l)" "starts p (lk_commands l ! k)" for p k
    proof -
      have "hosted h p \<noteq> None" using that(1) by (auto simp: x split: option.splits)
      from starts_okD(3) [OF d(7) this that(2,3)] show ?thesis using mode f(4) by simp
    qed
    show "dom (hosted (fst R)) \<subseteq> ps" using known_okD(1) [OF d(8)] by (auto simp: x split: option.splits)
    show "(\<exists>p s ev. x = Event p s ev \<and> p \<in> ps) \<or> (\<exists>s. x = CommandAck s \<and> s \<le> hs_applied (fst R))" if "x \<in> set out" for x
    proof -
      have "x \<in> set (snd R)" using that by (simp add: out_def split: if_splits)
      then obtain p s ev where e: "x = Event p s ev" using each by (metis is_event.elims(2))
      then have "events_of p (snd R) \<noteq> []" using \<open>x \<in> set (snd R)\<close> events_of_set [of s ev p "snd R"] by auto
      then have "hosted h p \<noteq> None" using eo [of p] by (cases "hosted h p") auto
      then show ?thesis using e known_okD(1) [OF d(8)] by blast
    qed
    show "lk_socket l \<or> out = []" by (simp add: out_def)
    show "process_ok True True False (hosted (fst R) p) (events_of p (r @ out)) G st" if g: "got l p = Some (G, st)" for p G st
      using gt [OF g]
    proof (elim disjE exE conjE)
      fix hp s assume c: "hosted h p = Some hp" "map_of received p = Some s" "hosted (fst R) p = Some (F s hp)" "events_of p (snd R) = hp_pending (F s hp)"
      note FF = F(2) [OF c(1,2) g]
      have "prefix (deliver G (events_of p r)) (hp_events (F s hp))"
        using FF deliver_extends [of "deliver G (events_of p r)" "hp_pending (F s hp)"] by (metis deliver_append prefixI)
      then show ?thesis using FF c(3,4) by (simp add: process_ok_def stream_ok_def out_def split: if_splits)
    qed (simp add: process_ok_def)
    show "welcome_ok l (fst R) pre received'" if "q = pre @ Welcome i' epoch' received' # post" for pre i' epoch' received' post
      using that nw by simp
    show "deliver G (events_of p (r @ out)) = hp_events hp'" if "lk_socket l" and g: "got l p = Some (G, st)" and h': "hosted (fst R) p = Some hp'" for p G st hp'
      using gt [OF g]
    proof (elim disjE exE conjE)
      fix hp s assume c: "hosted h p = Some hp" "map_of received p = Some s" "hosted (fst R) p = Some (F s hp)" "events_of p (snd R) = hp_pending (F s hp)"
      show ?thesis using F(2) [OF c(1,2) g] c(3,4) h' that(1) by (simp add: out_def)
    qed (use h' in simp)
    have "hs_applied h1 = (if hs_coordinator h = Some i then hs_applied h else 0)"
      using mode m i by (auto simp: acquainted_def met_def)
    then show "will_apply (hs_coordinator (fst R)) (hs_applied (fst R)) q = will_apply (hs_coordinator h) (hs_applied h) ([Welcome i epoch received] @ q)"
      by (simp add: f)
  qed
  then show ?thesis unfolding r' .
qed

lemma welcome_read_ok:
  assumes ok: "link_ok l h (Welcome i epoch received # q) r is ps" and e: "handleWelcome i received (h\<lparr>hs_highestEpoch := epoch\<rparr>) = (h', out)"
  shows "link_ok l h' q (if lk_socket l then r @ out else []) is ps"
proof -
  note d = link_okD [OF ok]
  have i: "i = lk_instance l" using d(4) unfolding ids_ok_def by auto
  have m: "met l h" by (rule phase_okD(4) [OF d(5), of "Welcome i epoch received"]) simp_all
  have w: "welcome_ok l h [] received" using d(10) unfolding acks_ok_def by blast
  have acq: "acquainted l h \<longleftrightarrow> hs_coordinator h = Some i" using m i by (simp add: acquainted_def met_def)
  have s: "stream_ok (acquainted l h) G hp (events_of p r)" if "got l p = Some (G, st)" "hosted h p = Some hp" for p G st hp
    using streams_okD(1) [OF d(9) that(1)] that(2) by (simp add: process_ok_def)
  show ?thesis
  proof (cases "hs_coordinator h = Some i")
    case True
    define h1 where "h1 = h\<lparr>hs_highestEpoch := epoch\<rparr>"
    have R: "each_process (restore_process drop_received received) (map fst (hs_procs h)) h1 = (h', out)"
      using e True by (simp add: handleWelcome_def h1_def)
    have "link_ok l (fst (h', out)) q (if lk_socket l then r @ snd (h', out) else []) is ps"
      unfolding R [symmetric]
    proof (rule restored_ok [OF ok])
      show "hosted_ok (drop_received s hp)" if "hosted h p = Some hp" "map_of received p = Some s" for p hp s
        using w that True acq d(2) unfolding welcome_ok_def by (metis drop_received_ok)
      show "deliver G (events_of p r @ hp_pending (drop_received s hp)) = hp_events (drop_received s hp) \<and> acked (drop_received s hp) \<le> length G"
        if c: "hosted h p = Some hp" "map_of received p = Some s" "got l p = Some (G, st)" for p hp s G st
      proof (rule drop_stream)
        show "hosted_ok hp" using d(2) c(1) by blast
        show "stream_ok True G hp (events_of p r)" using s [OF c(3,1)] True acq by simp
        have "case map_of received p of Some s \<Rightarrow> s \<le> length G | None \<Rightarrow> hosted h p = None \<and> (\<forall>s c. Command s c \<in> set [] \<longrightarrow> \<not> starts p c)"
          using w c(3) unfolding welcome_ok_def by blast
        then show "s \<le> length G" using c(2) by simp
      qed
    qed (use True acq in \<open>simp_all add: h1_def\<close>)
    then show ?thesis unfolding prod.sel .
  next
    case False
    define h1 where "h1 = h\<lparr>hs_highestEpoch := epoch, hs_coordinator := Some i, hs_applied := 0, hs_prepared := [], hs_commands := []\<rparr>"
    have R: "each_process (restore_process (\<lambda>s. readopt) received) (map fst (hs_procs h)) h1 = (h', out)"
      using e False by (simp add: handleWelcome_def h1_def)
    have "link_ok l (fst (h', out)) q (if lk_socket l then r @ snd (h', out) else []) is ps"
      unfolding R [symmetric]
    proof (rule restored_ok [OF ok])
      show "hosted_ok (readopt hp)" if "hosted h p = Some hp" for p hp using d(2) that readopt_ok by blast
      show "deliver G (events_of p r @ hp_pending (readopt hp)) = hp_events (readopt hp) \<and> acked (readopt hp) \<le> length G"
        if c: "hosted h p = Some hp" "got l p = Some (G, st)" for p hp G st
        by (rule readopt_stream) (use d(2) c s [OF c(2,1)] False acq in auto)
    qed (use False acq in \<open>simp_all add: h1_def\<close>)
    then show ?thesis unfolding prod.sel .
  qed
qed

section \<open>Commands\<close>

lemma starts_once:
  assumes "length (filter P xs) \<le> 1" "i < length xs" "j < length xs" "P (xs ! i)" "P (xs ! j)" shows "i = j"
proof -
  have "card {k. k < length xs \<and> P (xs ! k)} \<le> Suc 0" using assms(1) by (simp add: length_filter_conv_card)
  then show ?thesis using assms(2-5) by (simp add: card_le_Suc0_iff_eq)
qed

lemma welcome_fewer: "set pre \<subseteq> set pre' \<Longrightarrow> welcome_ok l h pre' received \<Longrightarrow> welcome_ok l h pre received"
  unfolding welcome_ok_def by (elim conjE, intro conjI) (fastforce split: option.splits)+

lemma head_numbered:
  assumes n: "numbers_ok l h (m # q) r" and m: "numbered m" "\<not> is_welcome m" shows "acquainted l h"
  using numbers_okD(9) [OF n] m by auto

lemma seen_command_ok:
  assumes ok: "link_ok l h (Command s c # q) r is ps" and s: "s \<noteq> Suc (hs_applied h)"
    and out: "out = [] \<or> out = [CommandAck s] \<and> s \<le> hs_applied h" "lk_socket l \<or> out = []"
  shows "link_ok l h q (r @ out) is ps"
proof -
  note d = link_okD [OF ok]
  have a: "acquainted l h" by (rule head_numbered [OF d(6)]) simp_all
  then have m: "met l h" by (rule acquainted_met)
  have eo: "events_of p (r @ out) = events_of p r" for p using out(1) by auto
  show ?thesis
  proof (rule advance_ok [of l h "[Command s c]" q r "is" ps h])
    show "link_ok l h ([Command s c] @ q) r is ps" using ok by simp
    show "i < hs_applied h" if "hosted h p \<noteq> None" "i < length (lk_commands l)" "starts p (lk_commands l ! i)" for p i
      using starts_okD(3) [OF d(7) that] by blast
    show "dom (hosted h) \<subseteq> ps" using known_okD(1) [OF d(8)] by auto
    show "(\<exists>p s ev. x = Event p s ev \<and> p \<in> ps) \<or> (\<exists>s. x = CommandAck s \<and> s \<le> hs_applied h)" if "x \<in> set out" for x
      using out(1) that by auto
    show "process_ok True True False (hosted h p) (events_of p (r @ out)) G st" if "got l p = Some (G, st)" for p G st
      using streams_okD(1) [OF d(9) that] a m unfolding eo by (simp add: gone_def)
    show "welcome_ok l h pre received" if e: "q = pre @ Welcome i epoch received # post" for pre i epoch received post
    proof (rule welcome_fewer)
      show "set pre \<subseteq> set (Command s c # pre)" by auto
      have "Command s c # q = (Command s c # pre) @ Welcome i epoch received # post" using e by simp
      then show "welcome_ok l h (Command s c # pre) received" using d(10) unfolding acks_ok_def by blast
    qed
    show "deliver G (events_of p (r @ out)) = hp_events hp"
      if "lk_socket l" "hs_open h" "\<forall>m \<in> set r. \<not> is_hello m" "\<forall>m \<in> set q. \<not> is_welcome m" "got l p = Some (G, st)" "hosted h p = Some hp" for p G st hp
    proof -
      have "\<forall>m \<in> set (Command s c # q). \<not> is_welcome m" using that(4) by simp
      then show ?thesis using d(11) that unfolding complete_def eo by blast
    qed
  qed (use d a s out numbers_okD(3,4) [OF d(6)] in simp_all)
qed

text \<open>The next command, before the events it causes.\<close>

lemma next_command_ok:
  assumes ok: "link_ok l h (Command (Suc (hs_applied h)) c # q) r is ps"
    and h1: "distinct_procs h1" "hs_instance h1 = hs_instance h" "hs_open h1 = hs_open h" "hs_coordinator h1 = hs_coordinator h"
      "hs_applied h1 = Suc (hs_applied h)" "hs_commands h1 = hs_commands h @ [c]"
    and x: "hosted h1 = hosted h \<or> (\<exists>p k. starts p c \<and> hosted h1 = (hosted h)(p \<mapsto> new_hosted\<lparr>hp_control := k\<rparr>))"
  shows "link_ok l h1 q r is ps"
proof -
  define N where "N = lk_commands l"
  define a where "a = hs_applied h"
  note d = link_okD [OF ok]
  have acq: "acquainted l h" by (rule head_numbered [OF d(6)]) simp_all
  then have m: "met l h" by (rule acquainted_met)
  note cmd = numbers_okD(7,8) [OF d(6), of "Suc a" c]
  have c: "a < length N" "N ! a = c" using cmd by (auto simp: N_def a_def)
  have fresh: "hosted h p = None" if "starts p c" for p
  proof (rule ccontr)
    assume "hosted h p \<noteq> None"
    from starts_okD(3) [OF d(7) this, of a] c that show False by (simp add: N_def a_def)
  qed
  have hosted1: "hosted h1 p = hosted h p \<or> (starts p c \<and> hosted h p = None \<and> (\<exists>k. hosted h1 p = Some (new_hosted\<lparr>hp_control := k\<rparr>)))" for p
    using x
  proof (elim disjE exE conjE)
    fix p' k assume "starts p' c" "hosted h1 = (hosted h)(p' \<mapsto> new_hosted\<lparr>hp_control := k\<rparr>)"
    then show ?thesis using fresh by (cases "p = p'") auto
  qed simp
  have new: "hp_events (new_hosted\<lparr>hp_control := k\<rparr>) = []" "acked (new_hosted\<lparr>hp_control := k\<rparr>) = 0" "\<not> hp_exited (new_hosted\<lparr>hp_control := k\<rparr>)" for k
    by (simp_all add: new_hosted_def acked_def)
  have idle: "events_of p r = [] \<and> G = []" if "hosted h p = None" "got l p = Some (G, st)" for p G st
    using streams_okD(1) [OF d(9) that(2)] that(1) m by (simp add: process_ok_def gone_def)
  have "link_ok l h1 q (r @ []) is ps"
  proof (rule advance_ok [of l h "[Command (Suc a) c]" q r "is" ps h1])
    show "link_ok l h ([Command (Suc a) c] @ q) r is ps" using ok by (simp add: a_def)
    show "hosts_ok h1"
    proof (intro allI impI)
      fix p hp assume "hosted h1 p = Some hp"
      then show "hosted_ok hp" using hosted1 [of p] d(2) new_hosted_ok(2) by auto
    qed
    show "acquainted l h1" using acq h1 by (simp add: acquainted_def)
    show "acquainted l h \<and> hs_applied h \<le> hs_applied h1 \<or> \<not> acquainted l h \<and> (\<forall>m \<in> set r. \<not> is_hello m)" using acq h1 by simp
    show "hs_applied h1 \<le> length (lk_commands l)" using c h1 by (simp add: N_def a_def)
    show "hs_commands h1 = take (hs_applied h1) (lk_commands l)"
      using c h1 numbers_okD(4) [OF d(6) acq] by (simp add: N_def a_def take_Suc_conv_app_nth)
    show "i < hs_applied h1" if "hosted h1 p \<noteq> None" "i < length (lk_commands l)" "starts p (lk_commands l ! i)" for p i
    proof (cases "hosted h p = None")
      case True
      then have "starts p c" using hosted1 [of p] that(1) by auto
      then have "starts p (N ! a)" using c by simp
      from starts_once [OF starts_okD(1) [OF d(7)] _ _ that(3), of a] that(2) c this show ?thesis by (simp add: N_def h1 a_def)
    next
      case False
      from starts_okD(3) [OF d(7) False that(2,3)] show ?thesis using h1 by simp
    qed
    show "dom (hosted h1) \<subseteq> ps"
    proof
      fix p assume "p \<in> dom (hosted h1)"
      then have "hosted h p \<noteq> None \<or> starts p c" using hosted1 [of p] by auto
      moreover have "c \<in> set (lk_commands l)" using c unfolding N_def by auto
      ultimately show "p \<in> ps" using known_okD(1) [OF d(8)] starts_okD(2) [OF d(7)] by blast
    qed
    show "process_ok True True False (hosted h1 p) (events_of p (r @ [])) G st" if g: "got l p = Some (G, st)" for p G st
      using hosted1 [of p]
    proof (elim disjE conjE exE)
      assume "hosted h1 p = hosted h p"
      then show ?thesis using streams_okD(1) [OF d(9) g] acq m by (simp add: gone_def)
    next
      fix k assume "hosted h p = None" "hosted h1 p = Some (new_hosted\<lparr>hp_control := k\<rparr>)"
      then show ?thesis using idle [OF _ g] new by (simp add: process_ok_def stream_ok_def)
    qed
    show "welcome_ok l h1 pre received" if e: "q = pre @ Welcome i epoch received # post" for pre i epoch received post
    proof -
      have "Command (Suc a) c # q = (Command (Suc a) c # pre) @ Welcome i epoch received # post" using e by simp
      then have w: "welcome_ok l h (Command (Suc a) c # pre) received" using d(10) unfolding acks_ok_def a_def by blast
      show ?thesis
        unfolding welcome_ok_def
      proof (intro conjI allI impI)
        fix p G st assume g: "got l p = Some (G, st)"
        then have o: "case map_of received p of Some s \<Rightarrow> s \<le> length G
          | None \<Rightarrow> hosted h p = None \<and> (\<forall>s' c'. Command s' c' \<in> set (Command (Suc a) c # pre) \<longrightarrow> \<not> starts p c')"
          using w unfolding welcome_ok_def by blast
        show "case map_of received p of Some s \<Rightarrow> s \<le> length G | None \<Rightarrow> hosted h1 p = None \<and> (\<forall>s c. Command s c \<in> set pre \<longrightarrow> \<not> starts p c)"
        proof (cases "map_of received p")
          case None
          then have "\<not> starts p c" "hosted h p = None" "\<forall>s c. Command s c \<in> set pre \<longrightarrow> \<not> starts p c" using o by auto
          then show ?thesis using None hosted1 [of p] by auto
        qed (use o in simp)
      next
        fix p s hp assume s: "map_of received p = Some s" "hosted h1 p = Some hp"
        have s0: "s = 0" if "starts p c" "hosted h p = None"
          using w acq s(1) that c unfolding welcome_ok_def N_def [symmetric] a_def [symmetric] by blast
        have old: "s \<le> length (hp_events hp) \<and> (hp_exited hp \<longrightarrow> s < length (hp_events hp))" if "hosted h p = Some hp"
          using w acq s(1) that unfolding welcome_ok_def by blast
        show "s \<le> length (hp_events hp)" using hosted1 [of p] s(2) s0 old by auto
        show "s < length (hp_events hp)" if "hp_exited hp" using hosted1 [of p] s(2) new old that by auto
      next
        fix p s i assume o: "map_of received p = Some s" "hosted h1 p = None" "hs_applied h1 \<le> i" "i < length (lk_commands l)" "starts p (lk_commands l ! i)"
        then have "hosted h p = None" using hosted1 [of p] by auto
        moreover have "hs_applied h \<le> i" using o(3) h1 by simp
        ultimately show "s = 0" using w acq o unfolding welcome_ok_def by blast
      qed
    qed
    show "deliver G (events_of p (r @ [])) = hp_events hp"
      if t: "lk_socket l" "hs_open h" "\<forall>m \<in> set r. \<not> is_hello m" "\<forall>m \<in> set q. \<not> is_welcome m" and g: "got l p = Some (G, st)" and hp: "hosted h1 p = Some hp" for p G st hp
      using hosted1 [of p]
    proof (elim disjE conjE exE)
      assume "hosted h1 p = hosted h p"
      moreover have "\<forall>m \<in> set (Command (Suc (hs_applied h)) c # q). \<not> is_welcome m" using t(4) by simp
      ultimately show ?thesis using d(11) t g hp unfolding complete_def append_Nil2 by metis
    next
      fix k assume "hosted h p = None" "hosted h1 p = Some (new_hosted\<lparr>hp_control := k\<rparr>)"
      then show ?thesis using idle [OF _ g] new hp by simp
    qed
    show "will_apply (hs_coordinator h1) (hs_applied h1) q = will_apply (hs_coordinator h) (hs_applied h) ([Command (Suc a) c] @ q)"
      by (simp add: h1 a_def)
  qed (use h1 in simp_all)
  then show ?thesis by simp
qed

lemma acked_command_ok:
  assumes ok: "link_ok l h q r is ps" and a: "acquainted l h" "s \<le> hs_applied h"
  shows "link_ok l h q (if lk_socket l then r @ [CommandAck s] else []) is ps"
proof (cases "lk_socket l")
  case False
  then show ?thesis using ok phase_okD(14) [OF link_okD(5) [OF ok]] by simp
next
  case True
  note d = link_okD [OF ok]
  have m: "met l h" using a(1) by (rule acquainted_met)
  have eo: "events_of p (r @ [CommandAck s]) = events_of p r" for p by simp
  have "link_ok l h q (r @ [CommandAck s]) is ps"
  proof (rule advance_ok [of l h "[]" q r "is" ps h])
    show "link_ok l h ([] @ q) r is ps" using ok by simp
    show "i < hs_applied h" if "hosted h p \<noteq> None" "i < length (lk_commands l)" "starts p (lk_commands l ! i)" for p i
      using starts_okD(3) [OF d(7) that] by blast
    show "dom (hosted h) \<subseteq> ps" using known_okD(1) [OF d(8)] by auto
    show "process_ok True True False (hosted h p) (events_of p (r @ [CommandAck s])) G st" if "got l p = Some (G, st)" for p G st
      using streams_okD(1) [OF d(9) that] a m unfolding eo by (simp add: gone_def)
    show "welcome_ok l h pre received" if "q = pre @ Welcome i epoch received # post" for pre i epoch received post
      using d(10) that unfolding acks_ok_def by blast
    show "deliver G (events_of p (r @ [CommandAck s])) = hp_events hp"
      if "lk_socket l" "hs_open h" "\<forall>m \<in> set r. \<not> is_hello m" "\<forall>m \<in> set q. \<not> is_welcome m" "got l p = Some (G, st)" "hosted h p = Some hp" for p G st hp
      using d(11) that unfolding complete_def eo by blast
  qed (use d a True numbers_okD(3,4) [OF d(6)] in simp_all)
  then show ?thesis using True by simp
qed

lemma emits_applied:
  "emits h h' out \<Longrightarrow> emits (h\<lparr>hs_applied := n, hs_commands := cs\<rparr>) (h'\<lparr>hs_applied := n, hs_commands := cs\<rparr>) out"
  by (simp add: emits_def same_host_def)

lemma distinct_emit: "distinct_procs h \<Longrightarrow> distinct_procs (fst (emit p ev h))"
  by (simp add: emit_def Let_def split: option.split)

lemma distinct_emit_all: "distinct_procs h \<Longrightarrow> distinct_procs (fst (emit_all p evs h))"
  by (induction evs arbitrary: h) (simp_all add: emit_all.simps Let_def split_beta distinct_emit)

lemma distinct_prepared [simp]: "distinct_procs (h\<lparr>hs_prepared := xs\<rparr>) = distinct_procs h"
  by (simp add: distinct_procs_def)

lemma distinct_apply: "distinct_procs h \<Longrightarrow> distinct_procs (fst (apply_command fails c h))"
  by (simp add: apply_command_def host_spawn_def host_spawn_terminal_def Let_def distinct_emit distinct_emit_all split: host_command.split option.split)

lemma next_read_ok:
  assumes ok: "link_ok l h (Command (Suc (hs_applied h)) c # q) r is ps" and e: "apply_command fails c h = (h2, out)"
  shows "link_ok l (h2\<lparr>hs_applied := Suc (hs_applied h), hs_commands := hs_commands h2 @ [c]\<rparr>) q
      (if lk_socket l then r @ out @ [CommandAck (Suc (hs_applied h))] else []) is ps"
proof -
  note d = link_okD [OF ok]
  define up where "up = (\<lambda>x :: host_state. x\<lparr>hs_applied := Suc (hs_applied h), hs_commands := hs_commands h @ [c]\<rparr>)"
  have acq: "acquainted l h" by (rule head_numbered [OF d(6)]) simp_all
  have same: "same_host h h2" using same_apply_command [of h fails c] e by simp
  have h': "h2\<lparr>hs_applied := Suc (hs_applied h), hs_commands := hs_commands h2 @ [c]\<rparr> = up h2" using same by (simp add: up_def same_host_def)
  have dist: "distinct_procs (up h2)" using distinct_apply [OF d(3), of fails c] e by (simp add: up_def distinct_procs_def)
  obtain h0 where em: "emits h0 h2 out" and h0: "same_host h h0" "distinct_procs h0"
    "hosted h0 = hosted h \<or> (\<exists>p k. starts p c \<and> hosted h0 = (hosted h)(p \<mapsto> new_hosted\<lparr>hp_control := k\<rparr>))"
  proof (cases "\<exists>p. starts p c")
    case True
    then obtain p where p: "starts p c" by blast
    obtain k where k: "emits (set_proc p (new_hosted\<lparr>hp_control := k\<rparr>) h) h2 out" using emits_start [OF d(2) p, of fails] e by auto
    show ?thesis
    proof (rule that [OF k])
      show "hosted (set_proc p (new_hosted\<lparr>hp_control := k\<rparr>) h) = hosted h \<or> (\<exists>p' k'. starts p' c
          \<and> hosted (set_proc p (new_hosted\<lparr>hp_control := k\<rparr>) h) = (hosted h)(p' \<mapsto> new_hosted\<lparr>hp_control := k'\<rparr>))"
        using p map_of_procs(1) by blast
    qed (use d(3) in simp_all)
  next
    case False
    then have "emits h (fst (apply_command fails c h)) (snd (apply_command fails c h))" using emits_other [OF d(2), of c fails] by blast
    then have "emits h h2 out" unfolding e by simp
    then show ?thesis by (rule that) (use d(3) in simp_all)
  qed
  have "link_ok l (up h0) q r is ps"
    by (rule next_command_ok [OF ok]) (use h0 in \<open>simp_all add: up_def same_host_def distinct_procs_def\<close>)
  from emits_ok [OF this _ dist, of out] emits_applied [OF em]
  have 1: "link_ok l (up h2) q (if lk_socket l then r @ out else []) is ps" by (simp add: up_def)
  have "acquainted l (up h2)" "Suc (hs_applied h) \<le> hs_applied (up h2)" using acq same by (simp_all add: up_def acquainted_def same_host_def)
  from acked_command_ok [OF 1 this] have 2: "link_ok l (up h2) q
      (if lk_socket l then (if lk_socket l then r @ out else []) @ [CommandAck (Suc (hs_applied h))] else []) is ps" .
  have "(if lk_socket l then (if lk_socket l then r @ out else []) @ [CommandAck (Suc (hs_applied h))] else [])
      = (if lk_socket l then r @ out @ [CommandAck (Suc (hs_applied h))] else [])" by simp
  with 2 show ?thesis unfolding h' by metis
qed

lemma command_read_ok:
  assumes ok: "link_ok l h (Command s c # q) r is ps" and e: "host_command_message fails s c h = (h', out)"
  shows "link_ok l h' q (if lk_socket l then r @ out else []) is ps"
proof -
  have r0: "\<not> lk_socket l \<Longrightarrow> r = []" using phase_okD(14) [OF link_okD(5) [OF ok]] .
  consider "s \<le> hs_applied h" | "s = Suc (hs_applied h)" | "Suc (hs_applied h) < s" by linarith
  then show ?thesis
  proof cases
    case 1
    then have h': "h' = h" "out = [CommandAck s]" using e by (simp_all add: host_command_message_def)
    have "link_ok l h q (r @ (if lk_socket l then out else [])) is ps"
      by (rule seen_command_ok [OF ok]) (use 1 h' in auto)
    then show ?thesis using r0 h' by (cases "lk_socket l") simp_all
  next
    case 2
    obtain h2 out2 where a: "apply_command fails c h = (h2, out2)" by fastforce
    have "h' = h2\<lparr>hs_applied := Suc (hs_applied h), hs_commands := hs_commands h2 @ [c]\<rparr>" "out = out2 @ [CommandAck (Suc (hs_applied h))]"
      using e a 2 by (simp_all add: host_command_message_def)
    then show ?thesis using next_read_ok [OF ok [unfolded 2] a] by metis
  next
    case 3
    then have h': "h' = h" "out = []" using e by (simp_all add: host_command_message_def)
    have "link_ok l h q (r @ []) is ps" by (rule seen_command_ok [OF ok]) (use 3 in auto)
    then show ?thesis using r0 h' by (cases "lk_socket l") simp_all
  qed
qed

section \<open>Acknowledgements and the rest\<close>

lemma ack_read_ok:
  assumes ok: "link_ok l h (EventAck p s # q) r is ps"
  shows "link_ok l (event_acked p s h) q r is ps"
proof -
  define h' where "h' = event_acked p s h"
  note d = link_okD [OF ok]
  have a: "acquainted l h" by (rule head_numbered [OF d(6)]) simp_all
  then have m: "met l h" by (rule acquainted_met)
  have same: "same_host h h'" by (simp add: h'_def)
  then have f: "hs_instance h' = hs_instance h" "hs_open h' = hs_open h" "hs_coordinator h' = hs_coordinator h"
    "hs_applied h' = hs_applied h" "hs_commands h' = hs_commands h" by (simp_all add: same_host_def)
  have other: "hosted h' p' = hosted h p'" if "p' \<noteq> p" for p' using that by (simp add: h'_def event_acked_def Let_def split: option.split)
  have own: "hosted h' p = (case hosted h p of None \<Rightarrow> None
      | Some hp \<Rightarrow> if hp_exited (ack_events s hp) \<and> hp_pending (ack_events s hp) = [] then None else Some (ack_events s hp))"
    by (simp add: h'_def event_acked_def Let_def split: option.split)
  have kept: "\<exists>hp. hosted h p' = Some hp \<and> hp_events hp' = hp_events hp \<and> hp_exited hp' = hp_exited hp \<and> hosted_ok hp'"
    if g: "hosted h' p' = Some hp'" for p' hp'
  proof (cases "p' = p")
    case True
    then obtain hp where hp: "hosted h p = Some hp" "hp' = ack_events s hp" "\<not> (hp_exited (ack_events s hp) \<and> hp_pending (ack_events s hp) = [])"
      using g own by (auto split: option.splits if_splits)
    have "hosted_ok hp" using d(2) hp(1) by blast
    then show ?thesis using True hp ack_events_frame ack_events_ok by metis
  next
    case False
    then show ?thesis using g other d(2) by simp
  qed
  have still: "\<exists>hp'. hosted h' p' = Some hp' \<and> hp_events hp' = hp_events hp \<and> (acked hp \<le> length G \<longrightarrow> acked hp' \<le> length G)"
    if g: "got l p' = Some (G, st)" and hp: "hosted h p' = Some hp" and pre: "prefix G (hp_events hp)" for p' hp G st
  proof (cases "p' = p")
    case False
    then show ?thesis using other hp by auto
  next
    case True
    have s: "s \<le> length G" using d(10) g True unfolding acks_ok_def by auto
    have ho: "hosted_ok hp" using d(2) hp by blast
    note fr = ack_events_frame [OF ho, of s]
    obtain rp where "tracked l p = Some rp" "G = rp_events rp" using g True by (auto simp: got_def)
    then have ne: "\<forall>ev \<in> set G. \<not> is_exit ev" using tracked_ok [OF d(1)] by (auto simp: object_ok_def)
    have "\<not> (hp_exited (ack_events s hp) \<and> hp_pending (ack_events s hp) = [])"
    proof
      assume x: "hp_exited (ack_events s hp) \<and> hp_pending (ack_events s hp) = []"
      then have e: "hp_exited hp" and "length (hp_events hp) \<le> max (acked hp) s" using fr by auto
      moreover have "acked hp < length (hp_events hp)" "hp_events hp \<noteq> []" "is_exit (last (hp_events hp))" using ho e by (auto simp: hosted_ok_def)
      ultimately have "length (hp_events hp) \<le> length G" using s by simp
      then have "G = hp_events hp" using pre by (metis nle_le prefix_length_le prefix_length_prefix prefix_order.eq_iff prefix_order.order_refl)
      then show False using ne \<open>hp_events hp \<noteq> []\<close> \<open>is_exit (last (hp_events hp))\<close> by simp
    qed
    then have "hosted h' p = Some (ack_events s hp)" using own hp True by auto
    then show ?thesis using fr s True by auto
  qed
  have st: "stream_ok True G hp (events_of p' r)" if "got l p' = Some (G, st)" "hosted h p' = Some hp" for p' G st hp
    using streams_okD(1) [OF d(9) that(1)] that(2) a by (simp add: process_ok_def)
  have st': "prefix G (hp_events hp)" if "got l p' = Some (G, st)" "hosted h p' = Some hp" for p' G st hp
  proof -
    have "prefix (deliver G (events_of p' r)) (hp_events hp)" using st [OF that] by (simp add: stream_ok_def)
    then show ?thesis using deliver_extends [of G "events_of p' r"] by (metis prefixI prefix_order.trans)
  qed
  have "link_ok l h' q (r @ []) is ps"
  proof (rule advance_ok [of l h "[EventAck p s]" q r "is" ps h'])
    show "link_ok l h ([EventAck p s] @ q) r is ps" using ok by simp
    show "hosts_ok h'" using kept by blast
    show "distinct_procs h'" using d(3) by (simp add: h'_def event_acked_def Let_def split: option.split)
    show "acquainted l h'" using a f by (simp add: acquainted_def)
    show "i < hs_applied h'" if "hosted h' p' \<noteq> None" "i < length (lk_commands l)" "starts p' (lk_commands l ! i)" for p' i
    proof -
      have "hosted h p' \<noteq> None" using that(1) kept by fastforce
      from starts_okD(3) [OF d(7) this that(2,3)] show ?thesis using f by simp
    qed
    show "dom (hosted h') \<subseteq> ps" using known_okD(1) [OF d(8)] kept by fastforce
    show "process_ok True True False (hosted h' p') (events_of p' (r @ [])) G sta" if g: "got l p' = Some (G, sta)" for p' G sta
    proof (cases "hosted h p'")
      case None
      then have "hosted h' p' = None" using kept by (metis not_None_eq option.distinct(1))
      then show ?thesis using streams_okD(1) [OF d(9) g] None a m by (simp add: gone_def)
    next
      case (Some hp)
      obtain hp' where "hosted h' p' = Some hp'" "hp_events hp' = hp_events hp" "acked hp \<le> length G \<longrightarrow> acked hp' \<le> length G"
        using still [OF g Some st' [OF g Some]] by blast
      then show ?thesis using st [OF g Some] by (simp add: process_ok_def stream_ok_def)
    qed
    show "welcome_ok l h' pre received" if e: "q = pre @ Welcome i epoch received # post" for pre i epoch received post
    proof -
      have "EventAck p s # q = (EventAck p s # pre) @ Welcome i epoch received # post" using e by simp
      then have "welcome_ok l h (EventAck p s # pre) received" using d(10) unfolding acks_ok_def by blast
      then have w: "welcome_ok l h pre received" by (rule welcome_fewer [rotated]) auto
      have n: "hosted h' p' = None" if "hosted h p' = None" for p' using that kept by (metis not_None_eq option.distinct(1))
      show ?thesis
        unfolding welcome_ok_def
      proof (intro conjI allI impI)
        fix p' G sta assume "got l p' = Some (G, sta)"
        then have "case map_of received p' of Some s \<Rightarrow> s \<le> length G | None \<Rightarrow> hosted h p' = None \<and> (\<forall>s c. Command s c \<in> set pre \<longrightarrow> \<not> starts p' c)"
          using w unfolding welcome_ok_def by blast
        then show "case map_of received p' of Some s \<Rightarrow> s \<le> length G | None \<Rightarrow> hosted h' p' = None \<and> (\<forall>s c. Command s c \<in> set pre \<longrightarrow> \<not> starts p' c)"
          using n by (simp split: option.splits)
      next
        fix p' s' hp' assume g: "map_of received p' = Some s'" and h: "hosted h' p' = Some hp'"
        obtain hp where hp: "hosted h p' = Some hp" "hp_events hp' = hp_events hp" "hp_exited hp' = hp_exited hp" using kept [OF h] by blast
        have "s' \<le> length (hp_events hp) \<and> (hp_exited hp \<longrightarrow> s' < length (hp_events hp))" using w a g hp(1) unfolding welcome_ok_def by blast
        then show "s' \<le> length (hp_events hp')" "hp_exited hp' \<Longrightarrow> s' < length (hp_events hp')" using hp by simp_all
      next
        fix p' s' k assume o: "map_of received p' = Some s'" "hosted h' p' = None" "hs_applied h' \<le> k" "k < length (lk_commands l)" "starts p' (lk_commands l ! k)"
        have "hosted h p' = None"
        proof (rule ccontr)
          assume "hosted h p' \<noteq> None"
          from starts_okD(3) [OF d(7) this o(4,5)] show False using o(3) f by simp
        qed
        then show "s' = 0" using w a o f unfolding welcome_ok_def by metis
      qed
    qed
    show "deliver G (events_of p' (r @ [])) = hp_events hp'"
      if t: "lk_socket l" "hs_open h" "\<forall>m \<in> set r. \<not> is_hello m" "\<forall>m \<in> set q. \<not> is_welcome m" and g: "got l p' = Some (G, sta)" and h: "hosted h' p' = Some hp'" for p' G sta hp'
    proof -
      obtain hp where hp: "hosted h p' = Some hp" "hp_events hp' = hp_events hp" using kept [OF h] by blast
      have "\<forall>m \<in> set (EventAck p s # q). \<not> is_welcome m" using t(4) by simp
      then show ?thesis using d(11) t(1-3) g hp unfolding complete_def append_Nil2 by metis
    qed
  qed (use a f numbers_okD(3,4) [OF d(6)] in simp_all)
  then show ?thesis by (simp add: h'_def)
qed

lemma pop_ok:
  assumes ok: "link_ok l h (m # q) r is ps" and m: "\<not> is_welcome m" "\<not> numbered m" shows "link_ok l h q r is ps"
proof -
  note d = link_okD [OF ok]
  have mem: "Welcome i epoch received \<in> set (m # q) \<longleftrightarrow> Welcome i epoch received \<in> set q" "Command s c \<in> set (m # q) \<longleftrightarrow> Command s c \<in> set q"
    "EventAck p s \<in> set (m # q) \<longleftrightarrow> EventAck p s \<in> set q" for i epoch received s c p using m by auto
  have ex: "(\<exists>x \<in> set (m # q). is_welcome x) \<longleftrightarrow> (\<exists>x \<in> set q. is_welcome x)" using m by simp
  have wa: "will_apply co a (m # q) = will_apply co a q" for co a using m by (cases m) simp_all
  show ?thesis
  proof (rule link_okI)
    show "ids_ok l h q r is" using d(4) m unfolding ids_ok_def mem by simp
    have "\<not> hs_open h \<longrightarrow> q = []" using phase_okD(13) [OF d(5)] by blast
    then show "phase_ok l h q r" using d(5) unfolding phase_ok_def ex by (elim conjE) (intro conjI; assumption)
    show "numbers_ok l h q r" using d(6) m unfolding numbers_ok_def mem by simp
    show "known_ok l h q r ps" using d(8) unfolding known_ok_def mem .
    show "acks_ok l h q"
      unfolding acks_ok_def
    proof (intro conjI allI impI)
      fix p G st s assume "got l p = Some (G, st)" "EventAck p s \<in> set q \<or> (p, s) \<in> set (lk_acks l)"
      then show "s \<le> length G" using d(10) unfolding acks_ok_def mem by blast
    next
      fix pre i epoch received post assume "q = pre @ Welcome i epoch received # post"
      then have "m # q = (m # pre) @ Welcome i epoch received # post" by simp
      then have "welcome_ok l h (m # pre) received" using d(10) unfolding acks_ok_def by blast
      then show "welcome_ok l h pre received" by (rule welcome_fewer [rotated]) auto
    qed
    have "(\<forall>x \<in> set (m # q). \<not> is_welcome x) \<longleftrightarrow> (\<forall>x \<in> set q. \<not> is_welcome x)" using m by simp
    then show "complete l h q r" using d(11) unfolding complete_def wa by simp
  qed (use d in simp_all)
qed

lemma failed_update_ok:
  assumes ok: "link_ok l h q r is ps" shows "link_ok l h q (if lk_socket l then r @ [UpdateFailed commit err] else []) is ps"
proof (cases "lk_socket l")
  case False
  then show ?thesis using ok phase_okD(14) [OF link_okD(5) [OF ok]] by simp
next
  case True
  note d = link_okD [OF ok]
  define r' where "r' = r @ [UpdateFailed commit err]"
  have mem: "Hello m \<in> set r' \<longleftrightarrow> Hello m \<in> set r" "CommandAck s \<in> set r' \<longleftrightarrow> CommandAck s \<in> set r"
    "Event p s ev \<in> set r' \<longleftrightarrow> Event p s ev \<in> set r" "events_of p r' = events_of p r" for m s p ev by (auto simp: r'_def)
  have hellos: "(\<forall>x \<in> set r'. \<not> is_hello x) \<longleftrightarrow> (\<forall>x \<in> set r. \<not> is_hello x)" by (simp add: r'_def)
  have gn: "gone l h r' = gone l h r" unfolding gone_def mem by (rule refl)
  have "link_ok l h q r' is ps"
  proof (rule link_okI)
    show "ids_ok l h q r' is" using d(4) unfolding ids_ok_def mem .
    show "phase_ok l h q r'"
    proof (rule phase_okI, unfold hellos mem)
      fix x assume "x \<in> set (tl r')"
      then have "x \<in> set (tl r) \<or> x \<in> set [UpdateFailed commit err]" unfolding r'_def by (rule set_tl_append)
      then show "\<not> is_hello x" using phase_okD(1) [OF d(5)] by auto
    next
      show "hello_ok l h hl" if "Hello hl \<in> set r" for hl by (rule phase_okD(2) [OF d(5) that])
      assume "\<exists>m \<in> set q. is_welcome m"
      then obtain m where m: "m \<in> set q" "is_welcome m" by blast
      show "(\<forall>x \<in> set r. \<not> is_hello x) \<and> met l h" using phase_okD(3) [OF d(5) m] phase_okD(4) [OF d(5) m] by blast
    next
      show "hs_coordinator h = None \<Longrightarrow> hs_procs h = [] \<and> hs_applied h = 0" by (intro conjI phase_okD(6,7) [OF d(5)])
      show "lk_acks l \<noteq> [] \<Longrightarrow> lk_online l \<and> (\<forall>x \<in> set r. \<not> is_hello x)" by (intro conjI phase_okD(10,16) [OF d(5)])
    qed ((fact phase_okD [OF d(5)]) | simp add: True)+
    show "numbers_ok l h q r'" using d(6) unfolding numbers_ok_def mem gn .
    show "known_ok l h q r' ps" using d(8) unfolding known_ok_def mem .
    show "streams_ok l h r'" using d(9) unfolding streams_ok_def in_flight_def mem gn .
    show "complete l h q r'" using d(11) unfolding complete_def hellos mem .
  qed (use d in simp_all)
  then show ?thesis using True by (simp add: r'_def)
qed

lemma stop_frame:
  "same_host (h\<lparr>hs_stopped := True, hs_open := False\<rparr>) (host_stop h)" "hs_procs (host_stop h) = hs_procs h"
proof -
  have "same_host h0 (fold (\<lambda>p. drive cs p (e p)) xs h0) \<and> hs_procs (fold (\<lambda>p. drive cs p (e p)) xs h0) = hs_procs h0" for h0 xs cs e
    by (induction xs rule: rev_induct) simp_all
  from this [of "h\<lparr>hs_stopped := True, hs_open := False\<rparr>"] show "same_host (h\<lparr>hs_stopped := True, hs_open := False\<rparr>) (host_stop h)" "hs_procs (host_stop h) = hs_procs h"
    by (simp_all add: host_stop_def)
qed

lemma host_reads_ok:
  assumes ok: "link_ok l h (m # q) r is ps" and e: "host_receive fails m h = (h', out)"
  shows "link_ok l h' (if hs_open h' then q else []) (if lk_socket l then r @ out else []) is ps"
proof -
  note d = link_okD [OF ok]
  have r0: "(if lk_socket l then r @ [] else []) = r" using phase_okD(14) [OF d(5)] by simp
  have open_h: "hs_open h" using phase_okD(13) [OF d(5)] by blast
  have go: ?thesis if "link_ok l h' q (if lk_socket l then r @ out else []) is ps" "hs_open h' = hs_open h"
    using that open_h by simp
  show ?thesis
  proof (cases m)
    case (Welcome i epoch received)
    show ?thesis
    proof (cases "epoch < hs_highestEpoch h")
      case True
      then have h': "h' = host_disconnect h" "out = []" using e by (simp_all add: host_receive_def Welcome)
      have "link_ok l h' [] r is ps" "\<not> hs_open h'" using host_drop_ok [OF ok, of h'] by (simp_all add: h' host_disconnect_def)
      then show ?thesis unfolding h'(2) r0 by simp
    next
      case False
      then have e: "handleWelcome i received (h\<lparr>hs_highestEpoch := epoch\<rparr>) = (h', out)" using e by (simp add: host_receive_def Welcome)
      show ?thesis
      proof (rule go)
        show "link_ok l h' q (if lk_socket l then r @ out else []) is ps" by (rule welcome_read_ok [OF ok [unfolded Welcome] e])
        have "same_host (h\<lparr>hs_highestEpoch := epoch\<rparr>) h' \<or> same_host (h\<lparr>hs_highestEpoch := epoch, hs_coordinator := Some i, hs_applied := 0, hs_prepared := [], hs_commands := []\<rparr>) h'"
          using e same_each [of "restore_process drop_received received", OF same_restore [OF ]] same_each [of "restore_process (\<lambda>s. readopt) received"]
          unfolding handleWelcome_def by (metis fst_conv same_host_simps(1) same_restore)
        then show "hs_open h' = hs_open h" by (auto simp: same_host_def)
      qed
    qed
  next
    case (Command s c)
    then have e: "host_command_message fails s c h = (h', out)" using e by (simp add: host_receive_def)
    obtain h2 out2 where a: "apply_command fails c h = (h2, out2)" by fastforce
    have "hs_open h2 = hs_open h" using same_apply_command [of h fails c] a by (simp add: same_host_def)
    then have "hs_open h' = hs_open h" using e a by (auto simp: host_command_message_def split: if_splits)
    then show ?thesis by (rule go [OF command_read_ok [OF ok [unfolded Command] e]])
  next
    case (EventAck p s)
    then have h': "h' = event_acked p s h" "out = []" using e by (simp_all add: host_receive_def)
    have "hs_open h' = hs_open h" using same_event_acked [of h p s] by (simp add: h' same_host_def)
    moreover have "link_ok l h' q (if lk_socket l then r @ out else []) is ps"
      unfolding h' r0 by (rule ack_read_ok [OF ok [unfolded EventAck]])
    ultimately show ?thesis by (intro go)
  next
    case Rejected
    then have h': "h' = host_stop h" "out = []" using e by (simp_all add: host_receive_def)
    have "link_ok l h' [] r is ps" by (rule host_drop_ok [OF ok]) (use stop_frame [of h] in \<open>simp_all add: h' same_host_def\<close>)
    moreover have "\<not> hs_open h'" using stop_frame [of h] by (simp add: h' same_host_def)
    ultimately show ?thesis unfolding h'(2) r0 by simp
  next
    case (Update commit)
    then have h': "h' = h" "out = []" using e by (simp_all add: host_receive_def)
    show ?thesis
    proof (rule go)
      show "link_ok l h' q (if lk_socket l then r @ out else []) is ps" unfolding h' r0 by (rule pop_ok [OF ok]) (simp_all add: Update)
    qed (simp add: h')
  qed
qed

end
