(* ===== verification/Link_Runs.thy ===== *)
theory Link_Runs
  imports Link_System
begin

text \<open>
  Runs of the link as functions, for concrete systems, and three runs that show where the code does
  not keep what the protocol promises.
\<close>

section \<open>Runs\<close>

lemma reachable_joined:
  "link_reachable ord s \<Longrightarrow> \<exists>l h q r is ps. s = joined l h q r is ps"
proof (induction rule: link_reachable.induct)
  case (step s s')
  from step.hyps(2) show ?case by (cases rule: link_step.cases) blast+
qed blast

lemma joined_self:
  "joined (sy_link (joined l h q r is ps)) (sy_host (joined l h q r is ps)) (sy_to_host (joined l h q r is ps))
    (sy_to_coord (joined l h q r is ps)) (sy_instances (joined l h q r is ps)) (sy_processes (joined l h q r is ps)) = joined l h q r is ps"
  by (simp add: joined_def)

lemma reachable_self:
  "link_reachable ord s \<Longrightarrow> joined (sy_link s) (sy_host s) (sy_to_host s) (sy_to_coord s) (sy_instances s) (sy_processes s) = s"
  using reachable_joined joined_self by metis

lemma reachable_steps: "(link_step ord)\<^sup>*\<^sup>* s s' \<Longrightarrow> link_reachable ord s \<Longrightarrow> link_reachable ord s'"
  by (induction rule: rtranclp_induct) (auto intro: link_reachable.step)

definition run_connect :: "link_system \<Rightarrow> link_system" where
  "run_connect s = (if hs_open (sy_host s) \<or> hs_stopped (sy_host s) \<or> lk_online (sy_link s) \<and> \<not> acquainted (sy_link s) (sy_host s) then s
     else joined (attach (sy_link s)) (fst (host_connect (sy_host s))) [] (snd (host_connect (sy_host s))) (sy_instances s) (sy_processes s))"

definition run_drop :: "link_system \<Rightarrow> link_system" where
  "run_drop s = joined (sy_link s) (host_disconnect (sy_host s)) (sy_to_host s) (sy_to_coord s) (sy_instances s) (sy_processes s)"

definition run_host :: "(host_command \<Rightarrow> string option) \<Rightarrow> link_system \<Rightarrow> link_system" where
  "run_host fails s = (case sy_to_host s of [] \<Rightarrow> s
     | m # q \<Rightarrow> if hs_open (sy_host s)
         then joined (sy_link s) (fst (host_receive fails m (sy_host s))) q (sy_to_coord s @ snd (host_receive fails m (sy_host s))) (sy_instances s) (sy_processes s)
         else s)"

definition run_coordinator :: "link_system \<Rightarrow> link_system" where
  "run_coordinator s = (case sy_to_coord s of [] \<Rightarrow> s
     | m # r \<Rightarrow> if lk_socket (sy_link s)
         then joined (fst (link_receive m (sy_link s))) (sy_host s) (sy_to_host s @ snd (link_receive m (sy_link s))) r (sy_instances s) (sy_processes s)
         else s)"

definition run_start :: "string \<Rightarrow> host_command \<Rightarrow> link_system \<Rightarrow> link_system" where
  "run_start p c s = (if p \<in> sy_processes s \<or> \<not> starts p c then s
     else joined (fst (startProcess p (\<lambda>_. c) (sy_link s))) (sy_host s) (sy_to_host s @ snd (startProcess p (\<lambda>_. c) (sy_link s)))
       (sy_to_coord s) (sy_instances s) (insert p (sy_processes s)))"

definition run_flush :: "link_system \<Rightarrow> link_system" where
  "run_flush s = joined (fst (flushAcks (sy_link s))) (sy_host s) (sy_to_host s @ snd (flushAcks (sy_link s))) (sy_to_coord s) (sy_instances s) (sy_processes s)"

definition run_detach :: "link_system \<Rightarrow> link_system" where
  "run_detach s = joined (detach (sy_link s)) (sy_host s) (sy_to_host s @ []) (sy_to_coord s) (sy_instances s) (sy_processes s)"

definition run_abandon :: "link_system \<Rightarrow> link_system" where
  "run_abandon s = joined (fst (abandonUpdate (sy_link s))) (sy_host s) (sy_to_host s @ snd (abandonUpdate (sy_link s))) (sy_to_coord s) (sy_instances s) (sy_processes s)"

definition run_event :: "string \<Rightarrow> host_event \<Rightarrow> link_system \<Rightarrow> link_system" where
  "run_event p ev s = joined (sy_link s) (fst (emit p ev (sy_host s))) (sy_to_host s) (sy_to_coord s @ snd (emit p ev (sy_host s))) (sy_instances s) (sy_processes s)"

lemma run_steps:
  assumes r: "link_reachable ord s"
  shows "(link_step ord)\<^sup>*\<^sup>* s (run_connect s)" "(link_step ord)\<^sup>*\<^sup>* s (run_drop s)" "(link_step ord)\<^sup>*\<^sup>* s (run_host fails s)"
    "(link_step ord)\<^sup>*\<^sup>* s (run_coordinator s)" "(link_step ord)\<^sup>*\<^sup>* s (run_start p c s)" "(link_step ord)\<^sup>*\<^sup>* s (run_flush s)"
    "(link_step ord)\<^sup>*\<^sup>* s (run_detach s)" "(link_step ord)\<^sup>*\<^sup>* s (run_abandon s)" "(link_step ord)\<^sup>*\<^sup>* s (run_event p ev s)"
proof -
  note s = reachable_self [OF r]
  have step: "(link_step ord)\<^sup>*\<^sup>* s s'"
    if "link_step ord (joined (sy_link s) (sy_host s) (sy_to_host s) (sy_to_coord s) (sy_instances s) (sy_processes s)) s'" for s'
    using that unfolding s by (rule r_into_rtranclp)
  show "(link_step ord)\<^sup>*\<^sup>* s (run_connect s)"
    using step [OF link_step.connect [OF _ _ _ prod.collapse [symmetric]]] by (auto simp: run_connect_def expected_connection_def)
  show "(link_step ord)\<^sup>*\<^sup>* s (run_drop s)" using step [OF link_step.host_drops] by (simp add: run_drop_def)
  show "(link_step ord)\<^sup>*\<^sup>* s (run_host fails s)"
  proof (cases "sy_to_host s")
    case (Cons m q)
    then show ?thesis using step [unfolded Cons, OF link_step.host_reads [OF _ prod.collapse [symmetric]]] by (simp add: run_host_def)
  qed (simp add: run_host_def)
  show "(link_step ord)\<^sup>*\<^sup>* s (run_coordinator s)"
  proof (cases "sy_to_coord s")
    case (Cons m q)
    then show ?thesis using step [unfolded Cons, OF link_step.coordinator_reads [OF _ prod.collapse [symmetric]]] by (simp add: run_coordinator_def)
  qed (simp add: run_coordinator_def)
  have op: "coordinator_op ord (sy_host s) ps l ps' (fst x, snd x)" if "coordinator_op ord (sy_host s) ps l ps' x" for ps l ps' x using that by simp
  show "(link_step ord)\<^sup>*\<^sup>* s (run_start p c s)"
    using step [OF link_step.coordinator_acts [OF op [OF coordinator_op.start]]] by (auto simp: run_start_def)
  show "(link_step ord)\<^sup>*\<^sup>* s (run_flush s)" using step [OF link_step.coordinator_acts [OF op [OF coordinator_op.flush]]] by (simp add: run_flush_def)
  show "(link_step ord)\<^sup>*\<^sup>* s (run_detach s)" using step [OF link_step.coordinator_acts [OF coordinator_op.detach]] by (simp add: run_detach_def)
  show "(link_step ord)\<^sup>*\<^sup>* s (run_abandon s)" using step [OF link_step.coordinator_acts [OF op [OF coordinator_op.abandon]]] by (simp add: run_abandon_def)
  show "(link_step ord)\<^sup>*\<^sup>* s (run_event p ev s)" using step [OF link_step.child_event [OF prod.collapse [symmetric]]] by (simp add: run_event_def)
qed

lemma run_reachable:
  assumes r: "link_reachable ord s"
  shows "link_reachable ord (run_connect s)" "link_reachable ord (run_drop s)" "link_reachable ord (run_host fails s)"
    "link_reachable ord (run_coordinator s)" "link_reachable ord (run_start p c s)" "link_reachable ord (run_flush s)"
    "link_reachable ord (run_detach s)" "link_reachable ord (run_abandon s)" "link_reachable ord (run_event p ev s)"
  by (rule run_steps [OF r, THEN reachable_steps, OF r])+

text \<open>A terminal started over a link that is lost and comes back before its first event arrives.\<close>

definition no_fail :: "host_command \<Rightarrow> string option" where
  "no_fail c = None"

definition link_demo_met :: link_system where
  "link_demo_met = run_host no_fail (run_coordinator (run_connect (joined (new_link ''C'' 1) (new_host ''H'') [] [] {''C'', ''H''} {})))"

definition link_demo_running :: link_system where
  "link_demo_running = run_host no_fail (run_start ''p'' (CmdSpawnTerminal ''p'' ''/'' 80 24) link_demo_met)"

definition link_demo_back :: link_system where
  "link_demo_back = run_coordinator (run_host no_fail (run_coordinator (run_connect (run_drop (run_event ''p'' (EvError ''e'') link_demo_running)))))"

definition link_demo_quiet :: link_system where
  "link_demo_quiet = run_host no_fail (run_host no_fail (run_flush (run_coordinator (run_coordinator link_demo_back))))"

lemma link_demo_reachable:
  "link_reachable True link_demo_met" "link_reachable True link_demo_running" "link_reachable True link_demo_back" "link_reachable True link_demo_quiet"
proof -
  have "link_reachable True (joined (new_link ''C'' 1) (new_host ''H'') [] [] {''C'', ''H''} {})"
    by (rule link_reachable.initial) simp
  then show "link_reachable True link_demo_met" unfolding link_demo_met_def by (intro run_reachable)
  then show "link_reachable True link_demo_running" unfolding link_demo_running_def by (intro run_reachable)
  then show "link_reachable True link_demo_back" unfolding link_demo_back_def by (intro run_reachable)
  then show "link_reachable True link_demo_quiet" unfolding link_demo_quiet_def by (intro run_reachable)
qed

text \<open>A restart of the host, while no failed start is half reported.\<close>

definition unreported :: "string \<Rightarrow> to_coordinator list \<Rightarrow> bool" where
  "unreported p r = list_all (\<lambda>m. case m of Event q n ev \<Rightarrow> q \<noteq> p \<or> n \<noteq> 1 \<or> is_spawned ev | _ \<Rightarrow> True) r"

definition may_restart :: "link_system \<Rightarrow> bool" where
  "may_restart s = list_all (\<lambda>p. case lk_object (sy_link s) p of None \<Rightarrow> True
     | Some rp \<Rightarrow> rp_started rp \<or> rp_events rp = [] \<and> unreported p (sy_to_coord s)) (lk_procs (sy_link s))"

definition run_restart :: "string \<Rightarrow> link_system \<Rightarrow> link_system" where
  "run_restart i s = (if i \<in> sy_instances s \<or> \<not> may_restart s then s
     else joined (sy_link s) (new_host i) (sy_to_host s) (sy_to_coord s) (insert i (sy_instances s)) (sy_processes s))"

lemma restart_reachable:
  assumes "link_reachable ord s" shows "link_reachable ord (run_restart i s)"
proof (cases "i \<in> sy_instances s \<or> \<not> may_restart s")
  case True
  then show ?thesis using assms by (simp add: run_restart_def)
next
  case False
  have "rp_events rp = [] \<and> (\<forall>ev. Event p 1 ev \<in> set (sy_to_coord s) \<longrightarrow> is_spawned ev)"
    if "tracked (sy_link s) p = Some rp" "\<not> rp_started rp" for p rp
  proof -
    have "p \<in> set (lk_procs (sy_link s))" "lk_object (sy_link s) p = Some rp" using that(1) by (auto simp: tracked_def split: if_splits)
    moreover have "may_restart s" using False by blast
    ultimately have "rp_started rp \<or> rp_events rp = [] \<and> unreported p (sy_to_coord s)"
      unfolding may_restart_def list_all_iff by (auto dest!: bspec [where x = p])
    then have "rp_events rp = [] \<and> unreported p (sy_to_coord s)" using that(2) by blast
    then show ?thesis by (force simp: unreported_def list_all_iff)
  qed
  then have "starts_reported (sy_link s) (sy_to_coord s)" by (simp add: starts_reported_def)
  then show ?thesis
    using False link_reachable.step [OF assms] link_step.host_restarts [of i "sy_instances s" ord "sy_link s" "sy_to_coord s" "sy_host s" "sy_to_host s" "sy_processes s"]
      reachable_self [OF assms] by (simp add: run_restart_def)
qed

text \<open>What the code also allows: a connection over one still taken for alive, a restart at any time.\<close>

definition run_connect_over :: "link_system \<Rightarrow> link_system" where
  "run_connect_over s = (if hs_open (sy_host s) \<or> hs_stopped (sy_host s) then s
     else joined (attach (sy_link s)) (fst (host_connect (sy_host s))) [] (snd (host_connect (sy_host s))) (sy_instances s) (sy_processes s))"

definition run_restart_any :: "string \<Rightarrow> link_system \<Rightarrow> link_system" where
  "run_restart_any i s = (if i \<in> sy_instances s then s
     else joined (sy_link s) (new_host i) (sy_to_host s) (sy_to_coord s) (insert i (sy_instances s)) (sy_processes s))"

lemma disorderly_reachable:
  assumes r: "link_reachable False s"
  shows "link_reachable False (run_connect_over s)" "link_reachable False (run_restart_any i s)"
proof -
  note s = reachable_self [OF r]
  have step: "link_reachable False s'"
    if "link_step False (joined (sy_link s) (sy_host s) (sy_to_host s) (sy_to_coord s) (sy_instances s) (sy_processes s)) s'" for s'
    using that link_reachable.step [OF r] unfolding s by blast
  show "link_reachable False (run_connect_over s)"
    using r step [OF link_step.connect [OF _ _ _ prod.collapse [symmetric]]] by (auto simp: run_connect_over_def)
  show "link_reachable False (run_restart_any i s)"
    using r step [OF link_step.host_restarts] by (auto simp: run_restart_any_def)
qed

section \<open>Where the code does not keep the protocol's promise\<close>

text \<open>
  A start is acknowledged before the process reports that it runs. When the connection and then the
  node are lost between the two, the coordinator neither fails the process (it never started) nor
  sends the start again (it was acknowledged): its user waits for ever.
\<close>

definition link_demo_lost :: link_system where
  "link_demo_lost = run_host no_fail (run_coordinator (run_connect (run_restart ''H2'' (run_detach (run_event ''p'' (EvSpawned (Some 7))
     (run_coordinator (run_host no_fail (run_start ''p'' (CmdSpawn ''p'' \<lparr>la_command = ''claude'', la_args = [], la_cwd = None, la_env = [],
        la_fullEnv = True, la_prepared = None\<rparr>) link_demo_met))))))))"

lemma lost_start_reachable: "link_reachable True link_demo_lost"
  unfolding link_demo_lost_def by (intro run_reachable restart_reachable link_demo_reachable)

lemma lost_start_waits_forever:
  "link_reachable True link_demo_lost \<and> hs_open (sy_host link_demo_lost) \<and> lk_online (sy_link link_demo_lost)
   \<and> sy_to_host link_demo_lost = [] \<and> sy_to_coord link_demo_lost = [] \<and> lk_unacked (sy_link link_demo_lost) = []
   \<and> map_option rp_started (tracked (sy_link link_demo_lost) ''p'') = Some False \<and> hs_procs (sy_host link_demo_lost) = []"
  by (intro conjI lost_start_reachable) code_simp+

text \<open>
  What the old coordinator received but could not acknowledge before its connection was lost is
  dropped on reconnect without noting the line it left unfinished, so a later coordinator gets the
  rest of that line without its beginning; an acknowledgement would have kept it.
\<close>

lemma reconnect_forgets_unfinished_line:
  assumes "hp_pending hp = [(1, EvStdout b)]" "hp_unfinished hp = []" "b \<noteq> []" "10 \<notin> set b"
  shows "hp_events (readopt (ack_events 1 hp)) = [EvStdout b]" "hp_events (readopt (drop_received 1 hp)) = []"
  using assms by (simp_all add: readopt_def ack_events_def drop_received_def lineRemainder_def)

text \<open>
  A second connection replaces the first while the link still counts as online. A command issued
  before the hello of a restarted node is read goes out on it with the old numbering; the fresh node
  carries it out, and again when it arrives renumbered after the welcome: one command issued, two
  terminals started.
\<close>

definition link_demo_start :: link_system where
  "link_demo_start = joined (new_link ''C'' 1) (new_host ''H'') [] [] {''C'', ''H''} {}"

definition link_demo_twice :: link_system where
  "link_demo_twice = run_host no_fail (run_host no_fail (run_coordinator (run_host no_fail
     (run_start ''p'' (CmdSpawnTerminal ''p'' ''/'' 80 24) (run_connect_over (run_restart ''H2'' link_demo_met))))))"

lemma command_before_hello_applied_twice:
  "link_reachable False link_demo_twice
   \<and> lk_commands (sy_link link_demo_twice) = [CmdSpawnTerminal ''p'' ''/'' 80 24]
   \<and> hs_effects (sy_host link_demo_twice) = [DoTerminal ''p'' ''/'' 80 24, DoTerminal ''p'' ''/'' 80 24]"
proof (intro conjI)
  have "link_reachable False link_demo_start"
    unfolding link_demo_start_def by (rule link_reachable.initial) simp
  then have "link_reachable False link_demo_met"
    unfolding link_demo_met_def link_demo_start_def [symmetric] by (intro run_reachable)
  then show "link_reachable False link_demo_twice"
    unfolding link_demo_twice_def by (intro run_reachable restart_reachable disorderly_reachable)
qed code_simp+

text \<open>
  A node fails a start and is restarted when the coordinator has read the error of the failed start
  and not its end. The start is sent again and succeeds, but the coordinator takes the first event of
  the new process for the error it has seen: it does not learn that the process runs.
\<close>

definition os_fails :: "host_command \<Rightarrow> string option" where
  "os_fails c = Some ''spawn ENOENT''"

definition link_demo_half :: link_system where
  "link_demo_half = run_coordinator (run_coordinator (run_host no_fail (run_host no_fail (run_coordinator (run_connect (run_restart_any ''H2'' (run_detach
     (run_coordinator (run_host os_fails (run_start ''p'' (CmdSpawnTerminal ''p'' ''/'' 80 24) link_demo_met))))))))))"

lemma half_reported_start_hides_process:
  "link_reachable False link_demo_half
   \<and> acquainted (sy_link link_demo_half) (sy_host link_demo_half)
   \<and> map_option (\<lambda>rp. (rp_events rp, rp_started rp)) (tracked (sy_link link_demo_half) ''p'') = Some ([EvError ''spawn ENOENT''], False)
   \<and> map_option hp_events (map_of (hs_procs (sy_host link_demo_half)) ''p'') = Some [EvSpawned None]"
proof (intro conjI)
  have "link_reachable False link_demo_start"
    unfolding link_demo_start_def by (rule link_reachable.initial) simp
  then have "link_reachable False link_demo_met"
    unfolding link_demo_met_def link_demo_start_def [symmetric] by (intro run_reachable)
  then show "link_reachable False link_demo_half"
    unfolding link_demo_half_def by (intro run_reachable disorderly_reachable)
qed code_simp+

end
