(* ===== verification/Link_Safety.thy ===== *)
theory Link_Safety
  imports Link_Host_Reads Link_Runs
begin

text \<open>
  Every step of an orderly run of the link keeps its invariants, so they hold of every system such
  runs reach; what they say of the commands a host carries out and of the events a coordinator sees.
\<close>

section \<open>Every step keeps the invariants\<close>

lemma joined_ok: "system_ok (joined l h q r is ps) \<longleftrightarrow> link_ok l h (if hs_open h then q else []) (if lk_socket l then r else []) is ps"
  by (simp add: system_ok_def joined_def)

lemma op_socket:
  assumes op: "coordinator_op True h ps l ps' (l', out)" and s: "lk_socket l'" shows "lk_socket l"
  using op
proof (cases rule: coordinator_op.cases)
  case (adopt p)
  define l0 where "l0 = set_object p (new_process\<lparr>rp_started := True\<rparr>) (l\<lparr>lk_procs := lk_procs l @ [p]\<rparr>)"
  have "same_link l0 (fail_proc m p l0)" for m by simp
  then have "lk_socket (fail_proc m p l0) = lk_socket l" for m by (simp add: same_link_def l0_def)
  then show ?thesis using adopt(2) s by (auto simp: adopt_def Let_def l0_def split: if_splits)
next
  case (release reason)
  have "lk_socket (fold (fail_proc reason) (lk_procs l) l0) = lk_socket l0" for l0
    using same_fold_fail [of l0 reason "lk_procs l"] by (simp add: same_link_def)
  then show ?thesis using release(2) s by (auto simp: release_host_def split: if_splits)
qed (use s in \<open>auto simp: startProcess_def enqueue_def kill_process_def resize_process_def write_stdin_def end_stdin_def writeFileInOrder_def
    flushAcks_def send_update_def abandonUpdate_def detach_def split: option.splits if_splits\<close>)

lemma step_ok: "link_step True s s' \<Longrightarrow> system_ok s \<Longrightarrow> system_ok s'"
proof (induction rule: link_step.induct)
  case (connect h l h' out q r "is" ps)
  then have "link_ok (attach l) h' [] out is ps" by (intro connect_ok) (auto simp: joined_ok expected_connection_def)
  then show ?case by (simp add: joined_ok attach_def)
next
  case (host_drops l h q r "is" ps)
  then have "link_ok l (host_disconnect h) [] (if lk_socket l then r else []) is ps"
    unfolding joined_ok by (rule host_drop_ok) (simp_all add: host_disconnect_def)
  then show ?case by (simp add: joined_ok host_disconnect_def)
next
  case (host_reads h fails m h' out l q r "is" ps)
  then have "link_ok l h (m # q) (if lk_socket l then r else []) is ps" by (simp add: joined_ok)
  from host_reads_ok [OF this host_reads.hyps(2)]
  have "link_ok l h' (if hs_open h' then q else []) (if lk_socket l then (if lk_socket l then r else []) @ out else []) is ps" .
  moreover have "(if lk_socket l then (if lk_socket l then r else []) @ out else []) = (if lk_socket l then r @ out else [])" by simp
  ultimately show ?case unfolding joined_ok by metis
next
  case (coordinator_reads l m l' out h q r "is" ps)
  then have k: "link_ok l h (if hs_open h then q else []) (m # r) is ps" by (simp add: joined_ok)
  from coordinator_reads_ok [OF this coordinator_reads.hyps]
  have 1: "link_ok l' h (if hs_open h then (if hs_open h then q else []) @ out else []) r is ps" .
  have 2: "(if hs_open h then (if hs_open h then q else []) @ out else []) = (if hs_open h then q @ out else [])" by simp
  have "lk_socket l'" using receive_socket [OF link_okD(1) [OF k] coordinator_reads.hyps(2)] coordinator_reads.hyps(1) by simp
  then show ?case using 1 unfolding joined_ok 2 by simp
next
  case (coordinator_acts h ps l ps' l' out q r "is")
  then have "link_ok l h (if hs_open h then q else []) (if lk_socket l then r else []) is ps" by (simp add: joined_ok)
  from coordinator_acts_ok [OF coordinator_acts.hyps this]
  have 1: "link_ok l' h (if hs_open h then (if hs_open h then q else []) @ out else []) (if lk_socket l' then (if lk_socket l then r else []) else []) is ps'" .
  have 2: "(if hs_open h then (if hs_open h then q else []) @ out else []) = (if hs_open h then q @ out else [])"
    "(if lk_socket l' then (if lk_socket l then r else []) else []) = (if lk_socket l' then r else [])"
    using op_socket [OF coordinator_acts.hyps] by auto
  show ?case using 1 unfolding joined_ok 2 .
next
  case (child_event p ev h h' out l q r "is" ps)
  then have k: "link_ok l h (if hs_open h then q else []) (if lk_socket l then r else []) is ps" by (simp add: joined_ok)
  have em: "emits h h' out" using emits_emit [OF link_okD(2) [OF k], of p ev] child_event.hyps by simp
  have "distinct_procs h'" using distinct_emit [OF link_okD(3) [OF k], of p ev] child_event.hyps by simp
  from emits_ok [OF k em this]
  have 1: "link_ok l h' (if hs_open h then q else []) (if lk_socket l then (if lk_socket l then r else []) @ out else []) is ps" .
  have "hs_open h' = hs_open h" using em by (simp add: emits_def same_host_def)
  moreover have "(if lk_socket l then (if lk_socket l then r else []) @ out else []) = (if lk_socket l then r @ out else [])" by simp
  ultimately show ?case using 1 unfolding joined_ok by metis
next
  case (update_fails h l q r "is" ps commit err)
  then have "link_ok l h (if hs_open h then q else []) (if lk_socket l then r else []) is ps" by (simp add: joined_ok)
  from failed_update_ok [OF this]
  have "link_ok l h (if hs_open h then q else []) (if lk_socket l then (if lk_socket l then r else []) @ [UpdateFailed commit err] else []) is ps" .
  moreover have "(if lk_socket l then (if lk_socket l then r else []) @ [UpdateFailed commit err] else [])
      = (if lk_socket l then r @ [UpdateFailed commit err] else [])" by simp
  ultimately show ?case unfolding joined_ok by metis
next
  case (launch_prepared l h q r "is" ps i)
  then have k: "link_ok l h (if hs_open h then q else []) (if lk_socket l then r else []) is ps" by (simp add: joined_ok)
  have em: "emits h (prepare_launch i h) []" using emits_none [OF link_okD(2) [OF k]] by (simp add: prepare_launch_def)
  have "distinct_procs (prepare_launch i h)" using link_okD(3) [OF k] by (simp add: prepare_launch_def distinct_procs_def)
  from emits_ok [OF k em this]
  have 1: "link_ok l (prepare_launch i h) (if hs_open h then q else []) (if lk_socket l then (if lk_socket l then r else []) @ [] else []) is ps" .
  have "hs_open (prepare_launch i h) = hs_open h" by (simp add: prepare_launch_def)
  moreover have "(if lk_socket l then (if lk_socket l then r else []) @ [] else []) = (if lk_socket l then r else [])" by simp
  ultimately show ?case using 1 unfolding joined_ok by metis
next
  case (coordinator_restarts i "is" l h q r ps epoch)
  then have k: "link_ok l h (if hs_open h then q else []) (if lk_socket l then r else []) is ps" by (simp add: joined_ok)
  note d = link_okD [OF k]
  have "hs_instance h \<in> is" "set_option (hs_coordinator h) \<subseteq> is" using d(4) unfolding ids_ok_def by blast+
  then have "link_ok (new_link i epoch) h [] [] (insert i is) ps"
    using coordinator_restarts.hyps d(2,3) phase_okD(6,7) [OF d(5)] known_okD(1) [OF d(8)] by (intro new_link_ok) auto
  then show ?case by (simp add: joined_ok)
next
  case (host_restarts i "is" l r h q ps)
  then have k: "link_ok l h (if hs_open h then q else []) (if lk_socket l then r else []) is ps" by (simp add: joined_ok)
  have "link_ok l (new_host i) [] (if lk_socket l then r else []) (insert i is) ps"
    by (rule host_restart_ok [OF k host_restarts.hyps(1)])
      (use host_restarts.hyps(2) in \<open>auto simp: starts_reported_def split: if_splits\<close>)
  then show ?case by (simp add: joined_ok new_host_def)
qed

lemma reachable_ok: "link_reachable True s \<Longrightarrow> system_ok s"
proof (induction rule: link_reachable.induct)
  case (initial i j epoch)
  have "link_ok (new_link i epoch) (new_host j) [] [] (insert i {j}) {}"
    by (rule new_link_ok) (use initial in \<open>simp_all add: new_host_def distinct_procs_def\<close>)
  then show ?case by (simp add: joined_ok)
next
  case (step s s')
  then show ?case using step_ok by blast
qed

section \<open>What the link guarantees\<close>

text \<open>
  C5. Commands in order and exactly once, in orderly runs (no node connects over a connection that is
  still taken for alive unless the two know each other, no node restarts while a start it failed is
  half reported, a host is given up only when its node is gone; either side may otherwise restart and
  the connection be lost at any time): once a host and a coordinator know each other, the commands
  the host has carried out for this coordinator are exactly the first so many the coordinator
  numbered, and the counter the host acknowledges is their number.
\<close>

theorem commands_in_order_exactly_once:
  assumes "link_reachable True s" "acquainted (sy_link s) (sy_host s)"
  shows "hs_applied (sy_host s) \<le> length (lk_commands (sy_link s))
    \<and> hs_commands (sy_host s) = take (hs_applied (sy_host s)) (lk_commands (sy_link s))"
proof -
  note d = link_okD [OF reachable_ok [OF assms(1), unfolded system_ok_def]]
  show ?thesis using numbers_okD(3,4) [OF d(6) assms(2)] by blast
qed

theorem commands_in_order_exactly_once_witness:
  "hs_applied (sy_host link_demo_running) \<le> length (lk_commands (sy_link link_demo_running))
    \<and> hs_commands (sy_host link_demo_running) = take (hs_applied (sy_host link_demo_running)) (lk_commands (sy_link link_demo_running))"
  by (rule commands_in_order_exactly_once [OF link_demo_reachable(2)]) code_simp

text \<open>
  C6. Events in order and none lost, in orderly runs (as in C5): what a coordinator has applied of the
  events of a process it shares with a host it knows is a prefix of what the process did, and every
  event after that prefix is still kept by the host, to be sent again.
\<close>

theorem events_in_order_none_lost:
  assumes "link_reachable True s" "acquainted (sy_link s) (sy_host s)"
    and "tracked (sy_link s) p = Some rp" "map_of (hs_procs (sy_host s)) p = Some hp"
  shows "prefix (rp_events rp) (hp_events hp)
    \<and> (\<forall>i. length (rp_events rp) \<le> i \<longrightarrow> i < length (hp_events hp) \<longrightarrow> (Suc i, hp_events hp ! i) \<in> set (hp_pending hp))"
proof -
  note d = link_okD [OF reachable_ok [OF assms(1), unfolded system_ok_def]]
  have "got (sy_link s) p = Some (rp_events rp, rp_started rp)" using assms(3) by (simp add: got_def)
  then have s: "stream_ok True (rp_events rp) hp (events_of p (sy_to_coord s))"
    using streams_okD(1) [OF d(9)] assms(2,4) by (fastforce simp: process_ok_def)
  have ho: "hosted_ok hp" using d(2) assms(4) by blast
  have "prefix (rp_events rp) (hp_events hp)"
    using s deliver_extends [of "rp_events rp" "events_of p (sy_to_coord s)"] by (auto simp: stream_ok_def prefix_def)
  moreover have "(Suc i, hp_events hp ! i) \<in> set (hp_pending hp)" if i: "length (rp_events rp) \<le> i" "i < length (hp_events hp)" for i
  proof -
    have k: "acked hp \<le> i" using s i by (simp add: stream_ok_def)
    then have "hp_pending hp ! (i - acked hp) = (Suc i, hp_events hp ! i)" "i - acked hp < length (hp_pending hp)"
      using ho i unfolding hosted_ok_def by (auto simp: nth_enumerate_eq)
    then show ?thesis by (metis nth_mem)
  qed
  ultimately show ?thesis by blast
qed

theorem events_in_order_none_lost_witness:
  "\<exists>rp hp. tracked (sy_link link_demo_back) ''p'' = Some rp \<and> map_of (hs_procs (sy_host link_demo_back)) ''p'' = Some hp
    \<and> rp_events rp = [EvSpawned None] \<and> prefix (rp_events rp) (hp_events hp) \<and> (2, EvError ''e'') \<in> set (hp_pending hp)"
proof -
  have a: "acquainted (sy_link link_demo_back) (sy_host link_demo_back)"
    "map_option rp_events (tracked (sy_link link_demo_back) ''p'') = Some [EvSpawned None]"
    "map_option hp_events (map_of (hs_procs (sy_host link_demo_back)) ''p'') = Some [EvSpawned None, EvError ''e'']" by code_simp+
  then obtain rp hp where t: "tracked (sy_link link_demo_back) ''p'' = Some rp" "map_of (hs_procs (sy_host link_demo_back)) ''p'' = Some hp"
    "rp_events rp = [EvSpawned None]" "hp_events hp = [EvSpawned None, EvError ''e'']" by auto
  from events_in_order_none_lost [OF link_demo_reachable(3) a(1) t(1,2)]
  have "prefix (rp_events rp) (hp_events hp)" "(Suc 1, hp_events hp ! 1) \<in> set (hp_pending hp)" using t(3,4) by auto
  then show ?thesis using t by (auto simp: numeral_2_eq_2)
qed

lemma quiet_complete:
  assumes r: "link_reachable True s" and up: "lk_socket (sy_link s)" "hs_open (sy_host s)" and q: "sy_to_host s = []" "sy_to_coord s = []"
  shows "acquainted (sy_link s) (sy_host s)"
    "\<not> lk_updateSent (sy_link s) \<Longrightarrow> hs_commands (sy_host s) = lk_commands (sy_link s)"
    "tracked (sy_link s) p = Some rp \<Longrightarrow> map_of (hs_procs (sy_host s)) p = Some hp \<Longrightarrow> rp_events rp = hp_events hp"
proof -
  note d = link_okD [OF reachable_ok [OF r, unfolded system_ok_def]]
  have o: "lk_online (sy_link s)" using phase_okD(11) [OF d(5) up(1)] q by simp
  show a: "acquainted (sy_link s) (sy_host s)" using phase_okD(12) [OF d(5) o up(2)] q by simp
  have c: "complete (sy_link s) (sy_host s) [] []" using d(11) unfolding q .
  show "hs_commands (sy_host s) = lk_commands (sy_link s)" if "\<not> lk_updateSent (sy_link s)"
    using numbers_okD(4) [OF d(6) a] c up that by (simp add: complete_def)
  assume t: "tracked (sy_link s) p = Some rp" and h: "map_of (hs_procs (sy_host s)) p = Some hp"
  have "got (sy_link s) p = Some (rp_events rp, rp_started rp)" using t by (simp add: got_def)
  then show "rp_events rp = hp_events hp" using c h up by (fastforce simp: complete_def)
qed

text \<open>
  In an orderly run a link that is up and has nothing left to read is complete: the two sides know
  each other, the host has carried out every command the coordinator issued unless an update of the
  host is pending, and the coordinator has seen every event of every process they share.
\<close>

theorem quiet_link_is_complete:
  assumes "link_reachable True s" "lk_socket (sy_link s)" "hs_open (sy_host s)" "sy_to_host s = []" "sy_to_coord s = []"
  shows "acquainted (sy_link s) (sy_host s)
    \<and> (\<not> lk_updateSent (sy_link s) \<longrightarrow> hs_commands (sy_host s) = lk_commands (sy_link s))
    \<and> (\<forall>p rp hp. tracked (sy_link s) p = Some rp \<longrightarrow> map_of (hs_procs (sy_host s)) p = Some hp \<longrightarrow> rp_events rp = hp_events hp)"
  using quiet_complete [OF assms] by blast

theorem quiet_link_is_complete_witness:
  "hs_commands (sy_host link_demo_quiet) = lk_commands (sy_link link_demo_quiet) \<and> lk_commands (sy_link link_demo_quiet) \<noteq> []
   \<and> map_option rp_events (tracked (sy_link link_demo_quiet) ''p'') = map_option hp_events (map_of (hs_procs (sy_host link_demo_quiet)) ''p'')
   \<and> tracked (sy_link link_demo_quiet) ''p'' \<noteq> None"
proof -
  have u: "lk_socket (sy_link link_demo_quiet)" "hs_open (sy_host link_demo_quiet)" "sy_to_host link_demo_quiet = []" "sy_to_coord link_demo_quiet = []"
    "\<not> lk_updateSent (sy_link link_demo_quiet)" "lk_commands (sy_link link_demo_quiet) \<noteq> []"
    "tracked (sy_link link_demo_quiet) ''p'' \<noteq> None" "map_of (hs_procs (sy_host link_demo_quiet)) ''p'' \<noteq> None" by code_simp+
  then show ?thesis using quiet_link_is_complete [OF link_demo_reachable(4) u(1-4)] by auto
qed

end
