(* ===== verification/Link_Recovery.thy ===== *)
theory Link_Recovery
  imports Link_Safety Link_Runs
begin

text \<open>
  A link always recovers: from every reachable system a fresh connection brings the host every
  command and the coordinator every event.
\<close>

section \<open>Reading everything\<close>

text \<open>Messages of a fresh connection that keep it open.\<close>

fun calm :: "nat \<Rightarrow> to_host \<Rightarrow> bool" where
  "calm e (Welcome i epoch received) = (epoch = e)"
| "calm e Rejected = False"
| "calm e m = True"

fun plain :: "to_coordinator \<Rightarrow> bool" where
  "plain (Event p s ev) = True"
| "plain (CommandAck s) = True"
| "plain m = False"

lemma is_event_plain: "is_event m \<Longrightarrow> plain m"
  by (cases m) simp_all

lemma emits_plain: "emits h h' out \<Longrightarrow> \<forall>m \<in> set out. plain m"
  by (auto simp: emits_def intro: is_event_plain)

lemma apply_plain:
  assumes "hosts_ok h" shows "\<forall>m \<in> set (snd (apply_command fails c h)). plain m"
proof (cases "\<exists>p. starts p c")
  case True
  then show ?thesis using emits_start [OF assms] emits_plain by blast
next
  case False
  then show ?thesis using emits_other [OF assms] emits_plain by blast
qed

lemma restore_plain: "\<forall>m \<in> set (snd (each_process (restore_process f rec) ps h)). plain m"
proof (induction ps arbitrary: h)
  case (Cons p ps)
  have "\<forall>m \<in> set (snd (restore_process f rec p h)). plain m"
    by (auto simp: restore_process_def Let_def split: option.split)
  then show ?case using Cons.IH by (auto simp: Let_def split_beta)
qed simp

lemma calm_read:
  assumes "hosts_ok h" "calm e m" "hs_highestEpoch h \<le> e"
  shows "hs_open (fst (host_receive fails m h)) = hs_open h \<and> hs_highestEpoch (fst (host_receive fails m h)) \<le> e
    \<and> hs_instance (fst (host_receive fails m h)) = hs_instance h \<and> (\<forall>x \<in> set (snd (host_receive fails m h)). plain x)"
proof (cases m)
  case (Welcome i epoch received)
  define h0 where "h0 = h\<lparr>hs_highestEpoch := epoch\<rparr>"
  define h1 where "h1 = h0\<lparr>hs_coordinator := Some i, hs_applied := 0, hs_prepared := [], hs_commands := []\<rparr>"
  have r: "host_receive fails m h = (if hs_coordinator h0 = Some i then each_process (restore_process drop_received received) (map fst (hs_procs h0)) h0
      else each_process (restore_process (\<lambda>s. readopt) received) (map fst (hs_procs h0)) h1)"
    using assms(2,3) by (simp add: host_receive_def Welcome handleWelcome_def h0_def h1_def)
  have "same_host h0 (fst (each_process (restore_process drop_received received) (map fst (hs_procs h0)) h0))"
    "same_host h1 (fst (each_process (restore_process (\<lambda>s. readopt) received) (map fst (hs_procs h0)) h1))"
    by (rule same_each, simp)+
  then show ?thesis using assms(2) restore_plain unfolding r by (auto simp: same_host_def h0_def h1_def Welcome)
next
  case (Command s c)
  have "same_host h (fst (apply_command fails c h))" by simp
  then show ?thesis using assms(3) apply_plain [OF assms(1), of fails c]
    by (auto simp: host_receive_def Command host_command_message_def Let_def split_beta same_host_def)
next
  case (EventAck p s)
  have "same_host h (event_acked p s h)" by simp
  then show ?thesis using assms(3) by (simp add: host_receive_def EventAck same_host_def)
qed (use assms in \<open>simp_all add: host_receive_def\<close>)

lemma host_drains:
  assumes "link_reachable True s" "hs_open (sy_host s)" "hs_highestEpoch (sy_host s) \<le> e"
    and "\<forall>m \<in> set (sy_to_host s). calm e m" "\<forall>m \<in> set (sy_to_coord s). plain m" "lk_socket (sy_link s)"
  shows "\<exists>s'. (link_step True)\<^sup>*\<^sup>* s s' \<and> sy_to_host s' = [] \<and> hs_open (sy_host s') \<and> (\<forall>m \<in> set (sy_to_coord s'). plain m)
    \<and> sy_link s' = sy_link s \<and> hs_instance (sy_host s') = hs_instance (sy_host s)"
  using assms
proof (induction "length (sy_to_host s)" arbitrary: s)
  case 0
  then show ?case by auto
next
  case (Suc n)
  then obtain m q where q: "sy_to_host s = m # q" by (cases "sy_to_host s") auto
  define s1 where "s1 = run_host no_fail s"
  have r: "link_reachable True s1" "(link_step True)\<^sup>*\<^sup>* s s1" unfolding s1_def by (rule run_reachable run_steps, rule Suc.prems(1))+
  have "hosts_ok (sy_host s)" using link_okD(2) [OF reachable_ok [OF Suc.prems(1), unfolded system_ok_def]] .
  moreover have "calm e m" using Suc.prems(4) q by simp
  ultimately have c: "hs_open (fst (host_receive no_fail m (sy_host s))) = hs_open (sy_host s)" "hs_highestEpoch (fst (host_receive no_fail m (sy_host s))) \<le> e"
    "hs_instance (fst (host_receive no_fail m (sy_host s))) = hs_instance (sy_host s)" "\<forall>x \<in> set (snd (host_receive no_fail m (sy_host s))). plain x"
    using calm_read Suc.prems(3) by blast+
  have s1: "s1 = joined (sy_link s) (fst (host_receive no_fail m (sy_host s))) q (sy_to_coord s @ snd (host_receive no_fail m (sy_host s))) (sy_instances s) (sy_processes s)"
    using q Suc.prems(2) by (simp add: s1_def run_host_def)
  have f: "sy_to_host s1 = q" "hs_open (sy_host s1)" "hs_highestEpoch (sy_host s1) \<le> e" "\<forall>m \<in> set (sy_to_host s1). calm e m"
    "\<forall>m \<in> set (sy_to_coord s1). plain m" "lk_socket (sy_link s1)" "sy_link s1 = sy_link s" "hs_instance (sy_host s1) = hs_instance (sy_host s)"
    using c Suc.prems(2,4-6) q by (auto simp: s1 joined_def)
  have "n = length (sy_to_host s1)" using Suc.hyps(2) q f(1) by simp
  from Suc.hyps(1) [OF this r(1) f(2-6)] r(2) f(7,8) show ?case by (metis rtranclp_trans)
qed

lemma plain_read:
  assumes "objects_ok l" "plain m"
  shows "snd (link_receive m l) = [] \<and> lk_socket (fst (link_receive m l)) = lk_socket l \<and> lk_instance (fst (link_receive m l)) = lk_instance l
    \<and> lk_online (fst (link_receive m l)) = lk_online l \<and> lk_updateSent (fst (link_receive m l)) = lk_updateSent l"
proof (cases m)
  case (Event p s ev)
  have "same_link l (apply_event p ev rp l)" for rp by simp
  then show ?thesis by (auto simp: link_receive_def Event handleEvent_def acknowledge_def same_link_def split: option.split)
next
  case (CommandAck s)
  then show ?thesis by (simp add: link_receive_def)
qed (use assms in simp_all)

lemma coordinator_drains:
  assumes "link_reachable True s" "sy_to_host s = []" "\<forall>m \<in> set (sy_to_coord s). plain m" "lk_socket (sy_link s)"
  shows "\<exists>s'. (link_step True)\<^sup>*\<^sup>* s s' \<and> sy_to_host s' = [] \<and> sy_to_coord s' = [] \<and> sy_host s' = sy_host s \<and> lk_socket (sy_link s')
    \<and> lk_instance (sy_link s') = lk_instance (sy_link s) \<and> lk_online (sy_link s') = lk_online (sy_link s) \<and> lk_updateSent (sy_link s') = lk_updateSent (sy_link s)"
  using assms
proof (induction "length (sy_to_coord s)" arbitrary: s)
  case 0
  then show ?case by auto
next
  case (Suc n)
  then obtain m r where r: "sy_to_coord s = m # r" by (cases "sy_to_coord s") auto
  define s1 where "s1 = run_coordinator s"
  have k: "link_reachable True s1" "(link_step True)\<^sup>*\<^sup>* s s1" unfolding s1_def by (rule run_reachable run_steps, rule Suc.prems(1))+
  have "objects_ok (sy_link s)" using link_okD(1) [OF reachable_ok [OF Suc.prems(1), unfolded system_ok_def]] .
  from plain_read [OF this, of m] have c: "snd (link_receive m (sy_link s)) = []" "lk_socket (fst (link_receive m (sy_link s))) = lk_socket (sy_link s)"
    "lk_instance (fst (link_receive m (sy_link s))) = lk_instance (sy_link s)" "lk_online (fst (link_receive m (sy_link s))) = lk_online (sy_link s)"
    "lk_updateSent (fst (link_receive m (sy_link s))) = lk_updateSent (sy_link s)"
    using Suc.prems(3) r by simp_all
  have s1: "s1 = joined (fst (link_receive m (sy_link s))) (sy_host s) [] r (sy_instances s) (sy_processes s)"
    using r Suc.prems(2,4) c(1) by (simp add: s1_def run_coordinator_def)
  have f: "sy_to_host s1 = []" "\<forall>m \<in> set (sy_to_coord s1). plain m" "lk_socket (sy_link s1)" "sy_host s1 = sy_host s" "sy_to_coord s1 = r"
    "sy_link s1 = fst (link_receive m (sy_link s))"
    using c Suc.prems(2-4) r by (simp_all add: s1 joined_def)
  have "n = length (sy_to_coord s1)" using Suc.hyps(2) r f(5) by simp
  from Suc.hyps(1) [OF this k(1) f(1-3)] k(2) f(4,6) c show ?case by (metis rtranclp_trans)
qed

section \<open>Recovery\<close>

text \<open>A fresh connection, up to the coordinator's answer to the hello.\<close>

definition reconnect :: "link_system \<Rightarrow> link_system" where
  "reconnect s = run_coordinator (run_connect (run_abandon (run_detach (run_drop s))))"

lemma reconnect_steps:
  assumes "link_reachable True s" shows "(link_step True)\<^sup>*\<^sup>* s (reconnect s)" "link_reachable True (reconnect s)"
proof -
  define s1 s2 s3 s4 where "s1 = run_drop s" and "s2 = run_detach s1" and "s3 = run_abandon s2" and "s4 = run_connect s3"
  note defs = s1_def s2_def s3_def s4_def
  have r: "link_reachable True s1" "link_reachable True s2" "link_reachable True s3" "link_reachable True s4"
    unfolding defs by (intro run_reachable assms)+
  have "(link_step True)\<^sup>*\<^sup>* s s1" unfolding s1_def by (rule run_steps [OF assms])
  moreover have "(link_step True)\<^sup>*\<^sup>* s1 s2" unfolding s2_def by (rule run_steps [OF r(1)])
  moreover have "(link_step True)\<^sup>*\<^sup>* s2 s3" unfolding s3_def by (rule run_steps [OF r(2)])
  moreover have "(link_step True)\<^sup>*\<^sup>* s3 s4" unfolding s4_def by (rule run_steps [OF r(3)])
  moreover have "(link_step True)\<^sup>*\<^sup>* s4 (run_coordinator s4)" by (rule run_steps [OF r(4)])
  ultimately show "(link_step True)\<^sup>*\<^sup>* s (reconnect s)" unfolding reconnect_def defs [symmetric] by (meson rtranclp_trans)
  show "link_reachable True (reconnect s)" unfolding reconnect_def defs [symmetric] by (rule run_reachable [OF r(4)])
qed

lemma reconnect_view:
  assumes r: "link_reachable True s" and up: "\<not> hs_stopped (sy_host s)"
  shows "sy_host (reconnect s) = (sy_host s)\<lparr>hs_open := True\<rparr> \<and> sy_to_coord (reconnect s) = []
    \<and> (\<forall>m \<in> set (sy_to_host (reconnect s)). calm (lk_epoch (sy_link s)) m) \<and> lk_socket (sy_link (reconnect s)) \<and> lk_online (sy_link (reconnect s))
    \<and> \<not> lk_updateSent (sy_link (reconnect s)) \<and> lk_instance (sy_link (reconnect s)) = lk_instance (sy_link s)"
proof -
  note d = link_okD [OF reachable_ok [OF r, unfolded system_ok_def]]
  define l where "l = sy_link s"
  define l1 where "l1 = (detach l)\<lparr>lk_updateSent := False\<rparr>"
  have off: "\<not> lk_online (detach l)" "\<not> lk_socket (detach l)" using phase_okD(15) [OF d(5)] by (auto simp: detach_def l_def)
  have o: "objects_ok (attach l1)" using d(1) by (simp add: objects_ok_def attach_def l1_def detach_def l_def)
  have f: "lk_instance l1 = lk_instance l" "lk_epoch l1 = lk_epoch l" by (simp_all add: l1_def detach_def)
  define s4 where "s4 = run_connect (run_abandon (run_detach (run_drop s)))"
  have s3: "sy_link (run_abandon (run_detach (run_drop s))) = l1" "sy_host (run_abandon (run_detach (run_drop s))) = host_disconnect (sy_host s)"
    using off by (simp_all add: run_abandon_def run_detach_def run_drop_def joined_def abandonUpdate_def l1_def l_def)
  have s4: "sy_link s4 = attach l1" "sy_host s4 = (sy_host s)\<lparr>hs_open := True\<rparr>" "sy_to_host s4 = []" "sy_to_coord s4 = [host_hello (sy_host s)]"
    unfolding s4_def run_connect_def s3 using off up by (simp_all add: joined_def host_connect_def host_disconnect_def l1_def attach_def host_hello_def)
  define m where "m = \<lparr>hl_protocol = HOST_PROTOCOL_VERSION, hl_instance = hs_instance (sy_host s), hl_applied = hs_applied (sy_host s),
     hl_appliedFrom = hs_coordinator (sy_host s), hl_processes = map fst (hs_procs (sy_host s))\<rparr>"
  have hello: "link_receive (host_hello (sy_host s)) (attach l1) = handleHello m (attach l1)"
    by (simp add: link_receive_def host_hello_def m_def)
  define l2 where "l2 = (if lk_hostInstance (attach l1) = Some (hl_instance m) then attach l1 else new_host_instance m (attach l1))"
  have u: "\<not> lk_updateSent l2" "lk_instance l2 = lk_instance l" "lk_epoch l2 = lk_epoch l" "lk_socket l2"
    using new_instance_frame(2,3,7,8) [OF o refl, of m] f by (auto simp: l2_def attach_def l1_def)
  have e: "handleHello m (attach l1) = (l2\<lparr>lk_online := True\<rparr>, Welcome (lk_instance l2) (lk_epoch l2) (received_seqs l2)
       # commands_of (filter (\<lambda>(s, c). (if hl_appliedFrom m = Some (lk_instance l2) then hl_applied m else 0) < s) (lk_unacked l2)))"
    unfolding handleHello_def Let_def l2_def [symmetric] using u(1) by (simp add: m_def split: option.split)
  have rc: "reconnect s = joined (l2\<lparr>lk_online := True\<rparr>) (sy_host s4) (snd (handleHello m (attach l1))) [] (sy_instances s4) (sy_processes s4)"
  proof -
    have "lk_socket (attach l1)" by (simp add: attach_def)
    then show ?thesis unfolding reconnect_def s4_def [symmetric] by (simp add: run_coordinator_def s4 hello e)
  qed
  show ?thesis unfolding rc using u by (auto simp: joined_def s4(2) e l_def)
qed

text \<open>
  C7. The link recovers in orderly runs (as in C5): from every system they reach whose host was not
  stopped and has followed no coordinator of a later epoch, some further steps, a fresh connection
  and the reading of what it brings, lead to an open link with nothing in flight where the host has
  carried out every command issued to it and the coordinator has seen every event of every process
  they share; neither side restarts on the way.
\<close>

theorem link_recovers:
  assumes "link_reachable True s" "\<not> hs_stopped (sy_host s)" "hs_highestEpoch (sy_host s) \<le> lk_epoch (sy_link s)"
  shows "\<exists>s'. (link_step True)\<^sup>*\<^sup>* s s' \<and> lk_instance (sy_link s') = lk_instance (sy_link s) \<and> hs_instance (sy_host s') = hs_instance (sy_host s)
    \<and> lk_online (sy_link s') \<and> hs_open (sy_host s') \<and> sy_to_host s' = [] \<and> sy_to_coord s' = []
    \<and> hs_commands (sy_host s') = lk_commands (sy_link s')
    \<and> (\<forall>p rp hp. tracked (sy_link s') p = Some rp \<longrightarrow> map_of (hs_procs (sy_host s')) p = Some hp \<longrightarrow> rp_events rp = hp_events hp)"
proof -
  note v = reconnect_view [OF assms(1,2)] and st = reconnect_steps [OF assms(1)]
  obtain s1 where s1: "(link_step True)\<^sup>*\<^sup>* (reconnect s) s1" "sy_to_host s1 = []" "hs_open (sy_host s1)" "\<forall>m \<in> set (sy_to_coord s1). plain m"
    "sy_link s1 = sy_link (reconnect s)" "hs_instance (sy_host s1) = hs_instance (sy_host s)"
    using host_drains [OF st(2), of "lk_epoch (sy_link s)"] v assms(3) by auto
  have r1: "link_reachable True s1" by (rule reachable_steps [OF s1(1) st(2)])
  obtain s2 where s2: "(link_step True)\<^sup>*\<^sup>* s1 s2" "sy_to_host s2 = []" "sy_to_coord s2 = []" "sy_host s2 = sy_host s1" "lk_socket (sy_link s2)"
    "lk_instance (sy_link s2) = lk_instance (sy_link s1)" "lk_online (sy_link s2) = lk_online (sy_link s1)" "lk_updateSent (sy_link s2) = lk_updateSent (sy_link s1)"
    using coordinator_drains [OF r1 s1(2,4)] v s1(5) by auto
  have r2: "link_reachable True s2" by (rule reachable_steps [OF s2(1) r1])
  have "hs_open (sy_host s2)" using s1(3) s2(4) by simp
  from quiet_complete [OF r2 s2(5) this s2(2,3)] have "hs_commands (sy_host s2) = lk_commands (sy_link s2)"
    "\<forall>p rp hp. tracked (sy_link s2) p = Some rp \<longrightarrow> map_of (hs_procs (sy_host s2)) p = Some hp \<longrightarrow> rp_events rp = hp_events hp"
    using v s1(5) s2(8) by auto
  moreover have "(link_step True)\<^sup>*\<^sup>* s s2" using st(1) s1(1) s2(1) by (meson rtranclp_trans)
  ultimately show ?thesis using s1 s2 v by (intro exI [of _ s2]) simp
qed

theorem link_recovers_witness:
  "\<exists>s'. (link_step True)\<^sup>*\<^sup>* link_demo_running s' \<and> lk_instance (sy_link s') = lk_instance (sy_link link_demo_running)
    \<and> hs_instance (sy_host s') = hs_instance (sy_host link_demo_running)
    \<and> lk_online (sy_link s') \<and> hs_open (sy_host s') \<and> sy_to_host s' = [] \<and> sy_to_coord s' = []
    \<and> hs_commands (sy_host s') = lk_commands (sy_link s')"
proof -
  have u: "\<not> hs_stopped (sy_host link_demo_running)" "hs_highestEpoch (sy_host link_demo_running) \<le> lk_epoch (sy_link link_demo_running)"
    by code_simp+
  show ?thesis using link_recovers [OF link_demo_reachable(2) u] by blast
qed

end
