(* ===== verification/Herd_Events.thy ===== *)
theory Herd_Events
  imports Timer_Manager Thread_Markers Thread_Tabs
begin

text \<open>
  The events of workers that are delivered to their leaders (server/takode-event-types.ts), the keys
  that identify a repeated event (server/herd-event-keys.ts), quiet turns
  (server/herd-quiet-turns.ts) and the conversation an event belongs to. Of an event's data the fields
  are kept that its delivery reads; what only the text shown to the leader uses is left out. The
  phase of a board row is a parameter: the row carries the phase that its journey gives.
\<close>

section \<open>Events\<close>

record quiet_turn =
  qu_summary :: string
  qu_count :: "nat option"
  qu_silent :: "bool option"

record quest_change =
  qc_questId :: string
  qc_from :: string
  qc_to :: string

record turn_end_data =
  tn_reason :: "string option"
  tn_duration :: number
  tn_isError :: "bool option"
  tn_interrupted :: "bool option"
  tn_interruptSource :: "string option"
  tn_interruptOrigin :: "string option"
  tn_restartPrepOperationId :: "string option"
  tn_compacted :: "bool option"
  tn_recoveryPending :: "bool option"
  tn_provisional :: "bool option"
  tn_awaitingDecision :: "bool option"
  tn_resumedAfterDecision :: "bool option"
  tn_tools :: "(string \<times> nat) list option"
  tn_resultPreview :: "string option"
  tn_msgRange :: "(nat \<times> nat) option"
  tn_questChange :: "quest_change option"
  tn_userMsgs :: "(nat \<times> nat list) option"
  tn_turnSource :: "string option"
  tn_threadKey :: "string option"
  tn_questId :: "string option"
  tn_quiet :: "quiet_turn option"
  tn_quietIgnored :: "string option"

record worker_report =
  wr_id :: string
  wr_leaderSessionId :: string
  wr_phasePosition :: nat
  wr_boardCreatedAt :: number

record worker_stream_data =
  ws_reason :: "string option"
  ws_duration :: number
  ws_tools :: "(string \<times> nat) list option"
  ws_resultPreview :: "string option"
  ws_msgRange :: "(nat \<times> nat) option"
  ws_questChange :: "quest_change option"
  ws_userMsgs :: "(nat \<times> nat list) option"
  ws_turnSource :: "string option"
  ws_threadKey :: "string option"
  ws_questId :: "string option"
  ws_report :: "worker_report option"

record board_stalled_data =
  bs_questId :: string
  bs_stage :: "string option"
  bs_signature :: "string option"
  bs_workerStatus :: "string option"
  bs_reviewerStatus :: "string option"
  bs_reason :: string
  bs_action :: "string option"

record board_dispatchable_data =
  bd_questId :: string
  bd_signature :: "string option"
  bd_rowUpdatedAt :: "number option"
  bd_summary :: string
  bd_action :: "string option"

text \<open>
  The payload by type of event. \<open>PermissionRequest\<close> and the constructors with an option of a string
  at the end carry a quest id; a user message also the session that sent it for an agent.
\<close>

datatype takode_data =
    TurnEnd turn_end_data
  | WorkerStream worker_stream_data
  | TurnStart
  | CompactionStarted
  | CompactionFinished
  | PermissionRequest "string option"
  | PermissionResolved
  | HerdReassigned
  | SessionDisconnected bool
  | SessionError
  | SessionArchived
  | SessionDeleted
  | UserMessage "string option" "string option"
  | BoardStalled board_stalled_data
  | BoardDispatchable board_dispatchable_data
  | NeedsInput "string option"
  | NotificationDismissed "string option"
  | MessageDelivery "string option"
  | HostOffline "string option"
  | HostOnline "string option"

fun event_name :: "takode_data \<Rightarrow> string" where
  "event_name (TurnEnd _) = ''turn_end''"
| "event_name (WorkerStream _) = ''worker_stream''"
| "event_name TurnStart = ''turn_start''"
| "event_name CompactionStarted = ''compaction_started''"
| "event_name CompactionFinished = ''compaction_finished''"
| "event_name (PermissionRequest _) = ''permission_request''"
| "event_name PermissionResolved = ''permission_resolved''"
| "event_name HerdReassigned = ''herd_reassigned''"
| "event_name (SessionDisconnected _) = ''session_disconnected''"
| "event_name SessionError = ''session_error''"
| "event_name SessionArchived = ''session_archived''"
| "event_name SessionDeleted = ''session_deleted''"
| "event_name (UserMessage _ _) = ''user_message''"
| "event_name (BoardStalled _) = ''board_stalled''"
| "event_name (BoardDispatchable _) = ''board_dispatchable''"
| "event_name (NeedsInput _) = ''notification_needs_input''"
| "event_name (NotificationDismissed _) = ''notification_dismissed''"
| "event_name (MessageDelivery _) = ''message_delivery''"
| "event_name (HostOffline _) = ''host_offline''"
| "event_name (HostOnline _) = ''host_online''"

record takode_event =
  tv_id :: nat
  tv_sessionId :: string
  tv_sessionNum :: int
  tv_sessionName :: string
  tv_ts :: number
  tv_actorSessionId :: "string option"
  tv_data :: takode_data

definition ACTIONABLE_EVENTS :: "string list" where
  "ACTIONABLE_EVENTS = [''turn_end'', ''worker_stream'', ''user_message'', ''permission_request'', ''permission_resolved'',
     ''herd_reassigned'', ''session_error'', ''session_disconnected'', ''session_archived'', ''session_deleted'',
     ''board_stalled'', ''board_dispatchable'', ''notification_needs_input'', ''notification_dismissed'',
     ''message_delivery'', ''host_offline'', ''host_online'']"

definition CRITICAL_EVENTS :: "string list" where
  "CRITICAL_EVENTS = [''permission_request'', ''session_error'']"

definition critical :: "takode_event \<Rightarrow> bool" where
  "critical e \<longleftrightarrow> event_name (tv_data e) \<in> set CRITICAL_EVENTS"

section \<open>Keys of events\<close>

text \<open>A key is a list of UTF-16 code units, since a cut preview ends with an ellipsis (U+2026).\<close>

type_synonym event_key = "nat list"

definition units :: "string \<Rightarrow> event_key" where
  "units s = map of_char s"

definition stableKeyPart :: "string option \<Rightarrow> event_key" where
  "stableKeyPart v = units (lower (trim (case v of None \<Rightarrow> [] | Some s \<Rightarrow> s)))"

definition flag_part :: "bool option \<Rightarrow> event_key" where
  "flag_part v = stableKeyPart (map_option (\<lambda>b. if b then ''true'' else ''false'') v)"

definition count_part :: "nat option \<Rightarrow> event_key" where
  "count_part v = stableKeyPart (map_option show_nat v)"

definition number_part :: "number option \<Rightarrow> event_key" where
  "number_part v = stableKeyPart (map_option show_number v)"

definition stableToolCountsPart :: "locale_compare \<Rightarrow> (string \<times> nat) list option \<Rightarrow> string" where
  "stableToolCountsPart lc tools = (case tools of None \<Rightarrow> []
     | Some ts \<Rightarrow> join_with '','' (map (\<lambda>(tool, count). tool @ '':'' @ show_nat count) (sort_by (\<lambda>a b. lc (fst a) (fst b)) ts)))"

definition stableNumberListPart :: "nat list option \<Rightarrow> string" where
  "stableNumberListPart values = (case values of None \<Rightarrow> [] | Some ns \<Rightarrow> join_with '','' (map show_nat ns))"

text \<open>\<open>stableKeyPart(truncate(preview, 60))\<close>: the ellipsis is neither trimmed nor changed by case.\<close>

definition preview_part :: "string option \<Rightarrow> event_key" where
  "preview_part preview = (let s = (case preview of None \<Rightarrow> [] | Some p \<Rightarrow> p)
     in if length s \<le> 60 then stableKeyPart (Some s) else units (lower (trim_left (take 59 s))) @ [8230])"

fun join_units :: "event_key list \<Rightarrow> event_key" where
  "join_units [] = []"
| "join_units [p] = p"
| "join_units (p # q # ps) = p @ [124] @ join_units (q # ps)"

definition turn_end_key :: "locale_compare \<Rightarrow> string \<Rightarrow> turn_end_data \<Rightarrow> nat \<times> nat \<Rightarrow> event_key" where
  "turn_end_key lc sid t rng = join_units
     ([stableKeyPart (Some ''turn_end''), stableKeyPart (Some sid), stableKeyPart (tn_reason t), number_part (Some (tn_duration t)),
       flag_part (tn_isError t), flag_part (tn_interrupted t), stableKeyPart (tn_interruptSource t),
       stableKeyPart (tn_interruptOrigin t), stableKeyPart (tn_restartPrepOperationId t), flag_part (tn_compacted t),
       flag_part (tn_recoveryPending t), flag_part (tn_provisional t), stableKeyPart (tn_threadKey t), stableKeyPart (tn_questId t),
       stableKeyPart (Some (stableToolCountsPart lc (tn_tools t))), preview_part (tn_resultPreview t),
       count_part (Some (fst rng)), count_part (Some (snd rng)),
       stableKeyPart (map_option qc_questId (tn_questChange t)), stableKeyPart (map_option qc_from (tn_questChange t)),
       stableKeyPart (map_option qc_to (tn_questChange t)),
       count_part (map_option fst (tn_userMsgs t)), stableKeyPart (Some (stableNumberListPart (map_option snd (tn_userMsgs t)))),
       stableKeyPart (tn_turnSource t)]
      @ (if tn_awaitingDecision t = Some True \<or> tn_resumedAfterDecision t = Some True
         then [flag_part (tn_awaitingDecision t), flag_part (tn_resumedAfterDecision t)] else []))"

definition worker_stream_key :: "locale_compare \<Rightarrow> string \<Rightarrow> worker_stream_data \<Rightarrow> nat \<times> nat \<Rightarrow> event_key" where
  "worker_stream_key lc sid w rng = join_units
     [stableKeyPart (Some ''worker_stream''), stableKeyPart (Some sid), stableKeyPart (ws_reason w), number_part (Some (ws_duration w)),
      stableKeyPart (ws_threadKey w), stableKeyPart (ws_questId w), stableKeyPart (Some (stableToolCountsPart lc (ws_tools w))),
      preview_part (ws_resultPreview w), count_part (Some (fst rng)), count_part (Some (snd rng)),
      stableKeyPart (map_option qc_questId (ws_questChange w)), stableKeyPart (map_option qc_from (ws_questChange w)),
      stableKeyPart (map_option qc_to (ws_questChange w)),
      count_part (map_option fst (ws_userMsgs w)), stableKeyPart (Some (stableNumberListPart (map_option snd (ws_userMsgs w)))),
      stableKeyPart (ws_turnSource w)]"

definition getStableHerdEventKey :: "locale_compare \<Rightarrow> takode_event \<Rightarrow> event_key option" where
  "getStableHerdEventKey lc e = (case tv_data e of
       TurnEnd t \<Rightarrow> map_option (turn_end_key lc (tv_sessionId e) t) (tn_msgRange t)
     | WorkerStream w \<Rightarrow> (case ws_report w of
           Some r \<Rightarrow> Some (units (''worker_stream|'' @ tv_sessionId e @ ''|report|'' @ wr_id r))
         | None \<Rightarrow> map_option (worker_stream_key lc (tv_sessionId e) w) (ws_msgRange w))
     | BoardStalled b \<Rightarrow> Some (join_units
         [stableKeyPart (Some ''board_stalled''), stableKeyPart (Some (tv_sessionId e)), stableKeyPart (Some (bs_questId b)),
          stableKeyPart (bs_stage b), stableKeyPart (bs_signature b), stableKeyPart (bs_workerStatus b),
          stableKeyPart (bs_reviewerStatus b), stableKeyPart (Some (bs_reason b)), stableKeyPart (bs_action b)])
     | BoardDispatchable b \<Rightarrow> Some (join_units
         [stableKeyPart (Some ''board_dispatchable''), stableKeyPart (Some (tv_sessionId e)), stableKeyPart (Some (bd_questId b)),
          stableKeyPart (bd_signature b), number_part (bd_rowUpdatedAt b), stableKeyPart (Some (bd_summary b)),
          stableKeyPart (bd_action b)])
     | _ \<Rightarrow> None)"

section \<open>What the bridge holds of a session\<close>

record board_row =
  bw_worker :: "string option"
  bw_status :: "string option"
  bw_createdAt :: number
  bw_updatedAt :: number
  bw_phaseId :: "string option"
  bw_phaseIndex :: "nat option"

record history_entry =
  hy_userMessage :: bool
  hy_id :: "string option"
  hy_agentSource :: "string option"
  hy_herdEventKeys :: "event_key list"
  hy_threadKey :: "string option"
  hy_questId :: "string option"
  hy_threadRefs :: "(string \<times> string) list"
  hy_content :: "string option"

record pending_input =
  pn_id :: string
  pn_agentSource :: "string option"
  pn_eventKeys :: "event_key list"

record leader_session =
  ld_history :: "history_entry list"
  ld_codex :: bool
  ld_claimedQuestId :: "string option"
  ld_board :: "(string \<times> board_row) list option"
  ld_pendingInputs :: "pending_input list"

section \<open>Quiet turns\<close>

definition isHeldQuietTurn :: "takode_event \<Rightarrow> bool" where
  "isHeldQuietTurn e \<longleftrightarrow> (case tv_data e of TurnEnd t \<Rightarrow> tn_quiet t \<noteq> None | _ \<Rightarrow> False)"

definition overrideQuietForBoardChange :: "takode_event \<Rightarrow> (string \<times> board_row) list option \<Rightarrow> takode_event" where
  "overrideQuietForBoardChange e board = (case tv_data e of
       TurnEnd t \<Rightarrow> (case board of
           Some rows \<Rightarrow>
             if tn_quiet t \<noteq> None
                \<and> list_ex (\<lambda>(q, row). bw_worker row = Some (tv_sessionId e) \<and> tv_ts e - tn_duration t \<le> bw_updatedAt row) rows
             then e\<lparr>tv_data := TurnEnd (t\<lparr>tn_quiet := None, tn_quietIgnored := Some ''the quest's board row changed''\<rparr>)\<rparr>
             else e
         | None \<Rightarrow> e)
     | _ \<Rightarrow> e)"

definition quiet_count :: "quiet_turn \<Rightarrow> nat" where
  "quiet_count q = (case qu_count q of None \<Rightarrow> 1 | Some n \<Rightarrow> n)"

definition mergeHeldQuietTurn :: "takode_event \<Rightarrow> takode_event \<Rightarrow> takode_event" where
  "mergeHeldQuietTurn previous next' = (case (tv_data previous, tv_data next') of
       (TurnEnd p, TurnEnd n) \<Rightarrow> (case (tn_quiet p, tn_quiet n) of
           (Some q, Some r) \<Rightarrow> next'\<lparr>tv_data := TurnEnd (n\<lparr>tn_quiet :=
             Some \<lparr>qu_summary = qu_summary r, qu_count = Some (quiet_count q + quiet_count r), qu_silent = None\<rparr>\<rparr>)\<rparr>
         | _ \<Rightarrow> next')
     | _ \<Rightarrow> next')"

definition isRoutineScribeEvent :: "(string \<Rightarrow> bool) \<Rightarrow> takode_event \<Rightarrow> bool" where
  "isRoutineScribeEvent isScribe e \<longleftrightarrow> isScribe (tv_sessionId e) \<and> (case tv_data e of
       TurnEnd t \<Rightarrow> (case tn_quiet t of Some q \<Rightarrow> qu_silent q = Some True | None \<Rightarrow> False)
     | SessionArchived \<Rightarrow> True | SessionDisconnected _ \<Rightarrow> True | HerdReassigned \<Rightarrow> True | PermissionResolved \<Rightarrow> True
     | _ \<Rightarrow> False)"

section \<open>The conversation of an event\<close>

definition main_route :: thread_route where
  "main_route = \<lparr>tr_threadKey = ''main'', tr_questId = None, tr_refs = []\<rparr>"

definition routeKey :: "thread_route \<Rightarrow> string" where
  "routeKey r = (let k = lower (trim (tr_threadKey r)) in if k = [] then ''main'' else k)"

definition is_quest_id :: "string \<Rightarrow> bool" where
  "is_quest_id s \<longleftrightarrow> isQuestThreadKey (lower s)"

definition questIdFromEvent :: "takode_event \<Rightarrow> string option" where
  "questIdFromEvent e = (case tv_data e of
       TurnEnd t \<Rightarrow> (case tn_questId t of None \<Rightarrow> map_option qc_questId (tn_questChange t) | Some q \<Rightarrow> Some q)
     | WorkerStream w \<Rightarrow> (case ws_questId w of None \<Rightarrow> map_option qc_questId (ws_questChange w) | Some q \<Rightarrow> Some q)
     | BoardStalled b \<Rightarrow> Some (bs_questId b)
     | BoardDispatchable b \<Rightarrow> Some (bd_questId b)
     | PermissionRequest q \<Rightarrow> q | NeedsInput q \<Rightarrow> q | NotificationDismissed q \<Rightarrow> q | UserMessage _ q \<Rightarrow> q
     | MessageDelivery q \<Rightarrow> q | HostOffline q \<Rightarrow> q | HostOnline q \<Rightarrow> q
     | _ \<Rightarrow> None)"

definition event_thread_key :: "takode_event \<Rightarrow> string option" where
  "event_thread_key e = (case tv_data e of TurnEnd t \<Rightarrow> tn_threadKey t | WorkerStream w \<Rightarrow> ws_threadKey w | _ \<Rightarrow> None)"

definition quest_route :: "string option \<Rightarrow> thread_route option" where
  "quest_route q = (case q of Some s \<Rightarrow> if is_quest_id s then Some (threadRouteForTarget (lower s) ''inferred'') else None | None \<Rightarrow> None)"

definition threadRouteFromEvent :: "takode_event \<Rightarrow> thread_route option" where
  "threadRouteFromEvent e = (case quest_route (questIdFromEvent e) of Some r \<Rightarrow> Some r | None \<Rightarrow> quest_route (event_thread_key e))"

definition routeFromHistoryEntry :: "history_entry \<Rightarrow> thread_route option" where
  "routeFromHistoryEntry m = (case normalizeThreadRoute (hy_threadKey m) (hy_questId m) of
       Some r \<Rightarrow> Some r
     | None \<Rightarrow> map_option (\<lambda>(k, source). threadRouteForTarget k source) (find (\<lambda>(k, source). normalizeThreadTarget k \<noteq> None) (hy_threadRefs m)))"

definition inferThreadRouteFromTextContent :: "string option \<Rightarrow> thread_route option" where
  "inferThreadRouteFromTextContent content = (case truthy content of None \<Rightarrow> None
     | Some s \<Rightarrow> map_option (\<lambda>t. threadRouteForTarget (tt_threadKey t) ''inferred'') (inferThreadTargetFromTextContent s))"

definition entry_route :: "history_entry \<Rightarrow> thread_route option" where
  "entry_route m = (case routeFromHistoryEntry m of
       Some r \<Rightarrow> if tr_threadKey r \<noteq> ''main'' then Some (threadRouteForTarget (tr_threadKey r) ''inferred'') else None
     | None \<Rightarrow> None)"

definition content_route :: "history_entry \<Rightarrow> thread_route option" where
  "content_route m =
     (if hy_userMessage m \<and> truthy (hy_agentSource m) \<noteq> None
      then (case inferThreadRouteFromTextContent (hy_content m) of
              Some r \<Rightarrow> if tr_threadKey r \<noteq> ''main'' then Some r else None | None \<Rightarrow> None)
      else None)"

fun first_route :: "history_entry list \<Rightarrow> nat list \<Rightarrow> thread_route option" where
  "first_route history [] = None"
| "first_route history (i # is) =
     (if i < length history
      then (case entry_route (history ! i) of Some r \<Rightarrow> Some r
            | None \<Rightarrow> (case content_route (history ! i) of Some r \<Rightarrow> Some r | None \<Rightarrow> first_route history is))
      else first_route history is)"

definition event_messages :: "takode_event \<Rightarrow> nat list" where
  "event_messages e = (case tv_data e of
       TurnEnd t \<Rightarrow> (case tn_userMsgs t of None \<Rightarrow> [] | Some (c, ids) \<Rightarrow> ids)
         @ (case tn_msgRange t of None \<Rightarrow> [] | Some (a, b) \<Rightarrow> rev [a..<Suc b])
     | WorkerStream w \<Rightarrow> (case ws_userMsgs w of None \<Rightarrow> [] | Some (c, ids) \<Rightarrow> ids)
         @ (case ws_msgRange w of None \<Rightarrow> [] | Some (a, b) \<Rightarrow> rev [a..<Suc b])
     | _ \<Rightarrow> [])"

definition inferActivityEventRouteFromHistory :: "takode_event \<Rightarrow> history_entry list \<Rightarrow> thread_route option" where
  "inferActivityEventRouteFromHistory e history = first_route history (event_messages e)"

section \<open>Owners and committed keys\<close>

definition HERD_AGENT :: string where "HERD_AGENT = ''herd-events''"

definition getCommittedHerdEventKeys :: "history_entry list \<Rightarrow> event_key list" where
  "getCommittedHerdEventKeys history =
     filter (\<lambda>k. k \<noteq> []) (concat (map hy_herdEventKeys (filter (\<lambda>m. hy_userMessage m \<and> hy_agentSource m = Some HERD_AGENT) history)))"

definition getHerdEventLifecycle :: "takode_event \<Rightarrow> string list" where
  "getHerdEventLifecycle e = (case tv_data e of
       TurnEnd t \<Rightarrow>
         (if tn_awaitingDecision t = Some True then [''waiting_for_decision''] else [])
         @ (if tn_resumedAfterDecision t = Some True then [''resumed_after_decision''] else [])
         @ (if tn_compacted t = Some True \<and> tn_interrupted t \<noteq> Some True \<and> tn_isError t \<noteq> Some True then [''context_continued''] else [])
         @ (if tn_interrupted t = Some True then [''interrupted''] else if tn_isError t = Some True then [''failed''] else [])
     | PermissionRequest _ \<Rightarrow> [''waiting_for_decision'']
     | NeedsInput _ \<Rightarrow> [''waiting_for_decision'']
     | PermissionResolved \<Rightarrow> [''decision_resolved'']
     | CompactionFinished \<Rightarrow> [''context_continued'']
     | SessionDisconnected wasGenerating \<Rightarrow> [if wasGenerating then ''interrupted'' else ''idle_disconnected'']
     | SessionError \<Rightarrow> [''failed'']
     | _ \<Rightarrow> [])"

text \<open>The batch sent with an injected message: its events and, if any event has one, their keys.\<close>

record herd_batch =
  hb_events :: "takode_event list"
  hb_eventKeys :: "event_key list option"

definition event_key_or_empty :: "locale_compare \<Rightarrow> takode_event \<Rightarrow> event_key" where
  "event_key_or_empty lc e = (case getStableHerdEventKey lc e of None \<Rightarrow> [] | Some k \<Rightarrow> k)"

definition snapshotHerdBatch :: "locale_compare \<Rightarrow> takode_event list \<Rightarrow> herd_batch option" where
  "snapshotHerdBatch lc events =
     (let keys = map (event_key_or_empty lc) events; keyed = list_ex (\<lambda>k. k \<noteq> []) keys
      in if list_ex (\<lambda>e. event_name (tv_data e) = ''board_stalled'') events \<or> list_ex (\<lambda>e. getHerdEventLifecycle e \<noteq> []) events \<or> keyed
         then Some \<lparr>hb_events = events, hb_eventKeys = (if keyed then Some keys else None)\<rparr>
         else None)"

definition batch_keys :: "herd_batch option \<Rightarrow> event_key list" where
  "batch_keys b = (case b of None \<Rightarrow> [] | Some x \<Rightarrow> (case hb_eventKeys x of None \<Rightarrow> [] | Some ks \<Rightarrow> ks))"

record owner_snapshot =
  os_historyLength :: nat
  os_pendingIds :: "string list"

definition snapshotHerdDeliveryOwners :: "leader_session option \<Rightarrow> owner_snapshot" where
  "snapshotHerdDeliveryOwners s = (case s of None \<Rightarrow> \<lparr>os_historyLength = 0, os_pendingIds = []\<rparr>
     | Some l \<Rightarrow> \<lparr>os_historyLength = length (ld_history l), os_pendingIds = map pn_id (ld_pendingInputs l)\<rparr>)"

definition matches_keys :: "event_key list \<Rightarrow> event_key list \<Rightarrow> bool" where
  "matches_keys expected actual \<longleftrightarrow> filter (\<lambda>k. k \<noteq> []) expected = []
     \<or> filter (\<lambda>k. k \<noteq> []) actual = filter (\<lambda>k. k \<noteq> []) expected"

definition findHerdDeliveryOwnerId :: "leader_session option \<Rightarrow> event_key list \<Rightarrow> owner_snapshot \<Rightarrow> string option" where
  "findHerdDeliveryOwnerId s keys earlier = (case s of None \<Rightarrow> None
     | Some l \<Rightarrow>
         (case find (\<lambda>m. hy_userMessage m \<and> hy_agentSource m = Some HERD_AGENT \<and> hy_id m \<noteq> None \<and> matches_keys keys (hy_herdEventKeys m))
                 (rev (drop (os_historyLength earlier) (ld_history l))) of
            Some m \<Rightarrow> hy_id m
          | None \<Rightarrow> map_option pn_id
              (find (\<lambda>p. pn_agentSource p = Some HERD_AGENT \<and> pn_id p \<notin> set (os_pendingIds earlier) \<and> matches_keys keys (pn_eventKeys p))
                 (rev (ld_pendingInputs l)))))"

definition isCurrentWorkerReport :: "takode_event \<Rightarrow> string \<Rightarrow> (string \<times> board_row) list option \<Rightarrow> bool" where
  "isCurrentWorkerReport e leaderId board = (case tv_data e of
       WorkerStream w \<Rightarrow> (case ws_report w of
           None \<Rightarrow> True
         | Some r \<Rightarrow> wr_leaderSessionId r = leaderId
             \<and> (case Option.bind (truthy (ws_questId w)) (\<lambda>q. Option.bind board (\<lambda>rows. map_of rows q)) of
                  None \<Rightarrow> False
                | Some row \<Rightarrow> bw_worker row = Some (tv_sessionId e) \<and> bw_status row = Some ''WORKING''
                    \<and> bw_createdAt row = wr_boardCreatedAt r \<and> bw_phaseId row = Some ''work''
                    \<and> bw_phaseIndex row \<noteq> None \<and> map_option Suc (bw_phaseIndex row) = Some (wr_phasePosition r)))
     | _ \<Rightarrow> True)"

end
