(* ===== verification/Herd_Inbox.thy ===== *)
theory Herd_Inbox
  imports Herd_Events
begin

text \<open>
  The inbox of a leader (server/herd-event-dispatcher.ts): the events that wait for it, who owns the
  ones that were delivered, and the delivery of pending events in batches by conversation. An entry is
  identified by its sequence number, which no two entries of an inbox share. What the dispatcher
  reads from the bridge, the launcher and the clock is an environment; the answer of the bridge to each
  injected message comes with the environment after it. The fields of an inbox marked history record
  what was accepted, what the bridge took and what became of an entry; no operation reads them.
\<close>

section \<open>State\<close>

definition DEBOUNCE_MS :: number where "DEBOUNCE_MS = 500"
definition RETRY_MS :: number where "RETRY_MS = 2000"
definition INBOX_CAP :: nat where "INBOX_CAP = 200"
definition HISTORY_CAP :: nat where "HISTORY_CAP = 50"
definition RECENT_EVENT_DEDUPE_CAP :: nat where "RECENT_EVENT_DEDUPE_CAP = 500"

datatype delivery_stage = StPending | StHeld | StQueued | StInFlight | StConfirmed | StRedelivered | StSuppressed | StMerged

record inbox_entry =
  ie_event :: takode_event
  ie_seq :: nat
  ie_threadRoute :: thread_route
  ie_heldBy :: "string option"
  ie_owner :: "string option option"
    \<comment> \<open>\<open>None\<close> while pending, \<open>Some None\<close> when delivered without a known owner\<close>

record delivery_note =
  dl_event :: string
  dl_sessionName :: string
  dl_ts :: number
  dl_deliveredAt :: "number option"
  dl_status :: delivery_stage

text \<open>How an accepted entry left the inbox.\<close>

datatype fate = ByTurn | ByHistory | ByMerge | ByOverflow | ByStaleReport | ByStaleBoard | ByRestart

record herd_inbox =
  hi_entries :: "inbox_entry list"
  hi_nextSeq :: nat
  hi_confirmedUpTo :: nat
  hi_inFlightUpTo :: "nat option"
  hi_subscribed :: bool
  hi_timer :: "number option"
  hi_workerIds :: "string list"
  hi_history :: "delivery_note list"
  hi_recentEventKeys :: "(event_key \<times> number) list"
  hi_lastEmittedMsgTo :: "(string \<times> nat) list"
  hi_accepted :: "(nat \<times> takode_event) list"  \<comment> \<open>history: accepted events with their numbers\<close>
  hi_injected :: "nat list"  \<comment> \<open>history: numbers of the entries in messages the bridge took\<close>
  hi_gone :: "(nat \<times> fate) list"  \<comment> \<open>history: entries that left\<close>

definition new_inbox :: "string list \<Rightarrow> bool \<Rightarrow> herd_inbox" where
  "new_inbox workerIds subscribed = \<lparr>hi_entries = [], hi_nextSeq = 0, hi_confirmedUpTo = 0, hi_inFlightUpTo = None,
     hi_subscribed = subscribed, hi_timer = None, hi_workerIds = workerIds, hi_history = [], hi_recentEventKeys = [],
     hi_lastEmittedMsgTo = [], hi_accepted = [], hi_injected = [], hi_gone = []\<rparr>"

text \<open>What is read from outside at a moment. A method the bridge may lack is optional.\<close>

record herd_env =
  he_now :: number
  he_stopping :: bool
  he_preserving :: bool
  he_session :: "string \<Rightarrow> leader_session option"
  he_idle :: "string \<Rightarrow> bool"
  he_hostOffline :: "string \<Rightarrow> bool"
  he_wakeIdleKilled :: "string \<Rightarrow> bool"
  he_wakeUnavailable :: "string \<Rightarrow> bool"
  he_herdedSessions :: "string \<Rightarrow> string list"
  he_launcherQuest :: "string \<Rightarrow> string option"
  he_sessionNum :: "string \<Rightarrow> int option"
  he_sessionName :: "string \<Rightarrow> string option"
  he_isScribe :: "string \<Rightarrow> bool"
  he_compare :: locale_compare
  he_boardRow :: "(string \<Rightarrow> string \<Rightarrow> (string option \<times> number option) option) option"
  he_stallSignature :: "(string \<Rightarrow> string \<Rightarrow> string option) option"
  he_dispatchableSignature :: "(string \<Rightarrow> string \<Rightarrow> string option) option"

datatype herd_effect =
    Injected string "takode_event list" thread_route delivery
  | WokeLeader string
  | AskedRecovery string

definition leader_history :: "herd_env \<Rightarrow> string \<Rightarrow> history_entry list" where
  "leader_history env orchId = (case he_session env orchId of None \<Rightarrow> [] | Some l \<Rightarrow> ld_history l)"

definition leader_board :: "herd_env \<Rightarrow> string \<Rightarrow> (string \<times> board_row) list option" where
  "leader_board env orchId = Option.bind (he_session env orchId) ld_board"

definition isCodexLeader :: "herd_env \<Rightarrow> string \<Rightarrow> bool" where
  "isCodexLeader env sid \<longleftrightarrow> (case he_session env sid of None \<Rightarrow> False | Some l \<Rightarrow> ld_codex l)"

abbreviation key_of :: "herd_env \<Rightarrow> takode_event \<Rightarrow> event_key option" where
  "key_of env \<equiv> getStableHerdEventKey (he_compare env)"

section \<open>Small updates\<close>

definition change_entry :: "nat \<Rightarrow> (inbox_entry \<Rightarrow> inbox_entry) \<Rightarrow> herd_inbox \<Rightarrow> herd_inbox" where
  "change_entry q f ib = ib\<lparr>hi_entries := map (\<lambda>e. if ie_seq e = q then f e else e) (hi_entries ib)\<rparr>"

text \<open>Taking entries out of the inbox.\<close>

definition remove_entries :: "(inbox_entry \<Rightarrow> bool) \<Rightarrow> fate \<Rightarrow> herd_inbox \<Rightarrow> herd_inbox" where
  "remove_entries P w ib = ib\<lparr>hi_entries := filter (\<lambda>e. \<not> P e) (hi_entries ib),
     hi_gone := hi_gone ib @ map (\<lambda>e. (ie_seq e, w)) (filter P (hi_entries ib))\<rparr>"

definition lowest_seq :: "inbox_entry list \<Rightarrow> nat \<Rightarrow> nat" where
  "lowest_seq es nextSeq = (case map ie_seq es of [] \<Rightarrow> nextSeq | q # qs \<Rightarrow> foldl min q qs)"

definition highest_in_flight :: "inbox_entry list \<Rightarrow> nat option" where
  "highest_in_flight es = (case map ie_seq (filter (\<lambda>e. ie_owner e \<noteq> None) es) of [] \<Rightarrow> None | q # qs \<Rightarrow> Some (foldl max q qs))"

definition recomputeInboxWatermarks :: "herd_inbox \<Rightarrow> herd_inbox" where
  "recomputeInboxWatermarks ib = ib\<lparr>hi_confirmedUpTo := lowest_seq (hi_entries ib) (hi_nextSeq ib),
     hi_inFlightUpTo := highest_in_flight (hi_entries ib)\<rparr>"

text \<open>The latest record of an event in the delivery history.\<close>

definition same_note :: "inbox_entry \<Rightarrow> delivery_note \<Rightarrow> bool" where
  "same_note e n \<longleftrightarrow> dl_event n = event_name (tv_data (ie_event e)) \<and> dl_sessionName n = tv_sessionName (ie_event e)
     \<and> dl_ts n = tv_ts (ie_event e)"

definition update_note :: "inbox_entry \<Rightarrow> (delivery_note \<Rightarrow> delivery_note) \<Rightarrow> herd_inbox \<Rightarrow> herd_inbox" where
  "update_note e f ib = ib\<lparr>hi_history := rev (update_first (same_note e) f (rev (hi_history ib)))\<rparr>"

definition markDeliveryHistoryStatus :: "delivery_stage \<Rightarrow> inbox_entry \<Rightarrow> herd_inbox \<Rightarrow> herd_inbox" where
  "markDeliveryHistoryStatus st e ib = update_note e (\<lambda>n. n\<lparr>dl_status := st\<rparr>) ib"

definition mark_all :: "delivery_stage \<Rightarrow> inbox_entry list \<Rightarrow> herd_inbox \<Rightarrow> herd_inbox" where
  "mark_all st es ib = foldl (\<lambda>ib e. markDeliveryHistoryStatus st e ib) ib es"

definition trimRecentEventKeys :: "herd_inbox \<Rightarrow> herd_inbox" where
  "trimRecentEventKeys ib = ib\<lparr>hi_recentEventKeys := last_n RECENT_EVENT_DEDUPE_CAP (hi_recentEventKeys ib)\<rparr>"

definition remember_key :: "number \<Rightarrow> event_key \<Rightarrow> herd_inbox \<Rightarrow> herd_inbox" where
  "remember_key now k ib = trimRecentEventKeys (ib\<lparr>hi_recentEventKeys := AList.update k now (hi_recentEventKeys ib)\<rparr>)"

definition rememberDeliveredEventKeys :: "herd_env \<Rightarrow> takode_event list \<Rightarrow> herd_inbox \<Rightarrow> herd_inbox" where
  "rememberDeliveredEventKeys env es ib =
     foldl (\<lambda>ib e. case key_of env e of None \<Rightarrow> ib | Some k \<Rightarrow> remember_key (he_now env) k ib) ib es"

definition getPendingEntries :: "herd_inbox \<Rightarrow> inbox_entry list" where
  "getPendingEntries ib = filter (\<lambda>e. ie_owner e = None) (hi_entries ib)"

definition pendingCount :: "herd_inbox \<Rightarrow> nat" where
  "pendingCount ib = length (filter (\<lambda>e. \<not> isHeldQuietTurn (ie_event e)) (getPendingEntries ib))"

definition inboxHasEventKey :: "herd_env \<Rightarrow> herd_inbox \<Rightarrow> event_key \<Rightarrow> bool" where
  "inboxHasEventKey env ib k \<longleftrightarrow> list_ex (\<lambda>e. key_of env (ie_event e) = Some k) (hi_entries ib)"

definition getActivityEventRange :: "takode_event \<Rightarrow> (nat \<times> nat) option" where
  "getActivityEventRange e = (case tv_data e of TurnEnd t \<Rightarrow> tn_msgRange t | WorkerStream w \<Rightarrow> ws_msgRange w | _ \<Rightarrow> None)"

definition updateLastEmittedMsgTo :: "(string \<times> nat) list \<Rightarrow> takode_event list \<Rightarrow> (string \<times> nat) list" where
  "updateLastEmittedMsgTo marks es = foldl (\<lambda>marks e. case getActivityEventRange e of None \<Rightarrow> marks
     | Some (a, b) \<Rightarrow> if (case map_of marks (tv_sessionId e) of None \<Rightarrow> True | Some c \<Rightarrow> c < b)
         then AList.update (tv_sessionId e) b marks else marks) marks es"

section \<open>Restart preparation\<close>

record restart_op =
  ro_id :: string
  ro_mode :: string
  ro_startedAt :: number
  ro_timeoutMs :: number
  ro_suppressionTtlMs :: number
  ro_targets :: "string list"
  ro_protectedLeaders :: "string list"
  ro_targetSummaries :: "(string \<times> string) list"
  ro_leaderSummaries :: "(string \<times> string) list"
  ro_suppressed :: nat
  ro_held :: nat
  ro_blockers :: "(string \<times> string) list"
  ro_holdUntil :: number
  ro_suppressUntil :: number

datatype delivery_policy = PolicyDeliver | PolicyHold string | PolicySuppress string

fun getRestartPrepDeliveryPolicy :: "number \<Rightarrow> string \<Rightarrow> takode_event \<Rightarrow> restart_op list \<Rightarrow> delivery_policy" where
  "getRestartPrepDeliveryPolicy now orchId e [] = PolicyDeliver"
| "getRestartPrepDeliveryPolicy now orchId e (r # rs) =
     (if orchId \<notin> set (ro_protectedLeaders r) then getRestartPrepDeliveryPolicy now orchId e rs
      else if tv_sessionId e \<in> set (ro_targets r) \<and> now \<le> ro_suppressUntil r then PolicySuppress (ro_id r)
      else if now \<le> ro_holdUntil r then PolicyHold (ro_id r)
      else getRestartPrepDeliveryPolicy now orchId e rs)"

definition recordRestartPrepSuppressed :: "string \<Rightarrow> takode_event \<Rightarrow> restart_op list \<Rightarrow> restart_op list" where
  "recordRestartPrepSuppressed i e = update_first (\<lambda>r. ro_id r = i) (\<lambda>r. r\<lparr>ro_suppressed := ro_suppressed r + 1,
     ro_targets := (if event_name (tv_data e) \<in> {''turn_end'', ''session_disconnected''}
                    then filter (\<lambda>t. t \<noteq> tv_sessionId e) (ro_targets r) else ro_targets r)\<rparr>)"

definition count_held :: "string \<Rightarrow> restart_op list \<Rightarrow> restart_op list" where
  "count_held i = update_first (\<lambda>r. ro_id r = i) (\<lambda>r. r\<lparr>ro_held := ro_held r + 1\<rparr>)"

section \<open>Stale events\<close>

definition board_entry_current :: "herd_env \<Rightarrow> (string \<Rightarrow> string \<Rightarrow> (string option \<times> number option) option) \<Rightarrow> string \<Rightarrow> inbox_entry \<Rightarrow> bool" where
  "board_entry_current env rowOf orchId e = (case tv_data (ie_event e) of
       BoardStalled b \<Rightarrow> (case rowOf orchId (bs_questId b) of None \<Rightarrow> False
         | Some (status, updatedAt) \<Rightarrow> (truthy (bs_stage b) = None \<or> status = bs_stage b)
             \<and> (case he_stallSignature env of None \<Rightarrow> True
                | Some sig \<Rightarrow> truthy (bs_signature b) = None \<or> sig orchId (bs_questId b) = bs_signature b))
     | BoardDispatchable b \<Rightarrow> (case rowOf orchId (bd_questId b) of None \<Rightarrow> False
         | Some (status, updatedAt) \<Rightarrow> (bd_rowUpdatedAt b = None \<or> updatedAt = bd_rowUpdatedAt b)
             \<and> (case he_dispatchableSignature env of None \<Rightarrow> True
                | Some sig \<Rightarrow> truthy (bd_signature b) = None \<or> sig orchId (bd_questId b) = bd_signature b))
     | _ \<Rightarrow> True)"

definition pruneStaleBoardStallEntries :: "herd_env \<Rightarrow> string \<Rightarrow> herd_inbox \<Rightarrow> nat \<times> herd_inbox" where
  "pruneStaleBoardStallEntries env orchId ib = (case he_boardRow env of None \<Rightarrow> (0, ib)
     | Some rowOf \<Rightarrow>
         let stale = filter (\<lambda>e. \<not> board_entry_current env rowOf orchId e) (hi_entries ib)
         in if stale = [] then (0, ib)
            else (length stale, recomputeInboxWatermarks
              (remove_entries (\<lambda>e. \<not> board_entry_current env rowOf orchId e) ByStaleBoard (mark_all StSuppressed stale ib))))"

section \<open>What can be delivered\<close>

definition withRideAlongQuietEntries :: "inbox_entry list \<Rightarrow> inbox_entry list" where
  "withRideAlongQuietEntries es =
     (let waking = map (\<lambda>e. routeKey (ie_threadRoute e)) (filter (\<lambda>e. \<not> isHeldQuietTurn (ie_event e)) es)
      in filter (\<lambda>e. \<not> isHeldQuietTurn (ie_event e) \<or> routeKey (ie_threadRoute e) \<in> set waking) es)"

text \<open>The pass of \<open>getDeliverablePendingEntries\<close> over the pending entries.\<close>

fun deliverable_pass :: "herd_env \<Rightarrow> string \<Rightarrow> inbox_entry list \<Rightarrow> herd_inbox \<Rightarrow> restart_op list
    \<Rightarrow> inbox_entry list \<times> herd_inbox \<times> restart_op list" where
  "deliverable_pass env orchId [] ib rs = ([], ib, rs)"
| "deliverable_pass env orchId (e # es) ib rs =
     (let drop_it = (\<lambda>w ib. recomputeInboxWatermarks (remove_entries (\<lambda>x. ie_seq x = ie_seq e) w (markDeliveryHistoryStatus StSuppressed e ib)))
      in if \<not> isCurrentWorkerReport (ie_event e) orchId (leader_board env orchId)
         then deliverable_pass env orchId es (drop_it ByStaleReport ib) rs
         else case getRestartPrepDeliveryPolicy (he_now env) orchId (ie_event e) rs of
             PolicyDeliver \<Rightarrow>
               (let (ds, ib', rs') = deliverable_pass env orchId es (change_entry (ie_seq e) (\<lambda>x. x\<lparr>ie_heldBy := None\<rparr>) ib) rs
                in (e\<lparr>ie_heldBy := None\<rparr> # ds, ib', rs'))
           | PolicyHold i \<Rightarrow>
               (if ie_heldBy e = None
                then deliverable_pass env orchId es
                  (markDeliveryHistoryStatus StHeld e (change_entry (ie_seq e) (\<lambda>x. x\<lparr>ie_heldBy := Some i\<rparr>) ib)) (count_held i rs)
                else deliverable_pass env orchId es ib rs)
           | PolicySuppress i \<Rightarrow> deliverable_pass env orchId es (drop_it ByRestart ib) (recordRestartPrepSuppressed i (ie_event e) rs))"

definition getDeliverablePendingEntries :: "herd_env \<Rightarrow> string \<Rightarrow> herd_inbox \<Rightarrow> restart_op list
    \<Rightarrow> inbox_entry list \<times> herd_inbox \<times> restart_op list" where
  "getDeliverablePendingEntries env orchId ib rs =
     (let (ds, ib', rs') = deliverable_pass env orchId (getPendingEntries ib) ib rs in (withRideAlongQuietEntries ds, ib', rs'))"

fun groupPendingEntriesByThread :: "inbox_entry list \<Rightarrow> (thread_route \<times> inbox_entry list) list" where
  "groupPendingEntriesByThread [] = []"
| "groupPendingEntriesByThread (e # es) = (case groupPendingEntriesByThread es of
       [] \<Rightarrow> [(ie_threadRoute e, [e])]
     | (r, g) # gs \<Rightarrow> if routeKey r = routeKey (ie_threadRoute e) then (ie_threadRoute e, e # g) # gs
                     else (ie_threadRoute e, [e]) # (r, g) # gs)"

section \<open>Delivery\<close>

datatype delivery_result = AllSent | TryAgain | WasDropped

record delivery_run =
  dv_inbox :: herd_inbox
  dv_env :: herd_env
  dv_events :: "takode_event list"
  dv_accepted :: "(inbox_entry \<times> delivery_stage \<times> string option) list"
  dv_effects :: "herd_effect list"

definition take_group :: "inbox_entry list \<Rightarrow> delivery_stage \<Rightarrow> string option \<Rightarrow> delivery_run \<Rightarrow> delivery_run" where
  "take_group es st ownerId r = r\<lparr>dv_events := dv_events r @ map ie_event es,
     dv_accepted := dv_accepted r @ map (\<lambda>e. (e, st, ownerId)) es,
     dv_inbox := (dv_inbox r)\<lparr>hi_injected := hi_injected (dv_inbox r) @ map ie_seq es\<rparr>\<rparr>"

text \<open>
  One round of the loop over the groups: the bridge answers the injection with a verdict, and \<open>env'\<close> is
  the environment after it. \<open>None\<close> means that the loop goes on.
\<close>

definition deliver_group :: "delivery \<times> herd_env \<Rightarrow> string \<Rightarrow> thread_route \<times> inbox_entry list \<Rightarrow> delivery_run \<Rightarrow> delivery_result option \<times> delivery_run" where
  "deliver_group answer orchId g r =
     (let (verdict, env') = answer; (route, es) = g;
          events = map ie_event es;
          batch = snapshotHerdBatch (he_compare (dv_env r)) events;
          earlier = snapshotHerdDeliveryOwners (he_session (dv_env r) orchId);
          ownerId = findHerdDeliveryOwnerId (he_session env' orchId) (batch_keys batch) earlier;
          r1 = r\<lparr>dv_env := env', dv_effects := dv_effects r @ [Injected orchId events route verdict]\<rparr>
      in if verdict = Dropped
         then (let (pruned, ib) = pruneStaleBoardStallEntries env' orchId (dv_inbox r1)
               in (if 0 < pruned then None else Some WasDropped, r1\<lparr>dv_inbox := ib\<rparr>))
         else if verdict = PausedQueued then (None, take_group es StQueued ownerId r1)
         else if verdict = QueuedDelivery \<and> \<not> isCodexLeader env' orchId \<and> \<not> he_preserving env' then (Some TryAgain, r1)
         else if verdict \<noteq> Sent \<and> verdict \<noteq> QueuedDelivery then (Some TryAgain, r1)
         else (None, take_group es (if verdict = QueuedDelivery then StQueued else StInFlight) ownerId r1))"

text \<open>The loop; \<open>answers k\<close> is the answer to the \<open>k\<close>-th injection, and a final \<open>None\<close> that the loop came to its end.\<close>

fun deliver_groups :: "(nat \<Rightarrow> delivery \<times> herd_env) \<Rightarrow> string \<Rightarrow> nat \<Rightarrow> (thread_route \<times> inbox_entry list) list
    \<Rightarrow> delivery_run \<Rightarrow> delivery_result option \<times> delivery_run" where
  "deliver_groups answers orchId k [] r = (None, r)"
| "deliver_groups answers orchId k (g # gs) r = (case deliver_group (answers k) orchId g r of
       (Some st, r') \<Rightarrow> (Some st, r')
     | (None, r') \<Rightarrow> deliver_groups answers orchId (Suc k) gs r')"

definition markEntriesAcceptedForDelivery :: "number \<Rightarrow> (inbox_entry \<times> delivery_stage \<times> string option) list \<Rightarrow> herd_inbox \<Rightarrow> herd_inbox" where
  "markEntriesAcceptedForDelivery now taken ib = foldl (\<lambda>ib (e, st, ownerId).
     update_note e (\<lambda>n. if dl_status n \<in> {StPending, StRedelivered, StHeld} then n\<lparr>dl_deliveredAt := Some now, dl_status := st\<rparr> else n)
       (change_entry (ie_seq e) (\<lambda>x. x\<lparr>ie_owner := Some ownerId\<rparr>) ib)) ib taken"

definition deliverPendingEntries :: "herd_env \<Rightarrow> (nat \<Rightarrow> delivery \<times> herd_env) \<Rightarrow> string \<Rightarrow> herd_inbox \<Rightarrow> inbox_entry list
    \<Rightarrow> delivery_result \<times> nat \<times> delivery_run" where
  "deliverPendingEntries env answers orchId ib pending =
     (case deliver_groups answers orchId 0 (groupPendingEntriesByThread pending)
          \<lparr>dv_inbox = ib, dv_env = env, dv_events = [], dv_accepted = [], dv_effects = []\<rparr> of
        (Some st, r) \<Rightarrow> (st, length (dv_events r), r)
      | (None, r) \<Rightarrow>
          if dv_accepted r = [] then (AllSent, 0, r)
          else (AllSent, length (dv_events r), r\<lparr>dv_inbox := recomputeInboxWatermarks
            (markEntriesAcceptedForDelivery (he_now (dv_env r)) (dv_accepted r)
              (rememberDeliveredEventKeys (dv_env r) (dv_events r)
                ((dv_inbox r)\<lparr>hi_lastEmittedMsgTo := updateLastEmittedMsgTo (hi_lastEmittedMsgTo (dv_inbox r)) (dv_events r)\<rparr>)))\<rparr>))"

section \<open>Confirmation\<close>

definition owned_by :: "string list option \<Rightarrow> inbox_entry \<Rightarrow> bool" where
  "owned_by ownerIds e \<longleftrightarrow> (case ie_owner e of None \<Rightarrow> False
     | Some ownerId \<Rightarrow> (case ownerIds of None \<Rightarrow> True
         | Some ids \<Rightarrow> (case ownerId of None \<Rightarrow> False | Some i \<Rightarrow> i \<in> set ids)))"

text \<open>Delivered entries become pending again.\<close>

definition reset_in_flight :: "herd_inbox \<Rightarrow> herd_inbox" where
  "reset_in_flight ib = ib\<lparr>hi_history := map (\<lambda>n. if dl_status n \<in> {StInFlight, StQueued} then n\<lparr>dl_status := StRedelivered\<rparr> else n) (hi_history ib),
     hi_entries := map (\<lambda>e. e\<lparr>ie_owner := None\<rparr>) (hi_entries ib)\<rparr>"

definition confirm_turn :: "string \<Rightarrow> string list option \<Rightarrow> herd_inbox \<Rightarrow> herd_inbox" where
  "confirm_turn reason ownerIds ib =
     (if hi_inFlightUpTo ib = None then ib
      else recomputeInboxWatermarks
        (if reason = ''result''
         then remove_entries (owned_by ownerIds) ByTurn (mark_all StConfirmed (filter (owned_by ownerIds) (hi_entries ib)) ib)
         else reset_in_flight ib))"

definition committed_entry :: "herd_env \<Rightarrow> event_key list \<Rightarrow> inbox_entry \<Rightarrow> bool" where
  "committed_entry env keys e \<longleftrightarrow> ie_owner e = None \<and> (case key_of env (ie_event e) of None \<Rightarrow> False | Some k \<Rightarrow> k \<in> set keys)"

definition confirmCommittedHerdHistory :: "herd_env \<Rightarrow> string \<Rightarrow> herd_inbox \<Rightarrow> herd_inbox" where
  "confirmCommittedHerdHistory env orchId ib =
     (let keys = getCommittedHerdEventKeys (leader_history env orchId);
          cs = filter (committed_entry env keys) (hi_entries ib)
      in if cs = [] then ib
         else let ib1 = recomputeInboxWatermarks (remove_entries (committed_entry env keys) ByHistory (mark_all StConfirmed cs ib));
                  ib2 = (if pendingCount ib1 = 0 then ib1\<lparr>hi_timer := None\<rparr> else ib1)
              in rememberDeliveredEventKeys env (map ie_event cs) ib2)"

section \<open>Acceptance\<close>

definition mergeEarlierHeldQuietTurn :: "herd_env \<Rightarrow> herd_inbox \<Rightarrow> takode_event \<Rightarrow> takode_event \<times> herd_inbox" where
  "mergeEarlierHeldQuietTurn env ib e =
     (if \<not> isHeldQuietTurn e then (e, ib)
      else case find (\<lambda>x. ie_owner x = None \<and> tv_sessionId (ie_event x) = tv_sessionId e \<and> isHeldQuietTurn (ie_event x)) (hi_entries ib) of
          None \<Rightarrow> (e, ib)
        | Some p \<Rightarrow> (mergeHeldQuietTurn (ie_event p) e,
            recomputeInboxWatermarks (rememberDeliveredEventKeys env [ie_event p]
              (markDeliveryHistoryStatus StMerged p (remove_entries (\<lambda>x. ie_seq x = ie_seq p) ByMerge ib)))))"

text \<open>The first entries that are not critical, at most \<open>n\<close> of them.\<close>

definition non_critical :: "nat \<Rightarrow> inbox_entry list \<Rightarrow> inbox_entry list" where
  "non_critical n es = take n (filter (\<lambda>e. \<not> critical (ie_event e)) es)"

definition cap_inbox :: "herd_inbox \<Rightarrow> herd_inbox" where
  "cap_inbox ib =
     (if length (hi_entries ib) \<le> INBOX_CAP then ib
      else let excess = length (hi_entries ib) - INBOX_CAP;
               victims = (if excess \<le> length (non_critical excess (hi_entries ib)) then non_critical excess (hi_entries ib)
                          else take excess (hi_entries ib))
           in recomputeInboxWatermarks (remove_entries (\<lambda>e. ie_seq e \<in> set (map ie_seq victims)) ByOverflow ib))"

definition push_entry :: "herd_env \<Rightarrow> takode_event \<Rightarrow> thread_route \<Rightarrow> string option \<Rightarrow> herd_inbox \<Rightarrow> herd_inbox" where
  "push_entry env e route heldBy ib =
     ib\<lparr>hi_nextSeq := Suc (hi_nextSeq ib),
        hi_entries := hi_entries ib @ [\<lparr>ie_event = e, ie_seq = hi_nextSeq ib, ie_threadRoute = route, ie_heldBy = heldBy, ie_owner = None\<rparr>],
        hi_history := last_n HISTORY_CAP (hi_history ib @ [\<lparr>dl_event = event_name (tv_data e), dl_sessionName = tv_sessionName e,
          dl_ts = tv_ts e, dl_deliveredAt = None, dl_status = (if heldBy = None then StPending else StHeld)\<rparr>]),
        hi_accepted := hi_accepted ib @ [(hi_nextSeq ib, e)]\<rparr>"

definition resolveEventThreadRoute :: "herd_env \<Rightarrow> takode_event \<Rightarrow> thread_route" where
  "resolveEventThreadRoute env e =
     (let fromEvent = (case threadRouteFromEvent e of Some r \<Rightarrow> Some r
            | None \<Rightarrow> inferActivityEventRouteFromHistory e (leader_history env (tv_sessionId e)));
          questId = (case he_launcherQuest env (tv_sessionId e) of Some q \<Rightarrow> Some q
            | None \<Rightarrow> Option.bind (he_session env (tv_sessionId e)) ld_claimedQuestId)
      in case fromEvent of
           Some r \<Rightarrow> if tr_threadKey r \<noteq> ''main'' then r
                     else (case quest_route questId of Some q \<Rightarrow> q | None \<Rightarrow> main_route)
         | None \<Rightarrow> (case quest_route questId of Some q \<Rightarrow> q | None \<Rightarrow> main_route))"

end
