(* ===== verification/Herd_Dispatcher.thy ===== *)
theory Herd_Dispatcher
  imports Herd_Inbox
begin

text \<open>
  The dispatcher of herd events (server/herd-event-dispatcher.ts): one inbox per leader, the
  subscriptions to the events of its workers, restart preparation, and the timers that deliver. A
  timer is the time it is due. The dispatcher's own subscriptions are modelled, in the order they
  were made; other subscribers do not change its state. What the idle state of a leader's group does
  is not modelled.
\<close>

section \<open>State\<close>

definition TAKODE_EVENT_LOG_LIMIT :: nat where "TAKODE_EVENT_LOG_LIMIT = 1000"

record herd_state =
  hd_inboxes :: "(string \<times> herd_inbox) list"
  hd_subscribers :: "(string \<times> string list) list"
  hd_eventLog :: "takode_event list"
  hd_nextEventId :: nat
  hd_restartOps :: "restart_op list"
  hd_releaseTimers :: "(string \<times> number) list"
  hd_cleanupTimers :: "(string \<times> number) list"
  hd_effects :: "herd_effect list"

definition new_dispatcher :: herd_state where
  "new_dispatcher = \<lparr>hd_inboxes = [], hd_subscribers = [], hd_eventLog = [], hd_nextEventId = 0, hd_restartOps = [],
     hd_releaseTimers = [], hd_cleanupTimers = [], hd_effects = []\<rparr>"

definition get_inbox :: "string \<Rightarrow> herd_state \<Rightarrow> herd_inbox option" where
  "get_inbox orchId s = map_of (hd_inboxes s) orchId"

definition put_inbox :: "string \<Rightarrow> herd_inbox \<Rightarrow> herd_state \<Rightarrow> herd_state" where
  "put_inbox orchId ib s = s\<lparr>hd_inboxes := AList.update orchId ib (hd_inboxes s)\<rparr>"

definition herd_log :: "herd_effect list \<Rightarrow> herd_state \<Rightarrow> herd_state" where
  "herd_log es s = s\<lparr>hd_effects := hd_effects s @ es\<rparr>"

section \<open>Subscriptions\<close>

definition setsEqual :: "string list \<Rightarrow> string list \<Rightarrow> bool" where
  "setsEqual a b \<longleftrightarrow> length a = length b \<and> list_all (\<lambda>v. v \<in> set b) a"

definition subscribe :: "string \<Rightarrow> string list \<Rightarrow> herd_state \<Rightarrow> herd_state" where
  "subscribe orchId workerIds s = s\<lparr>hd_subscribers := hd_subscribers s @ [(orchId, workerIds)]\<rparr>"

definition unsubscribe :: "string \<Rightarrow> herd_state \<Rightarrow> herd_state" where
  "unsubscribe orchId s = s\<lparr>hd_subscribers := filter (\<lambda>(i, ws). i \<noteq> orchId) (hd_subscribers s)\<rparr>"

definition teardownForOrchestrator :: "string \<Rightarrow> herd_state \<Rightarrow> herd_state" where
  "teardownForOrchestrator orchId s = (case get_inbox orchId s of None \<Rightarrow> s
     | Some ib \<Rightarrow> (unsubscribe orchId s)\<lparr>hd_inboxes := AList.delete orchId (hd_inboxes s)\<rparr>)"

definition maybeRetireInbox :: "string \<Rightarrow> herd_state \<Rightarrow> herd_state" where
  "maybeRetireInbox orchId s = (case get_inbox orchId s of None \<Rightarrow> s
     | Some ib \<Rightarrow> if hi_workerIds ib \<noteq> [] \<or> 0 < pendingCount ib \<or> hi_inFlightUpTo ib \<noteq> None \<or> hi_timer ib \<noteq> None then s
                  else teardownForOrchestrator orchId s)"

section \<open>Timers\<close>

definition start_timer :: "number \<Rightarrow> herd_env \<Rightarrow> string \<Rightarrow> herd_state \<Rightarrow> herd_state" where
  "start_timer delay env orchId s = (if he_stopping env then s else case get_inbox orchId s of None \<Rightarrow> s
     | Some ib \<Rightarrow> if hi_timer ib \<noteq> None then s else put_inbox orchId (ib\<lparr>hi_timer := Some (he_now env + delay)\<rparr>) s)"

definition scheduleDelivery :: "herd_env \<Rightarrow> string \<Rightarrow> herd_state \<Rightarrow> herd_state" where
  "scheduleDelivery = start_timer DEBOUNCE_MS"

definition scheduleRetry :: "herd_env \<Rightarrow> string \<Rightarrow> herd_state \<Rightarrow> herd_state" where
  "scheduleRetry = start_timer RETRY_MS"

text \<open>A leader that is not idle is woken or recovered; one that is busy is tried again later.\<close>

definition wake_or_retry :: "herd_env \<Rightarrow> string \<Rightarrow> herd_state \<Rightarrow> herd_state" where
  "wake_or_retry env orchId s =
     (if he_wakeIdleKilled env orchId then herd_log [WokeLeader orchId] s
      else if he_wakeUnavailable env orchId then herd_log [AskedRecovery orchId] s
      else scheduleRetry env orchId s)"

section \<open>Delivery\<close>

text \<open>Delivery to one leader: its inbox, and what is logged.\<close>

definition deliver_to :: "herd_env \<Rightarrow> (nat \<Rightarrow> delivery \<times> herd_env) \<Rightarrow> string \<Rightarrow> inbox_entry list \<Rightarrow> herd_inbox \<Rightarrow> herd_state
    \<Rightarrow> delivery_result \<times> nat \<times> herd_env \<times> herd_state" where
  "deliver_to env answers orchId pending ib s =
     (let (st, n, r) = deliverPendingEntries env answers orchId ib pending
      in (st, n, dv_env r, herd_log (dv_effects r) (put_inbox orchId (dv_inbox r) s)))"

definition flushInbox :: "herd_env \<Rightarrow> (nat \<Rightarrow> delivery \<times> herd_env) \<Rightarrow> string \<Rightarrow> herd_state \<Rightarrow> herd_state" where
  "flushInbox env answers orchId s = (if he_stopping env then s else case get_inbox orchId s of None \<Rightarrow> s
     | Some ib \<Rightarrow>
         let (pending, ib1, rs) = getDeliverablePendingEntries env orchId (snd (pruneStaleBoardStallEntries env orchId ib)) (hd_restartOps s);
             s1 = put_inbox orchId ib1 (s\<lparr>hd_restartOps := rs\<rparr>)
         in if pending = [] then maybeRetireInbox orchId s1
            else if he_hostOffline env orchId then s1
            else if \<not> he_idle env orchId then wake_or_retry env orchId s1
            else let (st, n, env', s2) = deliver_to env answers orchId pending ib1 s1
                 in if st = TryAgain then scheduleRetry env' orchId s2
                    else if st = WasDropped \<or> n = 0 then maybeRetireInbox orchId s2
                    else s2)"

definition forceFlushPendingEvents :: "herd_env \<Rightarrow> (nat \<Rightarrow> delivery \<times> herd_env) \<Rightarrow> string \<Rightarrow> number option \<Rightarrow> herd_state \<Rightarrow> nat \<times> herd_state" where
  "forceFlushPendingEvents env answers orchId cutoff s =
     (if he_stopping env \<or> he_hostOffline env orchId then (0, s) else case get_inbox orchId s of None \<Rightarrow> (0, s)
     | Some ib \<Rightarrow>
         let (deliverable, ib1, rs) = getDeliverablePendingEntries env orchId (snd (pruneStaleBoardStallEntries env orchId ib)) (hd_restartOps s);
             s1 = put_inbox orchId ib1 (s\<lparr>hd_restartOps := rs\<rparr>);
             pending = filter (\<lambda>e. case cutoff of None \<Rightarrow> True | Some t \<Rightarrow> tv_ts (ie_event e) \<le> t) deliverable
         in if pending = [] then (0, s1)
            else let (st, n, env', s2) = deliver_to env answers orchId pending ib1 s1
                 in if st = WasDropped
                    then (0, maybeRetireInbox orchId (case get_inbox orchId s2 of None \<Rightarrow> s2
                       | Some ib2 \<Rightarrow> put_inbox orchId (snd (pruneStaleBoardStallEntries env' orchId ib2)) s2))
                    else if st = TryAgain then (0, scheduleRetry env' orchId s2)
                    else (n, s2))"

definition onHostOnline :: "herd_env \<Rightarrow> string \<Rightarrow> herd_state \<Rightarrow> herd_state" where
  "onHostOnline env sid s = scheduleDelivery env sid s"

text \<open>The timer of an inbox runs out.\<close>

definition timer_fires :: "herd_env \<Rightarrow> (nat \<Rightarrow> delivery \<times> herd_env) \<Rightarrow> string \<Rightarrow> herd_state \<Rightarrow> herd_state" where
  "timer_fires env answers orchId s = (case get_inbox orchId s of None \<Rightarrow> s
     | Some ib \<Rightarrow> (case hi_timer ib of None \<Rightarrow> s
         | Some due \<Rightarrow> if he_now env < due then s else flushInbox env answers orchId (put_inbox orchId (ib\<lparr>hi_timer := None\<rparr>) s)))"

section \<open>Turns and disconnects of the leader\<close>

definition onOrchestratorTurnEnd :: "herd_env \<Rightarrow> (nat \<Rightarrow> delivery \<times> herd_env) \<Rightarrow> string \<Rightarrow> string \<Rightarrow> string list option \<Rightarrow> herd_state \<Rightarrow> herd_state" where
  "onOrchestratorTurnEnd env answers orchId reason completedOwnerIds s = (case get_inbox orchId s of None \<Rightarrow> s
     | Some ib \<Rightarrow>
         let ib1 = confirmCommittedHerdHistory env orchId (confirm_turn reason completedOwnerIds ib)
         in if 0 < pendingCount ib1 then flushInbox env answers orchId (put_inbox orchId (ib1\<lparr>hi_timer := None\<rparr>) s)
            else maybeRetireInbox orchId (put_inbox orchId ib1 s))"

definition onOrchestratorDisconnect :: "string \<Rightarrow> herd_state \<Rightarrow> herd_state" where
  "onOrchestratorDisconnect orchId s = (case get_inbox orchId s of None \<Rightarrow> s
     | Some ib \<Rightarrow>
         put_inbox orchId ((if hi_inFlightUpTo ib = None then ib else recomputeInboxWatermarks (reset_in_flight ib))\<lparr>hi_timer := None\<rparr>) s)"

section \<open>Herds\<close>

definition setupForOrchestrator :: "herd_env \<Rightarrow> string \<Rightarrow> herd_state \<Rightarrow> herd_state" where
  "setupForOrchestrator env orchId s =
     (let workerIds = remdups (he_herdedSessions env orchId)
      in case get_inbox orchId s of
           None \<Rightarrow> if workerIds = [] then s
                   else put_inbox orchId (new_inbox workerIds True) (subscribe orchId workerIds s)
         | Some ib \<Rightarrow>
             if workerIds = []
             then (let ib' = ib\<lparr>hi_subscribed := False, hi_workerIds := []\<rparr>; s' = put_inbox orchId ib' (unsubscribe orchId s)
                   in if 0 < pendingCount ib' \<and> he_idle env orchId then scheduleDelivery env orchId s' else maybeRetireInbox orchId s')
             else if setsEqual (hi_workerIds ib) workerIds then s
             else put_inbox orchId (ib\<lparr>hi_subscribed := True, hi_workerIds := workerIds\<rparr>) (subscribe orchId workerIds (unsubscribe orchId s)))"

definition ensureInboxForOrchestrator :: "herd_env \<Rightarrow> string \<Rightarrow> herd_state \<Rightarrow> herd_state" where
  "ensureInboxForOrchestrator env orchId s =
     (let workerIds = remdups (he_herdedSessions env orchId);
          resubscribe = (if workerIds = [] then (\<lambda>s. s) else subscribe orchId workerIds)
      in case get_inbox orchId s of
           None \<Rightarrow> put_inbox orchId (new_inbox workerIds (workerIds \<noteq> [])) (resubscribe s)
         | Some ib \<Rightarrow> if setsEqual (hi_workerIds ib) workerIds then s
             else put_inbox orchId (ib\<lparr>hi_subscribed := workerIds \<noteq> [], hi_workerIds := workerIds\<rparr>) (resubscribe (unsubscribe orchId s)))"

section \<open>Events of workers\<close>

text \<open>The part of \<open>onWorkerEvent\<close> after the checks: the event enters the inbox.\<close>

definition accept_event :: "herd_env \<Rightarrow> string \<Rightarrow> takode_event \<Rightarrow> string option \<Rightarrow> herd_inbox \<Rightarrow> herd_inbox" where
  "accept_event env orchId event heldBy ib =
     (let e1 = overrideQuietForBoardChange event (leader_board env orchId);
          (e2, ib1) = mergeEarlierHeldQuietTurn env ib e1
      in cap_inbox (push_entry env e2 (resolveEventThreadRoute env e2) heldBy ib1))"

definition isDuplicate :: "herd_env \<Rightarrow> takode_event \<Rightarrow> herd_inbox \<Rightarrow> bool" where
  "isDuplicate env event ib = (case key_of env event of None \<Rightarrow> False
     | Some k \<Rightarrow> map_of (hi_recentEventKeys ib) k \<noteq> None \<or> inboxHasEventKey env ib k)"

definition isCommitted :: "herd_env \<Rightarrow> string \<Rightarrow> takode_event \<Rightarrow> bool" where
  "isCommitted env orchId event = (case key_of env event of None \<Rightarrow> False
     | Some k \<Rightarrow> k \<in> set (getCommittedHerdEventKeys (leader_history env orchId)))"

definition concerns_leader :: "string \<Rightarrow> takode_event \<Rightarrow> bool" where
  "concerns_leader orchId event \<longleftrightarrow> event_name (tv_data event) \<in> set ACTIONABLE_EVENTS
     \<and> (case tv_data event of UserMessage agent q \<Rightarrow> truthy agent = None | _ \<Rightarrow> True)
     \<and> tv_actorSessionId event \<noteq> Some orchId"

definition remember_committed :: "herd_env \<Rightarrow> takode_event \<Rightarrow> herd_inbox \<Rightarrow> herd_inbox" where
  "remember_committed env event ib = (case key_of env event of None \<Rightarrow> ib | Some k \<Rightarrow> remember_key (he_now env) k ib)"

definition onWorkerEvent :: "herd_env \<Rightarrow> string \<Rightarrow> takode_event \<Rightarrow> herd_state \<Rightarrow> herd_state" where
  "onWorkerEvent env orchId event s = (if \<not> concerns_leader orchId event then s else case get_inbox orchId s of None \<Rightarrow> s
     | Some ib \<Rightarrow>
         (case getRestartPrepDeliveryPolicy (he_now env) orchId event (hd_restartOps s) of
            PolicySuppress i \<Rightarrow> s\<lparr>hd_restartOps := recordRestartPrepSuppressed i event (hd_restartOps s)\<rparr>
          | policy \<Rightarrow>
              if isDuplicate env event ib then s
              else if isCommitted env orchId event then put_inbox orchId (remember_committed env event ib) s
              else if isRoutineScribeEvent (he_isScribe env) event then s
              else let quiet = isHeldQuietTurn (overrideQuietForBoardChange event (leader_board env orchId));
                       heldBy = (case policy of PolicyHold i \<Rightarrow> Some i | _ \<Rightarrow> None);
                       s1 = put_inbox orchId (accept_event env orchId event heldBy ib)
                         (case heldBy of None \<Rightarrow> s | Some i \<Rightarrow> s\<lparr>hd_restartOps := count_held i (hd_restartOps s)\<rparr>)
                   in if heldBy \<noteq> None \<or> quiet \<or> he_stopping env \<or> he_hostOffline env orchId then s1
                      else if he_idle env orchId then scheduleDelivery env orchId s1
                      else wake_or_retry env orchId s1))"

definition new_event :: "herd_env \<Rightarrow> string \<Rightarrow> takode_data \<Rightarrow> string option \<Rightarrow> herd_state \<Rightarrow> takode_event" where
  "new_event env sid data' actor s = \<lparr>tv_id = hd_nextEventId s, tv_sessionId = sid,
     tv_sessionNum = (case he_sessionNum env sid of None \<Rightarrow> -1 | Some n \<Rightarrow> n),
     tv_sessionName = (case he_sessionName env sid of None \<Rightarrow> take 8 sid | Some n \<Rightarrow> n),
     tv_ts = he_now env, tv_actorSessionId = truthy actor, tv_data = data'\<rparr>"

definition log_event :: "takode_event \<Rightarrow> herd_state \<Rightarrow> herd_state" where
  "log_event e s = s\<lparr>hd_nextEventId := Suc (hd_nextEventId s), hd_eventLog := last_n TAKODE_EVENT_LOG_LIMIT (hd_eventLog s @ [e])\<rparr>"

definition emitTakodeEvent :: "herd_env \<Rightarrow> string \<Rightarrow> takode_data \<Rightarrow> string option \<Rightarrow> herd_state \<Rightarrow> herd_state" where
  "emitTakodeEvent env sid data' actor s =
     (let e = new_event env sid data' actor s
      in foldl (\<lambda>s (orchId, workerIds). if sid \<in> set workerIds then onWorkerEvent env orchId e s else s) (log_event e s) (hd_subscribers s))"

definition emitTakodeEventForOrchestrator :: "herd_env \<Rightarrow> string \<Rightarrow> string \<Rightarrow> takode_data \<Rightarrow> string option \<Rightarrow> herd_state \<Rightarrow> herd_state" where
  "emitTakodeEventForOrchestrator env orchId sid data' actor s =
     (let e = new_event env sid data' actor s
      in onWorkerEvent env orchId e (ensureInboxForOrchestrator env orchId (log_event e s)))"

section \<open>Restart preparation\<close>

definition beginRestartPrepOperation :: "herd_env \<Rightarrow> string \<Rightarrow> string \<Rightarrow> (string \<times> string) list \<Rightarrow> (string \<times> string) list \<Rightarrow> number \<Rightarrow> number option
    \<Rightarrow> herd_state \<Rightarrow> herd_state" where
  "beginRestartPrepOperation env i mode targets leaders timeoutMs ttl s =
     (let ttlMs = (case ttl of Some t \<Rightarrow> t | None \<Rightarrow> max (timeoutMs * 6) 60000);
          r = \<lparr>ro_id = i, ro_mode = mode, ro_startedAt = he_now env, ro_timeoutMs = timeoutMs, ro_suppressionTtlMs = ttlMs,
            ro_targets = remdups (map fst targets), ro_protectedLeaders = remdups (map fst leaders), ro_targetSummaries = targets,
            ro_leaderSummaries = leaders, ro_suppressed = 0, ro_held = 0, ro_blockers = [],
            ro_holdUntil = he_now env + timeoutMs, ro_suppressUntil = he_now env + ttlMs\<rparr>
      in s\<lparr>hd_restartOps := (if list_ex (\<lambda>x. ro_id x = i) (hd_restartOps s) then map (\<lambda>x. if ro_id x = i then r else x) (hd_restartOps s)
                             else hd_restartOps s @ [r]),
           hd_releaseTimers := hd_releaseTimers s @ [(i, he_now env + timeoutMs)],
           hd_cleanupTimers := hd_cleanupTimers s @ [(i, he_now env + ttlMs)]\<rparr>)"

definition updateRestartPrepUnresolvedBlockers :: "string \<Rightarrow> (string \<times> string) list \<Rightarrow> herd_state \<Rightarrow> herd_state" where
  "updateRestartPrepUnresolvedBlockers i blockers s =
     s\<lparr>hd_restartOps := map (\<lambda>r. if ro_id r = i then r\<lparr>ro_blockers := blockers\<rparr> else r) (hd_restartOps s)\<rparr>"

definition release_entries :: "string \<Rightarrow> herd_inbox \<Rightarrow> herd_inbox" where
  "release_entries i ib =
     (let held = filter (\<lambda>e. ie_heldBy e = Some i) (hi_entries ib)
      in mark_all StPending held (ib\<lparr>hi_entries := map (\<lambda>e. if ie_heldBy e = Some i then e\<lparr>ie_heldBy := None\<rparr> else e) (hi_entries ib)\<rparr>))"

definition release_leader :: "herd_env \<Rightarrow> string \<Rightarrow> string \<Rightarrow> herd_state \<Rightarrow> herd_state" where
  "release_leader env i orchId s = (case get_inbox orchId s of None \<Rightarrow> s
     | Some ib \<Rightarrow>
         let ib1 = release_entries i ib; s1 = put_inbox orchId ib1 s
         in if pendingCount ib1 = 0 then s1
            else if he_idle env orchId then scheduleDelivery env orchId s1
            else wake_or_retry env orchId s1)"

definition releaseHeldRestartPrepEvents :: "herd_env \<Rightarrow> string \<Rightarrow> herd_state \<Rightarrow> herd_state" where
  "releaseHeldRestartPrepEvents env i s = (case find (\<lambda>r. ro_id r = i) (hd_restartOps s) of None \<Rightarrow> s
     | Some r \<Rightarrow> foldl (\<lambda>s orchId. release_leader env i orchId s)
         (s\<lparr>hd_restartOps := map (\<lambda>r. if ro_id r = i then r\<lparr>ro_holdUntil := 0\<rparr> else r) (hd_restartOps s)\<rparr>) (ro_protectedLeaders r))"

text \<open>The two timers of an operation.\<close>

definition release_timer_fires :: "herd_env \<Rightarrow> string \<Rightarrow> number \<Rightarrow> herd_state \<Rightarrow> herd_state" where
  "release_timer_fires env i due s =
     (if (i, due) \<in> set (hd_releaseTimers s) \<and> due \<le> he_now env
      then releaseHeldRestartPrepEvents env i (s\<lparr>hd_releaseTimers := remove1 (i, due) (hd_releaseTimers s)\<rparr>) else s)"

definition cleanup_timer_fires :: "herd_env \<Rightarrow> string \<Rightarrow> number \<Rightarrow> herd_state \<Rightarrow> herd_state" where
  "cleanup_timer_fires env i due s =
     (if (i, due) \<in> set (hd_cleanupTimers s) \<and> due \<le> he_now env
      then s\<lparr>hd_cleanupTimers := remove1 (i, due) (hd_cleanupTimers s), hd_restartOps := filter (\<lambda>r. ro_id r \<noteq> i) (hd_restartOps s)\<rparr> else s)"

section \<open>Shutdown\<close>

text \<open>
  Buffered events become pending input of their leaders; the first leader whose events are not all
  taken ends the operation with an error.
\<close>

fun preserve_inboxes :: "(string \<Rightarrow> herd_env) \<Rightarrow> (string \<Rightarrow> nat \<Rightarrow> delivery \<times> herd_env) \<Rightarrow> string list \<Rightarrow> herd_state \<Rightarrow> (string + unit) \<times> herd_state" where
  "preserve_inboxes env answers [] s = (Inr (), s)"
| "preserve_inboxes env answers (orchId # rest) s = (case get_inbox orchId s of None \<Rightarrow> preserve_inboxes env answers rest s
     | Some ib \<Rightarrow>
         let ib1 = snd (pruneStaleBoardStallEntries (env orchId) orchId (ib\<lparr>hi_timer := None\<rparr>));
             pending = withRideAlongQuietEntries (getPendingEntries ib1);
             s1 = put_inbox orchId ib1 s
         in if pending = [] then preserve_inboxes env answers rest s1
            else let (st, n, env', s2) = deliver_to (env orchId) (answers orchId) orchId pending ib1 s1
                 in if st \<noteq> AllSent then (Inl orchId, s2) else preserve_inboxes env answers rest s2)"

definition preservePendingForShutdown :: "bool \<Rightarrow> (string \<Rightarrow> herd_env) \<Rightarrow> (string \<Rightarrow> nat \<Rightarrow> delivery \<times> herd_env) \<Rightarrow> herd_state \<Rightarrow> (string + unit) \<times> herd_state" where
  "preservePendingForShutdown stopping env answers s =
     (if \<not> stopping then (Inl ''Queue preservation requires shutdown'', s)
      else preserve_inboxes env answers (map fst (hd_inboxes s)) s)"

definition destroy_dispatcher :: "herd_state \<Rightarrow> herd_state" where
  "destroy_dispatcher s = (foldl (\<lambda>s orchId. teardownForOrchestrator orchId s) s (map fst (hd_inboxes s)))
     \<lparr>hd_restartOps := [], hd_releaseTimers := [], hd_cleanupTimers := []\<rparr>"

end
