(* ===== verification/Herd_Invariant.thy ===== *)
theory Herd_Invariant
  imports Herd_Dispatcher
begin

text \<open>
  The invariant of an inbox: every accepted event is in it or has left it for one recorded reason, its
  watermarks and bounds, and that no event is in it twice; and that every operation keeps it.
\<close>

section \<open>The invariant\<close>

text \<open>Why an entry may leave: a critical event leaves only after a turn, for space, or for a restart.\<close>

definition may_go :: "fate \<Rightarrow> takode_event \<Rightarrow> bool" where
  "may_go w e \<longleftrightarrow> (critical e \<longrightarrow> w = ByTurn \<or> w = ByOverflow \<or> w = ByRestart)"

definition accounted :: "herd_inbox \<Rightarrow> bool" where
  "accounted ib \<longleftrightarrow> sorted_wrt (<) (map ie_seq (hi_entries ib))
     \<and> map fst (hi_accepted ib) = [0..<hi_nextSeq ib]
     \<and> distinct (map fst (hi_gone ib))
     \<and> ie_seq ` set (hi_entries ib) \<inter> fst ` set (hi_gone ib) = {}
     \<and> ie_seq ` set (hi_entries ib) \<union> fst ` set (hi_gone ib) = {..<hi_nextSeq ib}"

definition justified :: "herd_inbox \<Rightarrow> bool" where
  "justified ib \<longleftrightarrow> (\<forall>e \<in> set (hi_entries ib). (ie_seq e, ie_event e) \<in> set (hi_accepted ib) \<and> (ie_owner e \<noteq> None \<longrightarrow> ie_seq e \<in> set (hi_injected ib)))
     \<and> (\<forall>(q, w) \<in> set (hi_gone ib). (w = ByTurn \<longrightarrow> q \<in> set (hi_injected ib)) \<and> (\<exists>e. (q, e) \<in> set (hi_accepted ib) \<and> may_go w e))"

definition keys_once :: "locale_compare \<Rightarrow> herd_inbox \<Rightarrow> bool" where
  "keys_once lc ib \<longleftrightarrow> (\<forall>e \<in> set (hi_entries ib). \<forall>e' \<in> set (hi_entries ib).
     getStableHerdEventKey lc (ie_event e) = getStableHerdEventKey lc (ie_event e') \<longrightarrow> getStableHerdEventKey lc (ie_event e) \<noteq> None
     \<longrightarrow> ie_seq e = ie_seq e')"

definition core_ok :: "locale_compare \<Rightarrow> herd_inbox \<Rightarrow> bool" where
  "core_ok lc ib \<longleftrightarrow> accounted ib \<and> justified ib \<and> keys_once lc ib"

definition marks_ok :: "herd_inbox \<Rightarrow> bool" where
  "marks_ok ib \<longleftrightarrow> hi_confirmedUpTo ib = lowest_seq (hi_entries ib) (hi_nextSeq ib) \<and> hi_inFlightUpTo ib = highest_in_flight (hi_entries ib)"

definition caps_ok :: "herd_inbox \<Rightarrow> bool" where
  "caps_ok ib \<longleftrightarrow> length (hi_entries ib) \<le> INBOX_CAP \<and> length (hi_history ib) \<le> HISTORY_CAP
     \<and> length (hi_recentEventKeys ib) \<le> RECENT_EVENT_DEDUPE_CAP"

definition inbox_ok :: "locale_compare \<Rightarrow> herd_inbox \<Rightarrow> bool" where
  "inbox_ok lc ib \<longleftrightarrow> core_ok lc ib \<and> marks_ok ib \<and> caps_ok ib"

section \<open>What the small updates leave alone\<close>

definition same_core :: "herd_inbox \<Rightarrow> herd_inbox \<Rightarrow> bool" where
  "same_core ib ib' \<longleftrightarrow> hi_entries ib' = hi_entries ib \<and> hi_nextSeq ib' = hi_nextSeq ib \<and> hi_accepted ib' = hi_accepted ib
     \<and> hi_injected ib' = hi_injected ib \<and> hi_gone ib' = hi_gone ib"

lemma core_cong: "same_core ib ib' \<Longrightarrow> core_ok lc ib' = core_ok lc ib"
  by (simp add: same_core_def core_ok_def accounted_def justified_def keys_once_def)

lemma same_core_refl [simp]: "same_core ib ib"
  by (simp add: same_core_def)

lemma same_core_trans: "same_core a b \<Longrightarrow> same_core b c \<Longrightarrow> same_core a c"
  by (simp add: same_core_def)

lemma same_core_fold: "(\<And>x ib. same_core ib (f ib x)) \<Longrightarrow> same_core ib (foldl f ib xs)"
  by (induction xs arbitrary: ib) (auto intro: same_core_trans)

lemma same_core_notes [simp]:
  "same_core ib (update_note e f ib)" "same_core ib (markDeliveryHistoryStatus st e ib)"
  "same_core ib (recomputeInboxWatermarks ib)" "same_core ib (remember_key now k ib)" "same_core ib (hi_timer_update g ib)"
  "same_core ib (hi_lastEmittedMsgTo_update h ib)" "same_core ib (remember_committed env ev ib)"
  by (simp_all add: same_core_def update_note_def markDeliveryHistoryStatus_def recomputeInboxWatermarks_def remember_key_def
      trimRecentEventKeys_def remember_committed_def split: option.splits)

lemma same_core_folds [simp]: "same_core ib (mark_all st es ib)" "same_core ib (rememberDeliveredEventKeys env evs ib)"
  unfolding mark_all_def rememberDeliveredEventKeys_def by (intro same_core_fold; simp split: option.splits)+

lemma same_core_fields:
  "same_core ib ib' \<Longrightarrow> hi_entries ib' = hi_entries ib" "same_core ib ib' \<Longrightarrow> hi_injected ib' = hi_injected ib"
  "same_core ib ib' \<Longrightarrow> hi_nextSeq ib' = hi_nextSeq ib" "same_core ib ib' \<Longrightarrow> hi_accepted ib' = hi_accepted ib"
  "same_core ib ib' \<Longrightarrow> hi_gone ib' = hi_gone ib"
  by (simp_all add: same_core_def)

lemmas notes_fields [simp] = same_core_notes [THEN same_core_fields(1)] same_core_notes [THEN same_core_fields(2)]
  same_core_notes [THEN same_core_fields(3)] same_core_notes [THEN same_core_fields(4)] same_core_notes [THEN same_core_fields(5)]
  same_core_folds [THEN same_core_fields(1)] same_core_folds [THEN same_core_fields(2)]
  same_core_folds [THEN same_core_fields(3)] same_core_folds [THEN same_core_fields(4)] same_core_folds [THEN same_core_fields(5)]

lemmas notes_core [simp] = same_core_notes [THEN core_cong] same_core_folds [THEN core_cong]

lemma remove_entries_fields [simp]:
  "hi_entries (remove_entries P w ib) = filter (\<lambda>e. \<not> P e) (hi_entries ib)"
  "hi_nextSeq (remove_entries P w ib) = hi_nextSeq ib" "hi_accepted (remove_entries P w ib) = hi_accepted ib"
  "hi_injected (remove_entries P w ib) = hi_injected ib" "hi_timer (remove_entries P w ib) = hi_timer ib"
  "hi_gone (remove_entries P w ib) = hi_gone ib @ map (\<lambda>e. (ie_seq e, w)) (filter P (hi_entries ib))"
  "hi_workerIds (remove_entries P w ib) = hi_workerIds ib"
  "hi_history (remove_entries P w ib) = hi_history ib" "hi_recentEventKeys (remove_entries P w ib) = hi_recentEventKeys ib"
  by (simp_all add: remove_entries_def)

section \<open>The elementary changes keep the core\<close>

lemma entry_inj: "accounted ib \<Longrightarrow> e \<in> set (hi_entries ib) \<Longrightarrow> e' \<in> set (hi_entries ib) \<Longrightarrow> ie_seq e = ie_seq e' \<Longrightarrow> e = e'"
  by (metis accounted_def distinct_map inj_on_def strict_sorted_iff)

lemma distinct_seqs: "accounted ib \<Longrightarrow> distinct (map ie_seq (hi_entries ib))"
  by (simp add: accounted_def strict_sorted_iff)

lemma accounted_cong:
  assumes "map ie_seq (hi_entries ib') = map ie_seq (hi_entries ib)" "hi_nextSeq ib' = hi_nextSeq ib"
    "hi_accepted ib' = hi_accepted ib" "hi_gone ib' = hi_gone ib"
  shows "accounted ib' = accounted ib"
proof -
  have "ie_seq ` set (hi_entries ib') = ie_seq ` set (hi_entries ib)" using assms(1) by (metis list.set_map)
  then show ?thesis unfolding accounted_def assms by simp
qed

lemma keys_onceD: "keys_once lc ib \<Longrightarrow> e \<in> set (hi_entries ib) \<Longrightarrow> e' \<in> set (hi_entries ib)
    \<Longrightarrow> getStableHerdEventKey lc (ie_event e) = Some k \<Longrightarrow> getStableHerdEventKey lc (ie_event e') = Some k \<Longrightarrow> ie_seq e = ie_seq e'"
  unfolding keys_once_def by (metis option.distinct(1))

lemma keys_onceI:
  assumes "\<And>e e' k. e \<in> set (hi_entries ib) \<Longrightarrow> e' \<in> set (hi_entries ib)
    \<Longrightarrow> getStableHerdEventKey lc (ie_event e) = Some k \<Longrightarrow> getStableHerdEventKey lc (ie_event e') = Some k \<Longrightarrow> ie_seq e = ie_seq e'"
  shows "keys_once lc ib"
  unfolding keys_once_def using assms by (metis option.exhaust)

lemma keys_once_fewer: "keys_once lc ib \<Longrightarrow> set (hi_entries ib') \<subseteq> set (hi_entries ib) \<Longrightarrow> keys_once lc ib'"
  by (rule keys_onceI) (meson keys_onceD subsetD)

lemma justified_entry: "justified ib \<Longrightarrow> e \<in> set (hi_entries ib)
    \<Longrightarrow> (ie_seq e, ie_event e) \<in> set (hi_accepted ib) \<and> (ie_owner e \<noteq> None \<longrightarrow> ie_seq e \<in> set (hi_injected ib))"
  unfolding justified_def by blast

lemma justified_gone: "justified ib \<Longrightarrow> (q, w) \<in> set (hi_gone ib)
    \<Longrightarrow> (w = ByTurn \<longrightarrow> q \<in> set (hi_injected ib)) \<and> (\<exists>e. (q, e) \<in> set (hi_accepted ib) \<and> may_go w e)"
  unfolding justified_def by blast

lemma justifiedI:
  assumes "\<And>e. e \<in> set (hi_entries ib) \<Longrightarrow> (ie_seq e, ie_event e) \<in> set (hi_accepted ib)"
    "\<And>e. e \<in> set (hi_entries ib) \<Longrightarrow> ie_owner e \<noteq> None \<Longrightarrow> ie_seq e \<in> set (hi_injected ib)"
    "\<And>q. (q, ByTurn) \<in> set (hi_gone ib) \<Longrightarrow> q \<in> set (hi_injected ib)"
    "\<And>q w. (q, w) \<in> set (hi_gone ib) \<Longrightarrow> \<exists>e. (q, e) \<in> set (hi_accepted ib) \<and> may_go w e"
  shows "justified ib"
  unfolding justified_def using assms by blast

lemma remove_ok:
  assumes "core_ok lc ib"
    and "\<And>e. e \<in> set (hi_entries ib) \<Longrightarrow> P e \<Longrightarrow> may_go w (ie_event e) \<and> (w = ByTurn \<longrightarrow> ie_owner e \<noteq> None)"
  shows "core_ok lc (remove_entries P w ib)"
proof -
  have a: "accounted ib" and j: "justified ib" and k: "keys_once lc ib" using assms(1) by (auto simp: core_ok_def)
  define R where "R = ie_seq ` {e \<in> set (hi_entries ib). P e}"
  define K where "K = ie_seq ` {e \<in> set (hi_entries ib). \<not> P e}"
  have s: "ie_seq ` set (hi_entries ib) = K \<union> R" unfolding K_def R_def by blast
  have d: "K \<inter> R = {}" using entry_inj [OF a] unfolding K_def R_def by blast
  have g: "fst ` set (hi_gone (remove_entries P w ib)) = fst ` set (hi_gone ib) \<union> R"
    by (simp add: R_def image_Un image_image)
  have e: "ie_seq ` set (hi_entries (remove_entries P w ib)) = K" by (simp add: K_def)
  have "sorted_wrt (<) (map ie_seq (filter (\<lambda>e. \<not> P e) (hi_entries ib)))"
    using a by (auto simp: accounted_def sorted_wrt_map intro: sorted_wrt_filter)
  moreover have "distinct (map ie_seq (filter P (hi_entries ib)))" using distinct_seqs [OF a] by (rule distinct_map_filter)
  then have "distinct (map fst (hi_gone (remove_entries P w ib)))"
    using a s by (auto simp: accounted_def comp_def)
  ultimately have "accounted (remove_entries P w ib)"
    using a d unfolding accounted_def g e s by auto
  moreover have "justified (remove_entries P w ib)"
  proof (rule justifiedI)
    fix q v assume "(q, v) \<in> set (hi_gone (remove_entries P w ib))"
    then consider "(q, v) \<in> set (hi_gone ib)" | e where "e \<in> set (hi_entries ib)" "P e" "q = ie_seq e" "v = w" by auto
    then show "\<exists>e. (q, e) \<in> set (hi_accepted (remove_entries P w ib)) \<and> may_go v e"
    proof cases
      case 1
      then show ?thesis using justified_gone [OF j] by simp
    next
      case 2
      then show ?thesis using justified_entry [OF j 2(1)] assms(2) [OF 2(1,2)] by auto
    qed
  next
    fix q assume "(q, ByTurn) \<in> set (hi_gone (remove_entries P w ib))"
    then consider "(q, ByTurn) \<in> set (hi_gone ib)" | e where "e \<in> set (hi_entries ib)" "P e" "q = ie_seq e" "w = ByTurn" by auto
    then show "q \<in> set (hi_injected (remove_entries P w ib))"
    proof cases
      case 1
      then show ?thesis using justified_gone [OF j 1] by simp
    next
      case 2
      then show ?thesis using justified_entry [OF j 2(1)] assms(2) [OF 2(1,2)] by simp
    qed
  next
    fix e assume "e \<in> set (hi_entries (remove_entries P w ib))"
    then have e: "e \<in> set (hi_entries ib)" by simp
    show "(ie_seq e, ie_event e) \<in> set (hi_accepted (remove_entries P w ib))" using justified_entry [OF j e] by simp
    show "ie_owner e \<noteq> None \<Longrightarrow> ie_seq e \<in> set (hi_injected (remove_entries P w ib))" using justified_entry [OF j e] by simp
  qed
  moreover have "keys_once lc (remove_entries P w ib)"
    by (rule keys_once_fewer [OF k]) auto
  ultimately show ?thesis by (simp add: core_ok_def)
qed

text \<open>Changing other fields of entries than number and event.\<close>

lemma map_entries_ok:
  assumes "core_ok lc ib" "hi_entries ib' = map f (hi_entries ib)" "hi_nextSeq ib' = hi_nextSeq ib" "hi_accepted ib' = hi_accepted ib"
    "hi_injected ib' = hi_injected ib" "hi_gone ib' = hi_gone ib"
    and f: "\<And>e. ie_seq (f e) = ie_seq e \<and> ie_event (f e) = ie_event e \<and> (ie_owner (f e) \<noteq> None \<longrightarrow> ie_owner e \<noteq> None \<or> ie_seq e \<in> set (hi_injected ib))"
  shows "core_ok lc ib'"
proof -
  have "map ie_seq (hi_entries ib') = map ie_seq (hi_entries ib)" using f by (simp add: assms(2))
  then have "accounted ib'" using assms(1) accounted_cong [OF _ assms(3,4,6)] by (simp add: core_ok_def)
  moreover have j: "justified ib" using assms(1) by (simp add: core_ok_def)
  have "justified ib'"
  proof (rule justifiedI)
    fix e assume "e \<in> set (hi_entries ib')"
    then obtain x where x: "x \<in> set (hi_entries ib)" "e = f x" unfolding assms(2) by auto
    show "(ie_seq e, ie_event e) \<in> set (hi_accepted ib')" using justified_entry [OF j x(1)] f x(2) assms(4) by simp
    show "ie_owner e \<noteq> None \<Longrightarrow> ie_seq e \<in> set (hi_injected ib')" using justified_entry [OF j x(1)] f [of x] x(2) assms(5) by auto
  next
    show "(q, ByTurn) \<in> set (hi_gone ib') \<Longrightarrow> q \<in> set (hi_injected ib')" for q using justified_gone [OF j] assms(5,6) by auto
    show "(q, w) \<in> set (hi_gone ib') \<Longrightarrow> \<exists>e. (q, e) \<in> set (hi_accepted ib') \<and> may_go w e" for q w
      using justified_gone [OF j] assms(4,6) by auto
  qed
  moreover have "keys_once lc ib'"
  proof (rule keys_onceI)
    fix e e' k assume e: "e \<in> set (hi_entries ib')" "e' \<in> set (hi_entries ib')"
      "getStableHerdEventKey lc (ie_event e) = Some k" "getStableHerdEventKey lc (ie_event e') = Some k"
    then obtain x x' where "x \<in> set (hi_entries ib)" "e = f x" "x' \<in> set (hi_entries ib)" "e' = f x'" unfolding assms(2) by auto
    then show "ie_seq e = ie_seq e'" using keys_onceD [of lc ib x x' k] assms(1) e(3,4) f by (simp add: core_ok_def)
  qed
  ultimately show ?thesis by (simp add: core_ok_def)
qed

lemma change_entry_ok:
  assumes "core_ok lc ib" "\<And>e. ie_seq (f e) = ie_seq e \<and> ie_event (f e) = ie_event e"
    "\<And>e. ie_owner (f e) \<noteq> None \<Longrightarrow> ie_owner e \<noteq> None \<or> q \<in> set (hi_injected ib)"
  shows "core_ok lc (change_entry q f ib)"
  by (rule map_entries_ok [OF assms(1), of _ "\<lambda>e. if ie_seq e = q then f e else e"]) (use assms(2,3) in \<open>auto simp: change_entry_def\<close>)

lemma change_entry_fields [simp]:
  "hi_nextSeq (change_entry q f ib) = hi_nextSeq ib" "hi_injected (change_entry q f ib) = hi_injected ib"
  "hi_gone (change_entry q f ib) = hi_gone ib" "hi_accepted (change_entry q f ib) = hi_accepted ib"
  "hi_entries (change_entry q f ib) = map (\<lambda>e. if ie_seq e = q then f e else e) (hi_entries ib)"
  by (simp_all add: change_entry_def)

lemma inject_ok:
  assumes "core_ok lc ib"
  shows "core_ok lc (ib\<lparr>hi_injected := hi_injected ib @ qs\<rparr>)"
proof -
  have j: "justified ib" using assms by (simp add: core_ok_def)
  have "justified (ib\<lparr>hi_injected := hi_injected ib @ qs\<rparr>)"
  proof (rule justifiedI)
    show "(q, ByTurn) \<in> set (hi_gone (ib\<lparr>hi_injected := hi_injected ib @ qs\<rparr>)) \<Longrightarrow> q \<in> set (hi_injected (ib\<lparr>hi_injected := hi_injected ib @ qs\<rparr>))" for q
      using justified_gone [OF j, of q ByTurn] by simp
    show "(q, w) \<in> set (hi_gone (ib\<lparr>hi_injected := hi_injected ib @ qs\<rparr>)) \<Longrightarrow> \<exists>x. (q, x) \<in> set (hi_accepted (ib\<lparr>hi_injected := hi_injected ib @ qs\<rparr>)) \<and> may_go w x" for q w
      using justified_gone [OF j, of q w] by simp
  next
    fix e assume "e \<in> set (hi_entries (ib\<lparr>hi_injected := hi_injected ib @ qs\<rparr>))"
    then have e: "e \<in> set (hi_entries ib)" by simp
    show "(ie_seq e, ie_event e) \<in> set (hi_accepted (ib\<lparr>hi_injected := hi_injected ib @ qs\<rparr>))" using justified_entry [OF j e] by simp
    show "ie_owner e \<noteq> None \<Longrightarrow> ie_seq e \<in> set (hi_injected (ib\<lparr>hi_injected := hi_injected ib @ qs\<rparr>))" using justified_entry [OF j e] by simp
  qed
  moreover have "accounted (ib\<lparr>hi_injected := hi_injected ib @ qs\<rparr>)"
    using assms by (subst accounted_cong [of _ ib]) (simp_all add: core_ok_def)
  moreover have "keys_once lc (ib\<lparr>hi_injected := hi_injected ib @ qs\<rparr>)"
    by (rule keys_once_fewer [of lc ib]) (use assms in \<open>auto simp: core_ok_def\<close>)
  ultimately show ?thesis by (simp add: core_ok_def)
qed

lemma push_ok:
  assumes "core_ok lc ib" "\<And>x. x \<in> set (hi_entries ib) \<Longrightarrow> getStableHerdEventKey lc e \<noteq> None \<Longrightarrow> getStableHerdEventKey lc (ie_event x) \<noteq> getStableHerdEventKey lc e"
  shows "core_ok lc (push_entry env e route heldBy ib)"
proof -
  have a: "accounted ib" and j: "justified ib" and k: "keys_once lc ib" using assms(1) by (auto simp: core_ok_def)
  have l: "ie_seq x < hi_nextSeq ib" if "x \<in> set (hi_entries ib)" for x using a that by (auto simp: accounted_def)
  have g: "fst p < hi_nextSeq ib" if "p \<in> set (hi_gone ib)" for p using a that by (auto simp: accounted_def)
  have "accounted (push_entry env e route heldBy ib)"
    using a l g unfolding accounted_def push_entry_def by (auto simp: sorted_wrt_append lessThan_Suc)
  moreover have "justified (push_entry env e route heldBy ib)"
  proof (rule justifiedI)
    show "(q, ByTurn) \<in> set (hi_gone (push_entry env e route heldBy ib)) \<Longrightarrow> q \<in> set (hi_injected (push_entry env e route heldBy ib))" for q
      using justified_gone [OF j, of q ByTurn] by (simp add: push_entry_def)
    show "\<exists>x. (q, x) \<in> set (hi_accepted (push_entry env e route heldBy ib)) \<and> may_go w x" if "(q, w) \<in> set (hi_gone (push_entry env e route heldBy ib))" for q w
    proof -
      have "(q, w) \<in> set (hi_gone ib)" using that by (simp add: push_entry_def)
      from justified_gone [OF j this] obtain x where "(q, x) \<in> set (hi_accepted ib)" "may_go w x" by blast
      then show ?thesis by (intro exI [of _ x]) (simp add: push_entry_def)
    qed
  next
    fix x assume "x \<in> set (hi_entries (push_entry env e route heldBy ib))"
    then consider "x \<in> set (hi_entries ib)" | "ie_seq x = hi_nextSeq ib" "ie_event x = e" "ie_owner x = None" by (auto simp: push_entry_def)
    note x = this
    show "(ie_seq x, ie_event x) \<in> set (hi_accepted (push_entry env e route heldBy ib))"
      using x by cases (use justified_entry [OF j, of x] in \<open>simp_all add: push_entry_def\<close>)
    show "ie_owner x \<noteq> None \<Longrightarrow> ie_seq x \<in> set (hi_injected (push_entry env e route heldBy ib))"
      using x by cases (use justified_entry [OF j, of x] in \<open>simp_all add: push_entry_def\<close>)
  qed
  moreover have "keys_once lc (push_entry env e route heldBy ib)"
  proof (rule keys_onceI)
    fix x y q assume x: "x \<in> set (hi_entries (push_entry env e route heldBy ib))" "y \<in> set (hi_entries (push_entry env e route heldBy ib))"
      "getStableHerdEventKey lc (ie_event x) = Some q" "getStableHerdEventKey lc (ie_event y) = Some q"
    have "z \<in> set (hi_entries ib) \<or> ie_event z = e \<and> ie_seq z = hi_nextSeq ib" if "z \<in> set (hi_entries (push_entry env e route heldBy ib))" for z
      using that by (auto simp: push_entry_def)
    then show "ie_seq x = ie_seq y" using x keys_onceD [OF k, of x y q] assms(2) by (metis option.distinct(1))
  qed
  ultimately show ?thesis by (simp add: core_ok_def)
qed

lemma new_inbox_ok: "inbox_ok lc (new_inbox ws b)"
  by (simp add: inbox_ok_def core_ok_def accounted_def justified_def keys_once_def marks_ok_def lowest_seq_def highest_in_flight_def caps_ok_def new_inbox_def)

section \<open>Watermarks and bounds\<close>

definition framed :: "herd_inbox \<Rightarrow> herd_inbox \<Rightarrow> bool" where
  "framed ib ib' \<longleftrightarrow> same_core ib ib' \<and> hi_confirmedUpTo ib' = hi_confirmedUpTo ib \<and> hi_inFlightUpTo ib' = hi_inFlightUpTo ib
     \<and> length (hi_history ib') = length (hi_history ib)
     \<and> (length (hi_recentEventKeys ib) \<le> RECENT_EVENT_DEDUPE_CAP \<longrightarrow> length (hi_recentEventKeys ib') \<le> RECENT_EVENT_DEDUPE_CAP)"

lemma framed_refl [simp]: "framed ib ib"
  by (simp add: framed_def)

lemma framed_trans: "framed a b \<Longrightarrow> framed b c \<Longrightarrow> framed a c"
  by (simp add: framed_def same_core_def)

lemma framed_fold: "(\<And>x ib. framed ib (f ib x)) \<Longrightarrow> framed ib (foldl f ib xs)"
  by (induction xs arbitrary: ib) (auto intro: framed_trans)

lemma length_update_first [simp]: "length (update_first P f xs) = length xs"
  by (induction xs) auto

lemma diff_diff_le: "n - (n - c) \<le> (c::nat)"
  by arith

lemma framed_notes [simp]:
  "framed ib (update_note e f ib)" "framed ib (markDeliveryHistoryStatus st e ib)" "framed ib (remember_key now k ib)"
  "framed ib (hi_timer_update g ib)" "framed ib (hi_lastEmittedMsgTo_update h ib)" "framed ib (remember_committed env ev ib)"
  "framed ib (hi_workerIds_update w ib)" "framed ib (hi_subscribed_update w' ib)"
  by (simp_all add: framed_def same_core_def update_note_def markDeliveryHistoryStatus_def remember_key_def trimRecentEventKeys_def
      remember_committed_def last_n_def diff_diff_le split: option.splits)

lemma framed_folds [simp]: "framed ib (mark_all st es ib)" "framed ib (rememberDeliveredEventKeys env evs ib)"
  unfolding mark_all_def rememberDeliveredEventKeys_def by (intro framed_fold; simp split: option.splits)+

lemma framed_core: "framed ib ib' \<Longrightarrow> core_ok lc ib' = core_ok lc ib"
  by (simp add: framed_def core_cong)

lemma framed_caps: "framed ib ib' \<Longrightarrow> caps_ok ib \<Longrightarrow> caps_ok ib'"
  by (simp add: framed_def same_core_def caps_ok_def)

lemma framed_marks: "framed ib ib' \<Longrightarrow> marks_ok ib' = marks_ok ib"
  by (simp add: framed_def same_core_def marks_ok_def)

lemma framed_ok: "framed ib ib' \<Longrightarrow> inbox_ok lc ib \<Longrightarrow> inbox_ok lc ib'"
  using framed_core [of ib ib' lc] framed_caps [of ib ib'] framed_marks [of ib ib'] by (simp add: inbox_ok_def)

lemma framed_fields: "framed ib ib' \<Longrightarrow> hi_entries ib' = hi_entries ib \<and> hi_gone ib' = hi_gone ib \<and> hi_accepted ib' = hi_accepted ib
    \<and> hi_injected ib' = hi_injected ib \<and> hi_nextSeq ib' = hi_nextSeq ib"
  by (simp add: framed_def same_core_def)

lemma recompute_ok: "core_ok lc ib \<Longrightarrow> caps_ok ib \<Longrightarrow> inbox_ok lc (recomputeInboxWatermarks ib)"
  by (simp add: inbox_ok_def) (simp add: marks_ok_def caps_ok_def recomputeInboxWatermarks_def)

lemma inbox_okD: "inbox_ok lc ib \<Longrightarrow> core_ok lc ib" "inbox_ok lc ib \<Longrightarrow> caps_ok ib" "inbox_ok lc ib \<Longrightarrow> marks_ok ib"
    "inbox_ok lc ib \<Longrightarrow> accounted ib"
  by (simp_all add: inbox_ok_def core_ok_def)

lemma caps_remove: "caps_ok ib \<Longrightarrow> caps_ok (remove_entries P w ib)"
  by (simp add: caps_ok_def) (meson le_trans length_filter_le)

lemma caps_change_entry: "caps_ok ib \<Longrightarrow> caps_ok (change_entry q f ib)"
  by (simp add: caps_ok_def change_entry_def)

lemma highest_None: "highest_in_flight es = None \<longleftrightarrow> filter (\<lambda>e. ie_owner e \<noteq> None) es = []"
  unfolding highest_in_flight_def by (cases "filter (\<lambda>e. ie_owner e \<noteq> None) es") (simp_all only: list.map list.case simp_thms option.distinct list.distinct)

lemma no_owner: "marks_ok ib \<Longrightarrow> hi_inFlightUpTo ib = None \<longleftrightarrow> (\<forall>e \<in> set (hi_entries ib). ie_owner e = None)"
  by (simp add: marks_ok_def highest_None filter_empty_conv del: not_None_eq)

lemma accepted_unique: "accounted ib \<Longrightarrow> (q, a) \<in> set (hi_accepted ib) \<Longrightarrow> (q, b) \<in> set (hi_accepted ib) \<Longrightarrow> a = b"
  unfolding accounted_def by (metis distinct_upt eq_key_imp_eq_value)

lemma critical_cases: "critical e \<Longrightarrow> (\<exists>q. tv_data e = PermissionRequest q) \<or> tv_data e = SessionError"
  by (cases "tv_data e") (simp_all add: critical_def CRITICAL_EVENTS_def)

lemma not_critical:
  "critical e \<Longrightarrow> getStableHerdEventKey lc e = None" "critical e \<Longrightarrow> \<not> isHeldQuietTurn e"
  "critical e \<Longrightarrow> isCurrentWorkerReport e i b" "critical (ie_event x) \<Longrightarrow> board_entry_current env r i x"
  by (auto dest!: critical_cases simp: getStableHerdEventKey_def isHeldQuietTurn_def isCurrentWorkerReport_def board_entry_current_def)

section \<open>Operations on one inbox\<close>

lemma mark_ok: "inbox_ok lc ib \<Longrightarrow> inbox_ok lc (mark_all st es ib)"
  by (rule framed_ok [OF framed_folds(1)])

lemma remove_recompute_ok:
  assumes "inbox_ok lc ib"
    and "\<And>e. e \<in> set (hi_entries ib) \<Longrightarrow> P e \<Longrightarrow> may_go w (ie_event e) \<and> (w = ByTurn \<longrightarrow> ie_owner e \<noteq> None)"
  shows "inbox_ok lc (recomputeInboxWatermarks (remove_entries P w ib))"
proof (rule recompute_ok)
  show "core_ok lc (remove_entries P w ib)" by (rule remove_ok [OF inbox_okD(1) [OF assms(1)] assms(2)])
  show "caps_ok (remove_entries P w ib)" by (rule caps_remove [OF inbox_okD(2) [OF assms(1)]])
qed

lemma prune_ok:
  assumes "inbox_ok lc ib"
  shows "inbox_ok lc (snd (pruneStaleBoardStallEntries env orchId ib))"
proof (cases "he_boardRow env")
  case (Some r)
  define es where "es = filter (\<lambda>e. \<not> board_entry_current env r orchId e) (hi_entries ib)"
  have "inbox_ok lc (recomputeInboxWatermarks (remove_entries (\<lambda>e. \<not> board_entry_current env r orchId e) ByStaleBoard (mark_all StSuppressed es ib)))"
    by (rule remove_recompute_ok [OF mark_ok [OF assms]]) (auto simp: may_go_def dest: not_critical(4))
  then show ?thesis using Some assms by (simp add: pruneStaleBoardStallEntries_def Let_def es_def)
qed (simp add: pruneStaleBoardStallEntries_def assms)

lemma prune_fields [simp]:
  "hi_injected (snd (pruneStaleBoardStallEntries env orchId ib)) = hi_injected ib"
  "hi_accepted (snd (pruneStaleBoardStallEntries env orchId ib)) = hi_accepted ib"
  "hi_nextSeq (snd (pruneStaleBoardStallEntries env orchId ib)) = hi_nextSeq ib"
  by (simp_all add: pruneStaleBoardStallEntries_def Let_def split: option.splits)

lemma drop_ok:
  assumes "inbox_ok lc ib" "(ie_seq e, ie_event e) \<in> set (hi_accepted ib)" "may_go w (ie_event e)" "w \<noteq> ByTurn"
  shows "inbox_ok lc (recomputeInboxWatermarks (remove_entries (\<lambda>x. ie_seq x = ie_seq e) w (markDeliveryHistoryStatus st e ib)))"
proof (rule remove_recompute_ok [OF framed_ok [OF framed_notes(2) assms(1)]])
  have j: "justified ib" using assms(1) by (simp add: inbox_ok_def core_ok_def)
  fix x assume "x \<in> set (hi_entries (markDeliveryHistoryStatus st e ib))" "ie_seq x = ie_seq e"
  then have "ie_event x = ie_event e"
    using accepted_unique [OF inbox_okD(4) [OF assms(1)] assms(2)] justified_entry [OF j, of x] by (metis notes_fields(2))
  then show "may_go w (ie_event x) \<and> (w = ByTurn \<longrightarrow> ie_owner x \<noteq> None)" using assms(3,4) by simp
qed

lemma set_field_ok:
  assumes "inbox_ok lc ib" "\<And>e. ie_seq (f e) = ie_seq e \<and> ie_event (f e) = ie_event e \<and> ie_owner (f e) = ie_owner e"
  shows "inbox_ok lc (change_entry q f ib)"
proof -
  have "map ie_seq (filter (\<lambda>e. ie_owner e \<noteq> None) (map (\<lambda>e. if ie_seq e = q then f e else e) es)) = map ie_seq (filter (\<lambda>e. ie_owner e \<noteq> None) es)" for es
    by (induction es) (use assms(2) in auto)
  moreover have "map ie_seq (map (\<lambda>e. if ie_seq e = q then f e else e) es) = map ie_seq es" for es using assms(2) by simp
  ultimately have "marks_ok (change_entry q f ib)"
    using inbox_okD(3) [OF assms(1)] unfolding marks_ok_def lowest_seq_def highest_in_flight_def by (simp only: change_entry_fields) (simp add: change_entry_def)
  then show ?thesis using assms change_entry_ok [OF inbox_okD(1) [OF assms(1)], of f q] caps_change_entry [OF inbox_okD(2) [OF assms(1)], of q f]
    by (simp add: inbox_ok_def)
qed

lemma pass_ok:
  assumes "deliverable_pass env orchId es ib rs = (ds, ib', rs')" "inbox_ok lc ib" "\<And>e. e \<in> set es \<Longrightarrow> (ie_seq e, ie_event e) \<in> set (hi_accepted ib)"
  shows "inbox_ok lc ib' \<and> hi_accepted ib' = hi_accepted ib \<and> hi_injected ib' = hi_injected ib"
  using assms
proof (induction es arbitrary: ib rs ds)
  case (Cons e es)
  have held: "inbox_ok lc (change_entry (ie_seq e) (\<lambda>x. x\<lparr>ie_heldBy := v\<rparr>) ib)" for v by (rule set_field_ok [OF Cons.prems(2)]) simp
  have e: "(ie_seq e, ie_event e) \<in> set (hi_accepted ib)" using Cons.prems(3) by simp
  have dr: "may_go w (ie_event e) \<Longrightarrow> w \<noteq> ByTurn \<Longrightarrow> inbox_ok lc (recomputeInboxWatermarks (remove_entries (\<lambda>x. ie_seq x = ie_seq e) w (markDeliveryHistoryStatus StSuppressed e ib)))" for w
    by (rule drop_ok [OF Cons.prems(2) e])
  show ?case
  proof (cases "isCurrentWorkerReport (ie_event e) orchId (leader_board env orchId)")
    case False
    then have "may_go ByStaleReport (ie_event e)" by (auto simp: may_go_def dest: not_critical(3))
    then show ?thesis using Cons.prems(1,3) False Cons.IH [OF _ dr] by (simp add: Let_def)
  next
    case True
    show ?thesis
    proof (cases "getRestartPrepDeliveryPolicy (he_now env) orchId (ie_event e) rs")
      case PolicyDeliver
      then show ?thesis using Cons.prems(1,3) True Cons.IH [OF _ held] by (auto simp: Let_def split: prod.splits)
    next
      case (PolicyHold i)
      then show ?thesis using Cons.prems True Cons.IH [OF _ framed_ok [OF framed_notes(2) held]] Cons.IH [OF _ Cons.prems(2)]
        by (auto simp: Let_def split: if_splits)
    next
      case (PolicySuppress i)
      have "may_go ByRestart (ie_event e)" by (simp add: may_go_def)
      then show ?thesis using Cons.prems(1,3) True PolicySuppress Cons.IH [OF _ dr] by (simp add: Let_def)
    qed
  qed
qed simp

lemma deliverable_ok:
  assumes "getDeliverablePendingEntries env orchId ib rs = (ds, ib', rs')" "inbox_ok lc ib"
  shows "inbox_ok lc ib' \<and> hi_accepted ib' = hi_accepted ib \<and> hi_injected ib' = hi_injected ib"
proof -
  obtain ds0 where p: "deliverable_pass env orchId (getPendingEntries ib) ib rs = (ds0, ib', rs')"
    using assms(1) by (auto simp: getDeliverablePendingEntries_def Let_def split: prod.splits)
  show ?thesis by (rule pass_ok [OF p assms(2)])
    (use assms(2) in \<open>auto simp: getPendingEntries_def inbox_ok_def core_ok_def dest: justified_entry\<close>)
qed

end
