(* ===== verification/Herd_Operations.thy ===== *)
theory Herd_Operations
  imports Herd_Invariant
begin

text \<open>
  Delivery, confirmation and acceptance keep the invariant of an inbox, and every operation of the
  dispatcher keeps it for all inboxes.
\<close>

section \<open>Delivery\<close>

lemma inject_inbox_ok: "inbox_ok lc ib \<Longrightarrow> inbox_ok lc (ib\<lparr>hi_injected := hi_injected ib @ qs\<rparr>)"
  using inject_ok [OF inbox_okD(1), of lc ib qs] by (simp add: inbox_ok_def marks_ok_def caps_ok_def)

definition run_ok :: "locale_compare \<Rightarrow> delivery_run \<Rightarrow> bool" where
  "run_ok lc r \<longleftrightarrow> inbox_ok lc (dv_inbox r) \<and> (\<forall>(e, st, w) \<in> set (dv_accepted r). ie_seq e \<in> set (hi_injected (dv_inbox r)))"

lemma run_ok_take: "run_ok lc r \<Longrightarrow> run_ok lc (take_group es st w r)"
  by (auto simp: run_ok_def take_group_def intro: inject_inbox_ok)

lemma run_ok_fields [simp]: "run_ok lc (r\<lparr>dv_env := x, dv_effects := y\<rparr>) = run_ok lc r"
  by (simp add: run_ok_def)

lemma group_ok: "run_ok lc r \<Longrightarrow> run_ok lc (snd (deliver_group answer orchId g r))"
  by (auto simp: deliver_group_def Let_def split_beta intro!: run_ok_take) (auto simp: run_ok_def intro: prune_ok)

lemma groups_ok: "run_ok lc r \<Longrightarrow> run_ok lc (snd (deliver_groups answers orchId k gs r))"
proof (induction gs arbitrary: k r)
  case (Cons g gs)
  have "run_ok lc (snd (deliver_group (answers k) orchId g r))" by (rule group_ok [OF Cons.prems])
  then show ?case using Cons.IH by (auto split: prod.split option.split)
qed simp

lemma core_caps_note:
  "core_ok lc ib \<and> caps_ok ib \<Longrightarrow> core_ok lc (update_note e f ib) \<and> caps_ok (update_note e f ib)"
  using framed_caps [OF framed_notes(1)] by simp

lemma mark_accepted_ok:
  assumes "core_ok lc ib" "caps_ok ib" "\<And>e st w. (e, st, w) \<in> set taken \<Longrightarrow> ie_seq e \<in> set (hi_injected ib)"
  shows "core_ok lc (markEntriesAcceptedForDelivery now taken ib) \<and> caps_ok (markEntriesAcceptedForDelivery now taken ib)"
  using assms
proof (induction taken arbitrary: ib)
  case (Cons t taken)
  obtain e st w where t: "t = (e, st, w)" by (cases t)
  define ib1 where "ib1 = change_entry (ie_seq e) (\<lambda>x. x\<lparr>ie_owner := Some w\<rparr>) ib"
  have "core_ok lc ib1" unfolding ib1_def by (rule change_entry_ok [OF Cons.prems(1)]) (use Cons.prems(3) [of e st w] t in auto)
  moreover have "caps_ok ib1" unfolding ib1_def by (rule caps_change_entry [OF Cons.prems(2)])
  moreover have "hi_injected ib1 = hi_injected ib" by (simp add: ib1_def)
  moreover define ib2 where "ib2 = update_note e (\<lambda>n. if dl_status n \<in> {StPending, StRedelivered, StHeld} then n\<lparr>dl_deliveredAt := Some now, dl_status := st\<rparr> else n) ib1"
  ultimately have "core_ok lc ib2" "caps_ok ib2" "hi_injected ib2 = hi_injected ib" using core_caps_note [of lc ib1] by simp_all
  moreover have "markEntriesAcceptedForDelivery now (t # taken) ib = markEntriesAcceptedForDelivery now taken ib2"
    by (simp add: markEntriesAcceptedForDelivery_def t ib1_def ib2_def)
  ultimately show ?case using Cons.IH [of ib2] Cons.prems(3) by auto
qed (simp add: markEntriesAcceptedForDelivery_def)

lemma deliver_ok:
  assumes "inbox_ok lc ib"
  shows "inbox_ok lc (dv_inbox (snd (snd (deliverPendingEntries env answers orchId ib pending))))"
proof -
  define r0 where "r0 = \<lparr>dv_inbox = ib, dv_env = env, dv_events = [], dv_accepted = [], dv_effects = []\<rparr>"
  obtain st r where d: "deliver_groups answers orchId 0 (groupPendingEntriesByThread pending) r0 = (st, r)" by force
  have "run_ok lc r0" using assms by (simp add: r0_def run_ok_def)
  then have r: "run_ok lc r" using groups_ok [of lc r0 answers orchId 0] d by (metis snd_conv)
  define ib1 where "ib1 = rememberDeliveredEventKeys (dv_env r) (dv_events r)
    ((dv_inbox r)\<lparr>hi_lastEmittedMsgTo := updateLastEmittedMsgTo (hi_lastEmittedMsgTo (dv_inbox r)) (dv_events r)\<rparr>)"
  have f: "framed (dv_inbox r) ib1" unfolding ib1_def by (meson framed_trans framed_notes(5) framed_folds(2))
  then have "inbox_ok lc ib1" using r framed_ok by (auto simp: run_ok_def)
  then have "inbox_ok lc (recomputeInboxWatermarks (markEntriesAcceptedForDelivery (he_now (dv_env r)) (dv_accepted r) ib1))"
  proof -
    have "ie_seq e \<in> set (hi_injected ib1)" if "(e, st, w) \<in> set (dv_accepted r)" for e st w
      using r that framed_fields [OF f] by (auto simp: run_ok_def)
    from mark_accepted_ok [OF inbox_okD(1,2) [OF \<open>inbox_ok lc ib1\<close>] this] show ?thesis by (intro recompute_ok) simp_all
  qed
  then show ?thesis using r by (simp add: deliverPendingEntries_def d [unfolded r0_def] run_ok_def ib1_def split: option.split)
qed

section \<open>Confirmation\<close>

lemma reset_ok: "inbox_ok lc ib \<Longrightarrow> inbox_ok lc (recomputeInboxWatermarks (reset_in_flight ib))"
  by (rule recompute_ok, rule map_entries_ok [of lc ib _ "\<lambda>e. e\<lparr>ie_owner := None\<rparr>"])
    (simp_all add: reset_in_flight_def inbox_ok_def caps_ok_def)

lemma confirm_turn_ok: "inbox_ok lc ib \<Longrightarrow> inbox_ok lc (confirm_turn reason ids ib)"
  unfolding confirm_turn_def
  by (auto intro!: reset_ok remove_recompute_ok [OF mark_ok] simp: may_go_def owned_by_def split: option.splits)

lemma committed_not_critical: "committed_entry env keys e \<Longrightarrow> \<not> critical (ie_event e)"
  by (auto simp: committed_entry_def not_critical(1) split: option.splits)

lemma confirm_history_ok: "inbox_ok lc ib \<Longrightarrow> inbox_ok lc (confirmCommittedHerdHistory env orchId ib)"
proof -
  assume ok: "inbox_ok lc ib"
  define keys where "keys = getCommittedHerdEventKeys (leader_history env orchId)"
  define cs where "cs = filter (committed_entry env keys) (hi_entries ib)"
  have "inbox_ok lc (recomputeInboxWatermarks (remove_entries (committed_entry env keys) ByHistory (mark_all StConfirmed cs ib)))"
    by (rule remove_recompute_ok [OF mark_ok [OF ok]]) (auto simp: may_go_def dest: committed_not_critical)
  then show ?thesis using ok
    by (auto simp: confirmCommittedHerdHistory_def Let_def simp flip: keys_def cs_def
        intro!: framed_ok [OF framed_folds(2)] framed_ok [OF framed_notes(4)])
qed

section \<open>Acceptance\<close>

lemma turn_end_key_quiet [simp]:
  "turn_end_key lc sid (tn_quiet_update f t) = turn_end_key lc sid t" "turn_end_key lc sid (tn_quietIgnored_update g t) = turn_end_key lc sid t"
  by (rule ext, simp add: turn_end_key_def)+

lemma override_cases:
  "overrideQuietForBoardChange e board = e \<or> (\<exists>t w. tv_data e = TurnEnd t
     \<and> overrideQuietForBoardChange e board = e\<lparr>tv_data := TurnEnd (t\<lparr>tn_quiet := None, tn_quietIgnored := Some w\<rparr>)\<rparr>)"
  unfolding overrideQuietForBoardChange_def by (cases "tv_data e"; cases board) (simp_all split: if_splits, blast)

lemma override_key [simp]: "getStableHerdEventKey lc (overrideQuietForBoardChange e board) = getStableHerdEventKey lc e"
  using override_cases [of e board] by (elim disjE exE conjE) (simp_all add: getStableHerdEventKey_def)

lemma merge_cases:
  "mergeHeldQuietTurn p e = e \<or> (\<exists>t q. tv_data e = TurnEnd t \<and> mergeHeldQuietTurn p e = e\<lparr>tv_data := TurnEnd (t\<lparr>tn_quiet := Some q\<rparr>)\<rparr>)"
  unfolding mergeHeldQuietTurn_def by (cases "tv_data e"; cases "tv_data p") (simp_all split: option.splits, blast)

lemma merge_key [simp]: "getStableHerdEventKey lc (mergeHeldQuietTurn p e) = getStableHerdEventKey lc e"
  using merge_cases [of p e] by (elim disjE exE conjE) (simp_all add: getStableHerdEventKey_def)

lemma merged_ok:
  assumes "inbox_ok lc ib" "mergeEarlierHeldQuietTurn env ib e = (e', ib')"
  shows "inbox_ok lc ib' \<and> getStableHerdEventKey lc e' = getStableHerdEventKey lc e \<and> set (hi_entries ib') \<subseteq> set (hi_entries ib)
    \<and> hi_nextSeq ib' = hi_nextSeq ib"
proof -
  let ?Q = "\<lambda>x. ie_owner x = None \<and> tv_sessionId (ie_event x) = tv_sessionId e \<and> isHeldQuietTurn (ie_event x)"
  consider "e' = e" "ib' = ib"
    | p where "find ?Q (hi_entries ib) = Some p" "e' = mergeHeldQuietTurn (ie_event p) e"
        "ib' = recomputeInboxWatermarks (rememberDeliveredEventKeys env [ie_event p]
              (markDeliveryHistoryStatus StMerged p (remove_entries (\<lambda>x. ie_seq x = ie_seq p) ByMerge ib)))"
    using assms(2) unfolding mergeEarlierHeldQuietTurn_def
    by (cases "isHeldQuietTurn e"; cases "find ?Q (hi_entries ib)") simp_all
  then show ?thesis
  proof cases
    case 2
    have p: "p \<in> set (hi_entries ib)" "isHeldQuietTurn (ie_event p)" using 2(1) by (auto simp: find_Some_iff)
    have c: "core_ok lc (remove_entries (\<lambda>x. ie_seq x = ie_seq p) ByMerge ib)"
      by (rule remove_ok [OF inbox_okD(1) [OF assms(1)]])
        (use p entry_inj [OF inbox_okD(4) [OF assms(1)]] not_critical(2) in \<open>auto simp: may_go_def\<close>)
    have "inbox_ok lc ib'" unfolding 2(3)
      by (rule recompute_ok) (simp_all add: c framed_caps [OF framed_folds(2)] framed_caps [OF framed_notes(2)] caps_remove inbox_okD(2) [OF assms(1)])
    then show ?thesis using 2(2,3) by auto
  qed (use assms(1) in simp)
qed

lemma push_caps:
  assumes "caps_ok ib"
  shows "length (hi_entries (push_entry env e route held ib)) \<le> Suc INBOX_CAP" "length (hi_history (push_entry env e route held ib)) \<le> HISTORY_CAP"
    "length (hi_recentEventKeys (push_entry env e route held ib)) \<le> RECENT_EVENT_DEDUPE_CAP"
  using assms by (simp_all add: caps_ok_def push_entry_def last_n_def diff_diff_le)

lemma push_marks:
  assumes "inbox_ok lc ib"
  shows "marks_ok (push_entry env e route held ib)"
proof -
  have l: "ie_seq x < hi_nextSeq ib" if "x \<in> set (hi_entries ib)" for x using inbox_okD(4) [OF assms] that by (auto simp: accounted_def)
  have m: "foldl min q (xs @ [n]) = foldl min q xs" if "q \<le> n" for q n :: nat and xs
  proof -
    have "foldl min q xs \<le> q" by (induction xs arbitrary: q) (auto, meson le_trans min.cobounded1)
    with that show ?thesis by simp
  qed
  have "lowest_seq (hi_entries (push_entry env e route held ib)) (hi_nextSeq (push_entry env e route held ib)) = lowest_seq (hi_entries ib) (hi_nextSeq ib)"
  proof (cases "hi_entries ib")
    case Nil
    then show ?thesis by (simp add: push_entry_def lowest_seq_def)
  next
    case (Cons x xs)
    then have "ie_seq x \<le> hi_nextSeq ib" using l [of x] by simp
    then show ?thesis using m [of "ie_seq x" "hi_nextSeq ib" "map ie_seq xs"] by (simp add: push_entry_def lowest_seq_def Cons)
  qed
  moreover have "highest_in_flight (hi_entries (push_entry env e route held ib)) = highest_in_flight (hi_entries ib)"
    by (simp add: push_entry_def highest_in_flight_def)
  ultimately show ?thesis using inbox_okD(3) [OF assms] by (simp add: marks_ok_def) (simp add: push_entry_def)
qed

text \<open>Removing entries by their numbers takes out as many as there are numbers.\<close>

lemma length_without:
  assumes "distinct (map ie_seq es)" "distinct vs" "set vs \<subseteq> set es"
  shows "length (filter (\<lambda>e. ie_seq e \<notin> set (map ie_seq vs)) es) = length es - length vs"
proof -
  have i: "inj_on ie_seq (set es)" and d: "distinct es" using assms(1) by (auto simp: distinct_map)
  have "filter (\<lambda>e. ie_seq e \<notin> set (map ie_seq vs)) es = filter (\<lambda>e. e \<notin> set vs) es"
    using i assms(3) by (intro filter_cong refl) (auto simp: inj_on_def)
  moreover have "length (filter (\<lambda>e. e \<notin> set vs) es) = card (set es - set vs)"
    using distinct_card [OF distinct_filter [OF d], of "\<lambda>e. e \<notin> set vs"] by (simp add: set_diff_eq)
  ultimately show ?thesis using assms(2,3) d by (simp add: card_Diff_subset distinct_card)
qed

lemma cap_ok:
  assumes "core_ok lc ib" "marks_ok ib" "length (hi_history ib) \<le> HISTORY_CAP" "length (hi_recentEventKeys ib) \<le> RECENT_EVENT_DEDUPE_CAP"
  shows "inbox_ok lc (cap_inbox ib)"
proof (cases "length (hi_entries ib) \<le> INBOX_CAP")
  case True
  then show ?thesis using assms by (simp add: cap_inbox_def inbox_ok_def caps_ok_def)
next
  case False
  define excess where "excess = length (hi_entries ib) - INBOX_CAP"
  define vs where "vs = (if excess \<le> length (non_critical excess (hi_entries ib)) then non_critical excess (hi_entries ib) else take excess (hi_entries ib))"
  have d: "distinct (map ie_seq (hi_entries ib))" using assms(1) distinct_seqs by (simp add: core_ok_def)
  have "set vs \<subseteq> set (hi_entries ib)" by (auto simp: vs_def non_critical_def dest: in_set_takeD)
  moreover have "distinct vs" using d by (auto simp: vs_def non_critical_def distinct_map)
  moreover have "length vs = excess" using False by (auto simp: vs_def non_critical_def excess_def)
  ultimately have "length (filter (\<lambda>e. ie_seq e \<notin> set (map ie_seq vs)) (hi_entries ib)) = INBOX_CAP"
    using length_without [OF d, of vs] False by (simp add: excess_def)
  then have "caps_ok (remove_entries (\<lambda>e. ie_seq e \<in> set (map ie_seq vs)) ByOverflow ib)"
    using assms(3,4) by (simp add: caps_ok_def)
  moreover have "core_ok lc (remove_entries (\<lambda>e. ie_seq e \<in> set (map ie_seq vs)) ByOverflow ib)"
    by (rule remove_ok [OF assms(1)]) (simp add: may_go_def)
  ultimately have "inbox_ok lc (recomputeInboxWatermarks (remove_entries (\<lambda>e. ie_seq e \<in> set (map ie_seq vs)) ByOverflow ib))"
    by (rule recompute_ok [rotated])
  then show ?thesis using False by (simp add: cap_inbox_def Let_def excess_def [symmetric] vs_def [symmetric])
qed

lemma accept_event_ok:
  assumes "inbox_ok (he_compare env) ib" "\<not> isDuplicate env event ib"
  shows "inbox_ok (he_compare env) (accept_event env orchId event held ib)"
proof -
  let ?lc = "he_compare env"
  define e1 where "e1 = overrideQuietForBoardChange event (leader_board env orchId)"
  obtain e2 ib1 where m: "mergeEarlierHeldQuietTurn env ib e1 = (e2, ib1)" by force
  note ok = merged_ok [OF assms(1) m]
  let ?p = "push_entry env e2 (resolveEventThreadRoute env e2) held ib1"
  have "getStableHerdEventKey ?lc (ie_event x) \<noteq> getStableHerdEventKey ?lc e2"
    if "x \<in> set (hi_entries ib1)" "getStableHerdEventKey ?lc e2 \<noteq> None" for x
    using that ok assms(2) by (auto simp: isDuplicate_def inboxHasEventKey_def e1_def list_ex_iff split: option.splits)
  then have "core_ok ?lc ?p" using ok by (intro push_ok) (auto dest: inbox_okD)
  then have "inbox_ok ?lc (cap_inbox ?p)"
    using ok by (intro cap_ok push_marks [of ?lc] push_caps(2,3)) (auto dest: inbox_okD(2))
  then show ?thesis by (simp add: accept_event_def Let_def e1_def [symmetric] m)
qed

section \<open>The dispatcher\<close>

definition herd_ok :: "locale_compare \<Rightarrow> herd_state \<Rightarrow> bool" where
  "herd_ok lc s \<longleftrightarrow> (\<forall>orchId ib. get_inbox orchId s = Some ib \<longrightarrow> inbox_ok lc ib)"

lemma herd_okD: "herd_ok lc s \<Longrightarrow> get_inbox orchId s = Some ib \<Longrightarrow> inbox_ok lc ib"
  by (simp add: herd_ok_def)

lemma get_put [simp]: "get_inbox i (put_inbox j ib s) = (if i = j then Some ib else get_inbox i s)"
  by (simp add: get_inbox_def put_inbox_def update_conv')

lemma get_other [simp]:
  "get_inbox i (herd_log es s) = get_inbox i s" "get_inbox i (hd_restartOps_update f s) = get_inbox i s"
  "get_inbox i (hd_releaseTimers_update g s) = get_inbox i s" "get_inbox i (hd_cleanupTimers_update g s) = get_inbox i s"
  "get_inbox i (subscribe j ws s) = get_inbox i s" "get_inbox i (unsubscribe j s) = get_inbox i s" "get_inbox i (log_event e s) = get_inbox i s"
  by (simp_all add: get_inbox_def herd_log_def subscribe_def unsubscribe_def log_event_def)

lemma get_teardown [simp]: "get_inbox i (teardownForOrchestrator j s) = (if i = j then None else get_inbox i s)"
  by (auto simp: teardownForOrchestrator_def get_inbox_def unsubscribe_def delete_conv' split: option.splits)

lemma herd_ok_put: "herd_ok lc s \<Longrightarrow> inbox_ok lc ib \<Longrightarrow> herd_ok lc (put_inbox i ib s)"
  by (simp add: herd_ok_def)

lemma herd_ok_same: "(\<And>i. get_inbox i s' = get_inbox i s) \<Longrightarrow> herd_ok lc s \<Longrightarrow> herd_ok lc s'"
  by (simp add: herd_ok_def)

lemma herd_ok_other [simp]:
  "herd_ok lc (herd_log es s) = herd_ok lc s" "herd_ok lc (hd_restartOps_update f s) = herd_ok lc s"
  "herd_ok lc (hd_releaseTimers_update g s) = herd_ok lc s" "herd_ok lc (hd_cleanupTimers_update g s) = herd_ok lc s"
  "herd_ok lc (subscribe j ws s) = herd_ok lc s" "herd_ok lc (unsubscribe j s) = herd_ok lc s" "herd_ok lc (log_event e s) = herd_ok lc s"
  by (simp_all add: herd_ok_def)

lemma teardown_ok: "herd_ok lc s \<Longrightarrow> herd_ok lc (teardownForOrchestrator i s)"
  by (simp add: herd_ok_def)

lemma retire_ok: "herd_ok lc s \<Longrightarrow> herd_ok lc (maybeRetireInbox i s)"
  by (simp add: maybeRetireInbox_def teardown_ok split: option.split)

lemma start_timer_ok: "herd_ok lc s \<Longrightarrow> herd_ok lc (start_timer d env i s)"
  by (auto simp: start_timer_def split: option.split intro!: herd_ok_put framed_ok [OF framed_notes(4)] dest: herd_okD)

lemma schedule_ok: "herd_ok lc s \<Longrightarrow> herd_ok lc (scheduleDelivery env i s)" "herd_ok lc s \<Longrightarrow> herd_ok lc (scheduleRetry env i s)"
  by (simp_all add: scheduleDelivery_def scheduleRetry_def start_timer_ok)

lemma wake_ok: "herd_ok lc s \<Longrightarrow> herd_ok lc (wake_or_retry env i s)"
  by (simp add: wake_or_retry_def schedule_ok)

lemma deliver_to_ok: "herd_ok lc s \<Longrightarrow> inbox_ok lc ib \<Longrightarrow> herd_ok lc (snd (snd (snd (deliver_to env answers i pending ib s))))"
  by (simp add: deliver_to_def split_beta herd_ok_put deliver_ok)

lemma flush_ok:
  assumes "herd_ok lc s"
  shows "herd_ok lc (flushInbox env answers i s)"
proof (cases "get_inbox i s")
  case (Some ib)
  obtain ds ib1 rs where d: "getDeliverablePendingEntries env i (snd (pruneStaleBoardStallEntries env i ib)) (hd_restartOps s) = (ds, ib1, rs)"
    by (metis prod_cases3)
  have ib1: "inbox_ok lc ib1" using deliverable_ok [OF d] prune_ok herd_okD [OF assms Some] by blast
  define s1 where "s1 = put_inbox i ib1 (s\<lparr>hd_restartOps := rs\<rparr>)"
  have s1: "herd_ok lc s1" unfolding s1_def by (rule herd_ok_put) (simp_all add: assms ib1)
  obtain st n env' s2 where t: "deliver_to env answers i ds ib1 s1 = (st, n, env', s2)" by (metis prod_cases4)
  have "herd_ok lc s2" using deliver_to_ok [OF s1 ib1, of env answers i ds] t by simp
  then show ?thesis using s1 assms
    by (simp add: flushInbox_def Some d t Let_def retire_ok wake_ok schedule_ok del: not_None_eq flip: s1_def)
qed (simp add: flushInbox_def assms)

lemma force_ok:
  assumes "herd_ok lc s"
  shows "herd_ok lc (snd (forceFlushPendingEvents env answers i cutoff s))"
proof (cases "get_inbox i s")
  case (Some ib)
  obtain ds ib1 rs where d: "getDeliverablePendingEntries env i (snd (pruneStaleBoardStallEntries env i ib)) (hd_restartOps s) = (ds, ib1, rs)"
    by (metis prod_cases3)
  have ib1: "inbox_ok lc ib1" using deliverable_ok [OF d] prune_ok herd_okD [OF assms Some] by blast
  define s1 where "s1 = put_inbox i ib1 (s\<lparr>hd_restartOps := rs\<rparr>)"
  have s1: "herd_ok lc s1" unfolding s1_def by (rule herd_ok_put) (simp_all add: assms ib1)
  define ps where "ps = filter (\<lambda>e. case cutoff of None \<Rightarrow> True | Some t \<Rightarrow> tv_ts (ie_event e) \<le> t) ds"
  obtain st n env' s2 where t: "deliver_to env answers i ps ib1 s1 = (st, n, env', s2)" by (metis prod_cases4)
  have s2: "herd_ok lc s2" using deliver_to_ok [OF s1 ib1, of env answers i ps] t by simp
  then have "herd_ok lc (case get_inbox i s2 of None \<Rightarrow> s2 | Some ib2 \<Rightarrow> put_inbox i (snd (pruneStaleBoardStallEntries env' i ib2)) s2)"
    by (auto split: option.split intro!: herd_ok_put prune_ok dest: herd_okD)
  then show ?thesis using s1 s2 assms
    by (simp add: forceFlushPendingEvents_def Some d t Let_def retire_ok schedule_ok flip: s1_def ps_def)
qed (simp add: forceFlushPendingEvents_def assms)

lemma fires_ok: "herd_ok lc s \<Longrightarrow> herd_ok lc (timer_fires env answers i s)"
  by (auto simp: timer_fires_def split: option.split intro!: flush_ok herd_ok_put framed_ok [OF framed_notes(4)] dest: herd_okD)

lemma turn_end_ok: "herd_ok lc s \<Longrightarrow> herd_ok lc (onOrchestratorTurnEnd env answers i reason ids s)"
  by (auto simp: onOrchestratorTurnEnd_def Let_def split: option.split
      intro!: flush_ok retire_ok herd_ok_put framed_ok [OF framed_notes(4)] confirm_history_ok confirm_turn_ok dest: herd_okD)

lemma disconnect_ok: "herd_ok lc s \<Longrightarrow> herd_ok lc (onOrchestratorDisconnect i s)"
  by (auto simp: onOrchestratorDisconnect_def split: option.split
      intro!: herd_ok_put framed_ok [OF framed_notes(4)] reset_ok dest: herd_okD)

lemma resubscribed_ok: "inbox_ok lc ib \<Longrightarrow> inbox_ok lc (ib\<lparr>hi_subscribed := b, hi_workerIds := ws\<rparr>)"
  by (rule framed_ok [of ib]) (simp_all add: framed_def same_core_def)

lemma setup_ok: "herd_ok lc s \<Longrightarrow> herd_ok lc (setupForOrchestrator env i s)"
  by (auto simp: setupForOrchestrator_def Let_def split: option.split
      intro!: herd_ok_put retire_ok schedule_ok resubscribed_ok new_inbox_ok dest: herd_okD)

lemma ensure_ok: "herd_ok lc s \<Longrightarrow> herd_ok lc (ensureInboxForOrchestrator env i s)"
  by (auto simp: ensureInboxForOrchestrator_def Let_def split: option.split
      intro!: herd_ok_put resubscribed_ok new_inbox_ok dest: herd_okD)

lemma worker_event_ok:
  assumes "herd_ok (he_compare env) s"
  shows "herd_ok (he_compare env) (onWorkerEvent env i event s)"
proof (cases "get_inbox i s")
  case (Some ib)
  note ib = herd_okD [OF assms Some]
  have "herd_ok (he_compare env) (put_inbox i (accept_event env i event held ib) s')"
    if "\<not> isDuplicate env event ib" "herd_ok (he_compare env) s'" for held s'
    by (rule herd_ok_put [OF that(2) accept_event_ok [OF ib that(1)]])
  moreover have "herd_ok (he_compare env) (put_inbox i (remember_committed env event ib) s)"
    by (rule herd_ok_put [OF assms framed_ok [OF framed_notes(6) ib]])
  ultimately show ?thesis using assms
    by (simp add: onWorkerEvent_def Some Let_def schedule_ok wake_ok split: delivery_policy.split)
qed (simp add: onWorkerEvent_def assms)

lemma emit_ok:
  assumes "herd_ok (he_compare env) s"
  shows "herd_ok (he_compare env) (emitTakodeEvent env sid d actor s)"
proof -
  have "herd_ok (he_compare env) t \<Longrightarrow> herd_ok (he_compare env)
      (foldl (\<lambda>s (orchId, workerIds). if sid \<in> set workerIds then onWorkerEvent env orchId e s else s) t subs)" for e t subs
    by (induction subs arbitrary: t) (simp_all add: worker_event_ok split: prod.split)
  then show ?thesis using assms by (simp add: emitTakodeEvent_def Let_def)
qed

lemma emit_for_ok: "herd_ok (he_compare env) s \<Longrightarrow> herd_ok (he_compare env) (emitTakodeEventForOrchestrator env i sid d actor s)"
  by (simp add: emitTakodeEventForOrchestrator_def Let_def worker_event_ok ensure_ok)

lemma release_entries_ok: "inbox_ok lc ib \<Longrightarrow> inbox_ok lc (release_entries i ib)"
proof -
  assume ok: "inbox_ok lc ib"
  let ?f = "\<lambda>e. if ie_heldBy e = Some i then e\<lparr>ie_heldBy := None\<rparr> else e"
  let ?ib = "ib\<lparr>hi_entries := map ?f (hi_entries ib)\<rparr>"
  have "core_ok lc ?ib" by (rule map_entries_ok [OF inbox_okD(1) [OF ok], of _ ?f]) simp_all
  moreover have "lowest_seq (map ?f es) n = lowest_seq es n" "highest_in_flight (map ?f es) = highest_in_flight es" for es n
  proof -
    have m: "map ie_seq (map ?f es) = map ie_seq es" by simp
    show "lowest_seq (map ?f es) n = lowest_seq es n" unfolding lowest_seq_def m ..
    have "map ie_seq (filter (\<lambda>e. ie_owner e \<noteq> None) (map ?f es)) = map ie_seq (filter (\<lambda>e. ie_owner e \<noteq> None) es)"
      by (induction es) auto
    then show "highest_in_flight (map ?f es) = highest_in_flight es" unfolding highest_in_flight_def by (rule arg_cong)
  qed
  then have "marks_ok ?ib" using inbox_okD(3) [OF ok] by (simp add: marks_ok_def)
  moreover have "caps_ok ?ib" using inbox_okD(2) [OF ok] by (simp add: caps_ok_def)
  ultimately have "inbox_ok lc ?ib" by (simp add: inbox_ok_def)
  then show ?thesis unfolding release_entries_def Let_def by (rule mark_ok)
qed

lemma release_leader_ok: "herd_ok lc s \<Longrightarrow> herd_ok lc (release_leader env i l s)"
  by (auto simp: release_leader_def Let_def split: option.split intro!: schedule_ok wake_ok herd_ok_put release_entries_ok dest: herd_okD)

lemma release_held_ok:
  assumes "herd_ok lc s"
  shows "herd_ok lc (releaseHeldRestartPrepEvents env i s)"
proof -
  have "herd_ok lc t \<Longrightarrow> herd_ok lc (foldl (\<lambda>s orchId. release_leader env i orchId s) t ls)" for t ls
    by (induction ls arbitrary: t) (auto intro: release_leader_ok)
  then show ?thesis using assms by (simp add: releaseHeldRestartPrepEvents_def split: option.split)
qed

lemma preserve_ok: "herd_ok lc s \<Longrightarrow> herd_ok lc (snd (preserve_inboxes env answers ls s))"
proof (induction ls arbitrary: s)
  case (Cons i ls)
  show ?case
  proof (cases "get_inbox i s")
    case (Some ib)
    define ib1 where "ib1 = snd (pruneStaleBoardStallEntries (env i) i (ib\<lparr>hi_timer := None\<rparr>))"
    have ib1: "inbox_ok lc ib1" unfolding ib1_def
      by (rule prune_ok, rule framed_ok [OF framed_notes(4)], rule herd_okD [OF Cons.prems Some])
    define s1 where "s1 = put_inbox i ib1 s"
    have s1: "herd_ok lc s1" unfolding s1_def by (rule herd_ok_put [OF Cons.prems ib1])
    define ps where "ps = withRideAlongQuietEntries (getPendingEntries ib1)"
    obtain st n env' s2 where t: "deliver_to (env i) (answers i) i ps ib1 s1 = (st, n, env', s2)" by (metis prod_cases4)
    have "herd_ok lc s2" using deliver_to_ok [OF s1 ib1, of "env i" "answers i" i ps] t by simp
    then show ?thesis using Cons.IH s1 by (simp add: Some Let_def t flip: ib1_def s1_def ps_def)
  qed (simp add: Cons)
qed simp

lemma destroy_ok: "herd_ok lc s \<Longrightarrow> herd_ok lc (destroy_dispatcher s)"
proof -
  have "herd_ok lc t \<Longrightarrow> herd_ok lc (foldl (\<lambda>s orchId. teardownForOrchestrator orchId s) t ls)" for t ls
    by (induction ls arbitrary: t) (auto intro: teardown_ok)
  moreover assume "herd_ok lc s"
  ultimately show ?thesis by (simp add: destroy_dispatcher_def)
qed

section \<open>Every order of operations\<close>

text \<open>
  The environment of an operation and the answers of the bridge are arbitrary; only the order of strings
  is the same throughout.
\<close>

inductive herd_step :: "locale_compare \<Rightarrow> herd_state \<Rightarrow> herd_state \<Rightarrow> bool" for lc where
  emits: "he_compare env = lc \<Longrightarrow> herd_step lc s (emitTakodeEvent env sid d actor s)"
| emits_for: "he_compare env = lc \<Longrightarrow> herd_step lc s (emitTakodeEventForOrchestrator env i sid d actor s)"
| sets_up: "herd_step lc s (setupForOrchestrator env i s)"
| tears_down: "herd_step lc s (teardownForOrchestrator i s)"
| timer: "herd_step lc s (timer_fires env answers i s)"
| turn_ends: "herd_step lc s (onOrchestratorTurnEnd env answers i reason ids s)"
| disconnects: "herd_step lc s (onOrchestratorDisconnect i s)"
| force: "herd_step lc s (snd (forceFlushPendingEvents env answers i cutoff s))"
| host_online: "herd_step lc s (onHostOnline env i s)"
| begins: "herd_step lc s (beginRestartPrepOperation env i mode targets leaders timeout ttl s)"
| blockers: "herd_step lc s (updateRestartPrepUnresolvedBlockers i blockers s)"
| releases: "herd_step lc s (release_timer_fires env i due s)"
| cleans_up: "herd_step lc s (cleanup_timer_fires env i due s)"
| preserves: "herd_step lc s (snd (preservePendingForShutdown stopping envs answers' s))"
| destroys: "herd_step lc s (destroy_dispatcher s)"

inductive herd_reach :: "locale_compare \<Rightarrow> herd_state \<Rightarrow> bool" for lc where
  start: "herd_reach lc new_dispatcher"
| step: "herd_reach lc s \<Longrightarrow> herd_step lc s s' \<Longrightarrow> herd_reach lc s'"

lemma herd_step_ok: "herd_step lc s s' \<Longrightarrow> herd_ok lc s \<Longrightarrow> herd_ok lc s'"
proof (induction rule: herd_step.induct)
  case (begins s env i mode targets leaders timeout ttl)
  then show ?case by (simp add: beginRestartPrepOperation_def Let_def)
next
  case (releases s env i due)
  then show ?case by (simp add: release_timer_fires_def release_held_ok)
qed (auto simp: emit_ok emit_for_ok setup_ok teardown_ok fires_ok turn_end_ok disconnect_ok force_ok onHostOnline_def schedule_ok
    updateRestartPrepUnresolvedBlockers_def cleanup_timer_fires_def preservePendingForShutdown_def preserve_ok destroy_ok)

lemma herd_reach_ok: "herd_reach lc s \<Longrightarrow> herd_ok lc s"
proof (induction rule: herd_reach.induct)
  case start
  then show ?case by (simp add: herd_ok_def get_inbox_def new_dispatcher_def)
qed (rule herd_step_ok)

end
