(* ===== verification/Herd_Properties.thy ===== *)
theory Herd_Properties
  imports Herd_Operations
begin

text \<open>
  What the dispatcher of herd events promises: no accepted event is lost without a recorded reason,
  inboxes are bounded and ignore repeated events, and only the turn that carried an event settles it.
\<close>

section \<open>Every event is accounted for\<close>

text \<open>
  C39. Nothing is lost from an inbox while the dispatcher keeps it: in every reachable state an event
  that the inbox accepted is either still in it, unchanged, or has left it for exactly one recorded
  reason; one that left because a turn ended had been injected before, and a permission request or an
  error leaves only after such a turn, for a restart, or when the inbox overflows.
\<close>

theorem herd_events_accounted:
  assumes "herd_reach lc s" "get_inbox i s = Some ib" "(q, e) \<in> set (hi_accepted ib)"
  shows "(\<exists>x \<in> set (hi_entries ib). ie_seq x = q \<and> ie_event x = e) \<noteq> (\<exists>w. (q, w) \<in> set (hi_gone ib))
    \<and> (\<forall>w w'. (q, w) \<in> set (hi_gone ib) \<longrightarrow> (q, w') \<in> set (hi_gone ib) \<longrightarrow> w = w')
    \<and> ((q, ByTurn) \<in> set (hi_gone ib) \<longrightarrow> q \<in> set (hi_injected ib))
    \<and> (\<forall>w. (q, w) \<in> set (hi_gone ib) \<longrightarrow> critical e \<longrightarrow> w = ByTurn \<or> w = ByOverflow \<or> w = ByRestart)"
proof -
  have ok: "inbox_ok lc ib" by (rule herd_okD [OF herd_reach_ok [OF assms(1)] assms(2)])
  note a = inbox_okD(4) [OF ok]
  have j: "justified ib" using ok by (simp add: inbox_ok_def core_ok_def)
  have same: "e' = e" if "(q, e') \<in> set (hi_accepted ib)" for e' using accepted_unique [OF a assms(3) that] by simp
  have x: "ie_event x = e" if "x \<in> set (hi_entries ib)" "ie_seq x = q" for x
    using same justified_entry [OF j that(1)] that(2) by simp
  have "q \<in> fst ` set (hi_accepted ib)" using assms(3) by force
  then have "q < hi_nextSeq ib" using a by (simp add: accounted_def flip: set_map)
  then have u: "q \<in> ie_seq ` set (hi_entries ib) \<or> q \<in> fst ` set (hi_gone ib)" using a unfolding accounted_def by blast
  have d: "\<not> (q \<in> ie_seq ` set (hi_entries ib) \<and> q \<in> fst ` set (hi_gone ib))" using a unfolding accounted_def by blast
  have l: "(\<exists>x \<in> set (hi_entries ib). ie_seq x = q \<and> ie_event x = e) \<longleftrightarrow> q \<in> ie_seq ` set (hi_entries ib)" using x by blast
  have r: "(\<exists>w. (q, w) \<in> set (hi_gone ib)) \<longleftrightarrow> q \<in> fst ` set (hi_gone ib)" by force
  have one: "(\<exists>x \<in> set (hi_entries ib). ie_seq x = q \<and> ie_event x = e) \<noteq> (\<exists>w. (q, w) \<in> set (hi_gone ib))"
    unfolding l r using u d by blast
  have unique: "w = w'" if "(q, w) \<in> set (hi_gone ib)" "(q, w') \<in> set (hi_gone ib)" for w w'
    using a that unfolding accounted_def by (metis eq_key_imp_eq_value)
  have why: "w = ByTurn \<or> w = ByOverflow \<or> w = ByRestart" if "(q, w) \<in> set (hi_gone ib)" "critical e" for w
    using justified_gone [OF j that(1)] same that(2) by (auto simp: may_go_def)
  have sent: "q \<in> set (hi_injected ib)" if "(q, ByTurn) \<in> set (hi_gone ib)" using justified_gone [OF j that] by simp
  show ?thesis by (intro conjI allI impI) (rule one, rule unique, assumption+, rule sent, assumption, rule why)
qed

section \<open>Bounds\<close>

lemma cap_gone:
  "hi_gone (cap_inbox ib) = hi_gone ib \<or> (\<exists>vs. vs \<noteq> [] \<and> set vs \<subseteq> set (hi_entries ib)
     \<and> hi_gone (cap_inbox ib) = hi_gone ib @ map (\<lambda>e. (ie_seq e, ByOverflow)) (filter (\<lambda>e. ie_seq e \<in> set (map ie_seq vs)) (hi_entries ib))
     \<and> set (hi_entries (cap_inbox ib)) \<subseteq> set (hi_entries ib)
     \<and> (length (hi_entries ib) \<le> Suc INBOX_CAP \<longrightarrow> (\<exists>e \<in> set vs. critical (ie_event e)) \<longrightarrow> (\<forall>e \<in> set (hi_entries ib). critical (ie_event e))))"
proof (cases "length (hi_entries ib) \<le> INBOX_CAP")
  case False
  define excess where "excess = length (hi_entries ib) - INBOX_CAP"
  define vs where "vs = (if excess \<le> length (non_critical excess (hi_entries ib)) then non_critical excess (hi_entries ib) else take excess (hi_entries ib))"
  have pos: "0 < excess" using False by (simp add: excess_def)
  have "vs \<noteq> []" using pos False by (auto simp: vs_def)
  moreover have "set vs \<subseteq> set (hi_entries ib)" by (auto simp: vs_def non_critical_def dest: in_set_takeD)
  moreover have "\<forall>e \<in> set (hi_entries ib). critical (ie_event e)"
    if "length (hi_entries ib) \<le> Suc INBOX_CAP" "\<exists>e \<in> set vs. critical (ie_event e)"
  proof -
    have one: "excess = 1" using that(1) pos by (simp add: excess_def)
    have "\<not> critical (ie_event e)" if "e \<in> set (non_critical n es)" for e n es
      using that by (auto simp: non_critical_def dest: in_set_takeD)
    then have "\<not> excess \<le> length (non_critical excess (hi_entries ib))" using that(2) by (auto simp: vs_def split: if_splits)
    then have "filter (\<lambda>e. \<not> critical (ie_event e)) (hi_entries ib) = []" using one
      by (cases "filter (\<lambda>e. \<not> critical (ie_event e)) (hi_entries ib)") (simp_all add: non_critical_def)
    then show ?thesis by (simp add: filter_empty_conv)
  qed
  moreover have "hi_gone (cap_inbox ib) = hi_gone ib @ map (\<lambda>e. (ie_seq e, ByOverflow)) (filter (\<lambda>e. ie_seq e \<in> set (map ie_seq vs)) (hi_entries ib))"
    "set (hi_entries (cap_inbox ib)) \<subseteq> set (hi_entries ib)"
    using False by (auto simp: cap_inbox_def Let_def excess_def [symmetric] vs_def [symmetric])
  ultimately show ?thesis by (intro disjI2 exI [of _ vs]) blast
qed (simp add: cap_inbox_def)

text \<open>A critical event is dropped only from an inbox that holds nothing else.\<close>

lemma overflow_critical:
  assumes "inbox_ok (he_compare env) ib" "\<not> isDuplicate env event ib"
    "(q, ByOverflow) \<in> set (hi_gone (accept_event env i event held ib)) - set (hi_gone ib)"
    "(q, e) \<in> set (hi_accepted (accept_event env i event held ib))" "critical e"
  shows "\<forall>x \<in> set (hi_entries (accept_event env i event held ib)). critical (ie_event x)"
proof -
  define e1 where "e1 = overrideQuietForBoardChange event (leader_board env i)"
  obtain e2 ib1 where m: "mergeEarlierHeldQuietTurn env ib e1 = (e2, ib1)" by force
  define p where "p = push_entry env e2 (resolveEventThreadRoute env e2) held ib1"
  have acc: "accept_event env i event held ib = cap_inbox p" by (simp add: accept_event_def Let_def m p_def flip: e1_def)
  have "inbox_ok (he_compare env) ib1" using merged_ok [OF assms(1) m] by simp
  then have len: "length (hi_entries p) \<le> Suc INBOX_CAP" unfolding p_def by (intro push_caps(1)) (auto dest: inbox_okD)
  have "(q, ByOverflow) \<notin> set (hi_gone p)"
  proof -
    have "(q, ByOverflow) \<in> set (hi_gone ib1) \<Longrightarrow> (q, ByOverflow) \<in> set (hi_gone ib)"
      using m by (auto simp: mergeEarlierHeldQuietTurn_def split: if_splits option.splits)
    then show ?thesis using assms(3) by (auto simp: p_def push_entry_def)
  qed
  then obtain vs where vs: "set vs \<subseteq> set (hi_entries p)" "q \<in> ie_seq ` set vs" "set (hi_entries (cap_inbox p)) \<subseteq> set (hi_entries p)"
    "(\<exists>x \<in> set vs. critical (ie_event x)) \<longrightarrow> (\<forall>x \<in> set (hi_entries p). critical (ie_event x))"
    using cap_gone [of p] assms(3) len unfolding acc by auto
  have ok': "inbox_ok (he_compare env) (cap_inbox p)" using accept_event_ok [of env ib event i held] assms(1,2) acc by simp
  obtain x where x: "x \<in> set vs" "ie_seq x = q" using vs(2) by blast
  have p_ok: "core_ok (he_compare env) p"
    unfolding p_def by (rule push_ok) (use merged_ok [OF assms(1) m] assms(2) in \<open>auto simp: isDuplicate_def inboxHasEventKey_def e1_def list_ex_iff dest: inbox_okD split: option.splits\<close>)
  have "hi_accepted (cap_inbox p) = hi_accepted p" by (simp add: cap_inbox_def Let_def)
  moreover have "(ie_seq x, ie_event x) \<in> set (hi_accepted p)"
    using p_ok x(1) vs(1) justified_entry [of p x] by (auto simp: core_ok_def)
  ultimately have "ie_event x = e" using accepted_unique [OF inbox_okD(4) [OF ok'], of q e "ie_event x"] assms(4) x(2) unfolding acc by simp
  then show ?thesis using assms(5) vs x(1) unfolding acc by blast
qed

text \<open>
  Bounded, and the important events last: in every reachable state an inbox holds at most 200
  events in the order they came, its delivery history at most 50 records and its memory of
  keys at most 500; and when an accepted event makes it overflow, a permission request or an error is
  dropped only from an inbox that holds nothing else.
\<close>

lemma herd_inbox_bounded:
  assumes "herd_reach lc s" "get_inbox i s = Some ib"
  shows "length (hi_entries ib) \<le> 200 \<and> length (hi_history ib) \<le> 50 \<and> length (hi_recentEventKeys ib) \<le> 500
    \<and> sorted_wrt (<) (map ie_seq (hi_entries ib))
    \<and> (he_compare env = lc \<longrightarrow> \<not> isDuplicate env event ib
       \<longrightarrow> (q, ByOverflow) \<in> set (hi_gone (accept_event env i event held ib)) - set (hi_gone ib)
       \<longrightarrow> (q, e) \<in> set (hi_accepted (accept_event env i event held ib)) \<longrightarrow> critical e
       \<longrightarrow> (\<forall>x \<in> set (hi_entries (accept_event env i event held ib)). critical (ie_event x)))"
proof -
  have ok: "inbox_ok lc ib" by (rule herd_okD [OF herd_reach_ok [OF assms(1)] assms(2)])
  then show ?thesis using inbox_okD(2,4) [OF ok] overflow_critical [of env ib event q i held e]
    by (simp add: caps_ok_def accounted_def INBOX_CAP_def HISTORY_CAP_def RECENT_EVENT_DEDUPE_CAP_def)
qed

text \<open>
  A repeated event is ignored: in every reachable state no two events of an inbox have the
  same key, and an event whose key belongs to an event that waits, was recently delivered, or stands
  in the leader's history does not enter the inbox.
\<close>

lemma repeated_event_ignored:
  assumes "herd_reach lc s" "get_inbox i s = Some ib" "he_compare env = lc" "getStableHerdEventKey lc event = Some k"
    "(\<exists>x \<in> set (hi_entries ib). getStableHerdEventKey lc (ie_event x) = Some k) \<or> map_of (hi_recentEventKeys ib) k \<noteq> None
      \<or> k \<in> set (getCommittedHerdEventKeys (leader_history env i))"
  shows "(\<exists>ib'. get_inbox i (onWorkerEvent env i event s) = Some ib' \<and> hi_entries ib' = hi_entries ib \<and> hi_accepted ib' = hi_accepted ib)
    \<and> (\<forall>x \<in> set (hi_entries ib). \<forall>y \<in> set (hi_entries ib).
        getStableHerdEventKey lc (ie_event x) = Some k \<longrightarrow> getStableHerdEventKey lc (ie_event y) = Some k \<longrightarrow> x = y)"
proof -
  have ok: "inbox_ok lc ib" by (rule herd_okD [OF herd_reach_ok [OF assms(1)] assms(2)])
  have "isDuplicate env event ib \<or> isCommitted env i event"
    using assms(3-5) by (auto simp: isDuplicate_def isCommitted_def inboxHasEventKey_def list_ex_iff)
  then have "\<exists>ib'. get_inbox i (onWorkerEvent env i event s) = Some ib' \<and> hi_entries ib' = hi_entries ib \<and> hi_accepted ib' = hi_accepted ib"
    using assms(2) by (auto simp: onWorkerEvent_def split: delivery_policy.split)
  moreover have "x = y" if "x \<in> set (hi_entries ib)" "y \<in> set (hi_entries ib)"
    "getStableHerdEventKey lc (ie_event x) = Some k" "getStableHerdEventKey lc (ie_event y) = Some k" for x y
    using entry_inj [OF inbox_okD(4) [OF ok] that(1,2)] keys_onceD [OF _ that] ok by (simp add: inbox_ok_def core_ok_def)
  ultimately show ?thesis by blast
qed

section \<open>What settles an event\<close>

definition settled :: "herd_inbox \<Rightarrow> nat set" where
  "settled ib = {q. (q, ByTurn) \<in> set (hi_gone ib)}"

lemma settled_remove: "settled (remove_entries P w ib) = settled ib \<union> (if w = ByTurn then {ie_seq e | e. e \<in> set (hi_entries ib) \<and> P e} else {})"
  by (auto simp: settled_def)

lemma settled_same: "hi_gone ib' = hi_gone ib \<Longrightarrow> settled ib' = settled ib"
  by (simp add: settled_def)

lemma settled_notes [simp]:
  "settled (recomputeInboxWatermarks ib) = settled ib" "settled (mark_all st es ib) = settled ib"
  "settled (markDeliveryHistoryStatus st e ib) = settled ib" "settled (change_entry q f ib) = settled ib"
  "settled (hi_timer_update g ib) = settled ib" "settled (rememberDeliveredEventKeys env evs ib) = settled ib"
  "settled (hi_injected_update h ib) = settled ib" "settled (update_note e f' ib) = settled ib" "settled (hi_lastEmittedMsgTo_update f'' ib) = settled ib"
  by (simp_all add: settled_def)

lemma settled_prune [simp]: "settled (snd (pruneStaleBoardStallEntries env i ib)) = settled ib"
  by (simp add: pruneStaleBoardStallEntries_def Let_def settled_remove split: option.split)














section \<open>A run\<close>

definition herd_demo_env :: "number \<Rightarrow> history_entry list \<Rightarrow> herd_env" where
  "herd_demo_env now history = \<lparr>he_now = now, he_stopping = False, he_preserving = False,
     he_session = (\<lambda>i. if i = ''l'' then Some \<lparr>ld_history = history, ld_codex = False, ld_claimedQuestId = None, ld_board = None,
       ld_pendingInputs = []\<rparr> else None),
     he_idle = (\<lambda>i. True), he_hostOffline = (\<lambda>i. False), he_wakeIdleKilled = (\<lambda>i. False), he_wakeUnavailable = (\<lambda>i. False),
     he_herdedSessions = (\<lambda>i. if i = ''l'' then [''w''] else []), he_launcherQuest = (\<lambda>i. None), he_sessionNum = (\<lambda>i. None),
     he_sessionName = (\<lambda>i. None), he_isScribe = (\<lambda>i. False), he_compare = (\<lambda>a b. 0), he_boardRow = None,
     he_stallSignature = None, he_dispatchableSignature = None\<rparr>"

definition herd_demo_message :: history_entry where
  "herd_demo_message = \<lparr>hy_userMessage = True, hy_id = Some ''m1'', hy_agentSource = Some HERD_AGENT, hy_herdEventKeys = [],
     hy_threadKey = None, hy_questId = None, hy_threadRefs = [], hy_content = None\<rparr>"

definition herd_demo_answers :: "nat \<Rightarrow> delivery \<times> herd_env" where
  "herd_demo_answers k = (Sent, herd_demo_env 500 [herd_demo_message])"

text \<open>An error of the worker is delivered to the idle leader half a second later; then another one comes.\<close>

definition herd_demo_delivered :: herd_state where
  "herd_demo_delivered = emitTakodeEvent (herd_demo_env 600 [herd_demo_message]) ''w'' (PermissionRequest None) None
     (timer_fires (herd_demo_env 500 []) herd_demo_answers ''l''
       (emitTakodeEvent (herd_demo_env 0 []) ''w'' SessionError None (setupForOrchestrator (herd_demo_env 0 []) ''l'' new_dispatcher)))"

definition herd_demo_settled :: herd_state where
  "herd_demo_settled = onOrchestratorTurnEnd (herd_demo_env 700 [herd_demo_message]) herd_demo_answers ''l'' ''result'' (Some [''m1'']) herd_demo_delivered"

definition herd_demo_inbox :: "herd_state \<Rightarrow> herd_inbox" where
  "herd_demo_inbox s = the (get_inbox ''l'' s)"

lemma herd_demo_run:
  "get_inbox ''l'' herd_demo_delivered = Some (herd_demo_inbox herd_demo_delivered)"
  "get_inbox ''l'' herd_demo_settled = Some (herd_demo_inbox herd_demo_settled)"
  by code_simp+

lemma herd_demo_inboxes:
  "hi_gone (herd_demo_inbox herd_demo_delivered) = []"
  "map ie_seq (filter (owned_by (Some [''m1''])) (hi_entries (herd_demo_inbox herd_demo_delivered))) = [0]"
  "hi_gone (herd_demo_inbox herd_demo_settled) = [(0, ByTurn)]"
  "map fst (hi_accepted (herd_demo_inbox herd_demo_settled)) = [0, 1]"
  by code_simp+

lemma herd_demo_reach: "herd_reach (\<lambda>a b. 0) herd_demo_delivered" "herd_reach (\<lambda>a b. 0) herd_demo_settled"
proof -
  show d: "herd_reach (\<lambda>a b. 0) herd_demo_delivered" unfolding herd_demo_delivered_def
    by (rule herd_reach.step [OF herd_reach.step [OF herd_reach.step [OF herd_reach.step [OF herd_reach.start sets_up] emits] timer] emits])
      (simp_all add: herd_demo_env_def)
  show "herd_reach (\<lambda>a b. 0) herd_demo_settled" unfolding herd_demo_settled_def by (rule herd_reach.step [OF d turn_ends])
qed

lemma herd_events_accounted_witness:
  "0 \<in> set (hi_injected (herd_demo_inbox herd_demo_settled)) \<and> hi_gone (herd_demo_inbox herd_demo_settled) = [(0, ByTurn)]"
proof -
  have "0 \<in> set (map fst (hi_accepted (herd_demo_inbox herd_demo_settled)))" by (simp add: herd_demo_inboxes)
  then obtain e where "(0, e) \<in> set (hi_accepted (herd_demo_inbox herd_demo_settled))" by auto
  from herd_events_accounted [OF herd_demo_reach(2) herd_demo_run(2) this] show ?thesis by (simp add: herd_demo_inboxes)
qed


section \<open>A delivery that stops half-way\<close>

text \<open>
  Two events of different conversations are delivered as two messages. When the bridge takes the first
  and only queues the second, the delivery is to be tried again, but the first is not marked as
  delivered: the next attempt sends its event a second time.
\<close>

definition herd_demo_stopping :: "nat \<Rightarrow> delivery \<times> herd_env" where
  "herd_demo_stopping k = (if k = 0 then Sent else QueuedDelivery, herd_demo_env 500 [herd_demo_message])"

definition herd_demo_twice :: herd_state where
  "herd_demo_twice =
     timer_fires (herd_demo_env 2500 [herd_demo_message]) herd_demo_answers ''l''
       (timer_fires (herd_demo_env 500 []) herd_demo_stopping ''l''
         (emitTakodeEvent (herd_demo_env 100 []) ''w'' (PermissionRequest (Some ''q-1'')) None
           (emitTakodeEvent (herd_demo_env 0 []) ''w'' SessionError None (setupForOrchestrator (herd_demo_env 0 []) ''l'' new_dispatcher))))"

definition sent_events :: "herd_state \<Rightarrow> nat list list" where
  "sent_events s = concat (map (\<lambda>x. case x of Injected i es r Sent \<Rightarrow> [map tv_id es] | _ \<Rightarrow> []) (hd_effects s))"

lemma half_delivery_sends_twice: "sent_events herd_demo_twice = [[0], [0], [1]]"
  by code_simp

end
