(* ===== verification/Spec2Isabelle.thy ===== *)
theory Spec2Isabelle
  imports Lease_Properties Landing_History Landing_Gates Thread_Markers Timer_Sweep List_Sync
    Delivery_Tracker Thread_Tabs Link_Recovery Herd_Properties
begin

text \<open>
  A verification development for takode: a server that runs coding agents in sessions, coordinates
  them (leaders, workers, shared resources, landings on a shared branch) and shows them in browsers.
  All paths are below \<open>src/web\<close> of the repository, the server's files below \<open>server\<close>, the files
  both sides use below \<open>shared\<close>.

  The development models the server's coordination core, the parts where state is kept across many
  operations and where an error loses work: the resource leases, the landing queue that
  rests on them, timers, the tracking of messages, the events of workers, the link to remote hosts, the lists and tabs the
  browsers share with the server, and the parsers of the names and markers that route messages.

  \<^bold>\<open>How the parts interact.\<close> A session that needs a shared resource acquires a slot of a pool from the
  lease manager, or waits in its queue; when the slot is free the manager sends it a message of
  labelled lines, which the browser's feed parses. The landing queue takes the changes sessions submit
  to a target and lands them in runs: it waits for the port lease of the target (through the
  interface \<open>deps.leases\<close>), starts a runner, and hands it a batch; the runner reports a push plan
  and an outcome of every change. Timers send messages to sessions at their times. A leader's messages
  carry thread markers, which name the conversation a message belongs to; the open conversations
  are the tabs of the leader. A message to a session that is not running is tracked until it
  is delivered. What happens in the sessions of a leader's workers reaches the leader as events in its
  inbox. Lists of sessions are sent to the browsers as what changed since the list they hold.
  A session's process may run on another machine: then the coordinator drives it over the host link.

  \<^bold>\<open>Conventions.\<close> Definitions carry the names of the source where Isabelle allows it, field names
  a prefix of their record. An operation is a function from the state before to its result and
  the state after; one that throws returns \<open>Inl\<close> and the state it left. Managers that queue
  their operations (\<open>runExclusive\<close>) are modelled one whole operation at a time; where an operation
  awaits without such a queue and a property depends on the order, the interleavings are steps
  (the deferred tasks of the landing queue, the messages of the host link, the lists' messages). The
  operations of the timer manager are run to their ends, although the code lets them interleave at
  their reads and writes; what goes wrong then is among the findings. Effects the code does not read back (messages, notices, processes) are appended to
  a log. Times and other fractional numbers are rationals, the numbers of untrusted
  input have the infinities and NaN as well, counters (the ids of waiters and timers) are natural numbers
  where the source has a double; 32-bit hashing is done on words. Strings are
  sequences of Latin-1 code units. A file is the JSON value its text parses to, \<open>None\<close> when there is
  none or it does not parse; writes succeed. The clock, random ids, the time zone,
  \<open>localeCompare\<close>, \<open>JSON.stringify\<close> and what other components answer are arguments.
  A few definitions quantify over sets that are no program state (reachable states, the readings of the
  invariants); every operation of the program computes.

  \<^bold>\<open>Prelude.\<close> \<open>Js_Prelude\<close>: numbers, strings, objects as association lists in the
  order of their keys, errors as sums, and the lemmas on lists and maps the components share.
  \<open>Js_Json\<close>: JSON values, their conversions and printed dates.

  \<^bold>\<open>Resource leases.\<close> \<open>Lease_Store\<close> is \<open>resource-lease-types.ts\<close> and \<open>resource-lease-store.ts\<close>: the records and
  the normalisation of the file; \<open>Lease_Manager\<close> is \<open>resource-lease-manager.ts\<close>, with
  every public method and its helpers (\<open>acquire\<close>, \<open>wait\<close>, \<open>renew\<close>, \<open>release\<close>, \<open>withdraw\<close>, \<open>configure\<close>,
  \<open>sweepExpiredNow\<close>, \<open>promoteWaiters\<close>); \<open>Lease_Message\<close> is \<open>shared/resource-lease-message.ts\<close>.
  \<open>Lease_Invariant\<close> states the invariant of the pools and proves that the elementary updates keep it,
  \<open>Lease_Operations\<close> that every operation does, \<open>Lease_Tickets\<close> that the ids of waiters are distinct,
  \<open>Lease_Properties\<close> what follows for reachable states: capacity,
  one place per session, no idle slot beside a waiter, the answers of each operation, and that
  the file is always the state. The loop of \<open>promoteWaiters\<close> recurs over the
  queue as it stood, which it only shortens, so no fuel is needed.

  \<^bold>\<open>Landing queue.\<close> \<open>Landing_Types\<close> is \<open>shared/landing-queue.ts\<close>, \<open>Landing_Manager\<close> is \<open>landing-queue-manager.ts\<close> with
  its file (\<open>landing-queue-store.ts\<close>), \<open>Landing_Gates\<close> is \<open>landing-gate-store.ts\<close> and the parser of gate
  documents. What the queue needs of the lease manager is the locale \<open>lease_service\<close> of \<open>Landing_Service\<close>,
  extended by \<open>exclusive_lease_service\<close>; the interpretation \<open>lease_manager\<close> discharges its laws with the model
  of the lease manager, and the properties about leases rest on it. \<open>Landing_Invariant\<close> states how entries, runs and launches
  agree and proves that every operation keeps it; \<open>Landing_Runs\<close> says what claiming, finishing,
  interrupting and reconciling do to the changes of a run; \<open>Landing_Properties\<close> puts the queue beside
  the lease manager as one system with its deferred tasks in any order. The code does not check that a
  finish report keeps to the entries of its run, so \<open>landing_step\<close> has a flag: with \<open>False\<close> any report
  is a step, with \<open>True\<close> only one whose outcomes are about its own run, and each property says which
  it needs; \<open>Landing_Recovery\<close> covers runners,
  push plans and retries; \<open>Landing_History\<close> shows that resolved changes stay resolved and that the
  file holds what the queue holds.

  \<^bold>\<open>Names and markers.\<close> \<open>Thread_Keys\<close> is \<open>shared/topic-thread-key.ts\<close>, \<open>shared/leader-user-message-id.ts\<close> and the names of
  \<open>shared/thread-routing.ts\<close>; \<open>Thread_Markers\<close> is the rest of \<open>thread-routing.ts\<close>, its regular expressions written out as
  matchers. The loop that skips taken message ids (\<open>skip_taken\<close>) runs on fuel, one more than the number of ids
  given out so far; that this is enough is part of \<open>user_message_ids_assigned\<close>. \<open>Thread_Tabs\<close> is the reducer of
  \<open>shared/leader-open-thread-tabs.ts\<close>; its invariant says the tabs are distinct, canonical, bounded and not closed.

  \<^bold>\<open>Timers.\<close> \<open>Timer_Parse\<close> is \<open>timer-parse.ts\<close> and \<open>timer-types.ts\<close>; \<open>Timer_Manager\<close> is \<open>timer-store.ts\<close> and
  \<open>timer-manager.ts\<close>. \<open>Timer_Invariant\<close> relates memory and files, \<open>Timer_Sweep\<close> says what a sweep fires,
  and exhibits three findings on concrete runs.

  \<^bold>\<open>Synchronised lists.\<close> \<open>List_Delta\<close> is \<open>shared/keyed-list-delta.ts\<close>, \<open>List_Versions\<close> the server's
  \<open>bridge/keyed-list-versions.ts\<close> with the hash of \<open>shared/snapshot-part-hash.ts\<close>, \<open>List_Sync\<close> the browser's
  \<open>src/utils/synced-lists.ts\<close> and the protocol between them. Lists are compared by hash, so convergence
  has the hypothesis that the lists the server held have different hashes; without it a browser
  could hold a list whose hash collides with the current one.

  \<^bold>\<open>Messages under way.\<close> \<open>Delivery_Tracker\<close> is \<open>message-delivery-tracker.ts\<close>: tracking, evaluation against a probe's
  answer, the tick, and the production probe.

  \<^bold>\<open>Host link.\<close> \<open>Host_Link\<close> is \<open>remote-host/host-link-manager.ts\<close>, \<open>remote-host/host-agent.ts\<close> and \<open>shared/host-protocol.ts\<close>
  for one host: numbered commands, numbered events per process, hello and welcome, acknowledgements,
  adoption by a new coordinator. Each side also has fields marked history (what was numbered, what was
  carried out), which no operation reads. \<open>Link_System\<close> joins both sides with messages in flight;
  \<open>link_step\<close> allows every order of reads, drops, connects and restarts, with any starts failing. Its flag
  says which runs are meant: with \<open>False\<close> those of the code, with \<open>True\<close> the orderly ones, where a host
  connects beside an old connection still taken for alive only when both know each other, a
  node restarts only when no failed start is half reported, and a host is given up only when its node is
  gone. None of these conditions is checked by the code: \<open>Link_Runs\<close> shows on concrete runs what
  goes wrong without the first two, and further findings. The properties are about orderly runs.
  \<open>Link_Streams\<close>, \<open>Link_Coordinator\<close>, \<open>Link_Reads\<close>, \<open>Link_Host\<close> and \<open>Link_Host_Reads\<close> prove that each step
  keeps the invariants of \<open>Link_Invariant\<close>; \<open>Link_Safety\<close> says that commands are carried
  out in order and once and that no event is lost, \<open>Link_Recovery\<close> that a fresh connection completes
  both directions unless the host was stopped or follows a later coordinator.

  \<^bold>\<open>Herd events.\<close> \<open>Herd_Events\<close> is the data of \<open>takode-event-types.ts\<close> that delivery reads, the keys of
  \<open>herd-event-keys.ts\<close>, \<open>herd-quiet-turns.ts\<close>, \<open>worker-report-event.ts\<close> and the conversation of an event;
  \<open>Herd_Inbox\<close> and \<open>Herd_Dispatcher\<close> are \<open>herd-event-dispatcher.ts\<close>: a leader's inbox and its delivery, and the
  dispatcher with its timers, subscriptions, restart preparation and shutdown. What it reads from the bridge is
  an environment (\<open>herd_env\<close>), arbitrary at each step, and so are the bridge's answers. Inboxes carry three history fields
  (accepted, injected, gone), which no operation reads. \<open>Herd_Invariant\<close> and \<open>Herd_Operations\<close> prove the invariant
  of the inboxes for every order of operations; \<open>Herd_Properties\<close> says that no accepted event is lost without a reason,
  that inboxes are bounded and ignore repeated events, and which turns settle an event.

  \<^bold>\<open>What modelling showed.\<close> A finish report may settle changes the run never carried
  (\<open>finish_accepts_foreign_outcomes\<close>); a purpose of several lines is misread from its message
  (\<open>two_line_purpose_misread\<close>); two creations of a first timer lose one of them, a creation that fails keeps its
  timer, and durations below a second are accepted (\<open>Timer_Sweep\<close>); over the host link a start that is acknowledged but not reported is
  lost with its node, a reconnect forgets an unfinished line, a command issued before the hello
  of a restarted node is carried out twice, and a half reported failed start hides its successor
  (\<open>Link_Runs\<close>); a delivery that stops half-way sends events twice (\<open>half_delivery_sends_twice\<close>).

  \<^bold>\<open>Not modelled.\<close> The server's bridge to agents and browsers (\<open>ws-bridge.ts\<close> and \<open>bridge/*\<close>: session
  registry, Codex recovery, board watchdog), the launcher of processes (\<open>cli-launcher*.ts\<close>), the adapters of
  the agents' protocols, the HTTP routes, and the user interface are event-driven glue around the
  file system, child processes, sockets and React, with their state spread over records of a
  hundred fields; a faithful model would mostly consist of parameters. Quests, journeys and boards, memory,
  artifacts and transcription are left to later work. Within modelled parts: times of intervals and debouncing,
  the retention of failed writes, the text of herd events and the idle state of leaders, heartbeats, updates and one-shot requests of the host link, and
  logging.
\<close>

end
